(* ===== verification/Prelude.thy ===== *)
theory Prelude
  imports Main "HOL-Library.Word"
begin

text \<open>
  Shared vocabulary of the development: the machine integer types of the C sources, the
  result type in which every panic, halt and invalid memory access of the kernel is a value,
  byte-array access with the bounds written out, and the generic lemmas on lists and words
  that the component theories use.
\<close>

unbundle bit_operations_syntax

section \<open>Machine integers\<close>

type_synonym u8 = "8 word"
type_synonym u16 = "16 word"
type_synonym u32 = "32 word"
type_synonym u64 = "64 word"

text \<open>Collections that the component proofs pass to the simplifier.\<close>

named_theorems res_simps "computation rules of the result type"
named_theorems word_nat "transfer of word comparisons and arithmetic to natural numbers"

declare word_less_nat_alt [word_nat] word_le_nat_alt [word_nat] unat_of_nat [word_nat]

section \<open>Results: errors as values\<close>

text \<open>
  \<open>Panic\<close> is a call of \<^verbatim>\<open>panic()\<close> with its message, \<open>Halted\<close> a call of
  \<^verbatim>\<open>halt_forever()\<close>, \<open>Invalid_Access\<close> an access outside the object the code
  addresses (undefined behaviour in C), \<open>Diverges\<close> a loop that never leaves.
\<close>

datatype kerror = Panic string | Halted | Invalid_Access | Diverges

type_synonym 'a res = "kerror + 'a"

definition res_bind :: "'a res \<Rightarrow> ('a \<Rightarrow> 'b res) \<Rightarrow> 'b res" where
  "res_bind m f = (case m of Inl e \<Rightarrow> Inl e | Inr x \<Rightarrow> f x)"

lemma res_bind_Inl [simp, res_simps]: "res_bind (Inl e) f = Inl e"
  by (simp add: res_bind_def)

lemma res_bind_Inr [simp, res_simps]: "res_bind (Inr x) f = f x"
  by (simp add: res_bind_def)

lemma res_bind_eq_Inr:
  "res_bind m f = Inr y \<longleftrightarrow> (\<exists>x. m = Inr x \<and> f x = Inr y)"
  by (cases m) auto

lemma res_bind_eq_Inl:
  "res_bind m f = Inl e \<longleftrightarrow> m = Inl e \<or> (\<exists>x. m = Inr x \<and> f x = Inl e)"
  by (cases m) auto

lemma res_bind_split:
  "P (res_bind m f) \<longleftrightarrow> (\<forall>e. m = Inl e \<longrightarrow> P (Inl e)) \<and> (\<forall>x. m = Inr x \<longrightarrow> P (f x))"
  by (cases m) auto

lemma res_bind_cong [fundef_cong]:
  "m = m' \<Longrightarrow> (\<And>x. m' = Inr x \<Longrightarrow> f x = g x) \<Longrightarrow> res_bind m f = res_bind m' g"
  by (cases m') auto

text \<open>A loop over a list of values, each step of which may fail.\<close>

fun res_fold :: "('a \<Rightarrow> 's \<Rightarrow> 's res) \<Rightarrow> 'a list \<Rightarrow> 's \<Rightarrow> 's res" where
  "res_fold f [] s = Inr s"
| "res_fold f (x # xs) s = res_bind (f x s) (res_fold f xs)"

lemma res_fold_append:
  "res_fold f (xs @ ys) s = res_bind (res_fold f xs s) (res_fold f ys)"
proof (induction xs arbitrary: s)
  case Nil
  then show ?case by simp
next
  case (Cons x xs)
  then show ?case by (cases "f x s") simp_all
qed

lemma res_total_if:
  assumes "b \<Longrightarrow> \<exists>v. x = Inr v \<and> P v" and "\<not> b \<Longrightarrow> \<exists>v. y = Inr v \<and> P v"
  shows "\<exists>v. (if b then x else y) = Inr v \<and> P v"
  using assms by (cases b) auto

lemma res_fold_total:
  assumes "P s" and "\<And>x s. x \<in> set xs \<Longrightarrow> P s \<Longrightarrow> \<exists>s'. f x s = Inr s' \<and> P s'"
  shows "\<exists>s'. res_fold f xs s = Inr s' \<and> P s'"
  using assms
proof (induction xs arbitrary: s)
  case Nil
  then show ?case by simp
next
  case (Cons x xs)
  from Cons.prems(2) [of x s] Cons.prems(1) obtain s1 where s1: "f x s = Inr s1" "P s1" by auto
  with Cons.IH [OF s1(2)] Cons.prems(2) show ?case by simp
qed

lemma res_fold_inv:
  assumes "res_fold f xs s = Inr s'" and "P s"
    and "\<And>x s s'. x \<in> set xs \<Longrightarrow> P s \<Longrightarrow> f x s = Inr s' \<Longrightarrow> P s'"
  shows "P s'"
  using assms
proof (induction xs arbitrary: s)
  case Nil
  then show ?case by simp
next
  case (Cons x xs)
  then obtain s1 where "f x s = Inr s1" "res_fold f xs s1 = Inr s'" by (auto simp: res_bind_eq_Inr)
  with Cons show ?case by (metis list.set_intros)
qed

section \<open>Byte arrays\<close>

text \<open>
  A C array object is the list of its elements. A read or a write outside it is
  \<open>Invalid_Access\<close>; \<open>blit\<close> is \<^verbatim>\<open>memcpy(dst + d, src + s, n)\<close> between two
  distinct objects, which touches nothing when \<open>n = 0\<close>.
\<close>

definition array_get :: "'a list \<Rightarrow> nat \<Rightarrow> 'a res" where
  "array_get xs i = (if i < length xs then Inr (xs ! i) else Inl Invalid_Access)"

definition array_set :: "'a list \<Rightarrow> nat \<Rightarrow> 'a \<Rightarrow> 'a list res" where
  "array_set xs i v = (if i < length xs then Inr (xs[i := v]) else Inl Invalid_Access)"

definition blit :: "'a list \<Rightarrow> nat \<Rightarrow> 'a list \<Rightarrow> nat \<Rightarrow> nat \<Rightarrow> 'a list res" where
  "blit dst d src s n =
     (if n = 0 then Inr dst
      else if d + n \<le> length dst \<and> s + n \<le> length src
      then Inr (take d dst @ take n (drop s src) @ drop (d + n) dst)
      else Inl Invalid_Access)"

lemma blit_0 [simp]: "blit dst d src s 0 = Inr dst"
  by (simp add: blit_def)

lemma blit_ok:
  assumes "d + n \<le> length dst" and "s + n \<le> length src"
  shows "blit dst d src s n = Inr (take d dst @ take n (drop s src) @ drop (d + n) dst)"
  using assms by (simp add: blit_def)

lemma blit_length: "blit dst d src s n = Inr r \<Longrightarrow> length r = length dst"
  by (auto simp: blit_def split: if_splits)

lemma blit_nth:
  assumes "blit dst d src s n = Inr r" and "i < length dst"
  shows "r ! i = (if d \<le> i \<and> i < d + n then src ! (s + (i - d)) else dst ! i)"
proof (cases "n = 0")
  case True
  with assms show ?thesis by (auto simp: blit_def)
next
  case False
  with assms have "d + n \<le> length dst" "s + n \<le> length src"
    and "r = take d dst @ take n (drop s src) @ drop (d + n) dst"
    by (auto simp: blit_def split: if_splits)
  with assms(2) show ?thesis by (auto simp: nth_append)
qed

section \<open>Allocators\<close>

text \<open>
  What a client of an allocator relies on: an allocation returns an address that was not live and
  makes exactly that address live; freeing a live address is defined and makes exactly it dead.
  The page allocator and the slab allocator are both proved to be of this kind.
\<close>

locale allocator =
  fixes alloc :: "'s \<Rightarrow> ('s \<times> 'a) res"
    and free :: "'a \<Rightarrow> 's \<Rightarrow> 's res"
    and live :: "'s \<Rightarrow> 'a set"
    and inv :: "'s \<Rightarrow> bool"
  assumes alloc_inv: "inv s \<Longrightarrow> alloc s = Inr (s', a) \<Longrightarrow> inv s'"
    and alloc_fresh: "inv s \<Longrightarrow> alloc s = Inr (s', a) \<Longrightarrow> a \<notin> live s"
    and alloc_live: "inv s \<Longrightarrow> alloc s = Inr (s', a) \<Longrightarrow> live s' = insert a (live s)"
    and free_live: "inv s \<Longrightarrow> a \<in> live s \<Longrightarrow> \<exists>s'. free a s = Inr s' \<and> inv s' \<and> live s' = live s - {a}"
begin

fun alloc_many :: "nat \<Rightarrow> 's \<Rightarrow> ('s \<times> 'a list) res" where
  "alloc_many 0 s = Inr (s, [])"
| "alloc_many (Suc n) s =
     res_bind (alloc s) (\<lambda>(s1, a). res_bind (alloc_many n s1) (\<lambda>(s2, as). Inr (s2, a # as)))"

lemma alloc_many_distinct:
  assumes "inv s" and "alloc_many n s = Inr (s', as)"
  shows "inv s' \<and> distinct as \<and> set as \<inter> live s = {} \<and> live s' = live s \<union> set as"
  using assms
proof (induction n arbitrary: s s' as)
  case 0
  then show ?case by simp
next
  case (Suc n)
  from Suc.prems(2) obtain s1 a as1 where a: "alloc s = Inr (s1, a)"
    and as1: "alloc_many n s1 = Inr (s', as1)" "as = a # as1"
    by (auto simp: res_bind_eq_Inr)
  have "inv s1" and fresh: "a \<notin> live s" "live s1 = insert a (live s)"
    using alloc_inv [OF Suc.prems(1) a] alloc_fresh [OF Suc.prems(1) a]
      alloc_live [OF Suc.prems(1) a] by simp_all
  with Suc.IH as1(1) have "inv s' \<and> distinct as1 \<and> set as1 \<inter> live s1 = {} \<and> live s' = live s1 \<union> set as1"
    by blast
  with fresh as1(2) show ?case by auto
qed

lemma alloc_free:
  assumes "inv s" and "alloc s = Inr (s', a)"
  shows "\<exists>s''. free a s' = Inr s'' \<and> inv s'' \<and> live s'' = live s"
proof -
  have "inv s'" "a \<in> live s'" "live s' - {a} = live s"
    using assms by (auto dest: alloc_inv alloc_fresh alloc_live)
  with free_live show ?thesis by metis
qed

lemma free_many:
  assumes "inv s" and "distinct as" and "set as \<subseteq> live s"
  shows "\<exists>s'. res_fold free as s = Inr s' \<and> inv s' \<and> live s' = live s - set as"
  using assms
proof (induction as arbitrary: s)
  case (Cons a as)
  from free_live [OF Cons.prems(1), of a] Cons.prems(3) obtain s1 where s1: "free a s = Inr s1" "inv s1"
    "live s1 = live s - {a}" by auto
  have "set as \<subseteq> live s1" using Cons.prems(2,3) s1(3) by auto
  with Cons.IH [OF s1(2)] Cons.prems(2) obtain s2 where "res_fold free as s1 = Inr s2" "inv s2" "live s2 = live s1 - set as" by auto
  with s1 show ?case by (auto intro: exI [of _ s2])
qed simp

lemma alloc_keeps:
  assumes "inv s" and "alloc s = Inr (s', a)" and "b \<in> live s"
  shows "b \<in> live s'" and "b \<noteq> a"
  using assms alloc_fresh alloc_live by auto

end

section \<open>Lists\<close>

lemma distinct_sorted_nth_less:
  "sorted_wrt (<) xs \<Longrightarrow> distinct (xs :: 'a :: linorder list)"
  by (induction xs) auto

lemma find_Some_split:
  assumes "find P xs = Some x"
  shows "P x \<and> (\<exists>ys zs. xs = ys @ x # zs \<and> (\<forall>y \<in> set ys. \<not> P y))"
  using assms
proof (induction xs)
  case Nil
  then show ?case by simp
next
  case (Cons a xs)
  show ?case
  proof (cases "P a")
    case True
    with Cons.prems have "x = a" by simp
    with True show ?thesis by (intro conjI exI [of _ "[]"] exI [of _ xs]) auto
  next
    case False
    with Cons.prems have "find P xs = Some x" by simp
    with Cons.IH obtain ys zs where "P x" "xs = ys @ x # zs" "\<forall>y \<in> set ys. \<not> P y" by blast
    with False show ?thesis by (intro conjI exI [of _ "a # ys"] exI [of _ zs]) auto
  qed
qed

lemma nth_update_extend:
  assumes "\<forall>j < n. xs ! j = (if a \<le> j \<and> j < a + k then f j else ys ! j)" and "length xs = n"
    and "v = f (a + k)"
  shows "\<forall>j < n. xs[a + k := v] ! j = (if a \<le> j \<and> j < a + Suc k then f j else ys ! j)"
proof (intro allI impI)
  fix j assume "j < n"
  with assms show "xs[a + k := v] ! j = (if a \<le> j \<and> j < a + Suc k then f j else ys ! j)"
    by (cases "j = a + k") auto
qed

lemma block_index:
  assumes "w \<le> (m :: nat)"
  shows "m * k \<le> j \<and> j < m * k + w \<longleftrightarrow> j div m = k \<and> j mod m < w"
proof
  assume j: "m * k \<le> j \<and> j < m * k + w"
  then obtain r where r: "j = m * k + r" "r < w" by (metis le_Suc_ex add_less_cancel_left)
  with assms show "j div m = k \<and> j mod m < w" by simp
next
  assume "j div m = k \<and> j mod m < w"
  moreover have "m * (j div m) + j mod m = j" by simp
  ultimately show "m * k \<le> j \<and> j < m * k + w" by (metis le_add1 add_less_cancel_left)
qed

section \<open>Words\<close>

lemma unat_add_no_wrap:
  "unat a + unat b < 2 ^ LENGTH('a) \<Longrightarrow> unat (a + b) = unat a + unat (b :: 'a :: len word)"
  by (simp add: unat_word_ariths)

lemma unat_sub_no_wrap:
  "b \<le> a \<Longrightarrow> unat (a - b) = unat a - unat (b :: 'a :: len word)"
  by (simp add: unat_sub)

lemma unat_of_nat_small:
  "n < 2 ^ LENGTH('a) \<Longrightarrow> unat (of_nat n :: 'a :: len word) = n"
  by (simp add: unat_of_nat take_bit_nat_eq_self)

lemma unat_succ: "(i :: 'a :: len word) < n \<Longrightarrow> unat (i + 1) = unat i + 1"
  by unat_arith

lemma unat_pred: "0 < (i :: 'a :: len word) \<Longrightarrow> unat (i - 1) = unat i - 1"
  by unat_arith

lemma word_succ_le_iff: "(i :: 'a :: len word) < n \<Longrightarrow> i + 1 \<le> x \<longleftrightarrow> i < x"
  by (simp add: word_le_nat_alt word_less_nat_alt unat_succ Suc_le_eq)

lemma word_less_pred_iff: "0 < (i :: 'a :: len word) \<Longrightarrow> x < i \<longleftrightarrow> x < i - 1 \<or> x = i - 1"
  by (auto simp: word_less_nat_alt unat_pred word_unat_eq_iff)

lemma word_succ_measure: "(i :: 'a :: len word) < n \<Longrightarrow> unat (n - (i + 1)) < unat (n - i)"
  by unat_arith

lemma unat_lt_64: "unat (x :: u64) < 2 ^ 64"
  using unsigned_less [of x, where ?'a = nat] by simp

text \<open>Masking with a power of two minus one is the remainder, shifting is division.\<close>

lemma unat_and_mask: "unat (w AND mask n) = unat (w :: 'a :: len word) mod 2 ^ n"
proof -
  have "unat (w AND mask n) = unat (take_bit n w)" by (simp add: take_bit_eq_mask)
  also have "\<dots> = take_bit n (unat w)" by (simp add: unsigned_take_bit_eq)
  finally show ?thesis by (simp add: take_bit_eq_mod)
qed

lemma unat_drop_bit: "unat (drop_bit n w) = unat (w :: 'a :: len word) div 2 ^ n"
  proof -
  have "unat (drop_bit n w) = drop_bit n (unat w)" by (rule unat_drop_bit_eq)
  then show ?thesis by (simp only: drop_bit_eq_div)
qed

lemma and_1_eq_bit_0: "(w AND 1 = (1 :: 'a :: len word)) \<longleftrightarrow> bit w 0"
  by (simp add: and_one_eq mod2_eq_if even_bit_succ_iff bit_0)

lemma unat_ucast_small:
  "unat w < 2 ^ LENGTH('b) \<Longrightarrow> unat (ucast (w :: 'a :: len word) :: 'b :: len word) = unat w"
  by (simp add: unsigned_ucast_eq take_bit_nat_eq_self)

lemma and_not_mask: "(a :: 'a :: len word) AND NOT (mask n) = a - (a AND mask n)"
proof -
  have "(a AND mask n) + (a AND NOT (mask n)) = (a AND mask n) OR (a AND NOT (mask n))"
    by (rule disjunctive_add_eq_or, rule bit_word_eqI) (simp add: bit_simps)
  also have "\<dots> = a" by (rule bit_word_eqI) (auto simp: bit_simps)
  finally show ?thesis by (simp add: algebra_simps)
qed

lemma unat_and_not_mask: "unat ((a :: 'a :: len word) AND NOT (mask n)) = unat a - unat a mod 2 ^ n"
proof -
  have "a AND mask n \<le> a" by (simp add: word_le_nat_alt unat_and_mask)
  then show ?thesis by (simp add: and_not_mask unat_sub_no_wrap unat_and_mask)
qed

lemma page_mask: "unat ((a :: u64) AND 0xFFFFFFFFFFFFF000) = unat a - unat a mod 4096"
proof -
  have "(0xFFFFFFFFFFFFF000 :: u64) = NOT (mask 12)" by (simp add: mask_eq_exp_minus_1)
  then show ?thesis using unat_and_not_mask [of a 12] by (simp only:) simp
qed

end
