(* ===== verification/KList.thy ===== *)
theory KList
  imports Prelude
begin

text \<open>
  \<^verbatim>\<open>kernel/src/lib/list.c\<close> and \<^verbatim>\<open>list.h\<close>: the intrusive doubly linked circular list that
  every kernel structure is threaded on. The heap of list nodes is a function from addresses to
  \<^verbatim>\<open>struct list_head\<close>; each operation performs the assignments of the source in their
  order. \<open>is_list h head xs\<close> says that the ring through \<open>head\<close> holds the entries \<open>xs\<close>; every
  operation is shown to implement the list operation of its name, and the locale
  \<open>linked_sequence\<close> states that contract for the components that iterate over lists.
\<close>

section \<open>The code\<close>

record list_head =
  lh_prev :: u64
  lh_next :: u64

type_synonym list_heap = "u64 \<Rightarrow> list_head"

definition set_prev :: "u64 \<Rightarrow> u64 \<Rightarrow> list_heap \<Rightarrow> list_heap" where
  "set_prev p v h = h(p := (h p)\<lparr>lh_prev := v\<rparr>)"

definition set_next :: "u64 \<Rightarrow> u64 \<Rightarrow> list_heap \<Rightarrow> list_heap" where
  "set_next p v h = h(p := (h p)\<lparr>lh_next := v\<rparr>)"

definition init_list :: "u64 \<Rightarrow> list_heap \<Rightarrow> list_heap" where
  "init_list head h = set_next head head (set_prev head head h)"

definition list_add :: "u64 \<Rightarrow> u64 \<Rightarrow> list_heap \<Rightarrow> list_heap" where
  "list_add new_entry head h =
     (let following = lh_next (h head);
          h1 = set_prev new_entry head h;
          h2 = set_next head new_entry h1;
          h3 = set_prev following new_entry h2
      in set_next new_entry following h3)"

definition list_add_tail :: "u64 \<Rightarrow> u64 \<Rightarrow> list_heap \<Rightarrow> list_heap" where
  "list_add_tail new_entry head h =
     (let preceding = lh_prev (h head);
          h1 = set_prev new_entry preceding h;
          h2 = set_next preceding new_entry h1;
          h3 = set_next new_entry head h2
      in set_prev head new_entry h3)"

definition list_del :: "u64 \<Rightarrow> list_heap \<Rightarrow> list_heap" where
  "list_del entry h =
     (let following = lh_next (h entry);
          preceding = lh_prev (h entry);
          h1 = set_prev following preceding h
      in set_next preceding following h1)"

text \<open>
  The loop of \<^verbatim>\<open>list_for_each\<close>, from the entry \<open>x\<close> up to the head: the entries it visits, or
  \<open>None\<close> where the chain of \<open>next\<close> pointers never reaches the head.
\<close>

partial_function (option) list_visit :: "list_heap \<Rightarrow> u64 \<Rightarrow> u64 \<Rightarrow> u64 list option" where
  "list_visit h head x =
     (if x = head then Some []
      else Option.bind (list_visit h head (lh_next (h x))) (\<lambda>r. Some (x # r)))"

definition list_for_each :: "list_heap \<Rightarrow> u64 \<Rightarrow> u64 list option" where
  "list_for_each h head = list_visit h head (lh_next (h head))"

section \<open>The representation predicate\<close>

fun links :: "list_heap \<Rightarrow> u64 list \<Rightarrow> bool" where
  "links h (a # b # r) \<longleftrightarrow> lh_next (h a) = b \<and> lh_prev (h b) = a \<and> links h (b # r)"
| "links h _ \<longleftrightarrow> True"

definition is_list :: "list_heap \<Rightarrow> u64 \<Rightarrow> u64 list \<Rightarrow> bool" where
  "is_list h head xs \<longleftrightarrow> distinct (head # xs) \<and> links h (head # xs @ [head])"

lemma set_sel [simp]:
  "lh_next (set_next p v h q) = (if p = q then v else lh_next (h q))"
  "lh_prev (set_next p v h q) = lh_prev (h q)"
  "lh_prev (set_prev p v h q) = (if p = q then v else lh_prev (h q))"
  "lh_next (set_prev p v h q) = lh_next (h q)"
  by (simp_all add: set_next_def set_prev_def)

lemma links_append:
  "links h (xs @ a # ys) \<longleftrightarrow> links h (xs @ [a]) \<and> links h (a # ys)"
proof (induction xs)
  case Nil
  then show ?case by simp
next
  case (Cons x xs)
  then show ?case by (cases xs) auto
qed

lemma links_cong:
  assumes "\<And>a. a \<in> set (butlast xs) \<Longrightarrow> lh_next (h' a) = lh_next (h a)"
    and "\<And>a. a \<in> set (tl xs) \<Longrightarrow> lh_prev (h' a) = lh_prev (h a)"
  shows "links h' xs \<longleftrightarrow> links h xs"
  using assms by (induction h xs rule: links.induct) auto

text \<open>A heap that agrees on the ring holds the same list: the frame rule of the list.\<close>

lemma is_list_frame:
  assumes "is_list h head xs" and "\<And>a. a \<in> set (head # xs) \<Longrightarrow> h' a = h a"
  shows "is_list h' head xs"
proof -
  have "links h' (head # xs @ [head]) \<longleftrightarrow> links h (head # xs @ [head])"
    using assms(2) by (intro links_cong) (auto dest: in_set_butlastD)
  with assms(1) show ?thesis by (simp add: is_list_def)
qed

section \<open>The operations implement the list operations\<close>

lemma is_list_init: "is_list (init_list head h) head []"
  by (simp add: is_list_def init_list_def)

text \<open>Where the two pointers of a node point after each operation.\<close>

lemma list_add_sel:
  "lh_next (list_add n head h a) =
     (if a = n then lh_next (h head) else if a = head then n else lh_next (h a))"
  "lh_prev (list_add n head h a) =
     (if a = lh_next (h head) then n else if a = n then head else lh_prev (h a))"
  by (simp_all add: list_add_def Let_def)

lemma list_add_tail_sel:
  "lh_next (list_add_tail n head h a) =
     (if a = n then head else if a = lh_prev (h head) then n else lh_next (h a))"
  "lh_prev (list_add_tail n head h a) =
     (if a = head then n else if a = n then lh_prev (h head) else lh_prev (h a))"
  by (simp_all add: list_add_tail_def Let_def)

lemma list_del_sel:
  "lh_next (list_del e h a) = (if a = lh_prev (h e) then lh_next (h e) else lh_next (h a))"
  "lh_prev (list_del e h a) = (if a = lh_next (h e) then lh_prev (h e) else lh_prev (h a))"
  by (simp_all add: list_del_def Let_def)

lemma is_list_add:
  assumes "is_list h head xs" and "n \<notin> set (head # xs)"
  shows "is_list (list_add n head h) head (n # xs)"
proof -
  obtain f ds where ds: "xs @ [head] = f # ds" by (cases "xs @ [head]") auto
  have l: "links h (f # ds)" and nxt: "lh_next (h head) = f"
    using assms(1) ds by (simp_all add: is_list_def)
  have but: "butlast (f # ds) = xs" by (simp flip: ds)
  have out: "n \<notin> set (f # ds)" and f: "f \<notin> set ds" and head: "head \<notin> set xs"
    using assms ds by (cases xs; auto simp: is_list_def)+
  have "links (list_add n head h) (f # ds) \<longleftrightarrow> links h (f # ds)"
  proof (rule links_cong)
    show "lh_next (list_add n head h a) = lh_next (h a)" if "a \<in> set (butlast (f # ds))" for a
      using that assms(2) head unfolding but by (auto simp: list_add_sel)
    show "lh_prev (list_add n head h a) = lh_prev (h a)" if "a \<in> set (tl (f # ds))" for a
      using that out f nxt by (auto simp: list_add_sel)
  qed
  with l have "links (list_add n head h) (head # n # f # ds)"
    using nxt out assms(2) by (auto simp: list_add_sel)
  with assms show ?thesis by (auto simp: is_list_def simp flip: ds)
qed

lemma is_list_add_tail:
  assumes "is_list h head xs" and "n \<notin> set (head # xs)"
  shows "is_list (list_add_tail n head h) head (xs @ [n])"
proof -
  obtain cs p where cs: "head # xs = cs @ [p]" by (cases "head # xs" rule: rev_cases) auto
  have "links h ((head # xs) @ [head])" using assms(1) by (simp add: is_list_def)
  then have "links h (cs @ p # [head])" unfolding cs by simp
  then have l: "links h (cs @ [p])" and prv: "lh_prev (h head) = p"
    using links_append [of h cs p "[head]"] by simp_all
  have tl: "tl (cs @ [p]) = xs" by (simp flip: cs)
  have dist: "distinct (cs @ [p])" using assms(1) by (simp add: is_list_def flip: cs)
  have out: "n \<notin> set (cs @ [p])" using assms(2) by (simp flip: cs)
  have "links (list_add_tail n head h) (cs @ [p]) \<longleftrightarrow> links h (cs @ [p])"
  proof (rule links_cong)
    show "lh_next (list_add_tail n head h a) = lh_next (h a)" if "a \<in> set (butlast (cs @ [p]))" for a
      using that out prv dist by (auto simp: list_add_tail_sel)
    show "lh_prev (list_add_tail n head h a) = lh_prev (h a)" if "a \<in> set (tl (cs @ [p]))" for a
      using that assms unfolding tl by (auto simp: list_add_tail_sel is_list_def)
  qed
  moreover have "links (list_add_tail n head h) (p # [n, head])"
    using prv out assms(2) by (auto simp: list_add_tail_sel)
  ultimately have "links (list_add_tail n head h) (cs @ p # [n, head])"
    using l links_append [of _ cs p "[n, head]"] by blast
  then have "links (list_add_tail n head h) ((cs @ [p]) @ [n, head])" by simp
  then have "links (list_add_tail n head h) ((head # xs) @ [n, head])" by (simp only: cs)
  with assms show ?thesis by (auto simp: is_list_def)
qed

lemma is_list_del:
  assumes "is_list h head (ys @ e # zs)"
  shows "is_list (list_del e h) head (ys @ zs)"
proof -
  obtain cs p where cs: "head # ys = cs @ [p]" by (cases "head # ys" rule: rev_cases) auto
  obtain f ds where ds: "zs @ [head] = f # ds" by (cases "zs @ [head]") auto
  have "links h ((head # ys) @ e # (zs @ [head]))" using assms by (simp add: is_list_def)
  then have "links h (cs @ p # e # f # ds)" unfolding cs ds by simp
  then have l1: "links h (cs @ [p])" and l2: "links h (f # ds)"
    and pe: "lh_prev (h e) = p" and fe: "lh_next (h e) = f"
    using links_append [of h cs p "e # f # ds"] by simp_all
  have dist: "distinct ((cs @ [p]) @ e # zs)" using assms by (simp add: is_list_def flip: cs)
  have tl: "tl (cs @ [p]) = ys" and but: "butlast (f # ds) = zs"
    by (simp flip: cs) (simp flip: ds)
  have p_zs: "p \<notin> set zs" and p_cs: "p \<notin> set cs" using dist by auto
  have f_ys: "f \<notin> set ys" and f_ds: "f \<notin> set ds"
    using assms ds by (cases zs; auto simp: is_list_def)+
  have "links (list_del e h) (cs @ [p]) \<longleftrightarrow> links h (cs @ [p])"
  proof (rule links_cong)
    show "lh_next (list_del e h a) = lh_next (h a)" if "a \<in> set (butlast (cs @ [p]))" for a
      using that p_cs pe by (auto simp: list_del_sel)
    show "lh_prev (list_del e h a) = lh_prev (h a)" if "a \<in> set (tl (cs @ [p]))" for a
      using that f_ys fe unfolding tl by (auto simp: list_del_sel)
  qed
  moreover have "links (list_del e h) (f # ds) \<longleftrightarrow> links h (f # ds)"
  proof (rule links_cong)
    show "lh_next (list_del e h a) = lh_next (h a)" if "a \<in> set (butlast (f # ds))" for a
      using that p_zs pe unfolding but by (auto simp: list_del_sel)
    show "lh_prev (list_del e h a) = lh_prev (h a)" if "a \<in> set (tl (f # ds))" for a
      using that f_ds fe by (auto simp: list_del_sel)
  qed
  moreover have "lh_next (list_del e h p) = f" "lh_prev (list_del e h f) = p"
    by (simp_all add: list_del_sel pe fe)
  ultimately have "links (list_del e h) (cs @ p # f # ds)"
    using l1 l2 links_append [of _ cs p "f # ds"] by simp
  then have "links (list_del e h) ((cs @ [p]) @ f # ds)" by simp
  then have "links (list_del e h) ((head # ys) @ zs @ [head])" by (simp only: cs ds)
  with assms show ?thesis by (auto simp: is_list_def)
qed

lemma list_visit_links:
  assumes "links h (xs @ [head])" and "head \<notin> set xs"
  shows "list_visit h head (hd (xs @ [head])) = Some xs"
  using assms
proof (induction xs)
  case Nil
  then show ?case by (simp add: list_visit.simps)
next
  case (Cons a xs)
  then have "lh_next (h a) = hd (xs @ [head])" and "links h (xs @ [head])"
    by (cases xs; simp)+
  with Cons have "list_visit h head (lh_next (h a)) = Some xs" and "a \<noteq> head" by auto
  then show ?case by (simp add: list_visit.simps [of h head a])
qed

lemma list_for_each_is_list:
  assumes "is_list h head xs"
  shows "list_for_each h head = Some xs"
proof -
  have "lh_next (h head) = hd (xs @ [head])" and "links h (xs @ [head])"
    using assms by (cases xs; simp add: is_list_def)+
  with assms show ?thesis
    by (simp add: list_for_each_def is_list_def list_visit_links)
qed

lemma is_list_unique: "is_list h head xs \<Longrightarrow> is_list h head ys \<Longrightarrow> xs = ys"
  by (metis list_for_each_is_list option.inject)

section \<open>The contract\<close>

text \<open>
  What the rest of the kernel relies on: \<open>content\<close> is the sequence a loop over the list sees, a
  node that is not in it can be added at either end, and a node that is in it can be removed.
\<close>

locale linked_sequence =
  fixes content :: "'h \<Rightarrow> 'a \<Rightarrow> 'a list \<Rightarrow> bool"
    and create :: "'a \<Rightarrow> 'h \<Rightarrow> 'h"
    and push :: "'a \<Rightarrow> 'a \<Rightarrow> 'h \<Rightarrow> 'h"
    and push_tail :: "'a \<Rightarrow> 'a \<Rightarrow> 'h \<Rightarrow> 'h"
    and remove_node :: "'a \<Rightarrow> 'h \<Rightarrow> 'h"
    and visit :: "'h \<Rightarrow> 'a \<Rightarrow> 'a list option"
  assumes content_create: "content (create l h) l []"
    and content_push: "content h l xs \<Longrightarrow> x \<notin> set (l # xs) \<Longrightarrow> content (push x l h) l (x # xs)"
    and content_push_tail:
      "content h l xs \<Longrightarrow> x \<notin> set (l # xs) \<Longrightarrow> content (push_tail x l h) l (xs @ [x])"
    and content_remove: "content h l (ys @ x # zs) \<Longrightarrow> content (remove_node x h) l (ys @ zs)"
    and content_visit: "content h l xs \<Longrightarrow> visit h l = Some xs"
    and content_distinct: "content h l xs \<Longrightarrow> distinct (l # xs)"
begin

text \<open>Adding entries one after the other at the tail keeps their order.\<close>

lemma content_fold_push_tail:
  assumes "content h l xs" and "distinct (l # xs @ ys)"
  shows "content (fold (\<lambda>x. push_tail x l) ys h) l (xs @ ys)"
  using assms
proof (induction ys arbitrary: h xs)
  case Nil
  then show ?case by simp
next
  case (Cons y ys)
  then have "content (push_tail y l h) l (xs @ [y])" by (intro content_push_tail) auto
  from Cons.IH [OF this] Cons.prems show ?case by simp
qed

lemma visit_fold_push_tail:
  "content h l xs \<Longrightarrow> distinct (l # xs @ ys) \<Longrightarrow>
     visit (fold (\<lambda>x. push_tail x l) ys h) l = Some (xs @ ys)"
  by (intro content_visit content_fold_push_tail)

text \<open>Removing a node that was just added restores the sequence, whichever end it went to.\<close>

lemma remove_push_tail:
  assumes "content h l xs" and "x \<notin> set (l # xs)"
  shows "content (remove_node x (push_tail x l h)) l xs"
  using content_remove [of "push_tail x l h" l xs x "[]"] content_push_tail [OF assms] by simp

lemma remove_push:
  assumes "content h l xs" and "x \<notin> set (l # xs)"
  shows "content (remove_node x (push x l h)) l xs"
  using content_remove [of "push x l h" l "[]" x xs] content_push [OF assms] by simp

lemma visit_remove:
  assumes "content h l xs" and "x \<in> set xs"
  shows "visit (remove_node x h) l = Some (remove1 x xs)"
proof -
  obtain ys zs where xs: "xs = ys @ x # zs" using assms(2) by (meson split_list)
  moreover have "x \<notin> set ys" using content_distinct [OF assms(1)] xs by auto
  ultimately have "remove1 x xs = ys @ zs" by (simp add: remove1_append)
  with content_remove assms(1) xs show ?thesis by (metis content_visit)
qed

end

interpretation klist: linked_sequence is_list init_list list_add list_add_tail list_del list_for_each
proof unfold_locales
  show "is_list h l xs \<Longrightarrow> distinct (l # xs)" for h l xs by (simp add: is_list_def)
qed (auto intro: is_list_init is_list_add is_list_add_tail is_list_del list_for_each_is_list)

section \<open>Properties\<close>

text \<open>
  C37: On a well-formed list the iteration visits the nodes in order; \<^verbatim>\<open>list_add\<close> puts a new node
  first, \<^verbatim>\<open>list_add_tail\<close> puts it last, and \<^verbatim>\<open>list_del\<close> takes out exactly the given node. Each
  operation leaves a well-formed list again.
\<close>

theorem list_operations_visit:
  assumes "is_list h head xs" and "n \<notin> set (head # xs)" and "e \<in> set xs"
  shows "list_for_each h head = Some xs \<and>
    (is_list (list_add n head h) head (n # xs) \<and> list_for_each (list_add n head h) head = Some (n # xs)) \<and>
    (is_list (list_add_tail n head h) head (xs @ [n]) \<and>
       list_for_each (list_add_tail n head h) head = Some (xs @ [n])) \<and>
    (is_list (list_del e h) head (remove1 e xs) \<and> list_for_each (list_del e h) head = Some (remove1 e xs))"
proof (intro conjI)
  show "list_for_each h head = Some xs" by (rule klist.content_visit [OF assms(1)])
  note a = klist.content_push [OF assms(1,2)] klist.content_push_tail [OF assms(1,2)]
  show "is_list (list_add n head h) head (n # xs)" "list_for_each (list_add n head h) head = Some (n # xs)"
    using a(1) klist.content_visit [OF a(1)] by blast+
  show "is_list (list_add_tail n head h) head (xs @ [n])"
    "list_for_each (list_add_tail n head h) head = Some (xs @ [n])"
    using a(2) klist.content_visit [OF a(2)] by blast+
  obtain ys zs where xs: "xs = ys @ e # zs" "e \<notin> set ys" using split_list_first [OF assms(3)] by blast
  then have "is_list (list_del e h) head (remove1 e xs)"
    using klist.content_remove [of h head ys e zs] assms(1) by (simp add: remove1_append)
  then show "is_list (list_del e h) head (remove1 e xs)" "list_for_each (list_del e h) head = Some (remove1 e xs)"
    using klist.content_visit by blast+
qed

definition demo_list :: list_heap where
  "demo_list = list_add_tail 24 8 (list_add_tail 16 8 (init_list 8 (\<lambda>_. \<lparr>lh_prev = 0, lh_next = 0\<rparr>)))"

lemma demo_list_is: "is_list demo_list 8 [16, 24]"
  unfolding demo_list_def
  using is_list_add_tail [OF is_list_add_tail [OF is_list_init], of 16 8 24] by simp

lemma list_operations_visit_witness:
  "list_for_each (list_add 32 8 demo_list) 8 = Some [32, 16, 24] \<and>
   list_for_each (list_del 16 demo_list) 8 = Some [24]"
  using list_operations_visit [OF demo_list_is, of 32 16] by simp

end
