(* ===== verification/CStd.thy ===== *)
theory CStd
  imports Prelude
begin

text \<open>
  \<^verbatim>\<open>kernel/src/lib/cstd.c\<close>: the freestanding C library of the kernel, on a byte-addressed
  memory of 64-bit addresses. Each loop is the source's loop with its counter kept as a
  \<^verbatim>\<open>size_t\<close>; loops that run until a byte of memory stops them are partial, with \<open>None\<close> for a
  loop that never leaves.
\<close>

type_synonym mem = "u64 \<Rightarrow> u8"

section \<open>Block operations\<close>

function memcpy_loop :: "u64 \<Rightarrow> u64 \<Rightarrow> u64 \<Rightarrow> u64 \<Rightarrow> mem \<Rightarrow> mem" where
  "memcpy_loop dest src n i m =
     (if i < n then memcpy_loop dest src n (i + 1) (m(dest + i := m (src + i))) else m)"
  by pat_completeness auto
termination
  by (relation "measure (\<lambda>(dest, src, n, i, m). unat (n - i))") (auto simp: word_succ_measure)

definition memcpy :: "u64 \<Rightarrow> u64 \<Rightarrow> u64 \<Rightarrow> mem \<Rightarrow> mem" where
  "memcpy dest src n m = memcpy_loop dest src n 0 m"

function memset_loop :: "u64 \<Rightarrow> u8 \<Rightarrow> u64 \<Rightarrow> u64 \<Rightarrow> mem \<Rightarrow> mem" where
  "memset_loop s c n i m =
     (if i < n then memset_loop s c n (i + 1) (m(s + i := c)) else m)"
  by pat_completeness auto
termination
  by (relation "measure (\<lambda>(s, c, n, i, m). unat (n - i))") (auto simp: word_succ_measure)

definition memset :: "u64 \<Rightarrow> u32 \<Rightarrow> u64 \<Rightarrow> mem \<Rightarrow> mem" where
  "memset s c n m = memset_loop s (ucast c) n 0 m"

function memmove_down_loop :: "u64 \<Rightarrow> u64 \<Rightarrow> u64 \<Rightarrow> mem \<Rightarrow> mem" where
  "memmove_down_loop dest src i m =
     (if i > 0
      then memmove_down_loop dest src (i - 1) (m(dest + (i - 1) := m (src + (i - 1))))
      else m)"
  by pat_completeness auto
termination
  by (relation "measure (\<lambda>(dest, src, i, m). unat i)") (auto simp: unat_gt_0 measure_unat)

definition memmove :: "u64 \<Rightarrow> u64 \<Rightarrow> u64 \<Rightarrow> mem \<Rightarrow> mem" where
  "memmove dest src n m =
     (if src > dest then memcpy_loop dest src n 0 m
      else if src < dest then memmove_down_loop dest src n m
      else m)"

function memcmp_loop :: "u64 \<Rightarrow> u64 \<Rightarrow> u64 \<Rightarrow> u64 \<Rightarrow> mem \<Rightarrow> int" where
  "memcmp_loop s1 s2 n i m =
     (if i < n
      then if m (s1 + i) \<noteq> m (s2 + i) then (if m (s1 + i) < m (s2 + i) then -1 else 1)
           else memcmp_loop s1 s2 n (i + 1) m
      else 0)"
  by pat_completeness auto
termination
  by (relation "measure (\<lambda>(s1, s2, n, i, m). unat (n - i))") (auto simp: word_succ_measure)

definition memcmp :: "u64 \<Rightarrow> u64 \<Rightarrow> u64 \<Rightarrow> mem \<Rightarrow> int" where
  "memcmp s1 s2 n m = memcmp_loop s1 s2 n 0 m"

declare memcpy_loop.simps [simp del] memset_loop.simps [simp del]
  memmove_down_loop.simps [simp del] memcmp_loop.simps [simp del]

text \<open>
  \<open>copied d s n m\<close> is what \<^verbatim>\<open>memcpy\<close> and \<^verbatim>\<open>memmove\<close> are to compute: the \<open>n\<close> bytes at \<open>d\<close> are the
  bytes that \<open>m\<close> had at \<open>s\<close>, all other bytes are unchanged.
\<close>

definition copied :: "u64 \<Rightarrow> u64 \<Rightarrow> u64 \<Rightarrow> mem \<Rightarrow> mem" where
  "copied d s n m = (\<lambda>a. if a - d < n then m (s + (a - d)) else m a)"

lemma memcpy_loop_eq:
  assumes "\<And>j k. j < k \<Longrightarrow> k < n \<Longrightarrow> d + j \<noteq> s + k"
  shows "memcpy_loop d s n i m =
    (\<lambda>a. if i \<le> a - d \<and> a - d < n then m (s + (a - d)) else m a)"
  using assms
proof (induction d s n i m rule: memcpy_loop.induct)
  case (1 d s n i m)
  show ?case
  proof (cases "i < n")
    case True
    let ?m = "m(d + i := m (s + i))"
    have IH: "memcpy_loop d s n (i + 1) ?m =
        (\<lambda>a. if i + 1 \<le> a - d \<and> a - d < n then ?m (s + (a - d)) else ?m a)"
      using True "1.IH" "1.prems" by blast
    have "(if i + 1 \<le> a - d \<and> a - d < n then ?m (s + (a - d)) else ?m a) =
      (if i \<le> a - d \<and> a - d < n then m (s + (a - d)) else m a)" for a
    proof (cases "a = d + i")
      case True
      then show ?thesis using \<open>i < n\<close> by (simp add: word_succ_le_iff [OF \<open>i < n\<close>])
    next
      case False
      then have "i \<noteq> a - d" by (auto simp: algebra_simps)
      then show ?thesis
        using False "1.prems" [of i "a - d"] \<open>i < n\<close> word_succ_le_iff [OF \<open>i < n\<close>, of "a - d"]
        by (auto simp: order_le_less)
    qed
    with True IH show ?thesis by (simp add: memcpy_loop.simps [of d s n i m])
  next
    case False
    then show ?thesis by (auto simp: memcpy_loop.simps [of d s n i m] fun_eq_iff)
  qed
qed

lemma memmove_down_loop_eq:
  assumes "\<And>j k. j < k \<Longrightarrow> k < i \<Longrightarrow> d + k \<noteq> s + j"
  shows "memmove_down_loop d s i m = copied d s i m"
  using assms
proof (induction d s i m rule: memmove_down_loop.induct)
  case (1 d s i m)
  show ?case
  proof (cases "i > 0")
    case True
    let ?m = "m(d + (i - 1) := m (s + (i - 1)))"
    have lt: "x < i \<longleftrightarrow> x < i - 1 \<or> x = i - 1" for x
      by (rule word_less_pred_iff [OF True])
    have "memmove_down_loop d s (i - 1) ?m = copied d s (i - 1) ?m"
      using True "1.IH" "1.prems" lt by blast
    moreover have "copied d s (i - 1) ?m = copied d s i m"
    proof (rule ext)
      fix a
      show "copied d s (i - 1) ?m a = copied d s i m a"
      proof (cases "a = d + (i - 1)")
        case True
        then show ?thesis by (simp add: copied_def lt)
      next
        case False
        then have "a - d \<noteq> i - 1" by (auto simp: algebra_simps)
        then have iff: "a - d < i \<longleftrightarrow> a - d < i - 1" using lt by blast
        have "?m (s + (a - d)) = m (s + (a - d))" if "a - d < i - 1"
        proof -
          have "i - 1 < i" using lt by blast
          from "1.prems" [OF that this] have "s + (a - d) \<noteq> d + (i - 1)" by (rule not_sym)
          then show ?thesis by (rule fun_upd_other)
        qed
        moreover have "?m a = m a" using False by (rule fun_upd_other)
        ultimately show ?thesis unfolding copied_def iff by presburger
      qed
    qed
    moreover have "memmove_down_loop d s i m = memmove_down_loop d s (i - 1) ?m"
      by (subst memmove_down_loop.simps) (simp add: True)
    ultimately show ?thesis by (rule trans [OF _ trans, rotated])
  next
    case False
    then have "i = 0" by (simp add: word_neq_0_conv [symmetric])
    then show ?thesis by (subst memmove_down_loop.simps) (simp add: copied_def)
  qed
qed


text \<open>
  The memory ranges as sets of addresses, and when they do not wrap around the address space.
\<close>

definition range_of :: "u64 \<Rightarrow> u64 \<Rightarrow> u64 set" where
  "range_of p n = {a. a - p < n}"

definition no_wrap :: "u64 \<Rightarrow> u64 \<Rightarrow> bool" where
  "no_wrap p n \<longleftrightarrow> unat p + unat n \<le> 2 ^ 64"

lemma mem_range_offset [simp]: "p + i \<in> range_of p n \<longleftrightarrow> i < n"
  by (simp add: range_of_def)

lemma ranges_disjoint_neq:
  assumes "range_of d n \<inter> range_of s n' = {}" and "j < n" and "k < n'"
  shows "d + j \<noteq> s + k"
proof
  assume eq: "d + j = s + k"
  have "d + j \<in> range_of d n" "s + k \<in> range_of s n'" using assms(2,3) by simp_all
  then have "s + k \<in> range_of d n \<inter> range_of s n'" by (simp only: eq Int_iff)
  with assms(1) show False by (simp only: empty_iff)
qed

lemma memcpy_correct:
  assumes "range_of dest n \<inter> range_of src n = {}"
  shows "memcpy dest src n m = copied dest src n m"
proof -
  have "dest + j \<noteq> src + k" if "j < k" "k < n" for j k
    using ranges_disjoint_neq [OF assms] that by auto
  then show ?thesis by (simp add: memcpy_def copied_def memcpy_loop_eq)
qed

lemma no_wrap_no_clash:
  assumes "no_wrap s n" and "no_wrap d n" and "d < s" and "j < k" and "k < n"
  shows "d + j \<noteq> s + (k :: u64)"
proof -
  have "unat d + unat j < 2 ^ 64" "unat s + unat k < 2 ^ 64"
    using assms by (auto simp: no_wrap_def word_less_nat_alt)
  then have "unat (d + j) = unat d + unat j" "unat (s + k) = unat s + unat k"
    by (simp_all add: unat_add_no_wrap)
  then show ?thesis using assms by (metis add_less_mono less_irrefl word_less_nat_alt)
qed

lemma memmove_correct:
  assumes "no_wrap dest n" and "no_wrap src n"
  shows "memmove dest src n m = copied dest src n m"
proof (cases src dest rule: linorder_cases)
  case less
  then have "dest + k \<noteq> src + j" if "j < k" "k < n" for j k
    using no_wrap_no_clash [OF assms less that] by metis
  then have "memmove_down_loop dest src n m = copied dest src n m"
    by (rule memmove_down_loop_eq)
  with less show ?thesis using order_less_not_sym [OF less] by (simp add: memmove_def)
next
  case equal
  then show ?thesis by (auto simp: memmove_def copied_def)
next
  case greater
  then have "dest + j \<noteq> src + k" if "j < k" "k < n" for j k
    using no_wrap_no_clash [OF assms(2,1) greater that] by metis
  then have "memcpy_loop dest src n 0 m = copied dest src n m"
    unfolding copied_def by (subst memcpy_loop_eq) auto
  with greater show ?thesis by (simp add: memmove_def)
qed

lemma memset_loop_eq:
  "memset_loop s c n i m = (\<lambda>a. if i \<le> a - s \<and> a - s < n then c else m a)"
proof (induction s c n i m rule: memset_loop.induct)
  case (1 s c n i m)
  show ?case
  proof (cases "i < n")
    case True
    have "(if i + 1 \<le> a - s \<and> a - s < n then c else (m(s + i := c)) a) =
      (if i \<le> a - s \<and> a - s < n then c else m a)" for a
      using True word_succ_le_iff [OF True, of "a - s"] by (auto simp: order_le_less algebra_simps)
    then have "memset_loop s c n (i + 1) (m(s + i := c)) =
        (\<lambda>a. if i \<le> a - s \<and> a - s < n then c else m a)"
      by (subst "1.IH" [OF True]) (rule ext)
    moreover have "memset_loop s c n i m = memset_loop s c n (i + 1) (m(s + i := c))"
      by (subst memset_loop.simps) (simp add: True)
    ultimately show ?thesis by simp
  next
    case False
    then show ?thesis by (auto simp: memset_loop.simps [of s c n i m] fun_eq_iff)
  qed
qed

lemma memset_correct: "memset s c n m = (\<lambda>a. if a - s < n then ucast c else m a)"
  by (simp add: memset_def memset_loop_eq)

text \<open>\<^verbatim>\<open>memcmp\<close> is 0 on equal blocks and otherwise has the sign of the first difference.\<close>

lemma memcmp_loop_spec:
  "(memcmp_loop s1 s2 n i m = 0 \<longleftrightarrow> (\<forall>j. i \<le> j \<longrightarrow> j < n \<longrightarrow> m (s1 + j) = m (s2 + j)))
   \<and> (memcmp_loop s1 s2 n i m < 0 \<longleftrightarrow>
        (\<exists>j. i \<le> j \<and> j < n \<and> m (s1 + j) < m (s2 + j) \<and>
             (\<forall>k. i \<le> k \<longrightarrow> k < j \<longrightarrow> m (s1 + k) = m (s2 + k))))"
proof (induction s1 s2 n i m rule: memcmp_loop.induct)
  case (1 s1 s2 n i m)
  consider "\<not> i < n" | "i < n" "m (s1 + i) \<noteq> m (s2 + i)" | "i < n" "m (s1 + i) = m (s2 + i)"
    by blast
  then show ?case
  proof cases
    case 1
    then show ?thesis by (auto simp: memcmp_loop.simps [of s1 s2 n i m])
  next
    case 2
    then show ?thesis
      by (auto simp: memcmp_loop.simps [of s1 s2 n i m] order_le_less intro!: exI [of _ i])
  next
    case 3
    have split: "i \<le> j \<longleftrightarrow> j = i \<or> i + 1 \<le> j" for j
      using word_succ_le_iff [OF 3(1)] by (auto simp: order_le_less)
    have "memcmp_loop s1 s2 n i m = memcmp_loop s1 s2 n (i + 1) m"
      using 3 by (simp add: memcmp_loop.simps [of s1 s2 n i m])
    moreover note "1.IH" [OF 3(1)] 3
    ultimately show ?thesis unfolding split
      by (metis (no_types, opaque_lifting) order_less_irrefl)
  qed
qed


section \<open>Strings\<close>

partial_function (option) strlen_loop :: "u64 \<Rightarrow> u64 \<Rightarrow> mem \<Rightarrow> u64 option" where
  "strlen_loop str len m = (if m (str + len) \<noteq> 0 then strlen_loop str (len + 1) m else Some len)"

definition strlen :: "u64 \<Rightarrow> mem \<Rightarrow> u64 option" where
  "strlen str m = strlen_loop str 0 m"

text \<open>The difference of two bytes, computed as \<^verbatim>\<open>int\<close> and returned as \<^verbatim>\<open>int8_t\<close>.\<close>

definition byte_diff :: "u8 \<Rightarrow> u8 \<Rightarrow> u8" where
  "byte_diff a b = word_of_int (uint a - uint b)"

partial_function (option) strcmp :: "u64 \<Rightarrow> u64 \<Rightarrow> mem \<Rightarrow> u8 option" where
  "strcmp buf1 buf2 m =
     (if m buf1 = m buf2 \<and> m buf1 \<noteq> 0 \<and> m buf2 \<noteq> 0
      then strcmp (buf1 + 1) (buf2 + 1) m
      else Some (byte_diff (m buf1) (m buf2)))"

function strncmp_loop :: "u64 \<Rightarrow> u64 \<Rightarrow> u64 \<Rightarrow> u64 \<Rightarrow> mem \<Rightarrow> u8" where
  "strncmp_loop buf1 buf2 n i m =
     (if m buf1 = m buf2 \<and> m buf1 \<noteq> 0 \<and> m buf2 \<noteq> 0 \<and> i < n
      then strncmp_loop (buf1 + 1) (buf2 + 1) n (i + 1) m
      else if i = n then 0 else byte_diff (m buf1) (m buf2))"
  by pat_completeness auto
termination
  by (relation "measure (\<lambda>(buf1, buf2, n, i, m). unat (n - i))") (auto simp: word_succ_measure)

declare strncmp_loop.simps [simp del]

definition strncmp :: "u64 \<Rightarrow> u64 \<Rightarrow> u64 \<Rightarrow> mem \<Rightarrow> u8" where
  "strncmp buf1 buf2 n m = strncmp_loop buf1 buf2 n 0 m"

definition strklcmp :: "u64 \<Rightarrow> u64 \<Rightarrow> u64 \<Rightarrow> mem \<Rightarrow> u8 option" where
  "strklcmp cstr klstr n mm =
     Option.bind (strlen cstr mm) (\<lambda>m.
       Some (if m > n then (let x = strncmp cstr klstr n mm in if x \<noteq> 0 then x else 1)
             else if m < n then (let x = strncmp cstr klstr m mm in if x \<noteq> 0 then x else 1)
             else strncmp cstr klstr n mm))"

partial_function (option) strcpy_loop :: "u64 \<Rightarrow> u64 \<Rightarrow> u64 \<Rightarrow> mem \<Rightarrow> mem option" where
  "strcpy_loop dest src i m =
     (let m' = m(dest + i := m (src + i))
      in if m' (src + i) \<noteq> 0 then strcpy_loop dest src (i + 1) m' else Some m')"

definition strcpy :: "u64 \<Rightarrow> u64 \<Rightarrow> mem \<Rightarrow> mem option" where
  "strcpy dest src m = strcpy_loop dest src 0 m"

text \<open>
  \<^verbatim>\<open>parse_oct\<close> returns the count of characters as \<^verbatim>\<open>uint8_t\<close> and the value through a pointer; here
  the pair of both.
\<close>

partial_function (option) parse_oct_loop :: "u64 \<Rightarrow> u64 \<Rightarrow> mem \<Rightarrow> (u64 \<times> u64) option" where
  "parse_oct_loop c tmp m =
     (if 48 \<le> m c \<and> m c \<le> 55
      then parse_oct_loop (c + 1) (push_bit 3 tmp + (ucast (m c) - 48)) m
      else Some (c, tmp))"

definition parse_oct :: "u64 \<Rightarrow> mem \<Rightarrow> (u8 \<times> u64) option" where
  "parse_oct str m = map_option (\<lambda>(c, tmp). (ucast (c - str), tmp)) (parse_oct_loop str 0 m)"

text \<open>The NUL-terminated string \<open>xs\<close> stands at address \<open>p\<close>.\<close>

fun cstr :: "mem \<Rightarrow> u64 \<Rightarrow> u8 list \<Rightarrow> bool" where
  "cstr m p [] \<longleftrightarrow> m p = 0"
| "cstr m p (x # xs) \<longleftrightarrow> m p = x \<and> x \<noteq> 0 \<and> cstr m (p + 1) xs"

lemma strlen_loop_cstr:
  "cstr m (str + len) xs \<Longrightarrow> strlen_loop str len m = Some (len + of_nat (length xs))"
proof (induction xs arbitrary: len)
  case Nil
  then show ?case by (subst strlen_loop.simps) simp
next
  case (Cons x xs)
  then show ?case by (simp add: strlen_loop.simps [of str len] add.assoc)
qed

lemma strlen_cstr: "cstr m str xs \<Longrightarrow> strlen str m = Some (of_nat (length xs))"
  using strlen_loop_cstr [of m str 0 xs] by (simp add: strlen_def)

lemma byte_diff_eq_0 [simp]: "byte_diff a b = 0 \<longleftrightarrow> a = b"
  by (metis byte_diff_def eq_iff_diff_eq_0 wi_hom_sub word_of_int_uint)

lemma strcmp_cstr:
  assumes "cstr m p xs" and "cstr m q ys"
  shows "\<exists>r. strcmp p q m = Some r \<and> (r = 0 \<longleftrightarrow> xs = ys)"
  using assms
proof (induction xs arbitrary: p q ys)
  case Nil
  then show ?case by (cases ys) (auto simp: strcmp.simps [of p q])
next
  case (Cons x xs)
  show ?case
  proof (cases ys)
    case Nil
    with Cons.prems show ?thesis by (auto simp: strcmp.simps [of p q])
  next
    case [simp]: (Cons y ys')
    show ?thesis
    proof (cases "x = y")
      case True
      with Cons.prems have "strcmp p q m = strcmp (p + 1) (q + 1) m"
        by (simp add: strcmp.simps [of p q])
      moreover from Cons.prems have "cstr m (p + 1) xs" "cstr m (q + 1) ys'" by simp_all
      ultimately show ?thesis using Cons.IH True by simp
    next
      case False
      with Cons.prems show ?thesis by (simp add: strcmp.simps [of p q])
    qed
  qed
qed

lemma strncmp_loop_eq_0:
  assumes "cstr m buf1 xs" and "i \<le> n" and "unat (n - i) \<le> length xs"
  shows "strncmp_loop buf1 buf2 n i m = 0 \<longleftrightarrow>
    (\<forall>j < unat (n - i). m (buf2 + of_nat j) = xs ! j)"
  using assms
proof (induction xs arbitrary: buf1 buf2 i)
  case Nil
  then have "i = n" by (simp add: unat_eq_0)
  then show ?case by (simp add: strncmp_loop.simps)
next
  case (Cons x xs)
  show ?case
  proof (cases "i = n")
    case True
    then show ?thesis by (simp add: strncmp_loop.simps)
  next
    case False
    with Cons.prems have lt: "i < n" by simp
    then have n: "unat (n - i) = Suc (unat (n - (i + 1)))" by unat_arith
    have le: "i + 1 \<le> n" using lt by (simp add: inc_le)
    show ?thesis
    proof (cases "m buf2 = x")
      case True
      with Cons.prems lt have "strncmp_loop buf1 buf2 n i m = strncmp_loop (buf1 + 1) (buf2 + 1) n (i + 1) m"
        by (subst strncmp_loop.simps) simp
      moreover have "strncmp_loop (buf1 + 1) (buf2 + 1) n (i + 1) m = 0 \<longleftrightarrow>
          (\<forall>j < unat (n - (i + 1)). m (buf2 + 1 + of_nat j) = xs ! j)"
        using Cons.prems n le by (intro Cons.IH) auto
      ultimately show ?thesis
        using True n by (simp add: All_less_Suc2 add.assoc)
    next
      case 2: False
      with Cons.prems lt False have "strncmp_loop buf1 buf2 n i m \<noteq> 0"
        by (subst strncmp_loop.simps) auto
      with 2 n show ?thesis by auto
    qed
  qed
qed

text \<open>Comparison of a C string with a string of known length: 0 exactly on equal strings.\<close>

lemma strklcmp_cstr:
  assumes "cstr m p xs" and "length xs < 2 ^ 64"
  shows "\<exists>r. strklcmp p q n m = Some r \<and>
    (r = 0 \<longleftrightarrow> unat n = length xs \<and> (\<forall>j < length xs. m (q + of_nat j) = xs ! j))"
proof -
  have len: "strlen p m = Some (of_nat (length xs))" and un: "unat (of_nat (length xs) :: u64) = length xs"
    using assms by (simp_all add: strlen_cstr unat_of_nat_small)
  show ?thesis
  proof (cases "of_nat (length xs) = n")
    case True
    then have "unat n = length xs" using un by simp
    moreover have "strncmp p q n m = 0 \<longleftrightarrow> (\<forall>j < unat n. m (q + of_nat j) = xs ! j)"
      using strncmp_loop_eq_0 [OF assms(1), of 0 n q] \<open>unat n = length xs\<close> by (simp add: strncmp_def)
    ultimately show ?thesis using True len by (simp add: strklcmp_def)
  next
    case False
    then have "unat n \<noteq> length xs" by (auto simp: word_unat_eq_iff un)
    with False len show ?thesis by (auto simp: strklcmp_def Let_def neq_iff)
  qed
qed


lemma cstr_cong: "(\<And>i. i \<le> length xs \<Longrightarrow> m' (p + of_nat i) = m (p + of_nat i)) \<Longrightarrow> cstr m' p xs = cstr m p xs"
proof (induction xs arbitrary: p)
  case Nil
  from Nil [of 0] show ?case by simp
next
  case (Cons x xs)
  have "cstr m' (p + 1) xs = cstr m (p + 1) xs"
  proof (rule Cons.IH)
    fix i assume "i \<le> length xs"
    then have "m' (p + of_nat (Suc i)) = m (p + of_nat (Suc i))" by (intro Cons.prems) simp
    then show "m' (p + 1 + of_nat i) = m (p + 1 + of_nat i)" by (simp add: algebra_simps)
  qed
  with Cons.prems [of 0] show ?case by simp
qed

lemma cstr_iff_nth:
  "cstr m p xs \<longleftrightarrow> (\<forall>i < length xs. m (p + of_nat i) = xs ! i \<and> xs ! i \<noteq> 0) \<and> m (p + of_nat (length xs)) = 0"
proof (induction xs arbitrary: p)
  case Nil
  then show ?case by simp
next
  case (Cons x xs)
  then show ?case by (auto simp: All_less_Suc2 add.assoc)
qed

lemma strcpy_loop_memcpy:
  assumes "cstr m (src + i) xs" and "unat i + length xs + 1 < 2 ^ 64"
    and "range_of dest (i + of_nat (length xs) + 1) \<inter> range_of src (i + of_nat (length xs) + 1) = {}"
  shows "strcpy_loop dest src i m = Some (memcpy_loop dest src (i + of_nat (length xs) + 1) i m)"
  using assms
proof (induction xs arbitrary: i m)
  case Nil
  have lt: "i < i + 1" using Nil.prems(2) by (simp add: word_less_nat_alt unat_add_no_wrap)
  have "range_of dest (i + 1) \<inter> range_of src (i + 1) = {}" using Nil.prems(3) by simp
  then have "dest + i \<noteq> src + i" using lt lt by (rule ranges_disjoint_neq)
  with Nil.prems(1) have "strcpy_loop dest src i m = Some (m(dest + i := m (src + i)))"
    by (subst strcpy_loop.simps) (simp add: Let_def)
  moreover have "memcpy_loop dest src (i + 1) i m = m(dest + i := m (src + i))"
    using lt by (subst memcpy_loop.simps, simp, subst memcpy_loop.simps, simp)
  ultimately show ?case by (simp add: fun_upd_def)
next
  case (Cons x xs)
  let ?n = "i + of_nat (length (x # xs)) + 1" and ?m = "m(dest + i := m (src + i))"
  have n: "?n = i + 1 + of_nat (length xs) + 1" by simp
  have ui: "unat (i + 1) = unat i + 1" using Cons.prems(2) by (simp add: unat_add_no_wrap)
  have un: "unat ?n = unat i + length xs + 2"
    using Cons.prems(2) by (simp add: n ui unat_add_no_wrap unat_of_nat_small)
  then have lt: "i < ?n" by (simp add: word_less_nat_alt)
  have off: "i + of_nat j < ?n" if "j \<le> Suc (length xs)" for j
    using that un Cons.prems(2) by (simp add: word_less_nat_alt unat_add_no_wrap unat_of_nat_small)
  have ne: "dest + i \<noteq> src + i + of_nat j" if "j \<le> Suc (length xs)" for j
    using ranges_disjoint_neq [OF Cons.prems(3) lt off [OF that]] by (simp add: add.assoc)
  have str: "cstr ?m (src + (i + 1)) xs"
  proof -
    have "cstr ?m (src + i + 1) xs = cstr m (src + i + 1) xs"
    proof (rule cstr_cong)
      fix j assume "j \<le> length xs"
      then show "?m (src + i + 1 + of_nat j) = m (src + i + 1 + of_nat j)"
        using ne [of "Suc j"] by (simp add: algebra_simps)
    qed
    with Cons.prems(1) show ?thesis by (simp add: add.assoc)
  qed
  have "strcpy_loop dest src (i + 1) ?m = Some (memcpy_loop dest src ?n (i + 1) ?m)"
    unfolding n
  proof (rule Cons.IH [OF str])
    show "unat (i + 1) + length xs + 1 < 2 ^ 64" using Cons.prems(2) ui by simp
    show "range_of dest (i + 1 + of_nat (length xs) + 1) \<inter>
        range_of src (i + 1 + of_nat (length xs) + 1) = {}"
      using Cons.prems(3) by (simp only: n)
  qed
  moreover have "strcpy_loop dest src i m = strcpy_loop dest src (i + 1) ?m"
    using Cons.prems(1) ne [of 0] by (subst strcpy_loop.simps) (simp add: Let_def)
  moreover have "memcpy_loop dest src ?n i m = memcpy_loop dest src ?n (i + 1) ?m"
    using lt by (subst memcpy_loop.simps) simp
  ultimately show ?case by simp
qed

lemma strcpy_correct:
  assumes "cstr m src xs" and "length xs + 1 < 2 ^ 64"
    and "range_of dest (of_nat (length xs) + 1) \<inter> range_of src (of_nat (length xs) + 1) = {}"
  shows "\<exists>m'. strcpy dest src m = Some m' \<and> m' = copied dest src (of_nat (length xs) + 1) m \<and> cstr m' dest xs"
proof -
  let ?n = "of_nat (length xs) + 1 :: u64"
  have "strcpy dest src m = Some (memcpy dest src ?n m)"
    using strcpy_loop_memcpy [of m src 0 xs dest] assms by (simp add: strcpy_def memcpy_def)
  moreover have "memcpy dest src ?n m = copied dest src ?n m" by (rule memcpy_correct [OF assms(3)])
  moreover have "cstr (copied dest src ?n m) dest xs"
  proof -
    have "of_nat i < ?n" if "i \<le> length xs" for i
      using that assms(2) by (simp add: word_less_nat_alt unat_add_no_wrap unat_of_nat_small)
    then have "copied dest src ?n m (dest + of_nat i) = m (src + of_nat i)" if "i \<le> length xs" for i
      using that by (simp add: copied_def)
    note same = this
    show ?thesis
      unfolding cstr_iff_nth
    proof (intro conjI allI impI)
      fix i assume "i < length xs"
      with same [of i] assms(1) show "copied dest src ?n m (dest + of_nat i) = xs ! i"
        by (simp only: cstr_iff_nth less_imp_le)
    next
      fix i assume "i < length xs"
      with assms(1) show "xs ! i \<noteq> 0" unfolding cstr_iff_nth by blast
    next
      from same [of "length xs"] assms(1)
      show "copied dest src ?n m (dest + of_nat (length xs)) = 0" by (simp only: cstr_iff_nth order_refl)
    qed
  qed
  ultimately show ?thesis by (intro exI [of _ "copied dest src ?n m"] conjI) simp_all
qed

section \<open>Octal numbers\<close>

definition is_oct_digit :: "u8 \<Rightarrow> bool" where
  "is_oct_digit c \<longleftrightarrow> 48 \<le> c \<and> c \<le> 55"

definition oct_value :: "u8 list \<Rightarrow> nat" where
  "oct_value cs = foldl (\<lambda>v c. 8 * v + (unat c - 48)) 0 cs"

lemma parse_oct_loop_spec:
  assumes "\<forall>i < length cs. m (c + of_nat i) = cs ! i" and "\<forall>x \<in> set cs. is_oct_digit x"
    and "\<not> is_oct_digit (m (c + of_nat (length cs)))"
  shows "parse_oct_loop c (of_nat v) m =
    Some (c + of_nat (length cs), of_nat (foldl (\<lambda>v c. 8 * v + (unat c - 48)) v cs))"
  using assms
proof (induction cs arbitrary: c v)
  case Nil
  then show ?case by (subst parse_oct_loop.simps) (auto simp: is_oct_digit_def)
next
  case (Cons x xs)
  have x: "m c = x" using Cons.prems(1) [rule_format, of 0] by simp
  have dig: "is_oct_digit x" using Cons.prems(2) by simp
  have "ucast x - 48 = (of_nat (unat x - 48) :: u64)"
    using dig by (simp add: is_oct_digit_def word_le_nat_alt of_nat_diff)
  then have "push_bit 3 (of_nat v) + (ucast x - 48) = (of_nat (8 * v + (unat x - 48)) :: u64)"
    by (simp add: push_bit_eq_mult)
  moreover have "parse_oct_loop (c + 1) (of_nat (8 * v + (unat x - 48))) m =
      Some (c + 1 + of_nat (length xs), of_nat (foldl (\<lambda>v c. 8 * v + (unat c - 48)) (8 * v + (unat x - 48)) xs))"
  proof (rule Cons.IH)
    show "\<forall>i < length xs. m (c + 1 + of_nat i) = xs ! i"
      using Cons.prems(1) by (simp add: All_less_Suc2 add.assoc)
    show "\<forall>x \<in> set xs. is_oct_digit x" using Cons.prems(2) by simp
    show "\<not> is_oct_digit (m (c + 1 + of_nat (length xs)))"
      using Cons.prems(3) by (simp add: add.assoc)
  qed
  ultimately show ?case
    using x dig by (subst parse_oct_loop.simps) (simp add: is_oct_digit_def add.assoc)
qed

lemma parse_oct_spec:
  assumes "\<forall>i < length cs. m (str + of_nat i) = cs ! i" and "\<forall>x \<in> set cs. is_oct_digit x"
    and "\<not> is_oct_digit (m (str + of_nat (length cs)))"
  shows "parse_oct str m = Some (of_nat (length cs), of_nat (oct_value cs))"
proof -
  have "ucast (of_nat (length cs) :: u64) = (of_nat (length cs) :: u8)"
    by (simp add: unsigned_of_nat word_of_nat_eq_iff min_def)
  with parse_oct_loop_spec [OF assms, of 0] show ?thesis by (simp add: parse_oct_def oct_value_def)
qed


section \<open>Printing numbers\<close>

text \<open>
  \<^verbatim>\<open>sprintf_uint64\<close>, \<^verbatim>\<open>sprintf_uint32\<close>, \<^verbatim>\<open>sprintf_uint16\<close> and \<^verbatim>\<open>sprintf_uint8\<close> are one loop at four
  widths: with \<open>k\<close> digits still to write, the low nibble goes to index \<open>k - 1\<close>.
\<close>

definition hex_char :: "u8 \<Rightarrow> u8" where
  "hex_char hex_digit = (if hex_digit < 10 then 48 + hex_digit else 65 + hex_digit - 10)"

fun hex_loop :: "nat \<Rightarrow> 'a :: len word \<Rightarrow> u64 \<Rightarrow> mem \<Rightarrow> mem" where
  "hex_loop 0 v buffer m = m"
| "hex_loop (Suc k) v buffer m =
     hex_loop k (drop_bit 4 v) buffer (m(buffer + of_nat k := hex_char (ucast (v AND 15))))"

definition sprintf_uint64 :: "u64 \<Rightarrow> u64 \<Rightarrow> mem \<Rightarrow> mem" where
  "sprintf_uint64 v buffer m = (hex_loop 16 v buffer m)(buffer + 16 := 0)"

definition sprintf_uint32 :: "u32 \<Rightarrow> u64 \<Rightarrow> mem \<Rightarrow> mem" where
  "sprintf_uint32 v buffer m = (hex_loop 8 v buffer m)(buffer + 8 := 0)"

definition sprintf_uint16 :: "u16 \<Rightarrow> u64 \<Rightarrow> mem \<Rightarrow> mem" where
  "sprintf_uint16 data buffer m = (hex_loop 4 data buffer m)(buffer + 4 := 0)"

definition sprintf_uint8 :: "u8 \<Rightarrow> u64 \<Rightarrow> mem \<Rightarrow> mem" where
  "sprintf_uint8 v buffer m = (hex_loop 2 v buffer m)(buffer + 2 := 0)"

text \<open>The text the four functions are to write, and the number a hexadecimal text stands for.\<close>

fun hex_string :: "nat \<Rightarrow> nat \<Rightarrow> u8 list" where
  "hex_string 0 n = []"
| "hex_string (Suc k) n = hex_string k (n div 16) @ [hex_char (of_nat (n mod 16))]"

definition hex_digit_value :: "u8 \<Rightarrow> nat" where
  "hex_digit_value c = (if c \<le> 57 then unat c - 48 else unat c - 55)"

definition hex_value :: "u8 list \<Rightarrow> nat" where
  "hex_value cs = foldl (\<lambda>v c. 16 * v + hex_digit_value c) 0 cs"

lemma length_hex_string [simp]: "length (hex_string k n) = k"
  by (induction k arbitrary: n) auto

lemma hex_char_nat:
  assumes "d < 16"
  shows "unat (hex_char (of_nat d)) = (if d < 10 then 48 + d else 55 + d)"
    and "hex_char (of_nat d) \<noteq> 0" and "hex_digit_value (hex_char (of_nat d)) = d"
proof -
  have d: "unat (of_nat d :: u8) = d" using assms by (intro unat_of_nat_small) simp
  show eq: "unat (hex_char (of_nat d)) = (if d < 10 then 48 + d else 55 + d)"
    using assms by (simp add: hex_char_def word_less_nat_alt d unat_add_no_wrap unat_word_ariths)
  then show "hex_char (of_nat d) \<noteq> 0" by (auto simp: word_unat_eq_iff split: if_splits)
  from eq show "hex_digit_value (hex_char (of_nat d)) = d"
    using assms by (auto simp: hex_digit_value_def word_le_nat_alt split: if_splits)
qed

lemma hex_string_nonzero: "c \<in> set (hex_string k n) \<Longrightarrow> c \<noteq> 0"
  by (induction k arbitrary: n) (auto simp: hex_char_nat)

lemma hex_value_string: "hex_value (hex_string k n) = n mod 16 ^ k"
proof (induction k arbitrary: n)
  case 0
  then show ?case by (simp add: hex_value_def)
next
  case (Suc k)
  have "hex_value (hex_string (Suc k) n) = 16 * hex_value (hex_string k (n div 16)) + n mod 16"
    by (simp add: hex_value_def hex_char_nat)
  also have "\<dots> = n mod 16 ^ Suc k"
    using Suc by (simp add: mod_mult2_eq)
  finally show ?case .
qed

lemma hex_loop_eq:
  assumes "k \<le> 16"
  shows "hex_loop k v buffer m a =
    (if unat (a - buffer) < k then hex_string k (unat v) ! unat (a - buffer) else m a)"
  using assms
proof (induction k arbitrary: v m)
  case 0
  then show ?case by simp
next
  case (Suc k)
  have nib: "hex_char (ucast (v AND 15)) = hex_char (of_nat (unat v mod 16))"
  proof -
    have "unat (v AND 15) = unat v mod 16"
      using unat_and_mask [of v 4] by (simp add: mask_eq_exp_minus_1)
    then show ?thesis by (metis of_nat_unat)
  qed
  have k: "unat (of_nat k :: u64) = k" using Suc.prems by (intro unat_of_nat_small) simp
  have at_iff: "a = buffer + of_nat k \<longleftrightarrow> unat (a - buffer) = k"
    by (metis add.commute diff_add_cancel add_diff_cancel_left' k of_nat_unat ucast_id)
  have "unat (drop_bit 4 v) = unat v div 16" by (simp add: unat_drop_bit)
  with Suc.IH [of "drop_bit 4 v"] Suc.prems show ?case
    by (auto simp: nth_append at_iff nib less_Suc_eq)
qed


text \<open>The text in the buffer after any of the four functions.\<close>

lemma hex_loop_cstr:
  assumes "k \<le> 16"
  shows "cstr ((hex_loop k v buffer m)(buffer + of_nat k := 0)) buffer (hex_string k (unat v))"
proof -
  have off: "unat (of_nat i :: u64) = i" if "i \<le> k" for i
    using that assms by (intro unat_of_nat_small) simp
  show ?thesis
    unfolding cstr_iff_nth
  proof (intro conjI allI impI)
    fix i assume "i < length (hex_string k (unat v))"
    then have i: "i < k" by simp
    then have "(of_nat i :: u64) \<noteq> of_nat k"
      using off [of i] off [of k] by (metis less_imp_le order_refl less_irrefl)
    moreover have "hex_loop k v buffer m (buffer + of_nat i) = hex_string k (unat v) ! i"
      using i off [of i] assms by (simp add: hex_loop_eq)
    ultimately show "((hex_loop k v buffer m)(buffer + of_nat k := 0)) (buffer + of_nat i) =
        hex_string k (unat v) ! i" by simp
    show "hex_string k (unat v) ! i \<noteq> 0"
      using i by (intro hex_string_nonzero [of _ k "unat v"]) simp
  next
    show "((hex_loop k v buffer m)(buffer + of_nat k := 0)) (buffer + of_nat (length (hex_string k (unat v)))) = 0"
      by simp
  qed
qed

lemma sprintf_uint64_cstr: "cstr (sprintf_uint64 v buffer m) buffer (hex_string 16 (unat v))"
  using hex_loop_cstr [of 16 v buffer m] by (simp add: sprintf_uint64_def)

lemma sprintf_uint32_cstr: "cstr (sprintf_uint32 v buffer m) buffer (hex_string 8 (unat v))"
  using hex_loop_cstr [of 8 v buffer m] by (simp add: sprintf_uint32_def)

lemma sprintf_uint16_cstr: "cstr (sprintf_uint16 v buffer m) buffer (hex_string 4 (unat v))"
  using hex_loop_cstr [of 4 v buffer m] by (simp add: sprintf_uint16_def)

lemma sprintf_uint8_cstr: "cstr (sprintf_uint8 v buffer m) buffer (hex_string 2 (unat v))"
  using hex_loop_cstr [of 2 v buffer m] by (simp add: sprintf_uint8_def)

subsection \<open>Decimal\<close>

text \<open>
  The local array of ten digits is a list, filled from the last digit to the first; its contents
  before the loop do not matter, since the loop assigns every element. \<open>store_bytes\<close> is the
  \<^verbatim>\<open>memcpy\<close> from that local array.
\<close>

fun store_bytes :: "u64 \<Rightarrow> u8 list \<Rightarrow> mem \<Rightarrow> mem" where
  "store_bytes p [] m = m"
| "store_bytes p (x # xs) m = store_bytes (p + 1) xs (m(p := x))"

fun dec_loop :: "nat \<Rightarrow> u32 \<Rightarrow> u8 list \<Rightarrow> u8 \<Rightarrow> u8 list \<times> u8" where
  "dec_loop 0 data buffer first_nonzero_digit_index = (buffer, first_nonzero_digit_index)"
| "dec_loop (Suc k) data buffer first_nonzero_digit_index =
     (let hex_digit = ucast (data mod 10) :: u8
      in dec_loop k (data div 10) (buffer[k := 48 + hex_digit])
           (if hex_digit \<noteq> 0 then of_nat k else first_nonzero_digit_index))"

definition sprintf_dec :: "u32 \<Rightarrow> u64 \<Rightarrow> u8 \<Rightarrow> u8 \<Rightarrow> mem \<Rightarrow> mem res" where
  "sprintf_dec data result pad_char max_digits m =
     (let m1 = memset result 0 11 m;
          (buffer, fnz) = dec_loop 10 data (replicate 10 0) 9
      in if pad_char \<noteq> 0
         then (let padded = foldl (\<lambda>b i. b[i := pad_char]) buffer [0..<unat fnz]
               in if unat max_digits \<le> 10
                  then Inr (store_bytes result (drop (10 - unat max_digits) padded) m1)
                  else Inl Invalid_Access)
         else (let num_digits =
                 (if max_digits = 0 then 10 - unat fnz
                  else if unat max_digits \<ge> 10 - unat fnz then 10 - unat fnz
                  else unat max_digits)
               in Inr (store_bytes result (drop (10 - num_digits) buffer) m1)))"

fun dec_string :: "nat \<Rightarrow> u8 list" where
  "dec_string n = (if n < 10 then [48 + of_nat n] else dec_string (n div 10) @ [48 + of_nat (n mod 10)])"

declare dec_string.simps [simp del]

definition dec_value :: "u8 list \<Rightarrow> nat" where
  "dec_value cs = foldl (\<lambda>v c. 10 * v + (unat c - 48)) 0 cs"

fun dec_fixed :: "nat \<Rightarrow> nat \<Rightarrow> u8 list" where
  "dec_fixed 0 n = []"
| "dec_fixed (Suc k) n = dec_fixed k (n div 10) @ [48 + of_nat (n mod 10)]"

lemma dec_char: "d < 10 \<Longrightarrow> unat (48 + of_nat d :: u8) = 48 + d"
  by (simp add: unat_add_no_wrap unat_of_nat_small)

lemma dec_value_string: "dec_value (dec_string n) = n"
proof (induction n rule: dec_string.induct)
  case (1 n)
  show ?case
  proof (cases "n < 10")
    case True
    then show ?thesis by (subst dec_string.simps) (simp add: dec_value_def dec_char)
  next
    case False
    then have "dec_value (dec_string n) = 10 * dec_value (dec_string (n div 10)) + n mod 10"
      by (subst dec_string.simps) (simp add: dec_value_def dec_char)
    with False 1 show ?thesis by simp
  qed
qed

lemma dec_string_length_le: "n < 10 ^ Suc k \<Longrightarrow> length (dec_string n) \<le> Suc k"
proof (induction k arbitrary: n)
  case 0
  then show ?case by (subst dec_string.simps) simp
next
  case (Suc k)
  then have "n div 10 < 10 ^ Suc k" by (simp add: less_mult_imp_div_less mult.commute)
  with Suc.IH show ?case by (subst dec_string.simps) simp
qed

lemma dec_string_nonempty: "0 < length (dec_string n)"
  by (subst dec_string.simps) simp

lemma dec_string_nonzero: "c \<in> set (dec_string n) \<Longrightarrow> c \<noteq> 0"
proof (induction n rule: dec_string.induct)
  case (1 n)
  have "48 + of_nat d \<noteq> (0 :: u8)" if "d < 10" for d
    using dec_char [OF that] by (auto simp: word_unat_eq_iff)
  with 1 show ?case by (subst (asm) (2) dec_string.simps) (auto split: if_splits)
qed

lemma dec_fixed_0: "dec_fixed k 0 = replicate k 48"
  by (induction k) (simp_all add: replicate_append_same)

lemma dec_fixed_string:
  "n < 10 ^ Suc k \<Longrightarrow> dec_fixed (Suc k) n = replicate (Suc k - length (dec_string n)) 48 @ dec_string n"
proof (induction k arbitrary: n)
  case 0
  then show ?case by (subst (1 2) dec_string.simps) simp
next
  case (Suc k)
  show ?case
  proof (cases "n < 10")
    case True
    then show ?thesis by (subst (1 2) dec_string.simps) (simp add: dec_fixed_0)
  next
    case False
    have q: "n div 10 < 10 ^ Suc k" using Suc.prems by (simp add: less_mult_imp_div_less mult.commute)
    have "dec_fixed (Suc (Suc k)) n = dec_fixed (Suc k) (n div 10) @ [48 + of_nat (n mod 10)]" by simp
    also have "\<dots> = replicate (Suc k - length (dec_string (n div 10))) 48 @ dec_string n"
      using Suc.IH [OF q] False by (subst (2) dec_string.simps) simp
    finally show ?thesis using False by (subst (1) dec_string.simps) simp
  qed
qed

lemma store_bytes_above:
  assumes "unat (a - p) \<ge> length xs" and "length xs \<le> 2 ^ 32"
  shows "store_bytes p xs m a = m a"
  using assms
proof (induction xs arbitrary: p m)
  case Nil
  then show ?case by simp
next
  case (Cons x xs)
  from Cons.prems have pos: "0 < a - p" by (simp add: word_less_nat_alt)
  have "unat (a - (p + 1)) = unat (a - p) - 1"
    using unat_pred [OF pos] by (simp add: algebra_simps)
  with Cons.prems have "length xs \<le> unat (a - (p + 1))" by simp
  moreover have "length xs \<le> 2 ^ 32" using Cons.prems(2) by simp
  ultimately have "store_bytes (p + 1) xs (m(p := x)) a = (m(p := x)) a" by (rule Cons.IH)
  moreover have "a \<noteq> p" using pos by auto
  ultimately show ?case by (simp only: store_bytes.simps fun_upd_apply if_False)
qed

lemma store_bytes_nth:
  assumes "i < length xs" and "length xs \<le> 2 ^ 32"
  shows "store_bytes p xs m (p + of_nat i) = xs ! i"
  using assms
proof (induction xs arbitrary: p m i)
  case Nil
  then show ?case by simp
next
  case (Cons x xs)
  show ?case
  proof (cases i)
    case 0
    have "length xs \<le> unat (p - (p + 1))"
    proof -
      have "p - (p + 1) = (- 1 :: u64)" by simp
      then have "unat (p - (p + 1)) = 2 ^ 64 - 1" by (simp add: unsigned_minus_1_eq_mask mask_eq_exp_minus_1)
      with Cons.prems show ?thesis by simp
    qed
    with 0 Cons.prems show ?thesis by (simp add: store_bytes_above)
  next
    case (Suc j)
    with Cons.prems have "store_bytes (p + 1) xs (m(p := x)) (p + 1 + of_nat j) = xs ! j"
      by (intro Cons.IH) simp_all
    moreover have "p + 1 + of_nat j = p + of_nat (Suc j)" by simp
    ultimately show ?thesis unfolding Suc by (simp only: store_bytes.simps nth_Cons_Suc)
  qed
qed

lemma store_bytes_cstr:
  assumes "\<forall>x \<in> set xs. x \<noteq> 0" and "length xs \<le> 2 ^ 32" and "m (p + of_nat (length xs)) = 0"
  shows "cstr (store_bytes p xs m) p xs"
proof -
  have "unat (of_nat (length xs) :: u64) = length xs" using assms(2) by (intro unat_of_nat_small) simp
  with assms show ?thesis
    by (simp add: cstr_iff_nth store_bytes_nth store_bytes_above)
qed

lemma dec_loop_eq:
  assumes "k \<le> length buf" and "k \<le> 10" and "unat v < 10 ^ k"
  shows "dec_loop k v buf fnz =
    (dec_fixed k (unat v) @ drop k buf,
     if v = 0 then fnz else of_nat (k - length (dec_string (unat v))))"
  using assms
proof (induction k arbitrary: v buf fnz)
  case 0
  then show ?case by (simp add: unat_eq_0)
next
  case (Suc k)
  have d: "unat (v mod 10) = unat v mod 10" "unat (v div 10) = unat v div 10"
    by (simp_all add: unat_mod_distrib unat_div_distrib)
  have c: "ucast (v mod 10) = (of_nat (unat v mod 10) :: u8)"
    using d(1) by (metis of_nat_unat)
  have z: "(of_nat (unat v mod 10) :: u8) = 0 \<longleftrightarrow> unat v mod 10 = 0"
    by (simp add: word_unat_eq_iff unat_of_nat_small)
  have q: "v div 10 = 0 \<longleftrightarrow> unat v < 10"
    by (metis d(2) div_eq_0_iff unat_eq_0 zero_neq_numeral)
  have lt: "unat (v div 10) < 10 ^ k" using Suc.prems(3) d(2) by (simp add: less_mult_imp_div_less mult.commute)
  have IH: "dec_loop k (v div 10) (buf[k := 48 + ucast (v mod 10)]) f =
      (dec_fixed k (unat v div 10) @ drop k (buf[k := 48 + ucast (v mod 10)]),
       if v div 10 = 0 then f else of_nat (k - length (dec_string (unat v div 10))))" for f
    using Suc.IH [OF _ _ lt] Suc.prems d(2) by simp
  have drop_eq: "drop k (buf[k := x]) = x # drop (Suc k) buf" for x
    using Suc.prems(1) by (simp add: drop_update_swap Cons_nth_drop_Suc [symmetric])
  have bytes: "fst (dec_loop (Suc k) v buf fnz) = dec_fixed (Suc k) (unat v) @ drop (Suc k) buf"
    unfolding dec_loop.simps Let_def IH by (simp add: drop_eq c)
  have index: "snd (dec_loop (Suc k) v buf fnz) =
      (if v = 0 then fnz else of_nat (Suc k - length (dec_string (unat v))))"
  proof (cases "unat v < 10")
    case True
    then have "length (dec_string (unat v)) = 1" by (subst dec_string.simps) simp
    with True q z show ?thesis
      unfolding dec_loop.simps Let_def IH by (simp add: c unat_eq_0)
  next
    case False
    then have "length (dec_string (unat v)) = Suc (length (dec_string (unat v div 10)))"
      by (subst dec_string.simps) simp
    moreover have "v \<noteq> 0" using False by auto
    ultimately show ?thesis
      using False q unfolding dec_loop.simps Let_def IH by simp
  qed
  show ?case using bytes index by (simp add: prod_eq_iff)
qed

lemma dec_bound_u32: "unat (v :: u32) < 10 ^ 10"
  using unsigned_less [of v, where ?'a = nat] by simp

lemma dec_string_length_u32: "length (dec_string (unat (v :: u32))) \<le> 10"
  using dec_string_length_le [of "unat v" 9] dec_bound_u32 [of v] by simp

lemma dec_loop_10:
  "dec_loop 10 v (replicate 10 0) 9 =
    (replicate (10 - length (dec_string (unat v))) 48 @ dec_string (unat v),
     of_nat (10 - length (dec_string (unat v))))"
proof -
  have "dec_fixed 10 (unat v) = replicate (10 - length (dec_string (unat v))) 48 @ dec_string (unat v)"
    using dec_fixed_string [of "unat v" 9] dec_bound_u32 [of v] by simp
  moreover have "length (dec_string 0) = 1" by (subst dec_string.simps) simp
  ultimately show ?thesis
    using dec_loop_eq [of 10 "replicate 10 0" v 9] dec_bound_u32 [of v] by auto
qed

lemma foldl_pad:
  "n \<le> length b \<Longrightarrow> foldl (\<lambda>b i. b[i := c]) b [0..<n] = replicate n c @ drop n b"
proof (induction n)
  case 0
  then show ?case by simp
next
  case (Suc n)
  then have "foldl (\<lambda>b i. b[i := c]) b [0..<Suc n] = (replicate n c @ drop n b)[n := c]" by simp
  also have "\<dots> = replicate (Suc n) c @ drop (Suc n) b"
    using Suc.prems by (simp add: list_update_append replicate_append_same drop_update_swap
      Cons_nth_drop_Suc [symmetric])
  finally show ?case .
qed

lemma memset_zero: "unat i < 11 \<Longrightarrow> memset p 0 11 m (p + i) = 0"
  by (simp add: memset_correct word_less_nat_alt)

lemma unat_ten_minus: "n \<le> 10 \<Longrightarrow> unat (10 - of_nat n :: u8) = 10 - n"
  using unat_of_nat_small [of "10 - n", where ?'a = 8] by (simp add: of_nat_diff)

text \<open>The characters printed: the digits with padding in front of them, or the last digits.\<close>

definition dec_shown :: "u32 \<Rightarrow> u8 \<Rightarrow> nat \<Rightarrow> u8 list" where
  "dec_shown v pad n =
     (let s = dec_string (unat v)
      in if pad = 0 \<and> (n = 0 \<or> length s \<le> n) then s else replicate (n - length s) pad @ drop (length s - n) s)"

lemma dec_shown_nonzero: "c \<in> set (dec_shown v pad n) \<Longrightarrow> c \<noteq> 0"
  using dec_string_nonzero [of c "unat v"] by (auto simp: dec_shown_def Let_def split: if_splits dest: in_set_dropD)

lemma dec_shown_length: "pad = 0 \<or> n \<le> 10 \<Longrightarrow> length (dec_shown v pad n) \<le> 10"
  using dec_string_length_u32 [of v] by (auto simp: dec_shown_def Let_def)

lemma sprintf_dec_eq:
  assumes "pad = 0 \<or> unat k \<le> 10"
  shows "sprintf_dec v result pad k m = Inr (store_bytes result (dec_shown v pad (unat k)) (memset result 0 11 m))"
proof -
  let ?s = "dec_string (unat v)"
  have n: "length ?s \<le> 10" by (rule dec_string_length_u32)
  have fnz: "unat (10 - of_nat (length ?s) :: u8) = 10 - length ?s" using n by (rule unat_ten_minus)
  have digits: "drop (10 - j) (replicate (10 - length ?s) 48 @ ?s) = drop (length ?s - j) ?s" if "j \<le> length ?s" for j
    using that n by simp
  have padded: "foldl (\<lambda>b i. b[i := pad]) (replicate (10 - length ?s) 48 @ ?s) [0..<10 - length ?s] =
      replicate (10 - length ?s) pad @ ?s"
    by (subst foldl_pad) simp_all
  show ?thesis
  proof (cases "pad = 0")
    case True
    then show ?thesis
      unfolding sprintf_dec_def dec_loop_10 using n digits [of "length ?s"] digits [of "unat k"]
      by (auto simp: fnz dec_shown_def Let_def unat_eq_0)
  next
    case False
    with assms have "unat k \<le> 10" by simp
    with False show ?thesis
      unfolding sprintf_dec_def dec_loop_10 using n by (simp add: fnz padded dec_shown_def Let_def)
  qed
qed

lemma sprintf_dec_result:
  assumes "pad = 0 \<or> unat k \<le> 10"
  shows "\<exists>m'. sprintf_dec v result pad k m = Inr m' \<and> cstr m' result (dec_shown v pad (unat k)) \<and>
    {a. m' a \<noteq> m a} \<subseteq> range_of result 11"
proof (intro exI conjI)
  let ?s = "dec_shown v pad (unat k)" and ?m = "memset result 0 11 m"
  have n: "length ?s \<le> 10" by (rule dec_shown_length [OF assms])
  show "sprintf_dec v result pad k m = Inr (store_bytes result ?s ?m)" by (rule sprintf_dec_eq [OF assms])
  show "cstr (store_bytes result ?s ?m) result ?s"
  proof (rule store_bytes_cstr)
    show "\<forall>x \<in> set ?s. x \<noteq> 0" using dec_shown_nonzero by blast
    show "?m (result + of_nat (length ?s)) = 0" using n by (intro memset_zero) (simp add: unat_of_nat_small)
  qed (use n in simp)
  have "store_bytes result ?s ?m a = m a" if "\<not> a - result < 11" for a
  proof -
    have "length ?s \<le> unat (a - result)" using that n by (simp add: word_less_nat_alt)
    then have "store_bytes result ?s ?m a = ?m a" by (rule store_bytes_above) (use n in simp)
    then show ?thesis using that by (simp add: memset_correct)
  qed
  then show "{a. store_bytes result ?s ?m a \<noteq> m a} \<subseteq> range_of result 11" by (auto simp: range_of_def)
qed

section \<open>Properties\<close>

text \<open>
  C38: \<^verbatim>\<open>memmove\<close> on two ranges that do not wrap around the address space leaves at the destination
  the bytes the source held before, even when the ranges overlap, and changes nothing else.
\<close>

theorem memmove_moves:
  assumes "no_wrap dest n" and "no_wrap src n"
  shows "memmove dest src n m = (\<lambda>a. if a - dest < n then m (src + (a - dest)) else m a)"
  unfolding memmove_correct [OF assms] copied_def ..

lemma memmove_moves_witness:
  "memmove 101 100 3 (\<lambda>a. ucast a) 103 = 102"
proof -
  have "no_wrap 101 3" "no_wrap 100 3" by (simp_all add: no_wrap_def)
  then show ?thesis by (simp add: memmove_moves)
qed

text \<open>
  \<^verbatim>\<open>strcpy\<close> to a range that does not overlap the source returns; then the destination holds the
  string with its terminator, \<^verbatim>\<open>strlen\<close> of it is its length, \<^verbatim>\<open>strcmp\<close> finds the two equal, and no byte
  outside the destination's \<open>length + 1\<close> bytes has changed.
\<close>

lemma strcpy_copies:
  assumes "cstr m src xs" and "length xs + 1 < 2 ^ 64"
    and "range_of dest (of_nat (length xs) + 1) \<inter> range_of src (of_nat (length xs) + 1) = {}"
  shows "\<exists>m'. strcpy dest src m = Some m' \<and> cstr m' dest xs \<and>
    strlen dest m' = Some (of_nat (length xs)) \<and> strcmp dest src m' = Some 0 \<and>
    (\<forall>a. \<not> a - dest < of_nat (length xs) + 1 \<longrightarrow> m' a = m a)"
proof -
  from strcpy_correct [OF assms] obtain m' where m': "strcpy dest src m = Some m'"
    "m' = copied dest src (of_nat (length xs) + 1) m" "cstr m' dest xs" by blast
  have "unat (of_nat (Suc (length xs)) :: u64) = Suc (length xs)"
    by (rule unat_of_nat_small) (use assms(2) in simp)
  then have small: "unat (of_nat (length xs) + 1 :: u64) = Suc (length xs)"
    by (simp only: of_nat_Suc add.commute)
  have "m' (src + of_nat i) = m (src + of_nat i)" if i: "i \<le> length xs" for i
  proof -
    have "unat (of_nat i :: u64) = i" by (rule unat_of_nat_small) (use i assms(2) in simp)
    then have "(of_nat i :: u64) < of_nat (length xs) + 1"
      using i unfolding word_less_nat_alt small by simp
    then have "src + of_nat i \<in> range_of src (of_nat (length xs) + 1)" by simp
    then have "src + of_nat i \<notin> range_of dest (of_nat (length xs) + 1)" using assms(3) by blast
    then have "\<not> src + of_nat i - dest < of_nat (length xs) + 1"
      using mem_range_offset [of dest "src + of_nat i - dest" "of_nat (length xs) + 1"] by simp
    then show ?thesis unfolding m'(2) copied_def by simp
  qed
  then have "cstr m' src xs" using cstr_cong [of xs m' src m] assms(1) by blast
  then have "strcmp dest src m' = Some 0" using strcmp_cstr [OF m'(3)] by fastforce
  then show ?thesis
    using m' strlen_cstr [OF m'(3)] by (intro exI [of _ m']) (simp add: copied_def)
qed

lemma strcpy_copies_witness:
  "\<exists>m'. strcpy 200 100 (\<lambda>a. if a = 100 then 65 else if a = 101 then 66 else 0) = Some m' \<and>
    strlen 200 m' = Some 2 \<and> strcmp 200 100 m' = Some 0"
proof -
  let ?m = "\<lambda>a :: u64. if a = 100 then 65 else if a = 101 then 66 else 0 :: u8"
  have "cstr ?m 100 [65, 66]" by simp
  moreover have "range_of 200 (of_nat (length [65, 66 :: u8]) + 1) \<inter>
      range_of 100 (of_nat (length [65, 66 :: u8]) + 1) = {}"
  proof -
    have "\<not> x - 100 < 3" if "x - 200 < 3" for x :: u64
    proof -
      have "unat ((x - 200) + 100) = unat (x - 200) + unat (100 :: u64)"
        using that by (intro unat_add_no_wrap) (simp add: word_less_nat_alt)
      moreover have "(x - 200) + 100 = x - 100" by simp
      ultimately show ?thesis by (simp add: word_less_nat_alt)
    qed
    then show ?thesis by (auto simp: range_of_def)
  qed
  ultimately show ?thesis using strcpy_copies [of ?m 100 "[65, 66]" 200] by auto
qed

text \<open>
  Each \<^verbatim>\<open>sprintf_uintN\<close> leaves in the buffer a C string of \<open>N / 4\<close> hexadecimal digits whose value is
  the number printed.
\<close>

lemma sprintf_hex_value:
  "(\<exists>s. cstr (sprintf_uint64 a buf m) buf s \<and> length s = 16 \<and> hex_value s = unat a) \<and>
   (\<exists>s. cstr (sprintf_uint32 b buf m) buf s \<and> length s = 8 \<and> hex_value s = unat b) \<and>
   (\<exists>s. cstr (sprintf_uint16 c buf m) buf s \<and> length s = 4 \<and> hex_value s = unat c) \<and>
   (\<exists>s. cstr (sprintf_uint8 d buf m) buf s \<and> length s = 2 \<and> hex_value s = unat d)"
proof (intro conjI)
  show "\<exists>s. cstr (sprintf_uint64 a buf m) buf s \<and> length s = 16 \<and> hex_value s = unat a"
    using sprintf_uint64_cstr [of a buf m] unsigned_less [of a, where ?'a = nat]
    by (intro exI [of _ "hex_string 16 (unat a)"]) (simp add: hex_value_string)
  show "\<exists>s. cstr (sprintf_uint32 b buf m) buf s \<and> length s = 8 \<and> hex_value s = unat b"
    using sprintf_uint32_cstr [of b buf m] unsigned_less [of b, where ?'a = nat]
    by (intro exI [of _ "hex_string 8 (unat b)"]) (simp add: hex_value_string)
  show "\<exists>s. cstr (sprintf_uint16 c buf m) buf s \<and> length s = 4 \<and> hex_value s = unat c"
    using sprintf_uint16_cstr [of c buf m] unsigned_less [of c, where ?'a = nat]
    by (intro exI [of _ "hex_string 4 (unat c)"]) (simp add: hex_value_string)
  show "\<exists>s. cstr (sprintf_uint8 d buf m) buf s \<and> length s = 2 \<and> hex_value s = unat d"
    using sprintf_uint8_cstr [of d buf m] unsigned_less [of d, where ?'a = nat]
    by (intro exI [of _ "hex_string 2 (unat d)"]) (simp add: hex_value_string)
qed

lemma dec_string_head: "hd (dec_string n) = 48 \<longleftrightarrow> n = 0"
proof (induction n rule: dec_string.induct)
  case (1 n)
  show ?case
  proof (cases "n < 10")
    case True
    then have "unat (48 + of_nat n :: u8) = 48 + n" by (rule dec_char)
    then show ?thesis using True by (subst dec_string.simps) (auto simp: word_unat_eq_iff)
  next
    case False
    then show ?thesis
      using 1 dec_string_nonempty [of "n div 10"] by (subst dec_string.simps) (simp add: hd_append)
  qed
qed

lemma dec_string_digits: "set (dec_string n) \<subseteq> {48..57}"
proof (induction n rule: dec_string.induct)
  case (1 n)
  have "48 + of_nat d \<in> {48..57 :: u8}" if "d < 10" for d
    using dec_char [OF that] that by (simp add: word_le_nat_alt)
  with 1 show ?case by (subst dec_string.simps) (simp split: if_split)
qed

lemma dec_string_facts:
  "dec_value (dec_string (unat v)) = unat v" "set (dec_string (unat v)) \<subseteq> {48..57}"
  "hd (dec_string (unat (v :: u32))) = 48 \<longleftrightarrow> v = 0"
  by (simp_all only: dec_value_string dec_string_digits dec_string_head unat_eq_0)

text \<open>
  C39: \<^verbatim>\<open>sprintf_dec\<close> prints the decimal digits of the number without leading zeros (\<open>dec_string\<close>), and writes to no
  byte behind the eleven of its result. Without padding, a maximum of digits that is not 0 keeps the last ones. With a padding
  character the result has exactly as many characters as the maximum: the digits with the padding in front, or the last
  digits, and none when the maximum is 0, where the comment of the function says that there is none. With a
  padding character, a maximum above 10 reads in front of the local array.
\<close>

theorem sprintf_dec_prints:
  "dec_value (dec_string (unat v)) = unat v \<and> set (dec_string (unat v)) \<subseteq> {48..57} \<and>
   (hd (dec_string (unat v)) = 48 \<longleftrightarrow> v = 0) \<and>
   (let s = dec_string (unat v); n = unat max_digits;
        shown = (if pad_char = 0 \<and> (n = 0 \<or> length s \<le> n) then s
                 else replicate (n - length s) pad_char @ drop (length s - n) s) in
     case sprintf_dec v result pad_char max_digits m of
       Inl e \<Rightarrow> e = Invalid_Access \<and> pad_char \<noteq> 0 \<and> 10 < n
     | Inr m' \<Rightarrow> (pad_char = 0 \<or> n \<le> 10) \<and> cstr m' result shown \<and> {a. m' a \<noteq> m a} \<subseteq> range_of result 11)"
proof (cases "pad_char \<noteq> 0 \<and> 10 < unat max_digits")
  case True
  then show ?thesis by (simp add: dec_string_facts sprintf_dec_def dec_loop_10 Let_def)
next
  case False
  then show ?thesis
    using sprintf_dec_result [of pad_char max_digits v result m]
    by (auto simp: dec_string_facts dec_shown_def Let_def)
qed

end
