(* ===== verification/Kmem.thy ===== *)
theory Kmem
  imports Prelude
begin

text \<open>
  \<^verbatim>\<open>kernel/src/mm/kmem.c\<close>: physical page allocation. The globals of the file are the fields of
  \<open>kmem_state\<close>, the first layer of the kernel's state: every later component extends this record.
  \<open>kmem_page_array\<close> is the list of the status bytes of \<^verbatim>\<open>struct page\<close>; a page index, which is
  bounded by that array, is a natural number, an address a 64-bit word. A panic message is kept
  without its final newline.
\<close>

section \<open>State\<close>

record kmem_state =
  hhdm_offset :: u64
  kmem_start :: u64
  kmem_length :: u64
  kmem_total_pages :: u64
  kmem_page_array :: "u8 list"
  kmem_used_pages :: u64
  dmem_start :: u64
  dmem_used_pages :: u64

definition KPAGE_PAGE_ARRAY :: u8 where "KPAGE_PAGE_ARRAY = 0x81"
definition KPAGE_FREE :: u8 where "KPAGE_FREE = 0x82"
definition KPAGE_USED :: u8 where "KPAGE_USED = 0x83"

abbreviation PAGE_SIZE :: u64 where "PAGE_SIZE \<equiv> 4096"

lemma kpage_status_distinct [simp]:
  "KPAGE_FREE \<noteq> KPAGE_USED" "KPAGE_USED \<noteq> KPAGE_FREE"
  "KPAGE_PAGE_ARRAY \<noteq> KPAGE_FREE" "KPAGE_PAGE_ARRAY \<noteq> KPAGE_USED"
  by (simp_all add: KPAGE_FREE_def KPAGE_USED_def KPAGE_PAGE_ARRAY_def)

section \<open>Initialisation\<close>

record memmap_entry =
  me_base :: u64
  me_length :: u64
  me_type :: u64

text \<open>
  The choice of the largest usable region; \<open>memmap_entry\<close> is the entry of the boot loader's memory
  map, whose responses are the arguments.
\<close>

fun largest_region :: "memmap_entry list \<Rightarrow> u64 \<Rightarrow> memmap_entry option \<Rightarrow> memmap_entry option" where
  "largest_region [] largest_region_bytes largest_region_entry = largest_region_entry"
| "largest_region (entry # entries) largest_region_bytes largest_region_entry =
     (if me_type entry \<noteq> 0 then largest_region entries largest_region_bytes largest_region_entry
      else if me_length entry > largest_region_bytes
      then largest_region entries (me_length entry) (Some entry)
      else largest_region entries largest_region_bytes largest_region_entry)"

definition kmem_init ::
  "u64 option \<Rightarrow> memmap_entry list option \<Rightarrow> 'z kmem_state_scheme \<Rightarrow> 'z kmem_state_scheme res" where
  "kmem_init hhdm_response memmap_response st =
     (case hhdm_response of
        None \<Rightarrow> Inl (Panic ''No HHDM response'')
      | Some offset \<Rightarrow>
        (case memmap_response of
           None \<Rightarrow> Inl (Panic ''No memmap response'')
         | Some entries \<Rightarrow>
           (case largest_region entries 0 None of
              None \<Rightarrow> Inl (Panic ''No usable memory regions found'')
            | Some entry \<Rightarrow>
              (let total_pages = drop_bit 12 (me_length entry);
                   page_array_pages = drop_bit 12 total_pages + 1
               in Inr (st\<lparr>hhdm_offset := offset,
                          kmem_start := me_base entry + offset,
                          kmem_length := me_length entry,
                          kmem_total_pages := total_pages,
                          kmem_page_array :=
                            map (\<lambda>i. if i < unat page_array_pages then KPAGE_PAGE_ARRAY else KPAGE_FREE)
                              [0..<unat total_pages]\<rparr>)))))"

section \<open>Allocation\<close>

function kpage_alloc_loop :: "nat \<Rightarrow> u8 list \<Rightarrow> nat \<Rightarrow> nat \<Rightarrow> nat \<Rightarrow> nat res" where
  "kpage_alloc_loop total_pages pages num_pages i consecutive_free =
     (if i \<ge> total_pages then Inl (Panic ''Out of physical memory'')
      else res_bind (array_get pages i) (\<lambda>status.
        if status = KPAGE_FREE
        then if Suc consecutive_free = num_pages then Inr (Suc i - num_pages)
             else kpage_alloc_loop total_pages pages num_pages (Suc i) (Suc consecutive_free)
        else kpage_alloc_loop total_pages pages num_pages (Suc i) 0))"
  by pat_completeness auto
termination
  by (relation "measure (\<lambda>(total_pages, pages, n, i, c). total_pages - i)") auto

declare kpage_alloc_loop.simps [simp del]

fun set_status :: "u8 \<Rightarrow> nat \<Rightarrow> nat \<Rightarrow> u8 list \<Rightarrow> u8 list res" where
  "set_status status j 0 pages = Inr pages"
| "set_status status j (Suc n) pages =
     res_bind (array_set pages j status) (set_status status (Suc j) n)"

definition kpage_alloc :: "nat \<Rightarrow> 'z kmem_state_scheme \<Rightarrow> ('z kmem_state_scheme \<times> u64) res" where
  "kpage_alloc num_pages st =
     res_bind (kpage_alloc_loop (unat (kmem_total_pages st)) (kmem_page_array st) num_pages 0 0)
       (\<lambda>first_page_index.
     res_bind (set_status KPAGE_USED first_page_index num_pages (kmem_page_array st)) (\<lambda>pages.
       Inr (st\<lparr>kmem_page_array := pages,
               kmem_used_pages := kmem_used_pages st + of_nat num_pages\<rparr>,
            kmem_start st + push_bit 12 (of_nat first_page_index))))"

definition kpage_free :: "u64 \<Rightarrow> nat \<Rightarrow> 'z kmem_state_scheme \<Rightarrow> 'z kmem_state_scheme res" where
  "kpage_free page num_pages st =
     (let first_page_index = unat (drop_bit 12 (page - kmem_start st))
      in res_bind (set_status KPAGE_FREE first_page_index num_pages (kmem_page_array st)) (\<lambda>pages.
           Inr (st\<lparr>kmem_page_array := pages,
                   kmem_used_pages := kmem_used_pages st - of_nat num_pages\<rparr>)))"

definition dpage_alloc :: "u64 \<Rightarrow> 'z kmem_state_scheme \<Rightarrow> 'z kmem_state_scheme \<times> u64" where
  "dpage_alloc num_pages st =
     (st\<lparr>dmem_used_pages := dmem_used_pages st + num_pages\<rparr>,
      dmem_start st + dmem_used_pages st * PAGE_SIZE)"

section \<open>The search\<close>

definition free_run :: "u8 list \<Rightarrow> nat \<Rightarrow> nat \<Rightarrow> bool" where
  "free_run pages first n \<longleftrightarrow>
     first + n \<le> length pages \<and> (\<forall>j < n. pages ! (first + j) = KPAGE_FREE)"

text \<open>
  Invariant of the search: the last \<open>c\<close> pages before \<open>i\<close> are free, and no run of \<open>n\<close> free pages
  ends at or before \<open>i\<close>. Then the search finds the first run, or panics when there is none.
\<close>

lemma kpage_alloc_loop_spec:
  assumes "0 < n" and "total_pages = length pages" and "c < n" and "c \<le> i"
    and "\<forall>j. i - c \<le> j \<and> j < i \<and> j < total_pages \<longrightarrow> pages ! j = KPAGE_FREE"
    and "\<forall>f. free_run pages f n \<longrightarrow> i - c \<le> f"
  shows "kpage_alloc_loop total_pages pages n i c =
    (if \<exists>f. free_run pages f n then Inr (LEAST f. free_run pages f n)
     else Inl (Panic ''Out of physical memory''))"
  using assms
proof (induction total_pages pages n i c rule: kpage_alloc_loop.induct)
  case (1 total_pages pages n i c)
  show ?case
  proof (cases "i \<ge> total_pages")
    case True
    have "\<not> free_run pages f n" for f
    proof
      assume r: "free_run pages f n"
      then have "f + n \<le> length pages" by (simp add: free_run_def)
      moreover have "i - c \<le> f" using r "1.prems"(6) by blast
      ultimately show False using True "1.prems"(2,3,4) by linarith
    qed
    with True show ?thesis by (simp add: kpage_alloc_loop.simps [of total_pages pages n i c])
  next
    case False
    then have get: "array_get pages i = Inr (pages ! i)" using "1.prems"(2) by (simp add: array_get_def)
    show ?thesis
    proof (cases "pages ! i = KPAGE_FREE")
      case free: True
      have run: "\<forall>j. Suc i - Suc c \<le> j \<and> j < Suc i \<and> j < total_pages \<longrightarrow> pages ! j = KPAGE_FREE"
        using "1.prems"(5) free by (auto simp: less_Suc_eq)
      show ?thesis
      proof (cases "Suc c = n")
        case True
        have here: "free_run pages (Suc i - n) n"
          unfolding free_run_def
      proof (intro conjI allI impI)
        show "Suc i - n + n \<le> length pages" using True False "1.prems"(2,4) by simp
        fix j assume "j < n"
        with True False "1.prems"(2,4)
        have "Suc i - Suc c \<le> Suc i - n + j \<and> Suc i - n + j < Suc i \<and> Suc i - n + j < total_pages"
          by linarith
        with run show "pages ! (Suc i - n + j) = KPAGE_FREE" by blast
      qed
        have "(LEAST f. free_run pages f n) = Suc i - n"
          using here "1.prems"(6) True by (intro Least_equality) auto
        with here True False get free show ?thesis
          by (auto simp: kpage_alloc_loop.simps [of total_pages pages n i c])
      next
        case more: False
        have "kpage_alloc_loop total_pages pages n (Suc i) (Suc c) =
            (if \<exists>f. free_run pages f n then Inr (LEAST f. free_run pages f n)
             else Inl (Panic ''Out of physical memory''))"
          using "1.IH"(1) [OF _ get free more] "1.prems" False more run by simp
        with False get free more show ?thesis
          by (simp add: kpage_alloc_loop.simps [of total_pages pages n i c])
      qed
    next
      case used: False
      have "\<forall>f. free_run pages f n \<longrightarrow> Suc i \<le> f"
      proof (intro allI impI, rule ccontr)
        fix f assume r: "free_run pages f n" and "\<not> Suc i \<le> f"
        with "1.prems"(6) have f: "i - c \<le> f" "f \<le> i" by auto
        then have "i - f < n" using "1.prems"(3) by linarith
        with r f have "pages ! i = KPAGE_FREE" unfolding free_run_def by force
        with used show False by simp
      qed
      then have "kpage_alloc_loop total_pages pages n (Suc i) 0 =
          (if \<exists>f. free_run pages f n then Inr (LEAST f. free_run pages f n)
           else Inl (Panic ''Out of physical memory''))"
        using "1.IH"(2) [OF _ get used] "1.prems" False by simp
      with False get used show ?thesis
        by (simp add: kpage_alloc_loop.simps [of total_pages pages n i c])
    qed
  qed
qed

lemma set_status_eq:
  "j + n \<le> length pages \<Longrightarrow>
     set_status v j n pages = Inr (take j pages @ replicate n v @ drop (j + n) pages)"
proof (induction n arbitrary: j pages)
  case 0
  then show ?case by simp
next
  case (Suc n)
  then have "set_status v j (Suc n) pages =
      Inr (take (Suc j) (pages[j := v]) @ replicate n v @ drop (Suc j + n) (pages[j := v]))"
    by (simp add: array_set_def)
  also have "take (Suc j) (pages[j := v]) = take j pages @ [v]"
    using Suc.prems by (simp add: take_Suc_conv_app_nth)
  also have "drop (Suc j + n) (pages[j := v]) = drop (Suc j + n) pages" by simp
  finally show ?case by simp
qed

section \<open>Invariant and addresses\<close>

text \<open>
  \<open>kmem_wf\<close>: the page array has an entry for every page, the managed region is page-aligned and
  lies below the end of the address space, and \<open>kmem_used_pages\<close> counts the pages in use.
\<close>

definition used_count :: "u8 list \<Rightarrow> nat" where
  "used_count pages = length (filter (\<lambda>s. s = KPAGE_USED) pages)"

definition kmem_wf :: "'z kmem_state_scheme \<Rightarrow> bool" where
  "kmem_wf st \<longleftrightarrow>
     length (kmem_page_array st) = unat (kmem_total_pages st) \<and>
     unat (kmem_start st) + 4096 * unat (kmem_total_pages st) \<le> 2 ^ 64 \<and>
     4096 dvd unat (kmem_start st) \<and>
     unat (kmem_used_pages st) = used_count (kmem_page_array st)"

definition page_addr :: "'z kmem_state_scheme \<Rightarrow> nat \<Rightarrow> u64" where
  "page_addr st i = kmem_start st + push_bit 12 (of_nat i)"

definition page_index :: "'z kmem_state_scheme \<Rightarrow> u64 \<Rightarrow> nat" where
  "page_index st a = unat (drop_bit 12 (a - kmem_start st))"

definition used_pages :: "'z kmem_state_scheme \<Rightarrow> u64 set" where
  "used_pages st =
     {page_addr st i |i. i < length (kmem_page_array st) \<and> kmem_page_array st ! i = KPAGE_USED}"

lemma unat_page_offset:
  assumes "4096 * i < 2 ^ 64"
  shows "unat (push_bit 12 (of_nat i) :: u64) = 4096 * i"
proof -
  have "(push_bit 12 (of_nat i) :: u64) = of_nat (4096 * i)"
    by (simp add: push_bit_eq_mult mult.commute)
  with assms show ?thesis using unat_of_nat_small [of "4096 * i", where ?'a = 64] by simp
qed

lemma kmem_wfD:
  assumes "kmem_wf st"
  shows "length (kmem_page_array st) = unat (kmem_total_pages st)"
    and "unat (kmem_start st) + 4096 * length (kmem_page_array st) \<le> 2 ^ 64"
    and "4096 dvd unat (kmem_start st)"
    and "unat (kmem_used_pages st) = used_count (kmem_page_array st)"
  using assms by (simp_all add: kmem_wf_def)

lemma unat_page_addr:
  assumes "kmem_wf st" and "i < length (kmem_page_array st)"
  shows "unat (page_addr st i) = unat (kmem_start st) + 4096 * i"
proof -
  from assms(2) have "4096 * Suc i \<le> 4096 * length (kmem_page_array st)" by simp
  with kmem_wfD(2) [OF assms(1)] have "unat (kmem_start st) + 4096 * i < 2 ^ 64" by simp
  then show ?thesis
    unfolding page_addr_def by (subst unat_add_no_wrap) (simp_all add: unat_page_offset)
qed

lemma page_index_addr:
  assumes "kmem_wf st" and "i < length (kmem_page_array st)"
  shows "page_index st (page_addr st i) = i"
proof -
  from assms(2) have "4096 * Suc i \<le> 4096 * length (kmem_page_array st)" by simp
  with kmem_wfD(2) [OF assms(1)] have "4096 * i < 2 ^ 64" by simp
  then have "unat (push_bit 12 (of_nat i) :: u64) = 4096 * i" by (rule unat_page_offset)
  moreover have "page_addr st i - kmem_start st = push_bit 12 (of_nat i)"
    unfolding page_addr_def by (rule add_diff_cancel_left')
  ultimately have "page_index st (page_addr st i) = 4096 * i div 2 ^ 12"
    unfolding page_index_def unat_drop_bit by presburger
  also have "\<dots> = i" by simp
  finally show ?thesis .
qed

lemma page_addr_inj:
  assumes "kmem_wf st" "i < length (kmem_page_array st)" "j < length (kmem_page_array st)"
    and "page_addr st i = page_addr st j"
  shows "i = j"
  using page_index_addr [OF assms(1,2)] page_index_addr [OF assms(1,3)] assms(4) by metis

lemma page_addr_aligned:
  assumes "kmem_wf st" and "i < length (kmem_page_array st)"
  shows "4096 dvd unat (page_addr st i)"
  using kmem_wfD(3) [OF assms(1)] unat_page_addr [OF assms] by simp

lemma page_addr_room:
  assumes "kmem_wf st" and "i < length (kmem_page_array st)"
  shows "unat (page_addr st i) + 4096 \<le> 2 ^ 64"
proof -
  from assms(2) have "4096 * Suc i \<le> 4096 * length (kmem_page_array st)" by simp
  with kmem_wfD(2) [OF assms(1)] show ?thesis using assms by (simp add: unat_page_addr)
qed

lemma used_pages_wfD:
  assumes "kmem_wf st" and "a \<in> used_pages st"
  shows "4096 dvd unat a" and "unat a + 4096 \<le> 2 ^ 64"
  using assms page_addr_aligned page_addr_room unfolding used_pages_def by blast+

section \<open>Correctness of allocation\<close>

lemma used_count_append [simp]: "used_count (xs @ ys) = used_count xs + used_count ys"
  by (simp add: used_count_def)

lemma used_count_replicate:
  "used_count (replicate n v) = (if v = KPAGE_USED then n else 0)"
  by (simp add: used_count_def)

lemma used_count_le: "used_count xs \<le> length xs"
  by (simp add: used_count_def)

lemma used_count_uniform:
  assumes "\<And>x. x \<in> set xs \<Longrightarrow> x = v"
  shows "used_count xs = (if v = KPAGE_USED then length xs else 0)"
proof (cases "v = KPAGE_USED")
  case True
  with assms have "filter (\<lambda>s. s = KPAGE_USED) xs = xs" by (intro filter_True) blast
  with True show ?thesis by (simp add: used_count_def)
next
  case False
  with assms have "filter (\<lambda>s. s = KPAGE_USED) xs = []" by (intro filter_False) blast
  with False show ?thesis by (simp add: used_count_def)
qed

lemma split3: "f + n \<le> length xs \<Longrightarrow> xs = take f xs @ take n (drop f xs) @ drop (f + n) xs"
  using append_take_drop_id [of n "drop f xs"] append_take_drop_id [of f xs] by (simp add: add.commute)

lemma run_members:
  assumes "f + n \<le> length xs" and "\<forall>j < n. xs ! (f + j) = v" and "x \<in> set (take n (drop f xs))"
  shows "x = v"
  using assms by (auto simp: in_set_conv_nth)

text \<open>Overwriting a uniform run of pages changes the count by the length of the run.\<close>

lemma used_count_overwrite:
  assumes "f + n \<le> length xs" and "\<forall>j < n. xs ! (f + j) = v" and "v \<noteq> w"
  shows "used_count (take f xs @ replicate n w @ drop (f + n) xs) =
    (if w = KPAGE_USED then used_count xs + n
     else if v = KPAGE_USED then used_count xs - n else used_count xs)"
proof -
  have mid: "used_count (take n (drop f xs)) = (if v = KPAGE_USED then n else 0)"
    using used_count_uniform [of "take n (drop f xs)" v] run_members [OF assms(1,2)] assms(1) by simp
  have "used_count xs = used_count (take f xs) + used_count (take n (drop f xs)) + used_count (drop (f + n) xs)"
    using arg_cong [OF split3 [OF assms(1)], of used_count] by simp
  with mid assms(3) show ?thesis by (cases "w = KPAGE_USED") (simp_all add: used_count_replicate)
qed

lemma kpage_alloc_eq:
  assumes "kmem_wf st" and "0 < n"
  shows "kpage_alloc n st =
    (if \<exists>f. free_run (kmem_page_array st) f n
     then let f = LEAST f. free_run (kmem_page_array st) f n
          in Inr (st\<lparr>kmem_page_array := take f (kmem_page_array st) @ replicate n KPAGE_USED @
                        drop (f + n) (kmem_page_array st),
                     kmem_used_pages := kmem_used_pages st + of_nat n\<rparr>, page_addr st f)
     else Inl (Panic ''Out of physical memory''))"
proof (cases "\<exists>f. free_run (kmem_page_array st) f n")
  case True
  then have "free_run (kmem_page_array st) (LEAST f. free_run (kmem_page_array st) f n) n"
    by (rule LeastI_ex)
  then have "(LEAST f. free_run (kmem_page_array st) f n) + n \<le> length (kmem_page_array st)"
    by (simp add: free_run_def)
  with True assms show ?thesis
    by (simp add: kpage_alloc_def kpage_alloc_loop_spec kmem_wfD(1) set_status_eq page_addr_def Let_def)
next
  case False
  with assms show ?thesis by (simp add: kpage_alloc_def kpage_alloc_loop_spec kmem_wfD(1))
qed

lemma kpage_alloc_cases:
  assumes "kmem_wf st" and "0 < n" and "kpage_alloc n st = Inr (st', a)"
  obtains f where "free_run (kmem_page_array st) f n" and "a = page_addr st f"
    and "\<And>g. free_run (kmem_page_array st) g n \<Longrightarrow> f \<le> g"
    and "st' = st\<lparr>kmem_page_array := take f (kmem_page_array st) @ replicate n KPAGE_USED @
                    drop (f + n) (kmem_page_array st),
                  kmem_used_pages := kmem_used_pages st + of_nat n\<rparr>"
proof -
  let ?f = "LEAST f. free_run (kmem_page_array st) f n"
  from assms have ex: "\<exists>f. free_run (kmem_page_array st) f n"
    by (auto simp: kpage_alloc_eq split: if_splits)
  have "free_run (kmem_page_array st) ?f n" using ex by (rule LeastI_ex)
  moreover have "a = page_addr st ?f \<and>
      st' = st\<lparr>kmem_page_array := take ?f (kmem_page_array st) @ replicate n KPAGE_USED @
                 drop (?f + n) (kmem_page_array st),
               kmem_used_pages := kmem_used_pages st + of_nat n\<rparr>"
    using assms ex by (auto simp: kpage_alloc_eq Let_def)
  ultimately show ?thesis by (intro that [of ?f]) (auto intro: Least_le)
qed

lemma kpage_alloc_ex:
  assumes "kmem_wf st" and "f < length (kmem_page_array st)" and "kmem_page_array st ! f = KPAGE_FREE"
  shows "\<exists>st' a. kpage_alloc 1 st = Inr (st', a)"
proof -
  have "free_run (kmem_page_array st) f 1" using assms(2,3) by (simp add: free_run_def)
  with assms(1) show ?thesis by (auto simp: kpage_alloc_eq Let_def)
qed

lemma kpage_alloc_wf:
  assumes "kmem_wf st" and "0 < n" and "kpage_alloc n st = Inr (st', a)"
  shows "kmem_wf st'"
proof -
  from kpage_alloc_cases [OF assms] obtain f where run: "free_run (kmem_page_array st) f n"
    and st': "st' = st\<lparr>kmem_page_array := take f (kmem_page_array st) @ replicate n KPAGE_USED @
                    drop (f + n) (kmem_page_array st),
                  kmem_used_pages := kmem_used_pages st + of_nat n\<rparr>" by blast
  let ?pages' = "take f (kmem_page_array st) @ replicate n KPAGE_USED @ drop (f + n) (kmem_page_array st)"
  from run have fn: "f + n \<le> length (kmem_page_array st)" by (simp add: free_run_def)
  have count: "used_count ?pages' = used_count (kmem_page_array st) + n"
    using run by (subst used_count_overwrite [of _ _ _ KPAGE_FREE]) (simp_all add: free_run_def)
  have len: "length ?pages' = length (kmem_page_array st)" using fn by simp
  have small: "length (kmem_page_array st) < 2 ^ 64"
    using kmem_wfD(2) [OF assms(1)] by (cases "length (kmem_page_array st)") simp_all
  have "used_count (kmem_page_array st) + n < 2 ^ 64"
    using used_count_le [of ?pages'] unfolding count len using small by linarith
  then have "unat (kmem_used_pages st + of_nat n) = used_count ?pages'"
    unfolding count
    by (subst unat_add_no_wrap) (simp_all add: kmem_wfD(4) [OF assms(1)] unat_of_nat_small)
  then show ?thesis
    unfolding st' kmem_wf_def using assms(1) len by (simp add: kmem_wf_def)
qed

lemma kpage_free_eq:
  assumes "kmem_wf st" and "f + n \<le> length (kmem_page_array st)" and "0 < n"
  shows "kpage_free (page_addr st f) n st =
    Inr (st\<lparr>kmem_page_array := take f (kmem_page_array st) @ replicate n KPAGE_FREE @
                drop (f + n) (kmem_page_array st),
              kmem_used_pages := kmem_used_pages st - of_nat n\<rparr>)"
proof -
  have "unat (drop_bit 12 (page_addr st f - kmem_start st)) = f"
    using page_index_addr [OF assms(1), of f] assms(2,3) by (simp add: page_index_def)
  with assms(2) show ?thesis by (simp add: kpage_free_def Let_def set_status_eq)
qed

lemma kpage_free_wf:
  assumes "kmem_wf st" and "f + n \<le> length (kmem_page_array st)"
    and "\<forall>j < n. kmem_page_array st ! (f + j) = KPAGE_USED"
  shows "kmem_wf (st\<lparr>kmem_page_array := take f (kmem_page_array st) @ replicate n KPAGE_FREE @
                drop (f + n) (kmem_page_array st),
              kmem_used_pages := kmem_used_pages st - of_nat n\<rparr>)"
proof -
  let ?pages' = "take f (kmem_page_array st) @ replicate n KPAGE_FREE @ drop (f + n) (kmem_page_array st)"
  have count: "used_count ?pages' = used_count (kmem_page_array st) - n"
    using assms(2,3) by (subst used_count_overwrite [of _ _ _ KPAGE_USED]) simp_all
  have "n = used_count (take n (drop f (kmem_page_array st)))"
    using used_count_uniform [of "take n (drop f (kmem_page_array st))" KPAGE_USED]
      run_members [OF assms(2,3)] assms(2) by simp
  also have "\<dots> \<le> used_count (kmem_page_array st)"
    using arg_cong [OF split3 [OF assms(2)], of used_count] by simp
  finally have le: "n \<le> used_count (kmem_page_array st)" .
  have lt: "used_count (kmem_page_array st) < 2 ^ 64"
    using kmem_wfD(4) [OF assms(1)] unat_lt_64 [of "kmem_used_pages st"] by simp
  have n: "unat (of_nat n :: u64) = n" using le lt by (intro unat_of_nat_small) simp
  have "unat (kmem_used_pages st - of_nat n) = used_count ?pages'"
    unfolding count using le n kmem_wfD(4) [OF assms(1)]
    by (subst unat_sub_no_wrap) (simp_all add: word_le_nat_alt)
  with assms(1,2) show ?thesis by (simp add: kmem_wf_def)
qed

section \<open>The page allocator as an allocator\<close>

definition kpage_alloc1 :: "'z kmem_state_scheme \<Rightarrow> ('z kmem_state_scheme \<times> u64) res" where
  "kpage_alloc1 st = kpage_alloc 1 st"

definition kpage_free1 :: "u64 \<Rightarrow> 'z kmem_state_scheme \<Rightarrow> 'z kmem_state_scheme res" where
  "kpage_free1 page st = kpage_free page 1 st"

lemma used_pages_update:
  assumes "kmem_wf st" and "f < length (kmem_page_array st)"
    and "kmem_page_array st' = (kmem_page_array st)[f := v]" and "kmem_start st' = kmem_start st"
  shows "used_pages st' =
    (if v = KPAGE_USED then insert (page_addr st f) (used_pages st)
     else used_pages st - {page_addr st f})"
proof -
  have addr: "page_addr st' i = page_addr st i" for i using assms(4) by (simp add: page_addr_def)
  have arr: "kmem_page_array st' ! i = (if i = f then v else kmem_page_array st ! i)"
    if "i < length (kmem_page_array st)" for i
    using that assms(3) by simp
  have "a \<in> used_pages st' \<longleftrightarrow>
      a \<in> (if v = KPAGE_USED then insert (page_addr st f) (used_pages st)
            else used_pages st - {page_addr st f})" for a
    unfolding used_pages_def addr using assms(2,3) arr page_addr_inj [OF assms(1) _ assms(2)]
    by (auto split: if_splits)
  then show ?thesis by blast
qed

lemma single_update: "f < length xs \<Longrightarrow> take f xs @ [v] @ drop (f + 1) xs = xs[f := v]"
  by (simp add: upd_conv_take_nth_drop)

lemma kpage_alloc1_cases:
  assumes "kmem_wf st" and "kpage_alloc 1 st = Inr (st', a)"
  obtains f where "f < length (kmem_page_array st)" and "kmem_page_array st ! f = KPAGE_FREE"
    and "a = page_addr st f"
    and "st' = st\<lparr>kmem_page_array := (kmem_page_array st)[f := KPAGE_USED],
                  kmem_used_pages := kmem_used_pages st + 1\<rparr>"
proof -
  from kpage_alloc_cases [OF assms(1) _ assms(2)] obtain f
    where run: "free_run (kmem_page_array st) f 1" and a: "a = page_addr st f"
      and st': "st' = st\<lparr>kmem_page_array := take f (kmem_page_array st) @ replicate 1 KPAGE_USED @
                    drop (f + 1) (kmem_page_array st),
                  kmem_used_pages := kmem_used_pages st + of_nat 1\<rparr>" by auto
  from run have f: "f < length (kmem_page_array st)" "kmem_page_array st ! f = KPAGE_FREE"
    by (simp_all add: free_run_def)
  show ?thesis
    by (rule that [OF f a]) (use st' single_update [OF f(1), of KPAGE_USED] in simp)
qed

lemma kpage_alloc1_used:
  assumes "kmem_wf st" and "kpage_alloc 1 st = Inr (st', a)"
  shows "kmem_wf st'" and "a \<notin> used_pages st" and "used_pages st' = insert a (used_pages st)"
proof -
  show "kmem_wf st'" using assms by (intro kpage_alloc_wf [of st 1 st' a]) simp_all
  from kpage_alloc1_cases [OF assms] obtain f where f: "f < length (kmem_page_array st)"
    and free: "kmem_page_array st ! f = KPAGE_FREE" and a: "a = page_addr st f"
    and st': "st' = st\<lparr>kmem_page_array := (kmem_page_array st)[f := KPAGE_USED],
                  kmem_used_pages := kmem_used_pages st + 1\<rparr>" by blast
  show "a \<notin> used_pages st"
    unfolding used_pages_def a using free page_addr_inj [OF assms(1) f] by auto
  show "used_pages st' = insert a (used_pages st)"
    using used_pages_update [OF assms(1) f, of st' KPAGE_USED] a by (simp add: st')
qed

lemma kpage_free1_used:
  assumes "kmem_wf st" and "a \<in> used_pages st"
  shows "\<exists>st'. kpage_free a 1 st = Inr st' \<and> kmem_wf st' \<and> used_pages st' = used_pages st - {a}"
proof -
  from assms(2) obtain f where f: "f < length (kmem_page_array st)"
    and used: "kmem_page_array st ! f = KPAGE_USED" and a: "a = page_addr st f"
    unfolding used_pages_def by blast
  let ?st' = "st\<lparr>kmem_page_array := (kmem_page_array st)[f := KPAGE_FREE],
                 kmem_used_pages := kmem_used_pages st - 1\<rparr>"
  have "kpage_free a 1 st = Inr ?st'"
    using kpage_free_eq [OF assms(1), of f 1] f single_update [OF f, of KPAGE_FREE] by (simp add: a)
  moreover have "kmem_wf ?st'"
    using kpage_free_wf [OF assms(1), of f 1] f used single_update [OF f, of KPAGE_FREE] by simp
  moreover have "used_pages ?st' = used_pages st - {a}"
    using used_pages_update [OF assms(1) f, of ?st' KPAGE_FREE] a by simp
  ultimately show ?thesis by blast
qed

interpretation kpage: allocator kpage_alloc1 kpage_free1 used_pages kmem_wf
proof unfold_locales
  fix s s' :: "'z kmem_state_scheme" and a
  assume s: "kmem_wf s"
  show "kpage_alloc1 s = Inr (s', a) \<Longrightarrow> kmem_wf s'"
    and "kpage_alloc1 s = Inr (s', a) \<Longrightarrow> a \<notin> used_pages s"
    and "kpage_alloc1 s = Inr (s', a) \<Longrightarrow> used_pages s' = insert a (used_pages s)"
    using kpage_alloc1_used [OF s] by (simp_all add: kpage_alloc1_def)
  show "a \<in> used_pages s \<Longrightarrow>
      \<exists>s'. kpage_free1 a s = Inr s' \<and> kmem_wf s' \<and> used_pages s' = used_pages s - {a}"
    using kpage_free1_used [OF s] by (simp add: kpage_free1_def)
qed

section \<open>Properties\<close>

text \<open>
  C33: \<^verbatim>\<open>kpage_alloc\<close> is first fit: it returns the address of the lowest run of the requested number
  of free pages, marks exactly that run as used, and panics only when there is no such run.
\<close>

theorem kpage_alloc_first_fit:
  assumes "kmem_wf st" and "0 < n"
  shows "case kpage_alloc n st of
      Inr (st', a) \<Rightarrow>
        kmem_wf st' \<and>
        (\<exists>f. a = page_addr st f \<and> free_run (kmem_page_array st) f n \<and>
             (\<forall>g. free_run (kmem_page_array st) g n \<longrightarrow> f \<le> g) \<and>
             kmem_page_array st' = take f (kmem_page_array st) @ replicate n KPAGE_USED @
               drop (f + n) (kmem_page_array st))
    | Inl e \<Rightarrow> e = Panic ''Out of physical memory'' \<and> (\<forall>f. \<not> free_run (kmem_page_array st) f n)"
proof (cases "kpage_alloc n st")
  case (Inl e)
  with assms show ?thesis by (auto simp: kpage_alloc_eq Let_def split: if_splits)
next
  case (Inr r)
  obtain st' a where r: "r = (st', a)" by force
  note ok = Inr [unfolded r]
  from kpage_alloc_cases [OF assms ok] obtain f where "free_run (kmem_page_array st) f n" "a = page_addr st f"
    and "\<And>g. free_run (kmem_page_array st) g n \<Longrightarrow> f \<le> g"
    and st': "st' = st\<lparr>kmem_page_array := take f (kmem_page_array st) @ replicate n KPAGE_USED @
                    drop (f + n) (kmem_page_array st),
                  kmem_used_pages := kmem_used_pages st + of_nat n\<rparr>" by blast
  moreover have "kmem_page_array st' = take f (kmem_page_array st) @ replicate n KPAGE_USED @
       drop (f + n) (kmem_page_array st)" by (simp add: st')
  ultimately show ?thesis using kpage_alloc_wf [OF assms ok] unfolding Inr r by auto
qed

definition demo_kmem :: kmem_state where
  "demo_kmem = \<lparr>hhdm_offset = 0x10000, kmem_start = 0x20000, kmem_length = 0x5000,
     kmem_total_pages = 5,
     kmem_page_array = [KPAGE_PAGE_ARRAY, KPAGE_FREE, KPAGE_USED, KPAGE_FREE, KPAGE_FREE],
     kmem_used_pages = 1, dmem_start = 0xffffc00000000000, dmem_used_pages = 0\<rparr>"

lemma demo_kmem_wf: "kmem_wf demo_kmem"
  by (simp add: kmem_wf_def demo_kmem_def used_count_def KPAGE_PAGE_ARRAY_def KPAGE_FREE_def KPAGE_USED_def)

lemma kpage_alloc_first_fit_witness:
  "case kpage_alloc 2 demo_kmem of
      Inr (st', a) \<Rightarrow>
        kmem_wf st' \<and>
        (\<exists>f. a = page_addr demo_kmem f \<and> free_run (kmem_page_array demo_kmem) f 2 \<and>
             (\<forall>g. free_run (kmem_page_array demo_kmem) g 2 \<longrightarrow> f \<le> g) \<and>
             kmem_page_array st' = take f (kmem_page_array demo_kmem) @ replicate 2 KPAGE_USED @
               drop (f + 2) (kmem_page_array demo_kmem))
    | Inl e \<Rightarrow> e = Panic ''Out of physical memory'' \<and>
        (\<forall>f. \<not> free_run (kmem_page_array demo_kmem) f 2)"
  by (rule kpage_alloc_first_fit [OF demo_kmem_wf]) simp

text \<open>
  \<^verbatim>\<open>kpage_free\<close> of the run that \<^verbatim>\<open>kpage_alloc\<close> returned restores the allocator's state exactly,
  the count of used pages included.
\<close>

lemma kpage_free_undoes_alloc:
  assumes "kmem_wf st" and "0 < n" and "kpage_alloc n st = Inr (st', a)"
  shows "kpage_free a n st' = Inr st"
proof -
  from kpage_alloc_cases [OF assms] obtain f where run: "free_run (kmem_page_array st) f n"
    and a: "a = page_addr st f"
    and st': "st' = st\<lparr>kmem_page_array := take f (kmem_page_array st) @ replicate n KPAGE_USED @
                    drop (f + n) (kmem_page_array st),
                  kmem_used_pages := kmem_used_pages st + of_nat n\<rparr>" by blast
  from run have fn: "f + n \<le> length (kmem_page_array st)" by (simp add: free_run_def)
  have mid: "take n (drop f (kmem_page_array st)) = replicate n KPAGE_FREE"
    using run fn by (intro nth_equalityI) (simp_all add: free_run_def)
  have restored: "take f (kmem_page_array st) @ replicate n KPAGE_FREE @ drop (f + n) (kmem_page_array st) =
      kmem_page_array st"
    using split3 [OF fn] mid by simp
  have a': "a = page_addr st' f" unfolding a st' by (simp add: page_addr_def)
  have "kpage_free a n st' = Inr (st'\<lparr>kmem_page_array :=
        take f (kmem_page_array st') @ replicate n KPAGE_FREE @ drop (f + n) (kmem_page_array st'),
      kmem_used_pages := kmem_used_pages st' - of_nat n\<rparr>)"
    unfolding a' using fn assms(2) kpage_alloc_wf [OF assms] by (intro kpage_free_eq) (simp_all add: st')
  also have "\<dots> = Inr st" using fn restored by (simp add: st')
  finally show ?thesis .
qed

lemma kpage_free_undoes_alloc_witness:
  "case kpage_alloc 2 demo_kmem of
     Inr (st', a) \<Rightarrow> kpage_free a 2 st' = Inr demo_kmem | Inl e \<Rightarrow> False"
proof -
  have "\<not> Option.is_none (case kpage_alloc 2 demo_kmem of Inl e \<Rightarrow> None | Inr r \<Rightarrow> Some r)"
    by code_simp
  then have "\<exists>r. kpage_alloc 2 demo_kmem = Inr r" by (cases "kpage_alloc 2 demo_kmem") simp_all
  then obtain st' a where r: "kpage_alloc 2 demo_kmem = Inr (st', a)" by (metis surj_pair)
  from kpage_free_undoes_alloc [OF demo_kmem_wf _ r] show ?thesis by (simp add: r)
qed

end
