(* ===== verification/Slab.thy ===== *)
theory Slab
  imports Kmem
begin

text \<open>
  \<^verbatim>\<open>kernel/src/mm/slab.c\<close> and \<^verbatim>\<open>slab.h\<close>: fixed-size object allocators on single pages. Each global
  \<^verbatim>\<open>struct slab_allocator\<close> of the kernel is named by a \<open>slab_id\<close>; the list \<^verbatim>\<open>slab_page_lh\<close> is the
  sequence of the page addresses it links (theory \<open>KList\<close> proves that \<^verbatim>\<open>list_add\<close> prepends and that
  the iteration visits the sequence in order). A page header is its four bitmaps, one bit per slot,
  1 for a free slot; a freshly cleared page has all bitmaps 0.
\<close>

section \<open>State\<close>

datatype slab_id = Inode_Slab | Dentry_Slab | File_Slab | Ramfs_Inode_Slab | Ramfs_Cluster_Slab
  | Exfat_Inode_Slab | Exfat_Cluster_Slab | Task_Slab | Memory_Range_Slab

record slab_allocator =
  object_size :: u16
  objects_per_page :: u16
  slab_pages :: "u64 list"

record slab_state = kmem_state +
  slab_headers :: "u64 \<Rightarrow> u64 list"
  slab_allocators :: "slab_id \<Rightarrow> slab_allocator"

text \<open>\<^verbatim>\<open>sizeof(struct slab_page_header)\<close>: four bitmaps and a \<^verbatim>\<open>struct list_head\<close>.\<close>

abbreviation slab_header_size :: nat where "slab_header_size \<equiv> 48"

definition SLAB_OF :: "nat \<Rightarrow> slab_allocator" where
  "SLAB_OF bytes =
     \<lparr>object_size = of_nat bytes, objects_per_page = of_nat ((4096 - slab_header_size) div bytes),
      slab_pages = []\<rparr>"

text \<open>The structure sizes of the allocated types, with the C layout on x86-64.\<close>

fun slab_object_bytes :: "slab_id \<Rightarrow> nat" where
  "slab_object_bytes Inode_Slab = 48"
| "slab_object_bytes Dentry_Slab = 96"
| "slab_object_bytes File_Slab = 40"
| "slab_object_bytes Ramfs_Inode_Slab = 24"
| "slab_object_bytes Ramfs_Cluster_Slab = 144"
| "slab_object_bytes Exfat_Inode_Slab = 24"
| "slab_object_bytes Exfat_Cluster_Slab = 32"
| "slab_object_bytes Task_Slab = 344"
| "slab_object_bytes Memory_Range_Slab = 40"

definition slab_allocator_init :: "slab_id \<Rightarrow> 'z slab_state_scheme \<Rightarrow> 'z slab_state_scheme" where
  "slab_allocator_init sid st =
     st\<lparr>slab_allocators := (slab_allocators st)(sid := (slab_allocators st sid)\<lparr>slab_pages := []\<rparr>)\<rparr>"

section \<open>Operations\<close>

definition slot_addr :: "u64 \<Rightarrow> u16 \<Rightarrow> nat \<Rightarrow> u64" where
  "slot_addr header obj_size slot = header + 48 + of_nat slot * ucast obj_size"

definition find_free_slot :: "u64 list \<Rightarrow> (nat \<times> nat) option" where
  "find_free_slot free_bitmaps =
     find (\<lambda>(i, j). drop_bit j (free_bitmaps ! i) AND 1 = 1) (List.product [0..<4] [0..<64])"

fun slab_try_pages ::
  "u64 list \<Rightarrow> u16 \<Rightarrow> (u64 \<Rightarrow> u64 list) \<Rightarrow> ((u64 \<Rightarrow> u64 list) \<times> u64) option" where
  "slab_try_pages [] obj_size headers = None"
| "slab_try_pages (page # pages) obj_size headers =
     (if headers page = [0, 0, 0, 0] then slab_try_pages pages obj_size headers
      else case find_free_slot (headers page) of
             Some (i, j) \<Rightarrow>
               Some (headers(page := (headers page)[i := headers page ! i XOR push_bit j 1]),
                     slot_addr page obj_size (64 * i + j))
           | None \<Rightarrow> slab_try_pages pages obj_size headers)"

definition slab_try_alloc :: "slab_id \<Rightarrow> 'z slab_state_scheme \<Rightarrow> ('z slab_state_scheme \<times> u64) option" where
  "slab_try_alloc sid st =
     map_option (\<lambda>(headers, a). (st\<lparr>slab_headers := headers\<rparr>, a))
       (slab_try_pages (slab_pages (slab_allocators st sid)) (object_size (slab_allocators st sid))
          (slab_headers st))"

definition fill_bitmaps :: "u16 \<Rightarrow> u64 list" where
  "fill_bitmaps per_page =
     foldl (\<lambda>bm (i, j). bm[i := bm ! i OR push_bit j 1]) [0, 0, 0, 0]
       (takeWhile (\<lambda>(i, j). 64 * i + j < unat per_page) (List.product [0..<4] [0..<64]))"

definition slab_new_page :: "slab_id \<Rightarrow> u64 \<Rightarrow> 'z slab_state_scheme \<Rightarrow> 'z slab_state_scheme" where
  "slab_new_page sid page st =
     (let al = slab_allocators st sid
      in st\<lparr>slab_headers := (slab_headers st)(page := fill_bitmaps (objects_per_page al)),
            slab_allocators := (slab_allocators st)(sid := al\<lparr>slab_pages := page # slab_pages al\<rparr>)\<rparr>)"

definition slab_alloc :: "slab_id \<Rightarrow> 'z slab_state_scheme \<Rightarrow> ('z slab_state_scheme \<times> u64) res" where
  "slab_alloc sid st =
     (case slab_try_alloc sid st of
        Some r \<Rightarrow> Inr r
      | None \<Rightarrow>
          res_bind (kpage_alloc 1 st) (\<lambda>(st1, page).
            case slab_try_alloc sid (slab_new_page sid page st1) of
              Some r \<Rightarrow> Inr r
            | None \<Rightarrow> Inl (Panic ''Slab allocation unexpectedly failed'')))"

definition slab_free :: "slab_id \<Rightarrow> u64 \<Rightarrow> 'z slab_state_scheme \<Rightarrow> 'z slab_state_scheme res" where
  "slab_free sid address st =
     (let header = address AND 0xFFFFFFFFFFFFF000;
          obj_size = object_size (slab_allocators st sid);
          page_offset = ucast (address - 48 - header) :: u16;
          slot_number = page_offset div obj_size;
          slot_offset = page_offset mod obj_size;
          slot_number_div64 = ucast (drop_bit 6 slot_number) :: u8;
          slot_number_mod64 = ucast (slot_number mod 64) :: u8
      in if slot_offset \<noteq> 0 then Inl (Panic ''invalid slab free'')
         else res_bind (array_get (slab_headers st header) (unat slot_number_div64)) (\<lambda>bitmap.
              res_bind (array_set (slab_headers st header) (unat slot_number_div64)
                          (bitmap OR push_bit (unat slot_number_mod64) 1)) (\<lambda>bitmaps.
                Inr (st\<lparr>slab_headers := (slab_headers st)(header := bitmaps)\<rparr>))))"

section \<open>Slots of a page\<close>

text \<open>Whether slot \<open>s\<close> of a page is free, and the first free slot as a number.\<close>

definition slot_free :: "u64 list \<Rightarrow> nat \<Rightarrow> bool" where
  "slot_free bm s \<longleftrightarrow> bit (bm ! (s div 64)) (s mod 64)"

lemma product_slots: "List.product [0..<4] [0..<64] = map (\<lambda>s. (s div 64, s mod 64)) [0..<256]"
  by code_simp

lemma slot_split: "i < 4 \<Longrightarrow> j < 64 \<Longrightarrow> (64 * i + j) div 64 = i \<and> (64 * i + j) mod 64 = (j :: nat)"
  by simp

lemma drop_bit_and_1: "drop_bit j (w :: u64) AND 1 = 1 \<longleftrightarrow> bit w j"
  using and_1_eq_bit_0 [of "drop_bit j w"] by (simp add: bit_drop_bit_eq)

lemma find_map_conv: "find P (map f xs) = map_option f (find (P \<circ> f) xs)"
  by (induction xs) auto

lemma find_upt_Some:
  "find P [0..<n] = Some s \<longleftrightarrow> s < n \<and> P s \<and> (\<forall>t < s. \<not> P t)"
  by (auto simp: find_Some_iff)

lemma find_free_slot_Some:
  assumes "find_free_slot bm = Some (i, j)"
  shows "i < 4" and "j < 64" and "slot_free bm (64 * i + j)"
    and "\<forall>t < 64 * i + j. \<not> slot_free bm t"
proof -
  from assms have "map_option (\<lambda>s. (s div 64, s mod 64)) (find (slot_free bm) [0..<256]) = Some (i, j)"
    unfolding find_free_slot_def product_slots find_map_conv
    by (simp add: drop_bit_and_1 comp_def slot_free_def [abs_def] split_def)
  then obtain s where s: "find (slot_free bm) [0..<256] = Some s" and ij: "i = s div 64" "j = s mod 64"
    by auto
  then have "s < 256" "slot_free bm s" "\<forall>t < s. \<not> slot_free bm t" by (simp_all add: find_upt_Some)
  moreover have "64 * i + j = s" using ij by simp
  ultimately show "i < 4" "j < 64" "slot_free bm (64 * i + j)" "\<forall>t < 64 * i + j. \<not> slot_free bm t"
    using ij by auto
qed

lemma find_free_slot_None:
  assumes "find_free_slot bm = None" and "s < 256"
  shows "\<not> slot_free bm s"
proof -
  from assms(1) have "find (slot_free bm) [0..<256] = None"
    unfolding find_free_slot_def product_slots find_map_conv
    by (simp add: drop_bit_and_1 comp_def slot_free_def [abs_def] split_def)
  with assms(2) show ?thesis by (auto simp: find_None_iff)
qed

lemma slot_free_flip:
  assumes "length bm = 4" and "i < 4" and "j < 64" and "s < 256" and "slot_free bm (64 * i + j)"
  shows "slot_free (bm[i := bm ! i XOR push_bit j 1]) s \<longleftrightarrow> slot_free bm s \<and> s \<noteq> 64 * i + j"
proof (cases "s div 64 = i")
  case True
  then have "s = 64 * i + s mod 64" by (metis mult_div_mod_eq)
  then have "s mod 64 = j \<longleftrightarrow> s = 64 * i + j" using assms(3) by linarith
  with True assms show ?thesis
    by (auto simp: slot_free_def bit_xor_iff bit_exp_iff)
next
  case False
  with assms slot_split [of i j] show ?thesis by (auto simp: slot_free_def)
qed

lemma slot_free_set:
  assumes "length bm = 4" and "i < 4" and "j < 64" and "s < 256"
  shows "slot_free (bm[i := bm ! i OR push_bit j 1]) s \<longleftrightarrow> slot_free bm s \<or> s = 64 * i + j"
proof (cases "s div 64 = i")
  case True
  then have "s = 64 * i + s mod 64" by (metis mult_div_mod_eq)
  then have "s mod 64 = j \<longleftrightarrow> s = 64 * i + j" using assms(3) by linarith
  with True assms show ?thesis
    by (auto simp: slot_free_def bit_or_iff bit_exp_iff)
next
  case False
  with assms slot_split [of i j] show ?thesis by (auto simp: slot_free_def)
qed

text \<open>A new page has exactly its first \<open>objects_per_page\<close> slots free.\<close>

lemma slot_free_fill:
  assumes "length bm = 4" and "\<forall>s \<in> set slots. s < 256" and "t < 256"
  shows "slot_free (foldl (\<lambda>bm (i, j). bm[i := bm ! i OR push_bit j 1]) bm
            (map (\<lambda>s. (s div 64, s mod 64)) slots)) t \<longleftrightarrow> slot_free bm t \<or> t \<in> set slots"
    and "length (foldl (\<lambda>bm (i, j). bm[i := bm ! i OR push_bit j 1]) bm
            (map (\<lambda>s. (s div 64, s mod 64)) slots)) = 4"
  using assms
proof (induction slots arbitrary: bm)
  case Nil
  { case 1 then show ?case by simp }
  { case 2 then show ?case by simp }
next
  case (Cons s slots)
  { case 1
    let ?bm = "bm[s div 64 := bm ! (s div 64) OR push_bit (s mod 64) 1]"
    from 1 have "slot_free ?bm t \<longleftrightarrow> slot_free bm t \<or> t = s"
      using slot_free_set [of bm "s div 64" "s mod 64" t] less_mult_imp_div_less [of s 4 64] by simp
    with Cons.IH(1) [of ?bm] 1 show ?case by auto }
  { case 2
    let ?bm = "bm[s div 64 := bm ! (s div 64) OR push_bit (s mod 64) 1]"
    from 2 Cons.IH(2) [of ?bm] show ?case by simp }
qed

lemma takeWhile_upt: "takeWhile (\<lambda>s. s < n) [0..<m] = [0..<min n m]"
  by (induction m) (auto simp: takeWhile_append min_def le_Suc_eq)

lemma fill_bitmaps_eq:
  "fill_bitmaps n = foldl (\<lambda>bm (i, j). bm[i := bm ! i OR push_bit j 1]) [0, 0, 0, 0]
     (map (\<lambda>s. (s div 64, s mod 64)) [0..<min (unat n) 256])"
proof -
  have "takeWhile (\<lambda>(i, j). 64 * i + j < unat n) (map (\<lambda>s. (s div 64, s mod 64)) [0..<256]) =
      map (\<lambda>s. (s div 64, s mod 64)) (takeWhile (\<lambda>s. s < unat n) [0..<256])"
    by (simp add: takeWhile_map comp_def)
  then show ?thesis unfolding fill_bitmaps_def product_slots takeWhile_upt by simp
qed

lemma fill_bitmaps_free:
  assumes "s < 256"
  shows "slot_free (fill_bitmaps n) s \<longleftrightarrow> s < unat n" and "length (fill_bitmaps n) = 4"
proof -
  have "\<not> slot_free [0, 0, 0, 0] s"
    using assms less_mult_imp_div_less [of s 4 64] by (auto simp: slot_free_def nth_Cons' )
  then show "slot_free (fill_bitmaps n) s \<longleftrightarrow> s < unat n"
    using slot_free_fill(1) [of "[0, 0, 0, 0]" "[0..<min (unat n) 256]" s] assms
    by (simp add: fill_bitmaps_eq)
  show "length (fill_bitmaps n) = 4"
    using slot_free_fill(2) [of "[0, 0, 0, 0]" "[0..<min (unat n) 256]" 0] by (simp add: fill_bitmaps_eq)
qed

section \<open>Invariant and live objects\<close>

text \<open>
  \<open>slab_wf\<close>: the slots of every allocator fit its pages, its pages are distinct pages in use, no two
  allocators share a page, and a bitmap marks only existing slots as free. An object is live when its
  slot is not free.
\<close>

definition allocator_ok :: "slab_allocator \<Rightarrow> bool" where
  "allocator_ok al \<longleftrightarrow> 0 < unat (object_size al) \<and> 0 < unat (objects_per_page al) \<and>
     unat (objects_per_page al) \<le> 256 \<and>
     slab_header_size + unat (objects_per_page al) * unat (object_size al) \<le> 4096"

definition header_ok :: "slab_allocator \<Rightarrow> u64 list \<Rightarrow> bool" where
  "header_ok al bm \<longleftrightarrow> length bm = 4 \<and>
     (\<forall>s < 256. slot_free bm s \<longrightarrow> s < unat (objects_per_page al))"

definition slab_wf :: "'z slab_state_scheme \<Rightarrow> bool" where
  "slab_wf st \<longleftrightarrow> kmem_wf st \<and>
     (\<forall>sid. allocator_ok (slab_allocators st sid)) \<and>
     (\<forall>sid. distinct (slab_pages (slab_allocators st sid)) \<and>
        set (slab_pages (slab_allocators st sid)) \<subseteq> used_pages st \<and>
        (\<forall>p \<in> set (slab_pages (slab_allocators st sid)).
           header_ok (slab_allocators st sid) (slab_headers st p))) \<and>
     (\<forall>i j. i \<noteq> j \<longrightarrow>
        set (slab_pages (slab_allocators st i)) \<inter> set (slab_pages (slab_allocators st j)) = {})"

definition slab_live :: "slab_id \<Rightarrow> 'z slab_state_scheme \<Rightarrow> u64 set" where
  "slab_live sid st =
     {slot_addr p (object_size (slab_allocators st sid)) s |p s.
        p \<in> set (slab_pages (slab_allocators st sid)) \<and>
        s < unat (objects_per_page (slab_allocators st sid)) \<and> \<not> slot_free (slab_headers st p) s}"

lemma slab_wfD:
  assumes "slab_wf st"
  shows "kmem_wf st" and "allocator_ok (slab_allocators st sid)"
    and "distinct (slab_pages (slab_allocators st sid))"
    and "p \<in> set (slab_pages (slab_allocators st sid)) \<Longrightarrow> p \<in> used_pages st"
    and "p \<in> set (slab_pages (slab_allocators st sid)) \<Longrightarrow>
           header_ok (slab_allocators st sid) (slab_headers st p)"
    and "p \<in> set (slab_pages (slab_allocators st sid)) \<Longrightarrow>
           p \<in> set (slab_pages (slab_allocators st sid')) \<Longrightarrow> sid = sid'"
  using assms unfolding slab_wf_def by blast+

lemma allocator_okD:
  assumes "allocator_ok al"
  shows "0 < unat (object_size al)" and "0 < unat (objects_per_page al)"
    and "unat (objects_per_page al) \<le> 256"
    and "48 + unat (objects_per_page al) * unat (object_size al) \<le> 4096"
  using assms by (simp_all add: allocator_ok_def)

lemma slot_end:
  assumes "allocator_ok al" and "s < unat (objects_per_page al)"
  shows "48 + s * unat (object_size al) + unat (object_size al) \<le> 4096"
proof -
  have "Suc s * unat (object_size al) \<le> unat (objects_per_page al) * unat (object_size al)"
    using assms(2) by (intro mult_le_mono1) simp
  with allocator_okD(4) [OF assms(1)] show ?thesis by simp
qed

lemma unat_slot_addr:
  assumes "allocator_ok al" and "s < unat (objects_per_page al)" and "unat p + 4096 \<le> 2 ^ 64"
  shows "unat (slot_addr p (object_size al) s) = unat p + (48 + s * unat (object_size al))"
proof -
  have off: "48 + s * unat (object_size al) < 4096"
    using slot_end [OF assms(1,2)] allocator_okD(1) [OF assms(1)] by linarith
  have "of_nat (48 + s * unat (object_size al)) = (48 + of_nat s * ucast (object_size al) :: u64)"
    by simp
  then have "slot_addr p (object_size al) s = p + of_nat (48 + s * unat (object_size al))"
    by (simp add: slot_addr_def)
  moreover have "unat (of_nat (48 + s * unat (object_size al)) :: u64) = 48 + s * unat (object_size al)"
    using off by (intro unat_of_nat_small) simp
  ultimately show ?thesis using off assms(3) by (simp add: unat_add_no_wrap)
qed

lemma slot_addr_header:
  assumes "allocator_ok al" and "s < unat (objects_per_page al)"
    and "4096 dvd unat p" and "unat p + 4096 \<le> 2 ^ 64"
  shows "slot_addr p (object_size al) s AND 0xFFFFFFFFFFFFF000 = p"
proof -
  let ?off = "48 + s * unat (object_size al)"
  have "?off < 4096" using slot_end [OF assms(1,2)] allocator_okD(1) [OF assms(1)] by linarith
  then have "(unat p + ?off) mod 4096 = ?off"
    using assms(3) by (metis dvd_imp_mod_0 mod_add_left_eq mod_less add_0)
  then have "unat (slot_addr p (object_size al) s AND 0xFFFFFFFFFFFFF000) = unat p"
    unfolding page_mask unat_slot_addr [OF assms(1,2,4)] by simp
  then show ?thesis by (simp only: word_unat_eq_iff)
qed

lemma slab_page_facts:
  assumes "slab_wf st" and "p \<in> set (slab_pages (slab_allocators st sid))"
  shows "4096 dvd unat p" and "unat p + 4096 \<le> 2 ^ 64"
  using used_pages_wfD [OF slab_wfD(1) [OF assms(1)] slab_wfD(4) [OF assms]] by blast+

lemma slab_slot_header:
  assumes "slab_wf st" and "p \<in> set (slab_pages (slab_allocators st sid))"
    and "s < unat (objects_per_page (slab_allocators st sid))"
  shows "slot_addr p (object_size (slab_allocators st sid)) s AND 0xFFFFFFFFFFFFF000 = p"
  by (rule slot_addr_header [OF slab_wfD(2) [OF assms(1)] assms(3) slab_page_facts [OF assms(1,2)]])

lemma slab_slot_unat:
  assumes "slab_wf st" and "p \<in> set (slab_pages (slab_allocators st sid))"
    and "s < unat (objects_per_page (slab_allocators st sid))"
  shows "unat (slot_addr p (object_size (slab_allocators st sid)) s) =
    unat p + (48 + s * unat (object_size (slab_allocators st sid)))"
  by (rule unat_slot_addr [OF slab_wfD(2) [OF assms(1)] assms(3) slab_page_facts(2) [OF assms(1,2)]])

lemma slab_slot_inj:
  assumes "slab_wf st" and "p \<in> set (slab_pages (slab_allocators st sid))"
    and "q \<in> set (slab_pages (slab_allocators st sid))"
    and "s < unat (objects_per_page (slab_allocators st sid))"
    and "t < unat (objects_per_page (slab_allocators st sid))"
    and "slot_addr p (object_size (slab_allocators st sid)) s =
         slot_addr q (object_size (slab_allocators st sid)) t"
  shows "p = q \<and> s = t"
proof
  show pq: "p = q"
    using slab_slot_header [OF assms(1,2,4)] slab_slot_header [OF assms(1,3,5)] assms(6) by metis
  have "unat p + (48 + s * unat (object_size (slab_allocators st sid))) =
      unat p + (48 + t * unat (object_size (slab_allocators st sid)))"
    using slab_slot_unat [OF assms(1,2,4)] slab_slot_unat [OF assms(1,3,5)] assms(6) pq by metis
  then show "s = t" using allocator_okD(1) [OF slab_wfD(2) [OF assms(1), of sid]] by simp
qed

text \<open>The state after a header changed.\<close>

lemma kmem_wf_slab_update [simp]:
  "kmem_wf (st\<lparr>slab_headers := h\<rparr>) = kmem_wf st" "kmem_wf (st\<lparr>slab_allocators := a\<rparr>) = kmem_wf st"
  "used_pages (st\<lparr>slab_headers := h\<rparr>) = used_pages st"
  "used_pages (st\<lparr>slab_allocators := a\<rparr>) = used_pages st"
  by (simp_all add: kmem_wf_def used_pages_def page_addr_def)

lemma slab_header_update_wf:
  assumes "slab_wf st" and "p \<in> set (slab_pages (slab_allocators st sid))"
    and "header_ok (slab_allocators st sid) bm"
  shows "slab_wf (st\<lparr>slab_headers := (slab_headers st)(p := bm)\<rparr>)"
proof -
  have "header_ok (slab_allocators st i) (if q = p then bm else slab_headers st q)"
    if "q \<in> set (slab_pages (slab_allocators st i))" for i q
    using that assms slab_wfD(5) [OF assms(1) that] slab_wfD(6) [OF assms(1,2), of i] by auto
  with assms(1) show ?thesis unfolding slab_wf_def by simp
qed

lemma slab_header_update_other:
  assumes "slab_wf st" and "p \<in> set (slab_pages (slab_allocators st sid))" and "i \<noteq> sid"
  shows "slab_live i (st\<lparr>slab_headers := (slab_headers st)(p := bm)\<rparr>) = slab_live i st"
proof -
  have "p \<notin> set (slab_pages (slab_allocators st i))"
    using slab_wfD(6) [OF assms(1,2), of i] assms(3) by blast
  then show ?thesis unfolding slab_live_def by (auto simp: )
qed

lemma slab_live_iff:
  assumes "slab_wf st" and "p \<in> set (slab_pages (slab_allocators st sid))"
    and "s < unat (objects_per_page (slab_allocators st sid))"
  shows "slot_addr p (object_size (slab_allocators st sid)) s \<in> slab_live sid st \<longleftrightarrow>
    \<not> slot_free (slab_headers st p) s"
  using slab_slot_inj [OF assms(1,2) _ assms(3)] assms unfolding slab_live_def by blast

lemma slab_header_take:
  assumes "slab_wf st" and "p \<in> set (slab_pages (slab_allocators st sid))"
    and "s < unat (objects_per_page (slab_allocators st sid))"
    and "\<forall>t < 256. slot_free bm t \<longleftrightarrow> slot_free (slab_headers st p) t \<and> t \<noteq> s"
  shows "slab_live sid (st\<lparr>slab_headers := (slab_headers st)(p := bm)\<rparr>) =
    insert (slot_addr p (object_size (slab_allocators st sid)) s) (slab_live sid st)"
proof -
  let ?al = "slab_allocators st sid"
  have bm: "slot_free bm t \<longleftrightarrow> slot_free (slab_headers st p) t \<and> t \<noteq> s"
    if "t < unat (objects_per_page ?al)" for t
  proof -
    have "t < 256" using that allocator_okD(3) [OF slab_wfD(2) [OF assms(1), of sid]] by linarith
    with assms(4) show ?thesis by blast
  qed
  let ?st' = "st\<lparr>slab_headers := (slab_headers st)(p := bm)\<rparr>"
  have "a \<in> slab_live sid ?st' \<longleftrightarrow> a = slot_addr p (object_size ?al) s \<or> a \<in> slab_live sid st" for a
  proof -
    have "a \<in> slab_live sid ?st' \<longleftrightarrow> (\<exists>q t. a = slot_addr q (object_size ?al) t \<and> q \<in> set (slab_pages ?al) \<and>
        t < unat (objects_per_page ?al) \<and> \<not> slot_free (slab_headers ?st' q) t)"
      by (auto simp: slab_live_def)
    also have "\<dots> \<longleftrightarrow> (\<exists>q t. a = slot_addr q (object_size ?al) t \<and> q \<in> set (slab_pages ?al) \<and>
        t < unat (objects_per_page ?al) \<and> ((q, t) = (p, s) \<or> \<not> slot_free (slab_headers st q) t))"
      using bm by (intro ex_cong1) auto
    also have "\<dots> \<longleftrightarrow> a = slot_addr p (object_size ?al) s \<or> a \<in> slab_live sid st"
      using assms(2,3) unfolding slab_live_def by blast
    finally show ?thesis .
  qed
  then show ?thesis by blast
qed

lemma slab_header_put:
  assumes "slab_wf st" and "p \<in> set (slab_pages (slab_allocators st sid))"
    and "s < unat (objects_per_page (slab_allocators st sid))"
    and "\<forall>t < 256. slot_free bm t \<longleftrightarrow> slot_free (slab_headers st p) t \<or> t = s"
  shows "slab_live sid (st\<lparr>slab_headers := (slab_headers st)(p := bm)\<rparr>) =
    slab_live sid st - {slot_addr p (object_size (slab_allocators st sid)) s}"
    (is "slab_live sid ?st' = _ - {?a}")
proof -
  let ?al = "slab_allocators st sid"
  have bm: "slot_free bm t \<longleftrightarrow> slot_free (slab_headers st p) t \<or> t = s"
    if "t < unat (objects_per_page ?al)" for t
  proof -
    have "t < 256" using that allocator_okD(3) [OF slab_wfD(2) [OF assms(1), of sid]] by linarith
    with assms(4) show ?thesis by blast
  qed
  have "a \<in> slab_live sid ?st' \<longleftrightarrow> a \<in> slab_live sid st - {?a}" for a
  proof -
    have "a \<in> slab_live sid ?st' \<longleftrightarrow> (\<exists>q t. a = slot_addr q (object_size ?al) t \<and> q \<in> set (slab_pages ?al) \<and>
        t < unat (objects_per_page ?al) \<and> \<not> slot_free (slab_headers ?st' q) t)"
      by (auto simp: slab_live_def)
    also have "\<dots> \<longleftrightarrow> (\<exists>q t. a = slot_addr q (object_size ?al) t \<and> q \<in> set (slab_pages ?al) \<and>
        t < unat (objects_per_page ?al) \<and> \<not> slot_free (slab_headers st q) t \<and> (q, t) \<noteq> (p, s))"
      using bm by (intro ex_cong1) auto
    also have "\<dots> \<longleftrightarrow> (\<exists>q t. a = slot_addr q (object_size ?al) t \<and> q \<in> set (slab_pages ?al) \<and>
        t < unat (objects_per_page ?al) \<and> \<not> slot_free (slab_headers st q) t \<and> a \<noteq> ?a)"
      by (intro ex_cong1) (auto dest: slab_slot_inj [OF assms(1) _ assms(2) _ assms(3)])
    also have "\<dots> \<longleftrightarrow> a \<in> slab_live sid st - {?a}" by (auto simp: slab_live_def)
    finally show ?thesis .
  qed
  then show ?thesis by blast
qed

section \<open>Allocation\<close>

lemma slot_free_zero: "s < 256 \<Longrightarrow> \<not> slot_free [0, 0, 0, 0] s"
  using less_mult_imp_div_less [of s 4 64] by (auto simp: slot_free_def nth_Cons')

lemma slab_try_pages_None:
  assumes "slab_try_pages pages sz hs = None" and "p \<in> set pages" and "s < 256"
  shows "\<not> slot_free (hs p) s"
  using assms
  by (induction pages sz hs rule: slab_try_pages.induct)
    (auto split: if_splits option.splits dest: find_free_slot_None simp: slot_free_zero)

lemma slab_try_pages_Some:
  assumes "slab_try_pages pages sz hs = Some (hs', a)" and "\<forall>p \<in> set pages. length (hs p) = 4"
  shows "\<exists>p s bm. p \<in> set pages \<and> s < 256 \<and> slot_free (hs p) s \<and> a = slot_addr p sz s \<and>
    hs' = hs(p := bm) \<and> length bm = 4 \<and> (\<forall>t < 256. slot_free bm t \<longleftrightarrow> slot_free (hs p) t \<and> t \<noteq> s)"
  using assms
proof (induction pages sz hs rule: slab_try_pages.induct)
  case (1 sz hs)
  then show ?case by simp
next
  case (2 page pages sz hs)
  show ?case
  proof (cases "hs page = [0, 0, 0, 0]")
    case True
    with 2 show ?thesis by (auto simp: fun_upd_def)
  next
    case nz: False
    show ?thesis
    proof (cases "find_free_slot (hs page)")
      case None
      with nz 2 show ?thesis by (auto simp: fun_upd_def)
    next
      case (Some ij)
      obtain i j where ij: "ij = (i, j)" by force
      note slot = find_free_slot_Some [OF Some [unfolded ij]]
      let ?bm = "(hs page)[i := hs page ! i XOR push_bit j 1]"
      have "hs' = hs(page := ?bm)" "a = slot_addr page sz (64 * i + j)"
        using "2.prems"(1) nz Some ij by auto
      moreover have "\<forall>t < 256. slot_free ?bm t \<longleftrightarrow> slot_free (hs page) t \<and> t \<noteq> 64 * i + j"
        using slot "2.prems"(2) by (intro allI impI slot_free_flip) auto
      ultimately show ?thesis
        using slot "2.prems"(2) by (intro exI [of _ page] exI [of _ "64 * i + j"] exI [of _ ?bm]) auto
    qed
  qed
qed

lemma slab_headers_length:
  assumes "slab_wf st"
  shows "\<forall>p \<in> set (slab_pages (slab_allocators st sid)). length (slab_headers st p) = 4"
  using slab_wfD(5) [OF assms] by (auto simp: header_ok_def)

text \<open>What an operation leaves alone: everything below the slab layer and every other allocator.\<close>

definition slab_take_step :: "slab_id \<Rightarrow> 'z slab_state_scheme \<Rightarrow> 'z slab_state_scheme \<Rightarrow> u64 \<Rightarrow> bool" where
  "slab_take_step sid st st' a \<longleftrightarrow> slab_wf st' \<and> a \<notin> slab_live sid st \<and>
     slab_live sid st' = insert a (slab_live sid st) \<and>
     (\<forall>i. i \<noteq> sid \<longrightarrow> slab_live i st' = slab_live i st) \<and>
     slab_state.more st' = slab_state.more st"

lemma slab_try_alloc_Some:
  assumes "slab_wf st" and "slab_try_alloc sid st = Some (st', a)"
  shows "slab_take_step sid st st' a"
proof -
  let ?al = "slab_allocators st sid"
  from assms(2) obtain hs where "slab_try_pages (slab_pages ?al) (object_size ?al) (slab_headers st) = Some (hs, a)"
    and st': "st' = st\<lparr>slab_headers := hs\<rparr>"
    by (auto simp: slab_try_alloc_def)
  from slab_try_pages_Some [OF this(1) slab_headers_length [OF assms(1)]] obtain p s bm
    where p: "p \<in> set (slab_pages ?al)" and s: "s < 256" "slot_free (slab_headers st p) s"
      and a: "a = slot_addr p (object_size ?al) s" and hs: "hs = (slab_headers st)(p := bm)"
      and bm: "length bm = 4" "\<forall>t < 256. slot_free bm t \<longleftrightarrow> slot_free (slab_headers st p) t \<and> t \<noteq> s" by blast
  have ok: "header_ok ?al (slab_headers st p)" by (rule slab_wfD(5) [OF assms(1) p])
  then have opp: "s < unat (objects_per_page ?al)" using s by (simp add: header_ok_def)
  have "header_ok ?al bm" using ok bm by (simp add: header_ok_def)
  then have "slab_wf st'" unfolding st' hs by (rule slab_header_update_wf [OF assms(1) p])
  moreover have "a \<notin> slab_live sid st"
    unfolding a using slab_live_iff [OF assms(1) p opp] s(2) by simp
  moreover have "slab_live sid st' = insert a (slab_live sid st)"
    unfolding st' hs a by (rule slab_header_take [OF assms(1) p opp bm(2)])
  moreover have "\<forall>i. i \<noteq> sid \<longrightarrow> slab_live i st' = slab_live i st"
    unfolding st' hs using slab_header_update_other [OF assms(1) p] by blast
  ultimately show ?thesis unfolding slab_take_step_def st' by simp
qed

lemma kpage_alloc_slab_fields:
  assumes "kpage_alloc n st = Inr (st', a)"
  shows "slab_headers st' = slab_headers st" "slab_allocators st' = slab_allocators st"
    "slab_state.more st' = slab_state.more st"
  using assms by (auto simp: kpage_alloc_def res_bind_eq_Inr)

lemma kpage_alloc1_slab_wf:
  assumes "slab_wf st" and "kpage_alloc 1 st = Inr (st', a)"
  shows "slab_wf st'" and "\<And>sid. slab_live sid st' = slab_live sid st"
    and "\<And>sid. a \<notin> set (slab_pages (slab_allocators st sid))" and "a \<in> used_pages st'"
proof -
  note k = kpage_alloc1_used [OF slab_wfD(1) [OF assms(1)] assms(2)]
  show "slab_wf st'"
    using assms(1) k unfolding slab_wf_def kpage_alloc_slab_fields [OF assms(2)] by blast
  show "slab_live sid st' = slab_live sid st" for sid
    unfolding slab_live_def kpage_alloc_slab_fields [OF assms(2)] ..
  show "a \<notin> set (slab_pages (slab_allocators st sid))" for sid
    using k(2) slab_wfD(4) [OF assms(1)] by blast
  show "a \<in> used_pages st'" using k(3) by simp
qed

lemma fill_header_ok: "allocator_ok al \<Longrightarrow> header_ok al (fill_bitmaps (objects_per_page al))"
  using fill_bitmaps_free(1) fill_bitmaps_free(2) [of 0] by (simp add: header_ok_def)

lemma slab_new_page_wf:
  assumes "slab_wf st" and "p \<in> used_pages st" and "\<And>i. p \<notin> set (slab_pages (slab_allocators st i))"
  shows "slab_wf (slab_new_page sid p st)"
    and "slab_live i (slab_new_page sid p st) = slab_live i st"
proof -
  let ?al = "slab_allocators st sid"
  let ?st' = "slab_new_page sid p st"
  have al: "allocator_ok ?al" by (rule slab_wfD(2) [OF assms(1)])
  have pages: "set (slab_pages (slab_allocators ?st' j)) =
      (if j = sid then insert p (set (slab_pages ?al)) else set (slab_pages (slab_allocators st j)))" for j
    by (simp add: slab_new_page_def Let_def)
  have hdr: "slab_headers ?st' q = (if q = p then fill_bitmaps (objects_per_page ?al) else slab_headers st q)" for q
    by (simp add: slab_new_page_def Let_def)
  have sizes: "object_size (slab_allocators ?st' j) = object_size (slab_allocators st j)"
    "objects_per_page (slab_allocators ?st' j) = objects_per_page (slab_allocators st j)" for j
    by (simp_all add: slab_new_page_def Let_def)
  have hok: "header_ok (slab_allocators ?st' j) bm = header_ok (slab_allocators st j) bm" for j bm
    by (simp add: header_ok_def sizes)
  show "slab_wf ?st'"
    unfolding slab_wf_def
  proof (intro conjI allI impI ballI)
    show "kmem_wf ?st'" using slab_wfD(1) [OF assms(1)] by (simp add: slab_new_page_def Let_def)
    show "allocator_ok (slab_allocators ?st' j)" for j
      using slab_wfD(2) [OF assms(1), of j] by (simp add: allocator_ok_def sizes)
    show "distinct (slab_pages (slab_allocators ?st' j))" for j
      using slab_wfD(3) [OF assms(1)] assms(3) by (simp add: slab_new_page_def Let_def)
    show "set (slab_pages (slab_allocators ?st' j)) \<subseteq> used_pages ?st'" for j
      unfolding pages using slab_wfD(4) [OF assms(1)] assms(2) by (auto simp: slab_new_page_def Let_def)
    show "header_ok (slab_allocators ?st' j) (slab_headers ?st' q)"
      if "q \<in> set (slab_pages (slab_allocators ?st' j))" for j q
      using that slab_wfD(5) [OF assms(1)] fill_header_ok [OF al] assms(3)
      unfolding hok hdr pages by (auto split: if_splits)
    show "set (slab_pages (slab_allocators ?st' j)) \<inter> set (slab_pages (slab_allocators ?st' k)) = {}"
      if "j \<noteq> k" for j k
      unfolding pages using that slab_wfD(6) [OF assms(1)] assms(3) by auto
  qed
  have "\<not> slot_free (fill_bitmaps (objects_per_page ?al)) s \<longleftrightarrow> False"
    if "s < unat (objects_per_page ?al)" for s
    using that fill_bitmaps_free(1) [of s] allocator_okD(3) [OF al] by simp
  then have cond: "q \<in> set (slab_pages (slab_allocators ?st' i)) \<and> s < unat (objects_per_page (slab_allocators st i)) \<and>
      \<not> slot_free (slab_headers ?st' q) s \<longleftrightarrow>
    q \<in> set (slab_pages (slab_allocators st i)) \<and> s < unat (objects_per_page (slab_allocators st i)) \<and>
      \<not> slot_free (slab_headers st q) s" for q s
    unfolding pages hdr using assms(3) by auto
  show "slab_live i ?st' = slab_live i st" unfolding slab_live_def sizes cond ..
qed

lemma slab_alloc_step:
  assumes "slab_wf st" and "slab_alloc sid st = Inr (st', a)"
  shows "slab_take_step sid st st' a"
proof (cases "slab_try_alloc sid st")
  case (Some r)
  with assms show ?thesis by (auto simp: slab_alloc_def intro: slab_try_alloc_Some)
next
  case None
  with assms(2) obtain st1 p where k: "kpage_alloc 1 st = Inr (st1, p)"
    and got: "slab_try_alloc sid (slab_new_page sid p st1) = Some (st', a)"
    by (auto simp: slab_alloc_def res_bind_eq_Inr split: option.splits)
  note k1 = kpage_alloc1_slab_wf [OF assms(1) k]
  have fresh: "p \<notin> set (slab_pages (slab_allocators st1 i))" for i
    using k1(3) kpage_alloc_slab_fields(2) [OF k] by simp
  note new = slab_new_page_wf [OF k1(1) k1(4) fresh]
  have "slab_take_step sid (slab_new_page sid p st1) st' a"
    by (rule slab_try_alloc_Some [OF new(1) got])
  moreover have "slab_state.more (slab_new_page sid p st1) = slab_state.more st"
    using kpage_alloc_slab_fields(3) [OF k] by (simp add: slab_new_page_def Let_def)
  ultimately show ?thesis unfolding slab_take_step_def new(2) k1(2) by simp
qed

text \<open>Memory runs out only with the page allocator: the second attempt of \<^verbatim>\<open>slab_alloc\<close> never fails.\<close>

lemma slab_alloc_error:
  assumes "slab_wf st" and "slab_alloc sid st = Inl e"
  shows "e = Panic ''Out of physical memory'' \<and> kpage_alloc 1 st = Inl e"
proof -
  have none: "slab_try_alloc sid st = None"
    using assms(2) by (auto simp: slab_alloc_def split: option.splits)
  show ?thesis
  proof (cases "kpage_alloc 1 st")
    case (Inl e')
    with assms(2) none have "e' = e" by (simp add: slab_alloc_def)
    moreover have "e' = Panic ''Out of physical memory''"
      using Inl slab_wfD(1) [OF assms(1)] by (auto simp: kpage_alloc_eq Let_def split: if_splits)
    ultimately show ?thesis using Inl by simp
  next
    case (Inr r)
    obtain st1 p where r: "r = (st1, p)" by force
    note k = Inr [unfolded r]
    have al: "allocator_ok (slab_allocators st1 sid)"
      using slab_wfD(2) [OF assms(1), of sid] kpage_alloc_slab_fields(2) [OF k] by simp
    have free: "slot_free (slab_headers (slab_new_page sid p st1) p) 0"
      using fill_bitmaps_free(1) [of 0] allocator_okD(2) [OF al] by (simp add: slab_new_page_def Let_def)
    have "p \<in> set (slab_pages (slab_allocators (slab_new_page sid p st1) sid))"
      by (simp add: slab_new_page_def Let_def)
    then have "slab_try_alloc sid (slab_new_page sid p st1) \<noteq> None"
      using slab_try_pages_None [OF _ \<open>p \<in> _\<close>, of _ "slab_headers (slab_new_page sid p st1)" 0] free
      unfolding slab_try_alloc_def by fastforce
    with assms(2) none k show ?thesis by (auto simp: slab_alloc_def split: option.splits)
  qed
qed

section \<open>Freeing\<close>

lemma slab_free_slot:
  assumes "slab_wf st" and "p \<in> set (slab_pages (slab_allocators st sid))"
    and "s < unat (objects_per_page (slab_allocators st sid))"
  shows "slab_free sid (slot_addr p (object_size (slab_allocators st sid)) s) st =
    Inr (st\<lparr>slab_headers := (slab_headers st)(p :=
      (slab_headers st p)[s div 64 := slab_headers st p ! (s div 64) OR push_bit (s mod 64) 1])\<rparr>)"
proof -
  let ?al = "slab_allocators st sid"
  let ?a = "slot_addr p (object_size ?al) s"
  have al: "allocator_ok ?al" by (rule slab_wfD(2) [OF assms(1)])
  have small: "s * unat (object_size ?al) < 4096" and s256: "s < 256"
    using slot_end [OF al assms(3)] allocator_okD(1,3) [OF al] assms(3) by linarith+
  have off: "?a - 48 - p = of_nat (s * unat (object_size ?al))" by (simp add: slot_addr_def)
  have "unat (?a - 48 - p) = s * unat (object_size ?al)"
    unfolding off using small by (intro unat_of_nat_small) simp
  then have po: "unat (ucast (?a - 48 - p) :: u16) = s * unat (object_size ?al)"
    using small by (simp add: unat_ucast_small)
  have div: "unat (ucast (?a - 48 - p) div object_size ?al) = s"
    using po allocator_okD(1) [OF al] by (simp add: unat_div_distrib)
  have mod: "ucast (?a - 48 - p) mod object_size ?al = 0"
    using po by (simp add: word_unat_eq_iff unat_mod_distrib)
  have d64: "unat (ucast (drop_bit 6 (ucast (?a - 48 - p) div object_size ?al)) :: u8) = s div 64"
    using div s256 by (simp add: unat_ucast_small unat_drop_bit)
  have m64: "unat (ucast ((ucast (?a - 48 - p) div object_size ?al) mod 64) :: u8) = s mod 64"
    using div by (subst unat_ucast_small) (simp_all add: unat_mod_distrib)
  have len: "s div 64 < length (slab_headers st p)"
    using slab_headers_length [OF assms(1), of sid] assms(2) s256 by (simp add: less_mult_imp_div_less)
  show ?thesis
    unfolding slab_free_def slab_slot_header [OF assms] Let_def
    using mod d64 m64 len by (simp add: array_get_def array_set_def)
qed

lemma slab_free_live:
  assumes "slab_wf st" and "a \<in> slab_live sid st"
  shows "\<exists>st'. slab_free sid a st = Inr st' \<and> slab_wf st' \<and> slab_live sid st' = slab_live sid st - {a} \<and>
    (\<forall>i. i \<noteq> sid \<longrightarrow> slab_live i st' = slab_live i st) \<and> slab_state.more st' = slab_state.more st"
proof -
  from assms(2) obtain p s where p: "p \<in> set (slab_pages (slab_allocators st sid))"
    and s: "s < unat (objects_per_page (slab_allocators st sid))"
    and a: "a = slot_addr p (object_size (slab_allocators st sid)) s"
    unfolding slab_live_def by blast
  let ?bm = "(slab_headers st p)[s div 64 := slab_headers st p ! (s div 64) OR push_bit (s mod 64) 1]"
  let ?st' = "st\<lparr>slab_headers := (slab_headers st)(p := ?bm)\<rparr>"
  have s256: "s < 256" using s allocator_okD(3) [OF slab_wfD(2) [OF assms(1), of sid]] by linarith
  have len: "length (slab_headers st p) = 4" using slab_headers_length [OF assms(1)] p by blast
  have bm: "\<forall>t < 256. slot_free ?bm t \<longleftrightarrow> slot_free (slab_headers st p) t \<or> t = s"
    using slot_free_set [OF len, of "s div 64" "s mod 64"] less_mult_imp_div_less [of s 4 64] s256 by simp
  have "header_ok (slab_allocators st sid) ?bm"
    using slab_wfD(5) [OF assms(1) p] bm s len unfolding header_ok_def by auto
  then have "slab_wf ?st'" by (rule slab_header_update_wf [OF assms(1) p])
  moreover have "slab_live sid ?st' = slab_live sid st - {a}"
    unfolding a by (rule slab_header_put [OF assms(1) p s bm])
  moreover have "slab_free sid a st = Inr ?st'" unfolding a by (rule slab_free_slot [OF assms(1) p s])
  ultimately show ?thesis using slab_header_update_other [OF assms(1) p] by (intro exI [of _ ?st']) simp
qed

interpretation slab: allocator "slab_alloc sid" "slab_free sid" "slab_live sid" slab_wf for sid
proof unfold_locales
  fix s s' :: "'z slab_state_scheme" and a
  assume s: "slab_wf s"
  show "slab_alloc sid s = Inr (s', a) \<Longrightarrow> slab_wf s'"
    and "slab_alloc sid s = Inr (s', a) \<Longrightarrow> a \<notin> slab_live sid s"
    and "slab_alloc sid s = Inr (s', a) \<Longrightarrow> slab_live sid s' = insert a (slab_live sid s)"
    using slab_alloc_step [OF s] unfolding slab_take_step_def by blast+
  show "a \<in> slab_live sid s \<Longrightarrow>
      \<exists>s'. slab_free sid a s = Inr s' \<and> slab_wf s' \<and> slab_live sid s' = slab_live sid s - {a}"
    using slab_free_live [OF s] by blast
qed

section \<open>Properties\<close>

definition object_range :: "u64 \<Rightarrow> u16 \<Rightarrow> nat set" where
  "object_range a obj_size = {unat a ..< unat a + unat obj_size}"

lemma slab_live_page:
  assumes "slab_wf st" and "a \<in> slab_live sid st"
  obtains p s where "p \<in> set (slab_pages (slab_allocators st sid))"
    and "s < unat (objects_per_page (slab_allocators st sid))"
    and "a = slot_addr p (object_size (slab_allocators st sid)) s"
    and "unat a = unat p + (48 + s * unat (object_size (slab_allocators st sid)))"
    and "unat a + unat (object_size (slab_allocators st sid)) \<le> unat p + 4096"
proof -
  from assms(2) obtain p s where p: "p \<in> set (slab_pages (slab_allocators st sid))"
    and s: "s < unat (objects_per_page (slab_allocators st sid))"
    and a: "a = slot_addr p (object_size (slab_allocators st sid)) s"
    unfolding slab_live_def by blast
  note u = slab_slot_unat [OF assms(1) p s]
  show ?thesis
    by (rule that [OF p s a]) (use u a slot_end [OF slab_wfD(2) [OF assms(1)] s] in simp_all)
qed

lemma page_ranges_disjoint:
  assumes "(4096 :: nat) dvd p" and "4096 dvd q" and "p \<noteq> q"
  shows "p + 4096 \<le> q \<or> q + 4096 \<le> p"
proof -
  from assms obtain k l where kl: "p = 4096 * k" "q = 4096 * l" by (elim dvdE)
  with assms(3) have "Suc k \<le> l \<or> Suc l \<le> k" by (cases k l rule: linorder_cases) auto
  then show ?thesis unfolding kl by linarith
qed

lemma slots_disjoint:
  fixes n :: nat
  assumes "s \<noteq> t"
  shows "{b + s * n ..< b + s * n + n} \<inter> {b + t * n ..< b + t * n + n} = {}"
proof -
  have *: "{b + s * n ..< b + s * n + n} \<inter> {b + t * n ..< b + t * n + n} = {}" if "s < t" for s t
  proof -
    have "Suc s * n \<le> t * n" using that by (intro mult_le_mono1) simp
    then show ?thesis by auto
  qed
  from assms show ?thesis using * [of s t] * [of t s] by (cases "s < t") (auto simp: Int_commute)
qed

text \<open>
  C2: Two live objects never overlap, whichever allocators they come from, and no live object
  overlaps a page header.
\<close>

theorem slab_objects_disjoint:
  assumes "slab_wf st" and "a \<in> slab_live i st" and "b \<in> slab_live j st" and "i \<noteq> j \<or> a \<noteq> b"
  shows "object_range a (object_size (slab_allocators st i)) \<inter>
         object_range b (object_size (slab_allocators st j)) = {}"
proof -
  from slab_live_page [OF assms(1,2)] obtain p s where p: "p \<in> set (slab_pages (slab_allocators st i))"
    "s < unat (objects_per_page (slab_allocators st i))"
    "a = slot_addr p (object_size (slab_allocators st i)) s"
    and a: "unat a = unat p + (48 + s * unat (object_size (slab_allocators st i)))"
    and ra: "unat a + unat (object_size (slab_allocators st i)) \<le> unat p + 4096" by blast
  from slab_live_page [OF assms(1,3)] obtain q t where q: "q \<in> set (slab_pages (slab_allocators st j))"
    "t < unat (objects_per_page (slab_allocators st j))"
    "b = slot_addr q (object_size (slab_allocators st j)) t"
    and b: "unat b = unat q + (48 + t * unat (object_size (slab_allocators st j)))"
    and rb: "unat b + unat (object_size (slab_allocators st j)) \<le> unat q + 4096" by blast
  show ?thesis
  proof (cases "p = q")
    case False
    then have "unat p + 4096 \<le> unat q \<or> unat q + 4096 \<le> unat p"
      using slab_page_facts(1) [OF assms(1)] p(1) q(1)
      by (intro page_ranges_disjoint) (simp_all add: word_unat_eq_iff)
    then show ?thesis using a b ra rb by (auto simp: object_range_def)
  next
    case True
    then have ij: "i = j" using slab_wfD(6) [OF assms(1) p(1)] q(1) by blast
    with assms(4) p(3) q(3) True have "s \<noteq> t" by blast
    then show ?thesis
      using slots_disjoint [of s t "unat p + 48" "unat (object_size (slab_allocators st i))"] a b True ij
      by (simp add: object_range_def add.assoc)
  qed
qed

text \<open>The state that the initialisation of the allocators leaves.\<close>

lemma SLAB_OF_ok: "allocator_ok (SLAB_OF (slab_object_bytes sid))"
  by (cases sid) (simp_all add: allocator_ok_def SLAB_OF_def)

lemma slab_init_wf:
  assumes "kmem_wf st" and "\<And>sid. slab_allocators st sid = SLAB_OF (slab_object_bytes sid)"
  shows "slab_wf st"
  using assms SLAB_OF_ok unfolding slab_wf_def by (simp add: SLAB_OF_def)

lemma kmem_wf_truncate: "kmem_wf st = kmem_wf (kmem_state.truncate st)"
  by (simp add: kmem_wf_def kmem_state.truncate_def)

lemma used_pages_truncate: "used_pages st = used_pages (kmem_state.truncate st)"
  by (simp add: used_pages_def page_addr_def kmem_state.truncate_def)

text \<open>A state in which one allocator has one page, with every slot in use.\<close>

definition demo_slab :: "slab_id \<Rightarrow> slab_state" where
  "demo_slab owner = kmem_state.extend demo_kmem
     \<lparr>slab_headers = (\<lambda>_. [0, 0, 0, 0]),
      slab_allocators = (\<lambda>sid. (SLAB_OF (slab_object_bytes sid))
        \<lparr>slab_pages := (if sid = owner then [0x22000] else [])\<rparr>)\<rparr>"

lemma demo_slab_truncate: "kmem_state.truncate (demo_slab owner) = demo_kmem"
  by (simp add: demo_slab_def kmem_state.extend_def kmem_state.truncate_def)

lemma demo_slab_fields:
  "slab_pages (slab_allocators (demo_slab owner) sid) = (if sid = owner then [0x22000] else [])"
  "object_size (slab_allocators (demo_slab owner) sid) = of_nat (slab_object_bytes sid)"
  "objects_per_page (slab_allocators (demo_slab owner) sid) = of_nat (4048 div slab_object_bytes sid)"
  "slab_headers (demo_slab owner) p = [0, 0, 0, 0]"
  by (simp_all add: demo_slab_def kmem_state.extend_def SLAB_OF_def)

lemma demo_page_used: "0x22000 \<in> used_pages demo_kmem"
proof -
  have "page_addr demo_kmem 2 \<in> used_pages demo_kmem"
    unfolding used_pages_def by (rule CollectI, intro exI [of _ 2]) (simp add: demo_kmem_def)
  moreover have "page_addr demo_kmem 2 = 0x22000" by (simp add: page_addr_def demo_kmem_def)
  ultimately show ?thesis by simp
qed

lemma demo_slab_wf: "slab_wf (demo_slab owner)"
  unfolding slab_wf_def
proof (intro conjI allI impI ballI)
  show "kmem_wf (demo_slab owner)" using demo_kmem_wf by (subst kmem_wf_truncate) (simp add: demo_slab_truncate)
  fix sid
  have "allocator_ok (slab_allocators (demo_slab owner) sid) = allocator_ok (SLAB_OF (slab_object_bytes sid))"
    by (simp add: allocator_ok_def demo_slab_def kmem_state.extend_def)
  then show "allocator_ok (slab_allocators (demo_slab owner) sid)" using SLAB_OF_ok by simp
  show "distinct (slab_pages (slab_allocators (demo_slab owner) sid))" by (simp add: demo_slab_fields)
  show "set (slab_pages (slab_allocators (demo_slab owner) sid)) \<subseteq> used_pages (demo_slab owner)"
    using demo_page_used
    by (subst used_pages_truncate) (cases "sid = owner", simp_all add: demo_slab_truncate demo_slab_fields)
  show "header_ok (slab_allocators (demo_slab owner) sid) (slab_headers (demo_slab owner) p)" for p
    by (simp add: header_ok_def slot_free_zero demo_slab_fields)
qed (auto simp: demo_slab_fields)

lemma demo_slab_live:
  assumes "s < unat (of_nat (4048 div slab_object_bytes owner) :: u16)"
  shows "slot_addr 0x22000 (of_nat (slab_object_bytes owner)) s \<in> slab_live owner (demo_slab owner)"
proof -
  have "s < 256" using assms by (cases owner) simp_all
  then show ?thesis
    using slab_live_iff [OF demo_slab_wf, of "0x22000" owner owner s] slot_free_zero [of s] assms
    by (simp add: demo_slab_fields)
qed

lemma slab_objects_disjoint_witness:
  "object_range 0x22030 (object_size (slab_allocators (demo_slab Inode_Slab) Inode_Slab)) \<inter>
   object_range 0x22060 (object_size (slab_allocators (demo_slab Inode_Slab) Inode_Slab)) = {}"
proof -
  have live: "0x22030 \<in> slab_live Inode_Slab (demo_slab Inode_Slab)"
    "0x22060 \<in> slab_live Inode_Slab (demo_slab Inode_Slab)"
    using demo_slab_live [of 0 Inode_Slab] demo_slab_live [of 1 Inode_Slab] by (simp_all add: slot_addr_def)
  show ?thesis by (rule slab_objects_disjoint [OF demo_slab_wf live]) simp
qed

text \<open>
  C1: \<^verbatim>\<open>slab_alloc\<close> returns an object that was not live, makes exactly that object live and leaves
  the objects of every other allocator alone; \<^verbatim>\<open>slab_free\<close> of it is defined and restores the set of
  live objects. The only failure is the page allocator's panic.
\<close>

theorem slab_alloc_fresh:
  assumes "slab_wf st"
  shows "case slab_alloc sid st of
      Inr (st', a) \<Rightarrow> slab_wf st' \<and> a \<notin> slab_live sid st \<and>
        slab_live sid st' = insert a (slab_live sid st) \<and>
        (\<forall>i. i \<noteq> sid \<longrightarrow> slab_live i st' = slab_live i st) \<and>
        (\<exists>st''. slab_free sid a st' = Inr st'' \<and> slab_wf st'' \<and> slab_live sid st'' = slab_live sid st)
    | Inl e \<Rightarrow> e = Panic ''Out of physical memory''"
proof (cases "slab_alloc sid st")
  case (Inl e)
  with slab_alloc_error [OF assms] show ?thesis by simp
next
  case (Inr r)
  obtain st' a where r: "r = (st', a)" by force
  show ?thesis
    using slab_alloc_step [OF assms Inr [unfolded r]] slab.alloc_free [OF assms Inr [unfolded r]]
    unfolding Inr r slab_take_step_def by simp
qed

lemma slab_alloc_fresh_witness:
  "case slab_alloc Dentry_Slab (demo_slab Inode_Slab) of
      Inr (st', a) \<Rightarrow> slab_wf st' \<and> a \<notin> slab_live Dentry_Slab (demo_slab Inode_Slab) \<and>
        slab_live Dentry_Slab st' = insert a (slab_live Dentry_Slab (demo_slab Inode_Slab)) \<and>
        (\<forall>i. i \<noteq> Dentry_Slab \<longrightarrow> slab_live i st' = slab_live i (demo_slab Inode_Slab)) \<and>
        (\<exists>st''. slab_free Dentry_Slab a st' = Inr st'' \<and> slab_wf st'' \<and>
           slab_live Dentry_Slab st'' = slab_live Dentry_Slab (demo_slab Inode_Slab))
    | Inl e \<Rightarrow> e = Panic ''Out of physical memory''"
  by (rule slab_alloc_fresh [OF demo_slab_wf])

end
