(* ===== verification/Paging.thy ===== *)
theory Paging
  imports Slab
begin

text \<open>
  \<^verbatim>\<open>kernel/src/mm/map.c\<close>: the four-level page tables. \<open>pt_mem\<close> is the memory of the page tables,
  read and written as aligned 64-bit entries by kernel virtual address; \<open>cr3_reg\<close> is the control
  register that holds the physical address of the active root. Physical addresses and kernel
  addresses differ by \<open>hhdm_offset\<close>. \<open>frame_bytes\<close> is the contents of the frames that user pages and
  page buffers occupy, by kernel address.
\<close>

section \<open>State and operations\<close>

record paging_state = slab_state +
  pt_mem :: "u64 \<Rightarrow> u64"
  cr3_reg :: u64
  frame_bytes :: "u64 \<Rightarrow> u8"

abbreviation PAGE_ADDRESS_MASK :: u64 where "PAGE_ADDRESS_MASK \<equiv> 0xFFFFFFFFFFFFF000"
abbreviation PAGE_OFFSET_MASK :: u64 where "PAGE_OFFSET_MASK \<equiv> 0xFFF"

definition PAGE_DIRECTORY_ATTRIBUTES :: u64 where "PAGE_DIRECTORY_ATTRIBUTES = 0x27"
definition PAGE_TABLE_ATTRIBUTES :: u64 where "PAGE_TABLE_ATTRIBUTES = 0xE7"
definition PAGE_TABLE_MMIO_ATTRIBUTES :: u64 where "PAGE_TABLE_MMIO_ATTRIBUTES = 0xFF"

definition entry_addr :: "u64 \<Rightarrow> u64 \<Rightarrow> u64" where
  "entry_addr table i = table + push_bit 3 i"

definition virt_index :: "nat \<Rightarrow> u64 \<Rightarrow> u64" where
  "virt_index shift virt = drop_bit shift virt AND 0x1FF"

definition zero_page :: "u64 \<Rightarrow> (u64 \<Rightarrow> 'v :: zero) \<Rightarrow> u64 \<Rightarrow> 'v" where
  "zero_page page m = (\<lambda>a. if a - page < PAGE_SIZE then 0 else m a)"

text \<open>
  The three blocks of \<^verbatim>\<open>set_page_mapping\<close> that find or create the table of the next level are the
  same code on different variables: \<open>descend\<close>.
\<close>

definition descend :: "u64 \<Rightarrow> u64 \<Rightarrow> 'z paging_state_scheme \<Rightarrow> ('z paging_state_scheme \<times> u64) res" where
  "descend table i st =
     (let entries = (pt_mem st (entry_addr table i) AND PAGE_ADDRESS_MASK) + hhdm_offset st
      in if entries = hhdm_offset st
         then res_bind (kpage_alloc 1 st) (\<lambda>(st1, new_page).
           Inr (st1\<lparr>pt_mem := (zero_page new_page (pt_mem st1))
                      (entry_addr table i := (new_page - hhdm_offset st1) OR PAGE_DIRECTORY_ATTRIBUTES)\<rparr>,
                new_page))
         else Inr (st, entries))"

definition set_page_mapping ::
  "u64 \<Rightarrow> u64 \<Rightarrow> u64 \<Rightarrow> bool \<Rightarrow> 'z paging_state_scheme \<Rightarrow> 'z paging_state_scheme res" where
  "set_page_mapping pml4_page virt_address phys_address is_mmio st =
     (if phys_address AND 4095 \<noteq> 0 then Inl (Panic ''phys_address must be page-aligned'')
      else
        res_bind (descend pml4_page (virt_index 39 virt_address) st) (\<lambda>(st1, ptpd_entries).
        res_bind (descend ptpd_entries (virt_index 30 virt_address) st1) (\<lambda>(st2, pd_entries).
        res_bind (descend pd_entries (virt_index 21 virt_address) st2) (\<lambda>(st3, pt_entries).
          Inr (st3\<lparr>pt_mem := (pt_mem st3)(entry_addr pt_entries (virt_index 12 virt_address) :=
                 phys_address OR
                   (if is_mmio then PAGE_TABLE_MMIO_ATTRIBUTES else PAGE_TABLE_ATTRIBUTES))\<rparr>)))))"

section \<open>Pages and entries\<close>

definition is_page :: "u64 \<Rightarrow> bool" where
  "is_page a \<longleftrightarrow> 4096 dvd unat a \<and> unat a + 4096 \<le> 2 ^ 64"

lemma virt_index_lt: "virt_index n v < 512"
proof -
  have "unat (virt_index n v) = unat (drop_bit n v) mod 512"
    unfolding virt_index_def using unat_and_mask [of "drop_bit n v" 9] by (simp add: mask_eq_exp_minus_1)
  then show ?thesis by (simp add: word_less_nat_alt)
qed

lemma unat_entry_addr:
  assumes "is_page a" and "i < 512"
  shows "unat (entry_addr a i) = unat a + 8 * unat i"
proof -
  have i: "unat i < 512" using assms(2) by (simp add: word_less_nat_alt)
  have "push_bit 3 i = 8 * i" by (simp add: push_bit_eq_mult mult.commute)
  moreover have "unat (8 * i) = 8 * unat i"
    using i by (simp add: unat_word_ariths)
  ultimately show ?thesis
    unfolding entry_addr_def using i assms(1) by (subst unat_add_no_wrap) (simp_all add: is_page_def)
qed

lemma pages_apart:
  assumes "is_page a" and "is_page b" and "x < 4096" and "y < 4096"
    and "unat a + x = unat b + (y :: nat)"
  shows "a = b \<and> x = y"
proof -
  from assms(1,2) obtain k l where kl: "unat a = 4096 * k" "unat b = 4096 * l"
    by (auto simp: is_page_def elim!: dvdE)
  with assms(3-5) have "k = l" by linarith
  with kl assms(5) show ?thesis by (simp add: word_unat_eq_iff)
qed

lemma entry_addr_eq_iff:
  assumes "is_page a" and "is_page b" and "i < 512" and "j < 512"
  shows "entry_addr a i = entry_addr b j \<longleftrightarrow> a = b \<and> i = j"
proof
  assume eq: "entry_addr a i = entry_addr b j"
  have lt: "8 * unat i < 4096" "8 * unat j < 4096" using assms(3,4) by (simp_all add: word_less_nat_alt)
  have "unat a + 8 * unat i = unat b + 8 * unat j"
    using arg_cong [OF eq, of unat] assms by (simp add: unat_entry_addr)
  from pages_apart [OF assms(1,2) lt this] show "a = b \<and> i = j" by (simp add: word_unat_eq_iff)
qed simp

lemma entry_in_page:
  assumes "is_page a" and "is_page b" and "i < 512"
  shows "entry_addr b i - a < PAGE_SIZE \<longleftrightarrow> a = b"
proof
  assume lt: "entry_addr b i - a < PAGE_SIZE"
  have "unat (entry_addr b i - a) < 4096" using lt by (simp add: word_less_nat_alt)
  moreover have "8 * unat i < 4096" using assms(3) by (simp add: word_less_nat_alt)
  moreover have "unat a + unat (entry_addr b i - a) = unat b + 8 * unat i"
  proof -
    have "unat (a + (entry_addr b i - a)) = unat a + unat (entry_addr b i - a)"
      using assms(1) lt by (intro unat_add_no_wrap) (simp add: is_page_def word_less_nat_alt)
    then show ?thesis using unat_entry_addr [OF assms(2,3)] by simp
  qed
  ultimately show "a = b" using pages_apart [OF assms(1,2)] by blast
next
  assume "a = b"
  have "unat (push_bit 3 i) = 8 * unat i"
  proof -
    have "push_bit 3 i = 8 * i" by (simp add: push_bit_eq_mult mult.commute)
    moreover have "unat (8 * i) = 8 * unat i"
      using assms(3) by (simp add: unat_word_ariths word_less_nat_alt)
    ultimately show ?thesis by simp
  qed
  with \<open>a = b\<close> show "entry_addr b i - a < PAGE_SIZE"
    using assms(3) by (simp add: entry_addr_def word_less_nat_alt)
qed

text \<open>An entry gives back the page-aligned address that was stored with attribute bits.\<close>

lemma aligned_mask:
  assumes "4096 dvd unat x" and "c AND PAGE_ADDRESS_MASK = 0"
  shows "(x OR c) AND PAGE_ADDRESS_MASK = x"
proof -
  have "unat (x AND PAGE_ADDRESS_MASK) = unat x"
    using assms(1) by (simp add: page_mask)
  then have "x AND PAGE_ADDRESS_MASK = x" by (simp add: word_unat_eq_iff)
  with assms(2) show ?thesis by (simp add: bit.conj_disj_distrib2)
qed

lemma attributes_masked:
  "PAGE_DIRECTORY_ATTRIBUTES AND PAGE_ADDRESS_MASK = 0"
  "PAGE_TABLE_ATTRIBUTES AND PAGE_ADDRESS_MASK = 0"
  "PAGE_TABLE_MMIO_ATTRIBUTES AND PAGE_ADDRESS_MASK = 0"
  by (simp_all add: PAGE_DIRECTORY_ATTRIBUTES_def PAGE_TABLE_ATTRIBUTES_def PAGE_TABLE_MMIO_ATTRIBUTES_def)

section \<open>The walk\<close>

text \<open>
  The walk of the processor: \<open>table_at\<close> follows a path of indices from the root to a table,
  \<open>translate\<close> reads the frame of a virtual page from the table at the path's end. The specification of
  \<^verbatim>\<open>set_page_mapping\<close> is stated in terms of \<open>translate\<close>.
\<close>

definition next_table :: "u64 \<Rightarrow> u64 \<Rightarrow> u64 option" where
  "next_table hhdm entry =
     (if entry AND PAGE_ADDRESS_MASK = 0 then None else Some ((entry AND PAGE_ADDRESS_MASK) + hhdm))"

fun table_at :: "(u64 \<Rightarrow> u64) \<Rightarrow> u64 \<Rightarrow> u64 \<Rightarrow> u64 list \<Rightarrow> u64 option" where
  "table_at m hhdm table [] = Some table"
| "table_at m hhdm table (i # is) =
     Option.bind (next_table hhdm (m (entry_addr table i))) (\<lambda>t. table_at m hhdm t is)"

abbreviation table_of :: "u64 \<Rightarrow> u64 list \<Rightarrow> 'z paging_state_scheme \<Rightarrow> u64 option" where
  "table_of root path st \<equiv> table_at (pt_mem st) (hhdm_offset st) root path"

definition virt_path :: "u64 \<Rightarrow> u64 list" where
  "virt_path v = [virt_index 39 v, virt_index 30 v, virt_index 21 v]"

definition translate :: "u64 \<Rightarrow> u64 \<Rightarrow> 'z paging_state_scheme \<Rightarrow> u64 option" where
  "translate root v st =
     Option.bind (table_of root (virt_path v) st) (\<lambda>t.
       let e = pt_mem st (entry_addr t (virt_index 12 v))
       in if bit e 0 then Some (e AND PAGE_ADDRESS_MASK) else None)"

text \<open>
  A directory entry must be present, writable and open to the user before the processor follows it. \<open>processor_walk\<close>
  is the walk with these tests, which the code itself does not make: it takes an entry with an address for a table.
\<close>

abbreviation DIRECTORY_ACCESS :: u64 where "DIRECTORY_ACCESS \<equiv> 7"

fun processor_table :: "(u64 \<Rightarrow> u64) \<Rightarrow> u64 \<Rightarrow> u64 \<Rightarrow> u64 list \<Rightarrow> u64 option" where
  "processor_table m hhdm table [] = Some table"
| "processor_table m hhdm table (i # is) =
     (let e = m (entry_addr table i)
      in if e AND DIRECTORY_ACCESS = DIRECTORY_ACCESS then processor_table m hhdm ((e AND PAGE_ADDRESS_MASK) + hhdm) is
         else None)"

definition processor_walk :: "u64 \<Rightarrow> u64 \<Rightarrow> 'z paging_state_scheme \<Rightarrow> u64 option" where
  "processor_walk root v st =
     Option.bind (processor_table (pt_mem st) (hhdm_offset st) root (virt_path v)) (\<lambda>t.
       let e = pt_mem st (entry_addr t (virt_index 12 v))
       in if bit e 0 then Some (e AND PAGE_ADDRESS_MASK) else None)"

lemma table_at_snoc:
  "table_at m h t (p @ [i]) = Option.bind (table_at m h t p) (\<lambda>a. next_table h (m (entry_addr a i)))"
  by (induction p arbitrary: t) (auto simp: bind_eq_Some_conv split: Option.bind_splits)

lemma table_at_append:
  "table_at m h t (p @ q) = Option.bind (table_at m h t p) (\<lambda>a. table_at m h a q)"
  by (induction p arbitrary: t) (auto split: Option.bind_splits)

text \<open>
  The tables below the root entries in \<open>I\<close> form a tree of distinct pages in use. For a process \<open>I\<close>
  is the lower half; the upper half is shared with the boot loader's tables, which have large pages.
\<close>

definition valid_path :: "u64 set \<Rightarrow> u64 list \<Rightarrow> bool" where
  "valid_path I p \<longleftrightarrow> length p \<le> 3 \<and> (\<forall>i \<in> set p. i < 512) \<and> (p \<noteq> [] \<longrightarrow> hd p \<in> I)"

definition hhdm_ok :: "'z paging_state_scheme \<Rightarrow> bool" where
  "hhdm_ok st \<longleftrightarrow> 4096 dvd unat (hhdm_offset st) \<and> hhdm_offset st < kmem_start st"

definition tree_wf :: "u64 set \<Rightarrow> u64 \<Rightarrow> 'z paging_state_scheme \<Rightarrow> bool" where
  "tree_wf I root st \<longleftrightarrow> kmem_wf st \<and> hhdm_ok st \<and>
     (\<forall>p a. valid_path I p \<longrightarrow> table_of root p st = Some a \<longrightarrow> a \<in> used_pages st) \<and>
     (\<forall>p q a. valid_path I p \<longrightarrow> valid_path I q \<longrightarrow>
        table_of root p st = Some a \<longrightarrow> table_of root q st = Some a \<longrightarrow> p = q)"

text \<open>Every directory entry of the tree that has an address may be followed, and no other.\<close>

definition directories_ok :: "u64 set \<Rightarrow> u64 \<Rightarrow> 'z paging_state_scheme \<Rightarrow> bool" where
  "directories_ok I root st \<longleftrightarrow>
     (\<forall>p i a. valid_path I (p @ [i]) \<longrightarrow> table_of root p st = Some a \<longrightarrow>
        (pt_mem st (entry_addr a i) AND DIRECTORY_ACCESS = DIRECTORY_ACCESS \<longleftrightarrow>
         pt_mem st (entry_addr a i) AND PAGE_ADDRESS_MASK \<noteq> 0))"

lemma tree_wfD:
  assumes "tree_wf I root st"
  shows "kmem_wf st" and "hhdm_ok st"
    and "valid_path I p \<Longrightarrow> table_of root p st = Some a \<Longrightarrow> a \<in> used_pages st"
    and "valid_path I p \<Longrightarrow> table_of root p st = Some a \<Longrightarrow> is_page a"
    and "valid_path I p \<Longrightarrow> valid_path I q \<Longrightarrow> table_of root p st = Some a \<Longrightarrow>
         table_of root q st = Some a \<Longrightarrow> p = q"
  using assms used_pages_wfD unfolding tree_wf_def is_page_def by blast+

lemma valid_path_snocD: "valid_path I (p @ [i]) \<Longrightarrow> valid_path I p \<and> i < 512"
  by (cases p) (auto simp: valid_path_def)

lemma virt_path_valid:
  assumes "virt_index 39 v \<in> I"
  shows "valid_path I []" "valid_path I [virt_index 39 v]"
    "valid_path I [virt_index 39 v, virt_index 30 v]" "valid_path I (virt_path v)"
  using assms by (simp_all add: valid_path_def virt_path_def virt_index_lt)

lemma directory_followed:
  assumes "directories_ok I root st" and "valid_path I (p @ [i])" and "table_of root p st = Some t"
  shows "processor_table (pt_mem st) (hhdm_offset st) t (i # is) =
    Option.bind (table_of root (p @ [i]) st) (\<lambda>a. processor_table (pt_mem st) (hhdm_offset st) a is)"
proof -
  have "pt_mem st (entry_addr t i) AND DIRECTORY_ACCESS = DIRECTORY_ACCESS \<longleftrightarrow>
      pt_mem st (entry_addr t i) AND PAGE_ADDRESS_MASK \<noteq> 0"
    using assms unfolding directories_ok_def by blast
  then show ?thesis by (simp add: table_at_snoc assms(3) next_table_def Let_def)
qed

lemma processor_walk_translate:
  assumes "directories_ok I root st" and "virt_index 39 v \<in> I"
  shows "processor_walk root v st = translate root v st"
proof -
  let ?i = "virt_index 39 v" and ?j = "virt_index 30 v" and ?k = "virt_index 21 v"
  note vp = virt_path_valid [OF assms(2)]
  have "processor_table (pt_mem st) (hhdm_offset st) root [?i, ?j, ?k] = table_of root [?i, ?j, ?k] st"
  proof -
    have 1: "processor_table (pt_mem st) (hhdm_offset st) root [?i, ?j, ?k] =
        Option.bind (table_of root [?i] st) (\<lambda>a. processor_table (pt_mem st) (hhdm_offset st) a [?j, ?k])"
      using directory_followed [OF assms(1), of "[]" ?i root "[?j, ?k]"] vp(2) by simp
    have 2: "processor_table (pt_mem st) (hhdm_offset st) a [?j, ?k] =
        Option.bind (table_of root [?i, ?j] st) (\<lambda>b. processor_table (pt_mem st) (hhdm_offset st) b [?k])"
      if "table_of root [?i] st = Some a" for a
      using directory_followed [OF assms(1), of "[?i]" ?j a "[?k]"] vp(3) that by simp
    have 3: "processor_table (pt_mem st) (hhdm_offset st) b [?k] = table_of root [?i, ?j, ?k] st"
      if "table_of root [?i, ?j] st = Some b" for b
      using directory_followed [OF assms(1), of "[?i, ?j]" ?k b "[]"] vp(4) that by (simp add: virt_path_def)
    show ?thesis
    proof (cases "table_of root [?i] st")
      case None
      then show ?thesis unfolding 1 using table_at_append [of "pt_mem st" "hhdm_offset st" root "[?i]" "[?j, ?k]"] by simp
    next
      case (Some a)
      show ?thesis
      proof (cases "table_of root [?i, ?j] st")
        case None
        then show ?thesis unfolding 1 using 2 [OF Some] Some
          table_at_append [of "pt_mem st" "hhdm_offset st" root "[?i, ?j]" "[?k]"] by simp
      next
        case (Some b)
        then show ?thesis unfolding 1 using 2 3 [OF Some] \<open>table_of root [?i] st = Some a\<close> by simp
      qed
    qed
  qed
  then show ?thesis by (simp add: processor_walk_def translate_def virt_path_def)
qed

text \<open>The entry that \<open>descend\<close> writes for a new table leads to that table.\<close>

lemma next_table_new:
  assumes "hhdm_ok st" and "is_page a" and "hhdm_offset st < a"
  shows "next_table (hhdm_offset st) ((a - hhdm_offset st) OR PAGE_DIRECTORY_ATTRIBUTES) = Some a"
proof -
  have "unat (a - hhdm_offset st) = unat a - unat (hhdm_offset st)"
    using assms(3) by (intro unat_sub_no_wrap) simp
  then have "4096 dvd unat (a - hhdm_offset st)"
    using assms(1,2) by (simp add: hhdm_ok_def is_page_def)
  then have "((a - hhdm_offset st) OR PAGE_DIRECTORY_ATTRIBUTES) AND PAGE_ADDRESS_MASK = a - hhdm_offset st"
    by (rule aligned_mask) (rule attributes_masked)
  moreover have "a - hhdm_offset st \<noteq> 0" using assms(3) by auto
  ultimately show ?thesis by (simp add: next_table_def)
qed

lemma used_page_above_start:
  assumes "kmem_wf st" and "a \<in> used_pages st"
  shows "kmem_start st \<le> a"
  using assms unat_page_addr [OF assms(1)] by (auto simp: used_pages_def word_le_nat_alt)

text \<open>What a created table changes: exactly one path appears.\<close>

lemma table_at_new:
  assumes wf: "tree_wf I root st" and new: "new_page \<notin> used_pages st" "is_page new_page"
    and p: "valid_path I (p @ [i])" "table_of root p st = Some t"
    and empty: "next_table (hhdm_offset st) (pt_mem st (entry_addr t i)) = None"
    and m': "m' = (zero_page new_page (pt_mem st))(entry_addr t i := e)"
    and e: "next_table (hhdm_offset st) e = Some new_page"
    and q: "valid_path I q"
  shows "table_at m' (hhdm_offset st) root q = (if q = p @ [i] then Some new_page else table_of root q st)"
  using q
proof (induction q rule: rev_induct)
  case Nil
  then show ?case by simp
next
  case (snoc j q)
  have vq: "valid_path I q" and j: "j < 512" using valid_path_snocD [OF snoc.prems] by auto
  have vp: "valid_path I p" and i: "i < 512" using valid_path_snocD [OF p(1)] by auto
  have t: "is_page t" "t \<noteq> new_page" using tree_wfD(3,4) [OF wf vp p(2)] new(1) by auto
  note IH = snoc.IH [OF vq]
  consider (inside) "q = p @ [i]" | (none) "q \<noteq> p @ [i]" "table_of root q st = None"
    | (some) a where "q \<noteq> p @ [i]" "table_of root q st = Some a" by blast
  then show ?case
  proof cases
    case inside
    have "m' (entry_addr new_page j) = 0"
      unfolding m' using entry_addr_eq_iff [OF new(2) t(1) j i] entry_in_page [OF new(2) new(2) j] t(2)
      by (simp add: zero_page_def)
    then have "table_at m' (hhdm_offset st) root (q @ [j]) = None"
      unfolding table_at_snoc IH using inside by (simp add: next_table_def)
    moreover have "table_of root q st = None" unfolding inside table_at_snoc using p(2) empty by simp
    then have "table_of root (q @ [j]) st = None" unfolding table_at_snoc by simp
    ultimately show ?thesis using inside by simp
  next
    case none
    then have "q \<noteq> p" using p(2) by auto
    with none show ?thesis unfolding table_at_snoc IH by simp
  next
    case some
    have a: "is_page a" "a \<noteq> new_page" using tree_wfD(3,4) [OF wf vq some(2)] new(1) by auto
    have at: "a = t \<longleftrightarrow> q = p" using tree_wfD(5) [OF wf vq vp] some(2) p(2) by auto
    have "m' (entry_addr a j) = (if q = p \<and> j = i then e else pt_mem st (entry_addr a j))"
      unfolding m' using entry_addr_eq_iff [OF a(1) t(1) j i] entry_in_page [OF new(2) a(1) j] a(2) at
      by (auto simp: zero_page_def)
    then show ?thesis unfolding table_at_snoc IH using some e by simp
  qed
qed

lemma kpage_alloc_paging_fields:
  assumes "kpage_alloc n st = Inr (st', a)"
  shows "pt_mem st' = pt_mem st" "hhdm_offset st' = hhdm_offset st" "kmem_start st' = kmem_start st"
    "cr3_reg st' = cr3_reg st"
  using assms by (auto simp: kpage_alloc_def res_bind_eq_Inr)

lemma kmem_wf_pt_update [simp]:
  "kmem_wf (st\<lparr>pt_mem := m\<rparr>) = kmem_wf st" "used_pages (st\<lparr>pt_mem := m\<rparr>) = used_pages st"
  "hhdm_ok (st\<lparr>pt_mem := m\<rparr>) = hhdm_ok st"
  by (simp_all add: kmem_wf_def used_pages_def page_addr_def hhdm_ok_def)

text \<open>
  \<open>tree_step\<close>: the tree stays well formed, tables stay where they are, and the entries of the
  last-level tables are as before or, in a new table, absent.
\<close>

definition tree_step :: "u64 set \<Rightarrow> u64 \<Rightarrow> 'z paging_state_scheme \<Rightarrow> 'z paging_state_scheme \<Rightarrow> bool" where
  "tree_step I root st st' \<longleftrightarrow> tree_wf I root st' \<and>
     (\<forall>q a. valid_path I q \<longrightarrow> table_of root q st = Some a \<longrightarrow> table_of root q st' = Some a) \<and>
     (\<forall>v. virt_index 39 v \<in> I \<longrightarrow> translate root v st' = translate root v st) \<and>
     (directories_ok I root st \<longrightarrow> directories_ok I root st')"

lemma tree_step_refl: "tree_wf I root st \<Longrightarrow> tree_step I root st st"
  by (simp add: tree_step_def)

lemma tree_step_trans: "tree_step I root st st' \<Longrightarrow> tree_step I root st' st'' \<Longrightarrow> tree_step I root st st''"
  by (simp add: tree_step_def)

lemma table_of_None_empty:
  assumes "table_of root p st = Some t"
  shows "table_of root (p @ [i]) st = next_table (hhdm_offset st) (pt_mem st (entry_addr t i))"
  using assms by (simp add: table_at_snoc)

lemma descend_new_table:
  assumes wf: "tree_wf I root st" and p: "valid_path I (p @ [i])" "table_of root p st = Some t"
    and empty: "next_table (hhdm_offset st) (pt_mem st (entry_addr t i)) = None"
    and k: "kpage_alloc 1 st = Inr (st1, new_page)"
    and st': "st' = st1\<lparr>pt_mem := (zero_page new_page (pt_mem st1))
                  (entry_addr t i := (new_page - hhdm_offset st1) OR PAGE_DIRECTORY_ATTRIBUTES)\<rparr>"
  shows "tree_step I root st st' \<and> table_of root (p @ [i]) st' = Some new_page"
proof -
  note f = kpage_alloc_paging_fields [OF k]
  note u = kpage_alloc1_used [OF tree_wfD(1) [OF wf] k]
  have vp: "valid_path I p" and i: "i < 512" using valid_path_snocD [OF p(1)] by auto
  have page: "is_page new_page" using used_pages_wfD [OF u(1)] u(3) by (simp add: is_page_def)
  have hh: "hhdm_ok st1" using tree_wfD(2) [OF wf] f by (simp add: hhdm_ok_def)
  have gt: "hhdm_offset st1 < new_page"
    using used_page_above_start [OF u(1), of new_page] u(3) hh by (auto simp: hhdm_ok_def)
  let ?e = "(new_page - hhdm_offset st1) OR PAGE_DIRECTORY_ATTRIBUTES"
  have e: "next_table (hhdm_offset st) ?e = Some new_page"
    using next_table_new [OF hh page gt] f by simp
  have m': "pt_mem st' = (zero_page new_page (pt_mem st))(entry_addr t i := ?e)"
    and h': "hhdm_offset st' = hhdm_offset st" using f by (simp_all add: st')
  have tab: "table_of root q st' = (if q = p @ [i] then Some new_page else table_of root q st)"
    if "valid_path I q" for q
    unfolding h' using table_at_new [OF wf u(2) page p empty m' e that] .
  have wf': "tree_wf I root st'"
    unfolding tree_wf_def
  proof (intro conjI allI impI)
    show "kmem_wf st'" "hhdm_ok st'" using u(1) hh by (simp_all add: st')
    have used': "used_pages st' = insert new_page (used_pages st)" using u(3) by (simp add: st')
    show "a \<in> used_pages st'" if "valid_path I q" "table_of root q st' = Some a" for q a
      unfolding used' using that tab [OF that(1)] tree_wfD(3) [OF wf that(1)] by (auto split: if_splits)
    show "q = r" if v: "valid_path I q" "valid_path I r"
      and q: "table_of root q st' = Some a" and r: "table_of root r st' = Some a" for q r a
    proof -
      have "table_of root q st \<noteq> Some new_page" "table_of root r st \<noteq> Some new_page"
        using tree_wfD(3) [OF wf v(1)] tree_wfD(3) [OF wf v(2)] u(2) by blast+
      then show ?thesis
        using q r tab [OF v(1)] tab [OF v(2)] tree_wfD(5) [OF wf v] by (auto split: if_splits)
    qed
  qed
  have keep: "table_of root q st' = Some a" if "valid_path I q" "table_of root q st = Some a" for q a
    using that tab [OF that(1)] table_of_None_empty [OF p(2), of i] empty by auto
  have "translate root v st' = translate root v st" if v: "virt_index 39 v \<in> I" for v
  proof (cases "virt_path v = p @ [i]")
    case True
    then have "table_of root (virt_path v) st' = Some new_page"
      using tab [OF virt_path_valid(4) [OF v]] by simp
    moreover have "table_of root (virt_path v) st = None"
      unfolding True using table_of_None_empty [OF p(2)] empty by simp
    moreover have "new_page \<noteq> t" using tree_wfD(3) [OF wf vp p(2)] u(2) by blast
    then have "pt_mem st' (entry_addr new_page (virt_index 12 v)) = 0"
      unfolding m' using entry_addr_eq_iff [OF page tree_wfD(4) [OF wf vp p(2)] virt_index_lt i]
        entry_in_page [OF page page virt_index_lt] by (simp add: zero_page_def)
    ultimately show ?thesis by (simp add: translate_def)
  next
    case False
    then have same: "table_of root (virt_path v) st' = table_of root (virt_path v) st"
      using tab [OF virt_path_valid(4) [OF v]] by simp
    show ?thesis
    proof (cases "table_of root (virt_path v) st")
      case None
      with same show ?thesis by (simp add: translate_def)
    next
      case (Some a)
      note va = virt_path_valid(4) [OF v]
      have "length p \<noteq> length (virt_path v)" using p(1) by (simp add: valid_path_def virt_path_def)
      then have "a \<noteq> t" using tree_wfD(5) [OF wf va vp Some] p(2) by auto
      moreover have "a \<noteq> new_page" using tree_wfD(3) [OF wf va Some] u(2) by blast
      ultimately have "pt_mem st' (entry_addr a (virt_index 12 v)) = pt_mem st (entry_addr a (virt_index 12 v))"
        unfolding m'
        using entry_addr_eq_iff [OF tree_wfD(4) [OF wf va Some] tree_wfD(4) [OF wf vp p(2)] virt_index_lt i]
          entry_in_page [OF page tree_wfD(4) [OF wf va Some] virt_index_lt] by (auto simp: zero_page_def)
      then show ?thesis using same Some by (simp add: translate_def)
    qed
  qed
  moreover have "directories_ok I root st'" if ok: "directories_ok I root st"
    unfolding directories_ok_def
  proof (intro allI impI)
    fix q j a
    assume q: "valid_path I (q @ [j])" and a: "table_of root q st' = Some a"
    have vq: "valid_path I q" and j: "j < 512" using valid_path_snocD [OF q] by auto
    have t: "is_page t" by (rule tree_wfD(4) [OF wf vp p(2)])
    have e_ok: "?e AND DIRECTORY_ACCESS = DIRECTORY_ACCESS" "?e AND PAGE_ADDRESS_MASK \<noteq> 0"
    proof -
      show "?e AND PAGE_ADDRESS_MASK \<noteq> 0" using e by (auto simp: next_table_def)
      show "?e AND DIRECTORY_ACCESS = DIRECTORY_ACCESS"
        by (simp add: PAGE_DIRECTORY_ATTRIBUTES_def bit.conj_disj_distrib2)
    qed
    show "pt_mem st' (entry_addr a j) AND DIRECTORY_ACCESS = DIRECTORY_ACCESS \<longleftrightarrow>
        pt_mem st' (entry_addr a j) AND PAGE_ADDRESS_MASK \<noteq> 0"
    proof (cases "q = p @ [i]")
      case True
      then have "a = new_page" using a tab [OF vq] by simp
      moreover have "new_page \<noteq> t" using tree_wfD(3) [OF wf vp p(2)] u(2) by blast
      ultimately have "pt_mem st' (entry_addr a j) = 0"
        unfolding m' using entry_addr_eq_iff [OF page t j i] entry_in_page [OF page page j] by (simp add: zero_page_def)
      then show ?thesis by simp
    next
      case False
      then have old: "table_of root q st = Some a" using a tab [OF vq] by simp
      have "a \<noteq> new_page" using tree_wfD(3) [OF wf vq old] u(2) by blast
      then have "pt_mem st' (entry_addr a j) = (if a = t \<and> j = i then ?e else pt_mem st (entry_addr a j))"
        unfolding m' using entry_addr_eq_iff [OF tree_wfD(4) [OF wf vq old] t j i]
          entry_in_page [OF page tree_wfD(4) [OF wf vq old] j] by (auto simp: zero_page_def)
      then show ?thesis using e_ok ok q old unfolding directories_ok_def by (cases "a = t \<and> j = i") auto
    qed
  qed
  ultimately show ?thesis using wf' keep tab [OF p(1)] unfolding tree_step_def by simp
qed

lemma descend_ok:
  assumes wf: "tree_wf I root st" and p: "valid_path I (p @ [i])" "table_of root p st = Some t"
    and d: "descend t i st = Inr (st', t')"
  shows "tree_step I root st st' \<and> table_of root (p @ [i]) st' = Some t'"
proof (cases "next_table (hhdm_offset st) (pt_mem st (entry_addr t i))")
  case None
  then have "pt_mem st (entry_addr t i) AND PAGE_ADDRESS_MASK = 0"
    by (simp add: next_table_def split: if_splits)
  with d obtain st1 where k: "kpage_alloc 1 st = Inr (st1, t')"
    and st': "st' = st1\<lparr>pt_mem := (zero_page t' (pt_mem st1))
                  (entry_addr t i := (t' - hhdm_offset st1) OR PAGE_DIRECTORY_ATTRIBUTES)\<rparr>"
    by (auto simp: descend_def res_bind_eq_Inr)
  show ?thesis by (rule descend_new_table [OF wf p None k st'])
next
  case (Some a)
  then have "pt_mem st (entry_addr t i) AND PAGE_ADDRESS_MASK \<noteq> 0"
    and "a = (pt_mem st (entry_addr t i) AND PAGE_ADDRESS_MASK) + hhdm_offset st"
    by (auto simp: next_table_def split: if_splits)
  with d have "st' = st" "t' = a" by (auto simp: descend_def)
  with Some show ?thesis
    using tree_step_refl [OF wf] table_of_None_empty [OF p(2)] by simp
qed

lemma leaf_write:
  assumes wf: "tree_wf I root st" and v: "virt_index 39 v \<in> I" and t: "table_of root (virt_path v) st = Some t"
    and st': "st' = st\<lparr>pt_mem := (pt_mem st)(entry_addr t (virt_index 12 v) := e)\<rparr>"
  shows "tree_wf I root st'"
    and "\<And>w. virt_index 39 w \<in> I \<Longrightarrow> translate root w st' =
      (if virt_path w = virt_path v \<and> virt_index 12 w = virt_index 12 v
       then (if bit e 0 then Some (e AND PAGE_ADDRESS_MASK) else None) else translate root w st)"
    and "directories_ok I root st \<Longrightarrow> directories_ok I root st'"
proof -
  note vv = virt_path_valid(4) [OF v]
  have page: "is_page t" by (rule tree_wfD(4) [OF wf vv t])
  have entries: "pt_mem st' (entry_addr a j) = pt_mem st (entry_addr a j)"
    if q: "valid_path I (q @ [j])" and a: "table_of root q st = Some a" for q j a
  proof -
    have vq: "valid_path I q" and j: "j < 512" using valid_path_snocD [OF q] by auto
    have "length q \<noteq> length (virt_path v)" using q by (simp add: valid_path_def virt_path_def)
    then have "a \<noteq> t" using tree_wfD(5) [OF wf vq vv a] t by auto
    then show ?thesis
      using entry_addr_eq_iff [OF tree_wfD(4) [OF wf vq a] page j virt_index_lt] by (simp add: st')
  qed
  have tab: "table_of root q st' = table_of root q st" if "valid_path I q" for q
    using that
  proof (induction q rule: rev_induct)
    case Nil
    then show ?case by simp
  next
    case (snoc j q)
    have vq: "valid_path I q" using valid_path_snocD [OF snoc.prems] by auto
    have hh: "hhdm_offset st' = hhdm_offset st" by (simp add: st')
    show ?case
    proof (cases "table_of root q st")
      case None
      with snoc.IH [OF vq] show ?thesis by (simp add: table_at_snoc)
    next
      case (Some a)
      with snoc.IH [OF vq] entries [OF snoc.prems Some] hh show ?thesis by (simp add: table_at_snoc)
    qed
  qed
  show "directories_ok I root st'" if ok: "directories_ok I root st"
    unfolding directories_ok_def
  proof (intro allI impI)
    fix q j a
    assume q: "valid_path I (q @ [j])" and a: "table_of root q st' = Some a"
    have "valid_path I q" using valid_path_snocD [OF q] by simp
    then have old: "table_of root q st = Some a" using a tab by simp
    show "pt_mem st' (entry_addr a j) AND DIRECTORY_ACCESS = DIRECTORY_ACCESS \<longleftrightarrow>
        pt_mem st' (entry_addr a j) AND PAGE_ADDRESS_MASK \<noteq> 0"
      unfolding entries [OF q old] using ok q old unfolding directories_ok_def by blast
  qed
  show "tree_wf I root st'"
    unfolding tree_wf_def
  proof (intro conjI allI impI)
    show "kmem_wf st'" "hhdm_ok st'" using tree_wfD(1,2) [OF wf] by (simp_all add: st')
    show "a \<in> used_pages st'" if "valid_path I p" "table_of root p st' = Some a" for p a
      using tree_wfD(3) [OF wf that(1)] that(2) tab [OF that(1)] by (simp add: st')
    show "p = q" if "valid_path I p" "valid_path I q" "table_of root p st' = Some a"
      "table_of root q st' = Some a" for p q a
      using tree_wfD(5) [OF wf that(1,2)] that(3,4) tab [OF that(1)] tab [OF that(2)] by simp
  qed
  show "translate root w st' =
      (if virt_path w = virt_path v \<and> virt_index 12 w = virt_index 12 v
       then (if bit e 0 then Some (e AND PAGE_ADDRESS_MASK) else None) else translate root w st)"
    if w: "virt_index 39 w \<in> I" for w
  proof (cases "table_of root (virt_path w) st")
    case None
    then have "virt_path w \<noteq> virt_path v" using t by auto
    with None tab [OF virt_path_valid(4) [OF w]] show ?thesis by (simp add: translate_def)
  next
    case (Some a)
    note vw = virt_path_valid(4) [OF w]
    have at: "a = t \<longleftrightarrow> virt_path w = virt_path v"
      using tree_wfD(5) [OF wf vw vv Some] Some t by auto
    have "pt_mem st' (entry_addr a (virt_index 12 w)) =
        (if virt_path w = virt_path v \<and> virt_index 12 w = virt_index 12 v then e
         else pt_mem st (entry_addr a (virt_index 12 w)))"
      using entry_addr_eq_iff [OF tree_wfD(4) [OF wf vw Some] page virt_index_lt virt_index_lt] at
      by (simp add: st')
    with Some tab [OF vw] show ?thesis
      by (cases "virt_path w = virt_path v \<and> virt_index 12 w = virt_index 12 v")
        (auto simp: translate_def Let_def)
  qed
qed

lemma table_attribute_bits:
  "bit (phys OR (if mmio then PAGE_TABLE_MMIO_ATTRIBUTES else PAGE_TABLE_ATTRIBUTES)) 0"
proof -
  have "bit (0xE7 :: u64) 0" "bit (0xFF :: u64) 0" by (simp_all add: bit_0)
  then show ?thesis by (simp add: bit_or_iff PAGE_TABLE_ATTRIBUTES_def PAGE_TABLE_MMIO_ATTRIBUTES_def)
qed

lemma set_page_mapping_ok:
  assumes wf: "tree_wf I root st" and v: "virt_index 39 v \<in> I"
    and ok: "set_page_mapping root v phys mmio st = Inr st'"
  shows "tree_wf I root st'"
    and "translate root v st' = Some phys"
    and "\<And>w. virt_index 39 w \<in> I \<Longrightarrow> virt_path w \<noteq> virt_path v \<or> virt_index 12 w \<noteq> virt_index 12 v \<Longrightarrow>
           translate root w st' = translate root w st"
    and "directories_ok I root st \<Longrightarrow> directories_ok I root st'"
proof -
  from ok obtain s1 t3 s2 t2 s3 t1 where al: "phys AND 4095 = 0"
    and d1: "descend root (virt_index 39 v) st = Inr (s1, t3)"
    and d2: "descend t3 (virt_index 30 v) s1 = Inr (s2, t2)"
    and d3: "descend t2 (virt_index 21 v) s2 = Inr (s3, t1)"
    and st': "st' = s3\<lparr>pt_mem := (pt_mem s3)(entry_addr t1 (virt_index 12 v) :=
        phys OR (if mmio then PAGE_TABLE_MMIO_ATTRIBUTES else PAGE_TABLE_ATTRIBUTES))\<rparr>"
    unfolding set_page_mapping_def by (auto simp: res_bind_eq_Inr split: if_splits)
  let ?e = "phys OR (if mmio then PAGE_TABLE_MMIO_ATTRIBUTES else PAGE_TABLE_ATTRIBUTES)"
  note vp = virt_path_valid [OF v]
  have 1: "tree_step I root st s1 \<and> table_of root [virt_index 39 v] s1 = Some t3"
    using descend_ok [OF wf, of "[]"] vp(2) d1 by simp
  have 2: "tree_step I root s1 s2 \<and> table_of root [virt_index 39 v, virt_index 30 v] s2 = Some t2"
    using descend_ok [of I root s1 "[virt_index 39 v]" "virt_index 30 v" t3] 1 vp(3) d2
    by (simp add: tree_step_def)
  have 3: "tree_step I root s2 s3 \<and> table_of root (virt_path v) s3 = Some t1"
    using descend_ok [of I root s2 "[virt_index 39 v, virt_index 30 v]" "virt_index 21 v" t2] 2 vp(4) d3
    by (simp add: tree_step_def virt_path_def)
  have step: "tree_step I root st s3" using 1 2 3 tree_step_trans by blast
  have wf3: "tree_wf I root s3" using step by (simp add: tree_step_def)
  note leaf = leaf_write [OF wf3 v conjunct2 [OF 3] st']
  show "tree_wf I root st'" by (rule leaf(1))
  have "4096 dvd unat phys"
  proof -
    have "unat (phys AND 4095) = unat phys mod 4096"
      using unat_and_mask [of phys 12] by (simp add: mask_eq_exp_minus_1)
    with al show ?thesis by (simp add: dvd_eq_mod_eq_0)
  qed
  then have "?e AND PAGE_ADDRESS_MASK = phys"
    by (intro aligned_mask) (simp_all add: attributes_masked)
  then show "translate root v st' = Some phys" using leaf(2) [OF v] table_attribute_bits by simp
  show "translate root w st' = translate root w st"
    if "virt_index 39 w \<in> I" "virt_path w \<noteq> virt_path v \<or> virt_index 12 w \<noteq> virt_index 12 v" for w
    using leaf(2) [OF that(1)] that step by (auto simp: tree_step_def)
  show "directories_ok I root st'" if "directories_ok I root st" using leaf(3) step that by (simp add: tree_step_def)
qed

lemma set_page_mapping_error:
  assumes wf: "tree_wf I root st" and v: "virt_index 39 v \<in> I"
    and err: "set_page_mapping root v phys mmio st = Inl e"
  shows "e = (if phys AND 4095 = 0 then Panic ''Out of physical memory''
              else Panic ''phys_address must be page-aligned'')"
proof (cases "phys AND 4095 = 0")
  case True
  have page_err: "e' = Panic ''Out of physical memory''"
    if "tree_wf I root s" "descend t i s = Inl e'" for s :: "'a paging_state_scheme" and t i e'
  proof -
    from that(2) have "kpage_alloc 1 s = Inl e'"
      by (auto simp: descend_def res_bind_eq_Inl Let_def split: if_splits)
    then show ?thesis
      using tree_wfD(1) [OF that(1)] by (auto simp: kpage_alloc_eq Let_def split: if_splits)
  qed
  note vp = virt_path_valid [OF v]
  from True err consider "descend root (virt_index 39 v) st = Inl e"
    | s1 t3 where "descend root (virt_index 39 v) st = Inr (s1, t3)" "descend t3 (virt_index 30 v) s1 = Inl e"
    | s1 t3 s2 t2 where "descend root (virt_index 39 v) st = Inr (s1, t3)"
        "descend t3 (virt_index 30 v) s1 = Inr (s2, t2)" "descend t2 (virt_index 21 v) s2 = Inl e"
    unfolding set_page_mapping_def by (fastforce simp: res_bind_eq_Inl)
  then have "e = Panic ''Out of physical memory''"
  proof cases
    case 1
    then show ?thesis using page_err [OF wf] by blast
  next
    case (2 s1 t3)
    have "tree_step I root st s1" using descend_ok [OF wf, of "[]"] vp(2) 2(1) by simp
    then show ?thesis using page_err [of s1] 2(2) by (simp add: tree_step_def)
  next
    case (3 s1 t3 s2 t2)
    have a: "tree_step I root st s1 \<and> table_of root [virt_index 39 v] s1 = Some t3"
      using descend_ok [OF wf, of "[]"] vp(2) 3(1) by simp
    have "tree_step I root s1 s2"
      using descend_ok [of I root s1 "[virt_index 39 v]" "virt_index 30 v" t3] a vp(3) 3(2)
      by (simp add: tree_step_def)
    then show ?thesis using page_err [of s2] 3(3) by (simp add: tree_step_def)
  qed
  with True show ?thesis by simp
next
  case False
  with err show ?thesis by (simp add: set_page_mapping_def)
qed

section \<open>Properties\<close>

text \<open>
  C3: \<^verbatim>\<open>set_page_mapping\<close> keeps the page tables a tree of distinct pages in use; afterwards the
  virtual page translates to the given frame and every other page translates as before. Directory entries get the
  attributes that the processor asks for: if it follows all entries of the tree with an address, and no others, it does so
  afterwards, and its walk gives these translations. The function fails only for an unaligned frame or when no page is
  left for a table.
\<close>

theorem set_page_mapping_translates:
  assumes "tree_wf I root st" and "virt_index 39 v \<in> I"
  shows "case set_page_mapping root v phys mmio st of
      Inr st' \<Rightarrow> tree_wf I root st' \<and> translate root v st' = Some phys \<and>
        (\<forall>w. virt_index 39 w \<in> I \<and> (virt_path w \<noteq> virt_path v \<or> virt_index 12 w \<noteq> virt_index 12 v) \<longrightarrow>
           translate root w st' = translate root w st) \<and>
        (directories_ok I root st \<longrightarrow> directories_ok I root st' \<and>
           (\<forall>w. virt_index 39 w \<in> I \<longrightarrow> processor_walk root w st' = translate root w st'))
    | Inl e \<Rightarrow> e = (if phys AND 4095 = 0 then Panic ''Out of physical memory''
                   else Panic ''phys_address must be page-aligned'')"
proof (cases "set_page_mapping root v phys mmio st")
  case (Inl e)
  with set_page_mapping_error [OF assms Inl] show ?thesis by simp
next
  case (Inr st')
  with set_page_mapping_ok [OF assms Inr] processor_walk_translate [of I root st'] show ?thesis by simp
qed

definition demo_paging :: "slab_id \<Rightarrow> paging_state" where
  "demo_paging owner = slab_state.extend (demo_slab owner) \<lparr>pt_mem = (\<lambda>_. 0), cr3_reg = 0x12000, frame_bytes = (\<lambda>_. 0)\<rparr>"

lemma demo_paging_kmem: "kmem_state.truncate (demo_paging owner) = demo_kmem"
  by (simp add: demo_paging_def demo_slab_def slab_state.extend_def kmem_state.extend_def
      kmem_state.truncate_def)

lemma demo_paging_tree: "tree_wf I 0x22000 (demo_paging owner)"
proof -
  have fields: "pt_mem (demo_paging owner) = (\<lambda>_. 0)" "hhdm_offset (demo_paging owner) = 0x10000"
    "kmem_start (demo_paging owner) = 0x20000"
    by (simp_all add: demo_paging_def demo_slab_def slab_state.extend_def kmem_state.extend_def demo_kmem_def)
  have "table_of 0x22000 p (demo_paging owner) = Some a \<longleftrightarrow> p = [] \<and> a = 0x22000" for p a
    by (cases p) (auto simp: fields next_table_def)
  moreover have "0x22000 \<in> used_pages (demo_paging owner)"
    using demo_page_used by (subst used_pages_truncate) (simp add: demo_paging_kmem)
  moreover have "kmem_wf (demo_paging owner)"
    using demo_kmem_wf by (subst kmem_wf_truncate) (simp add: demo_paging_kmem)
  moreover have "hhdm_ok (demo_paging owner)" by (simp add: hhdm_ok_def fields)
  ultimately show ?thesis by (simp add: tree_wf_def)
qed

lemma set_page_mapping_translates_witness:
  "directories_ok UNIV 0x22000 (demo_paging Inode_Slab) \<and>
   (case set_page_mapping 0x22000 0x400000 0x9000 False (demo_paging Inode_Slab) of
      Inr st' \<Rightarrow> tree_wf UNIV 0x22000 st' \<and> translate 0x22000 0x400000 st' = Some 0x9000 \<and>
        (\<forall>w. virt_index 39 w \<in> UNIV \<and>
             (virt_path w \<noteq> virt_path 0x400000 \<or> virt_index 12 w \<noteq> virt_index 12 0x400000) \<longrightarrow>
           translate 0x22000 w st' = translate 0x22000 w (demo_paging Inode_Slab)) \<and>
        (directories_ok UNIV 0x22000 (demo_paging Inode_Slab) \<longrightarrow> directories_ok UNIV 0x22000 st' \<and>
           (\<forall>w. virt_index 39 w \<in> UNIV \<longrightarrow> processor_walk 0x22000 w st' = translate 0x22000 w st'))
    | Inl e \<Rightarrow> e = (if 0x9000 AND (4095 :: u64) = 0 then Panic ''Out of physical memory''
                   else Panic ''phys_address must be page-aligned''))"
proof
  show "directories_ok UNIV 0x22000 (demo_paging Inode_Slab)"
    by (simp add: directories_ok_def demo_paging_def demo_slab_def slab_state.extend_def kmem_state.extend_def)
qed (rule set_page_mapping_translates [OF demo_paging_tree], simp)

end
