(* ===== verification/VfsTypes.thy ===== *)
theory VfsTypes
  imports Paging
begin

text \<open>
  The data of the virtual file system: \<^verbatim>\<open>kernel/src/fs/vfs.h\<close>, \<^verbatim>\<open>ramfs.h\<close> and \<^verbatim>\<open>exfat.h\<close>. Objects
  live in typed heaps indexed by address, whose addresses come from the slab allocators; \<open>0\<close> is the
  null pointer. An embedded \<^verbatim>\<open>struct list_head\<close> of members is the sequence of the members' addresses,
  \<^verbatim>\<open>list_add_tail\<close> appends and \<^verbatim>\<open>list_del\<close> removes the member, as theory \<open>KList\<close> proves of the links.
  Device drivers are reached through function pointers: \<open>file_operations\<close> is the record of those
  functions on the kernel's state, and an inode names its driver by a \<open>fops_id\<close> (\<open>Null_Fops\<close> is the null pointer).
\<close>

section \<open>Data\<close>

definition INODE_DIRECTORY :: u8 where "INODE_DIRECTORY = 0x61"
definition INODE_DEVICE :: u8 where "INODE_DEVICE = 0x62"
definition INODE_REGULAR_FILE :: u8 where "INODE_REGULAR_FILE = 0x63"

lemma inode_types_distinct [simp]:
  "INODE_DIRECTORY \<noteq> INODE_DEVICE" "INODE_DIRECTORY \<noteq> INODE_REGULAR_FILE"
  "INODE_DEVICE \<noteq> INODE_DIRECTORY" "INODE_DEVICE \<noteq> INODE_REGULAR_FILE"
  "INODE_REGULAR_FILE \<noteq> INODE_DIRECTORY" "INODE_REGULAR_FILE \<noteq> INODE_DEVICE"
  by (simp_all add: INODE_DIRECTORY_def INODE_DEVICE_def INODE_REGULAR_FILE_def)

abbreviation DENTRY_MAX_NAME_LENGTH :: nat where "DENTRY_MAX_NAME_LENGTH \<equiv> 63"

datatype fs_ops = Ramfs_Ops | Sysfs_Ops | Exfat_Ops

datatype fops_id = Null_Fops | Tty_Fops | Nvme_Fops | Nvmepart_Fops | Zero_Fops

text \<open>
  The anonymous union of \<^verbatim>\<open>struct inode\<close>: the member written last. Reading another member is an
  \<open>Invalid_Access\<close> of the model (its bytes are those of a different type).
\<close>

datatype inode_union = Dir_Data "u64 list" | Dev_Data u16 u16 fops_id u64 | File_Data u64

record inode =
  i_type :: u8
  i_superblock :: u64
  i_private :: u64
  i_data :: inode_union

record dentry =
  d_name :: "u8 list"
  d_mounted_inode :: u64
  d_inode :: u64

record superblock =
  sb_private :: u64
  sb_ops :: fs_ops
  sb_device_fops :: fops_id
  sb_device :: u64

record file_obj =
  f_fd :: u32
  f_inode :: u64
  f_offset :: u64

record ramfs_inode =
  ri_clusters :: "u64 list"
  ri_size :: u64

record exfat_file_cluster =
  ec_byte_offset :: u32
  ec_device_offset :: u64

record exfat_inode =
  ei_start_lba :: u32
  ei_load_needed :: bool
  ei_clusters :: "u64 list"

record exfat_superblock =
  es_fat_offset :: u32
  es_fat_length :: u32
  es_cluster_heap_offset :: u32
  es_first_cluster_of_root_directory :: u32
  es_bytes_per_sector_exponent :: u8
  es_sectors_per_cluster_exponent :: u8

record vfs_state = paging_state +
  inodes :: "u64 \<Rightarrow> inode"
  dentries :: "u64 \<Rightarrow> dentry"
  filps :: "u64 \<Rightarrow> file_obj"
  superblocks :: "u64 \<Rightarrow> superblock"
  ramfs_inodes :: "u64 \<Rightarrow> ramfs_inode"
  ramfs_clusters :: "u64 \<Rightarrow> u8 list"
  exfat_inodes :: "u64 \<Rightarrow> exfat_inode"
  exfat_clusters :: "u64 \<Rightarrow> exfat_file_cluster"
  exfat_superblocks :: "u64 \<Rightarrow> exfat_superblock"

text \<open>
  Statically allocated objects have fixed addresses in the kernel image, outside the pages that
  \<^verbatim>\<open>kpage_alloc\<close> manages.
\<close>

definition vfs_root_inode :: u64 where "vfs_root_inode = 0xffffffff80100000"
definition vfs_root_superblock :: u64 where "vfs_root_superblock = 0xffffffff80100100"

section \<open>Drivers\<close>

text \<open>
  \<^verbatim>\<open>struct file_operations\<close>: a write gets the device, the buffer's bytes, the offset and the length;
  a read gets the destination buffer and returns it as the driver leaves it. The result is an
  \<^verbatim>\<open>ssize_t\<close> as a 64-bit word, with \<open>-1\<close> for an error.
\<close>

record 's file_operations =
  fo_write :: "u64 \<Rightarrow> u8 list \<Rightarrow> u64 \<Rightarrow> u64 \<Rightarrow> 's \<Rightarrow> ('s \<times> u64) res"
  fo_read :: "u64 \<Rightarrow> u8 list \<Rightarrow> u64 \<Rightarrow> u64 \<Rightarrow> 's \<Rightarrow> ('s \<times> u8 list \<times> u64) res"

section \<open>Updates of one object\<close>

definition upd_inode :: "u64 \<Rightarrow> (inode \<Rightarrow> inode) \<Rightarrow> 'z vfs_state_scheme \<Rightarrow> 'z vfs_state_scheme" where
  "upd_inode a f st = st\<lparr>inodes := (inodes st)(a := f (inodes st a))\<rparr>"

definition upd_dentry :: "u64 \<Rightarrow> (dentry \<Rightarrow> dentry) \<Rightarrow> 'z vfs_state_scheme \<Rightarrow> 'z vfs_state_scheme" where
  "upd_dentry a f st = st\<lparr>dentries := (dentries st)(a := f (dentries st a))\<rparr>"

definition upd_file :: "u64 \<Rightarrow> (file_obj \<Rightarrow> file_obj) \<Rightarrow> 'z vfs_state_scheme \<Rightarrow> 'z vfs_state_scheme" where
  "upd_file a f st = st\<lparr>filps := (filps st)(a := f (filps st a))\<rparr>"

definition upd_ramfs_inode :: "u64 \<Rightarrow> (ramfs_inode \<Rightarrow> ramfs_inode) \<Rightarrow> 'z vfs_state_scheme \<Rightarrow> 'z vfs_state_scheme" where
  "upd_ramfs_inode a f st = st\<lparr>ramfs_inodes := (ramfs_inodes st)(a := f (ramfs_inodes st a))\<rparr>"

definition upd_exfat_inode :: "u64 \<Rightarrow> (exfat_inode \<Rightarrow> exfat_inode) \<Rightarrow> 'z vfs_state_scheme \<Rightarrow> 'z vfs_state_scheme" where
  "upd_exfat_inode a f st = st\<lparr>exfat_inodes := (exfat_inodes st)(a := f (exfat_inodes st a))\<rparr>"

text \<open>The list of a directory's dentries.\<close>

definition dir_entries :: "inode \<Rightarrow> u64 list res" where
  "dir_entries i = (case i_data i of Dir_Data ds \<Rightarrow> Inr ds | _ \<Rightarrow> Inl Invalid_Access)"

definition dir_append :: "u64 \<Rightarrow> u64 \<Rightarrow> 'z vfs_state_scheme \<Rightarrow> 'z vfs_state_scheme res" where
  "dir_append dir dentry st =
     res_bind (dir_entries (inodes st dir)) (\<lambda>ds.
       Inr (upd_inode dir (\<lambda>i. i\<lparr>i_data := Dir_Data (ds @ [dentry])\<rparr>) st))"

text \<open>
  The C string in a byte array, and \<^verbatim>\<open>strcpy\<close> of a string into an array: running over the end of the
  array is an \<open>Invalid_Access\<close>.
\<close>

definition array_string :: "u8 list \<Rightarrow> u8 list res" where
  "array_string xs = (if 0 \<in> set xs then Inr (takeWhile (\<lambda>c. c \<noteq> 0) xs) else Inl Invalid_Access)"

definition array_strcpy :: "u8 list \<Rightarrow> u8 list \<Rightarrow> u8 list res" where
  "array_strcpy dst s = blit dst 0 (s @ [0]) 0 (Suc (length s))"

lemma array_strcpy_ok:
  assumes "length s < length dst"
  shows "array_strcpy dst s = Inr (s @ 0 # drop (Suc (length s)) dst)"
  using assms by (simp add: array_strcpy_def blit_def)

lemma array_strcpy_overflow:
  "length dst \<le> length s \<Longrightarrow> array_strcpy dst s = Inl Invalid_Access"
  by (simp add: array_strcpy_def blit_def)

lemma array_string_strcpy:
  assumes "array_strcpy dst s = Inr r" and "0 \<notin> set s"
  shows "array_string r = Inr s"
proof -
  from assms(1) have "length s < length dst" by (cases "length s < length dst") (simp_all add: array_strcpy_overflow)
  with assms have r: "r = s @ 0 # drop (Suc (length s)) dst" by (simp add: array_strcpy_ok)
  have "takeWhile (\<lambda>c. c \<noteq> 0) r = s"
    unfolding r using assms(2) by (subst takeWhile_append2) auto
  then show ?thesis by (simp add: array_string_def r)
qed

lemma array_string_nonzero: "array_string xs = Inr s \<Longrightarrow> 0 \<notin> set s"
  by (auto simp: array_string_def split: if_splits dest: set_takeWhileD)

text \<open>Heap updates leave the layers below alone.\<close>

lemma slab_wf_truncate: "slab_wf st = slab_wf (slab_state.truncate st)"
  by (simp add: slab_wf_def slab_state.truncate_def kmem_wf_def used_pages_def page_addr_def)

lemma slab_live_truncate: "slab_live sid st = slab_live sid (slab_state.truncate st)"
  by (simp add: slab_live_def slab_state.truncate_def)

lemma vfs_update_truncate [simp]:
  "slab_state.truncate (upd_inode a f st) = slab_state.truncate st"
  "slab_state.truncate (upd_dentry a g st) = slab_state.truncate st"
  "slab_state.truncate (upd_file a h st) = slab_state.truncate st"
  "slab_state.truncate (upd_ramfs_inode a k st) = slab_state.truncate st"
  "slab_state.truncate (upd_exfat_inode a l st) = slab_state.truncate st"
  "slab_state.truncate (st\<lparr>ramfs_clusters := c\<rparr>) = slab_state.truncate st"
  by (simp_all add: slab_state.truncate_def upd_inode_def upd_dentry_def upd_file_def
      upd_ramfs_inode_def upd_exfat_inode_def)

lemma slab_more_fields:
  assumes "slab_state.more st' = slab_state.more st"
  shows "inodes st' = inodes st" "dentries st' = dentries st" "filps st' = filps st"
    "superblocks st' = superblocks st" "ramfs_inodes st' = ramfs_inodes st"
    "ramfs_clusters st' = ramfs_clusters st" "exfat_inodes st' = exfat_inodes st"
    "exfat_clusters st' = exfat_clusters st" "exfat_superblocks st' = exfat_superblocks st"
    "frame_bytes st' = frame_bytes st" "vfs_state.more st' = vfs_state.more st"
  using assms by (cases st; cases st'; simp)+

text \<open>A small concrete state, for the examples of the file system theories.\<close>

definition demo_vfs :: "slab_id \<Rightarrow> vfs_state" where
  "demo_vfs owner = paging_state.extend (demo_paging owner)
     \<lparr>inodes = (\<lambda>_. \<lparr>i_type = INODE_REGULAR_FILE, i_superblock = 0, i_private = 0, i_data = File_Data 0\<rparr>),
      dentries = (\<lambda>_. \<lparr>d_name = replicate 64 0, d_mounted_inode = 0, d_inode = 0\<rparr>),
      filps = (\<lambda>_. \<lparr>f_fd = 0, f_inode = 0, f_offset = 0\<rparr>),
      superblocks = (\<lambda>_. \<lparr>sb_private = 0, sb_ops = Ramfs_Ops, sb_device_fops = Zero_Fops, sb_device = 0\<rparr>),
      ramfs_inodes = (\<lambda>_. \<lparr>ri_clusters = [], ri_size = 0\<rparr>),
      ramfs_clusters = (\<lambda>_. replicate 128 0),
      exfat_inodes = (\<lambda>_. \<lparr>ei_start_lba = 0, ei_load_needed = False, ei_clusters = []\<rparr>),
      exfat_clusters = (\<lambda>_. \<lparr>ec_byte_offset = 0, ec_device_offset = 0\<rparr>),
      exfat_superblocks = (\<lambda>_. \<lparr>es_fat_offset = 0, es_fat_length = 0, es_cluster_heap_offset = 0,
         es_first_cluster_of_root_directory = 0, es_bytes_per_sector_exponent = 0,
         es_sectors_per_cluster_exponent = 0\<rparr>)\<rparr>"

lemma demo_vfs_truncate: "slab_state.truncate (demo_vfs owner) = demo_slab owner"
  by (simp add: demo_vfs_def demo_paging_def demo_slab_def slab_state.extend_def kmem_state.extend_def
      paging_state.extend_def slab_state.truncate_def)

lemma demo_vfs_slab: "slab_wf (demo_vfs owner)" "slab_live sid (demo_vfs owner) = slab_live sid (demo_slab owner)"
  by (subst slab_wf_truncate slab_live_truncate; simp add: demo_vfs_truncate demo_slab_wf)+

end
