(* ===== verification/RamFs.thy ===== *)
theory RamFs
  imports VfsTypes
begin

text \<open>
  \<^verbatim>\<open>kernel/src/fs/ramfs.c\<close>: the in-memory file system. A file is a list of clusters of 128 bytes and
  a size; offsets and lengths are 64-bit words with the source's wrap-around. The specification of
  a file is the byte sequence \<open>ramfs_content\<close>: what reading, writing and resizing do is stated on it.
\<close>

abbreviation RAMFS_CLUSTER_CAPACITY :: u64 where "RAMFS_CLUSTER_CAPACITY \<equiv> 128"

definition RAMFS_MOUNT_NOT_IMPLEMENTED :: u64 where "RAMFS_MOUNT_NOT_IMPLEMENTED = 3"

section \<open>Operations\<close>

definition ramfs_init :: "'z vfs_state_scheme \<Rightarrow> 'z vfs_state_scheme" where
  "ramfs_init st = slab_allocator_init Ramfs_Cluster_Slab (slab_allocator_init Ramfs_Inode_Slab st)"

definition ramfs_mount :: "u64 \<Rightarrow> u64 \<Rightarrow> 'z vfs_state_scheme \<Rightarrow> ('z vfs_state_scheme \<times> u64) res" where
  "ramfs_mount device_inode mountpoint st = Inr (st, RAMFS_MOUNT_NOT_IMPLEMENTED)"

definition ramfs_lookup :: "u64 \<Rightarrow> u64 \<Rightarrow> 'z vfs_state_scheme \<Rightarrow> 'z vfs_state_scheme res" where
  "ramfs_lookup file_inode dentry st = Inr st"

definition ramfs_create_file_inode ::
  "u64 \<Rightarrow> u64 \<Rightarrow> u64 \<Rightarrow> 'z vfs_state_scheme \<Rightarrow> ('z vfs_state_scheme \<times> u64) res" where
  "ramfs_create_file_inode parent_dir out_inode out_dentry st =
     (let st1 = upd_inode out_inode (\<lambda>i. i\<lparr>i_type := INODE_REGULAR_FILE,
                  i_superblock := i_superblock (inodes st parent_dir), i_data := Dir_Data []\<rparr>) st;
          st2 = upd_dentry out_dentry (\<lambda>d. d\<lparr>d_inode := out_inode, d_mounted_inode := 0\<rparr>) st1
      in res_bind (slab_alloc Ramfs_Inode_Slab st2) (\<lambda>(st3, ramfs_inode).
         let st4 = upd_ramfs_inode ramfs_inode (\<lambda>r. r\<lparr>ri_clusters := []\<rparr>) st3;
             st5 = upd_inode out_inode (\<lambda>i. i\<lparr>i_private := ramfs_inode\<rparr>) st4
         in res_bind (dir_append parent_dir out_dentry st5) (\<lambda>st6. Inr (st6, 0))))"

definition ramfs_create_dir_inode ::
  "u64 \<Rightarrow> u64 \<Rightarrow> u64 \<Rightarrow> 'z vfs_state_scheme \<Rightarrow> ('z vfs_state_scheme \<times> u64) res" where
  "ramfs_create_dir_inode parent_dir out_inode out_dentry st =
     (let st1 = upd_inode out_inode (\<lambda>i. i\<lparr>i_type := INODE_DIRECTORY,
                  i_superblock := i_superblock (inodes st parent_dir), i_data := Dir_Data []\<rparr>) st;
          st2 = upd_dentry out_dentry (\<lambda>d. d\<lparr>d_inode := out_inode, d_mounted_inode := 0\<rparr>) st1
      in res_bind (dir_append parent_dir out_dentry st2) (\<lambda>st3. Inr (st3, 0)))"

definition ramfs_create_dev_inode ::
  "u64 \<Rightarrow> u16 \<Rightarrow> u16 \<Rightarrow> fops_id \<Rightarrow> u64 \<Rightarrow> u64 \<Rightarrow> u64 \<Rightarrow> 'z vfs_state_scheme \<Rightarrow> ('z vfs_state_scheme \<times> u64) res" where
  "ramfs_create_dev_inode parent_dir device_type device_number device_fops device out_inode out_dentry st =
     (let st1 = upd_inode out_inode (\<lambda>i. i\<lparr>i_type := INODE_DEVICE,
                  i_superblock := i_superblock (inodes st parent_dir),
                  i_data := Dev_Data device_type device_number device_fops device\<rparr>) st;
          st2 = upd_dentry out_dentry (\<lambda>d. d\<lparr>d_inode := out_inode, d_mounted_inode := 0\<rparr>) st1
      in res_bind (dir_append parent_dir out_dentry st2) (\<lambda>st3. Inr (st3, 0)))"

text \<open>
  The copy loops run over the cluster list; \<open>cluster_start\<close> is \<^verbatim>\<open>cluster_start_offset\<close>. A read leaves
  the loop at the end of the list. A write has no such test: past the list it would use the list
  head as a cluster.
\<close>

fun ramfs_read_loop ::
  "(u64 \<Rightarrow> u8 list) \<Rightarrow> u64 \<Rightarrow> u64 \<Rightarrow> u64 list \<Rightarrow> u64 \<Rightarrow> u64 \<Rightarrow> u8 list \<Rightarrow> (u8 list \<times> u64) res" where
  "ramfs_read_loop data read_start read_end [] cluster_start bytes_read buffer = Inr (buffer, bytes_read)"
| "ramfs_read_loop data read_start read_end (c # cs) cluster_start bytes_read buffer =
     (if cluster_start < read_end
      then (let cluster_end = cluster_start + RAMFS_CLUSTER_CAPACITY
            in if read_start < cluster_end
               then (let range_start = (if read_start > cluster_start then read_start else cluster_start);
                         range_end = (if read_end < cluster_end then read_end else cluster_end)
                     in res_bind (blit buffer (unat (range_start - read_start)) (data c)
                                    (unat (range_start - cluster_start)) (unat (range_end - range_start)))
                        (\<lambda>buffer'. ramfs_read_loop data read_start read_end cs cluster_end
                           (bytes_read + (range_end - range_start)) buffer'))
               else ramfs_read_loop data read_start read_end cs cluster_end bytes_read buffer)
      else Inr (buffer, bytes_read))"

definition ramfs_read ::
  "u64 \<Rightarrow> u8 list \<Rightarrow> u64 \<Rightarrow> 'z vfs_state_scheme \<Rightarrow> ('z vfs_state_scheme \<times> u8 list \<times> u64) res" where
  "ramfs_read filp buffer len st =
     (let f = filps st filp;
          r = ramfs_inodes st (i_private (inodes st (f_inode f)));
          read_start = f_offset f;
          read_end = (if f_offset f + len < ri_size r then f_offset f + len else ri_size r)
      in if read_end = read_start then Inr (st, buffer, 0)
         else res_bind (ramfs_read_loop (ramfs_clusters st) read_start read_end (ri_clusters r) 0 0 buffer)
           (\<lambda>(buffer', bytes_read).
             Inr (upd_file filp (\<lambda>f. f\<lparr>f_offset := f_offset f + bytes_read\<rparr>) st, buffer', bytes_read)))"

text \<open>
  \<^verbatim>\<open>ramfs_set_size\<close>: the first loop makes at least one step; it walks over existing clusters and then
  appends zeroed ones. \<open>rest\<close> is the list from \<^verbatim>\<open>ramfs_clusters_le\<close> to the end; the offset counts in
  natural numbers (its 64-bit counter cannot wrap before memory runs out).
\<close>

function ramfs_grow ::
  "u64 \<Rightarrow> nat \<Rightarrow> u64 list \<Rightarrow> nat \<Rightarrow> 'z vfs_state_scheme \<Rightarrow> ('z vfs_state_scheme \<times> u64 list) res" where
  "ramfs_grow inode n rest start st =
     res_bind
       (case rest of
          [] \<Rightarrow> res_bind (slab_alloc Ramfs_Cluster_Slab st) (\<lambda>(st1, cluster).
                  Inr ((upd_ramfs_inode inode (\<lambda>r. r\<lparr>ri_clusters := ri_clusters r @ [cluster]\<rparr>) st1)
                         \<lparr>ramfs_clusters := (ramfs_clusters st1)(cluster := replicate 128 0)\<rparr>, []))
        | c # cs \<Rightarrow> Inr (st, cs))
       (\<lambda>(st2, rest2). if start + 128 < n then ramfs_grow inode n rest2 (start + 128) st2
                        else Inr (st2, rest2))"
  by pat_completeness auto
termination
  by (relation "measure (\<lambda>(inode, n, rest, start, st). n - start)") auto

declare ramfs_grow.simps [simp del]

definition ramfs_drop_cluster :: "u64 \<Rightarrow> u64 \<Rightarrow> 'z vfs_state_scheme \<Rightarrow> 'z vfs_state_scheme res" where
  "ramfs_drop_cluster inode cluster st =
     slab_free Ramfs_Cluster_Slab cluster
       (upd_ramfs_inode inode (\<lambda>r. r\<lparr>ri_clusters := remove1 cluster (ri_clusters r)\<rparr>) st)"

fun ramfs_drop_clusters :: "u64 \<Rightarrow> u64 list \<Rightarrow> 'z vfs_state_scheme \<Rightarrow> 'z vfs_state_scheme res" where
  "ramfs_drop_clusters inode [] st = Inr st"
| "ramfs_drop_clusters inode (c # cs) st =
     res_bind (ramfs_drop_cluster inode c st) (ramfs_drop_clusters inode cs)"

definition ramfs_set_size :: "u64 \<Rightarrow> u64 \<Rightarrow> 'z vfs_state_scheme \<Rightarrow> ('z vfs_state_scheme \<times> u64) res" where
  "ramfs_set_size filp new_size st =
     (let inode = i_private (inodes st (f_inode (filps st filp)))
      in res_bind (ramfs_grow inode (unat new_size) (ri_clusters (ramfs_inodes st inode)) 0 st) (\<lambda>(st1, rest).
         res_bind (ramfs_drop_clusters inode rest st1) (\<lambda>st2.
           Inr (upd_ramfs_inode inode (\<lambda>r. r\<lparr>ri_size := new_size\<rparr>) st2, 0))))"

fun ramfs_write_loop ::
  "u64 \<Rightarrow> u64 \<Rightarrow> u8 list \<Rightarrow> u64 list \<Rightarrow> u64 \<Rightarrow> (u64 \<Rightarrow> u8 list) \<Rightarrow> (u64 \<Rightarrow> u8 list) res" where
  "ramfs_write_loop write_start write_end buffer [] cluster_start data =
     (if cluster_start < write_end then Inl Invalid_Access else Inr data)"
| "ramfs_write_loop write_start write_end buffer (c # cs) cluster_start data =
     (if cluster_start < write_end
      then (let cluster_end = cluster_start + RAMFS_CLUSTER_CAPACITY
            in if write_start < cluster_end
               then (let range_start = (if write_start > cluster_start then write_start else cluster_start);
                         range_end = (if write_end < cluster_end then write_end else cluster_end)
                     in res_bind (blit (data c) (unat (range_start - cluster_start)) buffer
                                    (unat (range_start - write_start)) (unat (range_end - range_start)))
                        (\<lambda>bytes. ramfs_write_loop write_start write_end buffer cs cluster_end
                           (data(c := bytes))))
               else ramfs_write_loop write_start write_end buffer cs cluster_end data)
      else Inr data)"

definition ramfs_write ::
  "u64 \<Rightarrow> u8 list \<Rightarrow> u64 \<Rightarrow> 'z vfs_state_scheme \<Rightarrow> ('z vfs_state_scheme \<times> u64) res" where
  "ramfs_write filp buffer len st =
     (if len = 0 then Inr (st, 0)
      else let f = filps st filp;
               inode = i_private (inodes st (f_inode f));
               write_start = f_offset f;
               write_end = f_offset f + len
           in res_bind (if write_end > ri_size (ramfs_inodes st inode)
                        then res_bind (ramfs_set_size filp write_end st) (\<lambda>(st1, r). Inr st1)
                        else Inr st)
              (\<lambda>st1. res_bind (ramfs_write_loop write_start write_end buffer
                                  (ri_clusters (ramfs_inodes st1 inode)) 0 (ramfs_clusters st1))
                       (\<lambda>data. Inr (st1\<lparr>ramfs_clusters := data\<rparr>, len))))"

section \<open>The copy loops\<close>

text \<open>
  \<open>raw_bytes\<close> is the concatenation of a list of clusters. The loop over the clusters from offset \<open>k\<close>
  on moves exactly the bytes of the range that lie at or after \<open>k\<close>.
\<close>

definition raw_bytes :: "(u64 \<Rightarrow> u8 list) \<Rightarrow> u64 list \<Rightarrow> u8 list" where
  "raw_bytes data cs = concat (map data cs)"

definition clusters_ok :: "(u64 \<Rightarrow> u8 list) \<Rightarrow> u64 list \<Rightarrow> bool" where
  "clusters_ok data cs \<longleftrightarrow> distinct cs \<and> (\<forall>c \<in> set cs. length (data c) = 128)"

lemma raw_bytes_simps [simp]:
  "raw_bytes data [] = []" "raw_bytes data (c # cs) = data c @ raw_bytes data cs"
  "raw_bytes data (cs @ ds) = raw_bytes data cs @ raw_bytes data ds"
  by (simp_all add: raw_bytes_def)

lemma raw_bytes_length: "clusters_ok data cs \<Longrightarrow> length (raw_bytes data cs) = 128 * length cs"
  by (induction cs) (auto simp: clusters_ok_def)

lemma clusters_ok_Cons:
  "clusters_ok data (c # cs) \<longleftrightarrow> c \<notin> set cs \<and> length (data c) = 128 \<and> clusters_ok data cs"
  by (auto simp: clusters_ok_def)

lemma raw_bytes_cong: "(\<And>c. c \<in> set cs \<Longrightarrow> data c = data' c) \<Longrightarrow> raw_bytes data cs = raw_bytes data' cs"
  by (induction cs) auto

text \<open>The offsets of one step, as natural numbers.\<close>

lemma cluster_step:
  fixes lo hi k :: u64
  assumes "lo < hi" and "k < hi" and "unat k + 128 < 2 ^ 64"
  defines "s \<equiv> if lo > k then lo else k"
    and "t \<equiv> if hi < k + 128 then hi else k + 128"
  shows "unat (k + 128) = unat k + 128"
    and "lo < k + 128 \<Longrightarrow> unat (s - lo) = max (unat lo) (unat k) - unat lo"
    and "lo < k + 128 \<Longrightarrow> unat (s - k) = max (unat lo) (unat k) - unat k"
    and "lo < k + 128 \<Longrightarrow> unat (t - s) = min (unat hi) (unat k + 128) - max (unat lo) (unat k)"
    and "lo < k + 128 \<Longrightarrow> max (unat lo) (unat k) < min (unat hi) (unat k + 128)"
proof -
  show k: "unat (k + 128) = unat k + 128" using assms(3) by (subst unat_add_no_wrap) simp_all
  have s: "unat s = max (unat lo) (unat k)" by (auto simp: s_def word_less_nat_alt)
  have t: "unat t = min (unat hi) (unat k + 128)" using k by (auto simp: t_def word_less_nat_alt)
  have "lo \<le> s" "k \<le> s" by (auto simp: s_def)
  then show "unat (s - lo) = max (unat lo) (unat k) - unat lo"
    and "unat (s - k) = max (unat lo) (unat k) - unat k"
    using s by (simp_all add: unat_sub_no_wrap)
  show lt: "max (unat lo) (unat k) < min (unat hi) (unat k + 128)" if "lo < k + 128"
    using that assms(1,2) k by (auto simp: word_less_nat_alt)
  show "unat (t - s) = min (unat hi) (unat k + 128) - max (unat lo) (unat k)" if "lo < k + 128"
    using lt [OF that] s t by (subst unat_sub_no_wrap) (auto simp: word_le_nat_alt)
qed

lemma nth_append_128:
  "length xs = 128 \<Longrightarrow> (xs @ ys) ! j = (if j < 128 then xs ! j else ys ! (j - 128))"
  by (simp add: nth_append)

lemma ramfs_read_loop_ok:
  assumes "clusters_ok data cs" and "lo < hi" and "unat hi \<le> unat k + 128 * length cs"
    and "unat k + 128 * length cs < 2 ^ 64" and "unat hi - unat lo \<le> length buffer"
  shows "\<exists>buffer'. ramfs_read_loop data lo hi cs k br buffer =
      Inr (buffer', br + of_nat (unat hi - max (unat lo) (unat k))) \<and>
    length buffer' = length buffer \<and>
    (\<forall>i < length buffer. buffer' ! i =
       (if max (unat lo) (unat k) \<le> unat lo + i \<and> unat lo + i < unat hi
        then raw_bytes data cs ! (unat lo + i - unat k) else buffer ! i))"
  using assms
proof (induction data lo hi cs k br buffer rule: ramfs_read_loop.induct)
  case (1 data lo hi k br buffer)
  then have "unat hi - max (unat lo) (unat k) = 0" by simp
  with 1 show ?case by auto
next
  case (2 data lo hi c cs k br buffer)
  show ?case
  proof (cases "k < hi")
    case False
    then have "unat hi - max (unat lo) (unat k) = 0" by (simp add: word_less_nat_alt)
    with False show ?thesis by (auto simp: word_less_nat_alt)
  next
    case k: True
    have room: "unat k + 128 < 2 ^ 64" using "2.prems"(4) by simp
    note st = cluster_step [OF "2.prems"(2) k room]
    have ok: "clusters_ok data cs" "length (data c) = 128"
      using "2.prems"(1) by (simp_all add: clusters_ok_Cons)
    have hi: "unat hi \<le> unat (k + 128) + 128 * length cs" and end64: "unat (k + 128) + 128 * length cs < 2 ^ 64"
      using "2.prems"(3,4) st(1) by simp_all
    show ?thesis
    proof (cases "lo < k + 128")
      case in_range: True
      let ?s = "if lo > k then lo else k" and ?t = "if hi < k + 128 then hi else k + 128"
      let ?lo = "max (unat lo) (unat k)" and ?hi = "min (unat hi) (unat k + 128)"
      let ?buf = "take (?lo - unat lo) buffer @ take (?hi - ?lo) (drop (?lo - unat k) (data c)) @
                    drop (?hi - unat lo) buffer"
      note w = st(2-5) [OF in_range]
      have fits: "?lo - unat lo + (?hi - ?lo) \<le> length buffer" "?lo - unat k + (?hi - ?lo) \<le> length (data c)"
        using w(4) "2.prems"(5) ok(2) by auto
      have b: "blit buffer (unat (?s - lo)) (data c) (unat (?s - k)) (unat (?t - ?s)) = Inr ?buf"
        using fits w(4) unfolding w(1-3) by (subst blit_ok) simp_all
      have len: "length ?buf = length buffer" using blit_length [OF b] .
      have nth: "?buf ! i = (if ?lo \<le> unat lo + i \<and> unat lo + i < ?hi
          then data c ! (unat lo + i - unat k) else buffer ! i)" if "i < length buffer" for i
        using blit_nth [OF b that] w(4) unfolding w(1-3) by (auto intro!: arg_cong2 [of _ _ _ _ nth])
      have bl: "unat hi - unat lo \<le> length ?buf" unfolding len by (rule "2.prems"(5))
      from "2.IH"(1) [OF k refl in_range refl refl b ok(1) "2.prems"(2) hi end64 bl]
      obtain buf' where r: "ramfs_read_loop data lo hi cs (k + 128) (br + (?t - ?s)) ?buf =
          Inr (buf', br + (?t - ?s) + of_nat (unat hi - max (unat lo) (unat (k + 128))))"
        and len': "length buf' = length ?buf"
        and nth': "\<forall>i < length ?buf. buf' ! i =
          (if max (unat lo) (unat (k + 128)) \<le> unat lo + i \<and> unat lo + i < unat hi
           then raw_bytes data cs ! (unat lo + i - unat (k + 128)) else ?buf ! i)" by blast
      have eq: "ramfs_read_loop data lo hi (c # cs) k br buffer =
          ramfs_read_loop data lo hi cs (k + 128) (br + (?t - ?s)) ?buf"
        using k in_range b by (simp add: Let_def)
      have count: "br + (?t - ?s) + of_nat (unat hi - max (unat lo) (unat (k + 128))) =
          br + of_nat (unat hi - ?lo)"
      proof -
        have "?t - ?s = of_nat (?hi - ?lo)" using arg_cong [OF w(3), of "of_nat :: nat \<Rightarrow> u64"] by (simp only: of_nat_unat ucast_id)
        moreover have "?hi - ?lo + (unat hi - max (unat lo) (unat k + 128)) = unat hi - ?lo"
          using w(4) by auto
        then have "of_nat (?hi - ?lo) + of_nat (unat hi - max (unat lo) (unat k + 128)) = (of_nat (unat hi - ?lo) :: u64)"
          by (simp only: of_nat_add [symmetric])
        ultimately show ?thesis unfolding st(1) by (simp only: add.assoc)
      qed
      have "buf' ! i = (if ?lo \<le> unat lo + i \<and> unat lo + i < unat hi
           then raw_bytes data (c # cs) ! (unat lo + i - unat k) else buffer ! i)"
        if "i < length buffer" for i
      proof -
        have i: "i < length ?buf" using that len by simp
        consider "unat lo + i < unat k" | "unat k \<le> unat lo + i" "unat lo + i < unat k + 128"
          | "unat k + 128 \<le> unat lo + i" by linarith
        then show ?thesis
        proof cases
          case 1
          then show ?thesis using nth' [rule_format, OF i] nth [OF that] unfolding st(1) by simp
        next
          case 2
          then have "unat lo + i - unat k < 128" by simp
          then show ?thesis using 2 nth' [rule_format, OF i] nth [OF that] ok(2) unfolding st(1)
            by (simp add: nth_append_128)
        next
          case 3
          then have "\<not> unat lo + i - unat k < 128" by simp
          then show ?thesis using 3 nth' [rule_format, OF i] nth [OF that] ok(2) unfolding st(1)
            by (simp add: nth_append_128)
        qed
      qed
      then show ?thesis unfolding eq r count using len len' by auto
    next
      case False
      then have ge: "unat k + 128 \<le> unat lo" using st(1) by (simp add: word_less_nat_alt)
      from "2.IH"(2) [OF k refl False ok(1) "2.prems"(2) hi end64 "2.prems"(5)]
      show ?thesis
        using k False ge ok(2) st(1) by (auto simp: nth_append_128 max_def)
    qed
  qed
qed

lemma ramfs_write_loop_ok:
  assumes "clusters_ok data cs" and "lo < hi" and "unat hi \<le> unat k + 128 * length cs"
    and "unat k + 128 * length cs < 2 ^ 64" and "unat hi - unat lo \<le> length buffer"
  shows "\<exists>data'. ramfs_write_loop lo hi buffer cs k data = Inr data' \<and>
    clusters_ok data' cs \<and> (\<forall>c. c \<notin> set cs \<longrightarrow> data' c = data c) \<and>
    (\<forall>j < 128 * length cs. raw_bytes data' cs ! j =
       (if unat lo \<le> unat k + j \<and> unat k + j < unat hi then buffer ! (unat k + j - unat lo)
        else raw_bytes data cs ! j))"
  using assms
proof (induction lo hi buffer cs k data rule: ramfs_write_loop.induct)
  case (1 lo hi buffer k data)
  then have "\<not> k < hi" by (simp add: word_less_nat_alt)
  with 1 show ?case by simp
next
  case (2 lo hi buffer c cs k data)
  show ?case
  proof (cases "k < hi")
    case False
    with "2.prems"(1) show ?thesis by (auto simp: word_less_nat_alt)
  next
    case k: True
    have room: "unat k + 128 < 2 ^ 64" using "2.prems"(4) by simp
    note st = cluster_step [OF "2.prems"(2) k room]
    have ok: "clusters_ok data cs" "length (data c) = 128" "c \<notin> set cs"
      using "2.prems"(1) by (simp_all add: clusters_ok_Cons)
    have hi: "unat hi \<le> unat (k + 128) + 128 * length cs" and end64: "unat (k + 128) + 128 * length cs < 2 ^ 64"
      using "2.prems"(3,4) st(1) by simp_all
    show ?thesis
    proof (cases "lo < k + 128")
      case in_range: True
      let ?s = "if lo > k then lo else k" and ?t = "if hi < k + 128 then hi else k + 128"
      let ?lo = "max (unat lo) (unat k)" and ?hi = "min (unat hi) (unat k + 128)"
      note w = st(2-5) [OF in_range]
      have fits: "?lo - unat k + (?hi - ?lo) \<le> length (data c)" "?lo - unat lo + (?hi - ?lo) \<le> length buffer"
        using w(4) "2.prems"(5) ok(2) by auto
      obtain bytes where b: "blit (data c) (unat (?s - k)) buffer (unat (?s - lo)) (unat (?t - ?s)) = Inr bytes"
        using blit_ok [OF fits] unfolding w(1-3) by blast
      have len: "length bytes = 128" using blit_length [OF b] ok(2) by simp
      have nth: "bytes ! i = (if unat lo \<le> unat k + i \<and> unat k + i < unat hi
          then buffer ! (unat k + i - unat lo) else data c ! i)" if "i < 128" for i
        using blit_nth [OF b, of i] that ok(2) w(4) unfolding w(1-3)
        by (auto intro!: arg_cong2 [of _ _ _ _ nth])
      let ?data = "data(c := bytes)"
      have ok': "clusters_ok ?data cs" using ok by (auto simp: clusters_ok_def)
      have raw: "raw_bytes ?data cs = raw_bytes data cs" using ok(3) by (intro raw_bytes_cong) auto
      from "2.IH"(1) [OF k refl in_range refl refl b ok' "2.prems"(2) hi end64 "2.prems"(5)]
      obtain data' where r: "ramfs_write_loop lo hi buffer cs (k + 128) ?data = Inr data'"
        and d: "clusters_ok data' cs" "\<forall>x. x \<notin> set cs \<longrightarrow> data' x = ?data x"
        and dn: "\<forall>j < 128 * length cs. raw_bytes data' cs ! j =
          (if unat lo \<le> unat (k + 128) + j \<and> unat (k + 128) + j < unat hi
           then buffer ! (unat (k + 128) + j - unat lo) else raw_bytes ?data cs ! j)" by blast
      have c': "data' c = bytes" using d(2) ok(3) by simp
      have eq: "ramfs_write_loop lo hi buffer (c # cs) k data = Inr data'"
        using k in_range b r by (simp add: Let_def)
      have "raw_bytes data' (c # cs) ! j = (if unat lo \<le> unat k + j \<and> unat k + j < unat hi
          then buffer ! (unat k + j - unat lo) else raw_bytes data (c # cs) ! j)"
        if j: "j < 128 * length (c # cs)" for j
      proof (cases "j < 128")
        case True
        then show ?thesis using nth [OF True] len ok(2) by (simp add: c' nth_append_128)
      next
        case False
        with j have "j - 128 < 128 * length cs" by simp
        with dn have "raw_bytes data' cs ! (j - 128) =
          (if unat lo \<le> unat (k + 128) + (j - 128) \<and> unat (k + 128) + (j - 128) < unat hi
           then buffer ! (unat (k + 128) + (j - 128) - unat lo) else raw_bytes ?data cs ! (j - 128))" by blast
        then show ?thesis using False len ok(2) unfolding raw st(1)
          by (simp add: c' nth_append_128)
      qed
      then show ?thesis
        using eq d c' len ok(3) by (intro exI [of _ data']) (auto simp: clusters_ok_Cons)
    next
      case False
      then have ge: "unat k + 128 \<le> unat lo" using st(1) by (simp add: word_less_nat_alt)
      from "2.IH"(2) [OF k refl False ok(1) "2.prems"(2) hi end64 "2.prems"(5)]
      obtain data' where r: "ramfs_write_loop lo hi buffer cs (k + 128) data = Inr data'"
        and d: "clusters_ok data' cs" "\<forall>x. x \<notin> set cs \<longrightarrow> data' x = data x"
        and dn: "\<forall>j < 128 * length cs. raw_bytes data' cs ! j =
          (if unat lo \<le> unat (k + 128) + j \<and> unat (k + 128) + j < unat hi
           then buffer ! (unat (k + 128) + j - unat lo) else raw_bytes data cs ! j)" by blast
      have c': "data' c = data c" using d(2) ok(3) by simp
      have "raw_bytes data' (c # cs) ! j = (if unat lo \<le> unat k + j \<and> unat k + j < unat hi
          then buffer ! (unat k + j - unat lo) else raw_bytes data (c # cs) ! j)"
        if j: "j < 128 * length (c # cs)" for j
      proof (cases "j < 128")
        case True
        then show ?thesis using ge ok(2) by (simp add: c' nth_append_128)
      next
        case False
        with j have "j - 128 < 128 * length cs" by simp
        with dn have "raw_bytes data' cs ! (j - 128) =
          (if unat lo \<le> unat (k + 128) + (j - 128) \<and> unat (k + 128) + (j - 128) < unat hi
           then buffer ! (unat (k + 128) + (j - 128) - unat lo) else raw_bytes data cs ! (j - 128))" by blast
        then show ?thesis using False ok(2) unfolding st(1) by (simp add: c' nth_append_128)
      qed
      then show ?thesis
        using k False r d c' ok by (intro exI [of _ data']) (auto simp: clusters_ok_Cons)
    qed
  qed
qed

section \<open>Files\<close>

text \<open>
  \<open>ramfs_content\<close> is the byte sequence a file holds. In a well-formed file the clusters are distinct
  live objects, of which there are enough for the size.
\<close>

definition ramfs_content :: "'z vfs_state_scheme \<Rightarrow> u64 \<Rightarrow> u8 list" where
  "ramfs_content st ino =
     take (unat (ri_size (ramfs_inodes st ino))) (raw_bytes (ramfs_clusters st) (ri_clusters (ramfs_inodes st ino)))"

definition ramfs_file_wf :: "'z vfs_state_scheme \<Rightarrow> u64 \<Rightarrow> bool" where
  "ramfs_file_wf st ino \<longleftrightarrow> slab_wf st \<and>
     clusters_ok (ramfs_clusters st) (ri_clusters (ramfs_inodes st ino)) \<and>
     set (ri_clusters (ramfs_inodes st ino)) \<subseteq> slab_live Ramfs_Cluster_Slab st \<and>
     unat (ri_size (ramfs_inodes st ino)) \<le> 128 * length (ri_clusters (ramfs_inodes st ino)) \<and>
     128 * length (ri_clusters (ramfs_inodes st ino)) < 2 ^ 64"

abbreviation ramfs_ino :: "'z vfs_state_scheme \<Rightarrow> u64 \<Rightarrow> u64" where
  "ramfs_ino st filp \<equiv> i_private (inodes st (f_inode (filps st filp)))"

lemma ramfs_file_wfD:
  assumes "ramfs_file_wf st ino"
  shows "slab_wf st" and "clusters_ok (ramfs_clusters st) (ri_clusters (ramfs_inodes st ino))"
    and "set (ri_clusters (ramfs_inodes st ino)) \<subseteq> slab_live Ramfs_Cluster_Slab st"
    and "unat (ri_size (ramfs_inodes st ino)) \<le> 128 * length (ri_clusters (ramfs_inodes st ino))"
    and "128 * length (ri_clusters (ramfs_inodes st ino)) < 2 ^ 64"
  using assms by (simp_all add: ramfs_file_wf_def)

lemma ramfs_content_length:
  "ramfs_file_wf st ino \<Longrightarrow> length (ramfs_content st ino) = unat (ri_size (ramfs_inodes st ino))"
  using raw_bytes_length ramfs_file_wfD(2,4) by (fastforce simp: ramfs_content_def)

subsection \<open>Reading\<close>

lemma ramfs_read_ok:
  assumes wf: "ramfs_file_wf st (ramfs_ino st filp)"
    and off: "unat (f_offset (filps st filp)) \<le> unat (ri_size (ramfs_inodes st (ramfs_ino st filp)))"
    and nowrap: "unat (f_offset (filps st filp)) + unat len < 2 ^ 64" and buf: "unat len \<le> length buffer"
  defines "off \<equiv> unat (f_offset (filps st filp))"
  defines "content \<equiv> ramfs_content st (ramfs_ino st filp)"
  defines "n \<equiv> min (unat len) (length content - off)"
  shows "ramfs_read filp buffer len st =
    Inr (upd_file filp (\<lambda>f. f\<lparr>f_offset := f_offset f + of_nat n\<rparr>) st,
         take n (drop off content) @ drop n buffer, of_nat n)"
proof -
  let ?f = "filps st filp" and ?r = "ramfs_inodes st (ramfs_ino st filp)"
  let ?hi = "if f_offset ?f + len < ri_size ?r then f_offset ?f + len else ri_size ?r"
  have lenc: "length content = unat (ri_size ?r)" unfolding content_def by (rule ramfs_content_length [OF wf])
  have sum: "unat (f_offset ?f + len) = off + unat len"
    using nowrap by (simp add: off_def unat_add_no_wrap)
  have hi: "unat ?hi = off + n"
    using sum lenc off by (auto simp: n_def off_def word_less_nat_alt)
  show ?thesis
  proof (cases "?hi = f_offset ?f")
    case True
    then have "n = 0" using hi by (simp add: off_def)
    moreover have "upd_file filp (\<lambda>f. f) st = st" by (simp add: upd_file_def)
    ultimately show ?thesis using True by (simp add: ramfs_read_def Let_def)
  next
    case False
    then have n0: "0 < n" using hi by (cases n) (auto simp: off_def word_unat_eq_iff split: if_splits)
    have lt: "f_offset ?f < ?hi" using hi n0 by (simp add: word_less_nat_alt off_def)
    note ok = ramfs_file_wfD [OF wf]
    have cap: "unat ?hi \<le> unat (0 :: u64) + 128 * length (ri_clusters ?r)"
      using hi ok(4) lenc off by (simp add: n_def off_def)
    have room: "unat ?hi - unat (f_offset ?f) \<le> length buffer" using hi buf by (simp add: off_def n_def)
    from ramfs_read_loop_ok [OF ok(2) lt cap _ room, of 0] ok(5) obtain b
      where r: "ramfs_read_loop (ramfs_clusters st) (f_offset ?f) ?hi (ri_clusters ?r) 0 0 buffer =
          Inr (b, of_nat n)"
        and b: "length b = length buffer"
        and nth: "\<forall>i < length buffer. b ! i = (if off + i < off + n
          then raw_bytes (ramfs_clusters st) (ri_clusters ?r) ! (off + i) else buffer ! i)"
      using hi by (auto simp: off_def)
    have nb: "n \<le> length buffer" "off + n \<le> length content" using buf lenc off by (simp_all add: n_def off_def)
    have "b = take n (drop off content) @ drop n buffer"
    proof (rule nth_equalityI)
      show "length b = length (take n (drop off content) @ drop n buffer)" using b nb by simp
      fix i assume "i < length b"
      then show "b ! i = (take n (drop off content) @ drop n buffer) ! i"
        using nth b nb lenc by (auto simp: nth_append content_def ramfs_content_def)
    qed
    with r False show ?thesis by (simp add: ramfs_read_def Let_def)
  qed
qed

subsection \<open>Resizing\<close>

definition clusters_needed :: "nat \<Rightarrow> nat" where
  "clusters_needed n = max 1 ((n + 127) div 128)"

lemma clusters_needed_step: "128 * j + 128 < n \<longleftrightarrow> Suc j < clusters_needed n"
  unfolding clusters_needed_def by (auto simp: less_max_iff_disj)

lemma clusters_needed_bound: "n \<le> 128 * clusters_needed n" and clusters_needed_pos: "0 < clusters_needed n"
  unfolding clusters_needed_def by (auto simp: max_def)

text \<open>What the resize leaves alone, and the relation of a growth step to the clusters before.\<close>

definition resize_frame :: "u64 \<Rightarrow> 'z vfs_state_scheme \<Rightarrow> 'z vfs_state_scheme \<Rightarrow> bool" where
  "resize_frame ino st st' \<longleftrightarrow> inodes st' = inodes st \<and> dentries st' = dentries st \<and> filps st' = filps st \<and>
     superblocks st' = superblocks st \<and>
     (\<forall>i. i \<noteq> ino \<longrightarrow> ramfs_inodes st' i = ramfs_inodes st i) \<and>
     (\<forall>sid. sid \<noteq> Ramfs_Cluster_Slab \<longrightarrow> slab_live sid st' = slab_live sid st) \<and>
     exfat_inodes st' = exfat_inodes st \<and> exfat_clusters st' = exfat_clusters st \<and>
     vfs_state.more st' = vfs_state.more st"

lemma resize_frame_refl: "resize_frame ino st st"
  by (simp add: resize_frame_def)

lemma resize_frame_trans: "resize_frame ino st st' \<Longrightarrow> resize_frame ino st' st'' \<Longrightarrow> resize_frame ino st st''"
  by (simp add: resize_frame_def)

definition grown :: "u64 \<Rightarrow> 'z vfs_state_scheme \<Rightarrow> 'z vfs_state_scheme \<Rightarrow> u64 list \<Rightarrow> bool" where
  "grown ino st st' new \<longleftrightarrow> slab_wf st' \<and> resize_frame ino st st' \<and>
     ramfs_inodes st' ino = (ramfs_inodes st ino)\<lparr>ri_clusters := ri_clusters (ramfs_inodes st ino) @ new\<rparr> \<and>
     distinct new \<and> set new \<inter> slab_live Ramfs_Cluster_Slab st = {} \<and>
     slab_live Ramfs_Cluster_Slab st' = slab_live Ramfs_Cluster_Slab st \<union> set new \<and>
     (\<forall>c. ramfs_clusters st' c = (if c \<in> set new then replicate 128 0 else ramfs_clusters st c))"

lemma grown_refl: "slab_wf st \<Longrightarrow> grown ino st st []"
  by (simp add: grown_def resize_frame_refl)

lemma grown_trans: "grown ino st st' xs \<Longrightarrow> grown ino st' st'' ys \<Longrightarrow> grown ino st st'' (xs @ ys)"
  unfolding grown_def by (auto intro: resize_frame_trans)

lemma grow_one:
  assumes wf: "slab_wf st" and al: "slab_alloc Ramfs_Cluster_Slab st = Inr (st1, c)"
  shows "grown ino st ((upd_ramfs_inode ino (\<lambda>r. r\<lparr>ri_clusters := ri_clusters r @ [c]\<rparr>) st1)
           \<lparr>ramfs_clusters := (ramfs_clusters st1)(c := replicate 128 0)\<rparr>) [c]" (is "grown ino st ?st' _")
proof -
  note step = slab_alloc_step [OF wf al, unfolded slab_take_step_def]
  note f = slab_more_fields [OF step [THEN conjunct2, THEN conjunct2, THEN conjunct2, THEN conjunct2]]
  have tr: "slab_state.truncate ?st' = slab_state.truncate st1" by simp
  have live: "slab_live sid ?st' = slab_live sid st1" for sid
    by (subst (1 2) slab_live_truncate) (simp only: tr)
  have "slab_wf ?st'" using step by (subst slab_wf_truncate) (simp only: tr slab_wf_truncate [symmetric])
  then show ?thesis
    using step f unfolding grown_def resize_frame_def live by (simp add: upd_ramfs_inode_def)
qed

lemma ramfs_grow_ok:
  assumes "slab_wf st" and "ri_clusters (ramfs_inodes st ino) = pre @ rest" and "start = 128 * length pre"
    and "length pre < clusters_needed n" and "ramfs_grow ino n rest start st = Inr (st', rest')"
  shows "\<exists>new. grown ino st st' new \<and>
    rest' = drop (clusters_needed n) (pre @ rest) \<and>
    length new = clusters_needed n - length (pre @ rest)"
  using assms
proof (induction ino n rest start st arbitrary: pre rule: ramfs_grow.induct)
  case (1 ino n rest start st)
  have more: "start + 128 < n \<longleftrightarrow> Suc (length pre) < clusters_needed n"
    using clusters_needed_step [of "length pre" n] "1.prems"(3) by simp
  show ?case
  proof (cases rest)
    case (Cons c cs)
    have step: "ramfs_grow ino n rest start st =
        (if start + 128 < n then ramfs_grow ino n cs (start + 128) st else Inr (st, cs))"
      using Cons by (subst ramfs_grow.simps) simp
    show ?thesis
    proof (cases "start + 128 < n")
      case True
      with "1.prems"(5) step have "ramfs_grow ino n cs (start + 128) st = Inr (st', rest')" by simp
      with "1.IH" [of "(st, cs)" st cs "pre @ [c]"] "1.prems" Cons True more show ?thesis by simp
    next
      case False
      with "1.prems"(4,5) step more have eq: "st' = st" "rest' = cs" "clusters_needed n = Suc (length pre)"
        by simp_all
      then show ?thesis using grown_refl [OF "1.prems"(1)] Cons by (intro exI [of _ "[]"]) simp
    qed
  next
    case Nil
    with "1.prems"(5) obtain st1 c where al: "slab_alloc Ramfs_Cluster_Slab st = Inr (st1, c)"
      by (subst (asm) ramfs_grow.simps) (auto simp: res_bind_eq_Inr)
    let ?st2 = "(upd_ramfs_inode ino (\<lambda>r. r\<lparr>ri_clusters := ri_clusters r @ [c]\<rparr>) st1)
                  \<lparr>ramfs_clusters := (ramfs_clusters st1)(c := replicate 128 0)\<rparr>"
    have g: "grown ino st ?st2 [c]" by (rule grow_one [OF "1.prems"(1) al])
    have step: "ramfs_grow ino n rest start st =
        (if start + 128 < n then ramfs_grow ino n [] (start + 128) ?st2 else Inr (?st2, []))"
      using Nil al by (subst ramfs_grow.simps) simp
    show ?thesis
    proof (cases "start + 128 < n")
      case True
      have wf2: "slab_wf ?st2" using g by (simp only: grown_def)
      have cl: "ri_clusters (ramfs_inodes ?st2 ino) = (pre @ [c]) @ []"
        using g "1.prems"(2) Nil by (simp add: grown_def)
      from "1.prems"(5) step True have "ramfs_grow ino n [] (start + 128) ?st2 = Inr (st', rest')" by simp
      with "1.IH" [of "(?st2, [])" ?st2 "[]" "pre @ [c]"] wf2 cl Nil al True more "1.prems"(3)
      obtain new where new: "grown ino ?st2 st' new" "rest' = drop (clusters_needed n) (pre @ [c])"
        "length new = clusters_needed n - length (pre @ [c])" by (auto simp del: drop_append)
      have "grown ino st st' ([c] @ new)" by (rule grown_trans [OF g new(1)])
      with new(2,3) more True Nil show ?thesis by (intro exI [of _ "[c] @ new"]) simp
    next
      case False
      with "1.prems"(4,5) step more have eq: "st' = ?st2" "rest' = []" "clusters_needed n = Suc (length pre)"
        by simp_all
      then show ?thesis using g Nil by (intro exI [of _ "[c]"]) simp
    qed
  qed
qed

text \<open>Dropping the clusters behind the new end of the file.\<close>

lemma drop_one:
  assumes wf: "slab_wf st" and c: "c \<in> slab_live Ramfs_Cluster_Slab st"
  shows "\<exists>st'. ramfs_drop_cluster ino c st = Inr st' \<and> slab_wf st' \<and> resize_frame ino st st' \<and>
    ramfs_inodes st' ino = (ramfs_inodes st ino)\<lparr>ri_clusters := remove1 c (ri_clusters (ramfs_inodes st ino))\<rparr> \<and>
    slab_live Ramfs_Cluster_Slab st' = slab_live Ramfs_Cluster_Slab st - {c} \<and>
    ramfs_clusters st' = ramfs_clusters st"
proof -
  let ?st1 = "upd_ramfs_inode ino (\<lambda>r. r\<lparr>ri_clusters := remove1 c (ri_clusters r)\<rparr>) st"
  have tr: "slab_state.truncate ?st1 = slab_state.truncate st" by simp
  have live: "slab_live sid ?st1 = slab_live sid st" for sid
    by (subst (1 2) slab_live_truncate) (simp only: tr)
  have wf1: "slab_wf ?st1" using wf by (subst slab_wf_truncate) (simp only: tr slab_wf_truncate [symmetric])
  have "c \<in> slab_live Ramfs_Cluster_Slab ?st1" using c live by simp
  from slab_free_live [OF wf1 this] obtain st' where st': "slab_free Ramfs_Cluster_Slab c ?st1 = Inr st'"
    "slab_wf st'" "slab_live Ramfs_Cluster_Slab st' = slab_live Ramfs_Cluster_Slab ?st1 - {c}"
    "\<forall>i. i \<noteq> Ramfs_Cluster_Slab \<longrightarrow> slab_live i st' = slab_live i ?st1"
    and more: "slab_state.more st' = slab_state.more ?st1" by blast
  note f = slab_more_fields [OF more]
  show ?thesis
    using st' f unfolding live
    by (intro exI [of _ st']) (simp add: ramfs_drop_cluster_def resize_frame_def upd_ramfs_inode_def)
qed

lemma ramfs_drop_ok:
  assumes "slab_wf st" and "ri_clusters (ramfs_inodes st ino) = pre @ cs" and "distinct (pre @ cs)"
    and "set cs \<subseteq> slab_live Ramfs_Cluster_Slab st"
  shows "\<exists>st'. ramfs_drop_clusters ino cs st = Inr st' \<and> slab_wf st' \<and> resize_frame ino st st' \<and>
    ramfs_inodes st' ino = (ramfs_inodes st ino)\<lparr>ri_clusters := pre\<rparr> \<and>
    slab_live Ramfs_Cluster_Slab st' = slab_live Ramfs_Cluster_Slab st - set cs \<and>
    ramfs_clusters st' = ramfs_clusters st"
  using assms
proof (induction cs arbitrary: st)
  case Nil
  then show ?case by (simp add: resize_frame_refl)
next
  case (Cons c cs)
  from Cons.prems(4) have "c \<in> slab_live Ramfs_Cluster_Slab st" by simp
  from drop_one [OF Cons.prems(1) this, of ino] obtain st1 where st1: "ramfs_drop_cluster ino c st = Inr st1"
    "slab_wf st1" "resize_frame ino st st1"
    and r1: "ramfs_inodes st1 ino = (ramfs_inodes st ino)\<lparr>ri_clusters := remove1 c (ri_clusters (ramfs_inodes st ino))\<rparr>"
    and l1: "slab_live Ramfs_Cluster_Slab st1 = slab_live Ramfs_Cluster_Slab st - {c}"
    and d1: "ramfs_clusters st1 = ramfs_clusters st" by blast
  have cs: "ri_clusters (ramfs_inodes st1 ino) = pre @ cs"
    using r1 Cons.prems(2,3) by (simp add: remove1_append)
  have "set cs \<subseteq> slab_live Ramfs_Cluster_Slab st1" using l1 Cons.prems(3,4) by auto
  with Cons.IH [OF st1(2) cs] Cons.prems(3) obtain st' where st': "ramfs_drop_clusters ino cs st1 = Inr st'"
    "slab_wf st'" "resize_frame ino st1 st'"
    "ramfs_inodes st' ino = (ramfs_inodes st1 ino)\<lparr>ri_clusters := pre\<rparr>"
    "slab_live Ramfs_Cluster_Slab st' = slab_live Ramfs_Cluster_Slab st1 - set cs"
    "ramfs_clusters st' = ramfs_clusters st1" by auto
  show ?case
    using st1 st' r1 l1 d1 resize_frame_trans [OF st1(3) st'(3)] by (intro exI [of _ st']) auto
qed

lemma raw_bytes_zeros:
  "(\<And>c. c \<in> set cs \<Longrightarrow> data c = replicate 128 0) \<Longrightarrow> raw_bytes data cs = replicate (128 * length cs) 0"
  by (induction cs) (simp_all add: replicate_add [symmetric])

lemma raw_bytes_take:
  "clusters_ok data cs \<Longrightarrow> raw_bytes data (take k cs) = take (128 * k) (raw_bytes data cs)"
proof (induction cs arbitrary: k)
  case Nil
  then show ?case by simp
next
  case (Cons c cs)
  then show ?case by (cases k) (auto simp: clusters_ok_Cons)
qed

lemma take_pad_eq:
  assumes "n \<le> length xs + m" and "n \<le> length xs + k"
  shows "take n (xs @ replicate m z) = take n (xs @ replicate k z)"
  using assms by (simp add: take_replicate)

text \<open>
  The new content: the raw bytes of the old clusters, padded with zeros, cut at the new size. Growing
  inside the last cluster exposes what the cluster held beyond the old size.
\<close>

lemma ramfs_set_size_ok:
  assumes wf: "ramfs_file_wf st (ramfs_ino st filp)" and small: "unat new_size + 128 < 2 ^ 64"
    and run: "ramfs_set_size filp new_size st = Inr (st', r)"
  defines "ino \<equiv> ramfs_ino st filp"
  shows "r = 0 \<and> ramfs_file_wf st' ino \<and> resize_frame ino st st' \<and>
    ri_size (ramfs_inodes st' ino) = new_size \<and>
    (\<forall>c. c \<in> slab_live Ramfs_Cluster_Slab st \<and> c \<notin> set (ri_clusters (ramfs_inodes st ino)) \<longrightarrow>
       c \<in> slab_live Ramfs_Cluster_Slab st' \<and> ramfs_clusters st' c = ramfs_clusters st c \<and>
       c \<notin> set (ri_clusters (ramfs_inodes st' ino))) \<and>
    ramfs_content st' ino =
      take (unat new_size) (raw_bytes (ramfs_clusters st) (ri_clusters (ramfs_inodes st ino)) @
        replicate (unat new_size) 0)"
proof -
  note ok = ramfs_file_wfD [OF wf, folded ino_def]
  let ?cs = "ri_clusters (ramfs_inodes st ino)" and ?need = "clusters_needed (unat new_size)"
  from run obtain st1 rest st2 where g: "ramfs_grow ino (unat new_size) ?cs 0 st = Inr (st1, rest)"
    and d: "ramfs_drop_clusters ino rest st1 = Inr st2"
    and st': "st' = upd_ramfs_inode ino (\<lambda>r. r\<lparr>ri_size := new_size\<rparr>) st2" and r: "r = 0"
    unfolding ramfs_set_size_def ino_def [symmetric] Let_def by (auto simp: res_bind_eq_Inr)
  from ramfs_grow_ok [OF ok(1), of ino "[]" ?cs 0 "unat new_size" st1 rest] g clusters_needed_pos
  obtain new where new: "grown ino st st1 new" and rest: "rest = drop ?need ?cs"
    and nl: "length new = ?need - length ?cs" by auto
  note new' = new [unfolded grown_def]
  have cs1: "ri_clusters (ramfs_inodes st1 ino) = ?cs @ new" using new' by simp
  let ?pre = "take ?need ?cs @ new"
  have split: "?cs @ new = ?pre @ rest"
  proof (cases "?need \<le> length ?cs")
    case True
    then have "new = []" using nl by simp
    then show ?thesis using rest by simp
  next
    case False
    then show ?thesis using rest by simp
  qed
  have dist: "distinct (?cs @ new)" using ok(2,3) new' by (auto simp: clusters_ok_def)
  have rl: "set rest \<subseteq> slab_live Ramfs_Cluster_Slab st1"
    using rest ok(3) new' by (auto dest: in_set_dropD)
  from ramfs_drop_ok [OF _ _ _ rl, of ino ?pre] new' cs1 split dist d
  have d2: "slab_wf st2" "resize_frame ino st1 st2"
    "ramfs_inodes st2 ino = (ramfs_inodes st1 ino)\<lparr>ri_clusters := ?pre\<rparr>"
    "slab_live Ramfs_Cluster_Slab st2 = slab_live Ramfs_Cluster_Slab st1 - set rest"
    "ramfs_clusters st2 = ramfs_clusters st1" by auto
  have tr: "slab_state.truncate st' = slab_state.truncate st2" by (simp add: st')
  have live: "slab_live sid st' = slab_live sid st2" for sid
    by (subst (1 2) slab_live_truncate) (simp only: tr)
  have wf': "slab_wf st'" using d2(1) by (subst slab_wf_truncate) (simp only: tr slab_wf_truncate [symmetric])
  have frame: "resize_frame ino st st'"
    using resize_frame_trans [OF _ d2(2), of st] new' unfolding resize_frame_def live
    by (simp add: st' upd_ramfs_inode_def)
  have fields: "ri_clusters (ramfs_inodes st' ino) = ?pre" "ri_size (ramfs_inodes st' ino) = new_size"
    "ramfs_clusters st' = ramfs_clusters st1"
    using d2(3,5) by (simp_all add: st' upd_ramfs_inode_def)
  have data: "ramfs_clusters st1 c = (if c \<in> set new then replicate 128 0 else ramfs_clusters st c)" for c
    using new' by blast
  have lenpre: "length ?pre = ?need" using nl by (cases "?need \<le> length ?cs") auto
  have cok: "clusters_ok (ramfs_clusters st1) ?pre"
    using ok(2) dist data unfolding clusters_ok_def by (auto dest: in_set_takeD)
  have prelive: "set ?pre \<subseteq> slab_live Ramfs_Cluster_Slab st'"
    unfolding live d2(4) using new' ok(3) dist split by (auto dest: in_set_takeD)
  have bound: "unat new_size \<le> 128 * ?need" by (rule clusters_needed_bound)
  have "128 * ?need < 2 ^ 64" using small unfolding clusters_needed_def by (auto simp: max_def)
  then have fwf: "ramfs_file_wf st' ino"
    unfolding ramfs_file_wf_def fields using wf' cok prelive bound lenpre by simp
  have new_disj: "c \<notin> set new" if "c \<in> set ?cs" for c using that dist by auto
  have "raw_bytes (ramfs_clusters st1) (take ?need ?cs) = raw_bytes (ramfs_clusters st) (take ?need ?cs)"
    using data new_disj by (intro raw_bytes_cong) (auto dest: in_set_takeD)
  then have raw: "raw_bytes (ramfs_clusters st1) ?pre =
      take (128 * ?need) (raw_bytes (ramfs_clusters st) ?cs) @ replicate (128 * length new) 0"
    using data by (simp add: raw_bytes_take [OF ok(2)] raw_bytes_zeros)
  have rl2: "length (raw_bytes (ramfs_clusters st) ?cs) = 128 * length ?cs" by (rule raw_bytes_length [OF ok(2)])
  have content: "ramfs_content st' ino =
      take (unat new_size) (raw_bytes (ramfs_clusters st) ?cs @ replicate (unat new_size) 0)"
  proof (cases "?need \<le> length ?cs")
    case True
    then have "new = []" using nl by simp
    then show ?thesis unfolding ramfs_content_def fields raw using bound rl2 True by simp
  next
    case False
    then show ?thesis
      unfolding ramfs_content_def fields raw using bound rl2 nl by (simp add: take_replicate min_def)
  qed
  have others: "c \<in> slab_live Ramfs_Cluster_Slab st' \<and> ramfs_clusters st' c = ramfs_clusters st c \<and>
      c \<notin> set (ri_clusters (ramfs_inodes st' ino))"
    if "c \<in> slab_live Ramfs_Cluster_Slab st" "c \<notin> set ?cs" for c
    unfolding live d2(4) fields(1,3) using that new' data rest by (auto dest: in_set_dropD in_set_takeD)
  show ?thesis using r fwf frame fields(2) content others by blast
qed

lemma ramfs_grow_error:
  assumes "slab_wf st" and "ramfs_grow ino n rest start st = Inl e"
  shows "e = Panic ''Out of physical memory''"
  using assms
proof (induction ino n rest start st rule: ramfs_grow.induct)
  case (1 ino n rest start st)
  show ?case
  proof (cases rest)
    case (Cons c cs)
    with "1.prems"(2) have "start + 128 < n" and "ramfs_grow ino n cs (start + 128) st = Inl e"
      by (subst (asm) ramfs_grow.simps; simp split: if_splits)+
    with "1.IH" [of "(st, cs)" st cs] "1.prems"(1) Cons show ?thesis by simp
  next
    case Nil
    show ?thesis
    proof (cases "slab_alloc Ramfs_Cluster_Slab st")
      case (Inl e')
      with Nil "1.prems"(2) have "e = e'" by (subst (asm) ramfs_grow.simps) simp
      with Inl slab_alloc_error [OF "1.prems"(1)] show ?thesis by blast
    next
      case (Inr r)
      obtain st1 c where r: "r = (st1, c)" by force
      note al = Inr [unfolded r]
      let ?st2 = "(upd_ramfs_inode ino (\<lambda>r. r\<lparr>ri_clusters := ri_clusters r @ [c]\<rparr>) st1)
                    \<lparr>ramfs_clusters := (ramfs_clusters st1)(c := replicate 128 0)\<rparr>"
      have "slab_wf ?st2" using grow_one [OF "1.prems"(1) al, of ino] by (simp only: grown_def)
      moreover have "start + 128 < n" and "ramfs_grow ino n [] (start + 128) ?st2 = Inl e"
        using Nil al "1.prems"(2) by (subst (asm) ramfs_grow.simps; simp split: if_splits)+
      ultimately show ?thesis using "1.IH" [of "(?st2, [])" ?st2 "[]"] Nil al by simp
    qed
  qed
qed

lemma ramfs_set_size_error:
  assumes wf: "ramfs_file_wf st (ramfs_ino st filp)" and run: "ramfs_set_size filp new_size st = Inl e"
  shows "e = Panic ''Out of physical memory''"
proof -
  define ino where "ino = ramfs_ino st filp"
  note ok = ramfs_file_wfD [OF wf, folded ino_def]
  let ?cs = "ri_clusters (ramfs_inodes st ino)" and ?need = "clusters_needed (unat new_size)"
  show ?thesis
  proof (cases "ramfs_grow ino (unat new_size) ?cs 0 st")
    case (Inl e')
    with run have "e' = e" unfolding ramfs_set_size_def ino_def [symmetric] Let_def by simp
    with ramfs_grow_error [OF ok(1) Inl] show ?thesis by simp
  next
    case (Inr r)
    obtain st1 rest where r: "r = (st1, rest)" by force
    from ramfs_grow_ok [OF ok(1), of ino "[]" ?cs 0 "unat new_size" st1 rest] Inr r clusters_needed_pos
    obtain new where new: "grown ino st st1 new" and rest: "rest = drop ?need ?cs"
      and nl: "length new = ?need - length ?cs" by auto
    note new' = new [unfolded grown_def]
    have split: "?cs @ new = (take ?need ?cs @ new) @ rest" using rest nl by (cases "?need \<le> length ?cs") auto
    have dist: "distinct (?cs @ new)" using ok(2,3) new' by (auto simp: clusters_ok_def)
    have "set rest \<subseteq> slab_live Ramfs_Cluster_Slab st1"
      using rest ok(3) new' by (auto dest: in_set_dropD)
    from ramfs_drop_ok [OF _ _ _ this, of ino "take ?need ?cs @ new"] new' split dist
    obtain st2 where "ramfs_drop_clusters ino rest st1 = Inr st2" by auto
    with run Inr r show ?thesis unfolding ramfs_set_size_def ino_def [symmetric] Let_def by simp
  qed
qed

subsection \<open>Writing\<close>

lemma resize_frame_ino:
  assumes "resize_frame ino st st'"
  shows "filps st' = filps st" "inodes st' = inodes st" "ramfs_ino st' filp = ramfs_ino st filp"
  using assms by (simp_all add: resize_frame_def)

text \<open>A write into the room that is there already.\<close>

lemma ramfs_write_inside:
  fixes st :: "'z vfs_state_scheme" and filp :: u64
  assumes wf: "ramfs_file_wf st (ramfs_ino st filp)" and pos: "len \<noteq> 0"
    and fits: "unat (f_offset (filps st filp)) + unat len \<le> unat (ri_size (ramfs_inodes st (ramfs_ino st filp)))"
    and buf: "unat len \<le> length buffer"
  defines "off \<equiv> unat (f_offset (filps st filp))" and "ino \<equiv> ramfs_ino st filp"
  shows "\<exists>data. ramfs_write_loop (f_offset (filps st filp)) (f_offset (filps st filp) + len) buffer
        (ri_clusters (ramfs_inodes st ino)) 0 (ramfs_clusters st) = Inr data \<and>
      ramfs_file_wf (st\<lparr>ramfs_clusters := data\<rparr>) ino \<and>
      (\<forall>c. c \<notin> set (ri_clusters (ramfs_inodes st ino)) \<longrightarrow> data c = ramfs_clusters st c) \<and>
      ramfs_content (st\<lparr>ramfs_clusters := data\<rparr>) ino =
        take off (ramfs_content st ino) @ take (unat len) buffer @ drop (off + unat len) (ramfs_content st ino)"
proof -
  let ?f = "filps st filp" and ?r = "ramfs_inodes st ino"
  note ok = ramfs_file_wfD [OF wf, folded ino_def]
  have size: "off + unat len \<le> unat (ri_size ?r)" using fits by (simp add: off_def ino_def)
  have hi: "unat (f_offset ?f + len) = off + unat len"
  proof -
    have "off + unat len < 2 ^ 64" using size unat_lt_64 [of "ri_size ?r"] by linarith
    then show ?thesis by (simp add: off_def unat_add_no_wrap)
  qed
  have lpos: "0 < unat len" using pos by (simp add: unat_gt_0)
  have lt: "f_offset ?f < f_offset ?f + len" using hi lpos by (simp add: word_less_nat_alt off_def)
  have "unat (f_offset ?f + len) \<le> unat (0 :: u64) + 128 * length (ri_clusters ?r)"
    using hi size ok(4) by simp
  from ramfs_write_loop_ok [OF ok(2) lt this, of buffer] ok(5) hi buf obtain data
    where run: "ramfs_write_loop (f_offset ?f) (f_offset ?f + len) buffer (ri_clusters ?r) 0 (ramfs_clusters st) = Inr data"
      and d: "clusters_ok data (ri_clusters ?r)" "\<forall>c. c \<notin> set (ri_clusters ?r) \<longrightarrow> data c = ramfs_clusters st c"
      and nth: "\<forall>j < 128 * length (ri_clusters ?r). raw_bytes data (ri_clusters ?r) ! j =
        (if off \<le> j \<and> j < off + unat len then buffer ! (j - off)
         else raw_bytes (ramfs_clusters st) (ri_clusters ?r) ! j)"
    by (auto simp: off_def)
  let ?st' = "st\<lparr>ramfs_clusters := data\<rparr>"
  have tr: "slab_state.truncate ?st' = slab_state.truncate st" by simp
  have live: "slab_live sid ?st' = slab_live sid st" for sid
    by (subst (1 2) slab_live_truncate) (simp only: tr)
  have "slab_wf ?st'" using ok(1) by (subst slab_wf_truncate) (simp only: tr slab_wf_truncate [symmetric])
  then have wf': "ramfs_file_wf ?st' ino" using ok d(1) by (simp add: ramfs_file_wf_def live)
  have lenc: "length (ramfs_content st ino) = unat (ri_size ?r)"
    using ramfs_content_length [of st ino] wf by (simp add: ino_def)
  have lenc': "length (ramfs_content ?st' ino) = unat (ri_size ?r)"
    using ramfs_content_length [OF wf'] by simp
  have "ramfs_content ?st' ino =
      take off (ramfs_content st ino) @ take (unat len) buffer @ drop (off + unat len) (ramfs_content st ino)"
  proof (rule nth_equalityI)
    show "length (ramfs_content ?st' ino) = length (take off (ramfs_content st ino) @
        take (unat len) buffer @ drop (off + unat len) (ramfs_content st ino))"
      using lenc lenc' size buf by simp
    fix i assume "i < length (ramfs_content ?st' ino)"
    then have i: "i < unat (ri_size ?r)" using lenc' by simp
    then have "ramfs_content ?st' ino ! i = (if off \<le> i \<and> i < off + unat len then buffer ! (i - off)
        else ramfs_content st ino ! i)"
      using nth [rule_format, of i] ok(4) by (simp add: ramfs_content_def)
    then show "ramfs_content ?st' ino ! i = (take off (ramfs_content st ino) @
        take (unat len) buffer @ drop (off + unat len) (ramfs_content st ino)) ! i"
      using i lenc size buf by (auto simp: nth_append)
  qed
  with run d(2) wf' show ?thesis by blast
qed

lemma ramfs_write_cases:
  fixes st :: "'z vfs_state_scheme" and filp :: u64
  assumes wf: "ramfs_file_wf st (ramfs_ino st filp)" and pos: "len \<noteq> 0"
    and off: "unat (f_offset (filps st filp)) \<le> unat (ri_size (ramfs_inodes st (ramfs_ino st filp)))"
    and nowrap: "unat (f_offset (filps st filp)) + unat len + 128 < 2 ^ 64" and buf: "unat len \<le> length buffer"
  defines "ofs \<equiv> unat (f_offset (filps st filp))" and "ino \<equiv> ramfs_ino st filp"
  shows "case ramfs_write filp buffer len st of
      Inr (st', r) \<Rightarrow> r = len \<and> ramfs_file_wf st' ino \<and> resize_frame ino st st' \<and>
        ramfs_content st' ino =
          take ofs (ramfs_content st ino) @ take (unat len) buffer @ drop (ofs + unat len) (ramfs_content st ino) \<and>
        (\<forall>c. c \<in> slab_live Ramfs_Cluster_Slab st \<and> c \<notin> set (ri_clusters (ramfs_inodes st ino)) \<longrightarrow>
           c \<in> slab_live Ramfs_Cluster_Slab st' \<and> ramfs_clusters st' c = ramfs_clusters st c)
    | Inl e \<Rightarrow> e = Panic ''Out of physical memory''"
proof -
  let ?f = "filps st filp" and ?r = "ramfs_inodes st ino"
  have sum: "unat (f_offset ?f + len) = ofs + unat len" using nowrap by (simp add: ofs_def unat_add_no_wrap)
  have lenc: "length (ramfs_content st ino) = unat (ri_size ?r)"
    using ramfs_content_length [OF wf] by (simp add: ino_def)
  show ?thesis
  proof (cases "f_offset ?f + len > ri_size ?r")
    case False
    then have "ofs + unat len \<le> unat (ri_size ?r)" using sum by (simp add: word_less_nat_alt)
    then have "unat (f_offset (filps st filp)) + unat len \<le> unat (ri_size (ramfs_inodes st (ramfs_ino st filp)))"
      by (simp only: ofs_def ino_def)
    from ramfs_write_inside [OF wf pos this buf, folded ofs_def ino_def] obtain data
      where run: "ramfs_write_loop (f_offset ?f) (f_offset ?f + len) buffer (ri_clusters ?r) 0 (ramfs_clusters st) = Inr data"
        and w: "ramfs_file_wf (st\<lparr>ramfs_clusters := data\<rparr>) ino"
          "\<forall>c. c \<notin> set (ri_clusters ?r) \<longrightarrow> data c = ramfs_clusters st c"
          "ramfs_content (st\<lparr>ramfs_clusters := data\<rparr>) ino =
             take ofs (ramfs_content st ino) @ take (unat len) buffer @ drop (ofs + unat len) (ramfs_content st ino)"
      by blast
    let ?st' = "st\<lparr>ramfs_clusters := data\<rparr>"
    have tr: "slab_state.truncate ?st' = slab_state.truncate st" by simp
    have live: "slab_live sid ?st' = slab_live sid st" for sid
      by (subst (1 2) slab_live_truncate) (simp only: tr)
    have "resize_frame ino st ?st'" by (simp add: resize_frame_def live)
    moreover have "ramfs_write filp buffer len st = Inr (?st', len)"
      using False pos run by (simp add: ramfs_write_def Let_def ino_def)
    ultimately show ?thesis using w live by simp
  next
    case True
    then have gt: "unat (ri_size ?r) < ofs + unat len" using sum by (simp add: word_less_nat_alt)
    have small: "unat (f_offset ?f + len) + 128 < 2 ^ 64" using nowrap sum by (simp add: ofs_def)
    show ?thesis
    proof (cases "ramfs_set_size filp (f_offset ?f + len) st")
      case (Inl e)
      with True pos have "ramfs_write filp buffer len st = Inl e"
        by (simp add: ramfs_write_def Let_def ino_def)
      with ramfs_set_size_error [OF wf Inl] show ?thesis by simp
    next
      case (Inr p)
      obtain st1 r where p: "p = (st1, r)" by force
      note run1 = Inr [unfolded p]
      note s = ramfs_set_size_ok [OF wf small run1, folded ino_def]
      have frame: "resize_frame ino st st1" using s by blast
      note fi = resize_frame_ino [OF frame]
      have ino1: "ramfs_ino st1 filp = ino" by (simp add: fi ino_def)
      have size1: "ri_size (ramfs_inodes st1 ino) = f_offset ?f + len" using s by blast
      have wf1: "ramfs_file_wf st1 (ramfs_ino st1 filp)" using s ino1 by simp
      have fit1: "unat (f_offset (filps st1 filp)) + unat len \<le> unat (ri_size (ramfs_inodes st1 (ramfs_ino st1 filp)))"
        unfolding ino1 unfolding fi(1) size1 using sum by (simp add: ofs_def)
      from ramfs_write_inside [OF wf1 pos fit1 buf, unfolded ino1, unfolded fi(1), folded ofs_def] obtain data
        where run: "ramfs_write_loop (f_offset ?f) (f_offset ?f + len) buffer
            (ri_clusters (ramfs_inodes st1 ino)) 0 (ramfs_clusters st1) = Inr data"
          and w: "ramfs_file_wf (st1\<lparr>ramfs_clusters := data\<rparr>) ino"
            "\<forall>c. c \<notin> set (ri_clusters (ramfs_inodes st1 ino)) \<longrightarrow> data c = ramfs_clusters st1 c"
            "ramfs_content (st1\<lparr>ramfs_clusters := data\<rparr>) ino =
               take ofs (ramfs_content st1 ino) @ take (unat len) buffer @ drop (ofs + unat len) (ramfs_content st1 ino)"
        by blast
      let ?st' = "st1\<lparr>ramfs_clusters := data\<rparr>"
      have tr: "slab_state.truncate ?st' = slab_state.truncate st1" by simp
      have live: "slab_live sid ?st' = slab_live sid st1" for sid
        by (subst (1 2) slab_live_truncate) (simp only: tr)
      have frame': "resize_frame ino st ?st'" using frame by (simp add: resize_frame_def live)
      have wr: "ramfs_write filp buffer len st = Inr (?st', len)"
        using True pos run run1 by (simp add: ramfs_write_def Let_def ino_def)
      have c1: "ramfs_content st1 ino = take (ofs + unat len)
          (raw_bytes (ramfs_clusters st) (ri_clusters ?r) @ replicate (ofs + unat len) 0)"
        using s unfolding sum by blast
      have lenraw: "unat (ri_size ?r) \<le> length (raw_bytes (ramfs_clusters st) (ri_clusters ?r))"
        using raw_bytes_length ramfs_file_wfD(2,4) [OF wf] by (simp add: ino_def)
      have "take ofs (ramfs_content st1 ino) = take ofs (ramfs_content st ino)"
        using off lenraw unfolding c1 by (simp add: ramfs_content_def ofs_def ino_def min_def)
      moreover have "drop (ofs + unat len) (ramfs_content st1 ino) = drop (ofs + unat len) (ramfs_content st ino)"
        using gt lenc unfolding c1 by simp
      ultimately have content: "ramfs_content ?st' ino =
          take ofs (ramfs_content st ino) @ take (unat len) buffer @ drop (ofs + unat len) (ramfs_content st ino)"
        using w(3) by simp
      have others: "c \<in> slab_live Ramfs_Cluster_Slab ?st' \<and> ramfs_clusters ?st' c = ramfs_clusters st c"
        if c: "c \<in> slab_live Ramfs_Cluster_Slab st" "c \<notin> set (ri_clusters ?r)" for c
      proof -
        have k: "c \<in> slab_live Ramfs_Cluster_Slab st1" "ramfs_clusters st1 c = ramfs_clusters st c"
          using s c by blast+
        have "c \<notin> set (ri_clusters (ramfs_inodes st1 ino))"
          using s c by blast
        with w(2) k live show ?thesis by simp
      qed
      show ?thesis unfolding wr using w(1) frame' content others by simp
    qed
  qed
qed

section \<open>Properties\<close>

text \<open>
  C21: \<^verbatim>\<open>ramfs_write\<close> at an offset inside the file replaces exactly the bytes of the range by the
  buffer's bytes, extending the file when the range passes its end; no cluster of another file
  changes, and the only failure is the page allocator's panic.
\<close>

theorem ramfs_write_content:
  assumes "ramfs_file_wf st (ramfs_ino st filp)" and "len \<noteq> 0"
    and "unat (f_offset (filps st filp)) \<le> unat (ri_size (ramfs_inodes st (ramfs_ino st filp)))"
    and "unat (f_offset (filps st filp)) + unat len + 128 < 2 ^ 64" and "unat len \<le> length buffer"
  shows "case ramfs_write filp buffer len st of
      Inr (st', r) \<Rightarrow>
        (let off = unat (f_offset (filps st filp)); ino = ramfs_ino st filp
         in r = len \<and> ramfs_file_wf st' ino \<and>
            ramfs_content st' ino = take off (ramfs_content st ino) @ take (unat len) buffer @
              drop (off + unat len) (ramfs_content st ino) \<and>
            (\<forall>c. c \<in> slab_live Ramfs_Cluster_Slab st \<and> c \<notin> set (ri_clusters (ramfs_inodes st ino)) \<longrightarrow>
               c \<in> slab_live Ramfs_Cluster_Slab st' \<and> ramfs_clusters st' c = ramfs_clusters st c))
    | Inl e \<Rightarrow> e = Panic ''Out of physical memory''"
  using ramfs_write_cases [OF assms] by (auto simp: Let_def split: sum.splits)

text \<open>The example file: one cluster with the bytes 0, 1, 2, ..., of which five belong to the file.\<close>

definition demo_ramfs :: vfs_state where
  "demo_ramfs = (demo_vfs Ramfs_Cluster_Slab)
     \<lparr>ramfs_inodes := (\<lambda>_. \<lparr>ri_clusters = [0x22030], ri_size = 5\<rparr>),
      ramfs_clusters := (\<lambda>_. map of_nat [0..<128]),
      filps := (\<lambda>_. \<lparr>f_fd = 0, f_inode = 0, f_offset = 2\<rparr>)\<rparr>"

lemma demo_ramfs_fields:
  "ramfs_inodes demo_ramfs ino = \<lparr>ri_clusters = [0x22030], ri_size = 5\<rparr>"
  "ramfs_clusters demo_ramfs c = map of_nat [0..<128]"
  "filps demo_ramfs filp = \<lparr>f_fd = 0, f_inode = 0, f_offset = 2\<rparr>"
  by (simp_all add: demo_ramfs_def)

lemma demo_ramfs_wf: "ramfs_file_wf demo_ramfs ino"
proof -
  have tr: "slab_state.truncate demo_ramfs = slab_state.truncate (demo_vfs Ramfs_Cluster_Slab)"
    by (simp add: demo_ramfs_def slab_state.truncate_def)
  have "slab_wf demo_ramfs" by (subst slab_wf_truncate) (simp only: tr demo_vfs_truncate demo_slab_wf)
  moreover have "0x22030 \<in> slab_live Ramfs_Cluster_Slab demo_ramfs"
    using demo_slab_live [of 0 Ramfs_Cluster_Slab]
    by (subst slab_live_truncate) (simp add: tr demo_vfs_truncate slot_addr_def)
  ultimately show ?thesis by (simp add: ramfs_file_wf_def demo_ramfs_fields clusters_ok_def)
qed

lemma ramfs_write_content_witness:
  "case ramfs_write 0 [70, 71, 72, 73] 4 demo_ramfs of
      Inr (st', r) \<Rightarrow>
        (let off = unat (f_offset (filps demo_ramfs 0)); ino = ramfs_ino demo_ramfs 0
         in r = 4 \<and> ramfs_file_wf st' ino \<and>
            ramfs_content st' ino = take off (ramfs_content demo_ramfs ino) @
              take (unat (4 :: u64)) [70, 71, 72, 73] @
              drop (off + unat (4 :: u64)) (ramfs_content demo_ramfs ino) \<and>
            (\<forall>c. c \<in> slab_live Ramfs_Cluster_Slab demo_ramfs \<and>
               c \<notin> set (ri_clusters (ramfs_inodes demo_ramfs ino)) \<longrightarrow>
               c \<in> slab_live Ramfs_Cluster_Slab st' \<and> ramfs_clusters st' c = ramfs_clusters demo_ramfs c))
    | Inl e \<Rightarrow> e = Panic ''Out of physical memory''"
  by (rule ramfs_write_content [OF demo_ramfs_wf]) (simp_all add: demo_ramfs_fields)

text \<open>
  C23: \<^verbatim>\<open>ramfs_read\<close> at an offset inside the file returns the bytes of the file from there, as many as
  the buffer asks for and the file has, leaves the rest of the buffer alone and advances the offset.
\<close>

theorem ramfs_read_content:
  assumes "ramfs_file_wf st (ramfs_ino st filp)"
    and "unat (f_offset (filps st filp)) \<le> unat (ri_size (ramfs_inodes st (ramfs_ino st filp)))"
    and "unat (f_offset (filps st filp)) + unat len < 2 ^ 64" and "unat len \<le> length buffer"
  shows "ramfs_read filp buffer len st =
    (let off = unat (f_offset (filps st filp)); content = ramfs_content st (ramfs_ino st filp);
         n = min (unat len) (length content - off)
     in Inr (upd_file filp (\<lambda>f. f\<lparr>f_offset := f_offset f + of_nat n\<rparr>) st,
             take n (drop off content) @ drop n buffer, of_nat n))"
  using ramfs_read_ok [OF assms] by (simp add: Let_def)

lemma ramfs_read_content_witness:
  "ramfs_read 0 [9, 9, 9, 9, 9, 9, 9, 9] 8 demo_ramfs =
    Inr (upd_file 0 (\<lambda>f. f\<lparr>f_offset := f_offset f + 3\<rparr>) demo_ramfs, [2, 3, 4, 9, 9, 9, 9, 9], 3)"
proof -
  have c: "ramfs_content demo_ramfs ino = [0, 1, 2, 3, 4]" for ino
    by (simp add: ramfs_content_def demo_ramfs_fields raw_bytes_def upt_rec)
  show ?thesis
    by (subst ramfs_read_content [OF demo_ramfs_wf]) (simp_all add: demo_ramfs_fields c)
qed

text \<open>
  C22: \<^verbatim>\<open>ramfs_set_size\<close> makes the file hold its clusters' bytes, padded with zeros, up to the new size:
  shrinking truncates the content, and growing appends the bytes that the last cluster holds behind
  the old end, then zeros. Files with other clusters keep their bytes.
\<close>

theorem ramfs_set_size_content:
  assumes "ramfs_file_wf st (ramfs_ino st filp)" and "unat new_size + 128 < 2 ^ 64"
  shows "case ramfs_set_size filp new_size st of
      Inr (st', r) \<Rightarrow>
        (let ino = ramfs_ino st filp
         in r = 0 \<and> ramfs_file_wf st' ino \<and> ri_size (ramfs_inodes st' ino) = new_size \<and>
            ramfs_content st' ino = take (unat new_size)
              (raw_bytes (ramfs_clusters st) (ri_clusters (ramfs_inodes st ino)) @ replicate (unat new_size) 0) \<and>
            (\<forall>c. c \<in> slab_live Ramfs_Cluster_Slab st \<and> c \<notin> set (ri_clusters (ramfs_inodes st ino)) \<longrightarrow>
               c \<in> slab_live Ramfs_Cluster_Slab st' \<and> ramfs_clusters st' c = ramfs_clusters st c))
    | Inl e \<Rightarrow> e = Panic ''Out of physical memory''"
proof (cases "ramfs_set_size filp new_size st")
  case (Inl e)
  with ramfs_set_size_error [OF assms(1) Inl] show ?thesis by simp
next
  case (Inr p)
  obtain st' r where p: "p = (st', r)" by force
  show ?thesis
    using ramfs_set_size_ok [OF assms Inr [unfolded p]] unfolding Inr p by (simp add: Let_def)
qed

lemma ramfs_set_size_content_witness:
  "case ramfs_set_size 0 7 demo_ramfs of
      Inr (st', r) \<Rightarrow>
        (let ino = ramfs_ino demo_ramfs 0
         in r = 0 \<and> ramfs_file_wf st' ino \<and> ri_size (ramfs_inodes st' ino) = 7 \<and>
            ramfs_content st' ino = take (unat (7 :: u64))
              (raw_bytes (ramfs_clusters demo_ramfs) (ri_clusters (ramfs_inodes demo_ramfs ino)) @
               replicate (unat (7 :: u64)) 0) \<and>
            (\<forall>c. c \<in> slab_live Ramfs_Cluster_Slab demo_ramfs \<and>
               c \<notin> set (ri_clusters (ramfs_inodes demo_ramfs ino)) \<longrightarrow>
               c \<in> slab_live Ramfs_Cluster_Slab st' \<and> ramfs_clusters st' c = ramfs_clusters demo_ramfs c))
    | Inl e \<Rightarrow> e = Panic ''Out of physical memory''"
  by (rule ramfs_set_size_content [OF demo_ramfs_wf]) simp

end
