(* ===== verification/Font.thy ===== *)
theory Font
  imports Prelude
begin

text \<open>
  \<^verbatim>\<open>kernel/src/drivers/font.c\<close>: the glyph table of the console, 95 glyphs of 16 rows with two bytes each,
  the first for the space character. \<open>font_rows\<close> holds a glyph per list, \<open>Font16x16\<close> is the flat array.
\<close>

definition font_rows :: "u8 list list" where
  "font_rows = [
    [0, 0, 0, 0, 0, 0, 0, 0, 0, 0, 0, 0, 0, 0, 0, 0, 0, 0, 0, 0, 0, 0, 0, 0, 0, 0, 0, 0, 0, 0, 0, 0],
    [0, 0, 0, 0, 7, 0, 15, 128, 15, 128, 15, 128, 15, 128, 15, 128, 7, 0, 7, 0, 0, 0, 0, 0, 7, 0, 7, 0, 7, 0, 0, 0],
    [0, 0, 14, 56, 14, 56, 14, 56, 14, 56, 6, 48, 0, 0, 0, 0, 0, 0, 0, 0, 0, 0, 0, 0, 0, 0, 0, 0, 0, 0, 0, 0],
    [0, 0, 12, 48, 12, 48, 12, 48, 127, 254, 127, 254, 12, 48, 12, 48, 12, 48, 12, 48, 127, 254, 127, 254, 12, 48, 12, 48, 12, 48, 0, 0],
    [0, 0, 2, 64, 2, 64, 15, 248, 31, 248, 26, 64, 26, 64, 31, 240, 15, 248, 2, 88, 2, 88, 31, 248, 31, 240, 2, 64, 2, 64, 0, 0],
    [0, 0, 0, 0, 0, 0, 14, 16, 14, 48, 14, 112, 0, 224, 1, 192, 3, 128, 7, 0, 14, 112, 12, 112, 8, 112, 0, 0, 0, 0, 0, 0],
    [0, 0, 0, 0, 15, 0, 25, 128, 25, 128, 25, 128, 15, 0, 15, 8, 15, 152, 25, 248, 24, 240, 24, 224, 25, 240, 15, 152, 0, 0, 0, 0],
    [0, 0, 0, 0, 7, 0, 7, 0, 7, 0, 14, 0, 0, 0, 0, 0, 0, 0, 0, 0, 0, 0, 0, 0, 0, 0, 0, 0, 0, 0, 0, 0],
    [0, 0, 0, 0, 0, 240, 1, 192, 3, 128, 7, 0, 14, 0, 14, 0, 14, 0, 14, 0, 7, 0, 3, 128, 1, 192, 0, 240, 0, 0, 0, 0],
    [0, 0, 0, 0, 15, 0, 3, 128, 1, 192, 0, 224, 0, 112, 0, 112, 0, 112, 0, 112, 0, 224, 1, 192, 3, 128, 15, 0, 0, 0, 0, 0],
    [0, 0, 0, 0, 1, 128, 17, 136, 9, 144, 7, 224, 7, 224, 63, 252, 63, 252, 7, 224, 7, 224, 9, 144, 17, 136, 1, 128, 0, 0, 0, 0],
    [0, 0, 0, 0, 0, 0, 0, 0, 1, 128, 1, 128, 1, 128, 15, 240, 15, 240, 1, 128, 1, 128, 1, 128, 0, 0, 0, 0, 0, 0, 0, 0],
    [0, 0, 0, 0, 0, 0, 0, 0, 0, 0, 0, 0, 0, 0, 0, 0, 0, 0, 0, 0, 0, 0, 7, 0, 7, 0, 7, 0, 14, 0, 0, 0],
    [0, 0, 0, 0, 0, 0, 0, 0, 0, 0, 0, 0, 0, 0, 31, 248, 31, 248, 0, 0, 0, 0, 0, 0, 0, 0, 0, 0, 0, 0, 0, 0],
    [0, 0, 0, 0, 0, 0, 0, 0, 0, 0, 0, 0, 0, 0, 0, 0, 0, 0, 0, 0, 0, 0, 7, 0, 7, 0, 7, 0, 0, 0, 0, 0],
    [0, 0, 0, 0, 0, 2, 0, 6, 0, 14, 0, 28, 0, 56, 0, 112, 0, 224, 1, 192, 3, 128, 7, 0, 14, 0, 28, 0, 0, 0, 0, 0],
    [0, 0, 0, 0, 15, 240, 28, 56, 28, 120, 28, 248, 28, 248, 29, 184, 29, 184, 31, 56, 31, 56, 30, 56, 28, 56, 15, 240, 0, 0, 0, 0],
    [0, 0, 0, 0, 1, 128, 1, 128, 3, 128, 31, 128, 31, 128, 3, 128, 3, 128, 3, 128, 3, 128, 3, 128, 3, 128, 31, 240, 0, 0, 0, 0],
    [0, 0, 0, 0, 15, 224, 28, 112, 28, 56, 0, 56, 0, 112, 0, 224, 1, 192, 3, 128, 7, 0, 14, 56, 28, 56, 31, 248, 0, 0, 0, 0],
    [0, 0, 0, 0, 15, 224, 28, 112, 28, 56, 0, 56, 0, 112, 3, 192, 3, 192, 0, 112, 0, 56, 28, 56, 28, 112, 15, 224, 0, 0, 0, 0],
    [0, 0, 0, 0, 0, 224, 1, 224, 3, 224, 6, 224, 12, 224, 24, 224, 31, 248, 31, 248, 0, 224, 0, 224, 0, 224, 3, 248, 0, 0, 0, 0],
    [0, 0, 0, 0, 31, 248, 28, 0, 28, 0, 28, 0, 28, 0, 31, 224, 31, 240, 0, 120, 0, 56, 28, 56, 28, 112, 15, 224, 0, 0, 0, 0],
    [0, 0, 0, 0, 3, 224, 7, 0, 14, 0, 28, 0, 28, 0, 31, 240, 31, 248, 28, 56, 28, 56, 28, 56, 28, 56, 15, 240, 0, 0, 0, 0],
    [0, 0, 0, 0, 31, 252, 28, 28, 28, 28, 28, 28, 0, 28, 0, 56, 0, 112, 0, 224, 1, 192, 3, 128, 3, 128, 3, 128, 0, 0, 0, 0],
    [0, 0, 0, 0, 15, 240, 28, 56, 28, 56, 28, 56, 31, 56, 7, 224, 7, 224, 28, 248, 28, 56, 28, 56, 28, 56, 15, 240, 0, 0, 0, 0],
    [0, 0, 0, 0, 15, 240, 28, 56, 28, 56, 28, 56, 28, 56, 31, 248, 15, 248, 0, 56, 0, 56, 0, 112, 0, 224, 7, 192, 0, 0, 0, 0],
    [0, 0, 0, 0, 0, 0, 0, 0, 3, 128, 3, 128, 3, 128, 0, 0, 0, 0, 3, 128, 3, 128, 3, 128, 0, 0, 0, 0, 0, 0, 0, 0],
    [0, 0, 0, 0, 0, 0, 0, 0, 3, 128, 3, 128, 3, 128, 0, 0, 0, 0, 3, 128, 3, 128, 3, 128, 7, 0, 0, 0, 0, 0, 0, 0],
    [0, 0, 0, 112, 0, 224, 1, 192, 3, 128, 7, 0, 14, 0, 28, 0, 28, 0, 14, 0, 7, 0, 3, 128, 1, 192, 0, 224, 0, 112, 0, 0],
    [0, 0, 0, 0, 0, 0, 0, 0, 0, 0, 63, 252, 63, 252, 0, 0, 0, 0, 63, 252, 63, 252, 0, 0, 0, 0, 0, 0, 0, 0, 0, 0],
    [0, 0, 28, 0, 14, 0, 7, 0, 3, 128, 1, 192, 0, 224, 0, 112, 0, 112, 0, 224, 1, 192, 3, 128, 7, 0, 14, 0, 28, 0, 0, 0],
    [0, 0, 3, 192, 15, 240, 30, 120, 24, 56, 0, 56, 0, 112, 0, 224, 1, 192, 1, 192, 0, 0, 0, 0, 1, 192, 1, 192, 1, 192, 0, 0],
    [0, 0, 15, 248, 28, 28, 28, 28, 28, 28, 28, 28, 28, 252, 28, 252, 28, 252, 28, 252, 28, 0, 28, 0, 28, 0, 31, 240, 7, 248, 0, 0],
    [0, 0, 0, 0, 3, 192, 7, 224, 14, 112, 28, 56, 28, 56, 28, 56, 28, 56, 31, 248, 28, 56, 28, 56, 28, 56, 28, 56, 0, 0, 0, 0],
    [0, 0, 0, 0, 31, 240, 14, 56, 14, 56, 14, 56, 14, 56, 15, 240, 15, 240, 14, 56, 14, 56, 14, 56, 14, 56, 31, 240, 0, 0, 0, 0],
    [0, 0, 0, 0, 7, 240, 14, 56, 28, 56, 28, 0, 28, 0, 28, 0, 28, 0, 28, 0, 28, 0, 28, 56, 14, 56, 7, 240, 0, 0, 0, 0],
    [0, 0, 0, 0, 31, 224, 14, 112, 14, 56, 14, 56, 14, 56, 14, 56, 14, 56, 14, 56, 14, 56, 14, 56, 14, 112, 31, 224, 0, 0, 0, 0],
    [0, 0, 0, 0, 31, 248, 14, 24, 14, 8, 14, 0, 14, 48, 15, 240, 15, 240, 14, 48, 14, 0, 14, 8, 14, 24, 31, 248, 0, 0, 0, 0],
    [0, 0, 0, 0, 31, 248, 14, 24, 14, 8, 14, 0, 14, 48, 15, 240, 15, 240, 14, 48, 14, 0, 14, 0, 14, 0, 31, 0, 0, 0, 0, 0],
    [0, 0, 0, 0, 7, 240, 14, 56, 28, 56, 28, 56, 28, 0, 28, 0, 28, 0, 28, 248, 28, 56, 28, 56, 14, 56, 7, 248, 0, 0, 0, 0],
    [0, 0, 0, 0, 28, 112, 28, 112, 28, 112, 28, 112, 28, 112, 31, 240, 31, 240, 28, 112, 28, 112, 28, 112, 28, 112, 28, 112, 0, 0, 0, 0],
    [0, 0, 0, 0, 15, 224, 3, 128, 3, 128, 3, 128, 3, 128, 3, 128, 3, 128, 3, 128, 3, 128, 3, 128, 3, 128, 15, 224, 0, 0, 0, 0],
    [0, 0, 0, 0, 1, 252, 0, 112, 0, 112, 0, 112, 0, 112, 0, 112, 0, 112, 56, 112, 56, 112, 56, 112, 56, 112, 15, 224, 0, 0, 0, 0],
    [0, 0, 0, 0, 30, 56, 14, 56, 14, 112, 14, 224, 15, 192, 15, 128, 15, 128, 15, 192, 14, 224, 14, 112, 14, 56, 30, 56, 0, 0, 0, 0],
    [0, 0, 0, 0, 31, 0, 14, 0, 14, 0, 14, 0, 14, 0, 14, 0, 14, 0, 14, 0, 14, 8, 14, 24, 14, 56, 31, 248, 0, 0, 0, 0],
    [0, 0, 0, 0, 28, 28, 30, 60, 31, 124, 31, 252, 31, 252, 29, 220, 28, 156, 28, 28, 28, 28, 28, 28, 28, 28, 28, 28, 0, 0, 0, 0],
    [0, 0, 0, 0, 28, 28, 28, 28, 30, 28, 31, 28, 31, 156, 29, 220, 28, 252, 28, 124, 28, 60, 28, 28, 28, 28, 28, 28, 0, 0, 0, 0],
    [0, 0, 0, 0, 3, 224, 7, 240, 14, 56, 28, 28, 28, 28, 28, 28, 28, 28, 28, 28, 28, 28, 14, 56, 7, 240, 3, 224, 0, 0, 0, 0],
    [0, 0, 0, 0, 31, 240, 14, 56, 14, 56, 14, 56, 14, 56, 15, 240, 15, 240, 14, 0, 14, 0, 14, 0, 14, 0, 31, 0, 0, 0, 0, 0],
    [0, 0, 0, 0, 3, 224, 15, 120, 14, 56, 28, 28, 28, 28, 28, 28, 28, 28, 28, 124, 28, 252, 15, 248, 15, 248, 0, 56, 0, 252, 0, 0],
    [0, 0, 0, 0, 31, 240, 14, 56, 14, 56, 14, 56, 14, 56, 15, 240, 15, 240, 14, 112, 14, 56, 14, 56, 14, 56, 30, 56, 0, 0, 0, 0],
    [0, 0, 0, 0, 15, 240, 28, 56, 28, 56, 28, 56, 28, 0, 15, 224, 7, 240, 0, 56, 28, 56, 28, 56, 28, 56, 15, 240, 0, 0, 0, 0],
    [0, 0, 0, 0, 31, 252, 25, 204, 17, 196, 1, 192, 1, 192, 1, 192, 1, 192, 1, 192, 1, 192, 1, 192, 1, 192, 7, 240, 0, 0, 0, 0],
    [0, 0, 0, 0, 28, 112, 28, 112, 28, 112, 28, 112, 28, 112, 28, 112, 28, 112, 28, 112, 28, 112, 28, 112, 28, 112, 15, 224, 0, 0, 0, 0],
    [0, 0, 0, 0, 28, 112, 28, 112, 28, 112, 28, 112, 28, 112, 28, 112, 28, 112, 28, 112, 28, 112, 14, 224, 7, 192, 3, 128, 0, 0, 0, 0],
    [0, 0, 0, 0, 28, 28, 28, 28, 28, 28, 28, 28, 28, 28, 28, 156, 28, 156, 28, 156, 15, 248, 15, 248, 7, 112, 7, 112, 0, 0, 0, 0],
    [0, 0, 0, 0, 28, 112, 28, 112, 28, 112, 14, 224, 7, 192, 3, 128, 3, 128, 7, 192, 14, 224, 28, 112, 28, 112, 28, 112, 0, 0, 0, 0],
    [0, 0, 0, 0, 28, 112, 28, 112, 28, 112, 28, 112, 28, 112, 14, 224, 7, 192, 3, 128, 3, 128, 3, 128, 3, 128, 15, 224, 0, 0, 0, 0],
    [0, 0, 0, 0, 31, 248, 28, 56, 24, 56, 16, 112, 0, 224, 1, 192, 3, 128, 7, 0, 14, 8, 28, 24, 28, 56, 31, 248, 0, 0, 0, 0],
    [0, 0, 0, 0, 7, 240, 7, 0, 7, 0, 7, 0, 7, 0, 7, 0, 7, 0, 7, 0, 7, 0, 7, 0, 7, 0, 7, 240, 0, 0, 0, 0],
    [0, 0, 0, 0, 16, 0, 24, 0, 28, 0, 14, 0, 7, 0, 3, 128, 1, 192, 0, 224, 0, 112, 0, 56, 0, 28, 0, 7, 0, 0, 0, 0],
    [0, 0, 0, 0, 7, 240, 0, 112, 0, 112, 0, 112, 0, 112, 0, 112, 0, 112, 0, 112, 0, 112, 0, 112, 0, 112, 7, 240, 0, 0, 0, 0],
    [0, 0, 1, 128, 3, 192, 7, 224, 14, 112, 28, 56, 0, 0, 0, 0, 0, 0, 0, 0, 0, 0, 0, 0, 0, 0, 0, 0, 0, 0, 0, 0],
    [0, 0, 0, 0, 0, 0, 0, 0, 0, 0, 0, 0, 0, 0, 0, 0, 0, 0, 0, 0, 0, 0, 0, 0, 0, 0, 0, 0, 127, 255, 127, 255],
    [0, 0, 0, 0, 28, 0, 28, 0, 7, 0, 7, 0, 0, 0, 0, 0, 0, 0, 0, 0, 0, 0, 0, 0, 0, 0, 0, 0, 0, 0, 0, 0],
    [0, 0, 0, 0, 0, 0, 0, 0, 0, 0, 0, 0, 15, 224, 0, 112, 0, 112, 15, 240, 28, 112, 28, 112, 28, 112, 15, 216, 0, 0, 0, 0],
    [0, 0, 0, 0, 30, 0, 14, 0, 14, 0, 14, 0, 15, 240, 14, 56, 14, 56, 14, 56, 14, 56, 14, 56, 14, 56, 27, 240, 0, 0, 0, 0],
    [0, 0, 0, 0, 0, 0, 0, 0, 0, 0, 0, 0, 15, 224, 28, 112, 28, 112, 28, 0, 28, 0, 28, 112, 28, 112, 15, 224, 0, 0, 0, 0],
    [0, 0, 0, 0, 0, 248, 0, 112, 0, 112, 0, 112, 15, 240, 28, 112, 28, 112, 28, 112, 28, 112, 28, 112, 28, 112, 15, 216, 0, 0, 0, 0],
    [0, 0, 0, 0, 0, 0, 0, 0, 0, 0, 0, 0, 15, 224, 28, 112, 28, 112, 31, 240, 28, 0, 28, 112, 28, 112, 15, 224, 0, 0, 0, 0],
    [0, 0, 0, 0, 3, 224, 7, 112, 7, 112, 7, 0, 7, 0, 31, 224, 31, 224, 7, 0, 7, 0, 7, 0, 7, 0, 31, 192, 0, 0, 0, 0],
    [0, 0, 0, 0, 0, 0, 0, 0, 0, 0, 0, 0, 15, 216, 28, 112, 28, 112, 28, 112, 28, 112, 15, 240, 7, 240, 0, 112, 28, 112, 15, 224],
    [0, 0, 0, 0, 30, 0, 14, 0, 14, 0, 14, 0, 14, 240, 15, 56, 15, 56, 14, 56, 14, 56, 14, 56, 14, 56, 30, 56, 0, 0, 0, 0],
    [0, 0, 0, 0, 1, 192, 1, 192, 1, 192, 0, 0, 15, 192, 1, 192, 1, 192, 1, 192, 1, 192, 1, 192, 1, 192, 15, 248, 0, 0, 0, 0],
    [0, 0, 0, 0, 0, 112, 0, 112, 0, 112, 0, 0, 3, 240, 0, 112, 0, 112, 0, 112, 0, 112, 0, 112, 0, 112, 28, 112, 12, 240, 7, 224],
    [0, 0, 0, 0, 30, 0, 14, 0, 14, 0, 14, 0, 14, 56, 14, 112, 14, 224, 15, 192, 14, 224, 14, 112, 14, 56, 30, 56, 0, 0, 0, 0],
    [0, 0, 0, 0, 15, 192, 1, 192, 1, 192, 1, 192, 1, 192, 1, 192, 1, 192, 1, 192, 1, 192, 1, 192, 1, 192, 15, 248, 0, 0, 0, 0],
    [0, 0, 0, 0, 0, 0, 0, 0, 0, 0, 0, 0, 31, 248, 28, 156, 28, 156, 28, 156, 28, 156, 28, 156, 28, 156, 28, 156, 0, 0, 0, 0],
    [0, 0, 0, 0, 0, 0, 0, 0, 0, 0, 0, 0, 31, 224, 28, 112, 28, 112, 28, 112, 28, 112, 28, 112, 28, 112, 28, 112, 0, 0, 0, 0],
    [0, 0, 0, 0, 0, 0, 0, 0, 0, 0, 0, 0, 15, 224, 28, 112, 28, 112, 28, 112, 28, 112, 28, 112, 28, 112, 15, 224, 0, 0, 0, 0],
    [0, 0, 0, 0, 0, 0, 0, 0, 0, 0, 0, 0, 27, 240, 14, 56, 14, 56, 14, 56, 14, 56, 14, 56, 15, 240, 14, 0, 14, 0, 31, 0],
    [0, 0, 0, 0, 0, 0, 0, 0, 0, 0, 0, 0, 31, 176, 56, 224, 56, 224, 56, 224, 56, 224, 56, 224, 31, 224, 0, 224, 0, 224, 1, 240],
    [0, 0, 0, 0, 0, 0, 0, 0, 0, 0, 0, 0, 30, 240, 15, 248, 15, 56, 14, 0, 14, 0, 14, 0, 14, 0, 31, 0, 0, 0, 0, 0],
    [0, 0, 0, 0, 0, 0, 0, 0, 0, 0, 0, 0, 15, 224, 28, 48, 28, 48, 15, 128, 3, 224, 24, 112, 24, 112, 15, 224, 0, 0, 0, 0],
    [0, 0, 0, 0, 0, 0, 1, 0, 3, 0, 7, 0, 31, 240, 7, 0, 7, 0, 7, 0, 7, 0, 7, 112, 7, 112, 3, 224, 0, 0, 0, 0],
    [0, 0, 0, 0, 0, 0, 0, 0, 0, 0, 0, 0, 28, 112, 28, 112, 28, 112, 28, 112, 28, 112, 28, 112, 28, 112, 15, 216, 0, 0, 0, 0],
    [0, 0, 0, 0, 0, 0, 0, 0, 0, 0, 0, 0, 28, 112, 28, 112, 28, 112, 28, 112, 28, 112, 14, 224, 7, 192, 3, 128, 0, 0, 0, 0],
    [0, 0, 0, 0, 0, 0, 0, 0, 0, 0, 0, 0, 28, 28, 28, 28, 28, 28, 28, 156, 28, 156, 15, 248, 7, 112, 7, 112, 0, 0, 0, 0],
    [0, 0, 0, 0, 0, 0, 0, 0, 0, 0, 0, 0, 28, 224, 28, 224, 15, 192, 7, 128, 7, 128, 15, 192, 28, 224, 28, 224, 0, 0, 0, 0],
    [0, 0, 0, 0, 0, 0, 0, 0, 0, 0, 0, 0, 14, 56, 14, 56, 14, 56, 14, 56, 14, 56, 7, 240, 3, 224, 0, 224, 1, 192, 31, 128],
    [0, 0, 0, 0, 0, 0, 0, 0, 0, 0, 0, 0, 31, 224, 24, 224, 17, 192, 3, 128, 7, 0, 14, 32, 28, 96, 31, 224, 0, 0, 0, 0],
    [0, 0, 0, 0, 1, 248, 3, 128, 3, 128, 3, 128, 7, 0, 28, 0, 28, 0, 7, 0, 3, 128, 3, 128, 3, 128, 1, 248, 0, 0, 0, 0],
    [0, 0, 1, 192, 1, 192, 1, 192, 1, 192, 1, 192, 1, 192, 1, 192, 1, 192, 1, 192, 1, 192, 1, 192, 1, 192, 1, 192, 1, 192, 0, 0],
    [0, 0, 0, 0, 31, 128, 1, 192, 1, 192, 1, 192, 0, 224, 0, 56, 0, 56, 0, 224, 1, 192, 1, 192, 1, 192, 31, 128, 0, 0, 0, 0],
    [0, 0, 0, 0, 31, 28, 59, 156, 57, 220, 56, 248, 0, 0, 0, 0, 0, 0, 0, 0, 0, 0, 0, 0, 0, 0, 0, 0, 0, 0, 0, 0]]"

definition Font16x16 :: "u8 list" where
  "Font16x16 = concat font_rows"

lemma font_rows_length: "length font_rows = 95"
  by (simp add: font_rows_def)

lemma font_row_length: "\<forall>r \<in> set font_rows. length r = 32"
  by (simp add: font_rows_def)

lemma length_Font16x16: "length Font16x16 = 3040"
proof -
  have "length (concat rs) = 32 * length rs" if "\<forall>r \<in> set rs. length r = 32" for rs :: "u8 list list"
    using that by (induction rs) auto
  then show ?thesis using font_row_length by (simp add: Font16x16_def font_rows_length)
qed

end
