(* ===== verification/Tty.thy ===== *)
theory Tty
  imports VfsTypes Font CStd
begin

text \<open>
  \<^verbatim>\<open>kernel/src/drivers/tty.c\<close>: the virtual terminals. A terminal is a screen of characters with a
  cursor and an escape-sequence state, and a ring buffer of input characters. Positions are 16-bit
  words; comparisons of a position with \<^verbatim>\<open>size - 1\<close>, which C computes as \<^verbatim>\<open>int\<close>, are comparisons of
  natural numbers. \<open>fb_mem\<close> is the memory of the framebuffer, one 32-bit pixel per word offset.
\<close>

section \<open>State\<close>

abbreviation VT_MAX_WIDTH :: nat where "VT_MAX_WIDTH \<equiv> 240"
abbreviation VT_MAX_HEIGHT :: nat where "VT_MAX_HEIGHT \<equiv> 135"
abbreviation VT_CELLS :: nat where "VT_CELLS \<equiv> 32400"
abbreviation VT_FLAG_BYTES :: nat where "VT_FLAG_BYTES \<equiv> 4051"
abbreviation VT_INPUT_BUFFER_LENGTH :: u32 where "VT_INPUT_BUFFER_LENGTH \<equiv> 4096"

definition VT_ESCAPE_NONE :: u8 where "VT_ESCAPE_NONE = 0"
definition VT_ESCAPE_ESC :: u8 where "VT_ESCAPE_ESC = 1"
definition VT_ESCAPE_ESC_PAREN :: u8 where "VT_ESCAPE_ESC_PAREN = 2"

record framebuffer =
  fb_width :: u64
  fb_height :: u64
  fb_pitch :: u64

record vt_device =
  cursor_row :: u16
  cursor_column :: u16
  terminal_width :: u16
  terminal_height :: u16
  escape_state :: u8
  terminal_buffer :: "u8 list"
  repaint_flags :: "u8 list"
  vt_framebuffer :: framebuffer
  input_rb_head_idx :: u32
  input_rb_tail_idx :: u32
  vt_device_number :: u32
  input_rb :: "u8 list"

text \<open>The three terminals \<^verbatim>\<open>tty1\<close>, \<^verbatim>\<open>tty2\<close> and \<^verbatim>\<open>tty3\<close>, and the address of each as a device pointer.\<close>

datatype tty_id = Tty1 | Tty2 | Tty3

record tty_state = vfs_state +
  ttys :: "tty_id \<Rightarrow> vt_device"
  active_vt :: tty_id
  fb_mem :: "u64 \<Rightarrow> u32"

fun tty_addr :: "tty_id \<Rightarrow> u64" where
  "tty_addr Tty1 = 0xffffffff80200000"
| "tty_addr Tty2 = 0xffffffff80210000"
| "tty_addr Tty3 = 0xffffffff80220000"

definition tty_of :: "u64 \<Rightarrow> tty_id res" where
  "tty_of dev = (if dev = tty_addr Tty1 then Inr Tty1 else if dev = tty_addr Tty2 then Inr Tty2
                 else if dev = tty_addr Tty3 then Inr Tty3 else Inl Invalid_Access)"

definition upd_tty :: "tty_id \<Rightarrow> vt_device \<Rightarrow> 'z tty_state_scheme \<Rightarrow> 'z tty_state_scheme" where
  "upd_tty t vt st = st\<lparr>ttys := (ttys st)(t := vt)\<rparr>"

section \<open>Screen\<close>

definition vt_device_init :: "framebuffer \<Rightarrow> u32 \<Rightarrow> vt_device" where
  "vt_device_init fb device_number =
     \<lparr>cursor_row = 0, cursor_column = 0,
      terminal_width = (if fb_width fb div 16 \<le> 240 then ucast (fb_width fb div 16) else 240),
      terminal_height = (if fb_height fb div 16 \<le> 135 then ucast (fb_height fb div 16) else 135),
      escape_state = VT_ESCAPE_NONE,
      terminal_buffer = replicate VT_CELLS 0, repaint_flags = replicate VT_FLAG_BYTES 0xFF,
      vt_framebuffer = fb, input_rb_head_idx = 0, input_rb_tail_idx = 0,
      vt_device_number = device_number, input_rb = replicate 4096 0\<rparr>"

definition cell_index :: "u16 \<Rightarrow> u16 \<Rightarrow> nat" where
  "cell_index row column = unat row * VT_MAX_WIDTH + unat column"

text \<open>\<^verbatim>\<open>repaint_flags[i >> 3] |= 1 << (i % 8)\<close>\<close>

definition set_flag :: "nat \<Rightarrow> u8 list \<Rightarrow> u8 list res" where
  "set_flag i flags =
     res_bind (array_get flags (i div 8)) (\<lambda>b. array_set flags (i div 8) (b OR push_bit (i mod 8) 1))"

definition vt_set_char :: "u8 \<Rightarrow> u16 \<Rightarrow> u16 \<Rightarrow> vt_device \<Rightarrow> vt_device res" where
  "vt_set_char character row column vt =
     (let i = cell_index row column
      in res_bind (array_set (terminal_buffer vt) i character) (\<lambda>buf.
         res_bind (set_flag i (repaint_flags vt)) (\<lambda>flags.
           Inr (vt\<lparr>terminal_buffer := buf, repaint_flags := flags\<rparr>))))"

definition vt_set_cursor :: "u16 \<Rightarrow> u16 \<Rightarrow> vt_device \<Rightarrow> vt_device res" where
  "vt_set_cursor row column vt =
     res_bind (set_flag (cell_index (cursor_row vt) (cursor_column vt)) (repaint_flags vt)) (\<lambda>flags.
     res_bind (set_flag (cell_index row column) flags) (\<lambda>flags'.
       Inr (vt\<lparr>cursor_row := row, cursor_column := column, repaint_flags := flags'\<rparr>)))"

text \<open>
  With a height of 0 the loop bound \<^verbatim>\<open>terminal_height - 1\<close> is converted to the largest \<^verbatim>\<open>size_t\<close> and the
  loop leaves the screen buffer.
\<close>

definition vt_shift_rows :: "vt_device \<Rightarrow> vt_device res" where
  "vt_shift_rows vt =
     (if terminal_height vt = 0 \<and> terminal_width vt \<noteq> 0 then Inl Invalid_Access
      else res_bind
        (res_fold (\<lambda>y. res_fold (\<lambda>x vt.
             res_bind (array_get (terminal_buffer vt) (VT_MAX_WIDTH * (y + 1) + x)) (\<lambda>character.
               vt_set_char character (of_nat y) (of_nat x) vt))
           [0..<unat (terminal_width vt)])
          [0..<unat (terminal_height vt) - 1] vt)
        (\<lambda>vt1. res_fold (\<lambda>x. vt_set_char 32 (terminal_height vt1 - 1) (of_nat x))
           [0..<unat (terminal_width vt1)] vt1))"

text \<open>
  The loop of the escape sequence \<open>J\<close>, which clears from the cursor down. On a terminal whose cursor
  lies inside its screen it runs at most once per cell, so the fuel is never used up.
\<close>

fun vt_clear_down :: "nat \<Rightarrow> u16 \<Rightarrow> u16 \<Rightarrow> vt_device \<Rightarrow> vt_device res" where
  "vt_clear_down 0 row col vt = Inl Diverges"
| "vt_clear_down (Suc fuel) row col vt =
     res_bind (vt_set_char 32 row col vt) (\<lambda>vt1.
       let col1 = col + 1;
           row1 = (if col1 = terminal_width vt then row + 1 else row);
           col2 = (if col1 = terminal_width vt then 0 else col1)
       in if row1 = terminal_height vt then Inr vt1 else vt_clear_down fuel row1 col2 vt1)"

definition at_last_row :: "vt_device \<Rightarrow> bool" where
  "at_last_row vt \<longleftrightarrow> unat (cursor_row vt) + 1 = unat (terminal_height vt)"

definition at_last_column :: "vt_device \<Rightarrow> bool" where
  "at_last_column vt \<longleftrightarrow> unat (cursor_column vt) + 1 = unat (terminal_width vt)"

text \<open>Moving to the start of the next line, scrolling at the bottom of the screen.\<close>

definition vt_next_line :: "vt_device \<Rightarrow> vt_device res" where
  "vt_next_line vt =
     (if at_last_row vt then res_bind (vt_set_cursor (cursor_row vt) 0 vt) vt_shift_rows
      else vt_set_cursor (cursor_row vt + 1) 0 vt)"

abbreviation end_escape :: "vt_device \<Rightarrow> vt_device res" where
  "end_escape vt \<equiv> Inr (vt\<lparr>escape_state := VT_ESCAPE_NONE\<rparr>)"

definition vt_command :: "u8 \<Rightarrow> vt_device \<Rightarrow> vt_device res" where
  "vt_command c vt =
     res_bind
       (if c = 65 then (if cursor_row vt \<noteq> 0 then vt_set_cursor (cursor_row vt - 1) (cursor_column vt) vt else Inr vt)
        else if c = 66 then (if \<not> at_last_row vt then vt_set_cursor (cursor_row vt + 1) (cursor_column vt) vt else Inr vt)
        else if c = 67 then (if \<not> at_last_column vt then vt_set_cursor (cursor_row vt) (cursor_column vt + 1) vt else Inr vt)
        else if c = 68 then (if cursor_column vt \<noteq> 0 then vt_set_cursor (cursor_row vt) (cursor_column vt - 1) vt else Inr vt)
        else if c = 75 then res_fold (\<lambda>col. vt_set_char 32 (cursor_row vt) (of_nat col))
                              [unat (cursor_column vt)..<unat (terminal_width vt)] vt
        else if c = 72 then vt_set_cursor 0 0 vt
        else if c = 74 then vt_clear_down (Suc VT_CELLS) (cursor_row vt) (cursor_column vt) vt
        else Inr vt)
       end_escape"

definition vt_plain :: "u8 \<Rightarrow> vt_device \<Rightarrow> vt_device res" where
  "vt_plain c vt =
     (if c = 0x1B then Inr (vt\<lparr>escape_state := VT_ESCAPE_ESC\<rparr>)
      else if c = 10 then vt_next_line vt
      else if c = 13 then vt_set_cursor (cursor_row vt) 0 vt
      else if c = 8 then
        (if cursor_column vt > 0 then vt_set_cursor (cursor_row vt) (cursor_column vt - 1) vt else Inr vt)
      else res_bind (vt_set_char c (cursor_row vt) (cursor_column vt) vt) (\<lambda>vt1.
        if at_last_column vt1 then vt_next_line vt1
        else vt_set_cursor (cursor_row vt1) (cursor_column vt1 + 1) vt1))"

definition vt_putc :: "u8 \<Rightarrow> vt_device \<Rightarrow> vt_device res" where
  "vt_putc c vt =
     (if escape_state vt = VT_ESCAPE_ESC_PAREN then vt_command c vt
      else if escape_state vt = VT_ESCAPE_ESC then
        Inr (vt\<lparr>escape_state := if c = 91 then VT_ESCAPE_ESC_PAREN else VT_ESCAPE_NONE\<rparr>)
      else if escape_state vt = VT_ESCAPE_NONE then vt_plain c vt
      else Inl Halted)"

section \<open>Painting\<close>

text \<open>Divisions by the screen size trap when it is 0 as a 16-bit number.\<close>

definition vt_background_color :: "u16 \<Rightarrow> u16 \<Rightarrow> u16 \<Rightarrow> u16 \<Rightarrow> u16 \<Rightarrow> u32 res" where
  "vt_background_color x y width height device_number =
     (if width = 0 \<or> height = 0 then Inl Invalid_Access
      else let red = (if device_number = 1 then 60 else 0) + ucast x * 128 div ucast width;
               green = (if device_number = 2 then 60 else 0);
               blue = (if device_number = 3 then 60 else 0) + ucast y * 128 div ucast height
           in Inr (push_bit 16 red + push_bit 8 green + blue))"

definition desktop_color :: "u16 \<Rightarrow> u16 \<Rightarrow> u16 \<Rightarrow> u16 \<Rightarrow> u32 res" where
  "desktop_color x y width height =
     (if width = 0 \<or> height = 0 then Inl Invalid_Access
      else let blue = ucast x * 255 div ucast width;
               red = ucast y * 255 div ucast height;
               green = (red + blue) div 2
           in Inr (push_bit 16 red + push_bit 8 green + blue))"

definition fb_write :: "framebuffer \<Rightarrow> u16 \<Rightarrow> u16 \<Rightarrow> u32 \<Rightarrow> (u64 \<Rightarrow> u32) \<Rightarrow> u64 \<Rightarrow> u32" where
  "fb_write fb x y color m = m(ucast y * (fb_pitch fb div 4) + ucast x := color)"

text \<open>
  The loops \<^verbatim>\<open>for (uint16_t y = 0; y < height; y++)\<close> never end when the height does not fit 16 bits.
\<close>

definition repaint_desktop :: "framebuffer \<Rightarrow> (u64 \<Rightarrow> u32) \<Rightarrow> (u64 \<Rightarrow> u32) res" where
  "repaint_desktop fb m =
     (if fb_height fb \<ge> 0x10000 \<or> fb_height fb \<noteq> 0 \<and> fb_width fb \<ge> 0x10000 then Inl Diverges
      else res_fold (\<lambda>y. res_fold (\<lambda>x m.
             res_bind (desktop_color (of_nat x) (of_nat y) (ucast (fb_width fb)) (ucast (fb_height fb)))
               (\<lambda>color. Inr (fb_write fb (of_nat x) (of_nat y) color m)))
             [0..<unat (fb_width fb)])
           [0..<unat (fb_height fb)] m)"

abbreviation VT_TEXT_COLOR :: u32 where "VT_TEXT_COLOR \<equiv> 0x00ff00"

text \<open>
  One pixel of a character: \<open>half\<close> is 0 for the loop over the left byte of the glyph row and 1 for the
  right one, whose cursor column is the last one instead of the first.
\<close>

definition vt_paint_pixel ::
  "nat \<Rightarrow> u16 \<Rightarrow> u16 \<Rightarrow> vt_device \<Rightarrow> nat \<Rightarrow> nat \<Rightarrow> nat \<Rightarrow> (u64 \<Rightarrow> u32) \<Rightarrow> (u64 \<Rightarrow> u32) res" where
  "vt_paint_pixel glyph_idx row column vt i half j m =
     res_bind (array_get Font16x16 (glyph_idx * 32 + i * 2 + half)) (\<lambda>b.
       let fb = vt_framebuffer vt;
           pixel_x = 16 * column + of_nat j + 8 * of_nat half;
           pixel_y = 16 * row + of_nat i
       in res_bind
            (if drop_bit (7 - j) b AND 1 = 1 then Inr VT_TEXT_COLOR
             else vt_background_color pixel_x pixel_y (ucast (fb_width fb)) (ucast (fb_height fb))
                    (ucast (vt_device_number vt)))
            (\<lambda>color.
               let color' = (if row = cursor_row vt \<and> column = cursor_column vt \<and>
                                (i = 0 \<or> i = 15 \<or> (if half = 0 then j = 0 else j = 7))
                             then VT_TEXT_COLOR else color)
               in Inr (fb_write fb pixel_x pixel_y color' m)))"

definition glyph_index :: "u8 \<Rightarrow> nat" where
  "glyph_index c = (if c < 32 \<or> unat c > 32 + 95 then 0 else unat (c - 32))"

definition vt_repaint_char :: "u16 \<Rightarrow> u16 \<Rightarrow> vt_device \<Rightarrow> (u64 \<Rightarrow> u32) \<Rightarrow> (u64 \<Rightarrow> u32) res" where
  "vt_repaint_char row column vt m =
     res_bind (array_get (terminal_buffer vt) (cell_index row column)) (\<lambda>c.
       res_fold (\<lambda>i m1. res_bind
           (res_fold (\<lambda>j. vt_paint_pixel (glyph_index c) row column vt i 0 j) [0..<8] m1)
           (res_fold (\<lambda>j. vt_paint_pixel (glyph_index c) row column vt i 1 j) [0..<8]))
         [0..<16] m)"

definition vt_repaint_terminal :: "vt_device \<times> (u64 \<Rightarrow> u32) \<Rightarrow> (vt_device \<times> (u64 \<Rightarrow> u32)) res" where
  "vt_repaint_terminal s =
     res_fold (\<lambda>i. res_fold (\<lambda>j (vt, m).
         let k = cell_index (of_nat i) (of_nat j)
         in res_bind (array_get (repaint_flags vt) (k div 8)) (\<lambda>flags.
              if flags AND push_bit (k mod 8) 1 \<noteq> 0
              then res_bind (vt_repaint_char (of_nat i) (of_nat j) vt m) (\<lambda>m1.
                     Inr (vt\<lparr>repaint_flags := (repaint_flags vt)[k div 8 := flags XOR push_bit (k mod 8) 1]\<rparr>, m1))
              else Inr (vt, m)))
         [0..<unat (terminal_width (fst s))])
       [0..<unat (terminal_height (fst s))] s"

definition repaint_tty :: "tty_id \<Rightarrow> 'z tty_state_scheme \<Rightarrow> 'z tty_state_scheme res" where
  "repaint_tty t st =
     res_bind (vt_repaint_terminal (ttys st t, fb_mem st)) (\<lambda>(vt, m).
       Inr ((upd_tty t vt st)\<lparr>fb_mem := m\<rparr>))"

definition set_active_vt :: "tty_id \<Rightarrow> 'z tty_state_scheme \<Rightarrow> 'z tty_state_scheme res" where
  "set_active_vt t st =
     (let st1 = (upd_tty t ((ttys st t)\<lparr>repaint_flags := replicate VT_FLAG_BYTES 0xFF\<rparr>) st)\<lparr>active_vt := t\<rparr>
      in res_bind (repaint_desktop (vt_framebuffer (ttys st1 t)) (fb_mem st1)) (\<lambda>m.
           repaint_tty t (st1\<lparr>fb_mem := m\<rparr>)))"

definition terminal_init_1 :: "framebuffer list \<Rightarrow> 'z tty_state_scheme \<Rightarrow> 'z tty_state_scheme res" where
  "terminal_init_1 framebuffers st =
     (case framebuffers of
        [] \<Rightarrow> Inl Halted
      | fb # _ \<Rightarrow> set_active_vt Tty1
          (upd_tty Tty3 (vt_device_init fb 3) (upd_tty Tty2 (vt_device_init fb 2)
            (upd_tty Tty1 (vt_device_init fb 1) st))))"

section \<open>The device\<close>

fun vt_puts :: "u8 list \<Rightarrow> vt_device \<Rightarrow> vt_device res" where
  "vt_puts [] vt = Inr vt"
| "vt_puts (c # cs) vt = res_bind (vt_putc c vt) (vt_puts cs)"

definition vt_write :: "u64 \<Rightarrow> u8 list \<Rightarrow> u64 \<Rightarrow> u64 \<Rightarrow> 'z tty_state_scheme \<Rightarrow> ('z tty_state_scheme \<times> u64) res" where
  "vt_write dev buffer offset len st =
     res_bind (tty_of dev) (\<lambda>t.
       if length buffer < unat len then Inl Invalid_Access
       else res_bind (vt_puts (take (unat len) buffer) (ttys st t)) (\<lambda>vt.
              let st1 = upd_tty t vt st
              in if t = active_vt st1 then res_bind (repaint_tty t st1) (\<lambda>st2. Inr (st2, len))
                 else Inr (st1, len)))"

definition printk :: "u8 list \<Rightarrow> 'z tty_state_scheme \<Rightarrow> 'z tty_state_scheme res" where
  "printk s st = res_bind (vt_write (tty_addr Tty1) s 0 (of_nat (length s)) st) (\<lambda>(st1, r). Inr st1)"

definition printk_uint8 :: "u8 \<Rightarrow> 'z tty_state_scheme \<Rightarrow> 'z tty_state_scheme res" where
  "printk_uint8 v = printk (hex_string 2 (unat v))"

definition printk_uint16 :: "u16 \<Rightarrow> 'z tty_state_scheme \<Rightarrow> 'z tty_state_scheme res" where
  "printk_uint16 v = printk (hex_string 4 (unat v))"

definition printk_uint32 :: "u32 \<Rightarrow> 'z tty_state_scheme \<Rightarrow> 'z tty_state_scheme res" where
  "printk_uint32 v = printk (hex_string 8 (unat v))"

definition printk_uint64 :: "u64 \<Rightarrow> 'z tty_state_scheme \<Rightarrow> 'z tty_state_scheme res" where
  "printk_uint64 v = printk (hex_string 16 (unat v))"

section \<open>Input\<close>

definition KBD_ASCII :: u8 where "KBD_ASCII = 0xD1"
definition KBD_NONASCII :: u8 where "KBD_NONASCII = 0xD2"
definition KBD_ESC :: u8 where "KBD_ESC = 0xE1"
definition KBD_BACKSPACE :: u8 where "KBD_BACKSPACE = 0xE2"
definition KBD_ARROW_UP :: u8 where "KBD_ARROW_UP = 0xE3"
definition KBD_ARROW_DOWN :: u8 where "KBD_ARROW_DOWN = 0xE4"
definition KBD_ARROW_RIGHT :: u8 where "KBD_ARROW_RIGHT = 0xE5"
definition KBD_ARROW_LEFT :: u8 where "KBD_ARROW_LEFT = 0xE6"

record keyboard_event =
  symbol_type :: u8
  symbol :: u8
  scancode :: u8

definition vt_append_input_character :: "u8 \<Rightarrow> vt_device \<Rightarrow> vt_device res" where
  "vt_append_input_character character vt =
     (if (VT_INPUT_BUFFER_LENGTH + input_rb_head_idx vt - input_rb_tail_idx vt) mod VT_INPUT_BUFFER_LENGTH = 1
      then Inr vt
      else res_bind (array_set (input_rb vt) (unat (input_rb_tail_idx vt)) character) (\<lambda>rb.
             Inr (vt\<lparr>input_rb := rb,
                     input_rb_tail_idx := (input_rb_tail_idx vt + 1) mod VT_INPUT_BUFFER_LENGTH\<rparr>)))"

definition vt_append_all :: "u8 list \<Rightarrow> vt_device \<Rightarrow> vt_device res" where
  "vt_append_all = res_fold vt_append_input_character"

definition vt_update_input :: "keyboard_event \<Rightarrow> vt_device \<Rightarrow> vt_device res" where
  "vt_update_input e vt =
     (if symbol_type e = KBD_ASCII then vt_append_input_character (symbol e) vt
      else if symbol_type e = KBD_NONASCII then
        (if symbol e = KBD_ESC then vt_append_input_character 0x1B vt
         else if symbol e = KBD_BACKSPACE then vt_append_input_character 0xFF vt
         else if symbol e = KBD_ARROW_UP then vt_append_all [0x1B, 91, 65] vt
         else if symbol e = KBD_ARROW_DOWN then vt_append_all [0x1B, 91, 66] vt
         else if symbol e = KBD_ARROW_RIGHT then vt_append_all [0x1B, 91, 67] vt
         else if symbol e = KBD_ARROW_LEFT then vt_append_all [0x1B, 91, 68] vt
         else Inr vt)
      else Inr vt)"

text \<open>
  \<^verbatim>\<open>vt_read\<close>: \<open>vt_drain\<close> is the inner loop, with \<open>n\<close> bytes stored so far; it returns whether the
  request is complete. Every \<^verbatim>\<open>task_yield\<close> of the outer loop lets the rest of the system run: the list
  \<open>env\<close> holds what happens during the successive calls, and the read blocks forever when it ends.
\<close>

function vt_drain :: "u64 \<Rightarrow> u64 \<Rightarrow> u8 list \<Rightarrow> vt_device \<Rightarrow> (vt_device \<times> u8 list \<times> u64 \<times> bool) res" where
  "vt_drain len n buffer vt =
     (if input_rb_head_idx vt = input_rb_tail_idx vt then Inr (vt, buffer, n, False)
      else if length buffer \<le> unat n then Inl Invalid_Access
      else res_bind (array_get (input_rb vt) (unat (input_rb_head_idx vt))) (\<lambda>c.
           let vt1 = vt\<lparr>input_rb_head_idx := (input_rb_head_idx vt + 1) mod VT_INPUT_BUFFER_LENGTH\<rparr>;
               buffer1 = buffer[unat n := c]
           in if n + 1 = len then Inr (vt1, buffer1, n + 1, True)
              else if n + 1 = 0 then Inl Invalid_Access
              else vt_drain len (n + 1) buffer1 vt1))"
  by pat_completeness auto
termination
proof (relation "measure (\<lambda>(len, n, buffer, vt). length buffer - unat n)", simp, goal_cases)
  case (1 len n buffer vt c vt1 buffer1)
  then have "unat (n + 1) = unat n + 1" using unatSuc [of n] by (simp add: add.commute)
  with 1 show ?case by simp
qed

declare vt_drain.simps [simp del]

fun vt_read_loop ::
  "('z tty_state_scheme \<Rightarrow> 'z tty_state_scheme res) list \<Rightarrow> tty_id \<Rightarrow> u64 \<Rightarrow> u64 \<Rightarrow> u8 list \<Rightarrow>
   'z tty_state_scheme \<Rightarrow> ('z tty_state_scheme \<times> u8 list \<times> u64) res" where
  "vt_read_loop [] t len n buffer st = Inl Diverges"
| "vt_read_loop (run # env) t len n buffer st =
     res_bind (run st) (\<lambda>st1.
     res_bind (vt_drain len n buffer (ttys st1 t)) (\<lambda>(vt, buffer1, n1, complete).
       let st2 = upd_tty t vt st1
       in if complete then Inr (st2, buffer1, len) else vt_read_loop env t len n1 buffer1 st2))"

definition vt_read ::
  "('z tty_state_scheme \<Rightarrow> 'z tty_state_scheme res) list \<Rightarrow> u64 \<Rightarrow> u8 list \<Rightarrow> u64 \<Rightarrow> u64 \<Rightarrow>
   'z tty_state_scheme \<Rightarrow> ('z tty_state_scheme \<times> u8 list \<times> u64) res" where
  "vt_read env dev buffer offset len st =
     res_bind (tty_of dev) (\<lambda>t. vt_read_loop env t len 0 buffer st)"

section \<open>The screen invariant\<close>

text \<open>
  \<open>screen_wf\<close>: the screen fits its buffer, the cursor lies on it and the escape state is one of the
  three. Then no character can fail, and the invariant is kept.
\<close>

definition screen_wf :: "vt_device \<Rightarrow> bool" where
  "screen_wf vt \<longleftrightarrow> 0 < unat (terminal_width vt) \<and> unat (terminal_width vt) \<le> VT_MAX_WIDTH \<and>
     0 < unat (terminal_height vt) \<and> unat (terminal_height vt) \<le> VT_MAX_HEIGHT \<and>
     cursor_row vt < terminal_height vt \<and> cursor_column vt < terminal_width vt \<and>
     length (terminal_buffer vt) = VT_CELLS \<and> length (repaint_flags vt) = VT_FLAG_BYTES \<and>
     escape_state vt \<in> {VT_ESCAPE_NONE, VT_ESCAPE_ESC, VT_ESCAPE_ESC_PAREN}"

text \<open>What the screen operations do not touch.\<close>

definition same_size :: "vt_device \<Rightarrow> vt_device \<Rightarrow> bool" where
  "same_size vt vt' \<longleftrightarrow> terminal_width vt' = terminal_width vt \<and> terminal_height vt' = terminal_height vt \<and>
     vt_framebuffer vt' = vt_framebuffer vt \<and> vt_device_number vt' = vt_device_number vt \<and>
     input_rb_head_idx vt' = input_rb_head_idx vt \<and> input_rb_tail_idx vt' = input_rb_tail_idx vt \<and>
     input_rb vt' = input_rb vt"

lemma same_size_refl [simp]: "same_size vt vt"
  by (simp add: same_size_def)

lemma same_size_trans: "same_size a b \<Longrightarrow> same_size b c \<Longrightarrow> same_size a c"
  by (simp add: same_size_def)

lemma cell_index_bound:
  assumes "unat row < VT_MAX_HEIGHT" and "unat column < VT_MAX_WIDTH"
  shows "cell_index row column < VT_CELLS"
  using assms by (simp add: cell_index_def)

lemma set_flag_ok:
  assumes "i < VT_CELLS" and "length flags = VT_FLAG_BYTES"
  shows "\<exists>flags'. set_flag i flags = Inr flags' \<and> length flags' = VT_FLAG_BYTES"
  using assms by (simp add: set_flag_def array_get_def array_set_def)

lemma screen_wfD:
  assumes "screen_wf vt"
  shows "unat (terminal_width vt) \<le> 240" "unat (terminal_height vt) \<le> 135"
    "unat (cursor_row vt) < unat (terminal_height vt)" "unat (cursor_column vt) < unat (terminal_width vt)"
    "length (terminal_buffer vt) = VT_CELLS" "length (repaint_flags vt) = VT_FLAG_BYTES"
  using assms by (simp_all add: screen_wf_def word_less_nat_alt)

lemma vt_set_char_ok:
  assumes "screen_wf vt" and "unat row < VT_MAX_HEIGHT" and "unat column < VT_MAX_WIDTH"
  shows "\<exists>flags. length flags = VT_FLAG_BYTES \<and> vt_set_char c row column vt =
    Inr (vt\<lparr>terminal_buffer := (terminal_buffer vt)[cell_index row column := c], repaint_flags := flags\<rparr>)"
proof -
  note i = cell_index_bound [OF assms(2,3)]
  from set_flag_ok [OF i screen_wfD(6) [OF assms(1)]] i screen_wfD(5) [OF assms(1)] show ?thesis
    by (auto simp: vt_set_char_def Let_def array_set_def)
qed

lemma vt_set_char_wf:
  assumes "screen_wf vt" and "unat row < VT_MAX_HEIGHT" and "unat column < VT_MAX_WIDTH"
  shows "\<exists>vt'. vt_set_char c row column vt = Inr vt' \<and> screen_wf vt' \<and> same_size vt vt' \<and>
    cursor_row vt' = cursor_row vt \<and> cursor_column vt' = cursor_column vt \<and> escape_state vt' = escape_state vt"
proof -
  from vt_set_char_ok [OF assms, of c] obtain flags where "length flags = VT_FLAG_BYTES"
    "vt_set_char c row column vt =
      Inr (vt\<lparr>terminal_buffer := (terminal_buffer vt)[cell_index row column := c], repaint_flags := flags\<rparr>)" by blast
  with assms(1) show ?thesis by (simp add: screen_wf_def same_size_def)
qed

lemma vt_set_cursor_ok:
  assumes "screen_wf vt" and "row < terminal_height vt" and "column < terminal_width vt"
  shows "\<exists>flags. length flags = VT_FLAG_BYTES \<and> vt_set_cursor row column vt =
    Inr (vt\<lparr>cursor_row := row, cursor_column := column, repaint_flags := flags\<rparr>)"
proof -
  note w = screen_wfD [OF assms(1)]
  have "cell_index (cursor_row vt) (cursor_column vt) < VT_CELLS"
    using w by (intro cell_index_bound) linarith+
  from set_flag_ok [OF this w(6)] obtain f1
    where f1: "set_flag (cell_index (cursor_row vt) (cursor_column vt)) (repaint_flags vt) = Inr f1"
      "length f1 = VT_FLAG_BYTES" by blast
  have "cell_index row column < VT_CELLS"
    using w assms(2,3) by (intro cell_index_bound) (simp_all add: word_less_nat_alt)
  from set_flag_ok [OF this f1(2)] f1(1) show ?thesis by (auto simp: vt_set_cursor_def)
qed

lemma vt_set_cursor_wf:
  assumes "screen_wf vt" and "row < terminal_height vt" and "column < terminal_width vt"
  shows "\<exists>vt'. vt_set_cursor row column vt = Inr vt' \<and> screen_wf vt' \<and> same_size vt vt'"
proof -
  from vt_set_cursor_ok [OF assms] obtain flags where "length flags = VT_FLAG_BYTES"
    "vt_set_cursor row column vt =
      Inr (vt\<lparr>cursor_row := row, cursor_column := column, repaint_flags := flags\<rparr>)" by blast
  with assms show ?thesis by (simp add: screen_wf_def same_size_def)
qed

lemma vt_shift_rows_wf:
  assumes "screen_wf vt"
  shows "\<exists>vt'. vt_shift_rows vt = Inr vt' \<and> screen_wf vt' \<and> same_size vt vt' \<and>
    escape_state vt' = escape_state vt"
proof -
  note w = screen_wfD [OF assms]
  let ?P = "\<lambda>vt'. screen_wf vt' \<and> same_size vt vt' \<and> escape_state vt' = escape_state vt"
  have char: "\<exists>b. vt_set_char c row col a = Inr b \<and> ?P b"
    if "?P a" "unat row < unat (terminal_height vt)" "unat col < unat (terminal_width vt)" for a c row col
  proof -
    have "unat row < VT_MAX_HEIGHT" "unat col < VT_MAX_WIDTH" using that w by linarith+
    from vt_set_char_wf [OF conjunct1 [OF that(1)] this, of c] that(1) show ?thesis
      using same_size_trans by auto
  qed
  have u: "unat (of_nat k :: u16) = k" if "k < 240" for k
    using that by (intro unat_of_nat_small) simp
  have inner: "\<exists>b. (res_bind (array_get (terminal_buffer a) (VT_MAX_WIDTH * (y + 1) + x)) (\<lambda>character.
        vt_set_char character (of_nat y) (of_nat x) a)) = Inr b \<and> ?P b"
    if "?P a" "y < unat (terminal_height vt) - 1" "x < unat (terminal_width vt)" for a x y
  proof -
    have "y + 1 \<le> 134" "x \<le> 239" using that(2,3) w(1,2) by linarith+
    then have lt: "240 * (y + 1) + x < VT_CELLS" by simp
    have "unat (of_nat y :: u16) < unat (terminal_height vt)" "unat (of_nat x :: u16) < unat (terminal_width vt)"
      using that u [of y] u [of x] w by simp_all
    with char [OF that(1)] lt screen_wfD(5) [OF conjunct1 [OF that(1)]] show ?thesis
      by (simp add: array_get_def)
  qed
  have row: "\<exists>b. res_fold (\<lambda>x vt. res_bind (array_get (terminal_buffer vt) (VT_MAX_WIDTH * (y + 1) + x)) (\<lambda>character.
        vt_set_char character (of_nat y) (of_nat x) vt)) [0..<unat (terminal_width vt)] a = Inr b \<and> ?P b"
    if "?P a" "y < unat (terminal_height vt) - 1" for a y
    using that inner by (intro res_fold_total) auto
  from res_fold_total [of ?P vt "[0..<unat (terminal_height vt) - 1]"
      "\<lambda>y. res_fold (\<lambda>x vt. res_bind (array_get (terminal_buffer vt) (VT_MAX_WIDTH * (y + 1) + x)) (\<lambda>character.
        vt_set_char character (of_nat y) (of_nat x) vt)) [0..<unat (terminal_width vt)]"] row assms
  obtain vt1 where vt1: "res_fold (\<lambda>y. res_fold (\<lambda>x vt. res_bind (array_get (terminal_buffer vt) (VT_MAX_WIDTH * (y + 1) + x)) (\<lambda>character.
        vt_set_char character (of_nat y) (of_nat x) vt)) [0..<unat (terminal_width vt)])
        [0..<unat (terminal_height vt) - 1] vt = Inr vt1" "?P vt1" by auto
  have h1: "terminal_height vt1 = terminal_height vt" "terminal_width vt1 = terminal_width vt"
    using vt1(2) by (simp_all add: same_size_def)
  have h0: "0 < terminal_height vt" using assms by (simp add: screen_wf_def word_less_nat_alt)
  then have last: "unat (terminal_height vt - 1) < unat (terminal_height vt)"
    using unat_pred [OF h0] by (simp add: word_less_nat_alt)
  have "\<exists>b. res_fold (\<lambda>x. vt_set_char 32 (terminal_height vt1 - 1) (of_nat x))
      [0..<unat (terminal_width vt1)] vt1 = Inr b \<and> ?P b"
  proof (rule res_fold_total [where P = ?P])
    show "?P vt1" by (rule vt1(2))
    fix x a assume "x \<in> set [0..<unat (terminal_width vt1)]" "?P a"
    then show "\<exists>b. vt_set_char 32 (terminal_height vt1 - 1) (of_nat x) a = Inr b \<and> ?P b"
      using h1 last u [of x] w by (intro char) auto
  qed
  with vt1(1) h0 show ?thesis by (auto simp: vt_shift_rows_def)
qed

lemma vt_next_line_wf:
  assumes "screen_wf vt"
  shows "\<exists>vt'. vt_next_line vt = Inr vt' \<and> screen_wf vt' \<and> same_size vt vt'"
proof -
  have w: "0 < terminal_width vt" "cursor_row vt < terminal_height vt"
    using assms by (simp_all add: screen_wf_def word_less_nat_alt)
  show ?thesis
  proof (cases "at_last_row vt")
    case True
    from vt_set_cursor_wf [OF assms w(2,1)] obtain vt1
      where vt1: "vt_set_cursor (cursor_row vt) 0 vt = Inr vt1" "screen_wf vt1" "same_size vt vt1" by blast
    from vt_shift_rows_wf [OF vt1(2)] True vt1 same_size_trans show ?thesis
      unfolding vt_next_line_def by fastforce
  next
    case False
    have "unat (cursor_row vt + 1) = unat (cursor_row vt) + 1" using w(2) by (rule unat_succ)
    then have "cursor_row vt + 1 < terminal_height vt"
      using False w(2) by (simp add: at_last_row_def word_less_nat_alt)
    from vt_set_cursor_wf [OF assms this w(1)] False show ?thesis by (simp add: vt_next_line_def)
  qed
qed

lemma vt_clear_down_wf:
  assumes "screen_wf vt" and "row < terminal_height vt" and "col < terminal_width vt"
    and "unat (terminal_height vt - row) * unat (terminal_width vt) - unat col < fuel"
  shows "\<exists>vt'. vt_clear_down fuel row col vt = Inr vt' \<and> screen_wf vt' \<and> same_size vt vt'"
  using assms
proof (induction fuel row col vt rule: vt_clear_down.induct)
  case (1 row col vt)
  then show ?case by simp
next
  case (2 fuel row col vt)
  note w = screen_wfD [OF "2.prems"(1)]
  have "unat row < VT_MAX_HEIGHT" "unat col < VT_MAX_WIDTH"
    using "2.prems"(2,3) w by (simp_all add: word_less_nat_alt)
  from vt_set_char_wf [OF "2.prems"(1) this, of 32] obtain vt1
    where vt1: "vt_set_char 32 row col vt = Inr vt1" "screen_wf vt1" "same_size vt vt1" by blast
  have dims: "terminal_width vt1 = terminal_width vt" "terminal_height vt1 = terminal_height vt"
    using vt1(3) by (simp_all add: same_size_def)
  have c1: "unat (col + 1) = unat col + 1" by (rule unat_succ [OF "2.prems"(3)])
  have r1: "unat (row + 1) = unat row + 1" by (rule unat_succ [OF "2.prems"(2)])
  have hr: "unat (terminal_height vt - row) = unat (terminal_height vt) - unat row"
    using "2.prems"(2) by (intro unat_sub_no_wrap) simp
  let ?row1 = "if col + 1 = terminal_width vt then row + 1 else row"
  let ?col2 = "if col + 1 = terminal_width vt then 0 else col + 1"
  show ?case
  proof (cases "?row1 = terminal_height vt")
    case True
    with vt1 show ?thesis unfolding dims by (auto simp: Let_def)
  next
    case False
    have rows: "?row1 < terminal_height vt1"
      using False "2.prems"(2) r1 unfolding dims by (auto simp: word_less_nat_alt word_unat_eq_iff split: if_splits)
    have cols: "?col2 < terminal_width vt1"
      using "2.prems"(1,3) c1 unfolding dims
      by (auto simp: word_less_nat_alt word_unat_eq_iff screen_wf_def split: if_splits)
    have hr1: "unat (terminal_height vt1 - ?row1) = unat (terminal_height vt) - unat ?row1"
      unfolding dims using rows unfolding dims by (intro unat_sub_no_wrap) simp
    have meas: "unat (terminal_height vt1 - ?row1) * unat (terminal_width vt1) - unat ?col2 < fuel"
    proof (cases "col + 1 = terminal_width vt")
      case True
      then have wd: "unat (terminal_width vt) = unat col + 1" using c1 by simp
      have lt: "unat row + 1 < unat (terminal_height vt)"
        using rows True r1 unfolding dims by (simp add: word_less_nat_alt)
      define k where "k = unat (terminal_height vt) - (unat row + 1)"
      have "unat (terminal_height vt) - unat row = Suc k" using lt by (simp add: k_def)
      then have "Suc k * unat (terminal_width vt) - unat col < Suc fuel" using "2.prems"(4) hr by simp
      then have "k * unat (terminal_width vt) < fuel" using wd by simp
      then show ?thesis unfolding hr1 unfolding dims using True r1 by (simp add: k_def)
    next
      case False
      define k where "k = (unat (terminal_height vt) - unat row) * unat (terminal_width vt)"
      have "1 \<le> unat (terminal_height vt) - unat row" using "2.prems"(2) by (simp add: word_less_nat_alt)
      from mult_le_mono1 [OF this, of "unat (terminal_width vt)"]
      have "unat (terminal_width vt) \<le> k" by (simp add: k_def)
      moreover have "k - unat col < Suc fuel" using "2.prems"(4) hr by (simp add: k_def)
      moreover have "unat col + 1 < unat (terminal_width vt)"
        using False "2.prems"(3) c1 by (auto simp: word_less_nat_alt word_unat_eq_iff)
      ultimately have "k - (unat col + 1) < fuel" by linarith
      then show ?thesis unfolding hr1 unfolding dims using False c1 by (simp add: k_def)
    qed
    from "2.IH" [OF vt1(1) refl refl refl False vt1(2) rows cols meas] vt1 False same_size_trans [OF vt1(3)]
    show ?thesis by (auto simp: Let_def)
  qed
qed

lemma vt_command_wf:
  assumes "screen_wf vt"
  shows "\<exists>vt'. vt_command c vt = Inr vt' \<and> screen_wf vt' \<and> same_size vt vt' \<and> escape_state vt' = VT_ESCAPE_NONE"
proof -
  note w = screen_wfD [OF assms]
  have b: "cursor_row vt < terminal_height vt" "cursor_column vt < terminal_width vt"
      "0 < terminal_height vt" "0 < terminal_width vt"
    using assms by (simp_all add: screen_wf_def word_less_nat_alt)
  have up: "cursor_row vt - 1 < terminal_height vt" if "cursor_row vt \<noteq> 0"
    using unat_pred [of "cursor_row vt"] that b(1) by (simp add: word_less_nat_alt word_neq_0_conv)
  have left: "cursor_column vt - 1 < terminal_width vt" if "cursor_column vt \<noteq> 0"
    using unat_pred [of "cursor_column vt"] that b(2) by (simp add: word_less_nat_alt word_neq_0_conv)
  have down: "cursor_row vt + 1 < terminal_height vt" if "\<not> at_last_row vt"
    using that b(1) unat_succ [OF b(1)] by (simp add: at_last_row_def word_less_nat_alt)
  have right: "cursor_column vt + 1 < terminal_width vt" if "\<not> at_last_column vt"
    using that b(2) unat_succ [OF b(2)] by (simp add: at_last_column_def word_less_nat_alt)
  let ?P = "\<lambda>vt'. screen_wf vt' \<and> same_size vt vt'"
  have clear: "\<exists>vt'. res_fold (\<lambda>col. vt_set_char 32 (cursor_row vt) (of_nat col))
      [unat (cursor_column vt)..<unat (terminal_width vt)] vt = Inr vt' \<and> ?P vt'"
  proof (rule res_fold_total [where P = ?P])
    show "?P vt" using assms by simp
    fix x a assume x: "x \<in> set [unat (cursor_column vt)..<unat (terminal_width vt)]" and a: "?P a"
    then have "unat (of_nat x :: u16) < 240" using w(1) by (subst unat_of_nat_small) auto
    moreover have "unat (cursor_row vt) < 135" using w by linarith
    ultimately obtain b where "vt_set_char 32 (cursor_row vt) (of_nat x) a = Inr b" "screen_wf b" "same_size a b"
      using vt_set_char_wf [of a "cursor_row vt" "of_nat x" 32] a by auto
    with a same_size_trans show "\<exists>b. vt_set_char 32 (cursor_row vt) (of_nat x) a = Inr b \<and> ?P b" by blast
  qed
  have "unat (terminal_height vt - cursor_row vt) * unat (terminal_width vt) \<le> 135 * 240"
    using w b(1) by (intro mult_le_mono) (simp_all add: unat_sub_no_wrap)
  then have erase: "\<exists>vt'. vt_clear_down (Suc VT_CELLS) (cursor_row vt) (cursor_column vt) vt = Inr vt' \<and> ?P vt'"
    by (intro vt_clear_down_wf assms b) simp
  have keep: "\<exists>vt'. Inr vt = Inr vt' \<and> ?P vt'" using assms by simp
  have "\<exists>vt'. (if c = 65 then (if cursor_row vt \<noteq> 0 then vt_set_cursor (cursor_row vt - 1) (cursor_column vt) vt else Inr vt)
        else if c = 66 then (if \<not> at_last_row vt then vt_set_cursor (cursor_row vt + 1) (cursor_column vt) vt else Inr vt)
        else if c = 67 then (if \<not> at_last_column vt then vt_set_cursor (cursor_row vt) (cursor_column vt + 1) vt else Inr vt)
        else if c = 68 then (if cursor_column vt \<noteq> 0 then vt_set_cursor (cursor_row vt) (cursor_column vt - 1) vt else Inr vt)
        else if c = 75 then res_fold (\<lambda>col. vt_set_char 32 (cursor_row vt) (of_nat col))
                              [unat (cursor_column vt)..<unat (terminal_width vt)] vt
        else if c = 72 then vt_set_cursor 0 0 vt
        else if c = 74 then vt_clear_down (Suc VT_CELLS) (cursor_row vt) (cursor_column vt) vt
        else Inr vt) = Inr vt' \<and> ?P vt'"
    by (intro res_total_if vt_set_cursor_wf [OF assms up b(2)] vt_set_cursor_wf [OF assms b(1) left]
        vt_set_cursor_wf [OF assms down b(2)] vt_set_cursor_wf [OF assms b(1) right]
        vt_set_cursor_wf [OF assms b(3,4)] clear erase keep)
  then obtain vt1 where "vt_command c vt = end_escape vt1" "?P vt1"
    unfolding vt_command_def by (elim exE conjE) (simp only: res_bind_Inr)
  moreover have "screen_wf (vt1\<lparr>escape_state := VT_ESCAPE_NONE\<rparr>)"
    using \<open>?P vt1\<close> by (simp add: screen_wf_def)
  moreover have "same_size vt1 (vt1\<lparr>escape_state := VT_ESCAPE_NONE\<rparr>)" by (simp add: same_size_def)
  ultimately show ?thesis using same_size_trans by auto
qed

lemma vt_plain_wf:
  assumes "screen_wf vt"
  shows "\<exists>vt'. vt_plain c vt = Inr vt' \<and> screen_wf vt' \<and> same_size vt vt'"
proof -
  have b: "cursor_row vt < terminal_height vt" "cursor_column vt < terminal_width vt" "0 < terminal_width vt"
    using assms by (simp_all add: screen_wf_def word_less_nat_alt)
  have left: "cursor_column vt - 1 < terminal_width vt" if "cursor_column vt > 0"
    using unat_pred [of "cursor_column vt"] that b(2) by (simp add: word_less_nat_alt)
  have "unat (cursor_row vt) < VT_MAX_HEIGHT" "unat (cursor_column vt) < VT_MAX_WIDTH"
    using screen_wfD [OF assms] by linarith+
  from vt_set_char_wf [OF assms this, of c] obtain vt1
    where vt1: "vt_set_char c (cursor_row vt) (cursor_column vt) vt = Inr vt1" "screen_wf vt1" "same_size vt vt1" by blast
  have b1: "cursor_row vt1 < terminal_height vt1" "cursor_column vt1 < terminal_width vt1"
    using vt1(2) by (simp_all add: screen_wf_def)
  have right: "cursor_column vt1 + 1 < terminal_width vt1" if "\<not> at_last_column vt1"
    using that b1(2) unat_succ [OF b1(2)] by (simp add: at_last_column_def word_less_nat_alt)
  have "\<exists>vt'. (if at_last_column vt1 then vt_next_line vt1
        else vt_set_cursor (cursor_row vt1) (cursor_column vt1 + 1) vt1) = Inr vt' \<and> screen_wf vt' \<and> same_size vt vt'"
    using vt_next_line_wf [OF vt1(2)] vt_set_cursor_wf [OF vt1(2) b1(1) right] same_size_trans [OF vt1(3)]
    by (cases "at_last_column vt1") auto
  with vt1(1) have char: "\<exists>vt'. res_bind (vt_set_char c (cursor_row vt) (cursor_column vt) vt) (\<lambda>vt1.
        if at_last_column vt1 then vt_next_line vt1
        else vt_set_cursor (cursor_row vt1) (cursor_column vt1 + 1) vt1) = Inr vt' \<and> screen_wf vt' \<and> same_size vt vt'"
    by simp
  have esc: "screen_wf (vt\<lparr>escape_state := VT_ESCAPE_ESC\<rparr>) \<and> same_size vt (vt\<lparr>escape_state := VT_ESCAPE_ESC\<rparr>)"
    using assms by (simp add: screen_wf_def same_size_def)
  show ?thesis unfolding vt_plain_def
    using esc vt_next_line_wf [OF assms] vt_set_cursor_wf [OF assms b(1,3)] vt_set_cursor_wf [OF assms b(1) left]
      char assms by simp
qed

lemma vt_putc_wf:
  assumes "screen_wf vt"
  shows "\<exists>vt'. vt_putc c vt = Inr vt' \<and> screen_wf vt' \<and> same_size vt vt'"
proof -
  have "escape_state vt \<in> {VT_ESCAPE_NONE, VT_ESCAPE_ESC, VT_ESCAPE_ESC_PAREN}"
    using assms by (simp add: screen_wf_def)
  moreover have "screen_wf (vt\<lparr>escape_state := if c = 91 then VT_ESCAPE_ESC_PAREN else VT_ESCAPE_NONE\<rparr>) \<and>
      same_size vt (vt\<lparr>escape_state := if c = 91 then VT_ESCAPE_ESC_PAREN else VT_ESCAPE_NONE\<rparr>)"
    using assms by (simp add: screen_wf_def same_size_def)
  ultimately show ?thesis
    using vt_command_wf [OF assms, of c] vt_plain_wf [OF assms, of c] by (auto simp: vt_putc_def)
qed

text \<open>
  C27: printing never fails: whatever bytes are sent to a terminal that is in order, escape sequences,
  scrolling and all, no write leaves the screen buffer, and the terminal is in order afterwards,
  with its size and its input queue unchanged.
\<close>

theorem vt_puts_safe:
  assumes "screen_wf vt"
  shows "case vt_puts cs vt of Inl e \<Rightarrow> False | Inr vt' \<Rightarrow> screen_wf vt' \<and> same_size vt vt'"
  using assms
proof (induction cs arbitrary: vt)
  case Nil
  then show ?case by simp
next
  case (Cons c cs)
  from vt_putc_wf [OF Cons.prems, of c] obtain vt1
    where vt1: "vt_putc c vt = Inr vt1" "screen_wf vt1" "same_size vt vt1" by blast
  from Cons.IH [OF vt1(2)] vt1(1) same_size_trans [OF vt1(3)] show ?case by (auto split: sum.splits)
qed

lemma vt_device_init_wf:
  assumes "16 \<le> unat (fb_width fb)" and "16 \<le> unat (fb_height fb)"
  shows "screen_wf (vt_device_init fb n)"
proof -
  have d: "unat (w div 16) = unat w div 16" for w :: u64 by (simp add: unat_div)
  have "0 < unat (ucast (w div 16) :: u16) \<and> unat (ucast (w div 16) :: u16) \<le> k"
    if "w div 16 \<le> of_nat k" "16 \<le> unat w" "k < 65536" for w :: u64 and k
  proof -
    have "unat (of_nat k :: u64) = k" using that(3) by (intro unat_of_nat_small) simp
    then have "unat (w div 16) \<le> k" using that(1) by (simp add: word_le_nat_alt)
    moreover have "0 < unat (w div 16)" unfolding d using that(2) by simp
    ultimately show ?thesis using that(3) by (subst (1 2) unat_ucast_small) simp_all
  qed
  from this [of "fb_width fb" 240] this [of "fb_height fb" 135] assms
  show ?thesis by (simp add: screen_wf_def vt_device_init_def VT_ESCAPE_NONE_def word_less_nat_alt)
qed

definition demo_vt :: vt_device where
  "demo_vt = vt_device_init \<lparr>fb_width = 640, fb_height = 480, fb_pitch = 2560\<rparr> 1"

definition demo_tty :: "slab_id \<Rightarrow> tty_state" where
  "demo_tty owner = vfs_state.extend (demo_vfs owner) (tty_state.fields (\<lambda>_. demo_vt) Tty1 (\<lambda>_. 0))"

lemma demo_vt_wf: "screen_wf demo_vt"
  unfolding demo_vt_def by (rule vt_device_init_wf) simp_all

lemma vt_puts_safe_witness:
  "screen_wf demo_vt \<and> (case vt_puts [65, 0x1B, 91, 74, 10] demo_vt of Inl e \<Rightarrow> False
     | Inr vt' \<Rightarrow> screen_wf vt' \<and> same_size demo_vt vt')"
  using demo_vt_wf vt_puts_safe [OF demo_vt_wf] by blast

section \<open>Text on the screen\<close>

definition printable :: "u8 \<Rightarrow> bool" where
  "printable c \<longleftrightarrow> c \<notin> {0x1B, 10, 13, 8}"

lemma vt_putc_printable:
  assumes "screen_wf vt" and "escape_state vt = VT_ESCAPE_NONE" and "printable c"
    and "unat (cursor_column vt) + 1 < unat (terminal_width vt)"
  shows "\<exists>vt'. vt_putc c vt = Inr vt' \<and> screen_wf vt' \<and> same_size vt vt' \<and> escape_state vt' = VT_ESCAPE_NONE \<and>
    terminal_buffer vt' = (terminal_buffer vt)[cell_index (cursor_row vt) (cursor_column vt) := c] \<and>
    cursor_row vt' = cursor_row vt \<and> unat (cursor_column vt') = unat (cursor_column vt) + 1"
proof -
  note w = screen_wfD [OF assms(1)]
  have b: "cursor_row vt < terminal_height vt" "cursor_column vt < terminal_width vt"
    using assms by (simp_all add: screen_wf_def)
  have "unat (cursor_row vt) < VT_MAX_HEIGHT" "unat (cursor_column vt) < VT_MAX_WIDTH" using w by linarith+
  from vt_set_char_ok [OF assms(1) this, of c] obtain flags where f: "length flags = VT_FLAG_BYTES"
    "vt_set_char c (cursor_row vt) (cursor_column vt) vt = Inr (vt\<lparr>terminal_buffer :=
       (terminal_buffer vt)[cell_index (cursor_row vt) (cursor_column vt) := c], repaint_flags := flags\<rparr>)" by blast
  let ?vt1 = "vt\<lparr>terminal_buffer := (terminal_buffer vt)[cell_index (cursor_row vt) (cursor_column vt) := c],
      repaint_flags := flags\<rparr>"
  have u: "unat (cursor_column vt + 1) = unat (cursor_column vt) + 1" by (rule unat_succ [OF b(2)])
  then have col: "cursor_column vt + 1 < terminal_width vt" using assms(4) by (simp add: word_less_nat_alt)
  have wf1: "screen_wf ?vt1" using assms(1) f(1) by (simp add: screen_wf_def)
  from vt_set_cursor_ok [of ?vt1 "cursor_row vt" "cursor_column vt + 1"] wf1 b(1) col obtain flags'
    where f': "length flags' = VT_FLAG_BYTES" "vt_set_cursor (cursor_row vt) (cursor_column vt + 1) ?vt1 =
      Inr (?vt1\<lparr>cursor_row := cursor_row vt, cursor_column := cursor_column vt + 1, repaint_flags := flags'\<rparr>)" by auto
  have "vt_putc c vt = Inr (?vt1\<lparr>cursor_row := cursor_row vt, cursor_column := cursor_column vt + 1,
      repaint_flags := flags'\<rparr>)"
    using assms(2,3,4) f(2) f'(2)
    by (simp add: vt_putc_def vt_plain_def printable_def at_last_column_def VT_ESCAPE_NONE_def VT_ESCAPE_ESC_def
        VT_ESCAPE_ESC_PAREN_def)
  moreover have "screen_wf (?vt1\<lparr>cursor_row := cursor_row vt, cursor_column := cursor_column vt + 1,
      repaint_flags := flags'\<rparr>)"
    using assms(1) col f'(1) by (simp add: screen_wf_def)
  ultimately show ?thesis using u assms(2) by (simp add: same_size_def)
qed

text \<open>
  A line of text goes where the cursor is: printing characters that are not control characters
  and fit before the last column writes exactly those cells of the cursor's row, from the cursor on,
  and moves the cursor behind them.
\<close>

lemma vt_puts_text:
  assumes "screen_wf vt" and "escape_state vt = VT_ESCAPE_NONE" and "list_all printable cs"
    and "unat (cursor_column vt) + length cs < unat (terminal_width vt)"
  shows "case vt_puts cs vt of Inl e \<Rightarrow> False
    | Inr vt' \<Rightarrow> (let i = cell_index (cursor_row vt) (cursor_column vt) in
        terminal_buffer vt' = take i (terminal_buffer vt) @ cs @ drop (i + length cs) (terminal_buffer vt)) \<and>
        cursor_row vt' = cursor_row vt \<and> unat (cursor_column vt') = unat (cursor_column vt) + length cs"
  using assms
proof (induction cs arbitrary: vt)
  case Nil
  then show ?case by simp
next
  case (Cons c cs)
  note w = screen_wfD [OF Cons.prems(1)]
  from vt_putc_printable [OF Cons.prems(1,2)] Cons.prems(3,4) obtain vt1 where vt1: "vt_putc c vt = Inr vt1"
    "screen_wf vt1" "same_size vt vt1" "escape_state vt1 = VT_ESCAPE_NONE"
    "terminal_buffer vt1 = (terminal_buffer vt)[cell_index (cursor_row vt) (cursor_column vt) := c]"
    "cursor_row vt1 = cursor_row vt" "unat (cursor_column vt1) = unat (cursor_column vt) + 1" by auto
  have i1: "cell_index (cursor_row vt1) (cursor_column vt1) = Suc (cell_index (cursor_row vt) (cursor_column vt))"
    using vt1(6,7) by (simp add: cell_index_def)
  have "cell_index (cursor_row vt) (cursor_column vt) < length (terminal_buffer vt)"
    unfolding w(5) by (rule cell_index_bound) (use w in linarith)+
  then have "take (Suc i) (xs[i := c]) @ cs @ drop (Suc i + length cs) (xs[i := c]) =
      take i xs @ (c # cs) @ drop (i + length (c # cs)) xs"
    if "i = cell_index (cursor_row vt) (cursor_column vt)" "xs = terminal_buffer vt" for i xs
    using that by (simp add: take_Suc_conv_app_nth)
  moreover have "case vt_puts cs vt1 of Inl e \<Rightarrow> False
    | Inr vt' \<Rightarrow> (let i = cell_index (cursor_row vt1) (cursor_column vt1) in
        terminal_buffer vt' = take i (terminal_buffer vt1) @ cs @ drop (i + length cs) (terminal_buffer vt1)) \<and>
        cursor_row vt' = cursor_row vt1 \<and> unat (cursor_column vt') = unat (cursor_column vt1) + length cs"
    using Cons.prems(3,4) vt1(3,7) by (intro Cons.IH vt1) (simp_all add: same_size_def)
  ultimately show ?case using vt1(1,6,7) unfolding i1 vt1(5)
    by (auto simp: Let_def split: sum.splits)
qed

lemma vt_puts_text_witness:
  "case vt_puts [72, 105] demo_vt of Inl e \<Rightarrow> False
    | Inr vt' \<Rightarrow> (let i = cell_index (cursor_row demo_vt) (cursor_column demo_vt) in
        terminal_buffer vt' = take i (terminal_buffer demo_vt) @ [72, 105] @ drop (i + length [72 :: u8, 105]) (terminal_buffer demo_vt)) \<and>
        cursor_row vt' = cursor_row demo_vt \<and> unat (cursor_column vt') = unat (cursor_column demo_vt) + length [72 :: u8, 105]"
  by (rule vt_puts_text [OF demo_vt_wf]) (simp_all add: demo_vt_def vt_device_init_def printable_def)

section \<open>Scrolling\<close>

lemma shift_cell:
  assumes "screen_wf vt" and "y < 134" and "x < 240"
  shows "\<exists>vt'. res_bind (array_get (terminal_buffer vt) (VT_MAX_WIDTH * (y + 1) + x)) (\<lambda>character.
      vt_set_char character (of_nat y) (of_nat x) vt) = Inr vt' \<and> screen_wf vt' \<and> same_size vt vt' \<and>
    terminal_buffer vt' = (terminal_buffer vt)[240 * y + x := terminal_buffer vt ! (240 * y + x + 240)]"
proof -
  note l = screen_wfD(5) [OF assms(1)]
  have ux: "unat (of_nat x :: u16) = x" and uy: "unat (of_nat y :: u16) = y"
    using assms(2,3) by (intro unat_of_nat_small; simp)+
  have lt: "VT_MAX_WIDTH * (y + 1) + x < length (terminal_buffer vt)" unfolding l using assms(2,3) by simp
  have eq: "VT_MAX_WIDTH * (y + 1) + x = 240 * y + x + 240" by simp
  have "cell_index (of_nat y) (of_nat x) = 240 * y + x" by (simp add: cell_index_def ux uy)
  with vt_set_char_ok [OF assms(1), of "of_nat y" "of_nat x" "terminal_buffer vt ! (240 * y + x + 240)"]
  obtain flags where "length flags = VT_FLAG_BYTES"
    "vt_set_char (terminal_buffer vt ! (240 * y + x + 240)) (of_nat y) (of_nat x) vt =
      Inr (vt\<lparr>terminal_buffer := (terminal_buffer vt)[240 * y + x := terminal_buffer vt ! (240 * y + x + 240)],
        repaint_flags := flags\<rparr>)"
    using ux uy assms(2,3) by auto
  with lt assms(1) show ?thesis unfolding eq by (simp add: array_get_def screen_wf_def same_size_def)
qed

lemma shift_row:
  assumes "screen_wf vt" and "y < 134" and "k \<le> 240"
  shows "\<exists>vt'. res_fold (\<lambda>x vt. res_bind (array_get (terminal_buffer vt) (VT_MAX_WIDTH * (y + 1) + x)) (\<lambda>character.
      vt_set_char character (of_nat y) (of_nat x) vt)) [0..<k] vt = Inr vt' \<and> screen_wf vt' \<and> same_size vt vt' \<and>
    (\<forall>j < VT_CELLS. terminal_buffer vt' ! j =
      (if 240 * y \<le> j \<and> j < 240 * y + k then terminal_buffer vt ! (j + 240) else terminal_buffer vt ! j))"
  using assms(3)
proof (induction k)
  case 0
  then show ?case using assms(1) by auto
next
  case (Suc k)
  then obtain vt1 where vt1: "res_fold (\<lambda>x vt. res_bind (array_get (terminal_buffer vt) (VT_MAX_WIDTH * (y + 1) + x)) (\<lambda>character.
      vt_set_char character (of_nat y) (of_nat x) vt)) [0..<k] vt = Inr vt1" "screen_wf vt1" "same_size vt vt1"
    "\<forall>j < VT_CELLS. terminal_buffer vt1 ! j =
      (if 240 * y \<le> j \<and> j < 240 * y + k then terminal_buffer vt ! (j + 240) else terminal_buffer vt ! j)"
    by auto
  from shift_cell [OF vt1(2) assms(2), of k] Suc.prems obtain vt2
    where vt2: "res_bind (array_get (terminal_buffer vt1) (VT_MAX_WIDTH * (y + 1) + k)) (\<lambda>character.
      vt_set_char character (of_nat y) (of_nat k) vt1) = Inr vt2" "screen_wf vt2" "same_size vt1 vt2"
    "terminal_buffer vt2 = (terminal_buffer vt1)[240 * y + k := terminal_buffer vt1 ! (240 * y + k + 240)]" by auto
  have "240 * y + k + 240 < VT_CELLS" using assms(2) Suc.prems by simp
  then have src: "terminal_buffer vt1 ! (240 * y + k + 240) = terminal_buffer vt ! (240 * y + k + 240)"
    using vt1(4) Suc.prems by simp
  have "\<forall>j < VT_CELLS. terminal_buffer vt2 ! j = (if 240 * y \<le> j \<and> j < 240 * y + Suc k
      then terminal_buffer vt ! (j + 240) else terminal_buffer vt ! j)"
    unfolding vt2(4) src using vt1(4) by (rule nth_update_extend) (simp_all add: screen_wfD(5) [OF vt1(2)])
  moreover have "res_fold (\<lambda>x vt. res_bind (array_get (terminal_buffer vt) (VT_MAX_WIDTH * (y + 1) + x)) (\<lambda>character.
      vt_set_char character (of_nat y) (of_nat x) vt)) [0..<Suc k] vt = Inr vt2"
    using vt1(1) vt2(1) by (simp add: res_fold_append)
  ultimately show ?case using vt2(2) same_size_trans [OF vt1(3) vt2(3)] by blast
qed

lemma shift_rows:
  assumes "screen_wf vt" and "k \<le> 134" and "wd \<le> 240"
  shows "\<exists>vt'. res_fold (\<lambda>y. res_fold (\<lambda>x vt. res_bind (array_get (terminal_buffer vt) (VT_MAX_WIDTH * (y + 1) + x)) (\<lambda>character.
      vt_set_char character (of_nat y) (of_nat x) vt)) [0..<wd]) [0..<k] vt = Inr vt' \<and> screen_wf vt' \<and> same_size vt vt' \<and>
    (\<forall>j < VT_CELLS. terminal_buffer vt' ! j =
      (if j div 240 < k \<and> j mod 240 < wd then terminal_buffer vt ! (j + 240) else terminal_buffer vt ! j))"
  using assms(2)
proof (induction k)
  case 0
  then show ?case using assms(1) by simp
next
  case (Suc k)
  let ?row = "\<lambda>y. res_fold (\<lambda>x vt. res_bind (array_get (terminal_buffer vt) (VT_MAX_WIDTH * (y + 1) + x)) (\<lambda>character.
      vt_set_char character (of_nat y) (of_nat x) vt)) [0..<wd]"
  from Suc obtain vt1 where vt1: "res_fold ?row [0..<k] vt = Inr vt1" "screen_wf vt1" "same_size vt vt1"
    "\<forall>j < VT_CELLS. terminal_buffer vt1 ! j =
      (if j div 240 < k \<and> j mod 240 < wd then terminal_buffer vt ! (j + 240) else terminal_buffer vt ! j)" by auto
  have "k < 134" using Suc.prems by simp
  from shift_row [OF vt1(2) this assms(3)] obtain vt2 where vt2: "?row k vt1 = Inr vt2" "screen_wf vt2" "same_size vt1 vt2"
    "\<forall>j < VT_CELLS. terminal_buffer vt2 ! j =
      (if 240 * k \<le> j \<and> j < 240 * k + wd then terminal_buffer vt1 ! (j + 240) else terminal_buffer vt1 ! j)" by auto
  note in_row = block_index [OF assms(3), of k]
  have "\<forall>j < VT_CELLS. terminal_buffer vt2 ! j =
      (if j div 240 < Suc k \<and> j mod 240 < wd then terminal_buffer vt ! (j + 240) else terminal_buffer vt ! j)"
  proof (intro allI impI)
    fix j assume j: "j < VT_CELLS"
    show "terminal_buffer vt2 ! j =
      (if j div 240 < Suc k \<and> j mod 240 < wd then terminal_buffer vt ! (j + 240) else terminal_buffer vt ! j)"
    proof (cases "j div 240 = k \<and> j mod 240 < wd")
      case True
      then have "j < 240 * k + 240" using div_mult_mod_eq [of j 240] by simp
      then have "j + 240 < VT_CELLS" using \<open>k < 134\<close> by simp
      moreover have "(j + 240) div 240 = Suc k" using True div_add_self2 [of 240 j] by simp
      ultimately show ?thesis using True vt2(4) vt1(4) j in_row by simp
    next
      case False
      then have "terminal_buffer vt2 ! j = terminal_buffer vt1 ! j"
        using vt2(4) j unfolding in_row by auto
      with False vt1(4) j show ?thesis by (auto simp: less_Suc_eq)
    qed
  qed
  moreover have "res_fold ?row [0..<Suc k] vt = Inr vt2" using vt1(1) vt2(1) by (simp add: res_fold_append)
  ultimately show ?case using vt2(2) same_size_trans [OF vt1(3) vt2(3)] by blast
qed

lemma blank_row:
  assumes "screen_wf vt" and "unat row < 135" and "k \<le> 240"
  shows "\<exists>vt'. res_fold (\<lambda>x. vt_set_char c row (of_nat x)) [0..<k] vt = Inr vt' \<and> screen_wf vt' \<and>
    (\<forall>j < VT_CELLS. terminal_buffer vt' ! j =
      (if 240 * unat row \<le> j \<and> j < 240 * unat row + k then c else terminal_buffer vt ! j))"
  using assms(3)
proof (induction k)
  case 0
  then show ?case using assms(1) by auto
next
  case (Suc k)
  then obtain vt1 where vt1: "res_fold (\<lambda>x. vt_set_char c row (of_nat x)) [0..<k] vt = Inr vt1" "screen_wf vt1"
    "\<forall>j < VT_CELLS. terminal_buffer vt1 ! j =
      (if 240 * unat row \<le> j \<and> j < 240 * unat row + k then c else terminal_buffer vt ! j)" by auto
  have u: "unat (of_nat k :: u16) = k" using Suc.prems by (intro unat_of_nat_small) simp
  from vt_set_char_ok [OF vt1(2), of row "of_nat k" c] assms(2) u Suc.prems obtain flags
    where f: "length flags = VT_FLAG_BYTES" "vt_set_char c row (of_nat k) vt1 =
      Inr (vt1\<lparr>terminal_buffer := (terminal_buffer vt1)[240 * unat row + k := c], repaint_flags := flags\<rparr>)"
    by (auto simp: cell_index_def mult.commute)
  have "\<forall>j < VT_CELLS. (terminal_buffer vt1)[240 * unat row + k := c] ! j =
      (if 240 * unat row \<le> j \<and> j < 240 * unat row + Suc k then c else terminal_buffer vt ! j)"
    using vt1(3) by (rule nth_update_extend) (simp_all add: screen_wfD(5) [OF vt1(2)])
  moreover have "screen_wf (vt1\<lparr>terminal_buffer := (terminal_buffer vt1)[240 * unat row + k := c], repaint_flags := flags\<rparr>)"
    using vt1(2) f(1) by (simp add: screen_wf_def)
  ultimately show ?case using vt1(1) f(2) by (simp add: res_fold_append)
qed

text \<open>
  Scrolling: every row but the last gets the characters of the row below it, the last row becomes
  blank, and nothing outside the screen's width and height changes.
\<close>

lemma vt_shift_rows_content:
  assumes "screen_wf vt"
  shows "case vt_shift_rows vt of Inl e \<Rightarrow> False
    | Inr vt' \<Rightarrow> \<forall>row < 135. \<forall>col < 240.
        terminal_buffer vt' ! (240 * row + col) =
          (if unat (terminal_width vt) \<le> col \<or> unat (terminal_height vt) \<le> row
           then terminal_buffer vt ! (240 * row + col)
           else if row + 1 < unat (terminal_height vt) then terminal_buffer vt ! (240 * (row + 1) + col) else 32)"
proof -
  note w = screen_wfD [OF assms]
  have h0: "0 < terminal_height vt" using assms by (simp add: screen_wf_def word_less_nat_alt)
  have h: "unat (terminal_height vt) - 1 \<le> 134" using w by simp
  from shift_rows [OF assms h w(1)] obtain vt1
    where vt1: "res_fold (\<lambda>y. res_fold (\<lambda>x vt. res_bind (array_get (terminal_buffer vt) (VT_MAX_WIDTH * (y + 1) + x)) (\<lambda>character.
      vt_set_char character (of_nat y) (of_nat x) vt)) [0..<unat (terminal_width vt)])
      [0..<unat (terminal_height vt) - 1] vt = Inr vt1" "screen_wf vt1" "same_size vt vt1"
    "\<forall>j < VT_CELLS. terminal_buffer vt1 ! j = (if j div 240 < unat (terminal_height vt) - 1 \<and> j mod 240 < unat (terminal_width vt)
      then terminal_buffer vt ! (j + 240) else terminal_buffer vt ! j)" by blast
  have dims: "terminal_width vt1 = terminal_width vt" "terminal_height vt1 = terminal_height vt"
    using vt1(3) by (simp_all add: same_size_def)
  have last: "unat (terminal_height vt - 1) = unat (terminal_height vt) - 1" using h0 by (rule unat_pred)
  have "unat (terminal_height vt - 1) < 135" unfolding last using w by simp
  from blank_row [OF vt1(2) this w(1), of 32] obtain vt2
    where vt2: "res_fold (\<lambda>x. vt_set_char 32 (terminal_height vt - 1) (of_nat x)) [0..<unat (terminal_width vt)] vt1 = Inr vt2"
      "\<forall>j < VT_CELLS. terminal_buffer vt2 ! j = (if 240 * (unat (terminal_height vt) - 1) \<le> j \<and>
         j < 240 * (unat (terminal_height vt) - 1) + unat (terminal_width vt) then 32 else terminal_buffer vt1 ! j)"
    unfolding last by blast
  have run: "vt_shift_rows vt = Inr vt2"
    using h0 vt1(1) vt2(1) by (simp add: vt_shift_rows_def dims word_neq_0_conv)
  have cell: "terminal_buffer vt2 ! (240 * row + col) =
      (if unat (terminal_width vt) \<le> col \<or> unat (terminal_height vt) \<le> row
       then terminal_buffer vt ! (240 * row + col)
       else if row + 1 < unat (terminal_height vt) then terminal_buffer vt ! (240 * (row + 1) + col) else 32)"
    if "row < 135" "col < 240" for row col
  proof -
    have j: "240 * row + col < VT_CELLS" using that by simp
    have dm: "(240 * row + col) div 240 = row" "(240 * row + col) mod 240 = col" using that(2) by simp_all
    have c1: "terminal_buffer vt1 ! (240 * row + col) = (if row < unat (terminal_height vt) - 1 \<and> col < unat (terminal_width vt)
      then terminal_buffer vt ! (240 * row + col + 240) else terminal_buffer vt ! (240 * row + col))"
      using vt1(4) [rule_format, OF j] unfolding dm .
    have c2: "terminal_buffer vt2 ! (240 * row + col) = (if row = unat (terminal_height vt) - 1 \<and> col < unat (terminal_width vt)
      then 32 else terminal_buffer vt1 ! (240 * row + col))"
      using vt2(2) j block_index [OF w(1), of "unat (terminal_height vt) - 1" "240 * row + col"] unfolding dm by simp
    have eq: "240 * row + col + 240 = 240 * (row + 1) + col" by simp
    show ?thesis using c1 c2 h0 unfolding eq by (auto simp: word_less_nat_alt)
  qed
  then show ?thesis unfolding run by simp
qed

lemma vt_shift_rows_content_witness:
  "case vt_shift_rows demo_vt of Inl e \<Rightarrow> False
    | Inr vt' \<Rightarrow> \<forall>row < 135. \<forall>col < 240.
        terminal_buffer vt' ! (240 * row + col) =
          (if unat (terminal_width demo_vt) \<le> col \<or> unat (terminal_height demo_vt) \<le> row
           then terminal_buffer demo_vt ! (240 * row + col)
           else if row + 1 < unat (terminal_height demo_vt) then terminal_buffer demo_vt ! (240 * (row + 1) + col) else 32)"
  by (rule vt_shift_rows_content [OF demo_vt_wf])

section \<open>The input queue\<close>

text \<open>
  The contract of a bounded queue: putting an element appends it when there is room and drops it
  otherwise. The ring buffer of a terminal is such a queue of 4095 characters.
\<close>

locale bounded_queue =
  fixes put :: "'c \<Rightarrow> 's \<Rightarrow> 's res" and wf :: "'s \<Rightarrow> bool" and contents :: "'s \<Rightarrow> 'c list" and cap :: nat
  assumes bounded: "wf s \<Longrightarrow> length (contents s) \<le> cap"
    and put_ok: "wf s \<Longrightarrow> \<exists>s'. put c s = Inr s' \<and> wf s' \<and>
      contents s' = (if length (contents s) < cap then contents s @ [c] else contents s)"
begin

lemma put_all:
  assumes "wf s"
  shows "\<exists>s'. res_fold put cs s = Inr s' \<and> wf s' \<and> contents s' = take cap (contents s @ cs)"
  using assms
proof (induction cs arbitrary: s)
  case Nil
  then show ?case using bounded by simp
next
  case (Cons c cs)
  from put_ok [OF Cons.prems, of c] obtain s1 where s1: "put c s = Inr s1" "wf s1"
    "contents s1 = (if length (contents s) < cap then contents s @ [c] else contents s)" by blast
  have "take cap (contents s1 @ cs) = take cap (contents s @ c # cs)"
    using s1(3) bounded [OF Cons.prems] by (auto simp: take_Cons')
  with Cons.IH [OF s1(2)] s1(1) show ?case by auto
qed

end

definition rb_wf :: "vt_device \<Rightarrow> bool" where
  "rb_wf vt \<longleftrightarrow> unat (input_rb_head_idx vt) < 4096 \<and> unat (input_rb_tail_idx vt) < 4096 \<and> length (input_rb vt) = 4096"

definition rb_count :: "vt_device \<Rightarrow> nat" where
  "rb_count vt = (4096 + unat (input_rb_tail_idx vt) - unat (input_rb_head_idx vt)) mod 4096"

definition rb_contents :: "vt_device \<Rightarrow> u8 list" where
  "rb_contents vt = map (\<lambda>i. input_rb vt ! ((unat (input_rb_head_idx vt) + i) mod 4096)) [0..<rb_count vt]"

lemma rb_length [simp]: "length (rb_contents vt) = rb_count vt"
  by (simp add: rb_contents_def)

lemma ring_pos: "a < 8192 \<Longrightarrow> a mod 4096 = (if a < 4096 then a else a - 4096 :: nat)"
  by (simp add: mod_if)

lemma rb_succ:
  assumes "unat (i :: u32) < 4096"
  shows "unat ((i + 1) mod 4096) = (unat i + 1) mod 4096"
proof -
  have "unat (i + 1) = unat i + 1" using assms by (intro unat_add_no_wrap [THEN trans]) simp_all
  then show ?thesis by (simp add: unat_mod)
qed

lemma rb_full:
  assumes "rb_wf vt"
  shows "(VT_INPUT_BUFFER_LENGTH + input_rb_head_idx vt - input_rb_tail_idx vt) mod VT_INPUT_BUFFER_LENGTH = 1 \<longleftrightarrow>
    rb_count vt = 4095"
proof -
  let ?h = "input_rb_head_idx vt" and ?t = "input_rb_tail_idx vt"
  have b: "unat ?h < 4096" "unat ?t < 4096" using assms by (simp_all add: rb_wf_def)
  have add: "unat (4096 + ?h) = 4096 + unat ?h" using b by (intro unat_add_no_wrap [THEN trans]) simp_all
  have "unat (4096 + ?h - ?t) = 4096 + unat ?h - unat ?t"
    using b add by (subst unat_sub_no_wrap) (simp_all add: word_le_nat_alt)
  then have "unat ((4096 + ?h - ?t) mod 4096) = (4096 + unat ?h - unat ?t) mod 4096" by (simp add: unat_mod)
  moreover have "(4096 + unat ?h - unat ?t) mod 4096 = 1 \<longleftrightarrow> (4096 + unat ?t - unat ?h) mod 4096 = 4095"
    using b ring_pos [of "4096 + unat ?h - unat ?t"] ring_pos [of "4096 + unat ?t - unat ?h"] by auto
  ultimately show ?thesis unfolding rb_count_def by (metis unat_1 word_unat_eq_iff)
qed

lemma rb_count_eq:
  assumes "rb_wf vt"
  shows "rb_count vt = (if unat (input_rb_head_idx vt) \<le> unat (input_rb_tail_idx vt)
    then unat (input_rb_tail_idx vt) - unat (input_rb_head_idx vt)
    else 4096 + unat (input_rb_tail_idx vt) - unat (input_rb_head_idx vt))"
proof (cases "unat (input_rb_head_idx vt) \<le> unat (input_rb_tail_idx vt)")
  case True
  then have "4096 + unat (input_rb_tail_idx vt) - unat (input_rb_head_idx vt) =
    unat (input_rb_tail_idx vt) - unat (input_rb_head_idx vt) + 4096" by simp
  moreover have "unat (input_rb_tail_idx vt) - unat (input_rb_head_idx vt) < 4096"
    using assms by (auto simp: rb_wf_def)
  ultimately show ?thesis using True unfolding rb_count_def by (simp only: mod_add_self2 mod_less if_True)
next
  case False
  with assms show ?thesis by (simp add: rb_count_def rb_wf_def)
qed

lemma vt_append_input_character_ok:
  assumes "rb_wf vt"
  shows "\<exists>vt'. vt_append_input_character c vt = Inr vt' \<and> rb_wf vt' \<and>
    rb_contents vt' = (if length (rb_contents vt) < 4095 then rb_contents vt @ [c] else rb_contents vt)"
proof (cases "rb_count vt = 4095")
  case True
  with assms rb_full [OF assms] show ?thesis by (simp add: vt_append_input_character_def)
next
  case False
  let ?h = "input_rb_head_idx vt" and ?t = "input_rb_tail_idx vt"
  have b: "unat ?h < 4096" "unat ?t < 4096" "length (input_rb vt) = 4096" using assms by (simp_all add: rb_wf_def)
  let ?vt' = "vt\<lparr>input_rb := (input_rb vt)[unat ?t := c], input_rb_tail_idx := (?t + 1) mod 4096\<rparr>"
  have run: "vt_append_input_character c vt = Inr ?vt'"
    using False rb_full [OF assms] b by (simp add: vt_append_input_character_def array_set_def)
  have t': "unat ((?t + 1) mod 4096) = (unat ?t + 1) mod 4096" using b(2) by (rule rb_succ)
  have "rb_count vt < 4096" by (simp add: rb_count_def)
  with False have lt: "rb_count vt < 4095" by simp
  have wf': "rb_wf ?vt'" using b t' by (simp add: rb_wf_def)
  have nat: "unat ((?t + 1) mod 4096) = (if unat ?t < 4095 then unat ?t + 1 else 0)"
    using t' b(2) ring_pos [of "unat ?t + 1"] by auto
  have count: "rb_count ?vt' = Suc (rb_count vt)"
    using lt b(1,2) rb_count_eq [OF assms] rb_count_eq [OF wf'] nat by (simp split: if_splits)
  have pos: "(unat ?h + rb_count vt) mod 4096 = unat ?t"
    using b(1,2) rb_count_eq [OF assms] ring_pos [of "unat ?h + rb_count vt"] by (simp split: if_splits)
  have other: "unat ?t \<noteq> (unat ?h + i) mod 4096" if "i < rb_count vt" for i
    using that b(1,2) lt rb_count_eq [OF assms] ring_pos [of "unat ?h + i"] by (simp split: if_splits)
  have "rb_contents ?vt' = rb_contents vt @ [c]"
    unfolding rb_contents_def count using b(2,3) pos other by simp
  with run lt wf' show ?thesis by simp
qed

interpretation vtq: bounded_queue vt_append_input_character rb_wf rb_contents 4095
proof unfold_locales
  show "length (rb_contents s) \<le> 4095" for s
    using mod_less_divisor [of 4096 "4096 + unat (input_rb_tail_idx s) - unat (input_rb_head_idx s)"]
    by (simp add: rb_count_def)
qed (rule vt_append_input_character_ok)

lemma rb_empty:
  assumes "rb_wf vt"
  shows "input_rb_head_idx vt = input_rb_tail_idx vt \<longleftrightarrow> rb_contents vt = []"
proof -
  have "rb_contents vt = [] \<longleftrightarrow> rb_count vt = 0" by (metis length_0_conv rb_length)
  also have "\<dots> \<longleftrightarrow> unat (input_rb_head_idx vt) = unat (input_rb_tail_idx vt)"
    using assms rb_count_eq [OF assms] by (auto simp: rb_wf_def split: if_splits)
  finally show ?thesis by (simp add: word_unat_eq_iff)
qed

lemma rb_take:
  assumes "rb_wf vt" and "rb_contents vt = c # cs"
  shows "array_get (input_rb vt) (unat (input_rb_head_idx vt)) = Inr c \<and>
    rb_wf (vt\<lparr>input_rb_head_idx := (input_rb_head_idx vt + 1) mod 4096\<rparr>) \<and>
    rb_contents (vt\<lparr>input_rb_head_idx := (input_rb_head_idx vt + 1) mod 4096\<rparr>) = cs"
proof -
  let ?h = "input_rb_head_idx vt" and ?t = "input_rb_tail_idx vt"
  let ?vt' = "vt\<lparr>input_rb_head_idx := (?h + 1) mod 4096\<rparr>"
  have b: "unat ?h < 4096" "unat ?t < 4096" "length (input_rb vt) = 4096" using assms by (simp_all add: rb_wf_def)
  have n: "rb_count vt = Suc (length cs)" using arg_cong [OF assms(2), of length] by simp
  have h': "unat ((?h + 1) mod 4096) = (unat ?h + 1) mod 4096" using b(1) by (rule rb_succ)
  have wf': "rb_wf ?vt'" using b h' by (simp add: rb_wf_def)
  have nat: "unat ((?h + 1) mod 4096) = (if unat ?h < 4095 then unat ?h + 1 else 0)"
    using h' b(1) ring_pos [of "unat ?h + 1"] by auto
  have count: "rb_count ?vt' = length cs"
    using n b(1,2) rb_count_eq [OF assms(1)] rb_count_eq [OF wf'] nat by (simp split: if_splits)
  have pos: "((unat ?h + 1) mod 4096 + i) mod 4096 = (unat ?h + Suc i) mod 4096" for i
    by (simp add: mod_add_left_eq)
  have all: "rb_contents vt ! i = input_rb vt ! ((unat ?h + i) mod 4096)" if "i < Suc (length cs)" for i
    using that unfolding rb_contents_def n by (simp del: upt_Suc)
  have "rb_contents ?vt' = cs"
  proof (rule nth_equalityI)
    show "length (rb_contents ?vt') = length cs" using count by simp
    fix i assume "i < length (rb_contents ?vt')"
    then have i: "i < length cs" using count by simp
    then have "rb_contents ?vt' ! i = input_rb vt ! (((unat ?h + 1) mod 4096 + i) mod 4096)"
      unfolding rb_contents_def count using h' by simp
    also have "\<dots> = cs ! i" unfolding pos using all [of "Suc i"] i assms(2) by simp
    finally show "rb_contents ?vt' ! i = cs ! i" .
  qed
  moreover have "array_get (input_rb vt) (unat ?h) = Inr c"
    using all [of 0] b assms(2) by (simp add: array_get_def)
  ultimately show ?thesis using wf' by simp
qed

lemma vt_drain_fifo:
  assumes "rb_wf vt" and "unat n < unat len" and "unat len \<le> length buffer"
  shows "\<exists>vt' m. vt_drain len n buffer vt =
      Inr (vt', take (unat n) buffer @ take (unat len - unat n) (rb_contents vt) @
             drop (unat n + m) buffer, n + of_nat m, unat len - unat n \<le> length (rb_contents vt)) \<and>
    m = min (unat len - unat n) (length (rb_contents vt)) \<and> rb_wf vt' \<and>
    rb_contents vt' = drop (unat len - unat n) (rb_contents vt)"
  using assms
proof (induction "rb_contents vt" arbitrary: vt n buffer)
  case Nil
  have e: "rb_contents vt = []" using Nil.hyps by simp
  then have "vt_drain len n buffer vt = Inr (vt, buffer, n, False)"
    using rb_empty [OF Nil.prems(1)] by (simp add: vt_drain.simps [of len n buffer vt])
  moreover have "\<not> unat len - unat n \<le> 0" using Nil.prems(2) by simp
  ultimately show ?case using Nil.prems(1) e by (intro exI [of _ vt] exI [of _ 0]) simp
next
  case (Cons c cs)
  note q = Cons.hyps(2) [symmetric]
  let ?vt1 = "vt\<lparr>input_rb_head_idx := (input_rb_head_idx vt + 1) mod 4096\<rparr>"
  from rb_take [OF Cons.prems(1) q] have get: "array_get (input_rb vt) (unat (input_rb_head_idx vt)) = Inr c"
    and wf1: "rb_wf ?vt1" and cs: "rb_contents ?vt1 = cs" by auto
  have ne: "input_rb_head_idx vt \<noteq> input_rb_tail_idx vt" using rb_empty [OF Cons.prems(1)] q by simp
  have nb: "unat n < length buffer" using Cons.prems(2,3) by simp
  have n1: "unat (n + 1) = unat n + 1" using Cons.prems(2) by (intro unat_succ [of n len]) (simp add: word_less_nat_alt)
  have step: "vt_drain len n buffer vt = (if n + 1 = len then Inr (?vt1, buffer[unat n := c], n + 1, True)
      else if n + 1 = 0 then Inl Invalid_Access else vt_drain len (n + 1) (buffer[unat n := c]) ?vt1)"
    using ne nb get by (simp add: vt_drain.simps [of len n buffer vt] Let_def)
  show ?case
  proof (cases "n + 1 = len")
    case True
    then have k: "unat len - unat n = 1" using n1 by simp
    have "buffer[unat n := c] = take (unat n) buffer @ take 1 (rb_contents vt) @ drop (unat n + 1) buffer"
      using nb q by (simp add: upd_conv_take_nth_drop)
    then show ?thesis using True step wf1 cs q unfolding k
      by (intro exI [of _ ?vt1] exI [of _ 1]) simp
  next
    case False
    then have lt: "unat (n + 1) < unat len" using Cons.prems(2) n1 by (simp add: word_unat_eq_iff)
    define k where "k = unat len - unat (n + 1)"
    have k: "unat len - unat n = Suc k" using lt n1 by (simp add: k_def)
    from Cons.hyps(1) [of ?vt1 "n + 1" "buffer[unat n := c]"] lt wf1 cs Cons.prems(3) obtain vt' m
      where ih: "vt_drain len (n + 1) (buffer[unat n := c]) ?vt1 = Inr (vt',
          take (unat (n + 1)) (buffer[unat n := c]) @ take k cs @ drop (unat (n + 1) + m) (buffer[unat n := c]),
          n + 1 + of_nat m, k \<le> length cs)"
        "m = min k (length cs)" "rb_wf vt'" "rb_contents vt' = drop k cs"
      unfolding k_def by auto
    have "n + 1 \<noteq> 0" using n1 by auto
    moreover have "take (unat (n + 1)) (buffer[unat n := c]) @ take k cs @ drop (unat (n + 1) + m) (buffer[unat n := c]) =
        take (unat n) buffer @ take (Suc k) (rb_contents vt) @ drop (unat n + Suc m) buffer"
      using nb q n1 by (simp add: take_Suc_conv_app_nth)
    ultimately show ?thesis using step False ih q unfolding k
      by (intro exI [of _ vt'] exI [of _ "Suc m"]) (simp add: algebra_simps)
  qed
qed

text \<open>
  C28: the input queue of a terminal is first in, first out, and holds 4095 characters: characters typed
  are appended behind those waiting, dropped once the queue is full, and a read takes them in that
  order, completes exactly when enough of them have arrived and leaves the rest.
\<close>

theorem input_fifo:
  assumes "rb_wf vt" and "0 < unat len" and "unat len \<le> length buffer"
  shows "case res_bind (vt_append_all cs vt) (vt_drain len 0 buffer) of Inl e \<Rightarrow> False
    | Inr (vt', buffer', n, complete) \<Rightarrow>
        (let q = take 4095 (rb_contents vt @ cs); r = take (unat len) q in
          buffer' = r @ drop (length r) buffer \<and> unat n = length r \<and> (complete \<longleftrightarrow> unat len \<le> length q) \<and>
          rb_wf vt' \<and> rb_contents vt' = drop (unat len) q)"
proof -
  define q where "q = take 4095 (rb_contents vt @ cs)"
  from vtq.put_all [OF assms(1), of cs] obtain vt1
    where vt1: "vt_append_all cs vt = Inr vt1" "rb_wf vt1" "rb_contents vt1 = q"
    unfolding vt_append_all_def q_def by blast
  from vt_drain_fifo [OF vt1(2), of 0 len buffer] assms(2,3) obtain vt' m
    where d: "vt_drain len 0 buffer vt1 = Inr (vt', take (unat len) q @ drop m buffer, of_nat m,
        unat len \<le> length q)"
      "m = min (unat len) (length q)" "rb_wf vt'" "rb_contents vt' = drop (unat len) q"
    unfolding vt1(3) by auto
  have "m < 2 ^ 64" using d(2) unsigned_less [of len, where ?'a = nat] by simp
  then have "unat (of_nat m :: u64) = m" by (intro unat_of_nat_small) simp
  moreover have "m = length (take (unat len) q)" using d(2) by simp
  ultimately show ?thesis using d(1,3,4) unfolding vt1(1) res_bind_Inr q_def [symmetric] Let_def by simp
qed

lemma demo_vt_rb: "rb_wf demo_vt"
  by (simp add: demo_vt_def vt_device_init_def rb_wf_def)

lemma input_fifo_witness:
  "case res_bind (vt_append_all [104, 105] demo_vt) (vt_drain 1 0 [0, 0]) of Inl e \<Rightarrow> False
    | Inr (vt', buffer', n, complete) \<Rightarrow>
        (let q = take 4095 (rb_contents demo_vt @ [104, 105]); r = take (unat (1 :: u64)) q in
          buffer' = r @ drop (length r) [0, 0] \<and> unat n = length r \<and> (complete \<longleftrightarrow> unat (1 :: u64) \<le> length q) \<and>
          rb_wf vt' \<and> rb_contents vt' = drop (unat (1 :: u64)) q)"
  by (rule input_fifo [OF demo_vt_rb]) simp_all

text \<open>
  A read of no bytes is not a way to return at once: as soon as a character is waiting, the loop stores
  it past the end of the buffer.
\<close>

text \<open>
  Reading zero bytes from a terminal with waiting input overruns the empty buffer.
\<close>

lemma vt_drain_zero_overruns:
  assumes "rb_wf vt" and "rb_contents vt \<noteq> []"
  shows "vt_drain 0 0 [] vt = Inl Invalid_Access"
  using assms rb_empty [OF assms(1)] by (simp add: vt_drain.simps [of 0 0 "[]" vt])

lemma vt_drain_zero_overruns_witness:
  "\<exists>vt. rb_contents vt = [104] \<and> vt_drain 0 0 [] vt = Inl Invalid_Access"
proof -
  from vtq.put_all [OF demo_vt_rb, of "[104]"] obtain vt1
    where "rb_wf vt1" "rb_contents vt1 = take 4095 (rb_contents demo_vt @ [104])" by blast
  moreover have "rb_contents demo_vt = []" by (simp add: rb_contents_def rb_count_def demo_vt_def vt_device_init_def)
  ultimately show ?thesis using vt_drain_zero_overruns [of vt1] by auto
qed

section \<open>Glyphs\<close>

lemma vt_paint_pixel_ok:
  assumes "g * 32 + i * 2 + half < 3040"
    and "ucast (fb_width (vt_framebuffer vt)) \<noteq> (0 :: u16)" and "ucast (fb_height (vt_framebuffer vt)) \<noteq> (0 :: u16)"
  shows "\<exists>m'. vt_paint_pixel g row column vt i half j m = Inr m'"
  using assms
  by (simp add: vt_paint_pixel_def array_get_def length_Font16x16 vt_background_color_def Let_def)

lemma paint_row:
  assumes "\<And>j m. \<exists>m'. f j m = Inr m'"
  shows "\<exists>m'. res_fold f js m = Inr m'"
  using res_fold_total [of "\<lambda>m. True" m js f] assms by simp

lemma glyph_index_less: "c \<noteq> 127 \<Longrightarrow> glyph_index c < 95"
proof (cases "c < 32 \<or> unat c > 127")
  case True
  then show ?thesis by (auto simp: glyph_index_def)
next
  case False
  moreover assume "c \<noteq> 127"
  then have "unat c \<noteq> 127" by (auto simp: word_unat_eq_iff)
  ultimately have "32 \<le> unat c" "unat c < 127" "unat (c - 32) = unat c - 32"
    by (simp_all add: word_le_nat_alt not_less unat_sub_no_wrap)
  with False show ?thesis by (simp add: glyph_index_def)
qed

text \<open>
  Painting a cell is defined for every character but one: the font has no glyph for character
  127, which the range check of the repaint lets through, and painting it reads behind the font table.
\<close>

lemma vt_repaint_char_defined:
  assumes "screen_wf vt" and "row < terminal_height vt" and "column < terminal_width vt"
    and "ucast (fb_width (vt_framebuffer vt)) \<noteq> (0 :: u16)" and "ucast (fb_height (vt_framebuffer vt)) \<noteq> (0 :: u16)"
  shows "(case vt_repaint_char row column vt m of Inr m' \<Rightarrow> terminal_buffer vt ! cell_index row column \<noteq> 127
    | Inl e \<Rightarrow> terminal_buffer vt ! cell_index row column = 127 \<and> e = Invalid_Access)"
proof -
  note w = screen_wfD [OF assms(1)]
  have "cell_index row column < VT_CELLS"
    using w(1,2) assms(2,3) by (intro cell_index_bound) (simp_all add: word_less_nat_alt)
  then have get: "array_get (terminal_buffer vt) (cell_index row column) = Inr (terminal_buffer vt ! cell_index row column)"
    using w(5) by (simp add: array_get_def)
  let ?c = "terminal_buffer vt ! cell_index row column"
  let ?line = "\<lambda>i m1. res_bind (res_fold (\<lambda>j. vt_paint_pixel (glyph_index ?c) row column vt i 0 j) [0..<8] m1)
      (res_fold (\<lambda>j. vt_paint_pixel (glyph_index ?c) row column vt i 1 j) [0..<8])"
  show ?thesis
  proof (cases "?c = 127")
    case True
    then have g: "glyph_index ?c = 95" by (simp add: glyph_index_def)
    have fail: "vt_paint_pixel 95 row column vt 0 0 0 m = Inl Invalid_Access"
      by (simp add: vt_paint_pixel_def array_get_def length_Font16x16)
    have e: "[0..<16] = 0 # [1..<16]" "[0..<8] = 0 # [1..<8]" by (simp_all add: upt_conv_Cons)
    have "res_fold ?line [0..<16] m = Inl Invalid_Access"
      unfolding e g by (simp only: res_fold.simps fail res_bind_Inl)
    then show ?thesis using True get by (simp add: vt_repaint_char_def del: upt_Suc)
  next
    case False
    have "\<exists>m'. ?line i m1 = Inr m'" if "i < 16" for i m1
    proof -
      have ok: "\<exists>m'. vt_paint_pixel (glyph_index ?c) row column vt i half j m2 = Inr m'" if "half \<le> 1" for half j m2
        using glyph_index_less [OF False] \<open>i < 16\<close> that assms(4,5) by (intro vt_paint_pixel_ok) linarith
      obtain m2 where "res_fold (\<lambda>j. vt_paint_pixel (glyph_index ?c) row column vt i 0 j) [0..<8] m1 = Inr m2"
        using paint_row [of "\<lambda>j. vt_paint_pixel (glyph_index ?c) row column vt i 0 j"] ok by blast
      moreover obtain m3 where "res_fold (\<lambda>j. vt_paint_pixel (glyph_index ?c) row column vt i 1 j) [0..<8] m2 = Inr m3"
        using paint_row [of "\<lambda>j. vt_paint_pixel (glyph_index ?c) row column vt i 1 j"] ok by blast
      ultimately show ?thesis by (simp del: upt_Suc)
    qed
    then have "\<exists>m'. res_fold ?line [0..<16] m = Inr m'"
      using res_fold_total [of "\<lambda>m. True" m "[0..<16]" ?line] by simp
    then show ?thesis using False get by (auto simp: vt_repaint_char_def simp del: upt_Suc)
  qed
qed

lemma vt_repaint_char_defined_witness:
  "\<exists>vt. terminal_buffer vt ! 0 = 127 \<and> vt_repaint_char 0 0 vt (\<lambda>_. 0) = Inl Invalid_Access"
proof (intro exI conjI)
  let ?vt = "demo_vt\<lparr>terminal_buffer := (terminal_buffer demo_vt)[0 := 127]\<rparr>"
  have wf: "screen_wf ?vt" using demo_vt_wf by (simp add: screen_wf_def)
  have dims: "vt_framebuffer ?vt = \<lparr>fb_width = 640, fb_height = 480, fb_pitch = 2560\<rparr>"
    "0 < terminal_width ?vt" "0 < terminal_height ?vt"
    using wf by (simp_all add: screen_wf_def word_less_nat_alt demo_vt_def vt_device_init_def)
  show c: "terminal_buffer ?vt ! 0 = 127" using screen_wfD(5) [OF demo_vt_wf] by simp
  have "cell_index 0 0 = 0" by (simp add: cell_index_def)
  with vt_repaint_char_defined [OF wf dims(3,2), of "\<lambda>_. 0"] c
  show "vt_repaint_char 0 0 ?vt (\<lambda>_. 0) = Inl Invalid_Access"
    unfolding dims(1) by (auto split: sum.splits)
qed

end
