(* ===== verification/Keyboard.thy ===== *)
theory Keyboard
  imports Tty
begin

text \<open>
  \<^verbatim>\<open>kernel/src/drivers/keyboard.c\<close>: from scancodes to terminal input. The keyboard controller is outside
  the program: \<open>keyboard_rb_fill\<close> takes the list of what its ports answer, one pair of a scancode (port
  \<^verbatim>\<open>0x60\<close>) and a status byte (port \<^verbatim>\<open>0x64\<close>) per round of the loop.
\<close>

section \<open>Key maps\<close>

abbreviation ascii :: "u8 \<Rightarrow> keyboard_event" where
  "ascii c \<equiv> \<lparr>symbol_type = KBD_ASCII, symbol = c, scancode = 0\<rparr>"

abbreviation nonascii :: "u8 \<Rightarrow> keyboard_event" where
  "nonascii c \<equiv> \<lparr>symbol_type = KBD_NONASCII, symbol = c, scancode = 0\<rparr>"

text \<open>Both arrays have 128 elements; the elements without an initialiser are zero.\<close>

definition no_key :: keyboard_event where
  "no_key = \<lparr>symbol_type = 0, symbol = 0, scancode = 0\<rparr>"

definition keymap_no_modifiers :: "keyboard_event list" where
  "keymap_no_modifiers = [
    nonascii 0, nonascii KBD_ESC, ascii 49, ascii 50, ascii 51, ascii 52, ascii 53, ascii 54, ascii 55,
    ascii 56, ascii 57, ascii 48, ascii 45, ascii 61, nonascii KBD_BACKSPACE, ascii 9, ascii 113, ascii 119,
    ascii 101, ascii 114, ascii 116, ascii 121, ascii 117, ascii 105, ascii 111, ascii 112, ascii 91,
    ascii 93, ascii 10, nonascii 0, ascii 97, ascii 115, ascii 100, ascii 102, ascii 103, ascii 104,
    ascii 106, ascii 107, ascii 108, ascii 59, ascii 39, ascii 96, nonascii 0, ascii 35, ascii 122, ascii 120,
    ascii 99, ascii 118, ascii 98, ascii 110, ascii 109, ascii 44, ascii 46, ascii 47, nonascii 0, ascii 42,
    nonascii 0, ascii 32, nonascii 0, nonascii 0, nonascii 0, nonascii 0, nonascii 0, nonascii 0, nonascii 0,
    nonascii 0, nonascii 0, nonascii 0, nonascii 0, nonascii 0, nonascii 0, nonascii 0, nonascii KBD_ARROW_UP,
    nonascii 0, ascii 45, nonascii KBD_ARROW_LEFT, nonascii 0, nonascii KBD_ARROW_RIGHT, ascii 43, nonascii 0,
    nonascii KBD_ARROW_DOWN, nonascii 0, nonascii 0, nonascii 0, nonascii 0, nonascii 0, ascii 92, nonascii 0,
    nonascii 0] @ replicate 39 no_key"

definition keymap_shift :: "keyboard_event list" where
  "keymap_shift = [
    nonascii 0, nonascii KBD_ESC, ascii 33, ascii 34, ascii 35, ascii 36, ascii 37, ascii 94, ascii 38,
    ascii 42, ascii 40, ascii 41, ascii 95, ascii 43, nonascii KBD_BACKSPACE, ascii 9, ascii 81, ascii 87,
    ascii 69, ascii 82, ascii 84, ascii 89, ascii 85, ascii 73, ascii 79, ascii 80, ascii 123, ascii 125,
    ascii 10, nonascii 0, ascii 65, ascii 83, ascii 68, ascii 70, ascii 71, ascii 72, ascii 74, ascii 75,
    ascii 76, ascii 58, ascii 64, nonascii 0, nonascii 0, ascii 126, ascii 90, ascii 88, ascii 67, ascii 86,
    ascii 66, ascii 78, ascii 77, ascii 60, ascii 62, ascii 63, nonascii 0, ascii 42, nonascii 0, ascii 32,
    nonascii 0, nonascii 0, nonascii 0, nonascii 0, nonascii 0, nonascii 0, nonascii 0, nonascii 0,
    nonascii 0, nonascii 0, nonascii 0, nonascii 0, nonascii 0, nonascii 0, nonascii KBD_ARROW_UP, nonascii 0,
    ascii 45, nonascii KBD_ARROW_LEFT, nonascii 0, nonascii KBD_ARROW_RIGHT, ascii 43, nonascii 0,
    nonascii KBD_ARROW_DOWN, nonascii 0, nonascii 0, nonascii 0, nonascii 0, nonascii 0, ascii 124,
    nonascii 0, nonascii 0] @ replicate 39 no_key"

lemma length_keymaps: "length keymap_no_modifiers = 128 \<and> length keymap_shift = 128"
  by (simp add: keymap_no_modifiers_def keymap_shift_def)

section \<open>The driver\<close>

record keyboard_state = tty_state +
  depressed_mod_keys :: u8

definition MOD_CTRL :: u8 where "MOD_CTRL = 1"
definition MOD_SHIFT :: u8 where "MOD_SHIFT = 2"
definition MOD_ALT :: u8 where "MOD_ALT = 4"

text \<open>One round of the loop, for the scancode it has read.\<close>

definition keyboard_scancode :: "u8 \<Rightarrow> 'z keyboard_state_scheme \<Rightarrow> 'z keyboard_state_scheme res" where
  "keyboard_scancode code st =
     (let mods = depressed_mod_keys st
      in if code = 0x2A then Inr (st\<lparr>depressed_mod_keys := mods OR MOD_SHIFT\<rparr>)
         else if code = 0xAA then Inr (st\<lparr>depressed_mod_keys := mods AND NOT MOD_SHIFT\<rparr>)
         else if code = 0x1D then Inr (st\<lparr>depressed_mod_keys := mods OR MOD_CTRL\<rparr>)
         else if code = 0x9D then Inr (st\<lparr>depressed_mod_keys := mods AND NOT MOD_CTRL\<rparr>)
         else if code = 0x38 then Inr (st\<lparr>depressed_mod_keys := mods OR MOD_ALT\<rparr>)
         else if code = 0xB8 then Inr (st\<lparr>depressed_mod_keys := mods AND NOT MOD_ALT\<rparr>)
         else if code > 0x80 then Inr st
         else if code = 0x02 \<and> mods AND MOD_CTRL \<noteq> 0 then set_active_vt Tty1 st
         else if code = 0x03 \<and> mods AND MOD_CTRL \<noteq> 0 then set_active_vt Tty2 st
         else if code = 0x04 \<and> mods AND MOD_CTRL \<noteq> 0 then set_active_vt Tty3 st
         else res_bind (array_get (if mods AND MOD_SHIFT \<noteq> 0 then keymap_shift else keymap_no_modifiers) (unat code))
           (\<lambda>event.
              if symbol event = 0 then Inr st
              else res_bind (vt_update_input (event\<lparr>scancode := code\<rparr>) (ttys st (active_vt st))) (\<lambda>vt.
                     Inr (upd_tty (active_vt st) vt st))))"

fun keyboard_rb_fill :: "(u8 \<times> u8) list \<Rightarrow> 'z keyboard_state_scheme \<Rightarrow> 'z keyboard_state_scheme res" where
  "keyboard_rb_fill [] st = Inl Diverges"
| "keyboard_rb_fill ((code, status) # ports) st =
     res_bind (keyboard_scancode code st) (\<lambda>st1.
       if status AND 1 = 1 then keyboard_rb_fill ports st1 else Inr st1)"

section \<open>What is typed\<close>

text \<open>
  The text a sequence of scancodes stands for when no control key is involved: the shift key selects
  the key map, a key contributes the characters of its symbol, everything else contributes nothing.
\<close>

definition key_characters :: "keyboard_event \<Rightarrow> u8 list" where
  "key_characters e =
     (if symbol e = 0 then []
      else if symbol_type e = KBD_ASCII then [symbol e]
      else if symbol e = KBD_ESC then [0x1B]
      else if symbol e = KBD_BACKSPACE then [0xFF]
      else if symbol e = KBD_ARROW_UP then [0x1B, 91, 65]
      else if symbol e = KBD_ARROW_DOWN then [0x1B, 91, 66]
      else if symbol e = KBD_ARROW_RIGHT then [0x1B, 91, 67]
      else if symbol e = KBD_ARROW_LEFT then [0x1B, 91, 68]
      else [])"

fun typed :: "bool \<Rightarrow> u8 list \<Rightarrow> u8 list" where
  "typed shift [] = []"
| "typed shift (code # codes) =
     (if code = 0x2A then typed True codes
      else if code = 0xAA then typed False codes
      else if code \<ge> 0x80 then typed shift codes
      else key_characters ((if shift then keymap_shift else keymap_no_modifiers) ! unat code) @ typed shift codes)"

lemma vt_append_all_single: "vt_append_all [c] vt = vt_append_input_character c vt"
  by (cases "vt_append_input_character c vt") (simp_all add: vt_append_all_def)

lemma vt_update_input_characters:
  assumes "symbol e \<noteq> 0" and "symbol_type e = KBD_ASCII \<or> symbol_type e = KBD_NONASCII"
  shows "vt_update_input e vt = vt_append_all (key_characters e) vt"
proof -
  have "KBD_ASCII \<noteq> KBD_NONASCII" by (simp add: KBD_ASCII_def KBD_NONASCII_def)
  moreover have "Inr vt = vt_append_all [] vt" by (simp add: vt_append_all_def)
  ultimately show ?thesis using assms
    by (cases "symbol_type e = KBD_ASCII")
      (simp_all add: key_characters_def vt_update_input_def vt_append_all_single
        if_distrib [of "\<lambda>cs. vt_append_all cs vt"] cong: if_cong)
qed

lemma keymap_symbols:
  assumes "e \<in> set keymap_no_modifiers \<or> e \<in> set keymap_shift"
  shows "symbol e = 0 \<or> symbol_type e = KBD_ASCII \<or> symbol_type e = KBD_NONASCII"
proof -
  have "\<forall>e \<in> set keymap_no_modifiers. symbol e = 0 \<or> symbol_type e = KBD_ASCII \<or> symbol_type e = KBD_NONASCII"
    by (simp add: keymap_no_modifiers_def no_key_def)
  moreover have "\<forall>e \<in> set keymap_shift. symbol e = 0 \<or> symbol_type e = KBD_ASCII \<or> symbol_type e = KBD_NONASCII"
    by (simp add: keymap_shift_def no_key_def)
  ultimately show ?thesis using assms by blast
qed

text \<open>The modifier bits.\<close>

abbreviation shift_down :: "'z keyboard_state_scheme \<Rightarrow> bool" where
  "shift_down st \<equiv> bit (depressed_mod_keys st) 1"

abbreviation ctrl_down :: "'z keyboard_state_scheme \<Rightarrow> bool" where
  "ctrl_down st \<equiv> bit (depressed_mod_keys st) 0"

lemma mod_bits:
  "(m :: u8) AND MOD_SHIFT \<noteq> 0 \<longleftrightarrow> bit m 1" "m AND MOD_CTRL \<noteq> 0 \<longleftrightarrow> bit m 0"
  "bit (m OR MOD_SHIFT) 1" "bit (m OR MOD_SHIFT) 0 = bit m 0"
  "\<not> bit (m AND NOT MOD_SHIFT) 1" "bit (m AND NOT MOD_SHIFT) 0 = bit m 0"
  "bit (m AND NOT MOD_ALT) 1 = bit m 1" "bit (m AND NOT MOD_ALT) 0 = bit m 0"
  "\<not> bit (m AND NOT MOD_CTRL) 0" "bit (m AND NOT MOD_CTRL) 1 = bit m 1"
  "bit (m OR MOD_ALT) 1 = bit m 1" "bit (m OR MOD_ALT) 0 = bit m 0"
proof -
  have p: "MOD_SHIFT = 2 ^ 1" "MOD_CTRL = 2 ^ 0" "MOD_ALT = 2 ^ 2"
    by (simp_all add: MOD_SHIFT_def MOD_CTRL_def MOD_ALT_def)
  show "(m AND MOD_SHIFT \<noteq> 0) = bit m 1" "(m AND MOD_CTRL \<noteq> 0) = bit m 0"
    unfolding p by (simp_all only: and_exp_eq_0_iff_not_bit not_not)
  show "bit (m OR MOD_SHIFT) 1" "bit (m OR MOD_SHIFT) 0 = bit m 0"
    "\<not> bit (m AND NOT MOD_SHIFT) 1" "bit (m AND NOT MOD_SHIFT) 0 = bit m 0"
    "bit (m AND NOT MOD_ALT) 1 = bit m 1" "bit (m AND NOT MOD_ALT) 0 = bit m 0"
    "\<not> bit (m AND NOT MOD_CTRL) 0" "bit (m AND NOT MOD_CTRL) 1 = bit m 1"
    "bit (m OR MOD_ALT) 1 = bit m 1" "bit (m OR MOD_ALT) 0 = bit m 0"
    unfolding p by (simp_all only: bit_or_iff bit_and_iff bit_not_iff bit_exp_iff) simp_all
qed

lemmas mod_simps = mod_bits mod_bits [unfolded One_nat_def]

text \<open>The characters of a key in the map that the shift key selects.\<close>

definition key_of :: "bool \<Rightarrow> u8 \<Rightarrow> keyboard_event" where
  "key_of shift code = (if shift then keymap_shift else keymap_no_modifiers) ! unat code"

lemma keyboard_key:
  assumes "rb_wf (ttys st (active_vt st))" and "\<not> ctrl_down st"
    and "code < 0x80" and "code \<notin> {0x2A, 0x1D, 0x38}"
  shows "\<exists>vt. keyboard_scancode code st = Inr (upd_tty (active_vt st) vt st) \<and> rb_wf vt \<and>
    rb_contents vt = take 4095 (rb_contents (ttys st (active_vt st)) @ key_characters (key_of (shift_down st) code))"
proof -
  let ?map = "if shift_down st then keymap_shift else keymap_no_modifiers"
  let ?e = "key_of (shift_down st) code"
  let ?vt = "ttys st (active_vt st)"
  have lt: "unat code < 128" using assms(3) by (simp add: word_less_nat_alt)
  then have get: "array_get ?map (unat code) = Inr ?e" using length_keymaps by (simp add: array_get_def key_of_def)
  have "?e \<in> set ?map" using lt length_keymaps by (auto simp: key_of_def)
  then have sym: "symbol ?e = 0 \<or> symbol_type ?e = KBD_ASCII \<or> symbol_type ?e = KBD_NONASCII"
    by (intro keymap_symbols) (auto split: if_splits)
  have step: "keyboard_scancode code st = (if symbol ?e = 0 then Inr st
      else res_bind (vt_update_input (?e\<lparr>scancode := code\<rparr>) ?vt) (\<lambda>vt. Inr (upd_tty (active_vt st) vt st)))"
  proof -
    have "\<not> 0x80 < code" "code \<noteq> 0xAA" "code \<noteq> 0x9D" "code \<noteq> 0xB8" using assms(3) by auto
    with assms(2,4) get show ?thesis unfolding keyboard_scancode_def mod_bits(1,2) Let_def by simp
  qed
  show ?thesis
  proof (cases "symbol ?e = 0")
    case True
    then have "key_characters ?e = []" by (simp add: key_characters_def)
    moreover have "upd_tty (active_vt st) ?vt st = st" by (simp add: upd_tty_def)
    ultimately show ?thesis using step True assms(1) vtq.bounded [OF assms(1)]
      by (intro exI [of _ ?vt]) (simp del: rb_length)
  next
    case False
    have "key_characters (?e\<lparr>scancode := code\<rparr>) = key_characters ?e" by (simp add: key_characters_def)
    with vt_update_input_characters [of "?e\<lparr>scancode := code\<rparr>" ?vt] sym False
    have "vt_update_input (?e\<lparr>scancode := code\<rparr>) ?vt = vt_append_all (key_characters ?e) ?vt" by simp
    with vtq.put_all [OF assms(1), of "key_characters ?e"] step False show ?thesis
      unfolding vt_append_all_def by auto
  qed
qed

lemma alt_no_text: "key_characters (keymap_shift ! 56) = []" "key_characters (keymap_no_modifiers ! 56) = []"
  by (simp_all add: keymap_shift_def keymap_no_modifiers_def key_characters_def)

lemma typed_scancode:
  assumes "rb_wf (ttys st (active_vt st))" and "\<not> ctrl_down st" and "code \<noteq> 0x1D" and "code \<noteq> 0x80"
  shows "\<exists>st1 cs. keyboard_scancode code st = Inr st1 \<and> rb_wf (ttys st1 (active_vt st)) \<and>
    active_vt st1 = active_vt st \<and> \<not> ctrl_down st1 \<and>
    rb_contents (ttys st1 (active_vt st)) = take 4095 (rb_contents (ttys st (active_vt st)) @ cs) \<and>
    (\<forall>codes. typed (shift_down st) (code # codes) = cs @ typed (shift_down st1) codes)"
proof -
  let ?m = "depressed_mod_keys st"
  have full: "take 4095 (rb_contents (ttys st (active_vt st)) @ []) = rb_contents (ttys st (active_vt st))"
    using vtq.bounded [OF assms(1)] by (simp del: rb_length)
  have mods: ?thesis if "keyboard_scancode code st = Inr (st\<lparr>depressed_mod_keys := m\<rparr>)" "\<not> bit m 0"
    "\<forall>codes. typed (shift_down st) (code # codes) = typed (bit m 1) codes" for m
    using that assms(1) full by (intro exI [of _ "st\<lparr>depressed_mod_keys := m\<rparr>"] exI [of _ "[]"]) simp
  consider "code < 0x80" "code \<notin> {0x2A, 0x1D, 0x38}" | "code = 0x2A" | "code = 0xAA" | "code = 0x38" | "code = 0x9D"
    | "code = 0xB8" | "code > 0x80" "code \<notin> {0x2A, 0xAA, 0x38, 0x9D, 0xB8}"
    using assms(3,4) linorder_less_linear [of code "0x80"] by blast
  then show ?thesis
  proof cases
    case 1
    from keyboard_key [OF assms(1,2) 1] obtain vt
      where vt: "keyboard_scancode code st = Inr (upd_tty (active_vt st) vt st)" "rb_wf vt"
        "rb_contents vt = take 4095 (rb_contents (ttys st (active_vt st)) @ key_characters (key_of (shift_down st) code))"
      by blast
    have "\<forall>codes. typed (shift_down st) (code # codes) = key_characters (key_of (shift_down st) code) @ typed (shift_down st) codes"
      using 1 by (auto simp: key_of_def not_le [symmetric])
    with vt assms(2) show ?thesis by (auto simp: upd_tty_def simp del: typed.simps)
  next
    case 2
    then show ?thesis using assms(2)
      by (intro mods [of "?m OR MOD_SHIFT"]) (simp_all add: keyboard_scancode_def Let_def mod_simps)
  next
    case 3
    then show ?thesis using assms(2)
      by (intro mods [of "?m AND NOT MOD_SHIFT"]) (simp_all add: keyboard_scancode_def Let_def mod_simps)
  next
    case 4
    then show ?thesis using assms(2)
      by (intro mods [of "?m OR MOD_ALT"]) (simp_all add: keyboard_scancode_def Let_def mod_simps alt_no_text)
  next
    case 5
    then show ?thesis using assms(2)
      by (intro mods [of "?m AND NOT MOD_CTRL"]) (simp_all add: keyboard_scancode_def Let_def mod_simps)
  next
    case 6
    then show ?thesis using assms(2)
      by (intro mods [of "?m AND NOT MOD_ALT"]) (simp_all add: keyboard_scancode_def Let_def mod_simps)
  next
    case 7
    then show ?thesis using assms(2,3)
      by (intro mods [of ?m]) (auto simp: keyboard_scancode_def Let_def)
  qed
qed

text \<open>What the ports answer while the scancodes \<open>codes\<close> are waiting: the status bit is clear at the last.\<close>

fun port_answers :: "u8 list \<Rightarrow> (u8 \<times> u8) list" where
  "port_answers [] = []"
| "port_answers (code # codes) = (code, if codes = [] then 0 else 1) # port_answers codes"

lemma keyboard_rb_fill_fold:
  "codes \<noteq> [] \<Longrightarrow> keyboard_rb_fill (port_answers codes) st = res_fold keyboard_scancode codes st"
proof (induction codes arbitrary: st)
  case Nil
  then show ?case by simp
next
  case (Cons code codes)
  then show ?case by (cases "keyboard_scancode code st"; cases "codes = []") simp_all
qed

lemma typed_fold:
  assumes "rb_wf (ttys st (active_vt st))" and "\<not> ctrl_down st"
    and "\<forall>code \<in> set codes. code \<noteq> 0x1D \<and> code \<noteq> 0x80"
  shows "\<exists>st'. res_fold keyboard_scancode codes st = Inr st' \<and> active_vt st' = active_vt st \<and>
    rb_contents (ttys st' (active_vt st)) = take 4095 (rb_contents (ttys st (active_vt st)) @ typed (shift_down st) codes)"
  using assms
proof (induction codes arbitrary: st)
  case Nil
  then show ?case using vtq.bounded [OF Nil.prems(1)] by (simp del: rb_length)
next
  case (Cons code codes)
  have code: "code \<noteq> 0x1D" "code \<noteq> 0x80" using Cons.prems(3) by simp_all
  from typed_scancode [OF Cons.prems(1,2) code] obtain st1 cs
    where st1: "keyboard_scancode code st = Inr st1" "rb_wf (ttys st1 (active_vt st))" "active_vt st1 = active_vt st"
      "\<not> ctrl_down st1" "rb_contents (ttys st1 (active_vt st)) = take 4095 (rb_contents (ttys st (active_vt st)) @ cs)"
      "\<forall>codes. typed (shift_down st) (code # codes) = cs @ typed (shift_down st1) codes" by blast
  from Cons.IH [of st1] st1(2,3,4) Cons.prems(3) obtain st'
    where st': "res_fold keyboard_scancode codes st1 = Inr st'" "active_vt st' = active_vt st"
      "rb_contents (ttys st' (active_vt st)) = take 4095 (rb_contents (ttys st1 (active_vt st)) @ typed (shift_down st1) codes)"
    by auto
  have "take 4095 (take 4095 zs @ ys) = take 4095 (zs @ ys)" for zs ys :: "u8 list"
    by (cases "length zs \<le> 4095") simp_all
  from this [of "rb_contents (ttys st (active_vt st)) @ cs"] st' st1 show ?case by (simp del: typed.simps take_append)
qed

text \<open>
  C29: what is typed is what is read: whatever keys are pressed and released, without the control key,
  the driver appends the text they stand for, and nothing else, to the input of the terminal on the
  screen, dropping only what does not fit in its queue.
\<close>

theorem keyboard_types:
  assumes "rb_wf (ttys st (active_vt st))" and "\<not> ctrl_down st" and "codes \<noteq> []"
    and "\<forall>code \<in> set codes. code \<noteq> 0x1D \<and> code \<noteq> 0x80"
  shows "case keyboard_rb_fill (port_answers codes) st of Inl e \<Rightarrow> False
    | Inr st' \<Rightarrow> active_vt st' = active_vt st \<and>
        rb_contents (ttys st' (active_vt st)) = take 4095 (rb_contents (ttys st (active_vt st)) @ typed (shift_down st) codes)"
  using typed_fold [OF assms(1,2,4)] unfolding keyboard_rb_fill_fold [OF assms(3)] by auto

definition demo_keyboard :: "keyboard_state" where
  "demo_keyboard = tty_state.extend (demo_tty Inode_Slab) (keyboard_state.fields 0)"

lemma keyboard_types_witness:
  "case keyboard_rb_fill (port_answers [0x2A, 0x23, 0xAA, 0x17]) demo_keyboard of Inl e \<Rightarrow> False
    | Inr st' \<Rightarrow> active_vt st' = active_vt demo_keyboard \<and> rb_contents (ttys st' (active_vt demo_keyboard)) =
        take 4095 (rb_contents (ttys demo_keyboard (active_vt demo_keyboard)) @
          typed (shift_down demo_keyboard) [0x2A, 0x23, 0xAA, 0x17])"
  by (rule keyboard_types)
    (simp_all add: demo_keyboard_def demo_tty_def tty_state.defs vfs_state.defs keyboard_state.defs demo_vt_rb)

text \<open>
  The scancode \<open>0x80\<close> is neither ignored as a key release nor inside the key maps: the driver
  reads the element behind the end of the map.
\<close>

lemma keyboard_scancode_0x80:
  "keyboard_scancode 0x80 st = Inl Invalid_Access"
  using length_keymaps by (simp add: keyboard_scancode_def Let_def array_get_def)

end
