(* ===== verification/Bytes.thy ===== *)
theory Bytes
  imports Paging "HOL-Library.Char_ord"
begin

text \<open>
  Bytes in memory: little-endian integers in byte arrays, string literals, and pages that the kernel
  uses as byte buffers (their contents are \<open>frame_bytes\<close> at the page's kernel address).
\<close>

section \<open>Little-endian integers\<close>

fun le_nat :: "u8 list \<Rightarrow> nat" where
  "le_nat [] = 0"
| "le_nat (b # bs) = unat b + 256 * le_nat bs"

fun le_bytes :: "nat \<Rightarrow> nat \<Rightarrow> u8 list" where
  "le_bytes 0 v = []"
| "le_bytes (Suc n) v = of_nat v # le_bytes n (v div 256)"

text \<open>Loading an integer of \<open>n\<close> bytes at an offset of an array.\<close>

definition read_le :: "nat \<Rightarrow> u8 list \<Rightarrow> nat \<Rightarrow> nat res" where
  "read_le n xs i = (if i + n \<le> length xs then Inr (le_nat (take n (drop i xs))) else Inl Invalid_Access)"

definition read_u16 :: "u8 list \<Rightarrow> nat \<Rightarrow> u16 res" where
  "read_u16 xs i = res_bind (read_le 2 xs i) (\<lambda>v. Inr (of_nat v))"

definition read_u32 :: "u8 list \<Rightarrow> nat \<Rightarrow> u32 res" where
  "read_u32 xs i = res_bind (read_le 4 xs i) (\<lambda>v. Inr (of_nat v))"

definition read_u64 :: "u8 list \<Rightarrow> nat \<Rightarrow> u64 res" where
  "read_u64 xs i = res_bind (read_le 8 xs i) (\<lambda>v. Inr (of_nat v))"

lemma length_le_bytes [simp]: "length (le_bytes n v) = n"
  by (induction n arbitrary: v) auto

lemma le_nat_bytes: "le_nat (le_bytes n v) = v mod 256 ^ n"
proof (induction n arbitrary: v)
  case 0
  then show ?case by simp
next
  case (Suc n)
  have "unat (of_nat v :: u8) = v mod 256" by (simp add: unat_of_nat)
  moreover have "v mod 256 + 256 * (v div 256 mod 256 ^ n) = v mod (256 * 256 ^ n)"
    by (simp add: mod_mult2_eq)
  ultimately show ?case using Suc.IH [of "v div 256"] by simp
qed

lemma le_nat_bound: "le_nat bs < 256 ^ length bs"
proof (induction bs)
  case Nil
  then show ?case by simp
next
  case (Cons b bs)
  have "unat b < 256" using unsigned_less [of b, where ?'a = nat] by simp
  with Cons show ?case by simp
qed

lemma read_le_ok [simp]: "i + n \<le> length xs \<Longrightarrow> read_le n xs i = Inr (le_nat (take n (drop i xs)))"
  by (simp add: read_le_def)

section \<open>Strings\<close>

text \<open>\<^verbatim>\<open>u8p("...")\<close>: the bytes of a string literal, without its terminator.\<close>

definition u8p :: "string \<Rightarrow> u8 list" where
  "u8p s = map of_char s"

lemma length_u8p [simp]: "length (u8p s) = length s"
  by (simp add: u8p_def)

section \<open>Pages as buffers\<close>

definition page_bytes :: "nat \<Rightarrow> u64 \<Rightarrow> 'z paging_state_scheme \<Rightarrow> u8 list" where
  "page_bytes n page st = map (\<lambda>i. frame_bytes st (page + of_nat i)) [0..<n]"

definition store_page :: "u64 \<Rightarrow> u8 list \<Rightarrow> 'z paging_state_scheme \<Rightarrow> 'z paging_state_scheme" where
  "store_page page bytes st =
     st\<lparr>frame_bytes := (\<lambda>a. if unat (a - page) < length bytes then bytes ! unat (a - page) else frame_bytes st a)\<rparr>"

lemma length_page_bytes [simp]: "length (page_bytes n page st) = n"
  by (simp add: page_bytes_def)

lemma page_bytes_store:
  assumes "length bytes < 2 ^ 64"
  shows "page_bytes (length bytes) page (store_page page bytes st) = bytes"
proof (rule nth_equalityI)
  show "length (page_bytes (length bytes) page (store_page page bytes st)) = length bytes" by simp
  fix i assume "i < length (page_bytes (length bytes) page (store_page page bytes st))"
  then have i: "i < length bytes" by simp
  then have "unat (of_nat i :: u64) = i" using assms by (intro unat_of_nat_small) simp
  with i show "page_bytes (length bytes) page (store_page page bytes st) ! i = bytes ! i"
    by (simp add: page_bytes_def store_page_def)
qed

lemma store_page_truncate [simp]: "slab_state.truncate (store_page page bytes st) = slab_state.truncate st"
  by (simp add: store_page_def slab_state.truncate_def)

section \<open>Disjoint pages\<close>

lemma unat_in_page:
  assumes "kmem_wf st" and "p \<in> used_pages st" and "n < 4096"
  shows "unat (p + of_nat n) = unat p + n"
  using used_pages_wfD [OF assms(1,2)] assms(3) by (subst unat_add_no_wrap) (simp_all add: unat_of_nat_small)

lemma distance_in_page:
  assumes "kmem_wf st" and "p \<in> used_pages st" and "x + k < 4096" and "y < 4096"
  shows "unat (p + of_nat x + of_nat k - (p + of_nat y)) = (if y \<le> x + k then x + k - y else 2 ^ 64 + (x + k) - y)"
proof -
  have "unat (p + of_nat x + of_nat k) = unat p + (x + k)"
    using unat_in_page [OF assms(1-3)] by (simp add: add.assoc)
  moreover have "unat (p + of_nat y) = unat p + y" by (rule unat_in_page [OF assms(1,2,4)])
  ultimately show ?thesis unfolding unat_sub_if' by auto
qed

lemma distance_of_pages:
  assumes "kmem_wf st" and "p \<in> used_pages st" and "q \<in> used_pages st" and "p \<noteq> q"
    and "x < 4096" and "y + n \<le> 4096"
  shows "\<not> unat (p + of_nat x - (q + of_nat y)) < n"
proof (cases "n = 0")
  case False
  then have y: "y < 4096" using assms(6) by simp
  have apart: "unat p + 4096 \<le> unat q \<or> unat q + 4096 \<le> unat p"
    using assms(4) used_pages_wfD [OF assms(1)] assms(2,3) by (intro page_ranges_disjoint) (simp_all add: word_unat_eq_iff)
  have "unat q + 4096 \<le> 2 ^ 64" by (rule used_pages_wfD [OF assms(1,3)])
  then show ?thesis
    using apart unat_in_page [OF assms(1,2,5)] unat_in_page [OF assms(1,3) y] assms(5,6)
    by (auto simp: unat_sub_if' not_le)
qed simp

lemma frame_store:
  "frame_bytes (store_page p bs s) a = (if unat (a - p) < length bs then bs ! unat (a - p) else frame_bytes s a)"
  by (simp add: store_page_def)

lemma page_bytes_other:
  assumes "kmem_wf st" and "p \<in> used_pages st" and "q \<in> used_pages st" and "p \<noteq> q"
    and "x + n \<le> 4096" and "y + length bs \<le> 4096"
  shows "page_bytes n (p + of_nat x) (store_page (q + of_nat y) bs s) = page_bytes n (p + of_nat x) s"
proof -
  have "frame_bytes (store_page (q + of_nat y) bs s) (p + of_nat x + of_nat k) = frame_bytes s (p + of_nat x + of_nat k)"
    if "k < n" for k
    using distance_of_pages [OF assms(1-4) _ assms(6), of "x + k"] that assms(5) by (simp add: store_page_def add.assoc)
  then show ?thesis by (simp add: page_bytes_def)
qed

lemma page_bytes_apart:
  assumes "kmem_wf st" and "p \<in> used_pages st" and "x + n \<le> 4096" and "y + length bs \<le> 4096"
    and "x + n \<le> y \<or> y + length bs \<le> x"
  shows "page_bytes n (p + of_nat x) (store_page (p + of_nat y) bs s) = page_bytes n (p + of_nat x) s"
proof (cases "bs = []")
  case True
  then show ?thesis by (simp add: store_page_def)
next
  case False
  then have y: "y < 4096" using assms(4) by (cases bs) auto
  have "frame_bytes (store_page (p + of_nat y) bs s) (p + of_nat x + of_nat k) = frame_bytes s (p + of_nat x + of_nat k)"
    if k: "k < n" for k
  proof -
    have "x + k < 4096" using k assms(3) by simp
    from distance_in_page [OF assms(1,2) this y] show ?thesis
      using k assms(4,5) by (auto simp: store_page_def)
  qed
  then show ?thesis by (simp add: page_bytes_def)
qed

lemma page_bytes_part:
  assumes "kmem_wf st" and "p \<in> used_pages st" and "x + n \<le> 4096" and "y \<le> x" and "x + n \<le> y + length bs"
    and "y + length bs \<le> 4096"
  shows "page_bytes n (p + of_nat x) (store_page (p + of_nat y) bs s) = take n (drop (x - y) bs)"
proof (rule nth_equalityI)
  show "length (page_bytes n (p + of_nat x) (store_page (p + of_nat y) bs s)) = length (take n (drop (x - y) bs))"
    using assms(4,5) by simp
  fix k assume "k < length (page_bytes n (p + of_nat x) (store_page (p + of_nat y) bs s))"
  then have k: "k < n" by simp
  then have "x + k < 4096" "y < 4096" using assms(3,4) by simp_all
  from distance_in_page [OF assms(1,2) this]
  have d: "unat (p + of_nat x + of_nat k - (p + of_nat y)) = x - y + k" using assms(4) by simp
  have "x - y + k < length bs" using k assms(4,5) by simp
  then have "frame_bytes (store_page (p + of_nat y) bs s) (p + of_nat x + of_nat k) = bs ! (x - y + k)"
    by (simp only: frame_store d if_True)
  moreover have "take n (drop (x - y) bs) ! k = bs ! (x - y + k)" using k assms(4,5) by simp
  ultimately show "page_bytes n (p + of_nat x) (store_page (p + of_nat y) bs s) ! k = take n (drop (x - y) bs) ! k"
    using k by (simp add: page_bytes_def)
qed

end
