(* ===== verification/Devices.thy ===== *)
theory Devices
  imports Keyboard Bytes
begin

text \<open>
  The device tables of \<^verbatim>\<open>kernel/src/drivers\<close>: \<^verbatim>\<open>pci.h\<close>, \<^verbatim>\<open>nvme.h\<close> and \<^verbatim>\<open>nvmepart.h\<close>. The static arrays are the
  lists of the elements in use; the counters (\<^verbatim>\<open>num_pci_devices\<close> and so on) are their lengths. A pointer
  to an element is its index, as a \<^verbatim>\<open>void *\<close> device it is the address of the element.
\<close>

record pci_device =
  pci_bus :: u8
  pci_slot :: u8
  pci_function :: u8
  vendor_id :: u16
  device_id :: u16
  class_code :: u8
  pci_subclass :: u8
  prog_if :: u8
  mmio_phys_base :: u64
  mmio_size :: u32
  mmio_virt_base :: u64
  interrupt_line :: u8

definition MAX_PCI_DEVICES :: nat where "MAX_PCI_DEVICES = 1024"
definition MAX_NVME_DEVICES :: nat where "MAX_NVME_DEVICES = 10"
definition MAX_NVMEPART_DEVICES :: nat where "MAX_NVMEPART_DEVICES = 64"
definition NVME_MAX_COMMANDS :: nat where "NVME_MAX_COMMANDS = 128"

record nvme_device =
  nv_pci_device :: nat
  major_version :: u16
  minor_version :: u8
  dstrd_exponent :: u8
  lbads_exponent :: u8
  metadata_size :: u16
  lba_count :: u64
  asq :: u64
  asq_tail :: u8
  asq_head :: u8
  acq :: u64
  acq_head :: u8
  acq_phase :: bool
  iosq :: u64
  iosq_tail :: u8
  iosq_head :: u8
  iocq :: u64
  iocq_head :: u8
  iocq_phase :: bool
  command_statuses :: "u8 list"
  admin_result_buffer :: u64

record nvmepart_device =
  np_nvme_device :: nat
  partition_type_guid :: "u32 list"
  partition_guid :: "u32 list"
  first_lba :: u64
  last_lba :: u64
  partition_name :: "u8 list"

record device_state = keyboard_state +
  pci_devices :: "pci_device list"
  nvme_devices :: "nvme_device list"
  nvmepart_devices :: "nvmepart_device list"

definition DEVICE_NVME :: u16 where "DEVICE_NVME = 0xA1"
definition DEVICE_NVMEPART :: u16 where "DEVICE_NVMEPART = 0xA2"
definition DEVICE_TTY :: u16 where "DEVICE_TTY = 0xA3"
definition DEVICE_ZERO :: u16 where "DEVICE_ZERO = 0xA4"

text \<open>The addresses of the array elements, as they are handed to the file operations.\<close>

definition nvme_addr :: "nat \<Rightarrow> u64" where
  "nvme_addr i = 0xffffffff80300000 + of_nat i * 0x200"

definition nvmepart_addr :: "nat \<Rightarrow> u64" where
  "nvmepart_addr i = 0xffffffff80310000 + of_nat i * 0x80"

definition nvme_of :: "u64 \<Rightarrow> 'z device_state_scheme \<Rightarrow> nat res" where
  "nvme_of dev st = (case find (\<lambda>i. nvme_addr i = dev) [0..<length (nvme_devices st)] of
                       Some i \<Rightarrow> Inr i | None \<Rightarrow> Inl Invalid_Access)"

definition nvmepart_of :: "u64 \<Rightarrow> 'z device_state_scheme \<Rightarrow> nat res" where
  "nvmepart_of dev st = (case find (\<lambda>i. nvmepart_addr i = dev) [0..<length (nvmepart_devices st)] of
                           Some i \<Rightarrow> Inr i | None \<Rightarrow> Inl Invalid_Access)"

text \<open>\<^verbatim>\<open>drivers/zero.c\<close>\<close>

definition devzero_read ::
  "u64 \<Rightarrow> u8 list \<Rightarrow> u64 \<Rightarrow> u64 \<Rightarrow> 'z device_state_scheme \<Rightarrow> ('z device_state_scheme \<times> u8 list \<times> u64) res" where
  "devzero_read dev buffer offset len st =
     (if unat len \<le> length buffer then Inr (st, replicate (unat len) 0 @ drop (unat len) buffer, len)
      else Inl Invalid_Access)"

definition devzero_write ::
  "u64 \<Rightarrow> u8 list \<Rightarrow> u64 \<Rightarrow> u64 \<Rightarrow> 'z device_state_scheme \<Rightarrow> ('z device_state_scheme \<times> u64) res" where
  "devzero_write dev buffer offset len st = Inr (st, len)"

definition zero_device_fops :: "'z device_state_scheme file_operations" where
  "zero_device_fops = \<lparr>fo_write = devzero_write, fo_read = devzero_read\<rparr>"

text \<open>A concrete state without devices, for the examples of the theories above.\<close>

definition demo_device :: "slab_id \<Rightarrow> device_state" where
  "demo_device owner = keyboard_state.extend
     (tty_state.extend (demo_tty owner) (keyboard_state.fields 0)) (device_state.fields [] [] [])"

lemma demo_device_truncate: "slab_state.truncate (demo_device owner) = demo_slab owner"
  unfolding demo_vfs_truncate [of owner, symmetric]
  by (simp add: demo_device_def demo_tty_def vfs_state.defs tty_state.defs keyboard_state.defs device_state.defs
      slab_state.truncate_def)

lemma demo_device_slab: "slab_wf (demo_device owner)" "slab_live sid (demo_device owner) = slab_live sid (demo_slab owner)"
  by (subst slab_wf_truncate slab_live_truncate; simp add: demo_device_truncate demo_slab_wf)+

end
