(* ===== verification/ExFat.thy ===== *)
theory ExFat
  imports Devices
begin

text \<open>
  \<^verbatim>\<open>kernel/src/fs/exfat.c\<close>: the exFAT driver. The block device is reached through the file operations
  \<open>devs\<close> of the drivers. Shift counts that C leaves undefined (32 and more on 32-bit operands) and reads
  of memory that no device transfer has filled are \<open>Invalid_Access\<close>. The loops over a FAT chain end when
  the chain does; the medium may hold a cyclic chain, on which they run forever (or until memory is
  exhausted): they have fuel for \<open>2 ^ 32\<close> clusters, more than a chain without repetition can have.
\<close>

section \<open>Helpers\<close>

definition FAT_FUEL :: nat where "FAT_FUEL = 2 ^ 32"

definition shl32 :: "u32 \<Rightarrow> u8 \<Rightarrow> u32 res" where
  "shl32 w e = (if e < 32 then Inr (push_bit (unat e) w) else Inl Invalid_Access)"

definition shr32 :: "u32 \<Rightarrow> u8 \<Rightarrow> u32 res" where
  "shr32 w e = (if e < 32 then Inr (drop_bit (unat e) w) else Inl Invalid_Access)"

definition shl64 :: "u64 \<Rightarrow> u8 \<Rightarrow> u64 res" where
  "shl64 w e = (if e < 64 then Inr (push_bit (unat e) w) else Inl Invalid_Access)"

text \<open>The sector where a cluster starts, the cluster a sector lies in, and the place of its FAT entry.\<close>

definition cluster_lba :: "exfat_superblock \<Rightarrow> u32 \<Rightarrow> u32 res" where
  "cluster_lba es cluster =
     res_bind (shl32 1 (es_sectors_per_cluster_exponent es)) (\<lambda>sectors.
       Inr (es_cluster_heap_offset es + sectors * (cluster - 2)))"

definition lba_cluster :: "exfat_superblock \<Rightarrow> u32 \<Rightarrow> u32 res" where
  "lba_cluster es lba =
     res_bind (shr32 (lba - es_cluster_heap_offset es) (es_sectors_per_cluster_exponent es)) (\<lambda>i. Inr (i + 2))"

definition fat_entry_byte_offset :: "exfat_superblock \<Rightarrow> u32 \<Rightarrow> u32 res" where
  "fat_entry_byte_offset es cluster =
     res_bind (shl32 (es_fat_offset es) (es_bytes_per_sector_exponent es)) (\<lambda>start.
       Inr (start + 4 * cluster))"

section \<open>Mounting\<close>

definition exfat_init :: "'z device_state_scheme \<Rightarrow> 'z device_state_scheme" where
  "exfat_init st = slab_allocator_init Exfat_Cluster_Slab (slab_allocator_init Exfat_Inode_Slab st)"

definition exfat_read_superblock :: "u8 list \<Rightarrow> exfat_superblock res" where
  "exfat_read_superblock page0 =
     res_bind (read_u32 page0 0x50) (\<lambda>fat_offset.
     res_bind (read_u32 page0 0x54) (\<lambda>fat_length.
     res_bind (read_u32 page0 0x58) (\<lambda>cluster_heap_offset.
     res_bind (read_u32 page0 0x60) (\<lambda>first_cluster.
     res_bind (array_get page0 0x6C) (\<lambda>bps.
     res_bind (array_get page0 0x6D) (\<lambda>spc.
       Inr \<lparr>es_fat_offset = fat_offset, es_fat_length = fat_length,
            es_cluster_heap_offset = cluster_heap_offset,
            es_first_cluster_of_root_directory = first_cluster,
            es_bytes_per_sector_exponent = bps, es_sectors_per_cluster_exponent = spc\<rparr>))))))"

text \<open>A null \<^verbatim>\<open>mountpoint_dentry\<close> is the one of the root directory, which has no dentry.\<close>

definition exfat_mount ::
  "(fops_id \<Rightarrow> 'z device_state_scheme file_operations) \<Rightarrow> u64 \<Rightarrow> u64 \<Rightarrow> 'z device_state_scheme \<Rightarrow>
   ('z device_state_scheme \<times> u64) res" where
  "exfat_mount devs device_inode mountpoint_dentry st =
     (if i_type (inodes st device_inode) \<noteq> INODE_DEVICE then Inr (st, -10)
      else case i_data (inodes st device_inode) of
        Dev_Data device_type device_number fops dev \<Rightarrow>
          if device_type \<noteq> DEVICE_NVMEPART then Inr (st, -10)
          else
            res_bind (kpage_alloc 1 st) (\<lambda>(st1, page0).
            res_bind (fo_read (devs fops) dev (page_bytes 4096 page0 st1) 0 4096 st1) (\<lambda>(st2, bytes, r).
            let st3 = store_page page0 bytes st2
            in if take 5 (drop 3 bytes) \<noteq> u8p ''EXFAT''
               then res_bind (kpage_free page0 1 st3) (\<lambda>st4. Inr (st4, -11))
               else
                 res_bind (kpage_alloc 1 st3) (\<lambda>(st4, exfat_superblock).
                 res_bind (exfat_read_superblock bytes) (\<lambda>es.
                 let st5 = st4\<lparr>exfat_superblocks := (exfat_superblocks st4)(exfat_superblock := es)\<rparr>
                 in res_bind (kpage_alloc 1 st5) (\<lambda>(st6, vfs_superblock).
                    let st7 = st6\<lparr>superblocks := (superblocks st6)(vfs_superblock :=
                                \<lparr>sb_private = exfat_superblock, sb_ops = Exfat_Ops, sb_device_fops = fops, sb_device = dev\<rparr>)\<rparr>
                    in res_bind (slab_alloc Exfat_Inode_Slab st7) (\<lambda>(st8, exfat_inode).
                       res_bind (cluster_lba es (es_first_cluster_of_root_directory es)) (\<lambda>lba.
                       let st9 = upd_exfat_inode exfat_inode (\<lambda>e. e\<lparr>ei_start_lba := lba, ei_load_needed := True\<rparr>) st8
                       in res_bind (slab_alloc Inode_Slab st9) (\<lambda>(st10, root_inode).
                          let st11 = upd_inode root_inode (\<lambda>i. i\<lparr>i_type := INODE_DIRECTORY,
                                       i_superblock := vfs_superblock, i_private := exfat_inode,
                                       i_data := Dir_Data []\<rparr>) st10
                          in if mountpoint_dentry = 0 then Inl Invalid_Access
                             else let st12 = upd_dentry mountpoint_dentry (\<lambda>d. d\<lparr>d_mounted_inode := root_inode\<rparr>) st11
                                  in res_bind (kpage_free page0 1 st12) (\<lambda>st13. Inr (st13, 0))))))))))
      | _ \<Rightarrow> Inl Invalid_Access)"

section \<open>Loading a directory\<close>

text \<open>The characters of one file-name entry, from index \<open>file_name_index\<close> of the dentry's name on.\<close>

function exfat_name_loop :: "nat \<Rightarrow> u8 list \<Rightarrow> nat \<Rightarrow> u8 list \<Rightarrow> (u8 list \<times> nat) res" where
  "exfat_name_loop i x file_name_index name =
     (if \<not> i < 15 \<or> file_name_index + i > DENTRY_MAX_NAME_LENGTH then Inr (name, i)
      else res_bind (array_get x (2 * (i + 1))) (\<lambda>c.
           res_bind (array_set name (file_name_index + i) c) (\<lambda>name1.
             exfat_name_loop (i + 1) x file_name_index name1)))"
  by pat_completeness auto
termination by (relation "measure (\<lambda>(i, x, n, name). 15 - i)") auto

declare exfat_name_loop.simps [simp del]

text \<open>One directory entry: \<open>x\<close> is its 32 bytes, \<open>file_dentry\<close> the dentry of the last file entry or null.\<close>

definition exfat_file_entry ::
  "u64 \<Rightarrow> u64 \<Rightarrow> u8 list \<Rightarrow> 'z device_state_scheme \<Rightarrow> ('z device_state_scheme \<times> u64) res" where
  "exfat_file_entry vfs_superblock dir_inode x st =
     res_bind (slab_alloc Dentry_Slab st) (\<lambda>(st1, file_dentry).
     let st2 = upd_dentry file_dentry (\<lambda>d. d\<lparr>d_inode := 0, d_mounted_inode := 0, d_name := replicate 64 0\<rparr>) st1
     in res_bind (slab_alloc Inode_Slab st2) (\<lambda>(st3, vfs_inode).
        let st4 = upd_inode vfs_inode (\<lambda>i. i\<lparr>i_superblock := vfs_superblock\<rparr>) st3
        in res_bind (slab_alloc Exfat_Inode_Slab st4) (\<lambda>(st5, child_inode).
           let st6 = upd_dentry file_dentry (\<lambda>d. d\<lparr>d_inode := vfs_inode\<rparr>)
                       (upd_inode vfs_inode (\<lambda>i. i\<lparr>i_private := child_inode\<rparr>) st5)
           in res_bind (dir_append dir_inode file_dentry st6) (\<lambda>st7.
              res_bind (read_u16 x 4) (\<lambda>file_attributes.
              let st8 = (if file_attributes AND 16 \<noteq> 0
                         then upd_inode vfs_inode (\<lambda>i. i\<lparr>i_type := INODE_DIRECTORY, i_data := Dir_Data []\<rparr>) st7
                         else upd_exfat_inode child_inode (\<lambda>e. e\<lparr>ei_clusters := []\<rparr>)
                                (upd_inode vfs_inode (\<lambda>i. i\<lparr>i_type := INODE_REGULAR_FILE, i_data := File_Data 0\<rparr>) st7))
              in Inr (upd_exfat_inode child_inode (\<lambda>e. e\<lparr>ei_load_needed := True\<rparr>) st8, file_dentry))))))"

definition exfat_info_entry ::
  "exfat_superblock \<Rightarrow> u64 \<Rightarrow> u8 list \<Rightarrow> 'z device_state_scheme \<Rightarrow> 'z device_state_scheme res" where
  "exfat_info_entry es file_dentry x st =
     (if file_dentry = 0 then Inl Invalid_Access
      else let inode = d_inode (dentries st file_dentry)
           in res_bind (read_u32 x 0x14) (\<lambda>start_cluster_number.
              res_bind (cluster_lba es start_cluster_number) (\<lambda>lba.
              let st1 = upd_exfat_inode (i_private (inodes st inode)) (\<lambda>e. e\<lparr>ei_start_lba := lba\<rparr>) st
              in if i_type (inodes st1 inode) = INODE_REGULAR_FILE
                 then res_bind (read_u32 x 8) (\<lambda>file_length.
                        Inr (upd_inode inode (\<lambda>i. i\<lparr>i_data := File_Data (ucast file_length)\<rparr>) st1))
                 else Inr st1)))"

definition exfat_entry ::
  "exfat_superblock \<Rightarrow> u64 \<Rightarrow> u64 \<Rightarrow> u8 list \<Rightarrow> u64 \<times> u8 \<times> 'z device_state_scheme \<Rightarrow>
   (u64 \<times> u8 \<times> 'z device_state_scheme) res" where
  "exfat_entry es vfs_superblock dir_inode x = (\<lambda>(file_dentry, file_name_index, st).
     res_bind (array_get x 0) (\<lambda>kind.
       if kind = 0x85 then
         res_bind (exfat_file_entry vfs_superblock dir_inode x st) (\<lambda>(st1, dentry). Inr (dentry, 0, st1))
       else if kind = 0xC0 then
         res_bind (exfat_info_entry es file_dentry x st) (\<lambda>st1. Inr (file_dentry, file_name_index, st1))
       else if kind = 0xC1 then
         (if file_dentry = 0 then Inr (file_dentry, file_name_index, st)
          else res_bind (exfat_name_loop 0 x (unat file_name_index) (d_name (dentries st file_dentry))) (\<lambda>(name, i).
                 Inr (file_dentry, file_name_index + of_nat i, upd_dentry file_dentry (\<lambda>d. d\<lparr>d_name := name\<rparr>) st)))
       else Inr (file_dentry, file_name_index, st)))"

text \<open>The entries of a page, up to its end or an entry that starts with a zero byte (the first is not tested).\<close>

fun exfat_entries ::
  "exfat_superblock \<Rightarrow> u64 \<Rightarrow> u64 \<Rightarrow> u8 list list \<Rightarrow> u64 \<times> u8 \<times> 'z device_state_scheme \<Rightarrow>
   (u64 \<times> u8 \<times> 'z device_state_scheme) res" where
  "exfat_entries es vfs_superblock dir_inode [] s = Inr s"
| "exfat_entries es vfs_superblock dir_inode (x # xs) s =
     res_bind (exfat_entry es vfs_superblock dir_inode x s) (\<lambda>s1.
       case xs of [] \<Rightarrow> Inr s1
       | y # ys \<Rightarrow> if take 1 y = [0] then Inr s1 else exfat_entries es vfs_superblock dir_inode xs s1)"

definition dir_entries_of_page :: "u8 list \<Rightarrow> u8 list list" where
  "dir_entries_of_page page = map (\<lambda>k. take 32 (drop (32 * k) page)) [0..<128]"

text \<open>
  The FAT entry of a cluster: four bytes read into a local variable. \<open>exfat_chain_next\<close> is the test that
  follows: the next start sector, or the end of the walk, with its message.
\<close>

definition exfat_read_fat ::
  "(fops_id \<Rightarrow> 'z device_state_scheme file_operations) \<Rightarrow> superblock \<Rightarrow> exfat_superblock \<Rightarrow> u32 \<Rightarrow>
   'z device_state_scheme \<Rightarrow> ('z device_state_scheme \<times> u32) res" where
  "exfat_read_fat devs sb es lba st =
     res_bind (lba_cluster es lba) (\<lambda>cluster.
     res_bind (fat_entry_byte_offset es cluster) (\<lambda>offset.
     res_bind (fo_read (devs (sb_device_fops sb)) (sb_device sb) [0, 0, 0, 0] (ucast offset) 4 st) (\<lambda>(st1, bytes, r).
       if r \<noteq> 4 then Inl Invalid_Access
       else res_bind (read_u32 bytes 0) (\<lambda>fat_entry. Inr (st1, fat_entry)))))"

definition exfat_chain_next ::
  "string \<Rightarrow> exfat_superblock \<Rightarrow> u32 \<Rightarrow> 'z device_state_scheme \<Rightarrow> ('z device_state_scheme \<times> u32 option) res" where
  "exfat_chain_next name es fat_entry st =
     (if fat_entry = 0 then Inr (st, None)
      else if fat_entry = 1 then
        res_bind (printk (u8p (name @ '': unexpected cluster 0x00000001 in chain'' @ [CHR 0x0A])) st) (\<lambda>st1. Inr (st1, None))
      else if fat_entry = 0xFFFFFFFF then Inr (st, None)
      else if fat_entry = 0xFFFFFFF7 then
        res_bind (printk (u8p (name @ '': bad cluster'' @ [CHR 0x0A])) st) (\<lambda>st1. Inr (st1, None))
      else res_bind (cluster_lba es fat_entry) (\<lambda>lba. Inr (st, Some lba)))"

fun exfat_load_dir_loop ::
  "nat \<Rightarrow> (fops_id \<Rightarrow> 'z device_state_scheme file_operations) \<Rightarrow> u64 \<Rightarrow> u64 \<Rightarrow> u32 \<Rightarrow> u64 \<times> u8 \<times> 'z device_state_scheme \<Rightarrow>
   'z device_state_scheme res" where
  "exfat_load_dir_loop 0 devs dir_inode page lba s = Inl Diverges"
| "exfat_load_dir_loop (Suc fuel) devs dir_inode page lba (file_dentry, file_name_index, st) =
     (let sb_addr = i_superblock (inodes st dir_inode);
          sb = superblocks st sb_addr;
          es = exfat_superblocks st (sb_private sb)
      in res_bind (shl32 lba (es_bytes_per_sector_exponent es)) (\<lambda>offset.
         res_bind (fo_read (devs (sb_device_fops sb)) (sb_device sb) (page_bytes 4096 page st) (ucast offset) 4096 st)
           (\<lambda>(st1, bytes, r).
         res_bind (exfat_entries es sb_addr dir_inode (dir_entries_of_page bytes)
                     (file_dentry, file_name_index, store_page page bytes st1)) (\<lambda>(file_dentry1, file_name_index1, st2).
         res_bind (exfat_read_fat devs sb es lba st2) (\<lambda>(st3, fat_entry).
         res_bind (exfat_chain_next ''exfat_load_dir_inode'' es fat_entry st3) (\<lambda>(st4, lba_next).
           case lba_next of None \<Rightarrow> Inr st4
           | Some lba1 \<Rightarrow> exfat_load_dir_loop fuel devs dir_inode page lba1 (file_dentry1, file_name_index1, st4)))))))"

definition exfat_load_dir_inode ::
  "(fops_id \<Rightarrow> 'z device_state_scheme file_operations) \<Rightarrow> u64 \<Rightarrow> 'z device_state_scheme \<Rightarrow> 'z device_state_scheme res" where
  "exfat_load_dir_inode devs dir_inode st =
     (let exfat_inode = i_private (inodes st dir_inode)
      in res_bind (kpage_alloc 1 st) (\<lambda>(st1, page).
         res_bind (exfat_load_dir_loop FAT_FUEL devs dir_inode page (ei_start_lba (exfat_inodes st exfat_inode)) (0, 0, st1))
           (\<lambda>st2. kpage_free page 1 (upd_exfat_inode exfat_inode (\<lambda>e. e\<lparr>ei_load_needed := False\<rparr>) st2))))"

section \<open>Loading a file\<close>

definition file_length :: "inode \<Rightarrow> u64 res" where
  "file_length i = (case i_data i of File_Data n \<Rightarrow> Inr n | _ \<Rightarrow> Inl Invalid_Access)"

fun exfat_load_file_loop ::
  "nat \<Rightarrow> (fops_id \<Rightarrow> 'z device_state_scheme file_operations) \<Rightarrow> u64 \<Rightarrow> u32 \<Rightarrow> u32 \<Rightarrow> 'z device_state_scheme \<Rightarrow>
   'z device_state_scheme res" where
  "exfat_load_file_loop 0 devs file_inode byte_offset lba st = Inl Diverges"
| "exfat_load_file_loop (Suc fuel) devs file_inode byte_offset lba st =
     res_bind (file_length (inodes st file_inode)) (\<lambda>len.
       if \<not> ucast byte_offset < len then Inr st
       else
         let sb = superblocks st (i_superblock (inodes st file_inode));
             es = exfat_superblocks st (sb_private sb);
             exfat_inode = i_private (inodes st file_inode)
         in res_bind (slab_alloc Exfat_Cluster_Slab st) (\<lambda>(st1, cluster).
            res_bind (shl64 (ucast lba) (es_bytes_per_sector_exponent es)) (\<lambda>device_offset.
            let st2 = (upd_exfat_inode exfat_inode (\<lambda>e. e\<lparr>ei_clusters := ei_clusters e @ [cluster]\<rparr>) st1)
                        \<lparr>exfat_clusters := (exfat_clusters st1)(cluster :=
                           \<lparr>ec_byte_offset = byte_offset, ec_device_offset = device_offset\<rparr>)\<rparr>
            in res_bind (exfat_read_fat devs sb es lba st2) (\<lambda>(st3, fat_entry).
               res_bind (exfat_chain_next ''exfat_load_file_inode'' es fat_entry st3) (\<lambda>(st4, lba_next).
                 case lba_next of None \<Rightarrow> Inr st4
                 | Some lba1 \<Rightarrow> exfat_load_file_loop fuel devs file_inode (byte_offset + 4096) lba1 st4)))))"

definition exfat_load_file_inode ::
  "(fops_id \<Rightarrow> 'z device_state_scheme file_operations) \<Rightarrow> u64 \<Rightarrow> 'z device_state_scheme \<Rightarrow> 'z device_state_scheme res" where
  "exfat_load_file_inode devs file_inode st =
     (let exfat_inode = i_private (inodes st file_inode)
      in res_bind (exfat_load_file_loop FAT_FUEL devs file_inode 0 (ei_start_lba (exfat_inodes st exfat_inode)) st)
           (\<lambda>st1. Inr (upd_exfat_inode exfat_inode (\<lambda>e. e\<lparr>ei_load_needed := False\<rparr>) st1)))"

definition exfat_lookup ::
  "(fops_id \<Rightarrow> 'z device_state_scheme file_operations) \<Rightarrow> u64 \<Rightarrow> u64 \<Rightarrow> 'z device_state_scheme \<Rightarrow> 'z device_state_scheme res" where
  "exfat_lookup devs inode dentry st =
     (if \<not> ei_load_needed (exfat_inodes st (i_private (inodes st inode))) then Inr st
      else if i_type (inodes st inode) = INODE_DIRECTORY then exfat_load_dir_inode devs inode st
      else if i_type (inodes st inode) = INODE_REGULAR_FILE then exfat_load_file_inode devs inode st
      else Inr st)"

section \<open>Reading and writing\<close>

text \<open>
  The common arithmetic of both loops: how many bytes of the cluster's page are transferred when
  \<open>total\<close> bytes have been transferred already.
\<close>

definition exfat_page_offset :: "u64 \<Rightarrow> u32 \<Rightarrow> u64" where
  "exfat_page_offset offset byte_offset = (offset - ucast byte_offset) mod 4096"

definition exfat_chunk :: "u64 \<Rightarrow> u64 \<Rightarrow> u64 \<Rightarrow> u64 \<Rightarrow> u64 \<Rightarrow> u64" where
  "exfat_chunk len done page_offset flen offset =
     min (min (len - done) (4096 - page_offset)) (flen - offset)"

fun exfat_read_loop ::
  "(fops_id \<Rightarrow> 'z device_state_scheme file_operations) \<Rightarrow> u64 \<Rightarrow> u64 \<Rightarrow> u64 \<Rightarrow> u64 list \<Rightarrow> u64 \<Rightarrow> u8 list \<Rightarrow>
   'z device_state_scheme \<Rightarrow> ('z device_state_scheme \<times> u8 list \<times> u64) res" where
  "exfat_read_loop devs filp content len [] done buf st = Inr (st, buf, done)"
| "exfat_read_loop devs filp content len (cluster # clusters) done buf st =
     (let f = filps st filp; c = exfat_clusters st cluster; inode = inodes st (f_inode f)
      in if f_offset f < ucast (ec_byte_offset c) then exfat_read_loop devs filp content len clusters done buf st
         else res_bind (file_length inode) (\<lambda>flen.
           let page_offset = exfat_page_offset (f_offset f) (ec_byte_offset c);
               bytes_to_read = exfat_chunk len done page_offset flen (f_offset f);
               sb = superblocks st (i_superblock inode)
           in if bytes_to_read = 0 then Inr (st, buf, done)
              else res_bind (fo_read (devs (sb_device_fops sb)) (sb_device sb) (page_bytes 4096 content st)
                      (ec_device_offset c + page_offset) bytes_to_read st) (\<lambda>(st1, bytes, bytes_read).
                   res_bind (blit buf (unat done) bytes 0 (unat bytes_read)) (\<lambda>buf1.
                     exfat_read_loop devs filp content len clusters (done + bytes_read) buf1
                       (upd_file filp (\<lambda>f. f\<lparr>f_offset := f_offset f + bytes_read\<rparr>) (store_page content bytes st1))))))"

definition exfat_read ::
  "(fops_id \<Rightarrow> 'z device_state_scheme file_operations) \<Rightarrow> u64 \<Rightarrow> u8 list \<Rightarrow> u64 \<Rightarrow> 'z device_state_scheme \<Rightarrow>
   ('z device_state_scheme \<times> u8 list \<times> u64) res" where
  "exfat_read devs filp buf len st =
     (let clusters = ei_clusters (exfat_inodes st (i_private (inodes st (f_inode (filps st filp)))))
      in res_bind (kpage_alloc 1 st) (\<lambda>(st1, content).
         res_bind (exfat_read_loop devs filp content len clusters 0 buf st1) (\<lambda>(st2, buf2, total_bytes_read).
         res_bind (kpage_free content 1 st2) (\<lambda>st3. Inr (st3, buf2, total_bytes_read)))))"

fun exfat_write_loop ::
  "(fops_id \<Rightarrow> 'z device_state_scheme file_operations) \<Rightarrow> u64 \<Rightarrow> u64 \<Rightarrow> u64 list \<Rightarrow> u64 \<Rightarrow> u8 list \<Rightarrow>
   'z device_state_scheme \<Rightarrow> ('z device_state_scheme \<times> u64) res" where
  "exfat_write_loop devs filp len [] done buffer st = Inr (st, done)"
| "exfat_write_loop devs filp len (cluster # clusters) done buffer st =
     (let f = filps st filp; c = exfat_clusters st cluster; inode = inodes st (f_inode f)
      in if f_offset f < ucast (ec_byte_offset c) then exfat_write_loop devs filp len clusters done buffer st
         else res_bind (file_length inode) (\<lambda>flen.
           let page_offset = exfat_page_offset (f_offset f) (ec_byte_offset c);
               bytes_to_write = exfat_chunk len done page_offset flen (f_offset f);
               sb = superblocks st (i_superblock inode)
           in if bytes_to_write = 0 then Inr (st, done)
              else res_bind (fo_write (devs (sb_device_fops sb)) (sb_device sb) (drop (unat done) buffer)
                      (ec_device_offset c + page_offset) bytes_to_write st) (\<lambda>(st1, bytes_written).
                     exfat_write_loop devs filp len clusters (done + bytes_written) buffer
                       (upd_file filp (\<lambda>f. f\<lparr>f_offset := f_offset f + bytes_written\<rparr>) st1))))"

definition exfat_write ::
  "(fops_id \<Rightarrow> 'z device_state_scheme file_operations) \<Rightarrow> u64 \<Rightarrow> u8 list \<Rightarrow> u64 \<Rightarrow> 'z device_state_scheme \<Rightarrow>
   ('z device_state_scheme \<times> u64) res" where
  "exfat_write devs filp buffer len st =
     exfat_write_loop devs filp len
       (ei_clusters (exfat_inodes st (i_private (inodes st (f_inode (filps st filp)))))) 0 buffer st"

definition exfat_set_size :: "u64 \<Rightarrow> u64 \<Rightarrow> 'z device_state_scheme \<Rightarrow> ('z device_state_scheme \<times> u64) res" where
  "exfat_set_size filp new_size st = Inr (st, -1)"

definition exfat_create_file_inode ::
  "u64 \<Rightarrow> u64 \<Rightarrow> u64 \<Rightarrow> 'z device_state_scheme \<Rightarrow> ('z device_state_scheme \<times> u64) res" where
  "exfat_create_file_inode parent_dir out_inode out_dentry st = Inr (st, -1)"

definition exfat_create_dir_inode ::
  "u64 \<Rightarrow> u64 \<Rightarrow> u64 \<Rightarrow> 'z device_state_scheme \<Rightarrow> ('z device_state_scheme \<times> u64) res" where
  "exfat_create_dir_inode parent_dir out_inode out_dentry st = Inr (st, -1)"

definition exfat_create_dev_inode ::
  "u64 \<Rightarrow> u16 \<Rightarrow> u16 \<Rightarrow> fops_id \<Rightarrow> u64 \<Rightarrow> u64 \<Rightarrow> u64 \<Rightarrow> 'z device_state_scheme \<Rightarrow> ('z device_state_scheme \<times> u64) res" where
  "exfat_create_dev_inode parent_dir device_type device_number device_fops device out_inode out_dentry st = Inr (st, -1)"

section \<open>A block device\<close>

text \<open>
  What the file system relies on: while the device serves, reading inside the disk delivers the disk's bytes,
  touches nothing of the file system's data and leaves the allocators as they were. The device goes on serving
  when the file system stores the bytes in its page and moves the offset of a file.
\<close>

definition fs_view :: "'z device_state_scheme \<Rightarrow> _" where
  "fs_view st = (slab_state.truncate st, inodes st, filps st, superblocks st, exfat_inodes st,
     exfat_clusters st, exfat_superblocks st)"

lemma fs_viewD:
  assumes "fs_view st' = fs_view st"
  shows "inodes st' = inodes st" "filps st' = filps st" "superblocks st' = superblocks st"
    "exfat_inodes st' = exfat_inodes st" "exfat_clusters st' = exfat_clusters st"
    "exfat_superblocks st' = exfat_superblocks st" "slab_state.truncate st' = slab_state.truncate st"
  using assms by (simp_all add: fs_view_def)

locale block_device =
  fixes fops :: "'z device_state_scheme file_operations" and dev :: u64 and disk :: "u8 list"
    and serving :: "u64 \<Rightarrow> 'z device_state_scheme \<Rightarrow> bool"
  assumes read_disk: "serving page st \<Longrightarrow> unat offset + unat len \<le> length disk \<Longrightarrow> unat len \<le> length buffer \<Longrightarrow>
    length buffer \<le> 4096 \<Longrightarrow>
    \<exists>st'. fo_read fops dev buffer offset len st =
      Inr (st', take (unat len) (drop (unat offset) disk) @ drop (unat len) buffer, len) \<and> fs_view st' = fs_view st \<and>
      serving page st'"
    and store_disk: "serving page st \<Longrightarrow> length bytes \<le> 4096 \<Longrightarrow> serving page (upd_file filp f (store_page page bytes st))"

text \<open>\<^verbatim>\<open>/dev/zero\<close> is a block device full of zeros, which always serves.\<close>

interpretation zero_disk: block_device zero_device_fops dev "replicate n 0" "\<lambda>page st. True" for dev n
proof unfold_locales
  fix offset len :: u64 and buffer :: "u8 list" and st :: "'a device_state_scheme"
  assume "unat offset + unat len \<le> length (replicate n (0 :: u8))" "unat len \<le> length buffer"
  then show "\<exists>st'. fo_read zero_device_fops dev buffer offset len st =
      Inr (st', take (unat len) (drop (unat offset) (replicate n 0)) @ drop (unat len) buffer, len) \<and>
      fs_view st' = fs_view st \<and> True"
    by (simp add: zero_device_fops_def devzero_read_def min_def)
qed simp

section \<open>Reading a file\<close>

text \<open>
  The clusters of a file from the \<open>i\<close>-th on, as \<^verbatim>\<open>exfat_load_file_inode\<close> leaves them: the recorded file
  offsets are consecutive pages. \<open>cluster_bytes\<close> is what the disk holds there.
\<close>

definition clusters_loaded :: "u8 list \<Rightarrow> 'z device_state_scheme \<Rightarrow> nat \<Rightarrow> u64 list \<Rightarrow> bool" where
  "clusters_loaded disk st i cs \<longleftrightarrow> 4096 * (i + length cs) < 2 ^ 32 \<and> length disk \<le> 2 ^ 64 \<and>
     (\<forall>k < length cs. unat (ec_byte_offset (exfat_clusters st (cs ! k))) = 4096 * (i + k) \<and>
        unat (ec_device_offset (exfat_clusters st (cs ! k))) + 4096 \<le> length disk)"

definition cluster_bytes :: "u8 list \<Rightarrow> 'z device_state_scheme \<Rightarrow> u64 list \<Rightarrow> u8 list" where
  "cluster_bytes disk st cs = concat (map (\<lambda>c. take 4096 (drop (unat (ec_device_offset (exfat_clusters st c))) disk)) cs)"

lemma clusters_loaded_Cons:
  assumes "clusters_loaded disk st i (c # cs)"
  shows "unat (ec_byte_offset (exfat_clusters st c)) = 4096 * i"
    "unat (ec_device_offset (exfat_clusters st c)) + 4096 \<le> length disk" "clusters_loaded disk st (Suc i) cs"
    "length disk \<le> 2 ^ 64"
proof -
  show "unat (ec_byte_offset (exfat_clusters st c)) = 4096 * i"
    "unat (ec_device_offset (exfat_clusters st c)) + 4096 \<le> length disk" "length disk \<le> 2 ^ 64"
    using assms by (auto simp: clusters_loaded_def dest!: spec [of _ 0])
  show "clusters_loaded disk st (Suc i) cs" unfolding clusters_loaded_def
  proof (intro conjI allI impI)
    show "4096 * (Suc i + length cs) < 2 ^ 32" "length disk \<le> 2 ^ 64" using assms by (simp_all add: clusters_loaded_def)
    fix k assume "k < length cs"
    then have "Suc k < length (c # cs)" by simp
    with assms have "unat (ec_byte_offset (exfat_clusters st ((c # cs) ! Suc k))) = 4096 * (i + Suc k) \<and>
        unat (ec_device_offset (exfat_clusters st ((c # cs) ! Suc k))) + 4096 \<le> length disk"
      unfolding clusters_loaded_def by blast
    then show "unat (ec_byte_offset (exfat_clusters st (cs ! k))) = 4096 * (Suc i + k)"
      "unat (ec_device_offset (exfat_clusters st (cs ! k))) + 4096 \<le> length disk" by simp_all
  qed
qed

text \<open>The file behind a file object: its length and the device it lies on.\<close>

definition file_on ::
  "(fops_id \<Rightarrow> 'z device_state_scheme file_operations) \<Rightarrow> 'z device_state_scheme file_operations \<Rightarrow> u64 \<Rightarrow> u64 \<Rightarrow> u64 \<Rightarrow>
   'z device_state_scheme \<Rightarrow> bool" where
  "file_on devs fops dev filp flen st \<longleftrightarrow>
     (let inode = inodes st (f_inode (filps st filp)); sb = superblocks st (i_superblock inode)
      in file_length inode = Inr flen \<and> devs (sb_device_fops sb) = fops \<and> sb_device sb = dev)"

definition advanced :: "u64 \<Rightarrow> u64 \<Rightarrow> 'z device_state_scheme \<Rightarrow> 'z device_state_scheme \<Rightarrow> bool" where
  "advanced filp n st st' \<longleftrightarrow> slab_state.truncate st' = slab_state.truncate st \<and> inodes st' = inodes st \<and>
     superblocks st' = superblocks st \<and> exfat_inodes st' = exfat_inodes st \<and> exfat_clusters st' = exfat_clusters st \<and>
     filps st' = (filps st)(filp := (filps st filp)\<lparr>f_offset := f_offset (filps st filp) + n\<rparr>)"

lemma advanced_0: "advanced filp 0 st st"
  by (simp add: advanced_def)

lemma advanced_trans:
  "advanced filp m st st1 \<Longrightarrow> advanced filp n st1 st2 \<Longrightarrow> advanced filp (m + n) st st2"
  by (simp add: advanced_def algebra_simps)

lemma advanced_step:
  assumes "fs_view st1 = fs_view st"
  shows "advanced filp n st (upd_file filp (\<lambda>f. f\<lparr>f_offset := f_offset f + n\<rparr>) (store_page content bytes st1))"
  using fs_viewD [OF assms] by (simp add: advanced_def upd_file_def store_page_def slab_state.truncate_def)

lemma advanced_file_on: "advanced filp n st st' \<Longrightarrow> file_on devs fops dev filp flen st' = file_on devs fops dev filp flen st"
  by (simp add: file_on_def advanced_def)

lemma exfat_chunk_0: "len = done \<or> flen = offset \<Longrightarrow> exfat_chunk len done p flen offset = 0"
  by (auto simp: exfat_chunk_def)

lemma exfat_read_loop_stop:
  assumes "file_length (inodes st (f_inode (filps st filp))) = Inr flen"
    and "len = done \<or> flen = f_offset (filps st filp)"
  shows "exfat_read_loop devs filp content len cs done buf st = Inr (st, buf, done)"
proof (induction cs)
  case Nil
  then show ?case by simp
next
  case (Cons c cs)
  have "exfat_chunk len done p flen (f_offset (filps st filp)) = 0" for p using assms(2) by (rule exfat_chunk_0)
  with Cons assms(1) show ?case by (simp add: Let_def)
qed

text \<open>The numbers of one round.\<close>

lemma exfat_chunk_nat:
  assumes "unat bo = 4096 * i" and "4096 * i \<le> unat offset" and "4096 * Suc i \<le> 2 ^ 32"
    and "unat done \<le> unat len" and "unat offset \<le> unat flen"
    and "po = (unat offset - 4096 * i) mod 4096"
  shows "unat (exfat_page_offset offset bo) = po"
    "unat (exfat_chunk len done (exfat_page_offset offset bo) flen offset) =
       min (min (unat len - unat done) (4096 - po)) (unat flen - unat offset)"
    "\<not> offset < ucast bo"
proof -
  have u: "unat (ucast bo :: u64) = 4096 * i" using assms(1,3) by (subst unat_ucast_small) simp_all
  show "\<not> offset < ucast bo" using u assms(2) by (simp add: word_less_nat_alt)
  have "unat (offset - ucast bo) = unat offset - 4096 * i"
    using u assms(2) by (subst unat_sub_no_wrap) (simp_all add: word_le_nat_alt)
  then show po: "unat (exfat_page_offset offset bo) = po"
    using assms(6) by (simp add: exfat_page_offset_def unat_mod)
  have "unat (len - done) = unat len - unat done" "unat (flen - offset) = unat flen - unat offset"
    using assms(4,5) by (simp_all add: unat_sub_no_wrap word_le_nat_alt)
  moreover have "unat (4096 - exfat_page_offset offset bo) = 4096 - po"
    using po assms(6) by (subst unat_sub_no_wrap) (simp_all add: word_le_nat_alt)
  moreover have "unat (min a b) = min (unat a) (unat b)" for a b :: u64
    by (simp add: min_def word_le_nat_alt)
  ultimately show "unat (exfat_chunk len done (exfat_page_offset offset bo) flen offset) =
       min (min (unat len - unat done) (4096 - po)) (unat flen - unat offset)"
    by (simp add: exfat_chunk_def)
qed

context block_device begin

lemma read_round:
  assumes "file_on devs fops dev filp flen st" and "clusters_loaded disk st i (c # cs)"
    and "4096 * i \<le> unat (f_offset (filps st filp))"
    and "unat done \<le> unat len" and "unat (f_offset (filps st filp)) \<le> unat flen" and "unat len \<le> length buf"
    and "serving content st"
  defines "o' \<equiv> unat (f_offset (filps st filp))"
  defines "po \<equiv> (o' - 4096 * i) mod 4096"
  defines "k \<equiv> min (min (unat len - unat done) (4096 - po)) (unat flen - o')"
  shows "\<exists>st'. advanced filp (of_nat k) st st' \<and> serving content st' \<and>
    exfat_read_loop devs filp content len (c # cs) done buf st =
      (if k = 0 then Inr (st, buf, done)
       else exfat_read_loop devs filp content len cs (done + of_nat k)
         (take (unat done) buf @ take k (drop po (cluster_bytes disk st [c])) @ drop (unat done + k) buf) st')"
proof -
  let ?f = "filps st filp" and ?c = "exfat_clusters st c"
  note cl = clusters_loaded_Cons [OF assms(2)]
  have i32: "4096 * Suc i \<le> 2 ^ 32" using assms(2) by (simp add: clusters_loaded_def)
  note n = exfat_chunk_nat [OF cl(1) assms(3) i32 assms(4,5) po_def [unfolded o'_def, THEN meta_eq_to_obj_eq]]
  have fl: "file_length (inodes st (f_inode ?f)) = Inr flen"
    and d: "devs (sb_device_fops (superblocks st (i_superblock (inodes st (f_inode ?f))))) = fops"
      "sb_device (superblocks st (i_superblock (inodes st (f_inode ?f)))) = dev"
    using assms(1) by (simp_all add: file_on_def Let_def)
  let ?po = "exfat_page_offset (f_offset ?f) (ec_byte_offset ?c)"
  let ?n = "exfat_chunk len done ?po flen (f_offset ?f)"
  have k: "unat ?n = k" using n(2) by (simp add: k_def o'_def)
  have kn: "of_nat k = ?n" unfolding k [symmetric] by simp
  have klt: "k \<le> 4096 - unat ?po" "k \<le> unat len - unat done" "unat ?po < 4096"
    unfolding n(1) k_def by (rule min.coboundedI1, rule min.cobounded2) (rule min.coboundedI1, rule min.cobounded1, simp add: po_def)
  show ?thesis
  proof (cases "k = 0")
    case True
    then have "?n = 0" using k by (simp add: word_unat_eq_iff)
    then have "exfat_read_loop devs filp content len (c # cs) done buf st = Inr (st, buf, done)"
      using n(3) fl by (simp add: Let_def)
    with True advanced_0 [of filp st] assms(7) show ?thesis by (intro exI [of _ st]) simp
  next
    case False
    then have nz: "?n \<noteq> 0" using k by auto
    let ?off = "ec_device_offset ?c + ?po" and ?page = "page_bytes 4096 content st"
    have off: "unat ?off = unat (ec_device_offset ?c) + unat ?po"
      using cl(2,4) klt(3) by (intro unat_add_no_wrap) simp
    have "unat ?off + unat ?n \<le> length disk" "unat ?n \<le> length ?page" "length ?page \<le> 4096"
      using off cl(2) klt k by simp_all
    from read_disk [OF assms(7) this] obtain st1 where st1:
      "fo_read fops dev ?page ?off ?n st = Inr (st1, take k (drop (unat ?off) disk) @ drop k ?page, ?n)"
      "fs_view st1 = fs_view st" "serving content st1" unfolding k by blast
    let ?bytes = "take k (drop (unat ?off) disk) @ drop k ?page"
    have tk: "length (take k (drop (unat ?off) disk)) = k" using off cl(2) klt by simp
    have src: "take k (drop po (cluster_bytes disk st [c])) = take k (drop (unat ?off) disk)"
      using klt(1) unfolding n(1) [symmetric] off by (simp add: cluster_bytes_def drop_take min_absorb1 add.commute)
    have "blit buf (unat done) ?bytes 0 (unat ?n) =
        Inr (take (unat done) buf @ take k ?bytes @ drop (unat done + k) buf)"
      using klt(2) assms(4,6) tk unfolding k by (subst blit_ok) simp_all
    also have "take k ?bytes = take k (drop (unat ?off) disk)" using tk by simp
    finally have b: "blit buf (unat done) ?bytes 0 (unat ?n) = Inr (take (unat done) buf @
        take k (drop po (cluster_bytes disk st [c])) @ drop (unat done + k) buf)"
      unfolding src .
    have "length ?bytes \<le> 4096" using tk klt(1) by simp
    from store_disk [OF st1(3) this] have "serving content (upd_file filp (\<lambda>f. f\<lparr>f_offset := f_offset f + ?n\<rparr>) (store_page content ?bytes st1))" .
    then show ?thesis using advanced_step [OF st1(2), of filp ?n content ?bytes] False n(3) fl d nz st1(1) b
      by (intro exI [of _ "upd_file filp (\<lambda>f. f\<lparr>f_offset := f_offset f + ?n\<rparr>) (store_page content ?bytes st1)"])
        (simp add: Let_def kn o'_def)
  qed
qed

lemma read_loop:
  assumes "file_on devs fops dev filp flen st" and "clusters_loaded disk st i cs"
    and "4096 * i \<le> unat (f_offset (filps st filp))" and "unat (f_offset (filps st filp)) < 4096 * Suc i"
    and "unat done \<le> unat len" and "unat (f_offset (filps st filp)) \<le> unat flen" and "unat len \<le> length buf"
    and "o' = unat (f_offset (filps st filp))"
    and "n = min (min (unat len - unat done) (4096 * (i + length cs) - o')) (unat flen - o')" and "serving content st"
  shows "\<exists>st'. exfat_read_loop devs filp content len cs done buf st =
      Inr (st', take (unat done) buf @ take n (drop (o' - 4096 * i) (cluster_bytes disk st cs)) @ drop (unat done + n) buf,
           done + of_nat n) \<and> advanced filp (of_nat n) st st'"
  using assms
proof (induction cs arbitrary: i st "done" buf o' n)
  case Nil
  then have "n = 0" by simp
  then show ?case using advanced_0 [of filp st] by (intro exI [of _ st]) simp
next
  case (Cons c cs)
  note o = Cons.prems(8)
  define k where "k = min (min (unat len - unat done) (4096 * Suc i - o')) (unat flen - o')"
  have po: "(o' - 4096 * i) mod 4096 = o' - 4096 * i" "4096 - (o' - 4096 * i) = 4096 * Suc i - o'"
    using Cons.prems(3,4) o by simp_all
  from read_round [OF Cons.prems(1-3,5-7,10)] obtain st1
    where serves: "serving content st1" and st1: "advanced filp (of_nat k) st st1"
      "exfat_read_loop devs filp content len (c # cs) done buf st =
      (if k = 0 then Inr (st, buf, done)
       else exfat_read_loop devs filp content len cs (done + of_nat k)
         (take (unat done) buf @ take k (drop (o' - 4096 * i) (cluster_bytes disk st [c])) @ drop (unat done + k) buf) st1)"
    unfolding o [symmetric] po k_def [symmetric] by blast
  have "4096 * Suc i - o' \<le> 4096 * (i + length (c # cs)) - o'" by (intro diff_le_mono) simp
  then have k_le: "k \<le> n" "k \<le> unat len - unat done" "k \<le> 4096 * Suc i - o'" "k \<le> unat flen - o'"
    unfolding k_def Cons.prems(9) by (simp_all only: min_le_iff_disj min.bounded_iff order.refl simp_thms)
  show ?case
  proof (cases "k = 0")
    case True
    then have "n = 0" using Cons.prems(4,9) by (auto simp: k_def o min_def split: if_splits)
    with True st1(2) advanced_0 [of filp st] show ?thesis by (intro exI [of _ st]) simp
  next
    case False
    let ?X = "cluster_bytes disk st [c]"
    let ?chunk = "take k (drop (o' - 4096 * i) ?X)"
    let ?buf1 = "take (unat done) buf @ ?chunk @ drop (unat done + k) buf"
    note cl = clusters_loaded_Cons [OF Cons.prems(2)]
    have lenX: "length ?X = 4096" using cl(2) by (simp add: cluster_bytes_def)
    have ck: "length ?chunk = k" using lenX k_le(3) Cons.prems(3,4) o by simp
    have buf1: "length ?buf1 = length buf" using ck k_le(2) Cons.prems(5,7) by simp
    have k64: "k < 2 ^ 64" using k_le(4) unsigned_less [of flen, where ?'a = nat] by simp
    have uk: "unat (of_nat k :: u64) = k" using k64 by (intro unat_of_nat_small) simp
    have done1: "unat (done + of_nat k) = unat done + k"
      using k_le(2) Cons.prems(5) uk unsigned_less [of len, where ?'a = nat]
      by (subst unat_add_no_wrap) simp_all
    have "filps st1 filp = (filps st filp)\<lparr>f_offset := f_offset (filps st filp) + of_nat k\<rparr>"
      using st1(1) by (simp add: advanced_def)
    then have o1: "unat (f_offset (filps st1 filp)) = o' + k"
      using k_le(4) Cons.prems(6) uk unsigned_less [of flen, where ?'a = nat] o
      by (simp add: unat_add_no_wrap)
    have clu: "exfat_clusters st1 = exfat_clusters st" using st1(1) by (simp add: advanced_def)
    have f1: "file_on devs fops dev filp flen st1" using Cons.prems(1) advanced_file_on [OF st1(1)] by simp
    show ?thesis
    proof (cases "k = 4096 * Suc i - o'")
      case True
      define n1 where "n1 = min (min (unat len - unat (done + of_nat k)) (4096 * (Suc i + length cs) - (o' + k)))
        (unat flen - (o' + k))"
      have at: "o' + k = 4096 * Suc i" using True Cons.prems(4) o by simp
      have e: "4096 * (i + length (c # cs)) - o' = k + 4096 * length cs"
        "unat len - unat (done + of_nat k) = unat len - unat done - k"
        "4096 * (Suc i + length cs) - (o' + k) = 4096 * length cs" "unat flen - (o' + k) = unat flen - o' - k"
        using at done1 by simp_all
      have n: "n = k + n1" unfolding n1_def Cons.prems(9) e using k_le(2,4) by (auto simp: min_def)
      have cs1: "clusters_loaded disk st1 (Suc i) cs" using cl(3) by (simp add: clusters_loaded_def clu)
      have ih: "4096 * Suc i \<le> unat (f_offset (filps st1 filp))"
        "unat (f_offset (filps st1 filp)) < 4096 * Suc (Suc i)" "unat (done + of_nat k) \<le> unat len"
        "unat (f_offset (filps st1 filp)) \<le> unat flen" "unat len \<le> length ?buf1"
        unfolding o1 done1 buf1 at using k_le(2,4) Cons.prems(5,6,7) o at by simp_all
      from Cons.IH [OF f1 cs1 ih o1 [symmetric] n1_def serves] obtain st2
        where st2: "exfat_read_loop devs filp content len cs (done + of_nat k) ?buf1 st1 =
          Inr (st2, take (unat done + k) ?buf1 @ take n1 (cluster_bytes disk st1 cs) @ drop (unat done + k + n1) ?buf1,
            done + of_nat k + of_nat n1)" "advanced filp (of_nat n1) st1 st2"
        unfolding done1 at diff_self_eq_0 drop_0 by blast
      have X: "cluster_bytes disk st (c # cs) = ?X @ cluster_bytes disk st cs" by (simp add: cluster_bytes_def)
      have "take n (drop (o' - 4096 * i) (cluster_bytes disk st (c # cs))) = ?chunk @ take n1 (cluster_bytes disk st cs)"
        using lenX ck at Cons.prems(3) o unfolding X n by (simp add: take_add)
      moreover have "cluster_bytes disk st1 cs = cluster_bytes disk st cs" by (simp add: cluster_bytes_def clu)
      moreover have "take (unat done + k) ?buf1 = take (unat done) buf @ ?chunk"
        "drop (unat done + k + n1) ?buf1 = drop (unat done + n) buf"
        using ck k_le(2) Cons.prems(5,7) n by (simp_all add: ac_simps)
      ultimately show ?thesis using st1 st2 False advanced_trans [OF st1(1) st2(2)] n
        by (intro exI [of _ st2]) (simp add: algebra_simps)
    next
      case other: False
      then have "unat len = unat done + k \<or> unat flen = o' + k"
        using Cons.prems(5,6) o by (auto simp: k_def min_def split: if_splits)
      then have stop: "len = done + of_nat k \<or> flen = f_offset (filps st1 filp)"
        using done1 o1 by (auto simp: word_unat_eq_iff)
      have n: "n = k" using \<open>unat len = unat done + k \<or> unat flen = o' + k\<close> Cons.prems(9) k_le by auto
      have "file_length (inodes st1 (f_inode (filps st1 filp))) = Inr flen" using f1 by (simp add: file_on_def Let_def)
      from exfat_read_loop_stop [OF this stop]
      have "exfat_read_loop devs filp content len cs (done + of_nat k) ?buf1 st1 = Inr (st1, ?buf1, done + of_nat k)" .
      moreover have "take k (drop (o' - 4096 * i) (cluster_bytes disk st (c # cs))) = ?chunk"
        using lenX k_le(3) Cons.prems(3) o by (simp add: cluster_bytes_def)
      ultimately show ?thesis using st1 False n by (intro exI [of _ st1]) simp
    qed
  qed
qed

end

lemma truncate_kmem:
  assumes "slab_state.truncate st' = slab_state.truncate (st :: 'z device_state_scheme)"
  shows "kmem_wf st' = kmem_wf st" "used_pages st' = used_pages st"
proof -
  have "kmem_page_array st' = kmem_page_array st" "kmem_total_pages st' = kmem_total_pages st"
    "kmem_start st' = kmem_start st" "kmem_used_pages st' = kmem_used_pages st"
    using assms by (simp_all add: slab_state.truncate_def)
  then show "kmem_wf st' = kmem_wf st" "used_pages st' = used_pages st"
    by (simp_all add: kmem_wf_def used_pages_def page_addr_def)
qed

text \<open>A page buffer that is given back after a transfer that left the allocators alone.\<close>

lemma page_given_back:
  fixes st1 st2 :: "'z device_state_scheme"
  assumes "kmem_wf st" and "kpage_alloc 1 st = Inr (st1, page)" and "slab_state.truncate st2 = slab_state.truncate st1"
  shows "\<exists>st3. kpage_free page 1 st2 = Inr st3"
proof -
  have a: "kpage_alloc1 st = Inr (st1, page)" using assms(2) by (simp add: kpage_alloc1_def)
  from kpage.alloc_inv [OF assms(1) a] kpage.alloc_live [OF assms(1) a]
  have "kmem_wf st2" "page \<in> used_pages st2" using truncate_kmem [OF assms(3)] by simp_all
  from kpage.free_live [OF this] show ?thesis by (auto simp: kpage_free1_def)
qed

lemma kpage_alloc_more:
  assumes "kpage_alloc n st = Inr (st1, page)"
  shows "kmem_state.more st1 = kmem_state.more st"
  using assms by (auto simp: kpage_alloc_def Let_def res_bind_eq_Inr)

lemma kpage_alloc_fs:
  assumes "kpage_alloc 1 (st :: 'z device_state_scheme) = Inr (st1, page)"
  shows "inodes st1 = inodes st" "filps st1 = filps st" "superblocks st1 = superblocks st"
    "exfat_inodes st1 = exfat_inodes st" "exfat_clusters st1 = exfat_clusters st"
  using kpage_alloc_more [OF assms] by (cases st; cases st1; simp)+

lemma kpage_free_more:
  assumes "kpage_free page n st = Inr st1"
  shows "kmem_state.more st1 = kmem_state.more st"
  using assms by (auto simp: kpage_free_def Let_def res_bind_eq_Inr)

lemma kpage_free_filps:
  assumes "kpage_free page n (st :: 'z device_state_scheme) = Inr st1"
  shows "filps st1 = filps st"
  using kpage_free_more [OF assms] by (cases st; cases st1; simp)

lemma exfat_read_file:
  assumes "block_device fops dev disk serving" and "kmem_wf st" and "kpage_alloc 1 st = Inr (st1, page)"
    and "file_on devs fops dev filp flen st"
    and "clusters_loaded disk st 0 (ei_clusters (exfat_inodes st (i_private (inodes st (f_inode (filps st filp))))))"
    and "unat flen \<le> 4096 * length (ei_clusters (exfat_inodes st (i_private (inodes st (f_inode (filps st filp))))))"
    and "unat (f_offset (filps st filp)) < 4096" and "unat (f_offset (filps st filp)) \<le> unat flen"
    and "unat len \<le> length buf" and "serving page st1"
  shows "case exfat_read devs filp buf len st of Inl e \<Rightarrow> False
    | Inr (st', buf', count) \<Rightarrow>
        (let content = take (unat flen) (cluster_bytes disk st (ei_clusters (exfat_inodes st (i_private (inodes st (f_inode (filps st filp)))))));
             r = take (unat len) (drop (unat (f_offset (filps st filp))) content) in
          buf' = r @ drop (length r) buf \<and> unat count = length r \<and>
          f_offset (filps st' filp) = f_offset (filps st filp) + count)"
proof -
  define cs where "cs = ei_clusters (exfat_inodes st (i_private (inodes st (f_inode (filps st filp)))))"
  define o' where "o' = unat (f_offset (filps st filp))"
  note fs = kpage_alloc_fs [OF assms(3)]
  have f1: "file_on devs fops dev filp flen st1" using assms(4) by (simp add: file_on_def fs)
  have cl1: "clusters_loaded disk st1 0 cs" using assms(5) by (simp add: clusters_loaded_def fs cs_def)
  have cb: "cluster_bytes disk st1 cs = cluster_bytes disk st cs" by (simp add: cluster_bytes_def fs)
  have len_cb: "length (cluster_bytes disk st cs) = 4096 * length cs"
  proof -
    have "unat (ec_device_offset (exfat_clusters st c)) + 4096 \<le> length disk" if "c \<in> set cs" for c
      using assms(5) that unfolding cs_def [symmetric] clusters_loaded_def by (metis in_set_conv_nth)
    then have "\<forall>c \<in> set cs. length (take 4096 (drop (unat (ec_device_offset (exfat_clusters st c))) disk)) = 4096"
      by (intro ballI) (simp only: length_take length_drop, metis add_le_imp_le_diff add.commute min.absorb2)
    then show ?thesis unfolding cluster_bytes_def by (induction cs) auto
  qed
  define n where "n = min (min (unat len - unat (0 :: u64)) (4096 * (0 + length cs) - o')) (unat flen - o')"
  have n: "n = min (unat len) (unat flen - o')" using assms(6) by (auto simp: n_def cs_def min_def)
  have st1_o: "unat (f_offset (filps st1 filp)) = o'" by (simp add: fs o'_def)
  have pre: "4096 * 0 \<le> unat (f_offset (filps st1 filp))" "unat (f_offset (filps st1 filp)) < 4096 * Suc 0"
    "unat (0 :: u64) \<le> unat len" "unat (f_offset (filps st1 filp)) \<le> unat flen"
    using assms(7,8) by (simp_all add: fs)
  from block_device.read_loop [OF assms(1) f1 cl1 pre assms(9) st1_o [symmetric] n_def assms(10)] obtain st2
    where st2: "exfat_read_loop devs filp page len cs 0 buf st1 =
        Inr (st2, take n (drop o' (cluster_bytes disk st cs)) @ drop n buf, of_nat n)"
      "advanced filp (of_nat n) st1 st2" by (auto simp: cb)
  have "slab_state.truncate st2 = slab_state.truncate st1" using st2(2) by (simp add: advanced_def)
  from page_given_back [OF assms(2,3) this] obtain st3 where st3: "kpage_free page 1 st2 = Inr st3" by blast
  have f3: "f_offset (filps st3 filp) = f_offset (filps st filp) + of_nat n"
    using kpage_free_filps [OF st3] st2(2) by (simp add: advanced_def fs)
  have run: "exfat_read devs filp buf len st = Inr (st3, take n (drop o' (cluster_bytes disk st cs)) @ drop n buf, of_nat n)"
    using assms(3) st2(1) st3 by (simp add: exfat_read_def cs_def)
  have r: "take (unat len) (drop o' (take (unat flen) (cluster_bytes disk st cs))) = take n (drop o' (cluster_bytes disk st cs))"
    by (simp add: n drop_take min.commute)
  have lr: "length (take n (drop o' (cluster_bytes disk st cs))) = n"
    using assms(6,8) unfolding length_take length_drop len_cb n by (simp add: cs_def o'_def)
  have "n < 2 ^ 64" using n unsigned_less [of flen, where ?'a = nat] by simp
  then have un: "unat (of_nat n :: u64) = n" by (intro unat_of_nat_small) simp
  show ?thesis unfolding run cs_def [symmetric] o'_def [symmetric] Let_def sum.case prod.case r lr un using f3 by simp
qed

text \<open>
  C20: reading a file from within its first page on returns the file's bytes: the contents of its
  clusters on the disk, cut at the file's length, from the offset on, as many as were asked for; the
  rest of the buffer keeps its bytes and the offset advances by the count that is returned.
\<close>

theorem exfat_read_content:
  assumes "block_device fops dev disk serving" and "kmem_wf st" and "kpage_alloc 1 st = Inr (st1, page)"
    and "file_on devs fops dev filp flen st"
    and "clusters_loaded disk st 0 (ei_clusters (exfat_inodes st (i_private (inodes st (f_inode (filps st filp))))))"
    and "unat flen \<le> 4096 * length (ei_clusters (exfat_inodes st (i_private (inodes st (f_inode (filps st filp))))))"
    and "unat (f_offset (filps st filp)) < 4096" and "unat (f_offset (filps st filp)) \<le> unat flen"
    and "unat len \<le> length buf" and "serving page st1"
  shows "case exfat_read devs filp buf len st of Inl e \<Rightarrow> False
    | Inr (st', buf', count) \<Rightarrow>
        (let content = take (unat flen) (cluster_bytes disk st (ei_clusters (exfat_inodes st (i_private (inodes st (f_inode (filps st filp)))))));
             r = take (unat len) (drop (unat (f_offset (filps st filp))) content) in
          buf' = r @ drop (length r) buf \<and> unat count = length r \<and>
          f_offset (filps st' filp) = f_offset (filps st filp) + count)"
  by (rule exfat_read_file [OF assms])

text \<open>
  The loops look for the cluster of the offset with the test \<open>offset < byte_offset\<close> only, which skips
  clusters behind it, never those before it.
\<close>

text \<open>
  Reading a file at an offset in or behind its second page returns bytes of its first cluster
  instead: those at the offset's position within a page.
\<close>

lemma exfat_read_far_offset:
  assumes "block_device fops dev disk serving" and "kmem_wf st" and "kpage_alloc 1 st = Inr (st1, page)"
    and "file_on devs fops dev filp flen st"
    and "ei_clusters (exfat_inodes st (i_private (inodes st (f_inode (filps st filp))))) = c # cs"
    and "clusters_loaded disk st 0 (c # cs)"
    and "4096 \<le> unat (f_offset (filps st filp))"
    and "unat (f_offset (filps st filp)) + unat len \<le> unat flen"
    and "0 < unat len" and "unat (f_offset (filps st filp)) mod 4096 + unat len \<le> 4096" and "unat len \<le> length buf"
    and "serving page st1"
  shows "case exfat_read devs filp buf len st of Inl e \<Rightarrow> False
    | Inr (st', buf', count) \<Rightarrow> count = len \<and>
        take (unat len) buf' = take (unat len) (drop
          (unat (ec_device_offset (exfat_clusters st c)) + unat (f_offset (filps st filp)) mod 4096) disk)"
proof -
  define o' where "o' = unat (f_offset (filps st filp))"
  note fs = kpage_alloc_fs [OF assms(3)]
  have f1: "file_on devs fops dev filp flen st1" using assms(4) by (simp add: file_on_def fs)
  have cl1: "clusters_loaded disk st1 0 (c # cs)" using assms(6) by (simp add: clusters_loaded_def fs)
  have pre: "4096 * 0 \<le> unat (f_offset (filps st1 filp))" "unat (0 :: u64) \<le> unat len"
    "unat (f_offset (filps st1 filp)) \<le> unat flen" using assms(8) by (simp_all add: fs)
  have k: "min (min (unat len - unat (0 :: u64)) (4096 - (o' - 4096 * 0) mod 4096)) (unat flen - o') = unat len"
    using assms(8,10) by (simp add: o'_def)
  have src: "take (unat len) (drop (o' mod 4096) (cluster_bytes disk st1 [c])) =
      take (unat len) (drop (unat (ec_device_offset (exfat_clusters st c)) + o' mod 4096) disk)"
    using assms(10) by (simp add: cluster_bytes_def fs drop_take o'_def min_absorb1 add.commute)
  let ?b = "take (unat len) (drop (unat (ec_device_offset (exfat_clusters st c)) + o' mod 4096) disk)"
  have o1: "unat (f_offset (filps st1 filp)) = o'" by (simp add: fs o'_def)
  have ne: "unat len \<noteq> 0" using assms(9) by simp
  from block_device.read_round [OF assms(1) f1 cl1 pre assms(11,12), unfolded o1 k] obtain st2
    where st2: "advanced filp len st1 st2" "exfat_read_loop devs filp page len (c # cs) 0 buf st1 =
      exfat_read_loop devs filp page len cs len (?b @ drop (unat len) buf) st2"
    unfolding mult_0_right diff_zero src if_not_P [OF ne] unat_0 take_0 add_0 append_Nil of_nat_unat ucast_id by blast
  have "file_on devs fops dev filp flen st2" using f1 advanced_file_on [OF st2(1)] by blast
  then have "file_length (inodes st2 (f_inode (filps st2 filp))) = Inr flen" by (simp add: file_on_def Let_def)
  from exfat_read_loop_stop [OF this, of len len] st2(2)
  have loop: "exfat_read_loop devs filp page len (c # cs) 0 buf st1 = Inr (st2, ?b @ drop (unat len) buf, len)" by simp
  have "slab_state.truncate st2 = slab_state.truncate st1" using st2(1) by (simp add: advanced_def)
  from page_given_back [OF assms(2,3) this] obtain st3 where st3: "kpage_free page 1 st2 = Inr st3" by blast
  have "unat (ec_device_offset (exfat_clusters st c)) + 4096 \<le> length disk"
    using clusters_loaded_Cons [OF assms(6)] by simp
  then have "length ?b = unat len" using assms(10) by (simp add: o'_def)
  then show ?thesis using assms(3,5) loop st3 by (simp add: exfat_read_def o'_def)
qed

text \<open>A file of two clusters on \<^verbatim>\<open>/dev/zero\<close>.\<close>

definition demo_exfat :: "u64 \<Rightarrow> device_state" where
  "demo_exfat offset = (demo_device Inode_Slab)
     \<lparr>inodes := (\<lambda>_. \<lparr>i_type = INODE_REGULAR_FILE, i_superblock = 0, i_private = 0, i_data = File_Data 8192\<rparr>),
      filps := (\<lambda>_. \<lparr>f_fd = 0, f_inode = 0, f_offset = offset\<rparr>),
      superblocks := (\<lambda>_. \<lparr>sb_private = 0, sb_ops = Exfat_Ops, sb_device_fops = Zero_Fops, sb_device = 0\<rparr>),
      exfat_inodes := (\<lambda>_. \<lparr>ei_start_lba = 0, ei_load_needed = False, ei_clusters = [0, 8]\<rparr>),
      exfat_clusters := (\<lambda>a. \<lparr>ec_byte_offset = (if a = 0 then 0 else 4096), ec_device_offset = (if a = 0 then 0 else 4096)\<rparr>)\<rparr>"

lemma demo_exfat_facts:
  "kmem_wf (demo_exfat offset)" "\<exists>st1 page. kpage_alloc 1 (demo_exfat offset) = Inr (st1, page)"
  "file_on (\<lambda>_. zero_device_fops) zero_device_fops 0 7 8192 (demo_exfat offset)"
  "ei_clusters (exfat_inodes (demo_exfat offset) x) = [0, 8]"
  "clusters_loaded (replicate 8192 0) (demo_exfat offset) 0 [0, 8]"
  "f_offset (filps (demo_exfat offset) y) = offset"
proof -
  have t: "slab_state.truncate (demo_exfat offset) = demo_slab Inode_Slab"
    by (simp add: demo_exfat_def demo_device_truncate [symmetric] slab_state.truncate_def)
  then have "slab_wf (demo_exfat offset)" by (subst slab_wf_truncate) (simp add: demo_slab_wf)
  then show wf: "kmem_wf (demo_exfat offset)" by (simp add: slab_wf_def)
  have "kmem_page_array (demo_exfat offset) = kmem_page_array demo_kmem"
    using arg_cong [OF t, of kmem_page_array] by (simp add: slab_state.truncate_def demo_slab_def kmem_state.extend_def)
  then show "\<exists>st1 page. kpage_alloc 1 (demo_exfat offset) = Inr (st1, page)"
    by (intro kpage_alloc_ex [OF wf, of 1]) (simp_all add: demo_kmem_def)
  show "clusters_loaded (replicate 8192 0) (demo_exfat offset) 0 [0, 8]"
  proof -
    have "k = 0 \<or> k = 1" if "k < length [0 :: u64, 8]" for k using that by auto
    then have "unat (ec_byte_offset (exfat_clusters (demo_exfat offset) ([0, 8] ! k))) = 4096 * (0 + k) \<and>
        unat (ec_device_offset (exfat_clusters (demo_exfat offset) ([0, 8] ! k))) + 4096 \<le> 8192"
      if "k < length [0 :: u64, 8]" for k
      using that by (fastforce simp: demo_exfat_def)
    then show ?thesis unfolding clusters_loaded_def length_replicate by simp
  qed
qed (simp_all add: demo_exfat_def file_on_def file_length_def)

lemma exfat_read_content_witness:
  "case exfat_read (\<lambda>_. zero_device_fops) 7 (replicate 5000 1) 5000 (demo_exfat 100) of Inl e \<Rightarrow> False
    | Inr (st', buf', count) \<Rightarrow>
        (let content = take (unat (8192 :: u64)) (cluster_bytes (replicate 8192 0) (demo_exfat 100)
               (ei_clusters (exfat_inodes (demo_exfat 100) (i_private (inodes (demo_exfat 100) (f_inode (filps (demo_exfat 100) 7)))))));
             r = take (unat (5000 :: u64)) (drop (unat (f_offset (filps (demo_exfat 100) 7))) content) in
          buf' = r @ drop (length r) (replicate 5000 1) \<and> unat count = length r \<and>
          f_offset (filps st' 7) = f_offset (filps (demo_exfat 100) 7) + count)"
proof -
  note d = demo_exfat_facts [of 100]
  from d(2) obtain st1 page where a: "kpage_alloc 1 (demo_exfat 100) = Inr (st1, page)" by blast
  show ?thesis
    by (rule exfat_read_content [OF zero_disk.block_device_axioms d(1) a d(3)]) (simp_all only: d, simp_all)
qed

lemma exfat_read_far_offset_witness:
  "case exfat_read (\<lambda>_. zero_device_fops) 7 (replicate 10 1) 10 (demo_exfat 4096) of Inl e \<Rightarrow> False
    | Inr (st', buf', count) \<Rightarrow> count = 10 \<and>
        take (unat (10 :: u64)) buf' = take (unat (10 :: u64)) (drop
          (unat (ec_device_offset (exfat_clusters (demo_exfat 4096) 0)) +
             unat (f_offset (filps (demo_exfat 4096) 7)) mod 4096) (replicate 8192 0))"
proof -
  note d = demo_exfat_facts [of 4096]
  from d(2) obtain st1 page where a: "kpage_alloc 1 (demo_exfat 4096) = Inr (st1, page)" by blast
  show ?thesis
    by (rule exfat_read_far_offset [OF zero_disk.block_device_axioms d(1) a d(3,4,5)]) (simp_all only: d(6), simp_all)
qed

end
