(* ===== verification/SysFs.thy ===== *)
theory SysFs
  imports Devices
begin

text \<open>
  \<^verbatim>\<open>kernel/src/fs/sysfs.c\<close>: the read-only files \<^verbatim>\<open>pciinfo\<close>, \<^verbatim>\<open>meminfo\<close> and \<^verbatim>\<open>nvme\<close>. The text of a file is
  assembled piece by piece into the caller's buffer; numbers are the strings that the \<^verbatim>\<open>sprintf\<close>
  functions leave in their buffer (theory \<open>CStd\<close>). \<^verbatim>\<open>sysfs_init\<close> is in theory \<open>Vfs\<close>.
\<close>

section \<open>Static objects\<close>

definition sysfs_superblock :: u64 where "sysfs_superblock = 0xffffffff80101000"
definition sysfs_root_inode :: u64 where "sysfs_root_inode = 0xffffffff80101100"
definition sysfs_pciinfo_dentry :: u64 where "sysfs_pciinfo_dentry = 0xffffffff80101200"
definition sysfs_pciinfo_inode :: u64 where "sysfs_pciinfo_inode = 0xffffffff80101300"
definition sysfs_meminfo_dentry :: u64 where "sysfs_meminfo_dentry = 0xffffffff80101400"
definition sysfs_meminfo_inode :: u64 where "sysfs_meminfo_inode = 0xffffffff80101500"
definition sysfs_nvme_dentry :: u64 where "sysfs_nvme_dentry = 0xffffffff80101600"
definition sysfs_nvme_inode :: u64 where "sysfs_nvme_inode = 0xffffffff80101700"

section \<open>Operations\<close>

definition sysfs_mount :: "u64 \<Rightarrow> u64 \<Rightarrow> 'z device_state_scheme \<Rightarrow> ('z device_state_scheme \<times> u64) res" where
  "sysfs_mount device_inode mountpoint_dentry st =
     (if mountpoint_dentry = 0 then Inl Invalid_Access
      else Inr (upd_dentry mountpoint_dentry (\<lambda>d. d\<lparr>d_mounted_inode := sysfs_root_inode\<rparr>) st, 0))"

definition sysfs_lookup :: "u64 \<Rightarrow> u64 \<Rightarrow> 'z device_state_scheme \<Rightarrow> 'z device_state_scheme res" where
  "sysfs_lookup file_inode dentry st = Inr st"

definition sysfs_create_file_inode ::
  "u64 \<Rightarrow> u64 \<Rightarrow> u64 \<Rightarrow> 'z device_state_scheme \<Rightarrow> ('z device_state_scheme \<times> u64) res" where
  "sysfs_create_file_inode parent_dir out_inode out_dentry st = Inr (st, -1)"

definition sysfs_create_dir_inode ::
  "u64 \<Rightarrow> u64 \<Rightarrow> u64 \<Rightarrow> 'z device_state_scheme \<Rightarrow> ('z device_state_scheme \<times> u64) res" where
  "sysfs_create_dir_inode parent_dir out_inode out_dentry st = Inr (st, -1)"

definition sysfs_create_dev_inode ::
  "u64 \<Rightarrow> u16 \<Rightarrow> u16 \<Rightarrow> fops_id \<Rightarrow> u64 \<Rightarrow> u64 \<Rightarrow> u64 \<Rightarrow> 'z device_state_scheme \<Rightarrow> ('z device_state_scheme \<times> u64) res" where
  "sysfs_create_dev_inode parent_dir device_type device_number device_fops device out_inode out_dentry st = Inr (st, -1)"

text \<open>
  The two pointer arguments that \<^verbatim>\<open>safe_copy_pal\<close> mutates, with the buffer they point into: the
  position \<open>destination\<close> and the room \<open>destination_length\<close> behind it.
\<close>

definition safe_copy_pal :: "u8 list \<Rightarrow> u64 \<Rightarrow> u8 list \<times> nat \<times> u64 \<Rightarrow> (u8 list \<times> nat \<times> u64) res" where
  "safe_copy_pal source source_length = (\<lambda>(buffer, destination, destination_length).
     let bytes_to_copy = (if destination_length < source_length then destination_length else source_length)
     in res_bind (blit buffer destination source 0 (unat bytes_to_copy)) (\<lambda>buffer1.
          Inr (buffer1, destination + unat bytes_to_copy, destination_length - bytes_to_copy)))"

definition safe_copy_string :: "u8 list \<Rightarrow> u8 list \<times> nat \<times> u64 \<Rightarrow> (u8 list \<times> nat \<times> u64) res" where
  "safe_copy_string source = safe_copy_pal source (of_nat (length source))"

text \<open>The pieces of a line of \<^verbatim>\<open>pciinfo\<close> and of \<^verbatim>\<open>nvme\<close>, in the order of the calls.\<close>

definition pciinfo_pieces :: "pci_device \<Rightarrow> u8 list list" where
  "pciinfo_pieces dev =
     [u8p ''Pci('', hex_string 2 (unat (pci_bus dev)), u8p '':'', hex_string 2 (unat (pci_slot dev)),
      u8p ''.'', hex_string 2 (unat (pci_function dev)), u8p '' d='', hex_string 4 (unat (vendor_id dev)),
      u8p '':'', hex_string 4 (unat (device_id dev)), u8p '' c='', hex_string 2 (unat (class_code dev)),
      u8p '':'', hex_string 2 (unat (pci_subclass dev)), u8p '':'', hex_string 2 (unat (prog_if dev)),
      u8p '' mb='', hex_string 16 (unat (mmio_phys_base dev)), u8p '' ms='', hex_string 8 (unat (mmio_size dev)),
      u8p '' bb='', hex_string 16 (unat (mmio_virt_base dev)), u8p '' il='', hex_string 2 (unat (interrupt_line dev)),
      u8p ('')'' @ [CHR 0x0A])]"

definition nvme_pieces :: "pci_device \<Rightarrow> nvme_device \<Rightarrow> u8 list list" where
  "nvme_pieces pci dev =
     [u8p ''Nvme('', hex_string 2 (unat (pci_bus pci)), u8p '':'', hex_string 2 (unat (pci_slot pci)),
      u8p ''.'', hex_string 2 (unat (pci_function pci)),
      u8p '' addr='', hex_string 8 (unat (ucast (mmio_phys_base pci) :: u32)),
      u8p '' ver='', hex_string 2 (unat (ucast (major_version dev) :: u8)),
      u8p ''.'', hex_string 2 (unat (minor_version dev)),
      u8p '' asq_tail='', hex_string 2 (unat (asq_tail dev)), u8p '' asq_head='', hex_string 2 (unat (asq_head dev)),
      u8p '' acq_head='', hex_string 2 (unat (acq_head dev)),
      u8p '' iosq_tail='', hex_string 2 (unat (iosq_tail dev)), u8p '' iosq_head='', hex_string 2 (unat (iosq_head dev)),
      u8p '' iocq_head='', hex_string 2 (unat (iocq_head dev)),
      u8p '' lba_count='', hex_string 16 (unat (lba_count dev)),
      u8p '' lbads_exp='', hex_string 2 (unat (lbads_exponent dev)), u8p ('')'' @ [CHR 0x0A])]"

definition meminfo_pieces :: "'z device_state_scheme \<Rightarrow> u8 list list" where
  "meminfo_pieces st =
     [u8p ''total_memory_kib = '', dec_string (unat (ucast (kmem_total_pages st * 4) :: u32)),
      u8p ([CHR 0x0A] @ ''used_memory_kib = ''), dec_string (unat (ucast (kmem_used_pages st * 4) :: u32)),
      u8p [CHR 0x0A]]"

definition sysfs_read ::
  "u64 \<Rightarrow> u8 list \<Rightarrow> u64 \<Rightarrow> 'z device_state_scheme \<Rightarrow> ('z device_state_scheme \<times> u8 list \<times> u64) res" where
  "sysfs_read filp buffer len st =
     (if f_offset (filps st filp) > 0 then Inr (st, buffer, 0)
      else
        let inode = f_inode (filps st filp)
        in res_bind
             (if inode = sysfs_pciinfo_inode then
                res_fold (\<lambda>dev. res_fold safe_copy_string (pciinfo_pieces dev)) (pci_devices st) (buffer, 0, len)
              else if inode = sysfs_nvme_inode then
                res_fold (\<lambda>dev s. res_bind (array_get (pci_devices st) (nv_pci_device dev)) (\<lambda>pci.
                  res_fold safe_copy_string (nvme_pieces pci dev) s)) (nvme_devices st) (buffer, 0, len)
              else if inode = sysfs_meminfo_inode then
                res_fold safe_copy_string (meminfo_pieces st) (buffer, 0, len)
              else Inl (Panic ''Unknown sysfs inode''))
             (\<lambda>(buffer1, destination, destination_length).
               Inr (upd_file filp (\<lambda>f. f\<lparr>f_offset := of_nat destination\<rparr>) st, buffer1, of_nat destination)))"

definition sysfs_write :: "u64 \<Rightarrow> u8 list \<Rightarrow> u64 \<Rightarrow> 'z device_state_scheme \<Rightarrow> ('z device_state_scheme \<times> u64) res" where
  "sysfs_write filp buf len st = Inr (st, -1)"

definition sysfs_set_size :: "u64 \<Rightarrow> u64 \<Rightarrow> 'z device_state_scheme \<Rightarrow> ('z device_state_scheme \<times> u64) res" where
  "sysfs_set_size filp new_size st = Inr (st, -1)"

section \<open>What is read\<close>

text \<open>The whole text of a file.\<close>

definition pciinfo_text :: "'z device_state_scheme \<Rightarrow> u8 list" where
  "pciinfo_text st = concat (map (\<lambda>dev. concat (pciinfo_pieces dev)) (pci_devices st))"

definition nvme_text :: "'z device_state_scheme \<Rightarrow> u8 list" where
  "nvme_text st = concat (map (\<lambda>dev. concat (nvme_pieces (pci_devices st ! nv_pci_device dev) dev)) (nvme_devices st))"

definition sysfs_text :: "u64 \<Rightarrow> 'z device_state_scheme \<Rightarrow> u8 list" where
  "sysfs_text inode st =
     (if inode = sysfs_pciinfo_inode then pciinfo_text st
      else if inode = sysfs_nvme_inode then nvme_text st else concat (meminfo_pieces st))"

text \<open>The state of the copying after the text \<open>t\<close>: what fits of it is in the buffer.\<close>

definition copied_text :: "u8 list \<Rightarrow> u64 \<Rightarrow> u8 list \<Rightarrow> u8 list \<times> nat \<times> u64" where
  "copied_text buffer len t =
     (let n = min (unat len) (length t) in (take n t @ drop n buffer, n, len - of_nat n))"

lemma copied_text_step:
  assumes "unat len \<le> length buffer" and "length s < 2 ^ 64"
  shows "safe_copy_string s (copied_text buffer len t) = Inr (copied_text buffer len (t @ s))"
proof -
  define n where "n = min (unat len) (length t)"
  define m where "m = min (unat len - n) (length s)"
  have us: "unat (of_nat (length s) :: u64) = length s" using assms(2) by (intro unat_of_nat_small) simp
  have "n \<le> unat len" by (simp add: n_def)
  then have n64: "n < 2 ^ 64" using unsigned_less [of len, where ?'a = nat] by simp
  have un: "unat (of_nat n :: u64) = n" using n64 by (intro unat_of_nat_small) simp
  have rest: "unat (len - of_nat n) = unat len - n"
    using un \<open>n \<le> unat len\<close> by (subst unat_sub_no_wrap) (simp_all add: word_le_nat_alt)
  let ?b = "if len - of_nat n < of_nat (length s) then len - of_nat n else of_nat (length s)"
  have b: "unat ?b = m" using rest us by (auto simp: m_def word_less_nat_alt)
  have bm: "?b = of_nat m" unfolding b [symmetric] by simp
  have nm: "n + m = min (unat len) (length (t @ s))" by (auto simp: n_def m_def min_def)
  have fit: "n + m \<le> length (take n t @ drop n buffer)" "0 + m \<le> length s"
    using assms(1) by (auto simp: n_def m_def)
  have lt: "length (take n t) = n" by (simp add: n_def)
  have "take n (take n t @ drop n buffer) @ take m (drop 0 s) @ drop (n + m) (take n t @ drop n buffer) =
      take (n + m) (t @ s) @ drop (n + m) buffer"
  proof (cases "unat len \<le> length t")
    case True
    then have "m = 0" by (simp add: m_def n_def)
    then show ?thesis using lt True by (simp add: n_def)
  next
    case False
    then have "n = length t" by (simp add: n_def)
    then show ?thesis by (simp add: add.commute)
  qed
  then have "blit (take n t @ drop n buffer) n s 0 m = Inr (take (n + m) (t @ s) @ drop (n + m) buffer)"
    by (simp only: blit_ok [OF fit])
  moreover have "len - of_nat n - ?b = len - of_nat (n + m)" unfolding bm by (simp add: algebra_simps)
  ultimately show ?thesis
    unfolding copied_text_def safe_copy_string_def safe_copy_pal_def Let_def prod.case n_def [symmetric] b nm [symmetric]
    by simp
qed

lemma copied_text_fold:
  assumes "unat len \<le> length buffer" and "\<forall>s \<in> set ss. length s < 2 ^ 64"
  shows "res_fold safe_copy_string ss (copied_text buffer len t) = Inr (copied_text buffer len (t @ concat ss))"
  using assms(2)
proof (induction ss arbitrary: t)
  case Nil
  then show ?case by simp
next
  case (Cons s ss)
  then show ?case using copied_text_step [OF assms(1), of s t] Cons.IH [of "t @ s"] by simp
qed

lemma copied_text_lines:
  assumes "unat len \<le> length buffer"
    and "\<And>x s. x \<in> set xs \<Longrightarrow> f x s = res_fold safe_copy_string (pieces x) s"
    and "\<And>x s. x \<in> set xs \<Longrightarrow> s \<in> set (pieces x) \<Longrightarrow> length s < 2 ^ 64"
  shows "res_fold f xs (copied_text buffer len t) = Inr (copied_text buffer len (t @ concat (map (\<lambda>x. concat (pieces x)) xs)))"
  using assms(2,3)
proof (induction xs arbitrary: t)
  case Nil
  then show ?case by simp
next
  case (Cons x xs)
  have xin: "x \<in> set (x # xs)" by simp
  have "f x (copied_text buffer len t) = Inr (copied_text buffer len (t @ concat (pieces x)))"
    unfolding Cons.prems(1) [OF xin]
    by (rule copied_text_fold [OF assms(1)]) (intro ballI Cons.prems(2) [OF xin])
  moreover have "res_fold f xs (copied_text buffer len (t @ concat (pieces x))) =
      Inr (copied_text buffer len ((t @ concat (pieces x)) @ concat (map (\<lambda>x. concat (pieces x)) xs)))"
    by (rule Cons.IH; intro Cons.prems list.set_intros(2); assumption)
  ultimately show ?case by simp
qed

lemma piece_lengths:
  "s \<in> set (pciinfo_pieces dev) \<Longrightarrow> length s < 2 ^ 64"
  "s \<in> set (nvme_pieces pci nv) \<Longrightarrow> length s < 2 ^ 64"
  "s \<in> set (meminfo_pieces st) \<Longrightarrow> length s < 2 ^ 64"
proof -
  show "s \<in> set (pciinfo_pieces dev) \<Longrightarrow> length s < 2 ^ 64"
    by (auto simp: pciinfo_pieces_def simp del: hex_string.simps)
  show "s \<in> set (nvme_pieces pci nv) \<Longrightarrow> length s < 2 ^ 64"
    by (auto simp: nvme_pieces_def simp del: hex_string.simps)
  have d: "length (dec_string (unat (v :: u32))) < 2 ^ 64" for v
    using dec_string_length_u32 [of v] by simp
  show "s \<in> set (meminfo_pieces st) \<Longrightarrow> length s < 2 ^ 64"
    using d by (auto simp: meminfo_pieces_def simp del: dec_string.simps)
qed

lemma sysfs_read_start:
  assumes "f_offset (filps st filp) = 0"
    and "f_inode (filps st filp) \<in> {sysfs_pciinfo_inode, sysfs_nvme_inode, sysfs_meminfo_inode}"
    and "\<forall>dev \<in> set (nvme_devices st). nv_pci_device dev < length (pci_devices st)"
    and "unat len \<le> length buffer"
  defines "t \<equiv> sysfs_text (f_inode (filps st filp)) st"
  defines "n \<equiv> min (unat len) (length t)"
  shows "sysfs_read filp buffer len st =
    Inr (upd_file filp (\<lambda>f. f\<lparr>f_offset := of_nat n\<rparr>) st, take n t @ drop n buffer, of_nat n)"
proof -
  have start: "(buffer, 0, len) = copied_text buffer len []" by (simp add: copied_text_def)
  let ?run = "if f_inode (filps st filp) = sysfs_pciinfo_inode then
      res_fold (\<lambda>dev. res_fold safe_copy_string (pciinfo_pieces dev)) (pci_devices st) (buffer, 0, len)
    else if f_inode (filps st filp) = sysfs_nvme_inode then
      res_fold (\<lambda>dev s. res_bind (array_get (pci_devices st) (nv_pci_device dev)) (\<lambda>pci.
        res_fold safe_copy_string (nvme_pieces pci dev) s)) (nvme_devices st) (buffer, 0, len)
    else if f_inode (filps st filp) = sysfs_meminfo_inode then
      res_fold safe_copy_string (meminfo_pieces st) (buffer, 0, len)
    else Inl (Panic ''Unknown sysfs inode'')"
  have pci: "res_fold (\<lambda>dev. res_fold safe_copy_string (pciinfo_pieces dev)) (pci_devices st) (buffer, 0, len) =
      Inr (copied_text buffer len (pciinfo_text st))"
    unfolding start by (subst copied_text_lines [OF assms(4) refl piece_lengths(1)]) (assumption, simp add: pciinfo_text_def)
  have nvme: "res_fold (\<lambda>dev s. res_bind (array_get (pci_devices st) (nv_pci_device dev)) (\<lambda>pci.
        res_fold safe_copy_string (nvme_pieces pci dev) s)) (nvme_devices st) (buffer, 0, len) =
      Inr (copied_text buffer len (nvme_text st))"
    unfolding start
    by (subst copied_text_lines [where pieces = "\<lambda>dev. nvme_pieces (pci_devices st ! nv_pci_device dev) dev",
          OF assms(4) _ piece_lengths(2)])
      (use assms(3) in \<open>simp add: array_get_def\<close>, assumption, simp add: nvme_text_def)
  have mem: "res_fold safe_copy_string (meminfo_pieces st) (buffer, 0, len) =
      Inr (copied_text buffer len (concat (meminfo_pieces st)))"
    unfolding start by (subst copied_text_fold [OF assms(4)]) (intro ballI piece_lengths(3), assumption, simp)
  have "?run = Inr (copied_text buffer len t)"
    using assms(2) pci nvme mem by (auto simp: t_def sysfs_text_def)
  then show ?thesis
    using assms(1) by (simp add: sysfs_read_def Let_def copied_text_def n_def del: res_fold.simps)
qed

text \<open>
  C35: reading a file of \<^verbatim>\<open>/sys\<close> from the start delivers its text, cut at the length asked for, never
  writes behind that length, and a following read finds the end of the file.
\<close>

theorem sysfs_read_text:
  assumes "f_offset (filps st filp) = 0"
    and "f_inode (filps st filp) \<in> {sysfs_pciinfo_inode, sysfs_nvme_inode, sysfs_meminfo_inode}"
    and "\<forall>dev \<in> set (nvme_devices st). nv_pci_device dev < length (pci_devices st)"
    and "unat len \<le> length buffer"
  shows "case sysfs_read filp buffer len st of Inl e \<Rightarrow> False
    | Inr (st', buffer', count) \<Rightarrow>
        (let r = take (unat len) (sysfs_text (f_inode (filps st filp)) st) in
          buffer' = r @ drop (length r) buffer \<and> unat count = length r \<and>
          (r \<noteq> [] \<longrightarrow> sysfs_read filp buffer' len st' = Inr (st', buffer', 0)))"
proof -
  let ?t = "sysfs_text (f_inode (filps st filp)) st"
  let ?n = "min (unat len) (length ?t)"
  note run = sysfs_read_start [OF assms]
  have "?n < 2 ^ 64" using unsigned_less [of len, where ?'a = nat] by simp
  then have un: "unat (of_nat ?n :: u64) = ?n" by (intro unat_of_nat_small) simp
  have r: "take (unat len) ?t = take ?n ?t" by (cases "unat len \<le> length ?t") simp_all
  have lr: "length (take ?n ?t) = ?n" by simp
  have again: "sysfs_read filp b len (upd_file filp (\<lambda>f. f\<lparr>f_offset := of_nat ?n\<rparr>) st) =
      Inr (upd_file filp (\<lambda>f. f\<lparr>f_offset := of_nat ?n\<rparr>) st, b, 0)" if "take ?n ?t \<noteq> []" for b
  proof -
    have "0 < ?n" using that by auto
    then have "0 < (of_nat ?n :: u64)" using un by (simp add: word_less_nat_alt)
    then show ?thesis by (simp add: sysfs_read_def upd_file_def)
  qed
  show ?thesis unfolding run sum.case prod.case Let_def r lr un using again by blast
qed

definition demo_sysfs :: device_state where
  "demo_sysfs = (demo_device Inode_Slab)\<lparr>filps := (\<lambda>_. \<lparr>f_fd = 0, f_inode = sysfs_meminfo_inode, f_offset = 0\<rparr>)\<rparr>"

lemma sysfs_read_text_witness:
  "case sysfs_read 5 (replicate 40 0) 40 demo_sysfs of Inl e \<Rightarrow> False
    | Inr (st', buffer', count) \<Rightarrow>
        (let r = take (unat (40 :: u64)) (sysfs_text (f_inode (filps demo_sysfs 5)) demo_sysfs) in
          buffer' = r @ drop (length r) (replicate 40 0) \<and> unat count = length r \<and>
          (r \<noteq> [] \<longrightarrow> sysfs_read 5 buffer' 40 st' = Inr (st', buffer', 0)))"
  by (rule sysfs_read_text) (simp_all add: demo_sysfs_def demo_device_def device_state.defs keyboard_state.defs)

end
