(* ===== verification/Vfs.thy ===== *)
theory Vfs
  imports RamFs ExFat SysFs
begin

text \<open>
  \<^verbatim>\<open>kernel/src/fs/vfs.c\<close>: creation of objects, path resolution and the file operations that dispatch to
  ramfs, sysfs and exFAT or to a device driver, and the initialisation of the file systems
  (\<^verbatim>\<open>sysfs_init\<close>, \<^verbatim>\<open>terminal_init_2\<close>, \<^verbatim>\<open>zero_init\<close>). The specification of path resolution is a walk over
  the components of the path; \<open>vfs_resolve\<close> on the characters implements it. The drivers' file
  operations are the argument \<open>devs\<close>.
\<close>

section \<open>State and dispatch\<close>

record fs_state = device_state +
  vfs_dev_dir_inode :: u64
  vfs_sys_dir_inode :: u64
  tty1_inode :: u64
  tty2_inode :: u64
  tty3_inode :: u64
  zero_inode :: u64

type_synonym 's drivers = "fops_id \<Rightarrow> 's file_operations"

definition ramfs_root_superblock :: u64 where "ramfs_root_superblock = 0xffffffff80100140"

text \<open>\<^verbatim>\<open>inode->superblock->ops\<close>: a null inode or superblock is not dereferenced by the model.\<close>

definition inode_ops :: "u64 \<Rightarrow> 'z vfs_state_scheme \<Rightarrow> fs_ops res" where
  "inode_ops inode st =
     (if inode = 0 \<or> i_superblock (inodes st inode) = 0 then Inl Invalid_Access
      else Inr (sb_ops (superblocks st (i_superblock (inodes st inode)))))"

definition fs_lookup :: "'z device_state_scheme drivers \<Rightarrow> u64 \<Rightarrow> u64 \<Rightarrow> 'z device_state_scheme \<Rightarrow> 'z device_state_scheme res" where
  "fs_lookup devs inode dentry st =
     res_bind (inode_ops inode st) (\<lambda>ops. case ops of
         Ramfs_Ops \<Rightarrow> ramfs_lookup inode dentry st
       | Sysfs_Ops \<Rightarrow> sysfs_lookup inode dentry st
       | Exfat_Ops \<Rightarrow> exfat_lookup devs inode dentry st)"

definition fs_create_file_inode :: "u64 \<Rightarrow> u64 \<Rightarrow> u64 \<Rightarrow> 'z device_state_scheme \<Rightarrow> ('z device_state_scheme \<times> u64) res" where
  "fs_create_file_inode parent_dir out_inode out_dentry st =
     res_bind (inode_ops parent_dir st) (\<lambda>ops. case ops of
         Ramfs_Ops \<Rightarrow> ramfs_create_file_inode parent_dir out_inode out_dentry st
       | Sysfs_Ops \<Rightarrow> sysfs_create_file_inode parent_dir out_inode out_dentry st
       | Exfat_Ops \<Rightarrow> exfat_create_file_inode parent_dir out_inode out_dentry st)"

definition fs_create_dir_inode :: "u64 \<Rightarrow> u64 \<Rightarrow> u64 \<Rightarrow> 'z device_state_scheme \<Rightarrow> ('z device_state_scheme \<times> u64) res" where
  "fs_create_dir_inode parent_dir out_inode out_dentry st =
     res_bind (inode_ops parent_dir st) (\<lambda>ops. case ops of
         Ramfs_Ops \<Rightarrow> ramfs_create_dir_inode parent_dir out_inode out_dentry st
       | Sysfs_Ops \<Rightarrow> sysfs_create_dir_inode parent_dir out_inode out_dentry st
       | Exfat_Ops \<Rightarrow> exfat_create_dir_inode parent_dir out_inode out_dentry st)"

definition fs_create_dev_inode ::
  "u64 \<Rightarrow> u16 \<Rightarrow> u16 \<Rightarrow> fops_id \<Rightarrow> u64 \<Rightarrow> u64 \<Rightarrow> u64 \<Rightarrow> 'z device_state_scheme \<Rightarrow> ('z device_state_scheme \<times> u64) res" where
  "fs_create_dev_inode parent_dir device_type device_number device_fops device out_inode out_dentry st =
     res_bind (inode_ops parent_dir st) (\<lambda>ops. case ops of
         Ramfs_Ops \<Rightarrow> ramfs_create_dev_inode parent_dir device_type device_number device_fops device out_inode out_dentry st
       | Sysfs_Ops \<Rightarrow> sysfs_create_dev_inode parent_dir device_type device_number device_fops device out_inode out_dentry st
       | Exfat_Ops \<Rightarrow> exfat_create_dev_inode parent_dir device_type device_number device_fops device out_inode out_dentry st)"

definition fs_read ::
  "'z device_state_scheme drivers \<Rightarrow> u64 \<Rightarrow> u8 list \<Rightarrow> u64 \<Rightarrow> 'z device_state_scheme \<Rightarrow> ('z device_state_scheme \<times> u8 list \<times> u64) res" where
  "fs_read devs filp buffer len st =
     res_bind (inode_ops (f_inode (filps st filp)) st) (\<lambda>ops. case ops of
         Ramfs_Ops \<Rightarrow> ramfs_read filp buffer len st
       | Sysfs_Ops \<Rightarrow> sysfs_read filp buffer len st
       | Exfat_Ops \<Rightarrow> exfat_read devs filp buffer len st)"

definition fs_write ::
  "'z device_state_scheme drivers \<Rightarrow> u64 \<Rightarrow> u8 list \<Rightarrow> u64 \<Rightarrow> 'z device_state_scheme \<Rightarrow> ('z device_state_scheme \<times> u64) res" where
  "fs_write devs filp buffer len st =
     res_bind (inode_ops (f_inode (filps st filp)) st) (\<lambda>ops. case ops of
         Ramfs_Ops \<Rightarrow> ramfs_write filp buffer len st
       | Sysfs_Ops \<Rightarrow> sysfs_write filp buffer len st
       | Exfat_Ops \<Rightarrow> exfat_write devs filp buffer len st)"

definition fs_set_size :: "u64 \<Rightarrow> u64 \<Rightarrow> 'z device_state_scheme \<Rightarrow> ('z device_state_scheme \<times> u64) res" where
  "fs_set_size filp new_size st =
     res_bind (inode_ops (f_inode (filps st filp)) st) (\<lambda>ops. case ops of
         Ramfs_Ops \<Rightarrow> ramfs_set_size filp new_size st
       | Sysfs_Ops \<Rightarrow> sysfs_set_size filp new_size st
       | Exfat_Ops \<Rightarrow> exfat_set_size filp new_size st)"

section \<open>Creating objects\<close>

text \<open>The prologue the three creating functions share: an inode, a dentry and its name.\<close>

definition vfs_new_entry :: "u8 list \<Rightarrow> 'z device_state_scheme \<Rightarrow> ('z device_state_scheme \<times> u64 \<times> u64) res" where
  "vfs_new_entry name st =
     res_bind (slab_alloc Inode_Slab st) (\<lambda>(st1, inode).
     res_bind (slab_alloc Dentry_Slab st1) (\<lambda>(st2, dentry).
     res_bind (array_strcpy (d_name (dentries st2 dentry)) name) (\<lambda>chars.
       Inr (upd_dentry dentry (\<lambda>d. d\<lparr>d_name := chars\<rparr>) st2, inode, dentry))))"

text \<open>The result of \<^verbatim>\<open>vfs_create\<close> is the new inode or null.\<close>

definition vfs_create :: "u64 \<Rightarrow> u8 list \<Rightarrow> 'z device_state_scheme \<Rightarrow> ('z device_state_scheme \<times> u64) res" where
  "vfs_create parent_dir name st =
     res_bind (vfs_new_entry name st) (\<lambda>(st1, inode, dentry).
     res_bind (fs_create_file_inode parent_dir inode dentry st1) (\<lambda>(st2, create_result).
       if create_result \<noteq> 0
       then res_bind (slab_free Inode_Slab inode st2) (\<lambda>st3.
            res_bind (slab_free Dentry_Slab dentry st3) (\<lambda>st4. Inr (st4, 0)))
       else Inr (st2, inode)))"

definition vfs_mkdir :: "u64 \<Rightarrow> u8 list \<Rightarrow> 'z device_state_scheme \<Rightarrow> ('z device_state_scheme \<times> u64) res" where
  "vfs_mkdir parent_dir name st =
     res_bind (vfs_new_entry name st) (\<lambda>(st1, inode, dentry).
     res_bind (fs_create_dir_inode parent_dir inode dentry st1) (\<lambda>(st2, r). Inr (st2, inode)))"

definition vfs_mknod ::
  "u64 \<Rightarrow> u8 list \<Rightarrow> u16 \<Rightarrow> u16 \<Rightarrow> fops_id \<Rightarrow> u64 \<Rightarrow> 'z device_state_scheme \<Rightarrow> ('z device_state_scheme \<times> u64) res" where
  "vfs_mknod parent_dir name device_type device_number device_fops device st =
     res_bind (vfs_new_entry name st) (\<lambda>(st1, inode, dentry).
     res_bind (fs_create_dev_inode parent_dir device_type device_number device_fops device inode dentry st1)
       (\<lambda>(st2, r). Inr (st2, inode)))"

definition vfs_init :: "'z fs_state_scheme \<Rightarrow> 'z fs_state_scheme res" where
  "vfs_init st =
     (let st1 = slab_allocator_init File_Slab (slab_allocator_init Dentry_Slab (slab_allocator_init Inode_Slab st));
          st2 = upd_inode vfs_root_inode (\<lambda>i. i\<lparr>i_type := INODE_DIRECTORY, i_data := Dir_Data []\<rparr>) st1;
          st3 = st2\<lparr>superblocks := (superblocks st2)(vfs_root_superblock :=
                   \<lparr>sb_private = ramfs_root_superblock, sb_ops = Ramfs_Ops, sb_device_fops = Null_Fops, sb_device = 0\<rparr>)\<rparr>;
          st4 = upd_inode vfs_root_inode (\<lambda>i. i\<lparr>i_superblock := vfs_root_superblock\<rparr>) st3
      in res_bind (vfs_mkdir vfs_root_inode (u8p ''dev'') st4) (\<lambda>(st5, dev_dir).
         res_bind (vfs_mkdir vfs_root_inode (u8p ''sys'') (st5\<lparr>vfs_dev_dir_inode := dev_dir\<rparr>)) (\<lambda>(st6, sys_dir).
           Inr (st6\<lparr>vfs_sys_dir_inode := sys_dir\<rparr>))))"

section \<open>Path resolution\<close>

text \<open>
  \<^verbatim>\<open>struct vfs_lookup_result\<close> by its status; the constructors carry the members that \<^verbatim>\<open>vfs_resolve\<close> sets
  for that status. \<^verbatim>\<open>name_start\<close> is the position in the path. A path is the string's characters
  without the terminating zero.
\<close>

datatype vfs_lookup_result =
    Resolve_Exists u64 u64 u64
  | Resolve_Doesnt_Exist u64 u64 nat nat
  | Resolve_Err_Doesnt_Exist
  | Resolve_Err_Not_A_Dir

definition VFS_RESOLVE_SUCCESS_EXISTS :: u8 where "VFS_RESOLVE_SUCCESS_EXISTS = 0"
definition VFS_RESOLVE_SUCCESS_DOESNT_EXIST :: u8 where "VFS_RESOLVE_SUCCESS_DOESNT_EXIST = 1"
definition VFS_RESOLVE_ERR_DOESNT_EXIST :: u8 where "VFS_RESOLVE_ERR_DOESNT_EXIST = 3"
definition VFS_RESOLVE_ERR_NOT_A_DIR :: u8 where "VFS_RESOLVE_ERR_NOT_A_DIR = 4"

fun resolve_status :: "vfs_lookup_result \<Rightarrow> u8" where
  "resolve_status (Resolve_Exists i d p) = VFS_RESOLVE_SUCCESS_EXISTS"
| "resolve_status (Resolve_Doesnt_Exist d p s n) = VFS_RESOLVE_SUCCESS_DOESNT_EXIST"
| "resolve_status Resolve_Err_Doesnt_Exist = VFS_RESOLVE_ERR_DOESNT_EXIST"
| "resolve_status Resolve_Err_Not_A_Dir = VFS_RESOLVE_ERR_NOT_A_DIR"

abbreviation slash :: u8 where "slash \<equiv> 47"

text \<open>The search of a directory for a name (\<^verbatim>\<open>strklcmp\<close> needs the entry's name to be terminated).\<close>

fun vfs_find_entry :: "u8 list \<Rightarrow> u64 list \<Rightarrow> 'z vfs_state_scheme \<Rightarrow> u64 option res" where
  "vfs_find_entry name [] st = Inr None"
| "vfs_find_entry name (d # ds) st =
     res_bind (array_string (d_name (dentries st d))) (\<lambda>chars.
       if chars = name then Inr (Some d) else vfs_find_entry name ds st)"

definition dentry_target :: "u64 \<Rightarrow> 'z vfs_state_scheme \<Rightarrow> u64" where
  "dentry_target d st =
     (if d_mounted_inode (dentries st d) \<noteq> 0 then d_mounted_inode (dentries st d) else d_inode (dentries st d))"

function vfs_resolve_loop ::
  "'z device_state_scheme drivers \<Rightarrow> nat \<Rightarrow> u8 list \<Rightarrow> u64 \<Rightarrow> u64 \<Rightarrow> u64 \<Rightarrow> 'z device_state_scheme \<Rightarrow>
   ('z device_state_scheme \<times> vfs_lookup_result) res" where
  "vfs_resolve_loop devs path_length buf inode cur_dentry parent_inode st =
     (if buf = [] then Inr (st, Resolve_Exists inode cur_dentry parent_inode)
      else if i_type (inodes st inode) \<noteq> INODE_DIRECTORY then Inr (st, Resolve_Err_Not_A_Dir)
      else
        let fragment_start = dropWhile (\<lambda>c. c = slash) buf;
            name = takeWhile (\<lambda>c. c \<noteq> slash) fragment_start;
            rest = dropWhile (\<lambda>c. c \<noteq> slash) fragment_start
        in if name = [] then Inr (st, Resolve_Exists inode cur_dentry parent_inode)
           else res_bind (dir_entries (inodes st inode)) (\<lambda>ds.
                res_bind (vfs_find_entry name ds st) (\<lambda>found. case found of
                    Some dentry \<Rightarrow>
                      let target = dentry_target dentry st
                      in res_bind (fs_lookup devs target dentry st) (\<lambda>st1.
                           vfs_resolve_loop devs path_length rest target dentry inode st1)
                  | None \<Rightarrow>
                      if rest = []
                      then Inr (st, Resolve_Doesnt_Exist cur_dentry inode (path_length - length fragment_start) (length name))
                      else Inr (st, Resolve_Err_Doesnt_Exist))))"
  by pat_completeness auto
termination
proof (relation "measure (\<lambda>(devs, n, buf, inode, d, p, st). length buf)", goal_cases)
  case 1
  show ?case by simp
next
  case (2 devs path_length buf inode cur_dentry parent_inode st start name rest ds found dentry target st1)
  have "length start = length name + length rest" unfolding 2 by (metis length_append takeWhile_dropWhile_id)
  moreover have "length start \<le> length buf" unfolding 2 by (rule length_dropWhile_le)
  moreover have "name \<noteq> []" using 2 by simp
  ultimately show ?case by (simp add: length_greater_0_conv [symmetric] del: length_greater_0_conv)
qed

declare vfs_resolve_loop.simps [simp del]

definition vfs_resolve ::
  "'z device_state_scheme drivers \<Rightarrow> u8 list \<Rightarrow> 'z device_state_scheme \<Rightarrow> ('z device_state_scheme \<times> vfs_lookup_result) res" where
  "vfs_resolve devs path st =
     vfs_resolve_loop devs (length path) (dropWhile (\<lambda>c. c = slash) path) vfs_root_inode 0 vfs_root_inode st"

section \<open>Open files\<close>

text \<open>\<^verbatim>\<open>filp->inode->type\<close> and the union's device members.\<close>

definition filp_inode :: "u64 \<Rightarrow> 'z vfs_state_scheme \<Rightarrow> inode res" where
  "filp_inode filp st =
     (if filp = 0 \<or> f_inode (filps st filp) = 0 then Inl Invalid_Access else Inr (inodes st (f_inode (filps st filp))))"

definition inode_device :: "inode \<Rightarrow> (fops_id \<times> u64) res" where
  "inode_device i = (case i_data i of Dev_Data ty n fops dev \<Rightarrow> Inr (fops, dev) | _ \<Rightarrow> Inl Invalid_Access)"

definition vfs_write ::
  "'z device_state_scheme drivers \<Rightarrow> u64 \<Rightarrow> u8 list \<Rightarrow> u64 \<Rightarrow> 'z device_state_scheme \<Rightarrow> ('z device_state_scheme \<times> u64) res" where
  "vfs_write devs filp buffer len st =
     res_bind (filp_inode filp st) (\<lambda>inode.
       if i_type inode = INODE_DEVICE then
         res_bind (inode_device inode) (\<lambda>(fops, dev).
         res_bind (fo_write (devs fops) dev buffer (f_offset (filps st filp)) len st) (\<lambda>(st1, bytes_written).
           Inr (if bytes_written \<noteq> -1 then upd_file filp (\<lambda>f. f\<lparr>f_offset := f_offset f + bytes_written\<rparr>) st1 else st1,
                bytes_written)))
       else if i_type inode = INODE_REGULAR_FILE then
         (if i_superblock inode = 0 then Inl (Panic ''vfs_write: no supernode'')
          else res_bind (fs_write devs filp buffer len st) (\<lambda>(st1, bytes_written).
            Inr (if bytes_written \<noteq> -1 then upd_file filp (\<lambda>f. f\<lparr>f_offset := f_offset f + bytes_written\<rparr>) st1 else st1,
                 bytes_written)))
       else if i_type inode = INODE_DIRECTORY then
         res_bind (printk (u8p (''vfs_write: not implemented for directories'' @ [CHR 0x0A])) st) (\<lambda>st1. Inr (st1, -1))
       else Inl (Panic ''vfs_write: unknown inode type''))"

definition vfs_read ::
  "'z device_state_scheme drivers \<Rightarrow> u64 \<Rightarrow> u8 list \<Rightarrow> u64 \<Rightarrow> 'z device_state_scheme \<Rightarrow> ('z device_state_scheme \<times> u8 list \<times> u64) res" where
  "vfs_read devs filp buffer len st =
     res_bind (filp_inode filp st) (\<lambda>inode.
       if i_type inode = INODE_DEVICE then
         res_bind (inode_device inode) (\<lambda>(fops, dev).
         res_bind (fo_read (devs fops) dev buffer (f_offset (filps st filp)) len st) (\<lambda>(st1, buffer1, bytes_read).
           Inr (upd_file filp (\<lambda>f. f\<lparr>f_offset := f_offset f + bytes_read\<rparr>) st1, buffer1, bytes_read)))
       else if i_type inode = INODE_REGULAR_FILE then
         (if i_superblock inode = 0 then Inr (st, buffer, -1) else fs_read devs filp buffer len st)
       else Inr (st, buffer, -1))"

definition vfs_ftruncate :: "u64 \<Rightarrow> u64 \<Rightarrow> 'z device_state_scheme \<Rightarrow> ('z device_state_scheme \<times> u64) res" where
  "vfs_ftruncate filp new_size st =
     res_bind (filp_inode filp st) (\<lambda>inode.
       if i_type inode = INODE_DEVICE then Inr (st, -1)
       else if i_type inode = INODE_REGULAR_FILE then
         (if i_superblock inode = 0 then Inr (st, -1) else fs_set_size filp new_size st)
       else Inr (st, -1))"

text \<open>The searches of a task's list of open files; the result is null when there is none.\<close>

definition filp_find :: "u64 list \<Rightarrow> u32 \<Rightarrow> 'z vfs_state_scheme \<Rightarrow> u64" where
  "filp_find files fd st = (case find (\<lambda>f. f_fd (filps st f) = fd) files of Some f \<Rightarrow> f | None \<Rightarrow> 0)"

definition filp_insert_point_find :: "u64 list \<Rightarrow> u32 \<Rightarrow> 'z vfs_state_scheme \<Rightarrow> u64" where
  "filp_insert_point_find files fd st = (case find (\<lambda>f. f_fd (filps st f) > fd) files of Some f \<Rightarrow> f | None \<Rightarrow> 0)"

section \<open>Initialisation of the file systems\<close>

definition sysfs_static_file :: "u64 \<Rightarrow> u64 \<Rightarrow> u8 list \<Rightarrow> 'z device_state_scheme \<Rightarrow> 'z device_state_scheme res" where
  "sysfs_static_file inode dentry name st =
     (let st1 = upd_inode inode (\<lambda>i. i\<lparr>i_type := INODE_REGULAR_FILE, i_data := File_Data 10, i_superblock := sysfs_superblock\<rparr>) st
      in res_bind (array_strcpy (d_name (dentries st1 dentry)) name) (\<lambda>chars.
         let st2 = upd_dentry dentry (\<lambda>d. d\<lparr>d_name := chars\<rparr>) st1
         in res_bind (dir_append sysfs_root_inode dentry st2) (\<lambda>st3.
            Inr (upd_dentry dentry (\<lambda>d. d\<lparr>d_inode := inode\<rparr>) st3))))"

definition sysfs_init :: "'z device_state_scheme drivers \<Rightarrow> 'z device_state_scheme \<Rightarrow> 'z device_state_scheme res" where
  "sysfs_init devs st =
     (let st1 = st\<lparr>superblocks := (superblocks st)(sysfs_superblock :=
                   \<lparr>sb_private = 0, sb_ops = Sysfs_Ops, sb_device_fops = Null_Fops, sb_device = 0\<rparr>)\<rparr>;
          st2 = upd_inode sysfs_root_inode (\<lambda>i. i\<lparr>i_type := INODE_DIRECTORY, i_superblock := sysfs_superblock,
                   i_data := Dir_Data [], i_private := 0\<rparr>) st1
      in res_bind (sysfs_static_file sysfs_pciinfo_inode sysfs_pciinfo_dentry (u8p ''pciinfo'') st2) (\<lambda>st3.
         res_bind (sysfs_static_file sysfs_meminfo_inode sysfs_meminfo_dentry (u8p ''meminfo'') st3) (\<lambda>st4.
         res_bind (sysfs_static_file sysfs_nvme_inode sysfs_nvme_dentry (u8p ''nvme'') st4) (\<lambda>st5.
         res_bind (vfs_resolve devs (u8p ''sys'') st5) (\<lambda>(st6, lookup).
           case lookup of
             Resolve_Exists inode dentry parent \<Rightarrow>
               res_bind (sysfs_mount 0 dentry st6) (\<lambda>(st7, r). Inr st7)
           | _ \<Rightarrow> Inl Halted)))))"

definition terminal_init_2 :: "'z fs_state_scheme \<Rightarrow> 'z fs_state_scheme res" where
  "terminal_init_2 st =
     res_bind (vfs_mknod (vfs_dev_dir_inode st) (u8p ''tty1'') DEVICE_TTY (ucast (vt_device_number (ttys st Tty1))) Tty_Fops (tty_addr Tty1) st)
       (\<lambda>(st1, inode1).
     res_bind (vfs_mknod (vfs_dev_dir_inode st1) (u8p ''tty2'') DEVICE_TTY (ucast (vt_device_number (ttys st1 Tty2))) Tty_Fops (tty_addr Tty2)
         (st1\<lparr>tty1_inode := inode1\<rparr>)) (\<lambda>(st2, inode2).
     res_bind (vfs_mknod (vfs_dev_dir_inode st2) (u8p ''tty3'') DEVICE_TTY (ucast (vt_device_number (ttys st2 Tty3))) Tty_Fops (tty_addr Tty3)
         (st2\<lparr>tty2_inode := inode2\<rparr>)) (\<lambda>(st3, inode3).
       Inr (st3\<lparr>tty3_inode := inode3\<rparr>))))"

definition zero_init :: "'z fs_state_scheme \<Rightarrow> 'z fs_state_scheme res" where
  "zero_init st =
     res_bind (vfs_mknod (vfs_dev_dir_inode st) (u8p ''zero'') DEVICE_ZERO 1 Zero_Fops 0 st) (\<lambda>(st1, inode).
       Inr (st1\<lparr>zero_inode := inode\<rparr>))"

end
