(* ===== verification/Resolve.thy ===== *)
theory Resolve
  imports Vfs
begin

text \<open>
  What path resolution means: a path is a sequence of names between slashes, and resolving it is a walk
  down the tree of directories. \<^verbatim>\<open>vfs_resolve\<close>, which works on the characters, is proved to implement the
  walk; creating an object makes exactly its path resolvable.
\<close>

section \<open>The components of a path\<close>

fun split_slash :: "u8 list \<Rightarrow> u8 list list" where
  "split_slash [] = [[]]"
| "split_slash (c # cs) =
     (if c = slash then [] # split_slash cs
      else case split_slash cs of [] \<Rightarrow> [[c]] | w # ws \<Rightarrow> (c # w) # ws)"

definition components :: "u8 list \<Rightarrow> u8 list list" where
  "components path = filter (\<lambda>w. w \<noteq> []) (split_slash path)"

definition trailing_slash :: "u8 list \<Rightarrow> bool" where
  "trailing_slash path \<longleftrightarrow> path \<noteq> [] \<and> last path = slash"

lemma split_slash_nonempty: "split_slash path \<noteq> []"
  by (cases path) (auto split: list.splits)

lemma split_slash_word:
  assumes "\<forall>c \<in> set w. c \<noteq> slash"
  shows "split_slash (w @ slash # cs) = w # split_slash cs" "split_slash w = [w]"
  using assms by (induction w) auto

lemma components_Nil [simp]: "components [] = []"
  by (simp add: components_def)

lemma components_slash: "components (dropWhile (\<lambda>c. c = slash) path) = components path"
  by (induction path) (auto simp: components_def)

lemma components_slashes:
  assumes "dropWhile (\<lambda>c. c = slash) path = []"
  shows "components path = []"
  using components_slash [of path] assms by simp

lemma components_word:
  assumes "w \<noteq> []" and "\<forall>c \<in> set w. c \<noteq> slash" and "rest = [] \<or> (\<exists>cs. rest = slash # cs)"
  shows "components (w @ rest) = w # components rest"
  using assms(3)
proof
  assume "rest = []"
  then show ?thesis using assms(1,2) by (simp add: components_def split_slash_word)
next
  assume "\<exists>cs. rest = slash # cs"
  then obtain cs where "rest = slash # cs" ..
  then show ?thesis using assms(1,2) by (simp add: components_def split_slash_word)
qed

text \<open>The first component and the rest, as the loop of \<^verbatim>\<open>vfs_resolve\<close> finds them.\<close>

lemma first_component:
  fixes buf :: "u8 list"
  defines "start \<equiv> dropWhile (\<lambda>c. c = slash) buf"
  defines "name \<equiv> takeWhile (\<lambda>c. c \<noteq> slash) start" and "rest \<equiv> dropWhile (\<lambda>c. c \<noteq> slash) start"
  shows "start = name @ rest"
    and "rest = [] \<or> (\<exists>cs. rest = slash # cs)"
    and "name = [] \<Longrightarrow> components buf = []"
    and "name \<noteq> [] \<Longrightarrow> components buf = name # components rest"
    and "name \<noteq> [] \<Longrightarrow> trailing_slash buf \<longleftrightarrow> trailing_slash rest"
    and "buf \<noteq> [] \<Longrightarrow> name = [] \<Longrightarrow> trailing_slash buf"
    and "\<exists>pre. buf = pre @ start"
proof -
  show sp: "start = name @ rest" unfolding name_def rest_def by simp
  show tail: "rest = [] \<or> (\<exists>cs. rest = slash # cs)"
    unfolding rest_def by (induction start) auto
  have name: "\<forall>c \<in> set name. c \<noteq> slash" unfolding name_def by (auto dest: set_takeWhileD)
  have hd: "start = [] \<or> hd start \<noteq> slash" unfolding start_def by (induction buf) auto
  have empty: "start = []" if "name = []" using that hd unfolding name_def by (cases start) auto
  show "name = [] \<Longrightarrow> components buf = []"
    using components_slashes [of buf] empty unfolding start_def by blast
  show "name \<noteq> [] \<Longrightarrow> components buf = name # components rest"
    using components_slash [of buf] components_word [OF _ name tail] unfolding start_def [symmetric] sp by simp
  show pre: "\<exists>pre. buf = pre @ start" unfolding start_def by (metis takeWhile_dropWhile_id)
  show "trailing_slash buf \<longleftrightarrow> trailing_slash rest" if "name \<noteq> []"
  proof -
    obtain pre where b: "buf = pre @ name @ rest" using pre sp by auto
    show ?thesis using that name unfolding trailing_slash_def b by (auto simp: last_append)
  qed
  show "trailing_slash buf" if "buf \<noteq> []" "name = []"
  proof -
    have "dropWhile (\<lambda>c. c = slash) buf = []" using empty that(2) unfolding start_def by blast
    then have "\<forall>c \<in> set buf. c = slash" by (simp add: dropWhile_eq_Nil_conv)
    with that(1) show ?thesis by (simp add: trailing_slash_def)
  qed
qed

section \<open>The walk\<close>

datatype resolution = At u64 u64 u64 | Missing u64 u64 "u8 list" | Missing_Dir | Not_A_Dir

definition entry_named :: "'z vfs_state_scheme \<Rightarrow> u64 \<Rightarrow> u8 list \<Rightarrow> u64 option" where
  "entry_named st inode name =
     (case i_data (inodes st inode) of
        Dir_Data ds \<Rightarrow> find (\<lambda>d. array_string (d_name (dentries st d)) = Inr name) ds
      | _ \<Rightarrow> None)"

fun walk :: "'z vfs_state_scheme \<Rightarrow> u64 \<Rightarrow> u64 \<Rightarrow> u64 \<Rightarrow> u8 list list \<Rightarrow> bool \<Rightarrow> resolution" where
  "walk st inode dentry parent [] trailing =
     (if trailing \<and> i_type (inodes st inode) \<noteq> INODE_DIRECTORY then Not_A_Dir else At inode dentry parent)"
| "walk st inode dentry parent (name # names) trailing =
     (if i_type (inodes st inode) \<noteq> INODE_DIRECTORY then Not_A_Dir
      else case entry_named st inode name of
          Some d \<Rightarrow> walk st (dentry_target d st) d inode names trailing
        | None \<Rightarrow> if names = [] \<and> \<not> trailing then Missing dentry inode name else Missing_Dir)"

text \<open>The result of the code as a result of the walk: a name for the position and length of the name.\<close>

fun resolution_of :: "u8 list \<Rightarrow> vfs_lookup_result \<Rightarrow> resolution" where
  "resolution_of path (Resolve_Exists i d p) = At i d p"
| "resolution_of path (Resolve_Doesnt_Exist d p name_start name_length) =
     Missing d p (take name_length (drop name_start path))"
| "resolution_of path Resolve_Err_Doesnt_Exist = Missing_Dir"
| "resolution_of path Resolve_Err_Not_A_Dir = Not_A_Dir"

text \<open>
  A set \<open>D\<close> of inodes is a loaded tree when its directories list dentries with terminated names whose
  targets are in the set and need no loading.
\<close>

definition lookup_quiet :: "u64 \<Rightarrow> 'z vfs_state_scheme \<Rightarrow> bool" where
  "lookup_quiet inode st \<longleftrightarrow> inode \<noteq> 0 \<and> i_superblock (inodes st inode) \<noteq> 0 \<and>
     (sb_ops (superblocks st (i_superblock (inodes st inode))) = Exfat_Ops \<longrightarrow>
        \<not> ei_load_needed (exfat_inodes st (i_private (inodes st inode))))"

lemma lookup_quiet_fs: "lookup_quiet inode st \<Longrightarrow> fs_lookup devs inode d st = Inr st"
  by (auto simp: lookup_quiet_def fs_lookup_def inode_ops_def ramfs_lookup_def sysfs_lookup_def exfat_lookup_def
      split: fs_ops.splits)

definition loaded_tree :: "u64 set \<Rightarrow> 'z vfs_state_scheme \<Rightarrow> bool" where
  "loaded_tree D st \<longleftrightarrow> vfs_root_inode \<in> D \<and> i_type (inodes st vfs_root_inode) = INODE_DIRECTORY \<and>
     (\<forall>i \<in> D. i_type (inodes st i) = INODE_DIRECTORY \<longrightarrow>
        (\<exists>ds. i_data (inodes st i) = Dir_Data ds \<and>
           (\<forall>d \<in> set ds. (\<exists>s. array_string (d_name (dentries st d)) = Inr s) \<and> dentry_target d st \<in> D \<and>
              lookup_quiet (dentry_target d st) st)))"

lemma loaded_treeD:
  assumes "loaded_tree D st" and "i \<in> D" and "i_type (inodes st i) = INODE_DIRECTORY"
  obtains ds where "i_data (inodes st i) = Dir_Data ds"
    and "\<forall>d \<in> set ds. \<exists>s. array_string (d_name (dentries st d)) = Inr s"
    and "\<forall>d \<in> set ds. dentry_target d st \<in> D \<and> lookup_quiet (dentry_target d st) st"
  using assms unfolding loaded_tree_def by blast

lemma vfs_find_entry_eq:
  assumes "\<forall>d \<in> set ds. \<exists>s. array_string (d_name (dentries st d)) = Inr s"
  shows "vfs_find_entry name ds st = Inr (find (\<lambda>d. array_string (d_name (dentries st d)) = Inr name) ds)"
  using assms by (induction ds) auto

lemma entry_named_member:
  assumes "entry_named st i name = Some d" and "i_data (inodes st i) = Dir_Data ds"
  shows "d \<in> set ds"
  using assms by (auto simp: entry_named_def dest: find_Some_split)

lemma vfs_resolve_loop_walk:
  assumes "loaded_tree D st" and "inode \<in> D" and "path = pre @ buf"
  shows "\<exists>r. vfs_resolve_loop devs (length path) buf inode dentry parent st = Inr (st, r) \<and>
    resolution_of path r = walk st inode dentry parent (components buf) (trailing_slash buf)"
  using assms(2,3)
proof (induction "length buf" arbitrary: buf inode dentry parent pre rule: less_induct)
  case less
  let ?start = "dropWhile (\<lambda>c. c = slash) buf"
  let ?name = "takeWhile (\<lambda>c. c \<noteq> slash) ?start" and ?rest = "dropWhile (\<lambda>c. c \<noteq> slash) ?start"
  note first = first_component [of buf]
  note step = vfs_resolve_loop.simps [of devs "length path" buf inode dentry parent st]
  show ?case
  proof (cases "buf = []")
    case True
    then show ?thesis unfolding step by (simp add: trailing_slash_def)
  next
    case False
    show ?thesis
    proof (cases "i_type (inodes st inode) = INODE_DIRECTORY")
      case not_dir: False
      have "walk st inode dentry parent (components buf) (trailing_slash buf) = Not_A_Dir"
        using not_dir first(3,4,6) False by (cases "?name = []") simp_all
      then show ?thesis using False not_dir by (simp add: step)
    next
      case dir: True
      show ?thesis
      proof (cases "?name = []")
        case True
        then show ?thesis using False dir first(3) by (simp add: step)
      next
        case name: False
        from loaded_treeD [OF assms(1) less.prems(1) dir] obtain ds where ds: "i_data (inodes st inode) = Dir_Data ds"
          and named: "\<forall>d \<in> set ds. \<exists>s. array_string (d_name (dentries st d)) = Inr s"
          and tgt: "\<forall>d \<in> set ds. dentry_target d st \<in> D \<and> lookup_quiet (dentry_target d st) st" by blast
        have e: "dir_entries (inodes st inode) = Inr ds" by (simp add: dir_entries_def ds)
        have find: "vfs_find_entry ?name ds st = Inr (entry_named st inode ?name)"
          unfolding vfs_find_entry_eq [OF named] by (simp add: entry_named_def ds)
        show ?thesis
        proof (cases "entry_named st inode ?name")
          case None
          have rest: "?rest = [] \<longleftrightarrow> components ?rest = [] \<and> \<not> trailing_slash ?rest"
          proof
            assume "components ?rest = [] \<and> \<not> trailing_slash ?rest"
            then show "?rest = []" using first_component(4,6) [of ?rest] by fastforce
          next
            assume r: "?rest = []"
            show "components ?rest = [] \<and> \<not> trailing_slash ?rest" unfolding r by (simp add: trailing_slash_def)
          qed
          obtain pre' where "buf = pre' @ ?start" using first(7) by blast
          then have path: "path = (pre @ pre') @ ?name @ ?rest" using less.prems(2) first(1) by simp
          then have "take (length ?name) (drop (length path - length ?start) path) = ?name"
            using first(1) by (metis append_eq_conv_conj diff_add_inverse2 length_append)
          then show ?thesis using False dir name e find None first(4,5) [OF name] rest
            by (simp add: step Let_def)
        next
          case (Some d)
          have d: "d \<in> set ds" by (rule entry_named_member [OF Some ds])
          have "length ?rest < length buf"
          proof -
            have "length ?start = length ?name + length ?rest" by (metis first(1) length_append)
            moreover have "length ?start \<le> length buf" by (rule length_dropWhile_le)
            moreover have "0 < length ?name" using name by blast
            ultimately show ?thesis by linarith
          qed
          moreover obtain pre' where "buf = pre' @ ?start" using first(7) by blast
          then have "path = (pre @ pre' @ ?name) @ ?rest" using less.prems(2) first(1) by simp
          moreover have "dentry_target d st \<in> D" using tgt d by blast
          ultimately obtain r where "vfs_resolve_loop devs (length path) ?rest (dentry_target d st) d inode st = Inr (st, r)"
            "resolution_of path r = walk st (dentry_target d st) d inode (components ?rest) (trailing_slash ?rest)"
            using less.hyps by blast
          then show ?thesis using False dir name e find Some first(4,5) [OF name] tgt d
            by (simp add: step Let_def lookup_quiet_fs)
        qed
      qed
    qed
  qed
qed

text \<open>
  C4: on a loaded tree \<^verbatim>\<open>vfs_resolve\<close> walks down the components of the path: it changes nothing, and its
  status, inode, dentry, parent and name are those of the walk. (A missing last component counts as
  creatable only without a slash behind it.)
\<close>

theorem vfs_resolve_walks:
  assumes "loaded_tree D st"
  shows "case vfs_resolve devs path st of Inl e \<Rightarrow> False
    | Inr (st', r) \<Rightarrow> st' = st \<and>
        resolution_of path r = walk st vfs_root_inode 0 vfs_root_inode (components path) (trailing_slash path)"
proof -
  let ?buf = "dropWhile (\<lambda>c. c = slash) path"
  have root: "vfs_root_inode \<in> D" "i_type (inodes st vfs_root_inode) = INODE_DIRECTORY"
    using assms by (simp_all add: loaded_tree_def)
  obtain pre where pre: "path = pre @ ?buf" by (metis takeWhile_dropWhile_id)
  from vfs_resolve_loop_walk [OF assms root(1) pre] obtain r
    where r: "vfs_resolve devs path st = Inr (st, r)"
      "resolution_of path r = walk st vfs_root_inode 0 vfs_root_inode (components path) (trailing_slash ?buf)"
    unfolding vfs_resolve_def components_slash by blast
  have "walk st vfs_root_inode 0 vfs_root_inode (components path) (trailing_slash ?buf) =
      walk st vfs_root_inode 0 vfs_root_inode (components path) (trailing_slash path)"
  proof (cases "?buf = []")
    case True
    then show ?thesis using components_slashes [OF True] root(2) by simp
  next
    case False
    then have "last path = last ?buf" by (metis last_append pre)
    moreover have "path \<noteq> []" using False by auto
    ultimately have "trailing_slash path = trailing_slash ?buf" using False by (simp add: trailing_slash_def)
    then show ?thesis by simp
  qed
  with r show ?thesis by simp
qed

section \<open>Creating\<close>

text \<open>A directory tree that gained one entry.\<close>

definition entry_added :: "u64 set \<Rightarrow> u64 \<Rightarrow> u8 list \<Rightarrow> u64 \<Rightarrow> u64 \<Rightarrow> 'z vfs_state_scheme \<Rightarrow> 'z vfs_state_scheme \<Rightarrow> bool" where
  "entry_added D parent name dentry inode st st' \<longleftrightarrow>
     (\<forall>i \<in> D. i_type (inodes st' i) = i_type (inodes st i)) \<and>
     (\<forall>i \<in> D. \<forall>w d. i_type (inodes st i) = INODE_DIRECTORY \<longrightarrow> entry_named st i w = Some d \<longrightarrow>
        entry_named st' i w = Some d \<and> dentry_target d st' = dentry_target d st \<and> dentry_target d st \<in> D) \<and>
     entry_named st' parent name = Some dentry \<and> dentry_target dentry st' = inode"

lemma walk_At_mono:
  assumes "entry_added D parent name dentry inode st st'"
  shows "i \<in> D \<Longrightarrow> walk st i d p names trailing = At x y z \<Longrightarrow> walk st' i d p names trailing = At x y z"
proof (induction names arbitrary: i d p)
  case Nil
  then show ?case using assms by (simp add: entry_added_def split: if_splits)
next
  case (Cons w names)
  from Cons.prems(2) have dir: "i_type (inodes st i) = INODE_DIRECTORY" by (simp split: if_splits)
  with Cons.prems(2) obtain e where e: "entry_named st i w = Some e" "walk st (dentry_target e st) e i names trailing = At x y z"
    by (auto split: option.splits if_splits)
  have "entry_named st' i w = Some e" "dentry_target e st' = dentry_target e st" "dentry_target e st \<in> D"
    "i_type (inodes st' i) = INODE_DIRECTORY"
    using assms Cons.prems(1) dir e(1) unfolding entry_added_def by auto
  with Cons.IH e(2) show ?case by simp
qed

lemma walk_Missing_added:
  assumes "entry_added D parent name dentry inode st st'"
  shows "i \<in> D \<Longrightarrow> walk st i d p names trailing = Missing x parent name \<Longrightarrow>
    walk st' i d p names trailing = At inode dentry parent"
proof (induction names arbitrary: i d p)
  case Nil
  then show ?case by (simp split: if_splits)
next
  case (Cons w names)
  from Cons.prems(2) have dir: "i_type (inodes st i) = INODE_DIRECTORY" by (simp split: if_splits)
  then have dir': "i_type (inodes st' i) = INODE_DIRECTORY"
    using assms Cons.prems(1) by (simp add: entry_added_def)
  show ?case
  proof (cases "entry_named st i w")
    case None
    then have "i = parent" "w = name" "names = []" "\<not> trailing" using Cons.prems(2) dir by (simp_all split: if_splits)
    then show ?thesis using assms dir' by (simp add: entry_added_def)
  next
    case (Some e)
    have e: "entry_named st' i w = Some e" "dentry_target e st' = dentry_target e st" "dentry_target e st \<in> D"
      using assms Cons.prems(1) dir Some unfolding entry_added_def by auto
    have "walk st (dentry_target e st) e i names trailing = Missing x parent name"
      using Cons.prems(2) dir Some by simp
    from Cons.IH [OF e(3) this] show ?thesis using dir' e(1,2) by simp
  qed
qed

lemma walk_Missing_dir:
  assumes "loaded_tree D st"
  shows "i \<in> D \<Longrightarrow> walk st i d p names trailing = Missing x q w \<Longrightarrow>
    q \<in> D \<and> i_type (inodes st q) = INODE_DIRECTORY \<and> entry_named st q w = None"
proof (induction names arbitrary: i d p)
  case Nil
  then show ?case by (simp split: if_splits)
next
  case (Cons v names)
  from Cons.prems(2) have dir: "i_type (inodes st i) = INODE_DIRECTORY" by (simp split: if_splits)
  show ?case
  proof (cases "entry_named st i v")
    case None
    then show ?thesis using Cons.prems dir by (simp split: if_splits)
  next
    case (Some e)
    from loaded_treeD [OF assms Cons.prems(1) dir] obtain ds where ds: "i_data (inodes st i) = Dir_Data ds"
      and "\<forall>d \<in> set ds. dentry_target d st \<in> D \<and> lookup_quiet (dentry_target d st) st" .
    with entry_named_member [OF Some ds] have "dentry_target e st \<in> D" by blast
    moreover have "walk st (dentry_target e st) e i names trailing = Missing x q w"
      using Cons.prems(2) dir Some by simp
    ultimately show ?thesis by (rule Cons.IH)
  qed
qed

text \<open>
  Fresh objects differ from the objects of the tree: those are live, or static objects of the kernel
  image, which lies above the memory that the page allocator manages.
\<close>

abbreviation KERNEL_BASE :: u64 where "KERNEL_BASE \<equiv> 0xffffffff80000000"

definition heap_below :: "'z kmem_state_scheme \<Rightarrow> bool" where
  "heap_below st \<longleftrightarrow> unat (kmem_start st) + 4096 * unat (kmem_total_pages st) \<le> unat KERNEL_BASE"

lemma slab_alloc_heap:
  assumes "slab_alloc sid st = Inr (st', a)"
  shows "kmem_start st' = kmem_start st" "kmem_total_pages st' = kmem_total_pages st"
  using assms
  by (auto simp: slab_alloc_def slab_try_alloc_def slab_new_page_def kpage_alloc_def res_bind_eq_Inr Let_def
      split: option.splits)

lemma slab_live_below:
  assumes "slab_wf st" and "heap_below st" and "a \<in> slab_live sid st"
  shows "a < KERNEL_BASE" "a \<noteq> 0"
proof -
  from slab_live_page [OF assms(1,3)] obtain p s where p: "p \<in> set (slab_pages (slab_allocators st sid))"
    and u: "unat a = unat p + (48 + s * unat (object_size (slab_allocators st sid)))"
    and le: "unat a + unat (object_size (slab_allocators st sid)) \<le> unat p + 4096" by blast
  have os: "0 < unat (object_size (slab_allocators st sid))"
    by (rule allocator_okD(1) [OF slab_wfD(2) [OF assms(1)]])
  from slab_wfD(4) [OF assms(1) p] obtain i where i: "i < length (kmem_page_array st)" "p = page_addr st i"
    by (auto simp: used_pages_def)
  note wf = slab_wfD(1) [OF assms(1)]
  have "unat p = unat (kmem_start st) + 4096 * i" using unat_page_addr [OF wf i(1)] i(2) by simp
  moreover have "Suc i \<le> unat (kmem_total_pages st)" using i(1) kmem_wfD(1) [OF wf] by simp
  then have "4096 * Suc i \<le> 4096 * unat (kmem_total_pages st)" by (rule mult_le_mono2)
  moreover define K where "K = unat KERNEL_BASE"
  moreover have "unat (kmem_start st) + 4096 * unat (kmem_total_pages st) \<le> K"
    using assms(2) unfolding heap_below_def K_def .
  ultimately have "unat a < K" using le os by (simp only: mult_Suc_right)
  then have "unat a < unat KERNEL_BASE" unfolding K_def .
  then show "a < KERNEL_BASE" by (simp only: word_less_nat_alt)
  show "a \<noteq> 0" using u by (intro notI) simp
qed

definition tree_allocated :: "u64 set \<Rightarrow> 'z vfs_state_scheme \<Rightarrow> bool" where
  "tree_allocated D st \<longleftrightarrow> slab_wf st \<and> heap_below st \<and>
     (\<forall>a. length (d_name (dentries st a)) = Suc DENTRY_MAX_NAME_LENGTH) \<and>
     (\<forall>i \<in> D. i \<in> slab_live Inode_Slab st \<or> KERNEL_BASE \<le> i) \<and>
     (\<forall>i \<in> D. \<forall>ds. i_data (inodes st i) = Dir_Data ds \<longrightarrow> i_type (inodes st i) = INODE_DIRECTORY \<longrightarrow>
        (\<forall>d \<in> set ds. d \<in> slab_live Dentry_Slab st \<or> KERNEL_BASE \<le> d))"

text \<open>The prologue of the creating functions: two fresh objects and the name, or no memory.\<close>

definition entry_prepared ::
  "u8 list \<Rightarrow> 'z device_state_scheme \<Rightarrow> 'z device_state_scheme \<Rightarrow> u64 \<Rightarrow> u64 \<Rightarrow> bool" where
  "entry_prepared name st st' inode dentry \<longleftrightarrow> slab_wf st' \<and> heap_below st' \<and>
     inode \<notin> slab_live Inode_Slab st \<and> inode < KERNEL_BASE \<and> inode \<noteq> 0 \<and>
     dentry \<notin> slab_live Dentry_Slab st \<and> dentry < KERNEL_BASE \<and>
     slab_live Inode_Slab st' = insert inode (slab_live Inode_Slab st) \<and>
     slab_live Dentry_Slab st' = insert dentry (slab_live Dentry_Slab st) \<and>
     inodes st' = inodes st \<and> superblocks st' = superblocks st \<and> exfat_inodes st' = exfat_inodes st \<and>
     (\<exists>chars. length chars = Suc DENTRY_MAX_NAME_LENGTH \<and> array_string chars = Inr name \<and>
        dentries st' = (dentries st)(dentry := (dentries st dentry)\<lparr>d_name := chars\<rparr>))"

lemma vfs_new_entry_cases:
  assumes "slab_wf st" and "heap_below st" and "length name \<le> DENTRY_MAX_NAME_LENGTH" and "0 \<notin> set name"
    and "\<forall>a. length (d_name (dentries st a)) = Suc DENTRY_MAX_NAME_LENGTH"
  shows "case vfs_new_entry name st of Inl e \<Rightarrow> e = Panic ''Out of physical memory''
    | Inr (st', inode, dentry) \<Rightarrow> entry_prepared name st st' inode dentry"
proof (cases "slab_alloc Inode_Slab st")
  case (Inl e)
  then show ?thesis using slab_alloc_error [OF assms(1)] by (simp add: vfs_new_entry_def)
next
  case (Inr p)
  obtain st1 inode where p: "p = (st1, inode)" by force
  note a1 = Inr [unfolded p] and t1 = slab_alloc_step [OF assms(1) Inr [unfolded p], unfolded slab_take_step_def]
  have wf1: "slab_wf st1" using t1 by blast
  have hb1: "heap_below st1" using assms(2) by (simp add: heap_below_def slab_alloc_heap [OF a1])
  show ?thesis
  proof (cases "slab_alloc Dentry_Slab st1")
    case (Inl e)
    then show ?thesis using a1 slab_alloc_error [OF wf1] by (simp add: vfs_new_entry_def)
  next
    case (Inr q)
    obtain st2 dentry where q: "q = (st2, dentry)" by force
    note a2 = Inr [unfolded q] and t2 = slab_alloc_step [OF wf1 Inr [unfolded q], unfolded slab_take_step_def]
    have wf2: "slab_wf st2" using t2 by blast
    have hb2: "heap_below st2" using hb1 by (simp add: heap_below_def slab_alloc_heap [OF a2])
    have more: "slab_state.more st2 = slab_state.more st" using t1 t2 by simp
    note same = slab_more_fields [OF more]
    have len: "length name < length (d_name (dentries st2 dentry))" using assms(3,5) by (simp add: same)
    let ?chars = "name @ 0 # drop (Suc (length name)) (d_name (dentries st2 dentry))"
    have cp: "array_strcpy (d_name (dentries st2 dentry)) name = Inr ?chars" by (rule array_strcpy_ok [OF len])
    let ?st' = "upd_dentry dentry (\<lambda>d. d\<lparr>d_name := ?chars\<rparr>) st2"
    have tr: "slab_state.truncate ?st' = slab_state.truncate st2" by simp
    have live: "slab_live sid ?st' = slab_live sid st2" for sid
      by (subst (1 2) slab_live_truncate) (simp only: tr)
    have wf': "slab_wf ?st'" using wf2 by (subst slab_wf_truncate) (simp only: tr slab_wf_truncate [symmetric])
    have hb': "heap_below ?st'" using hb2 by (simp add: heap_below_def upd_dentry_def)
    have li: "slab_live Inode_Slab st2 = insert inode (slab_live Inode_Slab st)"
      "slab_live Dentry_Slab st2 = insert dentry (slab_live Dentry_Slab st)"
      "inode \<notin> slab_live Inode_Slab st" "dentry \<notin> slab_live Dentry_Slab st" using t1 t2 by simp_all
    have "inode \<in> slab_live Inode_Slab st2" "dentry \<in> slab_live Dentry_Slab st2" using li by simp_all
    note below = slab_live_below [OF wf2 hb2 this(1)] slab_live_below [OF wf2 hb2 this(2)]
    have lc: "length ?chars = Suc DENTRY_MAX_NAME_LENGTH" using assms(3,5) by (simp add: same)
    have ds: "dentries ?st' = (dentries st)(dentry := (dentries st dentry)\<lparr>d_name := ?chars\<rparr>)"
      by (simp add: same upd_dentry_def)
    have rest: "inodes ?st' = inodes st" "superblocks ?st' = superblocks st" "exfat_inodes ?st' = exfat_inodes st"
      by (simp_all add: same upd_dentry_def)
    have "entry_prepared name st ?st' inode dentry"
      unfolding entry_prepared_def live
      using wf' hb' li below rest lc array_string_strcpy [OF cp assms(4)] ds by blast
    then show ?thesis using a1 a2 cp by (simp add: vfs_new_entry_def)
  qed
qed

lemma ramfs_create_file_cases:
  assumes "slab_wf st" and "heap_below st" and "inode \<noteq> parent" and "i_data (inodes st parent) = Dir_Data ds"
  shows "case ramfs_create_file_inode parent inode dentry st of Inl e \<Rightarrow> e = Panic ''Out of physical memory''
    | Inr (st', r) \<Rightarrow> r = 0 \<and> slab_wf st' \<and> heap_below st' \<and>
        slab_live Inode_Slab st' = slab_live Inode_Slab st \<and> slab_live Dentry_Slab st' = slab_live Dentry_Slab st \<and>
        superblocks st' = superblocks st \<and> exfat_inodes st' = exfat_inodes st \<and>
        dentries st' = (dentries st)(dentry := (dentries st dentry)\<lparr>d_inode := inode, d_mounted_inode := 0\<rparr>) \<and>
        (\<exists>priv. inodes st' = (inodes st)
           (inode := \<lparr>i_type = INODE_REGULAR_FILE, i_superblock = i_superblock (inodes st parent),
              i_private = priv, i_data = Dir_Data []\<rparr>,
            parent := (inodes st parent)\<lparr>i_data := Dir_Data (ds @ [dentry])\<rparr>))"
proof -
  let ?st2 = "upd_dentry dentry (\<lambda>d. d\<lparr>d_inode := inode, d_mounted_inode := 0\<rparr>)
    (upd_inode inode (\<lambda>i. i\<lparr>i_type := INODE_REGULAR_FILE,
                  i_superblock := i_superblock (inodes st parent), i_data := Dir_Data []\<rparr>) st)"
  have tr: "slab_state.truncate ?st2 = slab_state.truncate st" by simp
  have wf2: "slab_wf ?st2" using assms(1) by (subst slab_wf_truncate) (simp only: tr slab_wf_truncate [symmetric])
  have live2: "slab_live sid ?st2 = slab_live sid st" for sid
    by (subst (1 2) slab_live_truncate) (simp only: tr)
  show ?thesis
  proof (cases "slab_alloc Ramfs_Inode_Slab ?st2")
    case (Inl e)
    then show ?thesis using slab_alloc_error [OF wf2 Inl] by (simp add: ramfs_create_file_inode_def)
  next
    case (Inr p)
    obtain st3 r where p: "p = (st3, r)" by force
    note a = Inr [unfolded p] and t = slab_alloc_step [OF wf2 Inr [unfolded p], unfolded slab_take_step_def]
    have more: "slab_state.more st3 = slab_state.more ?st2" using t by blast
    note same = slab_more_fields [OF more]
    let ?st5 = "upd_inode inode (\<lambda>i. i\<lparr>i_private := r\<rparr>) (upd_ramfs_inode r (\<lambda>r. r\<lparr>ri_clusters := []\<rparr>) st3)"
    have par: "inodes ?st5 parent = inodes st parent" using assms(3) by (simp add: upd_inode_def upd_ramfs_inode_def same upd_dentry_def)
    let ?st' = "upd_inode parent (\<lambda>i. i\<lparr>i_data := Dir_Data (ds @ [dentry])\<rparr>) ?st5"
    have run: "ramfs_create_file_inode parent inode dentry st = Inr (?st', 0)"
      using a assms(4) par by (simp add: ramfs_create_file_inode_def dir_append_def dir_entries_def)
    have tr': "slab_state.truncate ?st' = slab_state.truncate st3" by simp
    have wf': "slab_wf ?st'" using t by (subst slab_wf_truncate) (simp only: tr' slab_wf_truncate [symmetric])
    have live': "slab_live sid ?st' = slab_live sid st3" for sid
      by (subst (1 2) slab_live_truncate) (simp only: tr')
    have "heap_below ?st2" using assms(2) by (simp add: heap_below_def upd_inode_def upd_dentry_def)
    then have "heap_below st3" by (simp add: heap_below_def slab_alloc_heap [OF a])
    then have hb: "heap_below ?st'" by (simp add: heap_below_def upd_inode_def upd_ramfs_inode_def)
    have li: "slab_live Inode_Slab ?st' = slab_live Inode_Slab st" "slab_live Dentry_Slab ?st' = slab_live Dentry_Slab st"
      unfolding live' using t live2 by simp_all
    have fields: "superblocks ?st' = superblocks st" "exfat_inodes ?st' = exfat_inodes st"
      "dentries ?st' = (dentries st)(dentry := (dentries st dentry)\<lparr>d_inode := inode, d_mounted_inode := 0\<rparr>)"
      by (simp_all add: upd_inode_def upd_ramfs_inode_def same upd_dentry_def)
    have "inodes ?st' = (inodes st)
           (inode := \<lparr>i_type = INODE_REGULAR_FILE, i_superblock = i_superblock (inodes st parent),
              i_private = r, i_data = Dir_Data []\<rparr>,
            parent := (inodes st parent)\<lparr>i_data := Dir_Data (ds @ [dentry])\<rparr>)"
      using assms(3) by (cases "inodes st inode") (simp add: upd_inode_def upd_ramfs_inode_def same upd_dentry_def)
    then show ?thesis unfolding run sum.case prod.case using wf' hb li fields by blast
  qed
qed

text \<open>The tree with the new entry.\<close>

lemma entry_added_tree:
  assumes "loaded_tree D st" and "tree_allocated D st"
    and "parent \<in> D" and "i_type (inodes st parent) = INODE_DIRECTORY" and "i_data (inodes st parent) = Dir_Data ds"
    and "entry_named st parent name = None"
    and "inode \<notin> D" and "inode < KERNEL_BASE" and "dentry \<notin> slab_live Dentry_Slab st" and "dentry < KERNEL_BASE"
    and "array_string chars = Inr name"
    and "dentries st' = (dentries st)(dentry := \<lparr>d_name = chars, d_mounted_inode = 0, d_inode = inode\<rparr>)"
    and "inodes st' = (inodes st)(inode := new, parent := (inodes st parent)\<lparr>i_data := Dir_Data (ds @ [dentry])\<rparr>)"
    and "superblocks st' = superblocks st" "exfat_inodes st' = exfat_inodes st"
    and "i_type new \<noteq> INODE_DIRECTORY \<or> i_data new = Dir_Data []"
    and "inode \<noteq> 0" and "i_superblock new \<noteq> 0" and "sb_ops (superblocks st (i_superblock new)) = Ramfs_Ops"
  shows "entry_added D parent name dentry inode st st'" and "loaded_tree (insert inode D) st'"
proof -
  have other: "inodes st' i = inodes st i" if "i \<in> D" "i \<noteq> parent" for i using that assms(7,13) by auto
  have par: "inodes st' parent = (inodes st parent)\<lparr>i_data := Dir_Data (ds @ [dentry])\<rparr>" using assms(13) by simp
  have new: "inodes st' inode = new" using assms(3,7,13) by auto
  have old: "d \<noteq> dentry" if "i \<in> D" "i_type (inodes st i) = INODE_DIRECTORY" "i_data (inodes st i) = Dir_Data es" "d \<in> set es" for i es d
  proof -
    have "d \<in> slab_live Dentry_Slab st \<or> KERNEL_BASE \<le> d" using assms(2) that unfolding tree_allocated_def by blast
    then show ?thesis using assms(9,10) by auto
  qed
  have tgt: "dentry_target d st' = dentry_target d st" "d_name (dentries st' d) = d_name (dentries st d)" if "d \<noteq> dentry" for d
    using that assms(12) by (simp_all add: dentry_target_def)
  have tgt_new: "dentry_target dentry st' = inode" "d_name (dentries st' dentry) = chars"
    using assms(12) by (simp_all add: dentry_target_def)
  have types: "i_type (inodes st' i) = i_type (inodes st i)" if "i \<in> D" for i
    using other [OF that] par by (cases "i = parent") simp_all
  have find_same: "find (\<lambda>d. array_string (d_name (dentries st' d)) = Inr w) es =
      find (\<lambda>d. array_string (d_name (dentries st d)) = Inr w) es"
    if "dentry \<notin> set es" for es w
    using that tgt by (induction es) auto
  have nd: "dentry \<notin> set ds" using old [OF assms(3-5)] by blast
  have named: "entry_named st' i w = Some d"
    if i: "i \<in> D" and dir: "i_type (inodes st i) = INODE_DIRECTORY" and d: "entry_named st i w = Some d" for i w d
  proof -
    from loaded_treeD [OF assms(1) i dir] obtain es where es: "i_data (inodes st i) = Dir_Data es" by blast
    have "dentry \<notin> set es" using old [OF i dir es] by blast
    note f = find_same [OF this, of w]
    show ?thesis
    proof (cases "i = parent")
      case True
      have "find (\<lambda>d. array_string (d_name (dentries st d)) = Inr w) ds = Some d"
        using d es assms(5) True by (simp add: entry_named_def)
      then have "find (\<lambda>d. array_string (d_name (dentries st' d)) = Inr w) ds = Some d"
        using find_same [OF nd] by simp
      then have "find (\<lambda>d. array_string (d_name (dentries st' d)) = Inr w) (ds @ [dentry]) = Some d"
        by (induction ds) auto
      then show ?thesis using True par by (simp add: entry_named_def)
    next
      case False
      then show ?thesis using other [OF i False] d es f by (simp add: entry_named_def)
    qed
  qed
  have added: "entry_named st' parent name = Some dentry"
  proof -
    have "find (\<lambda>d. array_string (d_name (dentries st d)) = Inr name) ds = None"
      using assms(5,6) by (simp add: entry_named_def)
    then have "find (\<lambda>d. array_string (d_name (dentries st' d)) = Inr name) ds = None"
      using find_same [OF nd] by simp
    then have "find (\<lambda>d. array_string (d_name (dentries st' d)) = Inr name) (ds @ [dentry]) = Some dentry"
      using tgt_new(2) assms(11) by (induction ds) (auto split: if_splits)
    then show ?thesis using par by (simp add: entry_named_def)
  qed
  have target: "dentry_target d st \<in> D \<and> dentry_target d st' = dentry_target d st"
    if i: "i \<in> D" and dir: "i_type (inodes st i) = INODE_DIRECTORY" and d: "entry_named st i w = Some d" for i w d
  proof -
    from loaded_treeD [OF assms(1) i dir] obtain es where es: "i_data (inodes st i) = Dir_Data es"
      and t: "\<forall>d \<in> set es. dentry_target d st \<in> D \<and> lookup_quiet (dentry_target d st) st" .
    have "d \<in> set es" by (rule entry_named_member [OF d es])
    then show ?thesis using t tgt(1) [OF old [OF i dir es]] by blast
  qed
  show "entry_added D parent name dentry inode st st'"
    unfolding entry_added_def using types named target added tgt_new(1) by blast
  have quiet: "lookup_quiet i st'" if "i \<in> D" "lookup_quiet i st" for i
    using that other [of i] par assms(14,15) by (cases "i = parent") (simp_all add: lookup_quiet_def)
  have quiet_new: "lookup_quiet inode st'" using assms(14,17-19) new by (simp add: lookup_quiet_def)
  show "loaded_tree (insert inode D) st'" unfolding loaded_tree_def
  proof (intro conjI ballI impI)
    have root: "vfs_root_inode \<in> D" "i_type (inodes st vfs_root_inode) = INODE_DIRECTORY"
      using assms(1) by (simp_all add: loaded_tree_def)
    then show "vfs_root_inode \<in> insert inode D" "i_type (inodes st' vfs_root_inode) = INODE_DIRECTORY"
      using types by simp_all
    fix i assume i: "i \<in> insert inode D" and dir': "i_type (inodes st' i) = INODE_DIRECTORY"
    show "\<exists>ds. i_data (inodes st' i) = Dir_Data ds \<and>
        (\<forall>d \<in> set ds. (\<exists>s. array_string (d_name (dentries st' d)) = Inr s) \<and> dentry_target d st' \<in> insert inode D \<and>
          lookup_quiet (dentry_target d st') st')"
    proof (cases "i = inode")
      case True
      then show ?thesis using new dir' assms(16) by simp
    next
      case False
      then have iD: "i \<in> D" using i by simp
      then have dir: "i_type (inodes st i) = INODE_DIRECTORY" using dir' types by simp
      from loaded_treeD [OF assms(1) iD dir] obtain es where es: "i_data (inodes st i) = Dir_Data es"
        and n: "\<forall>d \<in> set es. \<exists>s. array_string (d_name (dentries st d)) = Inr s"
        and t: "\<forall>d \<in> set es. dentry_target d st \<in> D \<and> lookup_quiet (dentry_target d st) st" .
      define Q where "Q d \<longleftrightarrow> (\<exists>s. array_string (d_name (dentries st' d)) = Inr s) \<and> dentry_target d st' \<in> insert inode D \<and>
          lookup_quiet (dentry_target d st') st'" for d
      have olds: "Q d" if "d \<in> set es" for d
        using that n t tgt [OF old [OF iD dir es that]] quiet by (simp add: Q_def)
      have news: "Q dentry" using tgt_new assms(11) quiet_new by (simp add: Q_def)
      have eq: "i_data (inodes st' i) = Dir_Data (if i = parent then es @ [dentry] else es)"
        using other [OF iD] par es assms(5) by (cases "i = parent") simp_all
      have "\<forall>d \<in> set (if i = parent then es @ [dentry] else es). Q d" using olds news by simp
      then show ?thesis using eq unfolding Q_def by blast
    qed
  qed
qed

lemma resolution_of_At: "resolution_of path r = At i d p \<Longrightarrow> r = Resolve_Exists i d p"
  by (cases r) simp_all

lemma vfs_resolve_At:
  assumes "loaded_tree D st"
  shows "vfs_resolve devs path st = Inr (st, Resolve_Exists i d p) \<longleftrightarrow>
    walk st vfs_root_inode 0 vfs_root_inode (components path) (trailing_slash path) = At i d p"
  using vfs_resolve_walks [OF assms, where devs = devs and path = path]
  by (auto split: sum.splits dest!: resolution_of_At dest: sym)

text \<open>What \<^verbatim>\<open>vfs_create\<close> does in a ramfs directory that has no entry of the name.\<close>

lemma vfs_create_cases:
  assumes "loaded_tree D st" and "tree_allocated D st" and "parent \<in> D" and "i_type (inodes st parent) = INODE_DIRECTORY"
    and "entry_named st parent name = None" and "inode_ops parent st = Inr Ramfs_Ops"
    and "length name \<le> DENTRY_MAX_NAME_LENGTH" and "0 \<notin> set name"
  shows "case vfs_create parent name st of Inl e \<Rightarrow> e = Panic ''Out of physical memory''
    | Inr (st', inode) \<Rightarrow> inode \<notin> D \<and> i_type (inodes st' inode) = INODE_REGULAR_FILE \<and>
        loaded_tree (insert inode D) st' \<and> (\<exists>dentry. entry_added D parent name dentry inode st st')"
proof -
  from loaded_treeD [OF assms(1,3,4)] obtain ds where ds: "i_data (inodes st parent) = Dir_Data ds" by blast
  have ta: "slab_wf st" "heap_below st" "\<forall>a. length (d_name (dentries st a)) = Suc DENTRY_MAX_NAME_LENGTH"
    "\<forall>i \<in> D. i \<in> slab_live Inode_Slab st \<or> KERNEL_BASE \<le> i"
    using assms(2) by (simp_all add: tree_allocated_def)
  note prep = vfs_new_entry_cases [OF ta(1,2) assms(7,8) ta(3)]
  show ?thesis
  proof (cases "vfs_new_entry name st")
    case (Inl e)
    then show ?thesis using prep by (simp add: vfs_create_def)
  next
    case (Inr t)
    obtain st1 inode dentry where t: "t = (st1, inode, dentry)" by (cases t) auto
    have ep: "entry_prepared name st st1 inode dentry" using prep unfolding Inr t by simp
    then obtain chars where chars: "array_string chars = Inr name"
      "dentries st1 = (dentries st)(dentry := (dentries st dentry)\<lparr>d_name := chars\<rparr>)"
      and e: "slab_wf st1" "heap_below st1" "inode \<notin> slab_live Inode_Slab st" "inode < KERNEL_BASE" "inode \<noteq> 0"
        "dentry \<notin> slab_live Dentry_Slab st" "dentry < KERNEL_BASE" "inodes st1 = inodes st"
        "superblocks st1 = superblocks st" "exfat_inodes st1 = exfat_inodes st"
      unfolding entry_prepared_def by blast
    have inode: "inode \<notin> D" using ta(4) e(3,4) by auto
    then have ne: "inode \<noteq> parent" using assms(3) by blast
    have ops: "inode_ops parent st1 = Inr Ramfs_Ops" using assms(6) unfolding inode_ops_def e .
    have ds1: "i_data (inodes st1 parent) = Dir_Data ds" using ds by (simp add: e)
    note create = ramfs_create_file_cases [OF e(1,2) ne ds1, of dentry]
    show ?thesis
    proof (cases "ramfs_create_file_inode parent inode dentry st1")
      case (Inl x)
      then show ?thesis using Inr t create ops by (simp add: vfs_create_def fs_create_file_inode_def)
    next
      case r: (Inr u)
      obtain st' c where u: "u = (st', c)" by force
      from create [unfolded r u] obtain priv where c: "c = 0" "superblocks st' = superblocks st" "exfat_inodes st' = exfat_inodes st"
        and de: "dentries st' = (dentries st1)(dentry := (dentries st1 dentry)\<lparr>d_inode := inode, d_mounted_inode := 0\<rparr>)"
        and ino: "inodes st' = (inodes st)
           (inode := \<lparr>i_type = INODE_REGULAR_FILE, i_superblock = i_superblock (inodes st parent), i_private = priv, i_data = Dir_Data []\<rparr>,
            parent := (inodes st parent)\<lparr>i_data := Dir_Data (ds @ [dentry])\<rparr>)"
        by (auto simp: e)
      have de': "dentries st' = (dentries st)(dentry := \<lparr>d_name = chars, d_mounted_inode = 0, d_inode = inode\<rparr>)"
        unfolding de chars(2) by (cases "dentries st dentry") simp
      have sb: "i_superblock (inodes st parent) \<noteq> 0" "sb_ops (superblocks st (i_superblock (inodes st parent))) = Ramfs_Ops"
        using assms(6) by (simp_all add: inode_ops_def split: if_splits)
      have tree: "entry_added D parent name dentry inode st st'" "loaded_tree (insert inode D) st'"
        by (rule entry_added_tree [OF assms(1-4) ds assms(5) inode e(4) e(6) e(7) chars(1) de' ino c(2,3)];
            simp add: sb e(5))+
      have run: "vfs_create parent name st = Inr (st', inode)"
        using Inr t r u c(1) ops by (simp add: vfs_create_def fs_create_file_inode_def)
      have ty: "i_type (inodes st' inode) = INODE_REGULAR_FILE" using ino ne by simp
      show ?thesis unfolding run sum.case prod.case using inode ty tree by blast
    qed
  qed
qed

text \<open>
  C5: creating a file at a path that resolves to a missing name of a ramfs directory makes the path
  resolve to the new, fresh, regular file, keeps the tree well-formed, and every path that resolved to
  something still resolves to it. The only failure is the page allocator's panic.
\<close>

theorem vfs_create_resolves:
  assumes "loaded_tree D st" and "tree_allocated D st"
    and "vfs_resolve devs path st = Inr (st, Resolve_Doesnt_Exist d parent s n)"
    and "inode_ops parent st = Inr Ramfs_Ops" and "n \<le> DENTRY_MAX_NAME_LENGTH" and "0 \<notin> set path"
  shows "case vfs_create parent (take n (drop s path)) st of Inl e \<Rightarrow> e = Panic ''Out of physical memory''
    | Inr (st', inode) \<Rightarrow> inode \<notin> D \<and> i_type (inodes st' inode) = INODE_REGULAR_FILE \<and>
        loaded_tree (insert inode D) st' \<and>
        (\<exists>dentry. vfs_resolve devs path st' = Inr (st', Resolve_Exists inode dentry parent)) \<and>
        (\<forall>p i e q. vfs_resolve devs p st = Inr (st, Resolve_Exists i e q) \<longrightarrow>
           vfs_resolve devs p st' = Inr (st', Resolve_Exists i e q))"
proof -
  have root: "vfs_root_inode \<in> D" using assms(1) by (simp add: loaded_tree_def)
  have missing: "walk st vfs_root_inode 0 vfs_root_inode (components path) (trailing_slash path) =
      Missing d parent (take n (drop s path))"
    using vfs_resolve_walks [OF assms(1), where devs = devs and path = path] assms(3) by simp
  have name: "length (take n (drop s path)) \<le> DENTRY_MAX_NAME_LENGTH" "0 \<notin> set (take n (drop s path))"
    using assms(5,6) by (auto dest: in_set_takeD in_set_dropD)
  have resolves: "(\<exists>dentry. vfs_resolve devs path st' = Inr (st', Resolve_Exists inode dentry parent)) \<and>
      (\<forall>p i e q. vfs_resolve devs p st = Inr (st, Resolve_Exists i e q) \<longrightarrow>
         vfs_resolve devs p st' = Inr (st', Resolve_Exists i e q))"
    if "loaded_tree (insert inode D) st'" "entry_added D parent (take n (drop s path)) dentry inode st st'"
    for st' inode dentry
    unfolding vfs_resolve_At [OF that(1)] vfs_resolve_At [OF assms(1)]
    using walk_Missing_added [OF that(2) root missing] walk_At_mono [OF that(2) root] by blast
  from walk_Missing_dir [OF assms(1) root missing] vfs_create_cases [OF assms(1,2) _ _ _ assms(4) name]
  show ?thesis using resolves by (simp split: sum.splits prod.splits) blast
qed

text \<open>An empty root directory.\<close>

definition demo_root :: device_state where
  "demo_root = (demo_device Inode_Slab)
     \<lparr>inodes := (\<lambda>_. \<lparr>i_type = INODE_DIRECTORY, i_superblock = vfs_root_superblock, i_private = 0, i_data = Dir_Data []\<rparr>)\<rparr>"

lemma demo_root_facts:
  "loaded_tree {vfs_root_inode} demo_root" "tree_allocated {vfs_root_inode} demo_root"
  "vfs_resolve devs [97, 98] demo_root = Inr (demo_root, Resolve_Doesnt_Exist 0 vfs_root_inode 0 2)"
  "inode_ops vfs_root_inode demo_root = Inr Ramfs_Ops"
proof -
  show "loaded_tree {vfs_root_inode} demo_root" by (simp add: loaded_tree_def demo_root_def)
  have t: "slab_state.truncate demo_root = demo_slab Inode_Slab"
    by (simp add: demo_root_def demo_device_truncate [symmetric] slab_state.truncate_def)
  then have wf: "slab_wf demo_root" by (subst slab_wf_truncate) (simp add: demo_slab_wf)
  have "kmem_start demo_root = kmem_start demo_kmem" "kmem_total_pages demo_root = kmem_total_pages demo_kmem"
    using arg_cong [OF t, of kmem_start] arg_cong [OF t, of kmem_total_pages]
    by (simp_all add: slab_state.truncate_def demo_slab_def kmem_state.extend_def)
  then have "heap_below demo_root" by (simp add: heap_below_def demo_kmem_def)
  with wf show "tree_allocated {vfs_root_inode} demo_root"
    by (simp add: tree_allocated_def vfs_root_inode_def)
      (simp add: demo_root_def demo_device_def demo_tty_def demo_vfs_def vfs_state.defs tty_state.defs keyboard_state.defs
        device_state.defs paging_state.defs)
  show "vfs_resolve devs [97, 98] demo_root = Inr (demo_root, Resolve_Doesnt_Exist 0 vfs_root_inode 0 2)"
    by (simp add: vfs_resolve_def vfs_resolve_loop.simps [of devs "Suc (Suc 0)" "[97, 98]"] demo_root_def dir_entries_def)
  show "inode_ops vfs_root_inode demo_root = Inr Ramfs_Ops"
    by (simp add: inode_ops_def demo_root_def vfs_root_inode_def vfs_root_superblock_def demo_device_def demo_tty_def
        demo_vfs_def vfs_state.defs tty_state.defs keyboard_state.defs device_state.defs paging_state.defs)
qed

lemma vfs_resolve_walks_witness:
  "case vfs_resolve (\<lambda>_. zero_device_fops) [47, 97, 98, 47] demo_root of Inl e \<Rightarrow> False
    | Inr (st', r) \<Rightarrow> st' = demo_root \<and> resolution_of [47, 97, 98, 47] r =
        walk demo_root vfs_root_inode 0 vfs_root_inode (components [47, 97, 98, 47]) (trailing_slash [47, 97, 98, 47])"
  by (rule vfs_resolve_walks [OF demo_root_facts(1)])

lemma vfs_create_resolves_witness:
  "case vfs_create vfs_root_inode (take 2 (drop 0 [97, 98])) demo_root of Inl e \<Rightarrow> e = Panic ''Out of physical memory''
    | Inr (st', inode) \<Rightarrow> inode \<notin> {vfs_root_inode} \<and> i_type (inodes st' inode) = INODE_REGULAR_FILE \<and>
        loaded_tree (insert inode {vfs_root_inode}) st' \<and>
        (\<exists>dentry. vfs_resolve (\<lambda>_. zero_device_fops) [97, 98] st' = Inr (st', Resolve_Exists inode dentry vfs_root_inode)) \<and>
        (\<forall>p i e q. vfs_resolve (\<lambda>_. zero_device_fops) p demo_root = Inr (demo_root, Resolve_Exists i e q) \<longrightarrow>
           vfs_resolve (\<lambda>_. zero_device_fops) p st' = Inr (st', Resolve_Exists i e q))"
  by (rule vfs_create_resolves [OF demo_root_facts(1-4)]) simp_all

end
