(* ===== verification/VfsFiles.thy ===== *)
theory VfsFiles
  imports Resolve
begin

text \<open>
  Reading and writing through \<^verbatim>\<open>vfs_read\<close> and \<^verbatim>\<open>vfs_write\<close>: what is written to a file of ramfs is read
  back through any other open file of the inode; on exFAT the offset advances twice; and what creating
  a directory on exFAT does.
\<close>

section \<open>ramfs\<close>

lemma ramfs_file_wf_upd_file [simp]: "ramfs_file_wf (upd_file filp g st) ino = ramfs_file_wf st ino"
proof -
  have tr: "slab_state.truncate (upd_file filp g st) = slab_state.truncate st" by simp
  have "slab_wf (upd_file filp g st) = slab_wf st" by (subst (1 2) slab_wf_truncate) (simp only: tr)
  moreover have "slab_live sid (upd_file filp g st) = slab_live sid st" for sid
    by (subst (1 2) slab_live_truncate) (simp only: tr)
  ultimately show ?thesis by (simp add: ramfs_file_wf_def) (simp add: upd_file_def)
qed

lemma ramfs_content_upd_file [simp]: "ramfs_content (upd_file filp g st) ino = ramfs_content st ino"
  by (simp add: ramfs_content_def upd_file_def)

lemma inode_ops_same:
  "inodes st' = inodes st \<Longrightarrow> superblocks st' = superblocks st \<Longrightarrow> inode_ops i st' = inode_ops i st"
  by (simp add: inode_ops_def)

definition regular_on :: "fs_ops \<Rightarrow> u64 \<Rightarrow> 'z vfs_state_scheme \<Rightarrow> bool" where
  "regular_on ops filp st \<longleftrightarrow> filp \<noteq> 0 \<and> i_type (inodes st (f_inode (filps st filp))) = INODE_REGULAR_FILE \<and>
     inode_ops (f_inode (filps st filp)) st = Inr ops"

lemma regular_onD:
  assumes "regular_on ops filp st"
  shows "filp_inode filp st = Inr (inodes st (f_inode (filps st filp)))"
    "i_type (inodes st (f_inode (filps st filp))) = INODE_REGULAR_FILE"
    "i_superblock (inodes st (f_inode (filps st filp))) \<noteq> 0"
    "inode_ops (f_inode (filps st filp)) st = Inr ops"
  using assms by (auto simp: regular_on_def filp_inode_def inode_ops_def split: if_splits)

lemma vfs_write_regular:
  assumes "regular_on ops filp st"
  shows "vfs_write devs filp buffer len st =
    res_bind (fs_write devs filp buffer len st) (\<lambda>(st1, n).
      Inr (if n \<noteq> -1 then upd_file filp (\<lambda>f. f\<lparr>f_offset := f_offset f + n\<rparr>) st1 else st1, n))"
  using regular_onD [OF assms] by (simp add: vfs_write_def)

lemma vfs_read_regular:
  assumes "regular_on ops filp st"
  shows "vfs_read devs filp buffer len st = fs_read devs filp buffer len st"
  using regular_onD [OF assms] by (simp add: vfs_read_def)

lemma vfs_write_ramfs:
  assumes "regular_on Ramfs_Ops filp st" and "ramfs_file_wf st (ramfs_ino st filp)" and "len \<noteq> 0" and "len \<noteq> -1"
    and "unat (f_offset (filps st filp)) \<le> unat (ri_size (ramfs_inodes st (ramfs_ino st filp)))"
    and "unat (f_offset (filps st filp)) + unat len + 128 < 2 ^ 64" and "unat len \<le> length buffer"
  shows "case vfs_write devs filp buffer len st of Inl e \<Rightarrow> e = Panic ''Out of physical memory''
    | Inr (st', r) \<Rightarrow> r = len \<and> (\<exists>st1. st' = upd_file filp (\<lambda>f. f\<lparr>f_offset := f_offset f + len\<rparr>) st1 \<and>
        resize_frame (ramfs_ino st filp) st st1 \<and> ramfs_file_wf st1 (ramfs_ino st filp) \<and>
        ramfs_content st1 (ramfs_ino st filp) = take (unat (f_offset (filps st filp))) (ramfs_content st (ramfs_ino st filp)) @
          take (unat len) buffer @ drop (unat (f_offset (filps st filp)) + unat len) (ramfs_content st (ramfs_ino st filp)))"
proof -
  have wr: "vfs_write devs filp buffer len st = res_bind (ramfs_write filp buffer len st) (\<lambda>(st1, n).
      Inr (if n \<noteq> -1 then upd_file filp (\<lambda>f. f\<lparr>f_offset := f_offset f + n\<rparr>) st1 else st1, n))"
    using regular_onD(4) [OF assms(1)] by (simp add: vfs_write_regular [OF assms(1)] fs_write_def)
  show ?thesis unfolding wr using ramfs_write_cases [OF assms(2,3,5-7)] assms(4)
    by (cases "ramfs_write filp buffer len st") auto
qed

lemma vfs_read_ramfs:
  assumes "regular_on Ramfs_Ops filp st" and "ramfs_file_wf st ino" and "ramfs_ino st filp = ino"
    and "unat (f_offset (filps st filp)) + unat len \<le> length (ramfs_content st ino)"
    and "unat (f_offset (filps st filp)) + unat len < 2 ^ 64" and "unat len \<le> length buffer"
  shows "vfs_read devs filp buffer len st = Inr (upd_file filp (\<lambda>f. f\<lparr>f_offset := f_offset f + len\<rparr>) st,
    take (unat len) (drop (unat (f_offset (filps st filp))) (ramfs_content st ino)) @ drop (unat len) buffer, len)"
proof -
  have size: "unat (ri_size (ramfs_inodes st ino)) = length (ramfs_content st ino)"
    using ramfs_content_length [OF assms(2)] by simp
  have n: "min (unat len) (length (ramfs_content st ino) - unat (f_offset (filps st filp))) = unat len"
    using assms(4) by simp
  have read: "vfs_read devs filp buffer len st = ramfs_read filp buffer len st"
    using regular_onD(4) [OF assms(1)] by (simp add: vfs_read_regular [OF assms(1)] fs_read_def)
  have "ramfs_file_wf st (ramfs_ino st filp)" unfolding assms(3) by (rule assms(2))
  moreover have "unat (f_offset (filps st filp)) \<le> unat (ri_size (ramfs_inodes st (ramfs_ino st filp)))"
    unfolding assms(3) size using assms(4) by simp
  ultimately show ?thesis
    unfolding read using ramfs_read_ok [OF _ _ assms(5,6)] unfolding assms(3) n by simp
qed

text \<open>The file object written through is not the one read through; the other one stands where it stood.\<close>

lemma other_file:
  assumes "resize_frame ino st st1" and "filp2 \<noteq> filp" and "st' = upd_file filp g st1"
  shows "filps st' filp2 = filps st filp2" "filps st' filp = g (filps st filp)"
    "regular_on ops filp2 st' = regular_on ops filp2 st"
    "ramfs_ino st' filp2 = ramfs_ino st filp2"
proof -
  have same: "inodes st' = inodes st" "superblocks st' = superblocks st" "filps st1 = filps st"
    using assms(1,3) by (simp_all add: resize_frame_def upd_file_def)
  show f: "filps st' filp2 = filps st filp2" and "filps st' filp = g (filps st filp)"
    using assms(2,3) by (simp_all add: upd_file_def same(3))
  show "regular_on ops filp2 st' = regular_on ops filp2 st"
    unfolding regular_on_def f same(1) inode_ops_same [OF same(1,2)] ..
  show "ramfs_ino st' filp2 = ramfs_ino st filp2" by (simp add: f same(1))
qed

text \<open>
  C6: bytes written to a ramfs file through one open file are read back through another one that stands
  at the offset of the write; the write reports its length and moves the offset of its own file object.
\<close>

theorem vfs_write_read:
  assumes "regular_on Ramfs_Ops filp st" and "regular_on Ramfs_Ops filp2 st" and "filp2 \<noteq> filp"
    and "f_inode (filps st filp2) = f_inode (filps st filp)" and "f_offset (filps st filp2) = f_offset (filps st filp)"
    and "ramfs_file_wf st (ramfs_ino st filp)" and "len \<noteq> 0" and "len \<noteq> -1"
    and "unat (f_offset (filps st filp)) \<le> unat (ri_size (ramfs_inodes st (ramfs_ino st filp)))"
    and "unat (f_offset (filps st filp)) + unat len + 128 < 2 ^ 64"
    and "unat len \<le> length buffer" and "unat len \<le> length buffer2"
  shows "case vfs_write devs filp buffer len st of Inl e \<Rightarrow> e = Panic ''Out of physical memory''
    | Inr (st', r) \<Rightarrow> r = len \<and> f_offset (filps st' filp) = f_offset (filps st filp) + len \<and>
        (\<exists>st''. vfs_read devs filp2 buffer2 len st' =
           Inr (st'', take (unat len) buffer @ drop (unat len) buffer2, len))"
proof (cases "vfs_write devs filp buffer len st")
  case (Inl e)
  then show ?thesis using vfs_write_ramfs [OF assms(1,6-11), where devs = devs] by simp
next
  case (Inr p)
  define off where "off = unat (f_offset (filps st filp))"
  define ino where "ino = ramfs_ino st filp"
  obtain st1 where p: "p = (upd_file filp (\<lambda>f. f\<lparr>f_offset := f_offset f + len\<rparr>) st1, len)"
    and s: "resize_frame ino st st1" "ramfs_file_wf st1 ino" "ramfs_content st1 ino =
      take off (ramfs_content st ino) @ take (unat len) buffer @ drop (off + unat len) (ramfs_content st ino)"
    using vfs_write_ramfs [OF assms(1,6-11), where devs = devs] unfolding Inr off_def ino_def by auto
  define st' where "st' = upd_file filp (\<lambda>f. f\<lparr>f_offset := f_offset f + len\<rparr>) st1"
  note other = other_file [OF s(1) assms(3) st'_def]
  have off: "unat (f_offset (filps st' filp2)) = off" by (simp add: other assms(5) off_def)
  have len: "length (take off (ramfs_content st ino)) = off"
    using assms(9) ramfs_content_length [OF assms(6)] by (simp add: off_def ino_def)
  have c: "ramfs_content st' ino = ramfs_content st1 ino" "ramfs_file_wf st' ino" using s(2) by (simp_all add: st'_def)
  have "vfs_read devs filp2 buffer2 len st' = Inr (upd_file filp2 (\<lambda>f. f\<lparr>f_offset := f_offset f + len\<rparr>) st',
      take (unat len) (drop off (ramfs_content st' ino)) @ drop (unat len) buffer2, len)"
  proof (rule vfs_read_ramfs [where ino = ino and filp = filp2 and st = st', unfolded off])
    show "regular_on Ramfs_Ops filp2 st'" unfolding other by (rule assms(2))
    show "ramfs_ino st' filp2 = ino" unfolding other(4) using assms(4) by (simp add: ino_def)
    show "off + unat len \<le> length (ramfs_content st' ino)" unfolding c s(3) using len assms(11) by simp
    show "off + unat len < 2 ^ 64" using assms(10) by (simp add: off_def)
  qed (fact c assms)+
  moreover have "take (unat len) (drop off (ramfs_content st' ino)) = take (unat len) buffer"
    unfolding c s(3) using len assms(11) by simp
  ultimately show ?thesis unfolding Inr p using other(2) by (simp flip: st'_def)
qed

definition demo_files :: device_state where
  "demo_files = (demo_device Ramfs_Cluster_Slab)
     \<lparr>inodes := (\<lambda>_. \<lparr>i_type = INODE_REGULAR_FILE, i_superblock = 8, i_private = 8, i_data = Dir_Data []\<rparr>),
      superblocks := (\<lambda>_. \<lparr>sb_private = 0, sb_ops = Ramfs_Ops, sb_device_fops = Null_Fops, sb_device = 0\<rparr>),
      filps := (\<lambda>_. \<lparr>f_fd = 0, f_inode = 8, f_offset = 0\<rparr>),
      ramfs_inodes := (\<lambda>_. \<lparr>ri_clusters = [], ri_size = 0\<rparr>)\<rparr>"

lemma demo_files_facts:
  "a \<noteq> 0 \<Longrightarrow> regular_on Ramfs_Ops a demo_files" "f_offset (filps demo_files a) = 0" "f_inode (filps demo_files a) = 8"
  "ramfs_file_wf demo_files ino"
proof -
  have "slab_state.truncate demo_files = demo_slab Ramfs_Cluster_Slab"
    by (simp add: demo_files_def demo_device_truncate [symmetric] slab_state.truncate_def)
  then have "slab_wf demo_files" by (subst slab_wf_truncate) (simp add: demo_slab_wf)
  then show "ramfs_file_wf demo_files ino" by (simp add: ramfs_file_wf_def clusters_ok_def) (simp add: demo_files_def)
qed (simp_all add: demo_files_def regular_on_def inode_ops_def)

lemma vfs_write_read_witness:
  "case vfs_write (\<lambda>_. zero_device_fops) 16 [1, 2, 3] 3 demo_files of Inl e \<Rightarrow> e = Panic ''Out of physical memory''
    | Inr (st', r) \<Rightarrow> r = 3 \<and> f_offset (filps st' 16) = f_offset (filps demo_files 16) + 3 \<and>
        (\<exists>st''. vfs_read (\<lambda>_. zero_device_fops) 24 [9, 9, 9, 9] 3 st' =
           Inr (st'', take (unat (3 :: u64)) [1, 2, 3] @ drop (unat (3 :: u64)) [9, 9, 9, 9], 3))"
  by (rule vfs_write_read) (simp_all add: demo_files_facts)

section \<open>exFAT\<close>

text \<open>A driver that writes everything it is given and leaves the file system's data alone.\<close>

definition writes_all :: "'z device_state_scheme file_operations \<Rightarrow> u64 \<Rightarrow> bool" where
  "writes_all fops dev \<longleftrightarrow> (\<forall>buffer offset len st. \<exists>st'. fo_write fops dev buffer offset len st = Inr (st', len) \<and>
     fs_view st' = fs_view st)"

lemma exfat_write_loop_offset:
  assumes "writes_all (devs (sb_device_fops (superblocks st (i_superblock (inodes st (f_inode (filps st filp)))))))
      (sb_device (superblocks st (i_superblock (inodes st (f_inode (filps st filp))))))"
    and "file_length (inodes st (f_inode (filps st filp))) = Inr flen"
  shows "\<exists>st' r. exfat_write_loop devs filp len cs k buffer st = Inr (st', r) \<and>
    f_offset (filps st' filp) = f_offset (filps st filp) + (r - k)"
  using assms
proof (induction cs arbitrary: k st)
  case Nil
  then show ?case by simp
next
  case (Cons c cs)
  let ?f = "filps st filp" and ?c = "exfat_clusters st c"
  let ?inode = "inodes st (f_inode ?f)"
  let ?sb = "superblocks st (i_superblock ?inode)"
  let ?p = "exfat_page_offset (f_offset ?f) (ec_byte_offset ?c)"
  let ?n = "exfat_chunk len k ?p flen (f_offset ?f)"
  show ?case
  proof (cases "f_offset ?f < ucast (ec_byte_offset ?c)")
    case True
    then show ?thesis using Cons by simp
  next
    case False
    show ?thesis
    proof (cases "?n = 0")
      case True
      then show ?thesis using False Cons.prems(2) by (simp add: Let_def)
    next
      case n: False
      obtain st1 where st1: "fo_write (devs (sb_device_fops ?sb)) (sb_device ?sb) (drop (unat k) buffer)
          (ec_device_offset ?c + ?p) ?n st = Inr (st1, ?n)" "fs_view st1 = fs_view st"
        using Cons.prems(1) unfolding writes_all_def by blast
      note v = fs_viewD [OF st1(2)]
      let ?st2 = "upd_file filp (\<lambda>f. f\<lparr>f_offset := f_offset f + ?n\<rparr>) st1"
      have f2: "filps ?st2 filp = ?f\<lparr>f_offset := f_offset ?f + ?n\<rparr>" "inodes ?st2 = inodes st" "superblocks ?st2 = superblocks st"
        by (simp_all add: upd_file_def v)
      have "writes_all (devs (sb_device_fops (superblocks ?st2 (i_superblock (inodes ?st2 (f_inode (filps ?st2 filp)))))))
          (sb_device (superblocks ?st2 (i_superblock (inodes ?st2 (f_inode (filps ?st2 filp))))))"
        "file_length (inodes ?st2 (f_inode (filps ?st2 filp))) = Inr flen"
        using Cons.prems by (simp_all add: f2)
      from Cons.IH [OF this, of "k + ?n"] obtain st' r
        where r: "exfat_write_loop devs filp len cs (k + ?n) buffer ?st2 = Inr (st', r)"
          "f_offset (filps st' filp) = f_offset (filps ?st2 filp) + (r - (k + ?n))" by blast
      have "exfat_write_loop devs filp len (c # cs) k buffer st = Inr (st', r)"
        using False n Cons.prems(2) st1(1) r(1) by (simp add: Let_def)
      moreover have "f_offset (filps st' filp) = f_offset ?f + (r - k)" using r(2) by (simp add: f2)
      ultimately show ?thesis by blast
    qed
  qed
qed

text \<open>
  Writing \<open>n\<close> bytes to a file on exFAT moves the file's offset by \<open>2 * n\<close>: \<^verbatim>\<open>exfat_write\<close> advances it,
  and \<^verbatim>\<open>vfs_write\<close> advances it again.
\<close>

lemma vfs_write_exfat_offset:
  assumes "regular_on Exfat_Ops filp st" and "file_length (inodes st (f_inode (filps st filp))) = Inr flen"
    and "writes_all (devs (sb_device_fops (superblocks st (i_superblock (inodes st (f_inode (filps st filp)))))))
      (sb_device (superblocks st (i_superblock (inodes st (f_inode (filps st filp))))))"
  shows "case vfs_write devs filp buffer len st of Inl e \<Rightarrow> False
    | Inr (st', n) \<Rightarrow> n \<noteq> -1 \<longrightarrow> f_offset (filps st' filp) = f_offset (filps st filp) + 2 * n"
proof -
  from exfat_write_loop_offset [where devs = devs and st = st and filp = filp, OF assms(3,2), of len "ei_clusters (exfat_inodes st (i_private (inodes st (f_inode (filps st filp)))))" 0 buffer] obtain st1 r
    where r: "exfat_write devs filp buffer len st = Inr (st1, r)" "f_offset (filps st1 filp) = f_offset (filps st filp) + r"
    unfolding exfat_write_def by force
  then show ?thesis
    using regular_onD(4) [OF assms(1)]
    by (simp add: vfs_write_regular [OF assms(1)] fs_write_def upd_file_def)
qed

definition demo_exfat_file :: device_state where
  "demo_exfat_file = demo_files
     \<lparr>superblocks := (\<lambda>_. \<lparr>sb_private = 0, sb_ops = Exfat_Ops, sb_device_fops = Zero_Fops, sb_device = 0\<rparr>),
      inodes := (\<lambda>_. \<lparr>i_type = INODE_REGULAR_FILE, i_superblock = 8, i_private = 8, i_data = File_Data 100\<rparr>)\<rparr>"

lemma vfs_write_exfat_offset_witness:
  "case vfs_write (\<lambda>_. zero_device_fops) 16 [1, 2, 3] 3 demo_exfat_file of Inl e \<Rightarrow> False
    | Inr (st', n) \<Rightarrow> n \<noteq> -1 \<longrightarrow> f_offset (filps st' 16) = f_offset (filps demo_exfat_file 16) + 2 * n"
  by (rule vfs_write_exfat_offset [where flen = 100])
    (simp_all add: demo_exfat_file_def demo_files_def regular_on_def inode_ops_def file_length_def writes_all_def
      zero_device_fops_def devzero_write_def)

text \<open>
  Creating a directory on exFAT is not implemented, and \<^verbatim>\<open>vfs_mkdir\<close> drops the error: it returns a fresh
  inode although no inode, and so no directory, has changed.
\<close>

lemma vfs_mkdir_exfat:
  assumes "slab_wf st" and "heap_below st" and "inode_ops parent st = Inr Exfat_Ops"
    and "length name \<le> DENTRY_MAX_NAME_LENGTH" and "0 \<notin> set name"
    and "\<forall>a. length (d_name (dentries st a)) = Suc DENTRY_MAX_NAME_LENGTH"
  shows "case vfs_mkdir parent name st of Inl e \<Rightarrow> e = Panic ''Out of physical memory''
    | Inr (st', inode) \<Rightarrow> inode \<noteq> 0 \<and> inode \<notin> slab_live Inode_Slab st \<and> inode \<in> slab_live Inode_Slab st' \<and>
        inodes st' = inodes st"
proof -
  note prep = vfs_new_entry_cases [OF assms(1,2,4,5,6)]
  show ?thesis
  proof (cases "vfs_new_entry name st")
    case (Inl e)
    then show ?thesis using prep by (simp add: vfs_mkdir_def)
  next
    case (Inr t)
    obtain st1 inode dentry where t: "t = (st1, inode, dentry)" by (cases t) auto
    have e: "entry_prepared name st st1 inode dentry" using prep unfolding Inr t by simp
    then have same: "inodes st1 = inodes st" "superblocks st1 = superblocks st" by (simp_all add: entry_prepared_def)
    have "inode_ops parent st1 = Inr Exfat_Ops" using assms(3) unfolding inode_ops_same [OF same] .
    then have "vfs_mkdir parent name st = Inr (st1, inode)"
      using Inr t by (simp add: vfs_mkdir_def fs_create_dir_inode_def exfat_create_dir_inode_def)
    then show ?thesis using e by (simp add: entry_prepared_def)
  qed
qed

lemma vfs_mkdir_exfat_witness:
  "case vfs_mkdir vfs_root_inode [97] (demo_root\<lparr>superblocks := (\<lambda>_. \<lparr>sb_private = 0, sb_ops = Exfat_Ops,
       sb_device_fops = Zero_Fops, sb_device = 0\<rparr>)\<rparr>) of Inl e \<Rightarrow> e = Panic ''Out of physical memory''
    | Inr (st', inode) \<Rightarrow> inode \<noteq> 0 \<and>
        inode \<notin> slab_live Inode_Slab (demo_root\<lparr>superblocks := (\<lambda>_. \<lparr>sb_private = 0, sb_ops = Exfat_Ops,
          sb_device_fops = Zero_Fops, sb_device = 0\<rparr>)\<rparr>) \<and>
        inode \<in> slab_live Inode_Slab st' \<and> inodes st' = inodes (demo_root\<lparr>superblocks := (\<lambda>_. \<lparr>sb_private = 0, sb_ops = Exfat_Ops,
          sb_device_fops = Zero_Fops, sb_device = 0\<rparr>)\<rparr>)"
proof (rule vfs_mkdir_exfat)
  let ?st = "demo_root\<lparr>superblocks := (\<lambda>_. \<lparr>sb_private = 0, sb_ops = Exfat_Ops, sb_device_fops = Zero_Fops, sb_device = 0\<rparr>)\<rparr>"
  note d = demo_root_facts(2) [unfolded tree_allocated_def]
  have tr: "slab_state.truncate ?st = slab_state.truncate demo_root" by (simp add: slab_state.truncate_def)
  show "slab_wf ?st" using d by (subst slab_wf_truncate) (simp only: tr slab_wf_truncate [symmetric])
  show "heap_below ?st" using d by (simp add: heap_below_def)
  show "\<forall>a. length (d_name (dentries ?st a)) = Suc DENTRY_MAX_NAME_LENGTH" using d by simp
  show "inode_ops vfs_root_inode ?st = Inr Exfat_Ops"
    by (simp add: inode_ops_def demo_root_def vfs_root_inode_def vfs_root_superblock_def)
qed simp_all

end
