(* ===== verification/Tasks.thy ===== *)
theory Tasks
  imports Vfs
begin

text \<open>
  \<^verbatim>\<open>kernel/src/kernel/scheduler.c\<close>, \<^verbatim>\<open>scheduler.h\<close> and \<^verbatim>\<open>scheduler.s\<close>: tasks, their kernel memory and the
  choice of the next task. The state of the whole kernel, \<open>kernel_state\<close>, extends the file systems'
  state by the tasks. \<open>stack_words\<close> is the memory of the kernel stacks as 64-bit words. The lower half of
  the address space is reached through the page tables that \<^verbatim>\<open>cr3\<close> names (\<open>user_addr\<close>).
\<close>

section \<open>State\<close>

definition TS_RUNNING :: u8 where "TS_RUNNING = 0x91"
definition TS_WAITING :: u8 where "TS_WAITING = 0x92"
definition TS_ZOMBIE :: u8 where "TS_ZOMBIE = 0x93"

abbreviation TASK_NAME_MAXLEN :: nat where "TASK_NAME_MAXLEN \<equiv> 256"
abbreviation KERNEL_STACK_PAGES :: nat where "KERNEL_STACK_PAGES \<equiv> 2"

record task_struct =
  pid :: u32
  task_state :: u8
  exit_code :: u8
  kernel_rsp :: u64
  kernel_entry_rsp :: u64
  kernel_stack_pages :: u64
  pml4_page :: u64
  task_name :: "u8 list"
  memory_ranges_lh :: "u64 list"
  files_lh :: "u64 list"

record userspace_memory_range =
  mr_start :: u64
  mr_end :: u64
  mr_type :: u8

record tss64 =
  rsp0_low :: u32
  rsp0_high :: u32
  iomap :: u16

record kernel_state = fs_state +
  tasks :: "u64 \<Rightarrow> task_struct"
  memory_ranges :: "u64 \<Rightarrow> userspace_memory_range"
  task_struct_lh :: "u64 list"
  current_task_ts :: u64
  pid_counter :: u32
  timer_ticks :: u64
  tss :: tss64
  stack_words :: "u64 \<Rightarrow> u64"

definition upd_task :: "u64 \<Rightarrow> (task_struct \<Rightarrow> task_struct) \<Rightarrow> 'z kernel_state_scheme \<Rightarrow> 'z kernel_state_scheme" where
  "upd_task a f st = st\<lparr>tasks := (tasks st)(a := f (tasks st a))\<rparr>"

definition upd_range ::
  "u64 \<Rightarrow> (userspace_memory_range \<Rightarrow> userspace_memory_range) \<Rightarrow> 'z kernel_state_scheme \<Rightarrow> 'z kernel_state_scheme" where
  "upd_range a f st = st\<lparr>memory_ranges := (memory_ranges st)(a := f (memory_ranges st a))\<rparr>"

definition current :: "'z kernel_state_scheme \<Rightarrow> task_struct" where
  "current st = tasks st (current_task_ts st)"

section \<open>Scheduling\<close>

definition scheduler_init_1 :: "'z kernel_state_scheme \<Rightarrow> 'z kernel_state_scheme" where
  "scheduler_init_1 st = slab_allocator_init Task_Slab (st\<lparr>task_struct_lh := []\<rparr>)"

definition set_tss_for :: "u64 \<Rightarrow> 'z kernel_state_scheme \<Rightarrow> 'z kernel_state_scheme" where
  "set_tss_for process st =
     st\<lparr>tss := (tss st)\<lparr>rsp0_low := ucast (kernel_entry_rsp (tasks st process)),
                        rsp0_high := ucast (drop_bit 32 (kernel_entry_rsp (tasks st process)))\<rparr>\<rparr>"

definition load_cr3_from :: "u64 \<Rightarrow> 'z kernel_state_scheme \<Rightarrow> 'z kernel_state_scheme" where
  "load_cr3_from process st = st\<lparr>cr3_reg := pml4_page (tasks st process) - hhdm_offset st\<rparr>"

text \<open>A task that is not in the list has no successor in it.\<close>

definition next_task_struct :: "u64 \<Rightarrow> 'z kernel_state_scheme \<Rightarrow> u64 res" where
  "next_task_struct ts st =
     (case dropWhile (\<lambda>t. t \<noteq> ts) (task_struct_lh st) of
        [] \<Rightarrow> Inl Invalid_Access
      | t # [] \<Rightarrow> Inr (hd (task_struct_lh st))
      | t # u # us \<Rightarrow> Inr u)"

text \<open>
  The search of \<^verbatim>\<open>task_yield\<close>. When it comes back to the current task, the processor halts until the next
  interrupt: \<open>ints\<close> is what the interrupts to come do to the state (no further one: it stays halted).
  The fuel counts the tasks looked at.
\<close>

fun yield_loop ::
  "nat \<Rightarrow> ('z kernel_state_scheme \<Rightarrow> 'z kernel_state_scheme res) list \<Rightarrow> u64 \<Rightarrow> 'z kernel_state_scheme \<Rightarrow>
   ('z kernel_state_scheme \<times> u64) res" where
  "yield_loop 0 ints t st = Inl Diverges"
| "yield_loop (Suc fuel) ints t st =
     res_bind (next_task_struct t st) (\<lambda>t1.
     res_bind (if t1 = current_task_ts st
               then (case ints of [] \<Rightarrow> Inl Halted
                     | i # is \<Rightarrow> res_bind (i st) (\<lambda>st1. Inr (is, st1)))
               else Inr (ints, st)) (\<lambda>(ints1, st1).
       if task_state (tasks st1 t1) = TS_RUNNING then Inr (st1, t1)
       else yield_loop fuel ints1 t1 st1))"

text \<open>
  \<^verbatim>\<open>switch_to_task\<close> in assembler: \<open>rsp\<close> is the stack pointer after the callee-saved registers have been
  pushed. The new task continues where its own call of \<^verbatim>\<open>switch_to_task\<close> was made.
\<close>

definition switch_to_task :: "u64 \<Rightarrow> u64 \<Rightarrow> 'z kernel_state_scheme \<Rightarrow> 'z kernel_state_scheme" where
  "switch_to_task new_task rsp st =
     set_tss_for new_task (load_cr3_from new_task
       ((upd_task (current_task_ts st) (\<lambda>t. t\<lparr>kernel_rsp := rsp\<rparr>) st)\<lparr>current_task_ts := new_task\<rparr>))"

definition task_yield ::
  "nat \<Rightarrow> ('z kernel_state_scheme \<Rightarrow> 'z kernel_state_scheme res) list \<Rightarrow> u64 \<Rightarrow> 'z kernel_state_scheme \<Rightarrow>
   'z kernel_state_scheme res" where
  "task_yield fuel ints rsp st =
     res_bind (yield_loop fuel ints (current_task_ts st) st) (\<lambda>(st1, t). Inr (switch_to_task t rsp st1))"

definition task_struct_find :: "u32 \<Rightarrow> 'z kernel_state_scheme \<Rightarrow> u64" where
  "task_struct_find p st = (case find (\<lambda>t. pid (tasks st t) = p) (task_struct_lh st) of Some t \<Rightarrow> t | None \<Rightarrow> 0)"

section \<open>Kernel memory of a task\<close>

definition copy_entries :: "u64 \<Rightarrow> u64 \<Rightarrow> u64 list \<Rightarrow> (u64 \<Rightarrow> u64) \<Rightarrow> u64 \<Rightarrow> u64" where
  "copy_entries new old is m = foldl (\<lambda>m i. m(entry_addr new i := m (entry_addr old i))) m is"

definition setup_kernelspace_memory :: "u64 \<Rightarrow> 'z kernel_state_scheme \<Rightarrow> 'z kernel_state_scheme res" where
  "setup_kernelspace_memory task st =
     res_bind (kpage_alloc KERNEL_STACK_PAGES st) (\<lambda>(st1, pages).
     let st2 = upd_task task (\<lambda>t. t\<lparr>kernel_stack_pages := pages,
                 kernel_entry_rsp := pages + PAGE_SIZE * of_nat KERNEL_STACK_PAGES\<rparr>) st1;
         old_pml4_entries = cr3_reg st2 + hhdm_offset st2
     in res_bind (kpage_alloc 1 st2) (\<lambda>(st3, new_pml4_entries).
        let st4 = st3\<lparr>pt_mem := copy_entries new_pml4_entries old_pml4_entries (map of_nat [256..<512])
                                   (zero_page new_pml4_entries (pt_mem st3))\<rparr>
        in Inr (upd_task task (\<lambda>t. t\<lparr>pml4_page := new_pml4_entries\<rparr>) st4)))"

definition free_kernelspace_memory :: "u64 \<Rightarrow> 'z kernel_state_scheme \<Rightarrow> 'z kernel_state_scheme res" where
  "free_kernelspace_memory task st =
     res_bind (kpage_free (pml4_page (tasks st task)) 1 st) (\<lambda>st1.
       kpage_free (kernel_stack_pages (tasks st1 task)) KERNEL_STACK_PAGES st1)"

definition free_task :: "u64 \<Rightarrow> 'z kernel_state_scheme \<Rightarrow> 'z kernel_state_scheme res" where
  "free_task task st =
     res_bind (res_fold (slab_free Memory_Range_Slab) (memory_ranges_lh (tasks st task)) st) (\<lambda>st1.
       slab_free Task_Slab task (st1\<lparr>task_struct_lh := remove1 task (task_struct_lh st1)\<rparr>))"

section \<open>User memory\<close>

text \<open>
  An access of the kernel to an address of the lower half goes through the active page tables; without
  a mapping it faults. The upper half (the kernel itself) is not reached this way in the model.
\<close>

definition USER_TOP :: u64 where "USER_TOP = 0x0000800000000000"

definition user_addr :: "u64 \<Rightarrow> 'z paging_state_scheme \<Rightarrow> u64 res" where
  "user_addr v st =
     (if v \<ge> USER_TOP then Inl Invalid_Access
      else case translate (cr3_reg st + hhdm_offset st) v st of
             Some frame \<Rightarrow> Inr (frame + hhdm_offset st + (v AND PAGE_OFFSET_MASK))
           | None \<Rightarrow> Inl Invalid_Access)"

definition user_byte :: "u64 \<Rightarrow> 'z paging_state_scheme \<Rightarrow> u8 res" where
  "user_byte v st = res_bind (user_addr v st) (\<lambda>a. Inr (frame_bytes st a))"

fun user_load :: "u64 \<Rightarrow> nat \<Rightarrow> 'z paging_state_scheme \<Rightarrow> u8 list res" where
  "user_load v 0 st = Inr []"
| "user_load v (Suc n) st =
     res_bind (user_byte v st) (\<lambda>b. res_bind (user_load (v + 1) n st) (\<lambda>bs. Inr (b # bs)))"

fun user_store :: "u64 \<Rightarrow> u8 list \<Rightarrow> 'z paging_state_scheme \<Rightarrow> 'z paging_state_scheme res" where
  "user_store v [] st = Inr st"
| "user_store v (b # bs) st =
     res_bind (user_addr v st) (\<lambda>a. user_store (v + 1) bs (st\<lparr>frame_bytes := (frame_bytes st)(a := b)\<rparr>))"

text \<open>The part of a buffer that is mapped: an access behind it is one outside the list.\<close>

fun user_window :: "u64 \<Rightarrow> nat \<Rightarrow> 'z paging_state_scheme \<Rightarrow> u8 list" where
  "user_window v 0 st = []"
| "user_window v (Suc n) st = (case user_byte v st of Inl e \<Rightarrow> [] | Inr b \<Rightarrow> b # user_window (v + 1) n st)"

definition user_word :: "u64 \<Rightarrow> 'z paging_state_scheme \<Rightarrow> u64 res" where
  "user_word v st = res_bind (user_load v 8 st) (\<lambda>bs. Inr (of_nat (le_nat bs)))"

text \<open>A C string in user memory, which ends before the end of the lower half or faults.\<close>

function user_string :: "u64 \<Rightarrow> 'z paging_state_scheme \<Rightarrow> u8 list res" where
  "user_string v st =
     (if v \<ge> USER_TOP then Inl Invalid_Access
      else res_bind (user_byte v st) (\<lambda>b.
             if b = 0 then Inr [] else res_bind (user_string (v + 1) st) (\<lambda>bs. Inr (b # bs))))"
  by pat_completeness auto
termination
proof (relation "measure (\<lambda>(v, st). unat (USER_TOP - v))", goal_cases)
  case 1
  show ?case by simp
next
  case (2 v st b)
  then have "v < USER_TOP" by simp
  then show ?case using word_succ_measure [of v USER_TOP] by simp
qed

declare user_string.simps [simp del]

end
