(* ===== verification/Userspace.thy ===== *)
theory Userspace
  imports Tasks
begin

text \<open>
  \<^verbatim>\<open>kernel/src/mm/userspace.c\<close> and \<^verbatim>\<open>fs/elf.h\<close>: the memory of a user process. A process has memory
  ranges; mapping them allocates a zeroed frame per page, and freeing walks the lower half of the page
  tables. \<^verbatim>\<open>load_elf64\<close> creates the ranges of a program and fills them from its file.
\<close>

section \<open>Mapping\<close>

definition USERSPACE_MEMRANGE_NORMAL :: u8 where "USERSPACE_MEMRANGE_NORMAL = 0xA1"
definition USERSPACE_MEMRANGE_HEAP :: u8 where "USERSPACE_MEMRANGE_HEAP = 0xA2"
definition USERSPACE_MEMRANGE_STACK :: u8 where "USERSPACE_MEMRANGE_STACK = 0xA3"

definition userspace_init :: "'z slab_state_scheme \<Rightarrow> 'z slab_state_scheme" where
  "userspace_init st = slab_allocator_init Memory_Range_Slab st"

definition map_user_page :: "u64 \<Rightarrow> u64 \<Rightarrow> 'z kernel_state_scheme \<Rightarrow> ('z kernel_state_scheme \<times> u64) res" where
  "map_user_page process user_space_address st =
     res_bind (kpage_alloc 1 st) (\<lambda>(st1, kernel_space_address).
     let st2 = store_page kernel_space_address (replicate 4096 0) st1
     in res_bind (set_page_mapping (pml4_page (tasks st2 process)) user_space_address
                    (kernel_space_address - hhdm_offset st2) False st2)
          (\<lambda>st3. Inr (st3, kernel_space_address)))"

text \<open>
  The loop over the pages from \<open>page\<close> to \<open>end\<close>. When the page address wraps around, the loop starts again
  at 0 and never ends.
\<close>

function page_loop :: "(u64 \<Rightarrow> 's \<Rightarrow> 's res) \<Rightarrow> u64 \<Rightarrow> u64 \<Rightarrow> 's \<Rightarrow> 's res" where
  "page_loop body page limit st =
     (if page < limit
      then res_bind (body page st) (\<lambda>st1.
             if page + PAGE_SIZE < page then Inl Diverges else page_loop body (page + PAGE_SIZE) limit st1)
      else Inr st)"
  by pat_completeness auto
termination
proof (relation "measure (\<lambda>(body, page, limit, st). 2 ^ 64 - unat page)", goal_cases)
  case 1
  show ?case by simp
next
  case (2 body page limit st st1)
  then have "page \<le> page + PAGE_SIZE" by (simp add: not_less)
  moreover have "page \<noteq> page + PAGE_SIZE" by simp
  ultimately have "page < page + PAGE_SIZE" by (rule order_le_neq_trans)
  then have "unat page < unat (page + PAGE_SIZE)" by (simp only: word_less_nat_alt)
  moreover have "unat (page + PAGE_SIZE) < 2 ^ 64" by (rule unat_lt_64)
  ultimately have "2 ^ 64 - unat (page + PAGE_SIZE) < 2 ^ 64 - unat page" by (intro diff_less_mono2) simp_all
  then show ?case by (simp only: in_measure prod.case)
qed

declare page_loop.simps [simp del]

definition map_page_step :: "u64 \<Rightarrow> u64 \<Rightarrow> 'z kernel_state_scheme \<Rightarrow> 'z kernel_state_scheme res" where
  "map_page_step process page st = res_bind (map_user_page process page st) (\<lambda>(st1, k). Inr st1)"

definition setup_userspace_memory :: "u64 \<Rightarrow> 'z kernel_state_scheme \<Rightarrow> 'z kernel_state_scheme res" where
  "setup_userspace_memory process st =
     res_fold (\<lambda>range st.
         page_loop (map_page_step process) (mr_start (memory_ranges st range) AND PAGE_ADDRESS_MASK)
           (mr_end (memory_ranges st range)) st)
       (memory_ranges_lh (tasks st process)) st"

section \<open>Freeing\<close>

text \<open>
  The four nested loops of \<^verbatim>\<open>free_userspace_memory\<close> are the same code at every level but for what is
  freed below an entry: \<open>level\<close> counts the levels of tables below this one.
\<close>

primrec free_table :: "nat \<Rightarrow> nat \<Rightarrow> u64 \<Rightarrow> 'z paging_state_scheme \<Rightarrow> 'z paging_state_scheme res" where
  "free_table 0 n table st =
     res_fold (\<lambda>i st.
         let entry = pt_mem st (entry_addr table i)
         in if entry AND PAGE_ADDRESS_MASK = 0 then Inr st
            else res_bind (kpage_free ((entry AND PAGE_ADDRESS_MASK) + hhdm_offset st) 1 st) (\<lambda>st1.
                   Inr (st1\<lparr>pt_mem := (pt_mem st1)(entry_addr table i := 0)\<rparr>)))
       (map of_nat [0..<n]) st"
| "free_table (Suc level) n table st =
     res_fold (\<lambda>i st.
         let entry = pt_mem st (entry_addr table i)
         in if entry AND PAGE_ADDRESS_MASK = 0 then Inr st
            else let entries = (entry AND PAGE_ADDRESS_MASK) + hhdm_offset st
                 in res_bind (free_table level 512 entries st) (\<lambda>st1.
                    res_bind (kpage_free entries 1 st1) (\<lambda>st2.
                      Inr (st2\<lparr>pt_mem := (pt_mem st2)(entry_addr table i := 0)\<rparr>))))
       (map of_nat [0..<n]) st"

definition free_userspace_memory :: "u64 \<Rightarrow> 'z kernel_state_scheme \<Rightarrow> 'z kernel_state_scheme res" where
  "free_userspace_memory process st =
     res_bind (free_table 3 256 (pml4_page (tasks st process)) st) (\<lambda>st1.
     res_bind (res_fold (slab_free Memory_Range_Slab) (memory_ranges_lh (tasks st1 process)) st1) (\<lambda>st2.
       Inr (upd_task process (\<lambda>t. t\<lparr>memory_ranges_lh := []\<rparr>) st2)))"

section \<open>Loading a program\<close>

record elf64_hdr =
  e_ident :: "u8 list"
  e_type :: u16
  e_machine :: u16
  e_version :: u32
  e_entry :: u64
  e_phoff :: u64
  e_shoff :: u64
  e_flags :: u32
  e_ehsize :: u16
  e_phentsize :: u16
  e_phnum :: u16
  e_shentsize :: u16
  e_shnum :: u16
  e_shstrndx :: u16

record elf64_phdr =
  p_type :: u32
  p_flags :: u32
  p_offset :: u64
  p_vaddr :: u64
  p_paddr :: u64
  p_filesz :: u64
  p_memsz :: u64
  p_align :: u64

record loader_result =
  user_entry_rip :: u64
  user_entry_rsp :: u64

text \<open>The structures as they lie in memory; fields are little endian at their offsets.\<close>

definition field_at :: "u8 list \<Rightarrow> nat \<Rightarrow> nat \<Rightarrow> nat" where
  "field_at bytes offset n = le_nat (take n (drop offset bytes))"

definition elf64_hdr_of :: "u8 list \<Rightarrow> elf64_hdr" where
  "elf64_hdr_of b = \<lparr>e_ident = take 16 b, e_type = of_nat (field_at b 16 2), e_machine = of_nat (field_at b 18 2),
     e_version = of_nat (field_at b 20 4), e_entry = of_nat (field_at b 24 8), e_phoff = of_nat (field_at b 32 8),
     e_shoff = of_nat (field_at b 40 8), e_flags = of_nat (field_at b 48 4), e_ehsize = of_nat (field_at b 52 2),
     e_phentsize = of_nat (field_at b 54 2), e_phnum = of_nat (field_at b 56 2), e_shentsize = of_nat (field_at b 58 2),
     e_shnum = of_nat (field_at b 60 2), e_shstrndx = of_nat (field_at b 62 2)\<rparr>"

definition elf64_phdr_of :: "u8 list \<Rightarrow> elf64_phdr" where
  "elf64_phdr_of b = \<lparr>p_type = of_nat (field_at b 0 4), p_flags = of_nat (field_at b 4 4), p_offset = of_nat (field_at b 8 8),
     p_vaddr = of_nat (field_at b 16 8), p_paddr = of_nat (field_at b 24 8), p_filesz = of_nat (field_at b 32 8),
     p_memsz = of_nat (field_at b 40 8), p_align = of_nat (field_at b 48 8)\<rparr>"

text \<open>
  Reading a structure into a local variable: bytes that the read does not deliver are uninitialised,
  and their use is an \<open>Invalid_Access\<close>.
\<close>

definition read_struct ::
  "'z device_state_scheme drivers \<Rightarrow> u64 \<Rightarrow> nat \<Rightarrow> 'z device_state_scheme \<Rightarrow> ('z device_state_scheme \<times> u8 list) res" where
  "read_struct devs filp n st =
     res_bind (vfs_read devs filp (replicate n 0) (of_nat n) st) (\<lambda>(st1, bytes, r).
       if r = of_nat n then Inr (st1, bytes) else Inl Invalid_Access)"

definition read_phdr ::
  "'z device_state_scheme drivers \<Rightarrow> u64 \<Rightarrow> elf64_hdr \<Rightarrow> nat \<Rightarrow> 'z device_state_scheme \<Rightarrow> ('z device_state_scheme \<times> elf64_phdr) res" where
  "read_phdr devs filp hdr i st =
     res_bind (read_struct devs filp 56 (upd_file filp (\<lambda>f. f\<lparr>f_offset := e_phoff hdr + of_nat i * 56\<rparr>) st))
       (\<lambda>(st1, bytes). Inr (st1, elf64_phdr_of bytes))"

definition add_memory_range ::
  "u8 \<Rightarrow> u64 \<Rightarrow> u64 \<Rightarrow> 'z kernel_state_scheme \<Rightarrow> 'z kernel_state_scheme res" where
  "add_memory_range ty a b st =
     res_bind (slab_alloc Memory_Range_Slab st) (\<lambda>(st1, range).
       Inr (upd_task (current_task_ts st1) (\<lambda>t. t\<lparr>memory_ranges_lh := memory_ranges_lh t @ [range]\<rparr>)
              (upd_range range (\<lambda>r. \<lparr>mr_start = a, mr_end = b, mr_type = ty\<rparr>) st1)))"

definition elf_segment_range ::
  "('z kernel_state_scheme) drivers \<Rightarrow> u64 \<Rightarrow> elf64_hdr \<Rightarrow> nat \<Rightarrow> 'z kernel_state_scheme \<times> u64 \<Rightarrow>
   ('z kernel_state_scheme \<times> u64) res" where
  "elf_segment_range devs filp hdr i = (\<lambda>(st, largest_end_address).
     res_bind (read_phdr devs filp hdr i st) (\<lambda>(st1, seg).
       if p_vaddr seg = 0 \<and> p_memsz seg = 0 then Inr (st1, largest_end_address)
       else let e = p_vaddr seg + p_memsz seg
            in res_bind (add_memory_range USERSPACE_MEMRANGE_NORMAL (p_vaddr seg) e st1) (\<lambda>st2.
                 Inr (st2, if e > largest_end_address then e else largest_end_address))))"

definition elf_segment_load ::
  "('z kernel_state_scheme) drivers \<Rightarrow> u64 \<Rightarrow> elf64_hdr \<Rightarrow> nat \<Rightarrow> 'z kernel_state_scheme \<Rightarrow> 'z kernel_state_scheme res" where
  "elf_segment_load devs filp hdr i st =
     res_bind (read_phdr devs filp hdr i st) (\<lambda>(st1, seg).
     let st2 = upd_file filp (\<lambda>f. f\<lparr>f_offset := p_offset seg\<rparr>) st1
     in res_bind (vfs_read devs filp (user_window (p_vaddr seg) (unat (p_filesz seg)) st2) (p_filesz seg) st2)
          (\<lambda>(st3, bytes, r). user_store (p_vaddr seg) bytes st3))"

definition heap_start :: "u64 \<Rightarrow> u64" where
  "heap_start largest_end_address =
     (if largest_end_address AND PAGE_OFFSET_MASK \<noteq> 0 then (largest_end_address OR PAGE_OFFSET_MASK) + 1
      else largest_end_address)"

definition load_elf64 ::
  "('z kernel_state_scheme) drivers \<Rightarrow> u64 \<Rightarrow> 'z kernel_state_scheme \<Rightarrow> ('z kernel_state_scheme \<times> loader_result) res" where
  "load_elf64 devs filp st =
     res_bind (read_struct devs filp 64 st) (\<lambda>(st1, bytes).
     let hdr = elf64_hdr_of bytes; segments = [0..<unat (e_phnum hdr)]
     in res_bind (res_fold (elf_segment_range devs filp hdr) segments (st1, 0)) (\<lambda>(st2, largest_end_address).
        let heap = heap_start largest_end_address
        in res_bind (add_memory_range USERSPACE_MEMRANGE_HEAP heap (heap + PAGE_SIZE) st2) (\<lambda>st3.
           res_bind (add_memory_range USERSPACE_MEMRANGE_STACK 0x00007FFFFFF00000 0x0000800000000000 st3) (\<lambda>st4.
           res_bind (setup_userspace_memory (current_task_ts st4) st4) (\<lambda>st5.
           res_bind (res_fold (elf_segment_load devs filp hdr) segments st5) (\<lambda>st6.
             Inr (st6, \<lparr>user_entry_rip = e_entry hdr, user_entry_rsp = 0x0000800000000000\<rparr>)))))))"

end
