(* ===== verification/Syscall.thy ===== *)
theory Syscall
  imports Userspace
begin

text \<open>
  \<^verbatim>\<open>kernel/src/kernel/syscall.c\<close>: the system calls. A call of \<^verbatim>\<open>task_yield\<close> hands the processor to other
  tasks; the argument \<open>yields\<close> is what has happened to the state each time control comes back (in turn).
  A call ends by returning a value to the user, or is still \<open>Yielding\<close> with the state it left to the
  others when no further return of control is given. User memory is accessed without checks, as the
  source does; a fault is an \<open>Invalid_Access\<close>.
\<close>

section \<open>Yielding\<close>

datatype 's outcome = Return 's u64 | Yielding 's

type_synonym 's yields = "('s \<Rightarrow> 's res) list"

fun yield_until :: "('s \<Rightarrow> bool) \<Rightarrow> 's yields \<Rightarrow> 's \<Rightarrow> ('s \<times> bool) res" where
  "yield_until P [] st = Inr (st, P st)"
| "yield_until P (y # ys) st = (if P st then Inr (st, True) else res_bind (y st) (yield_until P ys))"

definition yield_then :: "'s yields \<Rightarrow> 's \<Rightarrow> ('s \<Rightarrow> 's outcome res) \<Rightarrow> 's outcome res" where
  "yield_then yields st k = (case yields of [] \<Rightarrow> Inr (Yielding st) | y # ys \<Rightarrow> res_bind (y st) k)"

definition returns :: "('s \<times> u64) res \<Rightarrow> 's outcome res" where
  "returns r = res_bind r (\<lambda>(st, n). Inr (Return st n))"

section \<open>Files\<close>

definition current_filp :: "u64 \<Rightarrow> 'z kernel_state_scheme \<Rightarrow> u64" where
  "current_filp fd st = filp_find (files_lh (current st)) (ucast fd) st"

definition set_files :: "(u64 list \<Rightarrow> u64 list) \<Rightarrow> 'z kernel_state_scheme \<Rightarrow> 'z kernel_state_scheme" where
  "set_files f st = upd_task (current_task_ts st) (\<lambda>t. t\<lparr>files_lh := f (files_lh t)\<rparr>) st"

definition sys_write ::
  "('z kernel_state_scheme) drivers \<Rightarrow> u64 \<Rightarrow> u64 \<Rightarrow> u64 \<Rightarrow> 'z kernel_state_scheme \<Rightarrow> ('z kernel_state_scheme \<times> u64) res" where
  "sys_write devs fd buf len st =
     (let filp = current_filp fd st
      in if filp = 0 then Inr (st, -1) else vfs_write devs filp (user_window buf (unat len) st) len st)"

definition sys_read ::
  "('z kernel_state_scheme) drivers \<Rightarrow> u64 \<Rightarrow> u64 \<Rightarrow> u64 \<Rightarrow> 'z kernel_state_scheme \<Rightarrow> ('z kernel_state_scheme \<times> u64) res" where
  "sys_read devs fd buf len st =
     (let filp = current_filp fd st
      in if filp = 0 then Inr (st, -1)
         else res_bind (vfs_read devs filp (user_window buf (unat len) st) len st) (\<lambda>(st1, bytes, r).
              res_bind (user_store buf bytes st1) (\<lambda>st2. Inr (st2, r))))"

definition O_CREAT :: u64 where "O_CREAT = 1"
definition O_TRUNCATE :: u64 where "O_TRUNCATE = 2"

text \<open>A new open file at the end of the list, with the number after the last one's.\<close>

definition open_filp :: "u64 \<Rightarrow> 'z kernel_state_scheme \<Rightarrow> ('z kernel_state_scheme \<times> u64) res" where
  "open_filp inode st =
     res_bind (slab_alloc File_Slab st) (\<lambda>(st1, filp).
     let files = files_lh (current st1);
         fd = (if files = [] then 0 else f_fd (filps st1 (last files)) + 1)
     in Inr (set_files (\<lambda>fs. fs @ [filp])
               (upd_file filp (\<lambda>f. \<lparr>f_fd = fd, f_inode = inode, f_offset = 0\<rparr>) st1), filp))"

definition sys_open ::
  "('z kernel_state_scheme) drivers \<Rightarrow> u64 \<Rightarrow> u64 \<Rightarrow> 'z kernel_state_scheme \<Rightarrow> ('z kernel_state_scheme \<times> u64) res" where
  "sys_open devs path_arg flags st =
     res_bind (user_string path_arg st) (\<lambda>path.
     res_bind (vfs_resolve devs path st) (\<lambda>(st1, lookup). case lookup of
         Resolve_Err_Not_A_Dir \<Rightarrow> Inr (st1, -1)
       | Resolve_Err_Doesnt_Exist \<Rightarrow> Inr (st1, -2)
       | Resolve_Doesnt_Exist dentry parent name_start name_length \<Rightarrow>
           if flags AND O_CREAT \<noteq> 0
           then res_bind (vfs_create parent (drop name_start path) st1) (\<lambda>(st2, inode).
                  if inode = 0 then Inr (st2, -4)
                  else res_bind (open_filp inode st2) (\<lambda>(st3, filp). Inr (st3, ucast (f_fd (filps st3 filp)))))
           else Inr (st1, -3)
       | Resolve_Exists inode dentry parent \<Rightarrow>
           res_bind (open_filp inode st1) (\<lambda>(st2, filp).
             if i_type (inodes st2 (f_inode (filps st2 filp))) = INODE_REGULAR_FILE \<and> flags AND O_TRUNCATE \<noteq> 0
             then res_bind (vfs_ftruncate filp 0 st2) (\<lambda>(st3, truncate_result).
                    if truncate_result <s 0 then Inr (st3, truncate_result)
                    else Inr (st3, ucast (f_fd (filps st3 filp))))
             else Inr (st2, ucast (f_fd (filps st2 filp))))))"

definition sys_close :: "u64 \<Rightarrow> 'z kernel_state_scheme \<Rightarrow> ('z kernel_state_scheme \<times> u64) res" where
  "sys_close fd st =
     (let filp = current_filp fd st
      in if filp = 0 then Inr (st, -1)
         else res_bind (slab_free File_Slab filp (set_files (remove1 filp) st)) (\<lambda>st1. Inr (st1, 0)))"

fun getdents_loop ::
  "u64 list \<Rightarrow> u64 \<Rightarrow> u64 \<Rightarrow> 'z vfs_state_scheme \<Rightarrow> ('z vfs_state_scheme \<times> u64) res" where
  "getdents_loop [] buf end_of_buf st = Inr (st, buf)"
| "getdents_loop (d # ds) buf end_of_buf st =
     res_bind (array_string (d_name (dentries st d))) (\<lambda>name.
     let dentry_name_strlen = of_nat (length name) :: u16; len_required = 2 + dentry_name_strlen + 1
     in if buf + ucast len_required \<le> end_of_buf
        then res_bind (user_store buf (le_bytes 2 (unat len_required) @ name @ [0]) st) (\<lambda>st1.
               getdents_loop ds (buf + 2 + (ucast dentry_name_strlen + 1)) end_of_buf st1)
        else Inr (st, buf))"

definition sys_getdents :: "u64 \<Rightarrow> u64 \<Rightarrow> u64 \<Rightarrow> 'z kernel_state_scheme \<Rightarrow> ('z kernel_state_scheme \<times> u64) res" where
  "sys_getdents fd buf_start len st =
     (let filp = current_filp fd st
      in if filp = 0 then Inr (st, -1)
         else res_bind (filp_inode filp st) (\<lambda>inode.
           if i_type inode \<noteq> INODE_DIRECTORY then Inr (st, -2)
           else res_bind (dir_entries inode) (\<lambda>ds.
                res_bind (getdents_loop ds buf_start (buf_start + len) st) (\<lambda>(st1, buf).
                  Inr (st1, buf - buf_start)))))"

definition sys_mkdir ::
  "('z kernel_state_scheme) drivers \<Rightarrow> u64 \<Rightarrow> 'z kernel_state_scheme \<Rightarrow> ('z kernel_state_scheme \<times> u64) res" where
  "sys_mkdir devs path_arg st =
     res_bind (user_string path_arg st) (\<lambda>path.
     res_bind (vfs_resolve devs path st) (\<lambda>(st1, lookup). case lookup of
         Resolve_Err_Not_A_Dir \<Rightarrow> Inr (st1, -1)
       | Resolve_Err_Doesnt_Exist \<Rightarrow> Inr (st1, -2)
       | Resolve_Exists inode dentry parent \<Rightarrow> Inr (st1, -3)
       | Resolve_Doesnt_Exist dentry parent name_start name_length \<Rightarrow>
           res_bind (kpage_alloc 1 st1) (\<lambda>(st2, name_buffer).
           let name = take name_length (drop name_start path)
           in if \<not> name_length < 4096 then Inl Invalid_Access
              else res_bind (vfs_mkdir parent name (store_page name_buffer (name @ [0]) st2)) (\<lambda>(st3, inode).
                   res_bind (kpage_free name_buffer 1 st3) (\<lambda>st4.
                     Inr (st4, if inode \<noteq> 0 then 0 else -1))))))"

definition sys_lseek :: "u64 \<Rightarrow> u64 \<Rightarrow> u64 \<Rightarrow> 'z kernel_state_scheme \<Rightarrow> ('z kernel_state_scheme \<times> u64) res" where
  "sys_lseek fd offset whence st =
     (let filp = current_filp fd st
      in if filp = 0 then Inr (st, -1)
         else if whence \<noteq> 0 then Inr (st, -1)
         else Inr (upd_file filp (\<lambda>f. f\<lparr>f_offset := offset\<rparr>) st, offset))"

definition sys_ftruncate :: "u64 \<Rightarrow> u64 \<Rightarrow> 'z kernel_state_scheme \<Rightarrow> ('z kernel_state_scheme \<times> u64) res" where
  "sys_ftruncate fd new_size st =
     (let filp = current_filp fd st
      in if filp = 0 then Inr (st, -1) else vfs_ftruncate filp new_size st)"

text \<open>\<^verbatim>\<open>list_add_tail\<close> to the entry \<open>next\<close> of a list puts the new entry before it.\<close>

definition insert_before :: "u64 \<Rightarrow> u64 \<Rightarrow> u64 list \<Rightarrow> u64 list" where
  "insert_before new_filp next_filp files =
     takeWhile (\<lambda>f. f \<noteq> next_filp) files @ new_filp # dropWhile (\<lambda>f. f \<noteq> next_filp) files"

definition sys_dup2 :: "u64 \<Rightarrow> u64 \<Rightarrow> 'z kernel_state_scheme \<Rightarrow> ('z kernel_state_scheme \<times> u64) res" where
  "sys_dup2 old_fd new_fd st =
     (let old_filp = current_filp old_fd st
      in if old_filp = 0 then Inr (st, -1)
         else let filp_to_close = current_filp new_fd st
              in res_bind (if filp_to_close \<noteq> 0
                           then slab_free File_Slab filp_to_close (set_files (remove1 filp_to_close) st)
                           else Inr st) (\<lambda>st1.
                 let next_filp = filp_insert_point_find (files_lh (current st1)) (ucast new_fd) st1
                 in res_bind (slab_alloc File_Slab st1) (\<lambda>(st2, new_filp).
                    let st3 = upd_file new_filp (\<lambda>f. f\<lparr>f_fd := ucast new_fd\<rparr>) st2;
                        st4 = upd_file new_filp (\<lambda>f. f\<lparr>f_inode := f_inode (filps st3 old_filp)\<rparr>) st3;
                        st5 = upd_file new_filp (\<lambda>f. f\<lparr>f_offset := f_offset (filps st4 old_filp)\<rparr>) st4
                    in Inr (set_files (if next_filp = 0 then (\<lambda>fs. fs @ [new_filp]) else insert_before new_filp next_filp) st5,
                            ucast (f_fd (filps st5 new_filp))))))"

definition sys_mount ::
  "('z kernel_state_scheme) drivers \<Rightarrow> u64 \<Rightarrow> u64 \<Rightarrow> u64 \<Rightarrow> 'z kernel_state_scheme \<Rightarrow> ('z kernel_state_scheme \<times> u64) res" where
  "sys_mount devs device_path mountpoint_path fs_type st =
     res_bind (user_string device_path st) (\<lambda>dpath.
     res_bind (vfs_resolve devs dpath st) (\<lambda>(st1, device_lookup). case device_lookup of
         Resolve_Exists device_inode device_dentry device_parent \<Rightarrow>
           res_bind (user_string mountpoint_path st1) (\<lambda>mpath.
           res_bind (vfs_resolve devs mpath st1) (\<lambda>(st2, mountpoint_lookup). case mountpoint_lookup of
               Resolve_Exists inode dentry parent \<Rightarrow>
                 if i_type (inodes st2 inode) \<noteq> INODE_DIRECTORY then Inr (st2, -3)
                 else res_bind (user_string fs_type st2) (\<lambda>ty.
                   if ty = u8p ''exfat'' then exfat_mount devs device_inode dentry st2 else Inr (st2, -4))
             | _ \<Rightarrow> Inr (st2, -2)))
       | _ \<Rightarrow> Inr (st1, -1)))"

section \<open>Tasks\<close>

definition end_current :: "u8 \<Rightarrow> 'z kernel_state_scheme \<Rightarrow> 'z kernel_state_scheme" where
  "end_current code st = upd_task (current_task_ts st) (\<lambda>t. t\<lparr>task_state := TS_ZOMBIE, exit_code := code\<rparr>) st"

text \<open>
  If control ever came back to a task that has exited, the code would run into the next case of the
  switch, \<^verbatim>\<open>SYSCALL_GETPID\<close>.
\<close>

definition sys_getpid :: "'z kernel_state_scheme \<Rightarrow> u64" where
  "sys_getpid st = ucast (pid (current st))"

definition sys_exit :: "('z kernel_state_scheme) yields \<Rightarrow> u64 \<Rightarrow> 'z kernel_state_scheme \<Rightarrow> ('z kernel_state_scheme) outcome res" where
  "sys_exit yields code st =
     yield_then yields (end_current (ucast code) st) (\<lambda>st1. Inr (Return st1 (sys_getpid st1)))"

definition sys_sched_yield :: "('z kernel_state_scheme) yields \<Rightarrow> 'z kernel_state_scheme \<Rightarrow> ('z kernel_state_scheme) outcome res" where
  "sys_sched_yield yields st = yield_then yields st (\<lambda>st1. Inr (Return st1 0))"

definition sys_waitpid ::
  "('z kernel_state_scheme) yields \<Rightarrow> u64 \<Rightarrow> u64 \<Rightarrow> 'z kernel_state_scheme \<Rightarrow> ('z kernel_state_scheme) outcome res" where
  "sys_waitpid yields p status st =
     (case find (\<lambda>t. ucast (pid (tasks st t)) = p) (task_struct_lh st) of
        None \<Rightarrow> Inr (Return st (-1))
      | Some process \<Rightarrow>
          res_bind (yield_until (\<lambda>s. task_state (tasks s process) = TS_ZOMBIE) yields st) (\<lambda>(st1, ended).
            if \<not> ended then Inr (Yielding st1)
            else returns (
              res_bind (free_userspace_memory process st1) (\<lambda>st2.
              res_bind (free_kernelspace_memory process st2) (\<lambda>st3.
              res_bind (free_task process st3) (\<lambda>st4.
              res_bind (if status \<noteq> 0
                        then user_store status (le_bytes 8 (unat (exit_code (tasks st4 process)))) st4
                        else Inr st4) (\<lambda>st5. Inr (st5, p)))))))) "

definition sys_kill ::
  "('z kernel_state_scheme) yields \<Rightarrow> u64 \<Rightarrow> 'z kernel_state_scheme \<Rightarrow> ('z kernel_state_scheme) outcome res" where
  "sys_kill yields p st =
     (let task = task_struct_find (ucast p) st
      in if task = 0 then Inr (Return st (-1))
         else yield_then yields (upd_task task (\<lambda>t. t\<lparr>task_state := TS_ZOMBIE, exit_code := -1\<rparr>) st)
                (\<lambda>st1. Inr (Return st1 0)))"

definition TIMER_TICKS_PER_SECOND :: u64 where "TIMER_TICKS_PER_SECOND = 100"

definition sleep_end :: "u64 \<Rightarrow> u64 \<Rightarrow> u64" where
  "sleep_end start_ticks ms = start_ticks + 1 + (ms - 1) * TIMER_TICKS_PER_SECOND div 1000"

definition sys_sleep ::
  "('z kernel_state_scheme) yields \<Rightarrow> u64 \<Rightarrow> 'z kernel_state_scheme \<Rightarrow> ('z kernel_state_scheme) outcome res" where
  "sys_sleep yields ms st =
     (let end_ticks = sleep_end (timer_ticks st) ms
      in res_bind (yield_until (\<lambda>s. \<not> timer_ticks s < end_ticks) yields st) (\<lambda>(st1, ended).
           Inr (if ended then Return st1 0 else Yielding st1)))"

fun gettasks_loop ::
  "u64 list \<Rightarrow> u64 \<Rightarrow> u64 \<Rightarrow> 'z kernel_state_scheme \<Rightarrow> ('z kernel_state_scheme \<times> u64) res" where
  "gettasks_loop [] buf end_of_buf st = Inr (st, buf)"
| "gettasks_loop (t # ts) buf end_of_buf st =
     res_bind (array_string (task_name (tasks st t))) (\<lambda>name.
     let ts_name_strlen = of_nat (length name) :: u16; len_required = 4 + 2 + ts_name_strlen + 1
     in if buf + ucast len_required \<le> end_of_buf
        then res_bind (user_store buf (le_bytes 4 (unat (pid (tasks st t))) @ le_bytes 2 (unat ts_name_strlen) @ name @ [0]) st)
               (\<lambda>st1. gettasks_loop ts (buf + 4 + 2 + (ucast ts_name_strlen + 1)) end_of_buf st1)
        else Inr (st, buf))"

definition sys_gettasks :: "u64 \<Rightarrow> u64 \<Rightarrow> 'z kernel_state_scheme \<Rightarrow> ('z kernel_state_scheme \<times> u64) res" where
  "sys_gettasks buf_start len st =
     res_bind (gettasks_loop (task_struct_lh st) buf_start (buf_start + len) st) (\<lambda>(st1, buf).
       Inr (st1, buf - buf_start))"

section \<open>Memory\<close>

definition brk_step :: "u64 \<Rightarrow> u64 \<Rightarrow> 'z kernel_state_scheme \<Rightarrow> 'z kernel_state_scheme res" where
  "brk_step heap_range page st =
     res_bind (map_user_page (current_task_ts st) page st) (\<lambda>(st1, k).
       Inr (upd_range heap_range (\<lambda>r. r\<lparr>mr_end := mr_end r + PAGE_SIZE\<rparr>) st1))"

definition sys_brk :: "u64 \<Rightarrow> 'z kernel_state_scheme \<Rightarrow> ('z kernel_state_scheme \<times> u64) res" where
  "sys_brk new_end st =
     (case find (\<lambda>r. mr_type (memory_ranges st r) = USERSPACE_MEMRANGE_HEAP) (memory_ranges_lh (current st)) of
        None \<Rightarrow> res_bind (printk (u8p (''No heap range found!'' @ [CHR 0x0A])) st) (\<lambda>st1. Inr (st1, 0))
      | Some heap_range \<Rightarrow>
          if new_end = 0 then Inr (st, mr_end (memory_ranges st heap_range))
          else res_bind (page_loop (brk_step heap_range) (mr_end (memory_ranges st heap_range)) new_end st) (\<lambda>st1.
                 Inr (st1, mr_end (memory_ranges st1 heap_range))))"

section \<open>Fork\<close>

definition IDT_SYSCALL_NUM_SAVED_REGISTERS :: nat where "IDT_SYSCALL_NUM_SAVED_REGISTERS = 14"

text \<open>The entry point where a new task leaves the kernel (in the kernel image).\<close>

definition zero_rax_and_iret :: u64 where "zero_rax_and_iret = 0xffffffff80010000"

definition fork_page :: "u64 \<Rightarrow> u64 \<Rightarrow> 'z kernel_state_scheme \<Rightarrow> 'z kernel_state_scheme res" where
  "fork_page new_process page st =
     res_bind (map_user_page new_process page st) (\<lambda>(st1, new_kernel_space_address).
     res_bind (user_load page 4096 st1) (\<lambda>bytes. Inr (store_page new_kernel_space_address bytes st1)))"

definition fork_range :: "u64 \<Rightarrow> u64 \<Rightarrow> 'z kernel_state_scheme \<Rightarrow> 'z kernel_state_scheme res" where
  "fork_range new_process old_range st =
     res_bind (slab_alloc Memory_Range_Slab st) (\<lambda>(st1, new_range).
     let r = memory_ranges st1 old_range;
         st2 = upd_task new_process (\<lambda>t. t\<lparr>memory_ranges_lh := memory_ranges_lh t @ [new_range]\<rparr>)
                 (upd_range new_range (\<lambda>_. \<lparr>mr_start = mr_start r, mr_end = mr_end r, mr_type = mr_type r\<rparr>) st1)
     in page_loop (fork_page new_process) (mr_start r) (mr_end r) st2)"

definition fork_file :: "u64 \<Rightarrow> u64 \<Rightarrow> 'z kernel_state_scheme \<Rightarrow> 'z kernel_state_scheme res" where
  "fork_file new_process filp st =
     res_bind (slab_alloc File_Slab st) (\<lambda>(st1, new_filp).
     let f = filps st1 filp
     in Inr (upd_task new_process (\<lambda>t. t\<lparr>files_lh := files_lh t @ [new_filp]\<rparr>)
               (upd_file new_filp (\<lambda>_. \<lparr>f_fd = f_fd f, f_inode = f_inode f, f_offset = f_offset f\<rparr>) st1)))"

text \<open>Pushing words, read from memory, on the stack that ends at \<open>sp\<close>.\<close>

definition push_from :: "u64 list \<Rightarrow> u64 \<times> (u64 \<Rightarrow> u64) \<Rightarrow> u64 \<times> (u64 \<Rightarrow> u64)" where
  "push_from addrs s = foldl (\<lambda>(sp, m) a. (sp - 8, m(sp - 8 := m a))) s addrs"

definition push_word :: "u64 \<Rightarrow> u64 \<times> (u64 \<Rightarrow> u64) \<Rightarrow> u64 \<times> (u64 \<Rightarrow> u64)" where
  "push_word w = (\<lambda>(sp, m). (sp - 8, m(sp - 8 := w)))"

definition fork_stack :: "u64 \<Rightarrow> u64 \<Rightarrow> u64 \<times> (u64 \<Rightarrow> u64) \<Rightarrow> u64 \<times> (u64 \<Rightarrow> u64)" where
  "fork_stack interrupt_rsp kernel_first_entry_rsp s =
     push_from (map (\<lambda>j. kernel_first_entry_rsp - 8 * of_nat j) [7..<13])
       (push_word zero_rax_and_iret
         (push_from (map (\<lambda>i. interrupt_rsp + 8 * of_nat (IDT_SYSCALL_NUM_SAVED_REGISTERS - 1 - i))
                       [0..<IDT_SYSCALL_NUM_SAVED_REGISTERS])
           (push_from (map (\<lambda>j. kernel_first_entry_rsp - 8 * of_nat j) [1..<6]) s)))"

definition sys_fork :: "u64 \<Rightarrow> 'z kernel_state_scheme \<Rightarrow> ('z kernel_state_scheme \<times> u64) res" where
  "sys_fork interrupt_rsp st =
     res_bind (slab_alloc Task_Slab st) (\<lambda>(st1, new_process).
     res_bind (array_string (task_name (current st1))) (\<lambda>name.
     res_bind (array_strcpy (task_name (tasks st1 new_process)) name) (\<lambda>new_name.
     let st2 = (upd_task new_process (\<lambda>t. t\<lparr>pid := pid_counter st1, task_state := task_state (current st1),
                   task_name := new_name, kernel_stack_pages := 0, pml4_page := 0, kernel_entry_rsp := 0,
                   memory_ranges_lh := []\<rparr>) st1)
                 \<lparr>pid_counter := pid_counter st1 + 1, task_struct_lh := task_struct_lh st1 @ [new_process]\<rparr>
     in res_bind (setup_kernelspace_memory new_process st2) (\<lambda>st3.
        let st4 = upd_task new_process (\<lambda>t. t\<lparr>files_lh := []\<rparr>) st3
        in res_bind (res_fold (fork_range new_process) (memory_ranges_lh (current st4)) st4) (\<lambda>st5.
           res_bind (res_fold (fork_file new_process) (files_lh (current st5)) st5) (\<lambda>st6.
           let (sp, m) = fork_stack interrupt_rsp (kernel_entry_rsp (current st6))
                           (kernel_entry_rsp (tasks st6 new_process), stack_words st6);
               st7 = upd_task new_process (\<lambda>t. t\<lparr>kernel_rsp := sp\<rparr>) (st6\<lparr>stack_words := m\<rparr>)
           in Inr (st7, ucast (pid (tasks st7 new_process)))))))))"

section \<open>Exec\<close>

text \<open>The argument pointers in user memory, up to the null pointer.\<close>

function argv_pointers :: "u64 \<Rightarrow> 'z paging_state_scheme \<Rightarrow> u64 list res" where
  "argv_pointers p st =
     (if p \<ge> USER_TOP then Inl Invalid_Access
      else res_bind (user_word p st) (\<lambda>a.
             if a = 0 then Inr [] else res_bind (argv_pointers (p + 8) st) (\<lambda>as. Inr (a # as))))"
  by pat_completeness auto
termination
proof (relation "measure (\<lambda>(p, st). 2 ^ 64 - unat p)", goal_cases)
  case 1
  show ?case by simp
next
  case (2 p st a)
  then have "p < USER_TOP" by simp
  then have lt: "unat p < 2 ^ 47" by (simp add: word_less_nat_alt USER_TOP_def)
  then have "unat (p + 8) = unat p + 8" by (subst unat_add_no_wrap) simp_all
  with lt show ?case by simp
qed

declare argv_pointers.simps [simp del]

text \<open>A write into a page buffer; outside the page it is an \<open>Invalid_Access\<close>.\<close>

definition buffer_store :: "u64 \<Rightarrow> u64 \<Rightarrow> u8 list \<Rightarrow> 'z paging_state_scheme \<Rightarrow> 'z paging_state_scheme res" where
  "buffer_store page a bytes st =
     (if page \<le> a \<and> unat (a - page) + length bytes \<le> 4096 then Inr (store_page a bytes st) else Inl Invalid_Access)"

definition exec_arg ::
  "u64 \<Rightarrow> u64 \<Rightarrow> nat \<times> u64 \<Rightarrow> 'z paging_state_scheme \<times> u64 \<Rightarrow> ('z paging_state_scheme \<times> u64) res" where
  "exec_arg stack_buffer pointers = (\<lambda>(i, arg) (st, stack_top).
     res_bind (user_string arg st) (\<lambda>chars.
     let relocated_arg = stack_top - of_nat (length chars) - 1
     in res_bind (buffer_store stack_buffer relocated_arg (chars @ [0]) st) (\<lambda>st1.
        res_bind (buffer_store stack_buffer (pointers + 8 * of_nat i) (le_bytes 8 (unat relocated_arg)) st1) (\<lambda>st2.
          Inr (st2, relocated_arg)))))"

definition buffer_word :: "u64 \<Rightarrow> 'z paging_state_scheme \<Rightarrow> u64" where
  "buffer_word a st = of_nat (le_nat (page_bytes 8 a st))"

definition buffer_shift :: "u64 \<Rightarrow> u64 \<Rightarrow> u64 \<Rightarrow> 'z paging_state_scheme \<Rightarrow> 'z paging_state_scheme res" where
  "buffer_shift stack_buffer delta a st =
     buffer_store stack_buffer a (le_bytes 8 (unat (buffer_word a st + delta))) st"

text \<open>The file object on the kernel stack.\<close>

definition exec_file :: u64 where "exec_file = 0xffffffff80400000"

definition sys_exec ::
  "('z kernel_state_scheme) drivers \<Rightarrow> u64 \<Rightarrow> u64 \<Rightarrow> u64 \<Rightarrow> 'z kernel_state_scheme \<Rightarrow> ('z kernel_state_scheme \<times> u64) res" where
  "sys_exec devs interrupt_rsp path_arg argv_arg st =
     res_bind (kpage_alloc 1 st) (\<lambda>(st1, path_buffer).
     res_bind (user_string path_arg st1) (\<lambda>path.
     res_bind (buffer_store path_buffer path_buffer (path @ [0]) (store_page path_buffer (replicate 4096 0) st1)) (\<lambda>st2.
     res_bind (kpage_alloc 1 st2) (\<lambda>(st3, stack_buffer).
     let st4 = store_page stack_buffer (replicate 4096 0) st3
     in res_bind (argv_pointers argv_arg st4) (\<lambda>args.
     let argc = length args;
         stack_end = stack_buffer + 4096;
         pointers = stack_end - (of_nat argc + 1) * 8
     in res_bind (res_fold (exec_arg stack_buffer pointers) (zip [0..<argc] args) (st4, pointers)) (\<lambda>(st5, stack_top).
     res_bind (buffer_store stack_buffer (pointers + 8 * of_nat argc) (le_bytes 8 0) st5) (\<lambda>st6.
     let pointers_pointer = (stack_top - 8) AND 0xFFFFFFFFFFFFFFF8
     in res_bind (buffer_store stack_buffer pointers_pointer (le_bytes 8 (unat pointers)) st6) (\<lambda>st7.
     let stack_start = pointers_pointer;
         stack_length = stack_end - stack_start
     in res_bind (vfs_resolve devs path st7) (\<lambda>(st8, lookup). case lookup of
          Resolve_Exists inode dentry parent \<Rightarrow>
            res_bind (free_userspace_memory (current_task_ts st8) st8) (\<lambda>st9.
            res_bind (array_strcpy (task_name (current st9)) path) (\<lambda>name.
            let st10 = upd_file exec_file (\<lambda>_. \<lparr>f_fd = 0, f_inode = inode, f_offset = 0\<rparr>)
                         (upd_task (current_task_ts st9) (\<lambda>t. t\<lparr>task_name := name\<rparr>) st9)
            in res_bind (load_elf64 devs exec_file st10) (\<lambda>(st11, loader).
            let st12 = load_cr3_from (current_task_ts st11) st11;
                delta = user_entry_rsp loader - stack_end
            in res_bind (res_fold (\<lambda>i. buffer_shift stack_buffer delta (pointers + 8 * of_nat i)) [0..<argc] st12) (\<lambda>st13.
            res_bind (buffer_shift stack_buffer delta pointers_pointer st13) (\<lambda>st14.
            res_bind (user_store (user_entry_rsp loader - stack_length)
                        (page_bytes (unat stack_length) stack_start st14) st14) (\<lambda>st15.
            let st16 = st15\<lparr>stack_words := (stack_words st15)
                   (interrupt_rsp + 8 * of_nat IDT_SYSCALL_NUM_SAVED_REGISTERS := user_entry_rip loader,
                    interrupt_rsp + 8 * (of_nat IDT_SYSCALL_NUM_SAVED_REGISTERS + 3) := user_entry_rsp loader - stack_length)\<rparr>
            in res_bind (kpage_free stack_buffer 1 st16) (\<lambda>st17.
               res_bind (kpage_free path_buffer 1 st17) (\<lambda>st18. Inr (st18, 0)))))))))
        | _ \<Rightarrow>
            res_bind (kpage_free stack_buffer 1 st8) (\<lambda>st9.
            res_bind (kpage_free path_buffer 1 st9) (\<lambda>st10. Inr (st10, -1)))))))))))) "

section \<open>The dispatcher\<close>

definition sys_unknown :: "u64 \<Rightarrow> 'z kernel_state_scheme \<Rightarrow> ('z kernel_state_scheme \<times> u64) res" where
  "sys_unknown n st =
     res_bind (printk (u8p ''Unrecognized syscall: '') st) (\<lambda>st1.
     res_bind (printk_uint64 n st1) (\<lambda>st2.
     res_bind (printk (u8p [CHR 0x0A]) st2) (\<lambda>st3. Inr (st3, 0))))"

definition handle_syscall ::
  "('z kernel_state_scheme) drivers \<Rightarrow> ('z kernel_state_scheme) yields \<Rightarrow> u64 \<Rightarrow> u64 \<Rightarrow> u64 \<Rightarrow> u64 \<Rightarrow> u64 \<Rightarrow>
   'z kernel_state_scheme \<Rightarrow> ('z kernel_state_scheme) outcome res" where
  "handle_syscall devs yields interrupt_rsp syscall_number arg3 arg4 arg5 st =
     (if syscall_number = 1 then returns (sys_write devs arg3 arg4 arg5 st)
      else if syscall_number = 2 then returns (sys_read devs arg3 arg4 arg5 st)
      else if syscall_number = 3 then sys_exit yields arg3 st
      else if syscall_number = 4 then Inr (Return st (sys_getpid st))
      else if syscall_number = 5 then sys_sched_yield yields st
      else if syscall_number = 6 then returns (sys_fork interrupt_rsp st)
      else if syscall_number = 7 then returns (sys_exec devs interrupt_rsp arg3 arg4 st)
      else if syscall_number = 8 then returns (sys_brk arg3 st)
      else if syscall_number = 9 then sys_waitpid yields arg3 arg4 st
      else if syscall_number = 10 then returns (sys_open devs arg3 arg4 st)
      else if syscall_number = 11 then returns (sys_close arg3 st)
      else if syscall_number = 12 then returns (sys_getdents arg3 arg4 arg5 st)
      else if syscall_number = 13 then returns (sys_mkdir devs arg3 st)
      else if syscall_number = 14 then returns (sys_lseek arg3 arg4 arg5 st)
      else if syscall_number = 15 then returns (sys_ftruncate arg3 arg4 st)
      else if syscall_number = 16 then returns (sys_dup2 arg3 arg4 st)
      else if syscall_number = 17 then returns (sys_gettasks arg3 arg4 st)
      else if syscall_number = 18 then sys_kill yields arg3 st
      else if syscall_number = 19 then sys_sleep yields arg3 st
      else if syscall_number = 20 then returns (sys_mount devs arg3 arg4 arg5 st)
      else returns (sys_unknown syscall_number st))"

end
