(* ===== verification/Nvme.thy ===== *)
theory Nvme
  imports Vfs
begin

text \<open>
  \<^verbatim>\<open>kernel/src/drivers/nvme.c\<close>: commands, submission and completion queues, transfers and interrupts, and
  the configuration space of \<^verbatim>\<open>pci.c\<close>. The hardware is a parameter: what a port or a device register
  answers, what a write to it does to the state, and what happens while the code yields or polls. The
  queues are pages in memory, read and written as bytes. Detection is in theory \<open>Probe\<close>.
\<close>

section \<open>Hardware\<close>

text \<open>
  \<open>hw_polls\<close> bounds the rounds of a polling loop that are followed; a loop that has not ended by then is
  taken to wait forever.
\<close>

record 's hardware =
  hw_outb :: "u16 \<Rightarrow> u8 \<Rightarrow> 's \<Rightarrow> 's"
  hw_inb :: "u16 \<Rightarrow> 's \<Rightarrow> 's \<times> u8"
  hw_outl :: "u16 \<Rightarrow> u32 \<Rightarrow> 's \<Rightarrow> 's"
  hw_inl :: "u16 \<Rightarrow> 's \<Rightarrow> 's \<times> u32"
  hw_mmio_read :: "u64 \<Rightarrow> 's \<Rightarrow> 's \<times> u32"
  hw_mmio_write32 :: "u64 \<Rightarrow> u32 \<Rightarrow> 's \<Rightarrow> 's"
  hw_mmio_write64 :: "u64 \<Rightarrow> u64 \<Rightarrow> 's \<Rightarrow> 's"
  hw_yield :: "'s \<Rightarrow> 's res"
  hw_polls :: nat

fun poll_while :: "nat \<Rightarrow> ('s \<Rightarrow> bool) \<Rightarrow> ('s \<Rightarrow> 's res) \<Rightarrow> 's \<Rightarrow> 's res" where
  "poll_while n waiting step st =
     (if \<not> waiting st then Inr st
      else case n of 0 \<Rightarrow> Inl Diverges | Suc m \<Rightarrow> res_bind (step st) (poll_while m waiting step))"

declare poll_while.simps [simp del]

subsection \<open>PCI configuration space\<close>

definition pci_config_address :: "u8 \<Rightarrow> u8 \<Rightarrow> u8 \<Rightarrow> u8 \<Rightarrow> u32" where
  "pci_config_address bus slot func offset =
     push_bit 16 (ucast bus) OR push_bit 11 (ucast slot) OR push_bit 8 (ucast func) OR ucast (offset AND 0xFC) OR 0x80000000"

definition pci_config_read_dword :: "'s hardware \<Rightarrow> u8 \<Rightarrow> u8 \<Rightarrow> u8 \<Rightarrow> u8 \<Rightarrow> 's \<Rightarrow> 's \<times> u32" where
  "pci_config_read_dword hw bus slot func offset st =
     hw_inl hw 0xCFC (hw_outl hw 0xCF8 (pci_config_address bus slot func offset) st)"

definition pci_config_write_dword :: "'s hardware \<Rightarrow> u8 \<Rightarrow> u8 \<Rightarrow> u8 \<Rightarrow> u8 \<Rightarrow> u32 \<Rightarrow> 's \<Rightarrow> 's" where
  "pci_config_write_dword hw bus slot func offset v st =
     hw_outl hw 0xCFC v (hw_outl hw 0xCF8 (pci_config_address bus slot func offset) st)"

section \<open>Commands\<close>

definition NVME_QUEUE_SIZE :: nat where "NVME_QUEUE_SIZE = 64"
definition NVME_COMMAND_FREE :: u8 where "NVME_COMMAND_FREE = 0x91"
definition NVME_COMMAND_IN_FLIGHT :: u8 where "NVME_COMMAND_IN_FLIGHT = 0x92"
definition NVME_COMMAND_COMPLETED :: u8 where "NVME_COMMAND_COMPLETED = 0x93"

definition nvme_dev :: "nat \<Rightarrow> 'z device_state_scheme \<Rightarrow> nvme_device res" where
  "nvme_dev i st = array_get (nvme_devices st) i"

definition upd_nvme :: "nat \<Rightarrow> (nvme_device \<Rightarrow> nvme_device) \<Rightarrow> 'z device_state_scheme \<Rightarrow> 'z device_state_scheme" where
  "upd_nvme i f st = st\<lparr>nvme_devices := (nvme_devices st)[i := f (nvme_devices st ! i)]\<rparr>"

definition set_command_status :: "nat \<Rightarrow> u16 \<Rightarrow> u8 \<Rightarrow> 'z device_state_scheme \<Rightarrow> 'z device_state_scheme res" where
  "set_command_status i command_id status st =
     res_bind (nvme_dev i st) (\<lambda>dev.
     res_bind (array_set (command_statuses dev) (unat command_id) status) (\<lambda>cs.
       Inr (upd_nvme i (\<lambda>d. d\<lparr>command_statuses := cs\<rparr>) st)))"

text \<open>
  The search of \<^verbatim>\<open>start_command\<close> starts again at the end of the table; while it runs no other task does,
  so with no free command it never ends.
\<close>

definition start_command :: "nat \<Rightarrow> 'z device_state_scheme \<Rightarrow> ('z device_state_scheme \<times> u16) res" where
  "start_command i st =
     res_bind (nvme_dev i st) (\<lambda>dev.
       case find (\<lambda>c. command_statuses dev ! c = NVME_COMMAND_FREE) [0..<NVME_MAX_COMMANDS] of
         None \<Rightarrow> Inl Diverges
       | Some c \<Rightarrow> res_bind (set_command_status i (of_nat c) NVME_COMMAND_IN_FLIGHT st) (\<lambda>st1. Inr (st1, of_nat c)))"

definition finish_command :: "nat \<Rightarrow> u16 \<Rightarrow> 'z device_state_scheme \<Rightarrow> 'z device_state_scheme res" where
  "finish_command i command_id st =
     res_bind (if unat command_id > NVME_MAX_COMMANDS
               then res_bind (printk (u8p ''Cannot finish invalid command_id: '') st) (\<lambda>st1.
                    res_bind (printk_uint16 command_id st1) (\<lambda>st2. printk (u8p [CHR 0x0A]) st2))
               else Inr st)
       (set_command_status i command_id NVME_COMMAND_COMPLETED)"

definition command_in_flight :: "nat \<Rightarrow> u16 \<Rightarrow> 'z device_state_scheme \<Rightarrow> bool" where
  "command_in_flight i command_id st \<longleftrightarrow>
     i < length (nvme_devices st) \<and> command_statuses (nvme_devices st ! i) ! unat command_id = NVME_COMMAND_IN_FLIGHT"

definition await_command_finish ::
  "('z device_state_scheme) hardware \<Rightarrow> nat \<Rightarrow> u16 \<Rightarrow> 'z device_state_scheme \<Rightarrow> 'z device_state_scheme res" where
  "await_command_finish hw i command_id st =
     poll_while (hw_polls hw) (command_in_flight i command_id) (hw_yield hw) st"

definition free_command :: "nat \<Rightarrow> u16 \<Rightarrow> 'z device_state_scheme \<Rightarrow> 'z device_state_scheme res" where
  "free_command i command_id st = set_command_status i command_id NVME_COMMAND_FREE st"

section \<open>Queues\<close>

text \<open>A submission queue entry is 16 little-endian words; a completion queue entry has 16 bytes.\<close>

definition sq_entry_bytes :: "u32 list \<Rightarrow> u8 list" where
  "sq_entry_bytes ws = concat (map (\<lambda>w. le_bytes 4 (unat w)) ws)"

definition nvme_command :: "u32 \<Rightarrow> u16 \<Rightarrow> u32 \<Rightarrow> u64 \<Rightarrow> u32 \<Rightarrow> u32 \<Rightarrow> u32 \<Rightarrow> u32 list" where
  "nvme_command opcode command_id nsid prp suffix1 suffix2 suffix3 =
     [opcode OR push_bit 16 (ucast command_id), nsid, 0, 0, 0, 0, ucast prp, ucast (drop_bit 32 prp), 0, 0,
      suffix1, suffix2, suffix3, 0, 0, 0]"

definition cq_status :: "u64 \<Rightarrow> u8 \<Rightarrow> 'z paging_state_scheme \<Rightarrow> u16" where
  "cq_status cq head st = of_nat (le_nat (page_bytes 2 (cq + 16 * ucast head + 14) st))"

definition cq_command :: "u64 \<Rightarrow> u8 \<Rightarrow> 'z paging_state_scheme \<Rightarrow> u16" where
  "cq_command cq head st = of_nat (le_nat (page_bytes 2 (cq + 16 * ucast head + 12) st))"

definition cq_sq_head :: "u64 \<Rightarrow> u8 \<Rightarrow> 'z paging_state_scheme \<Rightarrow> u16" where
  "cq_sq_head cq head st = of_nat (le_nat (page_bytes 2 (cq + 16 * ucast head + 8) st))"

definition queue_next :: "u8 \<Rightarrow> u8" where
  "queue_next tail = of_nat ((unat tail + 1) mod NVME_QUEUE_SIZE)"

definition doorbell :: "nat \<Rightarrow> u32 \<Rightarrow> 'z device_state_scheme \<Rightarrow> u64 res" where
  "doorbell i k st =
     res_bind (nvme_dev i st) (\<lambda>dev.
     res_bind (array_get (pci_devices st) (nv_pci_device dev)) (\<lambda>pci.
     res_bind (shl32 4 (dstrd_exponent dev)) (\<lambda>stride.
       Inr (mmio_virt_base pci + 0x1000 + ucast (k * stride)))))"

definition iosq_full :: "nat \<Rightarrow> 'z device_state_scheme \<Rightarrow> bool" where
  "iosq_full i st \<longleftrightarrow> i < length (nvme_devices st) \<and>
     (unat (iosq_tail (nvme_devices st ! i)) + 1) mod NVME_QUEUE_SIZE = unat (iosq_head (nvme_devices st ! i))"

section \<open>Transfers\<close>

text \<open>
  \<^verbatim>\<open>nvme_readpage\<close> and \<^verbatim>\<open>nvme_writepage\<close> differ in the opcode and the name in the message only.
\<close>

definition nvme_page_command ::
  "('z device_state_scheme) hardware \<Rightarrow> u32 \<Rightarrow> string \<Rightarrow> nat \<Rightarrow> u32 \<Rightarrow> u64 \<Rightarrow> 'z device_state_scheme \<Rightarrow> 'z device_state_scheme res" where
  "nvme_page_command hw opcode name i lba page st =
     res_bind (poll_while (hw_polls hw) (iosq_full i) (hw_yield hw) st) (\<lambda>st1.
     res_bind (start_command i st1) (\<lambda>(st2, command_id).
     res_bind (nvme_dev i st2) (\<lambda>dev.
     res_bind (shr32 4095 (lbads_exponent dev)) (\<lambda>nlb.
     let entry = nvme_command opcode command_id 1 (page - hhdm_offset st2) lba 0 nlb;
         st3 = store_page (iosq dev + 64 * ucast (iosq_tail dev)) (sq_entry_bytes entry) st2;
         st4 = upd_nvme i (\<lambda>d. d\<lparr>iosq_tail := queue_next (iosq_tail d)\<rparr>) st3;
         completion = iocq_head dev
     in res_bind (doorbell i 2 st4) (\<lambda>db.
        let st5 = hw_mmio_write32 hw db (ucast (queue_next (iosq_tail dev))) st4
        in res_bind (await_command_finish hw i command_id st5) (\<lambda>st6.
           res_bind (free_command i command_id st6) (\<lambda>st7.
           res_bind (nvme_dev i st7) (\<lambda>dev7.
           let status = drop_bit 1 (cq_status (iocq dev7) completion st7)
           in if status \<noteq> 0
              then res_bind (printk (u8p (name @ '' command error: '')) st7) (\<lambda>st8.
                   res_bind (printk_uint16 status st8) (\<lambda>st9. printk (u8p [CHR 0x0A]) st9))
              else Inr st7))))))))"

definition nvme_readpage ::
  "('z device_state_scheme) hardware \<Rightarrow> nat \<Rightarrow> u32 \<Rightarrow> u64 \<Rightarrow> 'z device_state_scheme \<Rightarrow> 'z device_state_scheme res" where
  "nvme_readpage hw = nvme_page_command hw 0x02 ''Read''"

definition nvme_writepage ::
  "('z device_state_scheme) hardware \<Rightarrow> nat \<Rightarrow> u32 \<Rightarrow> u64 \<Rightarrow> 'z device_state_scheme \<Rightarrow> 'z device_state_scheme res" where
  "nvme_writepage hw = nvme_page_command hw 0x01 ''Write''"

text \<open>The logical block where the page of an offset starts.\<close>

definition nvme_lba :: "nvme_device \<Rightarrow> u64 \<Rightarrow> u32 res" where
  "nvme_lba dev offset =
     (if lbads_exponent dev > 12 then Inl Invalid_Access
      else Inr (ucast (push_bit (12 - unat (lbads_exponent dev)) (drop_bit 12 offset))))"

definition nvme_bytes_left :: "nvme_device \<Rightarrow> u64 \<Rightarrow> u64 res" where
  "nvme_bytes_left dev offset =
     res_bind (shl64 (lba_count dev) (lbads_exponent dev)) (\<lambda>total.
       Inr (if total - offset <s 0 then 0 else total - offset))"

definition nvme_chunk :: "u64 \<Rightarrow> u64 \<Rightarrow> u64" where
  "nvme_chunk offset bytes_remaining =
     (if 4096 - offset mod 4096 > bytes_remaining then bytes_remaining else 4096 - offset mod 4096)"

lemma unat_nvme_chunk:
  assumes "k \<le> len"
  shows "unat (nvme_chunk offset (len - k)) = min (4096 - unat offset mod 4096) (unat len - unat k)"
    and "unat (k + nvme_chunk offset (len - k)) = unat k + unat (nvme_chunk offset (len - k))"
proof -
  have m: "unat (offset mod 4096) = unat offset mod 4096" by (simp add: unat_mod_distrib)
  have "unat offset mod 4096 < 4096" by simp
  then have p: "unat (4096 - offset mod 4096) = 4096 - unat offset mod 4096"
    unfolding m [symmetric] by (subst unat_sub_no_wrap) (simp_all add: word_le_nat_alt)
  have r: "unat (len - k) = unat len - unat k" using assms by (rule unat_sub_no_wrap)
  show c: "unat (nvme_chunk offset (len - k)) = min (4096 - unat offset mod 4096) (unat len - unat k)"
    using p r by (auto simp: nvme_chunk_def word_less_nat_alt min_def)
  show "unat (k + nvme_chunk offset (len - k)) = unat k + unat (nvme_chunk offset (len - k))"
    using c assms unat_lt_64 [of len] by (intro unat_add_no_wrap) (simp add: word_le_nat_alt)
qed

lemma nvme_chunk_progress:
  assumes "\<not> \<not> k < len"
  shows "unat (len - (k + nvme_chunk offset (len - k))) < unat (len - k)"
proof -
  have lt: "unat k < unat len" "k \<le> len" using assms by (simp_all add: word_less_nat_alt word_le_nat_alt)
  note c = unat_nvme_chunk [OF lt(2), of offset]
  have "unat (nvme_chunk offset (len - k)) \<le> unat len - unat k" unfolding c(1) by simp
  then have "k + nvme_chunk offset (len - k) \<le> len" using c(2) lt(1) by (simp add: word_le_nat_alt)
  then have "unat (len - (k + nvme_chunk offset (len - k))) = unat len - (unat k + unat (nvme_chunk offset (len - k)))"
    by (simp add: unat_sub_no_wrap c(2))
  moreover have "unat offset mod 4096 < 4096" by simp
  then have "0 < unat (nvme_chunk offset (len - k))" using c(1) lt by simp
  moreover have "unat (len - k) = unat len - unat k" using lt(2) by (rule unat_sub_no_wrap)
  ultimately show ?thesis using lt by simp
qed

function nvme_read_loop ::
  "('z device_state_scheme) hardware \<Rightarrow> nat \<Rightarrow> u64 \<Rightarrow> u64 \<Rightarrow> u64 \<Rightarrow> u64 \<Rightarrow> u8 list \<Rightarrow> 'z device_state_scheme \<Rightarrow>
   ('z device_state_scheme \<times> u8 list) res" where
  "nvme_read_loop hw i temp_page len offset k buffer st =
     (if \<not> k < len then Inr (st, buffer)
      else res_bind (nvme_dev i st) (\<lambda>dev.
           res_bind (nvme_lba dev offset) (\<lambda>lba.
           res_bind (nvme_readpage hw i lba temp_page st) (\<lambda>st1.
           let n = nvme_chunk offset (len - k)
           in res_bind (blit buffer (unat k) (page_bytes 4096 temp_page st1) (unat (offset mod 4096)) (unat n)) (\<lambda>buffer1.
                nvme_read_loop hw i temp_page len (offset + n) (k + n) buffer1 st1)))))"
  by pat_completeness auto
termination
  by (relation "measure (\<lambda>(hw, i, page, len, offset, k, buffer, st). unat (len - k))")
    (simp, simp only: in_measure prod.case, rule nvme_chunk_progress)

declare nvme_read_loop.simps [simp del]

definition nvme_read ::
  "('z device_state_scheme) hardware \<Rightarrow> u64 \<Rightarrow> u8 list \<Rightarrow> u64 \<Rightarrow> u64 \<Rightarrow> 'z device_state_scheme \<Rightarrow>
   ('z device_state_scheme \<times> u8 list \<times> u64) res" where
  "nvme_read hw dev buffer offset len st =
     res_bind (nvme_of dev st) (\<lambda>i.
     res_bind (kpage_alloc 1 st) (\<lambda>(st1, temp_page).
     res_bind (nvme_bytes_left (nvme_devices st1 ! i) offset) (\<lambda>bytes_readable.
     let n = (if bytes_readable <s len then bytes_readable else len)
     in res_bind (nvme_read_loop hw i temp_page n offset 0 buffer st1) (\<lambda>(st2, buffer2).
        res_bind (kpage_free temp_page 1 st2) (\<lambda>st3. Inr (st3, buffer2, n))))))"

function nvme_write_loop ::
  "('z device_state_scheme) hardware \<Rightarrow> nat \<Rightarrow> u64 \<Rightarrow> u64 \<Rightarrow> u64 \<Rightarrow> u64 \<Rightarrow> u8 list \<Rightarrow> 'z device_state_scheme \<Rightarrow>
   'z device_state_scheme res" where
  "nvme_write_loop hw i temp_page len offset k buffer st =
     (if \<not> k < len then Inr st
      else res_bind (nvme_dev i st) (\<lambda>dev.
           res_bind (nvme_lba dev offset) (\<lambda>lba.
           res_bind (nvme_readpage hw i lba temp_page st) (\<lambda>st1.
           let n = nvme_chunk offset (len - k)
           in res_bind (blit (page_bytes 4096 temp_page st1) (unat (offset mod 4096)) buffer (unat k) (unat n)) (\<lambda>page1.
              res_bind (nvme_writepage hw i lba temp_page (store_page temp_page page1 st1)) (\<lambda>st2.
                nvme_write_loop hw i temp_page len (offset + n) (k + n) buffer st2))))))"
  by pat_completeness auto
termination
  by (relation "measure (\<lambda>(hw, i, page, len, offset, k, buffer, st). unat (len - k))")
    (simp, simp only: in_measure prod.case, rule nvme_chunk_progress)

declare nvme_write_loop.simps [simp del]

definition nvme_write ::
  "('z device_state_scheme) hardware \<Rightarrow> u64 \<Rightarrow> u8 list \<Rightarrow> u64 \<Rightarrow> u64 \<Rightarrow> 'z device_state_scheme \<Rightarrow>
   ('z device_state_scheme \<times> u64) res" where
  "nvme_write hw dev buffer offset len st =
     res_bind (nvme_of dev st) (\<lambda>i.
     res_bind (kpage_alloc 1 st) (\<lambda>(st1, temp_page).
     res_bind (nvme_bytes_left (nvme_devices st1 ! i) offset) (\<lambda>bytes_writeable.
     let n = (if len > bytes_writeable then bytes_writeable else len)
     in res_bind (nvme_write_loop hw i temp_page n offset 0 buffer st1) (\<lambda>st2.
        res_bind (kpage_free temp_page 1 st2) (\<lambda>st3. Inr (st3, n))))))"

definition nvme_device_fops :: "('z device_state_scheme) hardware \<Rightarrow> 'z device_state_scheme file_operations" where
  "nvme_device_fops hw = \<lparr>fo_write = nvme_write hw, fo_read = nvme_read hw\<rparr>"

section \<open>Interrupts\<close>

text \<open>
  One completion queue: while the phase bit of the head entry is new, its command is finished. The
  controller can post at most a queue of entries while the loop runs: the loop is bounded by \<open>hw_polls\<close>.
  The queue's variables of the device are reached through \<open>get\<close> and \<open>put\<close>: head, phase and the submission
  queue's head.
\<close>

fun drain_cq ::
  "nat \<Rightarrow> nat \<Rightarrow> (nvme_device \<Rightarrow> u64 \<times> u8 \<times> bool) \<Rightarrow> (u8 \<Rightarrow> bool \<Rightarrow> u8 \<Rightarrow> nvme_device \<Rightarrow> nvme_device) \<Rightarrow> bool \<Rightarrow>
   'z device_state_scheme \<Rightarrow> ('z device_state_scheme \<times> bool) res" where
  "drain_cq 0 i get put needed st = Inl Diverges"
| "drain_cq (Suc n) i get put needed st =
     res_bind (nvme_dev i st) (\<lambda>dev. case get dev of (cq, head, phase) \<Rightarrow>
       if (cq_status cq head st AND 1 = 1) = phase then Inr (st, needed)
       else res_bind (finish_command i (cq_command cq head st) st) (\<lambda>st1.
            let head1 = head + 1; sq_head = ucast (cq_sq_head cq head st1)
            in if head1 = of_nat NVME_QUEUE_SIZE
               then drain_cq n i get put True (upd_nvme i (put 0 (\<not> phase) sq_head) st1)
               else drain_cq n i get put True (upd_nvme i (put head1 phase sq_head) st1)))"

definition acq_get :: "nvme_device \<Rightarrow> u64 \<times> u8 \<times> bool" where
  "acq_get dev = (acq dev, acq_head dev, acq_phase dev)"

definition acq_put :: "u8 \<Rightarrow> bool \<Rightarrow> u8 \<Rightarrow> nvme_device \<Rightarrow> nvme_device" where
  "acq_put head phase sq_head dev = dev\<lparr>acq_head := head, acq_phase := phase, asq_head := sq_head\<rparr>"

definition iocq_get :: "nvme_device \<Rightarrow> u64 \<times> u8 \<times> bool" where
  "iocq_get dev = (iocq dev, iocq_head dev, iocq_phase dev)"

definition iocq_put :: "u8 \<Rightarrow> bool \<Rightarrow> u8 \<Rightarrow> nvme_device \<Rightarrow> nvme_device" where
  "iocq_put head phase sq_head dev = dev\<lparr>iocq_head := head, iocq_phase := phase, iosq_head := sq_head\<rparr>"

definition nvme_interrupt_device ::
  "('z device_state_scheme) hardware \<Rightarrow> nat \<Rightarrow> 'z device_state_scheme \<Rightarrow> 'z device_state_scheme res" where
  "nvme_interrupt_device hw i st =
     res_bind (drain_cq (hw_polls hw) i acq_get acq_put False st) (\<lambda>(st1, acq_needed).
     res_bind (if acq_needed
               then res_bind (doorbell i 1 st1) (\<lambda>db.
                    Inr (hw_mmio_write32 hw db (ucast (acq_head (nvme_devices st1 ! i))) st1))
               else Inr st1) (\<lambda>st2.
     res_bind (drain_cq (hw_polls hw) i iocq_get iocq_put False st2) (\<lambda>(st3, iocq_needed).
       if iocq_needed
       then res_bind (doorbell i 3 st3) (\<lambda>db.
            Inr (hw_mmio_write32 hw db (ucast (iocq_head (nvme_devices st3 ! i))) st3))
       else Inr st3)))"

definition nvme_handle_interrupt ::
  "('z device_state_scheme) hardware \<Rightarrow> u8 \<Rightarrow> 'z device_state_scheme \<Rightarrow> 'z device_state_scheme res" where
  "nvme_handle_interrupt hw line st =
     res_fold (nvme_interrupt_device hw) [0..<length (nvme_devices st)] st"

end
