(* ===== verification/NvmePart.thy ===== *)
theory NvmePart
  imports Nvme
begin

text \<open>
  \<^verbatim>\<open>kernel/src/drivers/nvmepart.c\<close>: GPT partitions of NVMe devices. A partition is a window of its
  device: its reads and writes are clamped to the last block and moved by the first.
\<close>

record gpt_partition_entry =
  pe_type_guid :: "u32 list"
  pe_guid :: "u32 list"
  first_lba_low :: u32
  first_lba_high :: u32
  last_lba_low :: u32
  last_lba_high :: u32
  pe_attributes :: "u8 list"
  partition_name_utf16 :: "u8 list"

definition word_field :: "u8 list \<Rightarrow> nat \<Rightarrow> u32" where
  "word_field bytes offset = of_nat (le_nat (take 4 (drop offset bytes)))"

definition gpt_entry_of :: "u8 list \<Rightarrow> gpt_partition_entry" where
  "gpt_entry_of b = \<lparr>pe_type_guid = map (\<lambda>k. word_field b (4 * k)) [0..<4],
     pe_guid = map (\<lambda>k. word_field b (16 + 4 * k)) [0..<4],
     first_lba_low = word_field b 32, first_lba_high = word_field b 36,
     last_lba_low = word_field b 40, last_lba_high = word_field b 44,
     pe_attributes = take 8 (drop 48 b), partition_name_utf16 = take 72 (drop 56 b)\<rparr>"

text \<open>The ASCII name: every second byte, up to the first zero, in a cleared array of 37 bytes.\<close>

definition ascii_name :: "u8 list \<Rightarrow> u8 list" where
  "ascii_name utf16 =
     (let chars = takeWhile (\<lambda>c. c \<noteq> 0) (map (\<lambda>k. utf16 ! (2 * k)) [0..<36])
      in chars @ replicate (37 - length chars) 0)"

definition print_all :: "u8 list list \<Rightarrow> 'z tty_state_scheme \<Rightarrow> 'z tty_state_scheme res" where
  "print_all = res_fold printk"

text \<open>One partition entry; the result tells whether the probe goes on.\<close>

definition nvmepart_entry ::
  "nat \<Rightarrow> u8 list \<Rightarrow> u32 \<Rightarrow> u32 \<Rightarrow> 'z fs_state_scheme \<Rightarrow> ('z fs_state_scheme \<times> bool) res" where
  "nvmepart_entry i disk_start partition_entry_size pnum st =
     (let partition_entry_offset = 0x400 + pnum * partition_entry_size
      in if partition_entry_size + partition_entry_offset > 4096 * 5
         then res_bind (printk (u8p (''GPT partition entries go past disk_start_buffer'' @ [CHR 0x0A])) st) (\<lambda>st1. Inr (st1, False))
         else if length disk_start < unat partition_entry_offset + 128 then Inl Invalid_Access
         else
           let pe = gpt_entry_of (drop (unat partition_entry_offset) disk_start)
           in if pe_type_guid pe = [0, 0, 0, 0] then Inr (st, True)
              else if first_lba_high pe \<noteq> 0
              then res_bind (printk (u8p (''GPT partition start exceeds 2TB'' @ [CHR 0x0A])) st) (\<lambda>st1. Inr (st1, False))
              else if last_lba_high pe \<noteq> 0
              then res_bind (printk (u8p (''GPT partition end exceeds 2TB'' @ [CHR 0x0A])) st) (\<lambda>st1. Inr (st1, False))
              else
                let device_number = length (nvmepart_devices st);
                    partition = \<lparr>np_nvme_device = i, partition_type_guid = pe_type_guid pe, partition_guid = pe_guid pe,
                      first_lba = ucast (first_lba_low pe), last_lba = ucast (last_lba_low pe),
                      partition_name = ascii_name (partition_name_utf16 pe)\<rparr>;
                    name = u8p ''nvme'' @ [48 + of_nat i] @ u8p ''p'' @ [49 + ucast pnum]
                in if device_number \<ge> MAX_NVMEPART_DEVICES then Inl Invalid_Access
                   else let st1 = st\<lparr>nvmepart_devices := nvmepart_devices st @ [partition]\<rparr>
                        in res_bind (vfs_mknod (vfs_dev_dir_inode st1) name DEVICE_NVMEPART (of_nat device_number)
                                       Nvmepart_Fops (nvmepart_addr device_number) st1) (\<lambda>(st2, inode). Inr (st2, True)))"

fun nvmepart_entries ::
  "nat \<Rightarrow> u8 list \<Rightarrow> u32 \<Rightarrow> nat \<Rightarrow> nat \<Rightarrow> 'z fs_state_scheme \<Rightarrow> 'z fs_state_scheme res" where
  "nvmepart_entries i disk_start entry_size pnum 0 st = Inr st"
| "nvmepart_entries i disk_start entry_size pnum (Suc n) st =
     res_bind (nvmepart_entry i disk_start entry_size (of_nat pnum) st) (\<lambda>(st1, more).
       if more then nvmepart_entries i disk_start entry_size (Suc pnum) n st1 else Inr st1)"

text \<open>The probe keeps its buffer of five pages: no path frees it.\<close>

definition nvmepart_probe ::
  "('z fs_state_scheme) hardware \<Rightarrow> nat \<Rightarrow> 'z fs_state_scheme \<Rightarrow> 'z fs_state_scheme res" where
  "nvmepart_probe hw i st =
     res_bind (kpage_alloc 5 st) (\<lambda>(st1, disk_start_buffer).
     res_bind (res_fold (\<lambda>k. nvme_readpage hw i (8 * of_nat k) (disk_start_buffer + 4096 * of_nat k)) [0..<5] st1) (\<lambda>st2.
     let disk_start = page_bytes (5 * 4096) disk_start_buffer st2
     in if take 8 (drop 0x200 disk_start) \<noteq> u8p ''EFI PART''
        then res_bind (printk (u8p ''No GPT found on nvme device 0x'') st2) (\<lambda>st3.
             res_bind (printk_uint8 (of_nat i) st3) (\<lambda>st4. printk (u8p [CHR 0x0A]) st4))
        else nvmepart_entries i disk_start (word_field disk_start 0x254) 0 (unat (word_field disk_start 0x250)) st2))"

section \<open>Transfers\<close>

text \<open>Where the partition's bytes start on the device, and how many remain from an offset of it on.\<close>

definition nvmepart_window ::
  "u64 \<Rightarrow> u64 \<Rightarrow> 'z device_state_scheme \<Rightarrow> (nat \<times> u64 \<times> u64) res" where
  "nvmepart_window dev offset st =
     res_bind (nvmepart_of dev st) (\<lambda>p.
     let partition = nvmepart_devices st ! p
     in res_bind (nvme_dev (np_nvme_device partition) st) (\<lambda>nvme.
        res_bind (shl64 (first_lba partition) (lbads_exponent nvme)) (\<lambda>start.
        res_bind (shl64 (last_lba partition + 1) (lbads_exponent nvme)) (\<lambda>limit.
          Inr (np_nvme_device partition, offset + start, limit - (offset + start))))))"

definition nvmepart_read ::
  "('z device_state_scheme) hardware \<Rightarrow> u64 \<Rightarrow> u8 list \<Rightarrow> u64 \<Rightarrow> u64 \<Rightarrow> 'z device_state_scheme \<Rightarrow>
   ('z device_state_scheme \<times> u8 list \<times> u64) res" where
  "nvmepart_read hw dev buffer offset len st =
     res_bind (nvmepart_window dev offset st) (\<lambda>(i, nvme_device_offset, readable_length).
       nvme_read hw (nvme_addr i) buffer nvme_device_offset (if len > readable_length then readable_length else len) st)"

definition nvmepart_write ::
  "('z device_state_scheme) hardware \<Rightarrow> u64 \<Rightarrow> u8 list \<Rightarrow> u64 \<Rightarrow> u64 \<Rightarrow> 'z device_state_scheme \<Rightarrow>
   ('z device_state_scheme \<times> u64) res" where
  "nvmepart_write hw dev buffer offset len st =
     res_bind (nvmepart_window dev offset st) (\<lambda>(i, nvme_device_offset, writable_length).
       nvme_write hw (nvme_addr i) buffer nvme_device_offset (if len > writable_length then writable_length else len) st)"

definition nvmepart_device_fops :: "('z device_state_scheme) hardware \<Rightarrow> 'z device_state_scheme file_operations" where
  "nvmepart_device_fops hw = \<lparr>fo_write = nvmepart_write hw, fo_read = nvmepart_read hw\<rparr>"

end
