(* ===== verification/Probe.thy ===== *)
theory Probe
  imports NvmePart
begin

text \<open>
  Detection of devices: \<^verbatim>\<open>pci_probe\<close> of \<^verbatim>\<open>pci.c\<close>, \<^verbatim>\<open>nvme_probe_1\<close>, \<^verbatim>\<open>nvme_probe_2\<close> and
  \<^verbatim>\<open>nvme_probe_contents\<close> of \<^verbatim>\<open>nvme.c\<close>, and the timer's programming of \<^verbatim>\<open>pit.c\<close>. The four administration
  commands of \<^verbatim>\<open>nvme_probe_contents\<close> share \<open>nvme_admin_command\<close>.
\<close>

section \<open>NVMe in boot context\<close>

text \<open>A device of the static array before its first use: zero.\<close>

definition blank_nvme :: "nat \<Rightarrow> nvme_device" where
  "blank_nvme pci = \<lparr>nv_pci_device = pci, major_version = 0, minor_version = 0, dstrd_exponent = 0, lbads_exponent = 0,
     metadata_size = 0, lba_count = 0, asq = 0, asq_tail = 0, asq_head = 0, acq = 0, acq_head = 0, acq_phase = False,
     iosq = 0, iosq_tail = 0, iosq_head = 0, iocq = 0, iocq_head = 0, iocq_phase = False,
     command_statuses = replicate NVME_MAX_COMMANDS 0, admin_result_buffer = 0\<rparr>"

definition upd_pci :: "nat \<Rightarrow> (pci_device \<Rightarrow> pci_device) \<Rightarrow> 'z device_state_scheme \<Rightarrow> 'z device_state_scheme" where
  "upd_pci i f st = st\<lparr>pci_devices := (pci_devices st)[i := f (pci_devices st ! i)]\<rparr>"

definition nvme_probe_1 :: "nat \<Rightarrow> 'z fs_state_scheme \<Rightarrow> 'z fs_state_scheme res" where
  "nvme_probe_1 pci st =
     (let device_number = length (nvme_devices st)
      in if device_number \<ge> MAX_NVME_DEVICES then Inl Invalid_Access
         else
           let st1 = st\<lparr>nvme_devices := nvme_devices st @ [blank_nvme pci]\<rparr>;
               name = u8p ''nvme'' @ [48 + of_nat device_number]
           in res_bind (vfs_mknod (vfs_dev_dir_inode st1) name DEVICE_NVME (of_nat device_number) Nvme_Fops
                          (nvme_addr device_number) st1) (\<lambda>(st2, inode).
              res_bind (array_get (pci_devices st2) pci) (\<lambda>dev.
              let num_device_pages = drop_bit 12 (ucast (mmio_size dev) :: u64);
                  (st3, base) = dpage_alloc num_device_pages st2;
                  st4 = upd_pci pci (\<lambda>d. d\<lparr>mmio_virt_base := base\<rparr>) st3
              in res_fold (\<lambda>i st. set_page_mapping (cr3_reg st + hhdm_offset st) (base + of_nat i * PAGE_SIZE)
                              (mmio_phys_base dev + of_nat i * PAGE_SIZE) True st)
                   [0..<unat num_device_pages] st4)))"

section \<open>NVMe in task context\<close>

text \<open>
  An administration command: its entry, the doorbell, the wait, and the status of the completion entry
  that was at the head when the doorbell was rung.
\<close>

definition nvme_admin_command ::
  "('z device_state_scheme) hardware \<Rightarrow> nat \<Rightarrow> u32 \<Rightarrow> u32 \<Rightarrow> u64 \<Rightarrow> u32 \<Rightarrow> u32 \<Rightarrow> 'z device_state_scheme \<Rightarrow>
   ('z device_state_scheme \<times> u16) res" where
  "nvme_admin_command hw i opcode nsid prp suffix1 suffix2 st =
     res_bind (start_command i st) (\<lambda>(st1, command_id).
     res_bind (nvme_dev i st1) (\<lambda>dev.
     let entry = nvme_command opcode command_id nsid prp suffix1 suffix2 0;
         st2 = store_page (asq dev + 64 * ucast (asq_tail dev)) (sq_entry_bytes entry) st1;
         st3 = upd_nvme i (\<lambda>d. d\<lparr>asq_tail := queue_next (asq_tail d)\<rparr>) st2;
         completion = acq_head dev
     in res_bind (doorbell i 0 st3) (\<lambda>db.
        let st4 = hw_mmio_write32 hw db (ucast (queue_next (asq_tail dev))) st3
        in res_bind (await_command_finish hw i command_id st4) (\<lambda>st5.
           res_bind (free_command i command_id st5) (\<lambda>st6.
           res_bind (nvme_dev i st6) (\<lambda>dev6.
             Inr (st6, drop_bit 1 (cq_status (acq dev6) completion st6))))))))"

definition asq_full :: "nat \<Rightarrow> 'z device_state_scheme \<Rightarrow> bool" where
  "asq_full i st \<longleftrightarrow> i < length (nvme_devices st) \<and>
     (unat (asq_tail (nvme_devices st ! i)) + 1) mod NVME_QUEUE_SIZE = unat (asq_head (nvme_devices st ! i))"

definition print_status :: "string \<Rightarrow> u16 \<Rightarrow> 'z tty_state_scheme \<Rightarrow> 'z tty_state_scheme res" where
  "print_status message status st =
     res_bind (printk (u8p message) st) (\<lambda>st1.
     res_bind (printk_uint16 status st1) (\<lambda>st2. printk (u8p [CHR 0x0A]) st2))"

text \<open>\<^verbatim>\<open>CC.IOCQES\<close> and \<^verbatim>\<open>CC.IOSQES\<close> from the identify data (bytes 513 and 512): the minimal entry sizes.\<close>

definition nvme_set_entry_sizes ::
  "('z device_state_scheme) hardware \<Rightarrow> nat \<Rightarrow> 'z device_state_scheme \<Rightarrow> 'z device_state_scheme res" where
  "nvme_set_entry_sizes hw i st =
     res_bind (nvme_dev i st) (\<lambda>dev.
     res_bind (array_get (pci_devices st) (nv_pci_device dev)) (\<lambda>pci.
     let sqes_exponent = frame_bytes st (admin_result_buffer dev + 512) AND 0xF;
         cqes_exponent = frame_bytes st (admin_result_buffer dev + 513) AND 0xF;
         (st1, cc) = hw_mmio_read hw (mmio_virt_base pci + 0x14) st
     in Inr (hw_mmio_write32 hw (mmio_virt_base pci + 0x14)
               ((cc AND 0xFF00FFFF) OR push_bit 20 (ucast cqes_exponent) OR push_bit 16 (ucast sqes_exponent)) st1)))"

definition nvme_read_namespace :: "nat \<Rightarrow> 'z device_state_scheme \<Rightarrow> 'z device_state_scheme res" where
  "nvme_read_namespace i st =
     res_bind (nvme_dev i st) (\<lambda>dev.
     let result = admin_result_buffer dev;
         flbas = frame_bytes st (result + 26) AND 0xF;
         lbaf = of_nat (le_nat (page_bytes 4 (result + 128 + 4 * ucast flbas) st)) :: u32
     in Inr (upd_nvme i (\<lambda>d. d\<lparr>lba_count := of_nat (le_nat (page_bytes 8 result st)),
                lbads_exponent := ucast (drop_bit 16 lbaf AND 0xFF), metadata_size := ucast (lbaf AND 0xFFFF)\<rparr>) st))"

definition NVME_QUEUE_SIZE_MINUS_ONE :: u32 where "NVME_QUEUE_SIZE_MINUS_ONE = 63"

definition nvme_create_queues ::
  "('z fs_state_scheme) hardware \<Rightarrow> nat \<Rightarrow> 'z fs_state_scheme \<Rightarrow> 'z fs_state_scheme res" where
  "nvme_create_queues hw i st =
     res_bind (poll_while (hw_polls hw) (asq_full i) (hw_yield hw) st) (\<lambda>st1.
     res_bind (nvme_dev i st1) (\<lambda>dev1.
     res_bind (nvme_admin_command hw i 0x05 0 (iocq dev1 - hhdm_offset st1)
                 (push_bit 16 NVME_QUEUE_SIZE_MINUS_ONE OR 1) 3 st1) (\<lambda>(st2, status2).
       if status2 \<noteq> 0 then print_status ''Create IOCQ command error: '' status2 st2
       else res_bind (poll_while (hw_polls hw) (asq_full i) (hw_yield hw) st2) (\<lambda>st3.
            res_bind (nvme_dev i st3) (\<lambda>dev3.
            res_bind (nvme_admin_command hw i 0x01 0 (iosq dev3 - hhdm_offset st3)
                        (push_bit 16 NVME_QUEUE_SIZE_MINUS_ONE OR 1) (push_bit 16 1 OR 1) st3) (\<lambda>(st4, status4).
              if status4 \<noteq> 0 then print_status ''Create IOSQ command error: '' status4 st4
              else nvmepart_probe hw i st4))))))"

text \<open>The first wait for room in the queue does not yield: nothing can change while it runs.\<close>

definition nvme_probe_contents ::
  "('z fs_state_scheme) hardware \<Rightarrow> nat \<Rightarrow> 'z fs_state_scheme \<Rightarrow> 'z fs_state_scheme res" where
  "nvme_probe_contents hw i st =
     (if asq_full i st then Inl Diverges
      else res_bind (nvme_dev i st) (\<lambda>dev.
       let result_phys = admin_result_buffer dev - hhdm_offset st
       in res_bind (nvme_admin_command hw i 0x06 0 result_phys 1 0 st) (\<lambda>(st1, status1).
            if status1 \<noteq> 0 then print_status ''Identify controller command error: '' status1 st1
            else
              let cntrltype = frame_bytes st1 (admin_result_buffer dev + 111)
              in if cntrltype > 1
                 then res_bind (printk (u8p ''Bad controller type: '') st1) (\<lambda>st2.
                      res_bind (printk_uint8 cntrltype st2) (\<lambda>st3. printk (u8p [CHR 0x0A]) st3))
                 else res_bind (nvme_set_entry_sizes hw i st1) (\<lambda>st2.
                      res_bind (nvme_admin_command hw i 0x06 1 result_phys 0 0 st2) (\<lambda>(st3, status3).
                        if status3 \<noteq> 0 then print_status ''Identify namespace command error: '' status3 st3
                        else res_bind (nvme_read_namespace i st3) (nvme_create_queues hw i))))))"

text \<open>One of the five pages that \<^verbatim>\<open>nvme_probe_2\<close> allocates; they are cleared afterwards.\<close>

fun alloc_pages :: "nat \<Rightarrow> 'z paging_state_scheme \<Rightarrow> ('z paging_state_scheme \<times> u64 list) res" where
  "alloc_pages 0 st = Inr (st, [])"
| "alloc_pages (Suc n) st =
     res_bind (kpage_alloc 1 st) (\<lambda>(st1, page). res_bind (alloc_pages n st1) (\<lambda>(st2, pages). Inr (st2, page # pages)))"

definition clear_page :: "u64 \<Rightarrow> 'z paging_state_scheme \<Rightarrow> 'z paging_state_scheme" where
  "clear_page page st = store_page page (replicate 4096 0) st"

text \<open>A polling loop on the ready register (offset \<open>0x1C\<close>), with or without yielding.\<close>

fun await_register ::
  "nat \<Rightarrow> 's hardware \<Rightarrow> u64 \<Rightarrow> (u32 \<Rightarrow> bool) \<Rightarrow> ('s \<Rightarrow> 's res) \<Rightarrow> 's \<Rightarrow> 's res" where
  "await_register 0 hw a ready step st = Inl Diverges"
| "await_register (Suc n) hw a ready step st =
     (let (st1, v) = hw_mmio_read hw a st
      in if ready v then Inr st1 else res_bind (step st1) (await_register n hw a ready step))"

definition nvme_enable :: "('z device_state_scheme) hardware \<Rightarrow> u64 \<Rightarrow> u64 \<Rightarrow> u64 \<Rightarrow> 'z device_state_scheme \<Rightarrow> 'z device_state_scheme res" where
  "nvme_enable hw base admin_submission_queue admin_completion_queue st =
     (let (st1, cc) = hw_mmio_read hw (base + 0x14) st;
          st2 = hw_mmio_write32 hw (base + 0x14) (cc AND 0xFFFFFFFE) st1
      in res_bind (await_register (hw_polls hw) hw (base + 0x1C) (\<lambda>v. v AND 1 = 0) Inr st2) (\<lambda>st3.
         let st4 = hw_mmio_write64 hw (base + 0x28) (admin_submission_queue - hhdm_offset st3) st3;
             st5 = hw_mmio_write64 hw (base + 0x30) (admin_completion_queue - hhdm_offset st4) st4;
             st6 = hw_mmio_write32 hw (base + 0x24) (push_bit 16 NVME_QUEUE_SIZE_MINUS_ONE OR NVME_QUEUE_SIZE_MINUS_ONE) st5;
             (st7, cc7) = hw_mmio_read hw (base + 0x14) st6;
             st8 = hw_mmio_write32 hw (base + 0x14) (cc7 OR 1) st7
         in await_register (hw_polls hw) hw (base + 0x1C) (\<lambda>v. v \<noteq> 0) (hw_yield hw) st8))"

definition nvme_probe_2 ::
  "('z fs_state_scheme) hardware \<Rightarrow> nat \<Rightarrow> 'z fs_state_scheme \<Rightarrow> 'z fs_state_scheme res" where
  "nvme_probe_2 hw i st =
     res_bind (nvme_dev i st) (\<lambda>dev.
     res_bind (array_get (pci_devices st) (nv_pci_device dev)) (\<lambda>pci.
     let (st1, dword_4) = pci_config_read_dword hw (pci_bus pci) (pci_slot pci) (pci_function pci) 4 st;
         st2 = pci_config_write_dword hw (pci_bus pci) (pci_slot pci) (pci_function pci) 4
                 ((dword_4 OR 2 OR 4) AND NOT 0x400) st1
     in res_bind (alloc_pages 5 st2) (\<lambda>(st3, pages).
        let base = mmio_virt_base pci;
            st4 = fold clear_page pages st3
        in res_bind (nvme_enable hw base (pages ! 0) (pages ! 1) st4) (\<lambda>st5.
           let (st6, version) = hw_mmio_read hw (base + 0x8) st5;
               st7 = upd_nvme i (\<lambda>d. d\<lparr>major_version := ucast (drop_bit 16 version), minor_version := ucast (drop_bit 8 version),
                        dstrd_exponent := 0, asq := pages ! 0, asq_tail := 0, asq_head := 0,
                        acq := pages ! 1, acq_head := 0, acq_phase := False,
                        iosq := pages ! 2, iosq_tail := 0, iosq_head := 0,
                        iocq := pages ! 3, iocq_head := 0, iocq_phase := False, admin_result_buffer := pages ! 4,
                        command_statuses := replicate NVME_MAX_COMMANDS NVME_COMMAND_FREE\<rparr>) st6
           in nvme_probe_contents hw i st7))))"

section \<open>The PCI bus\<close>

text \<open>The base address from the two registers, \<^verbatim>\<open>None\<close> for an unsupported type.\<close>

definition bar_address :: "u32 \<Rightarrow> u32 \<Rightarrow> u64 option" where
  "bar_address bar0 bar1 =
     (let bar_type = drop_bit 1 (bar0 AND 7)
      in if bar_type = 0 then Some (ucast (bar0 AND 0xFFFFFFF0))
         else if bar_type = 2 then Some (push_bit 32 (ucast bar1) + ucast (bar0 AND 0xFFFFFFF0))
         else None)"

definition pci_bar_size ::
  "'s hardware \<Rightarrow> u8 \<Rightarrow> u8 \<Rightarrow> u8 \<Rightarrow> u32 \<Rightarrow> u64 \<Rightarrow> 's \<Rightarrow> 's \<times> u32" where
  "pci_bar_size hw bus slot func bar0 phys st =
     (if phys = 0 then (st, 0)
      else let st1 = pci_config_write_dword hw bus slot func 16 0xFFFFFFFF st;
               (st2, v) = pci_config_read_dword hw bus slot func 16 st1;
               st3 = pci_config_write_dword hw bus slot func 16 bar0 st2
           in (st3, NOT (v AND 0xFFFFF000) + 1))"

text \<open>One function of one device: the result tells whether the table is full.\<close>

definition pci_probe_function ::
  "('z fs_state_scheme) hardware \<Rightarrow> u8 \<Rightarrow> u8 \<Rightarrow> u8 \<Rightarrow> 'z fs_state_scheme \<Rightarrow> ('z fs_state_scheme \<times> bool) res" where
  "pci_probe_function hw bus slot func st =
     (let (st1, dword_0) = pci_config_read_dword hw bus slot func 0 st;
          vendor = ucast dword_0 :: u16
      in if vendor = 0xFFFF then Inr (st1, False)
         else
           let (st2, dword_8) = pci_config_read_dword hw bus slot func 8 st1;
               (st3, bar0) = pci_config_read_dword hw bus slot func 16 st2;
               (st4, bar1) = pci_config_read_dword hw bus slot func 20 st3
           in case bar_address bar0 bar1 of
                None \<Rightarrow> res_bind (printk (u8p (''Unsupported BAR type'' @ [CHR 0x0A])) st4) (\<lambda>st5. Inr (st5, False))
              | Some phys \<Rightarrow>
                  let (st5, bar_size) = pci_bar_size hw bus slot func bar0 phys st4;
                      (st6, dword_3C) = pci_config_read_dword hw bus slot func 0x3C st5;
                      dev = \<lparr>pci_bus = bus, pci_slot = slot, pci_function = func, vendor_id = vendor,
                             device_id = ucast (drop_bit 16 dword_0), class_code = ucast (drop_bit 24 dword_8),
                             pci_subclass = ucast (drop_bit 16 dword_8), prog_if = ucast (drop_bit 8 dword_8),
                             mmio_phys_base = phys, mmio_size = bar_size, mmio_virt_base = 0,
                             interrupt_line = ucast dword_3C\<rparr>;
                      n = length (pci_devices st6)
                  in if n \<ge> MAX_PCI_DEVICES then Inl Invalid_Access
                     else res_bind (if class_code dev = 1 \<and> pci_subclass dev = 8
                                    then nvme_probe_1 n (st6\<lparr>pci_devices := pci_devices st6 @ [dev]\<rparr>)
                                    else Inr (st6\<lparr>pci_devices := pci_devices st6 @ [dev]\<rparr>)) (\<lambda>st7.
                            Inr (st7, length (pci_devices st7) = MAX_PCI_DEVICES)))"

fun pci_probe_loop ::
  "('z fs_state_scheme) hardware \<Rightarrow> (nat \<times> nat \<times> nat) list \<Rightarrow> 'z fs_state_scheme \<Rightarrow> 'z fs_state_scheme res" where
  "pci_probe_loop hw [] st = Inr st"
| "pci_probe_loop hw ((bus, slot, func) # xs) st =
     res_bind (pci_probe_function hw (of_nat bus) (of_nat slot) (of_nat func) st) (\<lambda>(st1, full).
       if full then Inr st1 else pci_probe_loop hw xs st1)"

definition pci_probe :: "('z fs_state_scheme) hardware \<Rightarrow> 'z fs_state_scheme \<Rightarrow> 'z fs_state_scheme res" where
  "pci_probe hw st = pci_probe_loop hw (List.product [0..<255] (List.product [0..<32] [0..<8])) st"

section \<open>The timer\<close>

text \<open>The divisor, sent low byte first; frequency 0 would divide by zero.\<close>

definition pit_divisor :: "u32 \<Rightarrow> u32" where
  "pit_divisor frequency = 1193180 div frequency"

definition set_pit_channel ::
  "'s hardware \<Rightarrow> u8 \<Rightarrow> u16 \<Rightarrow> u32 \<Rightarrow> 's \<Rightarrow> 's res" where
  "set_pit_channel hw channel port frequency st =
     (if frequency = 0 then Inl Invalid_Access
      else let d = pit_divisor frequency
           in Inr (hw_outb hw port (ucast (drop_bit 8 d))
                    (hw_outb hw port (ucast d)
                      (hw_outb hw 0x43 (channel OR push_bit 4 3 OR push_bit 1 3) st))))"

definition set_pit_channel_0 :: "'s hardware \<Rightarrow> u32 \<Rightarrow> 's \<Rightarrow> 's res" where
  "set_pit_channel_0 hw = set_pit_channel hw (push_bit 6 0) 0x40"

definition set_pit_channel_2 :: "'s hardware \<Rightarrow> u32 \<Rightarrow> 's \<Rightarrow> 's res" where
  "set_pit_channel_2 hw = set_pit_channel hw (push_bit 6 2) 0x42"

end
