(* ===== verification/Interrupts.thy ===== *)
theory Interrupts
  imports Syscall Probe
begin

text \<open>
  \<^verbatim>\<open>kernel/src/arch/idt.c\<close>: the interrupt descriptor table, the handlers of exceptions and hardware
  interrupts, and \<^verbatim>\<open>pic.s\<close>. The entry points of \<^verbatim>\<open>idt.s\<close> save registers and call the handlers; their
  addresses are the argument \<open>isr\<close>. What the keyboard's ports answer is the argument \<open>ports\<close>, as in theory
  \<open>Keyboard\<close>.
\<close>

section \<open>State\<close>

record idt_entry =
  isr_low :: u16
  kernel_cs :: u16
  ist :: u8
  attributes :: u8
  isr_mid :: u16
  isr_high :: u32
  reserved :: u32

record cpu_state = kernel_state +
  idt :: "u8 \<Rightarrow> idt_entry"
  interrupts_enabled :: bool

definition KERNEL_CODE_GDT_ENTRY_IDX :: u16 where "KERNEL_CODE_GDT_ENTRY_IDX = 5"

definition idt_set_descriptor :: "u8 \<Rightarrow> u64 \<Rightarrow> u8 \<Rightarrow> 'z cpu_state_scheme \<Rightarrow> 'z cpu_state_scheme" where
  "idt_set_descriptor vector isr flags st =
     st\<lparr>idt := (idt st)(vector := (idt st vector)
          \<lparr>isr_low := ucast (isr AND 0xFFFF), kernel_cs := 8 * KERNEL_CODE_GDT_ENTRY_IDX, attributes := flags,
           isr_mid := ucast (drop_bit 16 isr), isr_high := ucast (drop_bit 32 isr), reserved := 0\<rparr>)\<rparr>"

section \<open>The interrupt controller\<close>

definition out_all :: "'s hardware \<Rightarrow> (u16 \<times> u8) list \<Rightarrow> 's \<Rightarrow> 's" where
  "out_all hw = fold (\<lambda>(port, v). hw_outb hw port v)"

definition pic_remap :: "'s hardware \<Rightarrow> 's \<Rightarrow> 's" where
  "pic_remap hw st =
     (let (st1, master_mask) = hw_inb hw 0x21 st;
          (st2, slave_mask) = hw_inb hw 0xA1 st1
      in out_all hw
           [(0x20, 0x11), (0x80, 0), (0xA0, 0x11), (0x80, 0), (0x21, 0x20), (0x80, 0), (0xA1, 0x28), (0x80, 0),
            (0x21, 4), (0x80, 0), (0xA1, 2), (0x80, 0), (0x21, 1), (0x80, 0), (0xA1, 1), (0x80, 0),
            (0x21, master_mask AND 0xF8), (0xA1, slave_mask AND 0xF1)] st2)"

definition pic_send_eoi :: "'s hardware \<Rightarrow> u8 \<Rightarrow> 's \<Rightarrow> 's" where
  "pic_send_eoi hw irq st =
     out_all hw ((if irq < 8 then [] else [(0xA0, 0x20)]) @ [(0x20, 0x20)]) st"

section \<open>Handlers\<close>

text \<open>
  The end of a faulting task; were control to come back to it, the handler would return to the faulting
  instruction. The stack at \<^verbatim>\<open>interrupt_rsp\<close> holds the instruction pointer behind ten saved words.
\<close>

definition fault_task ::
  "('z kernel_state_scheme) yields \<Rightarrow> u8 \<Rightarrow> 'z kernel_state_scheme \<Rightarrow> ('z kernel_state_scheme) outcome res" where
  "fault_task yields code st = yield_then yields (end_current code st) (\<lambda>st1. Inr (Return st1 0))"

definition page_fault_text :: "u64 \<Rightarrow> u64 \<Rightarrow> u64 \<Rightarrow> u8 list list" where
  "page_fault_text fault_rip access_address error_code =
     [u8p ''The instruction at 0x'', hex_string 16 (unat fault_rip), u8p '' referenced memory at 0x'',
      hex_string 16 (unat access_address), u8p ''. The memory could not be '',
      (if error_code AND 2 \<noteq> 0 then u8p ''written.'' else u8p ''read.''), u8p [CHR 0x0A]]"

definition cpu_exception_handler ::
  "('z kernel_state_scheme) yields \<Rightarrow> u64 \<Rightarrow> u64 \<Rightarrow> u64 \<Rightarrow> u64 \<Rightarrow> 'z kernel_state_scheme \<Rightarrow>
   ('z kernel_state_scheme) outcome res" where
  "cpu_exception_handler yields interrupt_number error_code interrupt_rsp arg1 st =
     (if interrupt_number = 0
      then res_bind (printk (u8p (''Division by zero'' @ [CHR 0x0A])) st) (fault_task yields 1)
      else if interrupt_number = 8 then Inl (Panic (''Double fault'' @ [CHR 0x0A]))
      else if interrupt_number = 13
      then res_bind (printk (u8p (''General protection fault'' @ [CHR 0x0A])) st) (fault_task yields (128 + 11))
      else if interrupt_number = 14
      then res_bind (res_fold printk (page_fault_text (stack_words st (interrupt_rsp + 8 * 10)) arg1 error_code) st)
             (fault_task yields 1)
      else Inl (Panic ''Unknown CPU exception''))"

definition hw_interrupt_handler ::
  "('z kernel_state_scheme) hardware \<Rightarrow> ('z kernel_state_scheme) drivers \<Rightarrow> ('z kernel_state_scheme) yields \<Rightarrow>
   (u8 \<times> u8) list \<Rightarrow> u32 \<Rightarrow> u64 \<Rightarrow> u64 \<Rightarrow> u64 \<Rightarrow> u64 \<Rightarrow> u64 \<Rightarrow> 'z kernel_state_scheme \<Rightarrow>
   ('z kernel_state_scheme) outcome res" where
  "hw_interrupt_handler hw devs yields ports interrupt_number arg1 arg2 arg3 arg4 arg5 st =
     (let line = ucast (interrupt_number - 0x20) :: u8
      in if line = 0x7 then Inr (Return st 0)
         else if line = 0x0
         then Inr (Return (pic_send_eoi hw line (st\<lparr>timer_ticks := timer_ticks st + 1\<rparr>)) 0)
         else if line = 0x1
         then res_bind (keyboard_rb_fill ports st) (\<lambda>st1. Inr (Return (pic_send_eoi hw line st1) 0))
         else if line = 0x9 \<or> line = 0xA \<or> line = 0xB
         then res_bind (nvme_handle_interrupt hw line st) (\<lambda>st1. Inr (Return (pic_send_eoi hw line st1) 0))
         else if line = 0x60 then handle_syscall devs yields arg1 arg2 arg3 arg4 arg5 st
         else Inl (Panic ''Unknown interrupt''))"

section \<open>Initialisation\<close>

definition idt_gates :: "(u8 \<times> u8) list" where
  "idt_gates = [(0, 0x8F), (8, 0x8F), (13, 0x8F), (14, 0x8F), (32, 0x8E), (33, 0x8E), (41, 0x8E), (42, 0x8E),
     (43, 0x8E), (128, 0xEE)]"

definition idt_init :: "('z cpu_state_scheme) hardware \<Rightarrow> (u8 \<Rightarrow> u64) \<Rightarrow> 'z cpu_state_scheme \<Rightarrow> 'z cpu_state_scheme res" where
  "idt_init hw isr st =
     (let st1 = fold (\<lambda>(vector, flags). idt_set_descriptor vector (isr vector) flags) idt_gates st
      in res_bind (set_pit_channel_0 hw (ucast TIMER_TICKS_PER_SECOND) (pic_remap hw st1)) (\<lambda>st2.
           Inr (st2\<lparr>interrupts_enabled := True\<rparr>)))"

end
