(* ===== verification/Tar.thy ===== *)
theory Tar
  imports Vfs CStd
begin

text \<open>
  \<^verbatim>\<open>kernel/src/fs/tar.c\<close> and \<^verbatim>\<open>tar.h\<close>: the files of the boot module, a tar archive, are created in the
  file system. The archive is memory \<open>m\<close> that nothing in the kernel writes. \<open>tar_image\<close> is what an
  archiver writes for a list of files; the loader does for each of them, in order, what
  \<open>install_file\<close> says of the file itself.
\<close>

section \<open>The loader\<close>

abbreviation FILEPATH_MAX_LENGTH :: nat where "FILEPATH_MAX_LENGTH \<equiv> 400"

definition bytes_at :: "mem \<Rightarrow> u64 \<Rightarrow> nat \<Rightarrow> u8 list" where
  "bytes_at m a n = map (\<lambda>i. m (a + of_nat i)) [0..<n]"

text \<open>The members of the header; the loader reads its name, size and type.\<close>

record tar_posix_header =
  th_name :: u64
  th_size :: u64
  th_typeflag :: u8

definition tar_header_at :: "mem \<Rightarrow> u64 \<Rightarrow> tar_posix_header" where
  "tar_header_at m a = \<lparr>th_name = a, th_size = a + 124, th_typeflag = m (a + 156)\<rparr>"

text \<open>
  The path without a trailing slash. The name is read up to its terminator, also behind the 100 bytes of
  its member; an empty one makes the code look at the byte before the buffer.
\<close>

definition tar_path :: "u64 \<Rightarrow> mem \<Rightarrow> u8 list res" where
  "tar_path name m =
     (case strlen name m of
        None \<Rightarrow> Inl Diverges
      | Some filepath_strlen \<Rightarrow>
          if unat filepath_strlen > FILEPATH_MAX_LENGTH then Inl (Panic ''File path too long'')
          else if filepath_strlen = 0 then Inl Invalid_Access
          else let filepath = bytes_at m name (unat filepath_strlen)
               in Inr (if last filepath = slash then butlast filepath else filepath))"

text \<open>The local file object of the loader, on the kernel stack.\<close>

definition tar_filp :: u64 where "tar_filp = 0xffffffff80400100"

text \<open>One file: a directory for the type flag \<^verbatim>\<open>'5'\<close>, a regular file otherwise.\<close>

definition install_file ::
  "'z device_state_scheme drivers \<Rightarrow> u8 list \<Rightarrow> u8 \<Rightarrow> u8 list \<Rightarrow> 'z device_state_scheme \<Rightarrow> 'z device_state_scheme res" where
  "install_file devs path typeflag content st =
     res_bind (vfs_resolve devs path st) (\<lambda>(st1, lookup). case lookup of
         Resolve_Doesnt_Exist dentry parent_directory name_start name_length \<Rightarrow>
           let filename = take name_length (drop name_start path)
           in if typeflag = 53
              then res_bind (vfs_mkdir parent_directory filename st1) (\<lambda>(st2, inode). Inr st2)
              else res_bind (vfs_create parent_directory filename st1) (\<lambda>(st2, inode).
                   res_bind (vfs_write devs tar_filp content (of_nat (length content))
                     (upd_file tar_filp (\<lambda>_. \<lparr>f_fd = 0, f_inode = inode, f_offset = 0\<rparr>) st2)) (\<lambda>(st3, r). Inr st3))
       | _ \<Rightarrow> Inl (Panic ''Unexpected resolve status while extracting tar''))"

definition increment_blocks :: "u64 \<Rightarrow> u64" where
  "increment_blocks file_size = 1 + drop_bit 9 file_size + (if file_size AND 0x1FF \<noteq> 0 then 1 else 0)"

definition extract_entry ::
  "'z device_state_scheme drivers \<Rightarrow> mem \<Rightarrow> u64 \<Rightarrow> 'z device_state_scheme \<Rightarrow> ('z device_state_scheme \<times> u64) res" where
  "extract_entry devs m tar_file st =
     (let header = tar_header_at m tar_file
      in case parse_oct (th_size header) m of
           None \<Rightarrow> Inl Diverges
         | Some (n, file_size) \<Rightarrow>
             res_bind (tar_path (th_name header) m) (\<lambda>path.
             res_bind (install_file devs path (th_typeflag header) (bytes_at m (tar_file + 512) (unat file_size)) st) (\<lambda>st1.
               Inr (st1, tar_file + push_bit 9 (increment_blocks file_size)))))"

text \<open>The loop over the entries; the fuel counts them.\<close>

fun extract_tar_files ::
  "'z device_state_scheme drivers \<Rightarrow> nat \<Rightarrow> mem \<Rightarrow> u64 \<Rightarrow> 'z device_state_scheme \<Rightarrow> 'z device_state_scheme res" where
  "extract_tar_files devs 0 m tar_file st = Inl Diverges"
| "extract_tar_files devs (Suc n) m tar_file st =
     (if bytes_at m (th_size (tar_header_at m tar_file)) 12 = replicate 12 0 then Inr st
      else res_bind (extract_entry devs m tar_file st) (\<lambda>(st1, tar_file1). extract_tar_files devs n m tar_file1 st1))"

section \<open>Archives\<close>

fun octal_digits :: "nat \<Rightarrow> nat \<Rightarrow> u8 list" where
  "octal_digits 0 v = []"
| "octal_digits (Suc n) v = octal_digits n (v div 8) @ [48 + of_nat (v mod 8)]"

definition pad_to :: "nat \<Rightarrow> u8 list \<Rightarrow> u8 list" where
  "pad_to n xs = xs @ replicate (n - length xs) 0"

definition padding :: "nat \<Rightarrow> nat" where
  "padding n = (512 - n mod 512) mod 512"

type_synonym tar_file = "u8 list \<times> u8 \<times> u8 list"

definition tar_header_bytes :: "u8 list \<Rightarrow> u8 \<Rightarrow> nat \<Rightarrow> u8 list" where
  "tar_header_bytes name typeflag n =
     pad_to 100 name @ replicate 24 48 @ (octal_digits 11 n @ [0]) @ replicate 20 48 @ typeflag # replicate 355 0"

fun tar_image :: "tar_file list \<Rightarrow> u8 list" where
  "tar_image [] = replicate 1024 0"
| "tar_image ((name, typeflag, content) # files) =
     tar_header_bytes name typeflag (length content) @ content @ replicate (padding (length content)) 0 @ tar_image files"

definition tar_file_ok :: "tar_file \<Rightarrow> bool" where
  "tar_file_ok = (\<lambda>(name, typeflag, content).
     name \<noteq> [] \<and> length name < 100 \<and> 0 \<notin> set name \<and> length content < 8 ^ 11)"

fun install_files ::
  "'z device_state_scheme drivers \<Rightarrow> tar_file list \<Rightarrow> 'z device_state_scheme \<Rightarrow> 'z device_state_scheme res" where
  "install_files devs [] st = Inr st"
| "install_files devs ((name, typeflag, content) # files) st =
     res_bind (install_file devs (if last name = slash then butlast name else name) typeflag content st)
       (install_files devs files)"

section \<open>The loader reads what the archiver wrote\<close>

lemma length_bytes_at [simp]: "length (bytes_at m a n) = n"
  by (simp add: bytes_at_def)

definition stands_at :: "mem \<Rightarrow> u64 \<Rightarrow> u8 list \<Rightarrow> bool" where
  "stands_at m a xs \<longleftrightarrow> bytes_at m a (length xs) = xs"

lemma stands_at_Nil [simp]: "stands_at m a []"
  by (simp add: stands_at_def bytes_at_def)

lemma stands_at_Cons [simp]: "stands_at m a (x # xs) \<longleftrightarrow> m a = x \<and> stands_at m (a + 1) xs"
proof -
  have "[0..<Suc (length xs)] = 0 # map Suc [0..<length xs]" by (simp add: upt_conv_Cons map_Suc_upt del: upt_Suc)
  then show ?thesis by (simp add: stands_at_def bytes_at_def add.assoc comp_def del: upt_Suc)
qed

lemma stands_at_append [simp]:
  "stands_at m a (xs @ ys) \<longleftrightarrow> stands_at m a xs \<and> stands_at m (a + of_nat (length xs)) ys"
  by (induction xs arbitrary: a) (auto simp: add.assoc add.commute)

lemma stands_at_bytes: "stands_at m a xs \<Longrightarrow> length xs = n \<Longrightarrow> bytes_at m a n = xs"
  by (auto simp: stands_at_def)

lemma stands_at_nth: "stands_at m a xs \<Longrightarrow> i < length xs \<Longrightarrow> m (a + of_nat i) = xs ! i"
  by (induction xs arbitrary: a i) (auto simp: less_Suc_eq_0_disj simp flip: add.assoc)

lemma stands_at_cstr: "stands_at m a (xs @ [0]) \<Longrightarrow> 0 \<notin> set xs \<Longrightarrow> cstr m a xs"
  by (induction xs arbitrary: a) (auto simp: add.assoc)

lemma length_octal_digits [simp]: "length (octal_digits n v) = n"
  by (induction n arbitrary: v) auto

lemma oct_digit_cases: "(k :: nat) < 8 \<Longrightarrow> k \<in> {0, 1, 2, 3, 4, 5, 6, 7}"
  by auto

lemma octal_digit: "is_oct_digit (48 + of_nat (v mod 8))" "unat (48 + of_nat (v mod 8) :: u8) - 48 = v mod 8"
  using oct_digit_cases [of "v mod 8"] by (auto simp: is_oct_digit_def)

lemma octal_digits_ok: "\<forall>x \<in> set (octal_digits n v). is_oct_digit x"
  by (induction n arbitrary: v) (auto simp: octal_digit)

lemma oct_value_snoc: "oct_value (cs @ [c]) = 8 * oct_value cs + (unat c - 48)"
  by (simp add: oct_value_def)

lemma oct_value_digits: "oct_value (octal_digits n v) = v mod 8 ^ n"
proof (induction n arbitrary: v)
  case 0
  then show ?case by (simp add: oct_value_def)
next
  case (Suc n)
  have "oct_value (octal_digits (Suc n) v) = 8 * (v div 8 mod 8 ^ n) + v mod 8"
    by (simp add: oct_value_snoc Suc.IH octal_digit)
  also have "\<dots> = v mod (8 * 8 ^ n)" by (simp add: mod_mult2_eq)
  finally show ?case by simp
qed

lemma octal_not_zero: "octal_digits 11 n @ [0] \<noteq> replicate 12 0"
proof
  assume "octal_digits 11 n @ [0] = replicate 12 0"
  then have "(octal_digits 11 n @ [0]) ! 0 = 0" by simp
  moreover have "octal_digits 11 n ! 0 \<in> set (octal_digits 11 n)" by (rule nth_mem) simp
  then have "is_oct_digit (octal_digits 11 n ! 0)" using octal_digits_ok by blast
  ultimately show False by (simp add: nth_append is_oct_digit_def)
qed

lemma length_header: "length name < 100 \<Longrightarrow> length (tar_header_bytes name ty n) = 512"
  by (simp add: tar_header_bytes_def pad_to_def)

lemma block_count:
  assumes "n < 8 ^ 11"
  shows "push_bit 9 (increment_blocks (of_nat n)) = (of_nat (512 + n + padding n) :: u64)"
proof -
  have n: "unat (of_nat n :: u64) = n" using assms by (intro unat_of_nat_small) simp
  have d: "drop_bit 9 (of_nat n :: u64) = of_nat (n div 512)"
    using n assms by (subst word_unat_eq_iff) (simp add: drop_bit_eq_div unat_div_distrib unat_of_nat)
  have "(of_nat n :: u64) AND 0x1FF = of_nat n AND mask 9" by (simp add: mask_eq_exp_minus_1)
  also have "\<dots> = of_nat (n mod 512)"
    using n by (subst word_unat_eq_iff) (simp add: take_bit_eq_mod unat_of_nat unat_mod_distrib flip: take_bit_eq_mask)
  finally have m: "(of_nat n :: u64) AND 0x1FF = of_nat (n mod 512)" .
  have z: "(of_nat (n mod 512) :: u64) = 0 \<longleftrightarrow> n mod 512 = 0"
    by (subst word_unat_eq_iff) (simp add: unat_of_nat)
  have "512 * (1 + n div 512 + (if n mod 512 \<noteq> 0 then 1 else 0)) = 512 + n + padding n"
  proof -
    define q r where "q = n div 512" and "r = n mod 512"
    have "n = 512 * q + r" and "r < 512" by (simp_all add: q_def r_def)
    then show ?thesis by (auto simp: padding_def simp flip: q_def r_def)
  qed
  then have "(of_nat (512 + n + padding n) :: u64) = of_nat (512 * (1 + n div 512 + (if n mod 512 \<noteq> 0 then 1 else 0)))"
    by simp
  then show ?thesis by (simp add: increment_blocks_def d m z push_bit_eq_mult algebra_simps)
qed

lemma tar_path_image:
  assumes "stands_at m a (name @ [0])" and "0 \<notin> set name" and "name \<noteq> []" and "length name < 100"
  shows "tar_path a m = Inr (if last name = slash then butlast name else name)"
proof -
  have "strlen a m = Some (of_nat (length name))"
    using assms by (intro strlen_cstr stands_at_cstr)
  moreover have u: "unat (of_nat (length name) :: u64) = length name"
    using assms(4) by (intro unat_of_nat_small) simp
  moreover have "(of_nat (length name) :: u64) \<noteq> 0" using u assms(3) by (metis length_0_conv unat_0)
  moreover have "bytes_at m a (length name) = name" using assms(1) by (simp add: stands_at_def [symmetric])
  ultimately show ?thesis using assms(4) by (simp add: tar_path_def)
qed

lemma extract_entry_image:
  assumes "stands_at m a (tar_header_bytes name ty (length content) @ content)"
    and "tar_file_ok (name, ty, content)"
  shows "extract_entry devs m a st =
    res_bind (install_file devs (if last name = slash then butlast name else name) ty content st)
      (\<lambda>st1. Inr (st1, a + of_nat (512 + length content + padding (length content))))"
    and "bytes_at m (th_size (tar_header_at m a)) 12 \<noteq> replicate 12 0"
proof -
  let ?digits = "octal_digits 11 (length content)"
  have ok: "name \<noteq> []" "length name < 100" "0 \<notin> set name" "length content < 8 ^ 11"
    using assms(2) by (simp_all add: tar_file_ok_def)
  obtain k where k: "100 - length name = Suc k" using ok(2) by (cases "100 - length name") simp_all
  have pad: "length (pad_to 100 name) = 100" "pad_to 100 name = name @ 0 # replicate k 0"
    using ok(2) k by (simp_all add: pad_to_def)
  have parts: "stands_at m a (pad_to 100 name)" "stands_at m (a + 124) (?digits @ [0])"
    "m (a + 156) = ty" "stands_at m (a + 512) content"
    using assms(1) pad(1) by (simp_all add: tar_header_bytes_def algebra_simps)
  have name: "stands_at m a (name @ [0])" using parts(1) unfolding pad(2) by simp
  show "bytes_at m (th_size (tar_header_at m a)) 12 \<noteq> replicate 12 0"
    using stands_at_bytes [OF parts(2)] octal_not_zero by (simp add: tar_header_at_def)
  have "parse_oct (a + 124) m = Some (of_nat (length ?digits), of_nat (oct_value ?digits))"
  proof (rule parse_oct_spec)
    show "\<forall>i < length ?digits. m (a + 124 + of_nat i) = ?digits ! i"
      using parts(2) stands_at_nth [of m "a + 124" ?digits] by simp
    show "\<forall>x \<in> set ?digits. is_oct_digit x" by (rule octal_digits_ok)
    show "\<not> is_oct_digit (m (a + 124 + of_nat (length ?digits)))" using parts(2) by (simp add: is_oct_digit_def)
  qed
  then have "parse_oct (a + 124) m = Some (11, of_nat (length content))"
    using ok(4) by (simp add: oct_value_digits)
  moreover have "unat (of_nat (length content) :: u64) = length content" using ok(4) by (intro unat_of_nat_small) simp
  moreover have "tar_path a m = Inr (if last name = slash then butlast name else name)"
    using name ok by (intro tar_path_image)
  ultimately show "extract_entry devs m a st =
      res_bind (install_file devs (if last name = slash then butlast name else name) ty content st)
        (\<lambda>st1. Inr (st1, a + of_nat (512 + length content + padding (length content))))"
    using stands_at_bytes [OF parts(4) refl] block_count [OF ok(4)] parts(3)
    by (simp add: extract_entry_def tar_header_at_def Let_def del: of_nat_add)
qed

text \<open>
  C24: Extracting the archive that an archiver writes for a list of files installs exactly these files, in
  their order and with their names, types and contents, and ends at the end of the archive: a name loses
  its trailing slash, contents of every length are followed to the next block.
\<close>

theorem extract_tar_image:
  assumes "stands_at m a (tar_image files)" and "\<forall>f \<in> set files. tar_file_ok f" and "length files < n"
  shows "extract_tar_files devs n m a st = install_files devs files st"
  using assms
proof (induction files arbitrary: n a st)
  case Nil
  then obtain k where "n = Suc k" by (cases n) simp_all
  have "tar_image [] = replicate 124 0 @ replicate 12 0 @ replicate 888 (0 :: u8)"
    by (simp flip: replicate_add)
  then have "stands_at m (a + 124) (replicate 12 0)" using Nil(1) by (simp del: tar_image.simps replicate.simps)
  then have "bytes_at m (a + 124) 12 = replicate 12 0" by (rule stands_at_bytes) simp
  then show ?case using \<open>n = Suc k\<close> by (simp add: tar_header_at_def)
next
  case (Cons f files)
  obtain name ty content where f: "f = (name, ty, content)" by (cases f)
  obtain k where n: "n = Suc k" using Cons.prems(3) by (cases n) simp_all
  have ok: "tar_file_ok (name, ty, content)" using Cons.prems(2) f by simp
  then have len: "length (tar_header_bytes name ty (length content)) = 512"
    by (intro length_header) (simp add: tar_file_ok_def)
  have here: "stands_at m a (tar_header_bytes name ty (length content) @ content)"
    and rest: "stands_at m (a + of_nat (512 + length content + padding (length content))) (tar_image files)"
    using Cons.prems(1) len by (simp_all add: f algebra_simps)
  note IH = Cons.IH [OF rest, of k]
  show ?case
    using Cons.prems(2,3) IH extract_entry_image(2) [OF here ok]
    by (cases "install_file devs (if last name = slash then butlast name else name) ty content st")
      (simp_all add: f n extract_entry_image(1) [OF here ok] del: of_nat_add)
qed

definition demo_archive :: "tar_file list" where
  "demo_archive = [(u8p ''bin/'', 53, []), (u8p ''bin/init'', 48, replicate 600 7), (u8p ''empty'', 48, [])]"

lemma stands_at_image:
  assumes "length xs < 2 ^ 64"
  shows "stands_at (\<lambda>x. xs ! unat (x - a)) a xs"
proof -
  have "unat (of_nat i :: u64) = i" if "i < length xs" for i using that assms by (intro unat_of_nat_small) simp
  then show ?thesis by (auto simp: stands_at_def bytes_at_def intro: nth_equalityI)
qed

lemma extract_tar_image_witness:
  "extract_tar_files (\<lambda>_. zero_device_fops) 4 (\<lambda>x. tar_image demo_archive ! unat (x - 0xffff900000000000)) 0xffff900000000000
     (demo_device Inode_Slab) =
   install_files (\<lambda>_. zero_device_fops) demo_archive (demo_device Inode_Slab)"
proof (rule extract_tar_image)
  have "length (tar_image demo_archive) < 2 ^ 64"
    by (simp add: demo_archive_def tar_header_bytes_def pad_to_def padding_def)
  then show "stands_at (\<lambda>x. tar_image demo_archive ! unat (x - 0xffff900000000000)) 0xffff900000000000 (tar_image demo_archive)"
    by (rule stands_at_image)
qed (simp_all add: demo_archive_def tar_file_ok_def u8p_def)

end
