(* ===== verification/Boot.thy ===== *)
theory Boot
  imports Interrupts Tar
begin

text \<open>
  \<^verbatim>\<open>kernel/src/kernel/main.c\<close> and \<^verbatim>\<open>arch/gdt.s\<close>: the start of the kernel, from the boot loader's responses to
  the switch to the first task. The boot loader's answers are the record \<open>limine_responses\<close>; the
  archive with the programs is memory that the kernel only reads.
\<close>

section \<open>State\<close>

record limine_responses =
  base_revision_supported :: bool
  framebuffers :: "framebuffer list"
  hhdm_response :: "u64 option"
  memmap_response :: "memmap_entry list option"
  module_count :: u64
  module_address :: u64
  module_memory :: mem

text \<open>The words of the global descriptor table by their offset; \<open>gdt_limit\<close> is the limit in \<^verbatim>\<open>gdtr\<close>.\<close>

record boot_state = cpu_state +
  gdt :: "u64 \<Rightarrow> u64"
  gdt_limit :: u16
  task_register :: u16

section \<open>Descriptors\<close>

definition add_usermode_gdt_entries :: "'z boot_state_scheme \<Rightarrow> 'z boot_state_scheme" where
  "add_usermode_gdt_entries st =
     st\<lparr>gdt := (gdt st)(0x38 := 0x0020fb0000000000, 0x40 := 0x0000f30000000000), gdt_limit := gdt_limit st + 0x10\<rparr>"

definition tss_descriptor_low :: "u64 \<Rightarrow> u64" where
  "tss_descriptor_low base =
     (let d1 = drop_bit 24 base AND 0xFF;
          d2 = push_bit 8 d1 + 0;
          d3 = push_bit 8 d2 + 0x89;
          d4 = push_bit 8 d3 + (drop_bit 16 base AND 0xFF);
          d5 = push_bit 16 d4 + (base AND 0xFFFF)
      in push_bit 16 d5 + 0x68)"

definition add_tss_gdt_entry :: "u64 \<Rightarrow> 'z boot_state_scheme \<Rightarrow> 'z boot_state_scheme" where
  "add_tss_gdt_entry base st =
     st\<lparr>gdt := (gdt st)(0x48 := tss_descriptor_low base, 0x50 := drop_bit 32 base), gdt_limit := gdt_limit st + 0x10,
        task_register := 0x48\<rparr>"

section \<open>The first tasks\<close>

text \<open>Static objects and functions of the kernel image.\<close>

definition tss_address :: u64 where "tss_address = 0xffffffff80500000"
definition dummy_task_struct :: u64 where "dummy_task_struct = 0xffffffff80500100"
definition boot_file :: u64 where "boot_file = 0xffffffff80400200"
definition kt_hw_init_entry :: u64 where "kt_hw_init_entry = 0xffffffff80010100"

definition push_words :: "u64 list \<Rightarrow> u64 \<times> (u64 \<Rightarrow> u64) \<Rightarrow> u64 \<times> (u64 \<Rightarrow> u64)" where
  "push_words = fold push_word"

text \<open>A task in the list, with its kernel memory; the two tasks are set up by the same statements.\<close>

definition new_boot_task :: "u8 list \<Rightarrow> 'z kernel_state_scheme \<Rightarrow> ('z kernel_state_scheme \<times> u64) res" where
  "new_boot_task name st =
     res_bind (slab_alloc Task_Slab st) (\<lambda>(st1, task).
     res_bind (array_strcpy (task_name (tasks st1 task)) name) (\<lambda>chars.
     let st2 = (upd_task task (\<lambda>t. t\<lparr>pid := pid_counter st1, task_state := TS_RUNNING, exit_code := 0, task_name := chars,
                   kernel_stack_pages := 0, pml4_page := 0, kernel_entry_rsp := 0, memory_ranges_lh := [], files_lh := []\<rparr>) st1)
                 \<lparr>pid_counter := pid_counter st1 + 1, task_struct_lh := task_struct_lh st1 @ [task]\<rparr>
     in res_bind (setup_kernelspace_memory task st2) (\<lambda>st3. Inr (st3, task))))"

definition set_kernel_stack :: "u64 \<Rightarrow> u64 list \<Rightarrow> 'z kernel_state_scheme \<Rightarrow> 'z kernel_state_scheme" where
  "set_kernel_stack task ws st =
     (let (sp, m) = push_words ws (kernel_entry_rsp (tasks st task), stack_words st)
      in upd_task task (\<lambda>t. t\<lparr>kernel_rsp := sp\<rparr>) (st\<lparr>stack_words := m\<rparr>))"

text \<open>
  The stack of the first process: what \<^verbatim>\<open>iretq\<close> pops, the saved registers, and what \<^verbatim>\<open>switch_to_task\<close> pops.
\<close>

definition init_stack :: "loader_result \<Rightarrow> u64 list" where
  "init_stack loader =
     [0x43, user_entry_rsp loader - 16, 0x202, 0x3b, user_entry_rip loader] @
     replicate IDT_SYSCALL_NUM_SAVED_REGISTERS 0 @ [zero_rax_and_iret] @ replicate 6 0"

definition start_init ::
  "('z kernel_state_scheme) drivers \<Rightarrow> 'z kernel_state_scheme \<Rightarrow> ('z kernel_state_scheme \<times> u64) res" where
  "start_init devs st =
     res_bind (new_boot_task (u8p ''init'') st) (\<lambda>(st1, init_process).
     let st2 = (load_cr3_from init_process st1)\<lparr>current_task_ts := init_process\<rparr>
     in res_bind (vfs_resolve devs (u8p ''bin/init'') st2) (\<lambda>(st3, lookup). case lookup of
          Resolve_Exists inode dentry parent \<Rightarrow>
            res_bind (load_elf64 devs boot_file (upd_file boot_file (\<lambda>f. \<lparr>f_fd = 0, f_inode = inode, f_offset = 0\<rparr>) st3))
              (\<lambda>(st4, loader).
            res_bind (user_store (user_entry_rsp loader - 16) (le_bytes 8 (unat (user_entry_rsp loader - 8))) st4) (\<lambda>st5.
            res_bind (user_store (user_entry_rsp loader - 8) (le_bytes 8 0) st5) (\<lambda>st6.
              Inr (set_kernel_stack init_process (init_stack loader) st6, init_process))))
        | _ \<Rightarrow> Inl (Panic ''init binary not found'')))"

definition start_kt_hw_init :: "'z kernel_state_scheme \<Rightarrow> 'z kernel_state_scheme res" where
  "start_kt_hw_init st =
     res_bind (new_boot_task (u8p ''kt-hw-init'') st) (\<lambda>(st1, kt_hw_init).
       Inr (set_kernel_stack kt_hw_init (kt_hw_init_entry # replicate 6 0) st1))"

section \<open>The kernel\<close>

text \<open>\<^verbatim>\<open>kt_hw_init_main\<close>: the devices, then it yields for ever.\<close>

definition kt_hw_init_main ::
  "('z kernel_state_scheme) hardware \<Rightarrow> ('z kernel_state_scheme) yields \<Rightarrow> 'z kernel_state_scheme \<Rightarrow>
   ('z kernel_state_scheme) outcome res" where
  "kt_hw_init_main hw yields st =
     res_bind (res_fold (nvme_probe_2 hw) [0..<length (nvme_devices st)] st) (\<lambda>st1.
     res_bind (res_fold (\<lambda>y. y) yields st1) (\<lambda>st2. Inr (Yielding st2)))"

definition init_subsystems ::
  "('z boot_state_scheme) hardware \<Rightarrow> ('z boot_state_scheme) drivers \<Rightarrow> (u8 \<Rightarrow> u64) \<Rightarrow> limine_responses \<Rightarrow>
   'z boot_state_scheme \<Rightarrow> 'z boot_state_scheme res" where
  "init_subsystems hw devs isr boot st =
     res_bind (terminal_init_1 (framebuffers boot) st) (\<lambda>st1.
     res_bind (idt_init hw isr st1) (\<lambda>st2.
     res_bind (kmem_init (hhdm_response boot) (memmap_response boot) st2) (\<lambda>st3.
     res_bind (vfs_init (scheduler_init_1 st3)) (\<lambda>st4.
     res_bind (sysfs_init devs (ramfs_init st4)) (\<lambda>st5.
     res_bind (terminal_init_2 (exfat_init st5)) (\<lambda>st6.
     res_bind (zero_init st6) (\<lambda>st7.
     res_bind (pci_probe hw st7) (\<lambda>st8.
       Inr (userspace_init st8)))))))))"

definition kmain ::
  "('z boot_state_scheme) hardware \<Rightarrow> ('z boot_state_scheme) drivers \<Rightarrow> (u8 \<Rightarrow> u64) \<Rightarrow> nat \<Rightarrow> u64 \<Rightarrow> limine_responses \<Rightarrow>
   'z boot_state_scheme \<Rightarrow> 'z boot_state_scheme res" where
  "kmain hw devs isr archive_fuel rsp boot st =
     (if \<not> base_revision_supported boot then Inl Halted
      else res_bind (init_subsystems hw devs isr boot st) (\<lambda>st1.
        if module_count boot \<noteq> 1
        then res_bind (printk (u8p ''Found 0x'') st1) (\<lambda>st2.
             res_bind (printk_uint8 (ucast (module_count boot)) st2) (\<lambda>st3.
             res_bind (printk (u8p ('' limine modules, expected 1'' @ [CHR 0x0A])) st3) (\<lambda>st4. Inl Halted)))
        else res_bind (extract_tar_files devs archive_fuel (module_memory boot) (module_address boot) st1) (\<lambda>st2.
             let st3 = (add_tss_gdt_entry tss_address (add_usermode_gdt_entries st2))
                         \<lparr>tss := \<lparr>rsp0_low = 0, rsp0_high = 0, iomap = 0xdfff\<rparr>\<rparr>
             in res_bind (start_init devs st3) (\<lambda>(st4, init_process).
                res_bind (start_kt_hw_init st4) (\<lambda>st5.
                  Inr (switch_to_task init_process rsp (st5\<lparr>current_task_ts := dummy_task_struct\<rparr>)))))))"

end
