(* ===== verification/Sched.thy ===== *)
theory Sched
  imports Tasks
begin

text \<open>
  What the scheduler guarantees: the next task is the first running one after the current task in the
  circular list, and every running task gets the processor within as many switches as there are tasks.
\<close>

section \<open>The circular list\<close>

lemma dropWhile_nth:
  assumes "distinct xs" and "i < length xs"
  shows "dropWhile (\<lambda>t. t \<noteq> xs ! i) xs = drop i xs"
proof -
  let ?P = "\<lambda>t. t \<noteq> xs ! i"
  have split: "take i xs @ xs ! i # drop (Suc i) xs = xs" using assms(2) by (simp add: id_take_nth_drop [symmetric])
  have "?P t" if "t \<in> set (take i xs)" for t
    using that assms by (auto simp: in_set_conv_nth nth_eq_iff_index_eq)
  then have "dropWhile ?P (take i xs @ xs ! i # drop (Suc i) xs) = dropWhile ?P (xs ! i # drop (Suc i) xs)"
    by (rule dropWhile_append2)
  then have "dropWhile ?P xs = xs ! i # drop (Suc i) xs" unfolding split by simp
  also have "\<dots> = drop i xs" using assms(2) by (rule Cons_nth_drop_Suc)
  finally show ?thesis .
qed

lemma next_task_struct_nth:
  assumes "distinct (task_struct_lh st)" and "i < length (task_struct_lh st)"
  shows "next_task_struct (task_struct_lh st ! i) st =
    Inr (task_struct_lh st ! (Suc i mod length (task_struct_lh st)))"
proof (cases "Suc i < length (task_struct_lh st)")
  case True
  then have "drop i (task_struct_lh st) = task_struct_lh st ! i # task_struct_lh st ! Suc i # drop (Suc (Suc i)) (task_struct_lh st)"
    by (simp add: Cons_nth_drop_Suc Suc_lessD)
  with True show ?thesis by (simp add: next_task_struct_def dropWhile_nth [OF assms])
next
  case False
  with assms(2) have last: "Suc i = length (task_struct_lh st)" by simp
  then have "drop i (task_struct_lh st) = [task_struct_lh st ! i]"
    using assms(2) by (simp add: Cons_nth_drop_Suc [symmetric])
  moreover have "hd (task_struct_lh st) = task_struct_lh st ! 0" using assms(2) by (intro hd_conv_nth) auto
  ultimately show ?thesis using last by (simp add: next_task_struct_def dropWhile_nth [OF assms])
qed

text \<open>The task \<open>k\<close> places after position \<open>c\<close>.\<close>

definition task_after :: "u64 list \<Rightarrow> nat \<Rightarrow> nat \<Rightarrow> u64" where
  "task_after ts c k = ts ! ((c + k) mod length ts)"

lemma circular_neq: "(c :: nat) < n \<Longrightarrow> 0 < k \<Longrightarrow> k < n \<Longrightarrow> (c + k) mod n \<noteq> c"
proof (cases "c + k < n")
  case False
  assume c: "c < n" "0 < k" "k < n"
  then have "c + k - n < n" "c + k - n \<noteq> c" using False by linarith+
  then show ?thesis using False by (simp add: mod_if)
qed simp

lemma task_after_neq:
  assumes "distinct ts" and "c < length ts" and "0 < k" and "k < length ts"
  shows "task_after ts c k \<noteq> ts ! c"
proof -
  have "(c + k) mod length ts \<noteq> c" using assms(2-4) by (rule circular_neq)
  moreover have "(c + k) mod length ts < length ts" using assms(2) by (intro mod_less_divisor) linarith
  ultimately show ?thesis using assms(1,2) by (simp add: task_after_def nth_eq_iff_index_eq)
qed

section \<open>The search\<close>

definition runnable :: "'z kernel_state_scheme \<Rightarrow> u64 \<Rightarrow> bool" where
  "runnable st t \<longleftrightarrow> task_state (tasks st t) = TS_RUNNING"

lemma yield_loop_finds:
  assumes "distinct (task_struct_lh st)" and "c < length (task_struct_lh st)"
    and "current_task_ts st = task_struct_lh st ! c"
    and "i + k < length (task_struct_lh st)" and "0 < k"
    and "runnable st (task_after (task_struct_lh st) c (i + k))"
    and "\<forall>j. 0 < j \<and> j < k \<longrightarrow> \<not> runnable st (task_after (task_struct_lh st) c (i + j))"
    and "k \<le> fuel"
  shows "yield_loop fuel ints (task_after (task_struct_lh st) c i) st =
    Inr (st, task_after (task_struct_lh st) c (i + k))"
  using assms(4-8)
proof (induction k arbitrary: i fuel)
  case 0
  then show ?case by simp
next
  case (Suc k)
  let ?ts = "task_struct_lh st"
  obtain f where f: "fuel = Suc f" using Suc.prems(5) by (cases fuel) simp_all
  have len: "0 < length ?ts" using assms(2) by (rule order.strict_trans1 [rotated]) simp
  then have "next_task_struct (task_after ?ts c i) st = Inr (task_after ?ts c (Suc i))"
    by (simp add: task_after_def next_task_struct_nth [OF assms(1)] mod_Suc_eq)
  moreover have "task_after ?ts c (Suc i) \<noteq> current_task_ts st"
    using task_after_neq [OF assms(1,2), of "Suc i"] Suc.prems(1) assms(3) by simp
  ultimately have step: "yield_loop fuel ints (task_after ?ts c i) st =
      (if runnable st (task_after ?ts c (Suc i)) then Inr (st, task_after ?ts c (Suc i))
       else yield_loop f ints (task_after ?ts c (Suc i)) st)"
    by (simp add: f runnable_def)
  show ?case
  proof (cases "k = 0")
    case True
    with step Suc.prems(3) show ?thesis by simp
  next
    case False
    with Suc.prems(4) have "\<not> runnable st (task_after ?ts c (Suc i))"
      by (auto dest: spec [of _ "1 :: nat"])
    moreover have "\<forall>j. 0 < j \<and> j < k \<longrightarrow> \<not> runnable st (task_after ?ts c (Suc i + j))"
    proof (intro allI impI)
      fix j assume "0 < j \<and> j < k"
      with Suc.prems(4) [rule_format, of "Suc j"] show "\<not> runnable st (task_after ?ts c (Suc i + j))" by simp
    qed
    ultimately show ?thesis using step False Suc.IH [of "Suc i" f] Suc.prems(1,3,5) f by simp
  qed
qed

text \<open>A search that passes over \<open>k\<close> tasks which are not current and not runnable.\<close>

lemma yield_loop_skips:
  assumes "distinct (task_struct_lh st)" and "c < length (task_struct_lh st)"
    and "current_task_ts st = task_struct_lh st ! c" and "i + k < length (task_struct_lh st)"
    and "\<forall>j. 0 < j \<and> j \<le> k \<longrightarrow> \<not> runnable st (task_after (task_struct_lh st) c (i + j))"
  shows "yield_loop (k + fuel) ints (task_after (task_struct_lh st) c i) st =
    yield_loop fuel ints (task_after (task_struct_lh st) c (i + k)) st"
  using assms(4,5)
proof (induction k arbitrary: i)
  case 0
  then show ?case by simp
next
  case (Suc k)
  let ?ts = "task_struct_lh st"
  have "0 < length ?ts" using assms(2) by linarith
  then have "next_task_struct (task_after ?ts c i) st = Inr (task_after ?ts c (Suc i))"
    by (simp add: task_after_def next_task_struct_nth [OF assms(1)] mod_Suc_eq)
  moreover have "task_after ?ts c (Suc i) \<noteq> current_task_ts st"
    using task_after_neq [OF assms(1,2), of "Suc i"] Suc.prems(1) assms(3) by simp
  moreover have "\<not> runnable st (task_after ?ts c (Suc i))"
    using Suc.prems(2) [rule_format, of 1] by simp
  ultimately have "yield_loop (Suc k + fuel) ints (task_after ?ts c i) st =
      yield_loop (k + fuel) ints (task_after ?ts c (Suc i)) st"
    by (simp add: runnable_def)
  also have "\<dots> = yield_loop fuel ints (task_after ?ts c (Suc i + k)) st"
  proof (rule Suc.IH)
    show "Suc i + k < length ?ts" using Suc.prems(1) by simp
    show "\<forall>j. 0 < j \<and> j \<le> k \<longrightarrow> \<not> runnable st (task_after ?ts c (Suc i + j))"
    proof (intro allI impI)
      fix j assume "0 < j \<and> j \<le> k"
      with Suc.prems(2) [rule_format, of "Suc j"] show "\<not> runnable st (task_after ?ts c (Suc i + j))" by simp
    qed
  qed
  finally show ?case by simp
qed

lemma circular_place:
  assumes "ts = before @ t # after" and "j < length (after @ before)"
  shows "(after @ before) ! j = task_after ts (length before) (Suc j)"
proof (cases "j < length after")
  case True
  then show ?thesis by (simp add: assms(1) task_after_def nth_append)
next
  case False
  with assms have "length before + Suc j = j - length after + length ts" "j - length after < length before"
    by simp_all
  moreover have "j - length after < length ts" using assms by simp
  ultimately have "task_after ts (length before) (Suc j) = ts ! (j - length after)"
    by (simp only: task_after_def mod_add_self2 mod_less)
  with False show ?thesis using \<open>j - length after < length before\<close> by (simp add: assms(1) nth_append)
qed

lemma task_yield_other:
  assumes "distinct (task_struct_lh st)" and "task_struct_lh st = before @ current_task_ts st # after"
    and "find (runnable st) (after @ before) = Some t" and "length (task_struct_lh st) \<le> fuel"
  shows "task_yield fuel ints rsp st = Inr (switch_to_task t rsp st)"
proof -
  let ?ts = "task_struct_lh st" and ?c = "length before"
  have c: "?c < length ?ts" "?ts ! ?c = current_task_ts st" using assms(2) by simp_all
  note place = circular_place [OF assms(2)]
  obtain j where j: "j < length (after @ before)" "(after @ before) ! j = t" "runnable st t"
    "\<forall>i < j. \<not> runnable st ((after @ before) ! i)"
    using assms(3) unfolding find_Some_iff by blast
  have "yield_loop fuel ints (task_after ?ts ?c 0) st = Inr (st, task_after ?ts ?c (0 + Suc j))"
  proof (rule yield_loop_finds [OF assms(1) c(1)])
    show "current_task_ts st = ?ts ! ?c" using c(2) by simp
    show "0 + Suc j < length ?ts" using j(1) assms(2) by simp
    show "runnable st (task_after ?ts ?c (0 + Suc j))" using j place [OF j(1)] by simp
    show "\<forall>i. 0 < i \<and> i < Suc j \<longrightarrow> \<not> runnable st (task_after ?ts ?c (0 + i))"
    proof (intro allI impI)
      fix i assume i: "0 < i \<and> i < Suc j"
      then have "i - 1 < j" "Suc (i - 1) = i" by arith+
      then show "\<not> runnable st (task_after ?ts ?c (0 + i))" using j(1,4) place [of "i - 1"] by fastforce
    qed
    show "Suc j \<le> fuel" using j(1) assms(2,4) by simp
  qed simp
  moreover have "task_after ?ts ?c 0 = current_task_ts st" using c by (simp add: task_after_def)
  moreover have "task_after ?ts ?c (Suc j) = t" using place [OF j(1)] j(2) by simp
  ultimately show ?thesis by (simp add: task_yield_def)
qed

text \<open>
  When no other task is runnable, the search comes back to the current task and waits for an interrupt, after
  which it looks at the current task and goes on from there.
\<close>

lemma task_yield_alone:
  assumes "distinct (task_struct_lh st)" and "task_struct_lh st = before @ current_task_ts st # after"
    and "find (runnable st) (after @ before) = None" and "length (task_struct_lh st) \<le> fuel"
  shows "task_yield fuel ints rsp st = (case ints of
      [] \<Rightarrow> Inl Halted
    | i # is \<Rightarrow> res_bind (i st) (\<lambda>st1.
        if runnable st1 (current_task_ts st) then Inr (switch_to_task (current_task_ts st) rsp st1)
        else res_bind (yield_loop (fuel - length (task_struct_lh st)) is (current_task_ts st) st1)
               (\<lambda>(st2, t). Inr (switch_to_task t rsp st2))))"
proof -
  let ?ts = "task_struct_lh st" and ?c = "length before" and ?k = "length (after @ before)"
  have c: "?c < length ?ts" "current_task_ts st = ?ts ! ?c" using assms(2) by simp_all
  have len: "length ?ts = Suc ?k" by (simp add: assms(2))
  have idle: "\<forall>j. 0 < j \<and> j \<le> ?k \<longrightarrow> \<not> runnable st (task_after ?ts ?c (0 + j))"
  proof (intro allI impI)
    fix j assume j: "0 < j \<and> j \<le> ?k"
    then have "j - 1 < ?k" "Suc (j - 1) = j" by arith+
    then have "(after @ before) ! (j - 1) = task_after ?ts ?c j" using circular_place [OF assms(2), of "j - 1"] by simp
    moreover have "(after @ before) ! (j - 1) \<in> set (after @ before)" using \<open>j - 1 < ?k\<close> by (rule nth_mem)
    ultimately show "\<not> runnable st (task_after ?ts ?c (0 + j))" using assms(3) by (auto simp: find_None_iff)
  qed
  obtain f where f: "fuel = ?k + Suc f" using assms(4) len by (metis add_Suc_right le_iff_add add.commute add_Suc)
  have at: "task_after ?ts ?c 0 = current_task_ts st" using c by (simp add: task_after_def)
  have "yield_loop fuel ints (task_after ?ts ?c 0) st = yield_loop (Suc f) ints (task_after ?ts ?c (0 + ?k)) st"
    unfolding f by (rule yield_loop_skips [OF assms(1) c(1,2) _ idle]) (simp add: len)
  moreover have "next_task_struct (task_after ?ts ?c ?k) st = Inr (current_task_ts st)"
  proof -
    have "(?c + ?k) mod length ?ts < length ?ts" using len by simp
    moreover have "Suc ((?c + ?k) mod length ?ts) mod length ?ts = ?c"
      using c(1) by (simp add: mod_Suc_eq len) (simp add: mod_if)
    ultimately show ?thesis using c(2) by (simp add: task_after_def next_task_struct_nth [OF assms(1)])
  qed
  moreover have "fuel - length ?ts = f" by (simp add: f len)
  ultimately show ?thesis
    by (simp add: task_yield_def at runnable_def res_bind_def split: list.split sum.split)
qed

text \<open>
  C26: \<^verbatim>\<open>task_yield\<close> switches to the first task in state \<^verbatim>\<open>TS_RUNNING\<close> behind the current one in the circular task
  list, whatever interrupts are to come. When there is none, it looks at the current task last: it waits for the
  next interrupt, for ever when none comes, and switches to the current task if that is then in state \<^verbatim>\<open>TS_RUNNING\<close>;
  otherwise the search starts again behind the current task, in the state that the interrupt has left.
\<close>

theorem task_yield_next:
  assumes "distinct (task_struct_lh st)" and "task_struct_lh st = before @ current_task_ts st # after"
    and "length (task_struct_lh st) \<le> fuel"
  shows "task_yield fuel ints rsp st =
    (case find (runnable st) (after @ before) of
       Some t \<Rightarrow> Inr (switch_to_task t rsp st)
     | None \<Rightarrow> (case ints of
           [] \<Rightarrow> Inl Halted
         | i # is \<Rightarrow> res_bind (i st) (\<lambda>st1.
             if runnable st1 (current_task_ts st) then Inr (switch_to_task (current_task_ts st) rsp st1)
             else res_bind (yield_loop (fuel - length (task_struct_lh st)) is (current_task_ts st) st1)
                    (\<lambda>(st2, t). Inr (switch_to_task t rsp st2)))))"
proof (cases "find (runnable st) (after @ before)")
  case None
  with task_yield_alone [OF assms(1,2) None assms(3)] show ?thesis by simp
next
  case (Some t)
  with task_yield_other [OF assms(1,2) Some assms(3)] show ?thesis by simp
qed

section \<open>Fairness\<close>

lemma switch_to_task_fields [simp]:
  "task_struct_lh (switch_to_task t rsp st) = task_struct_lh st"
  "current_task_ts (switch_to_task t rsp st) = t"
  "runnable (switch_to_task t rsp st) u = runnable st u"
  by (simp_all add: switch_to_task_def set_tss_for_def load_cr3_from_def upd_task_def runnable_def)

text \<open>
  A run during which the task \<open>t\<close> stays runnable, the list of tasks stays \<open>ts\<close>, and \<open>t\<close> is not yet current
  when the processor is given up: between the switches the current task may do anything else. The number
  counts the switches.
\<close>

inductive sched_run ::
  "u64 list \<Rightarrow> u64 \<Rightarrow> 'z kernel_state_scheme \<Rightarrow> nat \<Rightarrow> 'z kernel_state_scheme \<Rightarrow> bool"
  for ts :: "u64 list" and t :: u64 and st0 :: "'z kernel_state_scheme" where
  run_start: "task_struct_lh st0 = ts \<Longrightarrow> current_task_ts st0 \<in> set ts \<Longrightarrow> runnable st0 t \<Longrightarrow> sched_run ts t st0 0 st0"
| run_compute: "sched_run ts t st0 n st \<Longrightarrow> task_struct_lh st' = ts \<Longrightarrow> current_task_ts st' = current_task_ts st \<Longrightarrow>
    runnable st' t \<Longrightarrow> sched_run ts t st0 n st'"
| run_switch: "sched_run ts t st0 n st \<Longrightarrow> current_task_ts st \<noteq> t \<Longrightarrow> task_yield (length ts) ints rsp st = Inr st' \<Longrightarrow>
    sched_run ts t st0 (Suc n) st'"

definition waits :: "u64 list \<Rightarrow> u64 \<Rightarrow> nat \<Rightarrow> 'z kernel_state_scheme \<Rightarrow> bool" where
  "waits ts t d st \<longleftrightarrow> task_struct_lh st = ts \<and> runnable st t \<and> d < length ts \<and>
     (\<exists>c < length ts. current_task_ts st = ts ! c \<and> t = task_after ts c d)"

lemma waits_start:
  assumes "task_struct_lh st = ts" and "current_task_ts st \<in> set ts" and "runnable st t" and "t \<in> set ts"
  shows "\<exists>d. waits ts t d st"
proof -
  obtain c where c: "c < length ts" "current_task_ts st = ts ! c" using assms(2) by (auto simp: in_set_conv_nth)
  obtain i where i: "i < length ts" "t = ts ! i" using assms(4) by (auto simp: in_set_conv_nth)
  let ?d = "if c \<le> i then i - c else i + length ts - c"
  have "?d < length ts" "(c + ?d) mod length ts = i" using c(1) i(1) by (auto simp: mod_if)
  with assms(1,3) c i have "waits ts t ?d st"
    unfolding waits_def by (intro conjI exI [of _ c]) (simp_all only: task_after_def)
  then show ?thesis ..
qed

lemma waits_step:
  assumes "waits ts t d st" and "distinct ts" and "current_task_ts st \<noteq> t"
  shows "\<exists>u e. task_yield (length ts) ints rsp st = Inr (switch_to_task u rsp st) \<and> e < d \<and>
    waits ts t e (switch_to_task u rsp st)"
proof -
  obtain c where c: "c < length ts" "current_task_ts st = ts ! c" "t = task_after ts c d"
    and st: "task_struct_lh st = ts" "runnable st t" "d < length ts"
    using assms(1) by (auto simp: waits_def)
  have "d \<noteq> 0" using c assms(3) by (cases "d = 0") (simp_all add: task_after_def)
  let ?P = "\<lambda>k. 0 < k \<and> runnable st (task_after ts c k)"
  define k where "k = (LEAST k. ?P k)"
  have d: "?P d" using st(2) c(3) \<open>d \<noteq> 0\<close> by simp
  then have k: "?P k" "k \<le> d" unfolding k_def by (rule LeastI [of ?P], rule Least_le)
  have least: "\<not> ?P j" if "j < k" for j using that unfolding k_def by (rule not_less_Least)
  let ?u = "task_after ts c k"
  have "yield_loop (length ts) ints (task_after ts c 0) st = Inr (st, task_after ts c (0 + k))"
    unfolding st(1) [symmetric] using assms(2) c(1,2) k st(3) least
    by (intro yield_loop_finds) (auto simp: st(1))
  moreover have "task_after ts c 0 = current_task_ts st" using c(1,2) by (simp add: task_after_def)
  ultimately have "task_yield (length ts) ints rsp st = Inr (switch_to_task ?u rsp st)"
    by (simp add: task_yield_def)
  moreover have "waits ts t (d - k) (switch_to_task ?u rsp st)"
  proof -
    have "0 < length ts" using c(1) by linarith
    then have "(c + k) mod length ts < length ts" by simp
    moreover have "((c + k) mod length ts + (d - k)) mod length ts = (c + d) mod length ts"
      using k(2) by (simp only: mod_add_left_eq add.assoc le_add_diff_inverse)
    ultimately show ?thesis using st c(3) by (auto simp: waits_def task_after_def)
  qed
  ultimately show ?thesis using k \<open>d \<noteq> 0\<close> by (intro exI [of _ ?u] exI [of _ "d - k"]) simp
qed

lemma sched_run_waits:
  assumes "sched_run ts t st0 n st" and "distinct ts" and "t \<in> set ts"
  shows "\<exists>d. waits ts t d st \<and> n + d < length ts"
  using assms(1)
proof (induction rule: sched_run.induct)
  case run_start
  then show ?case using waits_start [of st0 ts t] assms(3) by (auto simp: waits_def)
next
  case (run_compute n st st')
  then show ?case by (auto simp: waits_def)
next
  case (run_switch n st ints rsp st')
  then obtain d where d: "waits ts t d st" "n + d < length ts" by blast
  then obtain u e where "task_yield (length ts) ints rsp st = Inr (switch_to_task u rsp st)" "e < d"
    "waits ts t e (switch_to_task u rsp st)"
    using waits_step [OF d(1) assms(2)] run_switch.hyps(2) by blast
  with run_switch.hyps(3) d(2) show ?case by (intro exI [of _ e]) simp
qed

text \<open>
  C25: The scheduler starves no task: while a task stays runnable, fewer switches than there are tasks happen
  before it is the current one, and no switch on the way fails or waits for an interrupt.
\<close>

theorem task_yield_fair:
  assumes "sched_run ts t st0 n st" and "distinct ts" and "t \<in> set ts"
  shows "n < length ts \<and>
    (current_task_ts st = t \<or> (\<exists>u. task_yield (length ts) ints rsp st = Inr (switch_to_task u rsp st)))"
  using sched_run_waits [OF assms] waits_step [OF _ assms(2)] by fastforce

section \<open>Example\<close>

text \<open>Three tasks, the second of which has exited.\<close>

definition demo_task :: "u32 \<Rightarrow> u8 \<Rightarrow> task_struct" where
  "demo_task p s = \<lparr>pid = p, task_state = s, exit_code = 0, kernel_rsp = 0, kernel_entry_rsp = 0, kernel_stack_pages = 0,
     pml4_page = 0, task_name = replicate TASK_NAME_MAXLEN 0, memory_ranges_lh = [], files_lh = []\<rparr>"

definition demo_kernel :: kernel_state where
  "demo_kernel = fs_state.extend (device_state.extend (demo_device File_Slab) (fs_state.fields 0 0 0 0 0 0))
     (kernel_state.fields
       (\<lambda>a. if a = 16 then demo_task 1 TS_RUNNING else if a = 32 then demo_task 2 TS_ZOMBIE else demo_task 3 TS_RUNNING)
       (\<lambda>_. \<lparr>mr_start = 0, mr_end = 0, mr_type = 0xA2\<rparr>) [16, 32, 48] 16 4 0
       \<lparr>rsp0_low = 0, rsp0_high = 0, iomap = 0\<rparr> (\<lambda>_. 0))"

lemma demo_kernel_facts:
  "task_struct_lh demo_kernel = [16, 32, 48]" "current_task_ts demo_kernel = 16"
  "runnable demo_kernel 48" "\<not> runnable demo_kernel 32"
  by (simp_all add: demo_kernel_def demo_task_def runnable_def kernel_state.defs fs_state.defs device_state.defs TS_RUNNING_def TS_ZOMBIE_def)

lemma task_yield_next_witness:
  "task_yield 3 [] 0 demo_kernel =
    (case find (runnable demo_kernel) ([32, 48] @ []) of
       Some t \<Rightarrow> Inr (switch_to_task t 0 demo_kernel)
     | None \<Rightarrow> (case [] of
           [] \<Rightarrow> Inl Halted
         | i # is \<Rightarrow> res_bind (i demo_kernel) (\<lambda>st1.
             if runnable st1 (current_task_ts demo_kernel) then Inr (switch_to_task (current_task_ts demo_kernel) 0 st1)
             else res_bind (yield_loop (3 - length (task_struct_lh demo_kernel)) is (current_task_ts demo_kernel) st1)
                    (\<lambda>(st2, t). Inr (switch_to_task t 0 st2)))))"
  by (rule task_yield_next [where before = "[]" and after = "[32, 48]"]) (simp_all add: demo_kernel_facts)

lemma task_yield_fair_witness:
  "0 < length [16, 32, 48 :: u64] \<and>
    (current_task_ts demo_kernel = 48 \<or>
      (\<exists>u. task_yield (length [16, 32, 48 :: u64]) [] 0 demo_kernel = Inr (switch_to_task u 0 demo_kernel)))"
  by (rule task_yield_fair [where t = 48 and ?st0.0 = demo_kernel])
    (auto intro!: run_start simp: demo_kernel_facts)

end
