(* ===== verification/Spaces.thy ===== *)
theory Spaces
  imports Tasks
begin

text \<open>
  The address space of a process: the tables and frames that the lower half of its root table leads to, and the
  bytes it holds. A path of at most four indices leads from the root to a table or, with four, to a frame. The
  abstraction of an address space is its \<open>user_image\<close>, a partial map from addresses to bytes.
\<close>

section \<open>Paths and pages\<close>

definition user_path :: "u64 list \<Rightarrow> bool" where
  "user_path p \<longleftrightarrow> length p \<le> 4 \<and> (\<forall>i \<in> set p. i < 512) \<and> (p \<noteq> [] \<longrightarrow> hd p < 256)"

definition space :: "u64 \<Rightarrow> 'z paging_state_scheme \<Rightarrow> u64 set" where
  "space root st = {a. \<exists>p. user_path p \<and> table_of root p st = Some a}"

text \<open>
  No page is reached on two paths, all of them are in use, and an entry of a last table is present exactly when
  it has an address.
\<close>

definition space_wf :: "u64 \<Rightarrow> 'z paging_state_scheme \<Rightarrow> bool" where
  "space_wf root st \<longleftrightarrow> kmem_wf st \<and> hhdm_ok st \<and> space root st \<subseteq> used_pages st \<and>
     (\<forall>p q a. user_path p \<longrightarrow> user_path q \<longrightarrow> table_of root p st = Some a \<longrightarrow> table_of root q st = Some a \<longrightarrow> p = q) \<and>
     (\<forall>p t i. user_path (p @ [i]) \<longrightarrow> length p = 3 \<longrightarrow> table_of root p st = Some t \<longrightarrow>
        (bit (pt_mem st (entry_addr t i)) 0 \<longleftrightarrow> pt_mem st (entry_addr t i) AND PAGE_ADDRESS_MASK \<noteq> 0))"

lemma space_wfD:
  assumes "space_wf root st"
  shows "kmem_wf st" and "hhdm_ok st" and "a \<in> space root st \<Longrightarrow> a \<in> used_pages st"
    and "a \<in> space root st \<Longrightarrow> is_page a"
    and "user_path p \<Longrightarrow> user_path q \<Longrightarrow> table_of root p st = Some a \<Longrightarrow> table_of root q st = Some a \<Longrightarrow> p = q"
    and "user_path (p @ [i]) \<Longrightarrow> length p = 3 \<Longrightarrow> table_of root p st = Some t \<Longrightarrow>
      bit (pt_mem st (entry_addr t i)) 0 \<longleftrightarrow> pt_mem st (entry_addr t i) AND PAGE_ADDRESS_MASK \<noteq> 0"
proof -
  show "kmem_wf st" "hhdm_ok st" using assms by (simp_all add: space_wf_def)
  show used: "a \<in> used_pages st" if "a \<in> space root st" for a using assms that by (auto simp: space_wf_def)
  show "is_page a" if "a \<in> space root st" for a
    using used_pages_wfD [OF \<open>kmem_wf st\<close> used [OF that]] by (simp add: is_page_def)
  show "p = q" if "user_path p" "user_path q" "table_of root p st = Some a" "table_of root q st = Some a" for p q a
    using assms that unfolding space_wf_def by blast
  show "bit (pt_mem st (entry_addr t i)) 0 \<longleftrightarrow> pt_mem st (entry_addr t i) AND PAGE_ADDRESS_MASK \<noteq> 0"
    if "user_path (p @ [i])" "length p = 3" "table_of root p st = Some t" for p i t
    using assms that unfolding space_wf_def by blast
qed

lemma spaceI: "user_path p \<Longrightarrow> table_of root p st = Some a \<Longrightarrow> a \<in> space root st"
  by (auto simp: space_def)

lemma user_path_Nil [simp]: "user_path []"
  by (simp add: user_path_def)

lemma root_in_space [simp]: "root \<in> space root st"
  by (rule spaceI [of "[]"]) simp_all

lemma user_path_snocD: "user_path (p @ [i]) \<Longrightarrow> user_path p \<and> i < 512 \<and> length p < 4"
  by (cases p) (auto simp: user_path_def)

lemma user_path_snoc: "user_path p \<Longrightarrow> length p < 4 \<Longrightarrow> i < 512 \<Longrightarrow> p \<noteq> [] \<or> i < 256 \<Longrightarrow> user_path (p @ [i])"
  by (cases p) (auto simp: user_path_def)

definition page_path :: "u64 \<Rightarrow> u64 list" where
  "page_path v = virt_path v @ [virt_index 12 v]"

lemma user_index:
  assumes "v < USER_TOP"
  shows "virt_index 39 v < 256"
proof -
  have "unat v < 2 ^ 47" using assms by (simp add: word_less_nat_alt USER_TOP_def)
  then have "unat (drop_bit 39 v) < 256" by (simp add: unat_drop_bit less_mult_imp_div_less)
  then have "drop_bit 39 v AND 0x1FF < 256" by (intro order_le_less_trans [OF word_and_le2]) (simp add: word_less_nat_alt)
  then show ?thesis by (simp add: virt_index_def)
qed

lemma page_path_ok:
  assumes "v < USER_TOP"
  shows "user_path (page_path v)" "user_path (virt_path v)" "length (page_path v) = 4"
  using user_index [OF assms] by (simp_all add: page_path_def virt_path_def user_path_def virt_index_lt)

text \<open>Addresses of the lower half have the same path when they lie in the same page.\<close>

lemma bit_virt_index: "bit (virt_index n v) k \<longleftrightarrow> k < 9 \<and> bit v (n + k)"
proof -
  have "virt_index n v = drop_bit n v AND mask 9" by (simp add: virt_index_def mask_eq_exp_minus_1)
  then show ?thesis by (simp only: bit_simps) auto
qed

lemma bit_user_address: "v < USER_TOP \<Longrightarrow> bit v k \<Longrightarrow> k < 47"
proof -
  assume v: "v < USER_TOP" and k: "bit v k"
  have "take_bit 47 v = v"
    using v by (simp add: take_bit_eq_mod word_unat_eq_iff unat_mod word_less_nat_alt USER_TOP_def)
  then show "k < 47" using k by (metis bit_take_bit_iff)
qed

lemma bit_page_mask: "bit PAGE_ADDRESS_MASK k \<longleftrightarrow> 12 \<le> k \<and> k < 64"
proof -
  have "PAGE_ADDRESS_MASK = NOT (mask 12)" by (simp add: mask_eq_exp_minus_1)
  then show ?thesis by (simp only: bit_simps) auto
qed

lemma page_path_eq_iff:
  assumes "v < USER_TOP" and "w < USER_TOP"
  shows "page_path v = page_path w \<longleftrightarrow> v AND PAGE_ADDRESS_MASK = w AND PAGE_ADDRESS_MASK"
proof
  assume eq: "page_path v = page_path w"
  show "v AND PAGE_ADDRESS_MASK = w AND PAGE_ADDRESS_MASK"
  proof (rule bit_word_eqI)
    fix k assume "k < LENGTH(64)"
    have i: "bit v (n + j) = bit w (n + j)" if "n \<in> {12, 21, 30, 39}" "j < 9" for n j
      using eq that bit_virt_index [of n v j] bit_virt_index [of n w j] by (auto simp: page_path_def virt_path_def)
    have "bit v k = bit w k" if "12 \<le> k" "k < 48"
    proof -
      consider "k < 21" | "21 \<le> k" "k < 30" | "30 \<le> k" "k < 39" | "39 \<le> k" using that by linarith
      then show ?thesis
      proof cases
        case 1
        with that i [of 12 "k - 12"] show ?thesis by simp
      next
        case 2
        with i [of 21 "k - 21"] show ?thesis by simp
      next
        case 3
        with i [of 30 "k - 30"] show ?thesis by simp
      next
        case 4
        with that i [of 39 "k - 39"] show ?thesis by simp
      qed
    qed
    then show "bit (v AND PAGE_ADDRESS_MASK) k = bit (w AND PAGE_ADDRESS_MASK) k"
      using bit_user_address [OF assms(1), of k] bit_user_address [OF assms(2), of k]
      unfolding bit_and_iff bit_page_mask by auto
  qed
next
  assume "v AND PAGE_ADDRESS_MASK = w AND PAGE_ADDRESS_MASK"
  then have "bit v k = bit w k" if "12 \<le> k" "k < 64" for k
    using that bit_and_iff [of v PAGE_ADDRESS_MASK k] bit_and_iff [of w PAGE_ADDRESS_MASK k] bit_page_mask by metis
  then have "virt_index n v = virt_index n w" if "n \<in> {12, 21, 30, 39}" for n
    using that by (intro bit_word_eqI) (auto simp: bit_virt_index)
  then show "page_path v = page_path w" by (simp add: page_path_def virt_path_def)
qed

section \<open>The image of an address space\<close>

text \<open>What the program with this root table finds at an address: a byte, or nothing when the access faults.\<close>

definition user_image :: "u64 \<Rightarrow> 'z paging_state_scheme \<Rightarrow> u64 \<Rightarrow> u8 option" where
  "user_image root st v =
     (if v < USER_TOP
      then map_option (\<lambda>frame. frame_bytes st (frame + hhdm_offset st + (v AND PAGE_OFFSET_MASK))) (translate root v st)
      else None)"

lemma user_byte_image:
  "user_byte v st = (case user_image (cr3_reg st + hhdm_offset st) st v of Some b \<Rightarrow> Inr b | None \<Rightarrow> Inl Invalid_Access)"
  by (auto simp: user_byte_def user_addr_def user_image_def not_less split: option.splits)

lemma translate_page_path:
  assumes "space_wf root st" and "v < USER_TOP"
  shows "translate root v st = map_option (\<lambda>a. a - hhdm_offset st) (table_of root (page_path v) st)"
proof (cases "table_of root (virt_path v) st")
  case None
  then show ?thesis by (simp add: translate_def page_path_def table_at_snoc)
next
  case (Some t)
  let ?e = "pt_mem st (entry_addr t (virt_index 12 v))"
  have "bit ?e 0 \<longleftrightarrow> ?e AND PAGE_ADDRESS_MASK \<noteq> 0"
    using page_path_ok [OF assms(2)] Some by (intro space_wfD(6) [OF assms(1), of "virt_path v"]) (simp_all add: page_path_def)
  then show ?thesis using Some by (simp add: translate_def page_path_def table_at_snoc next_table_def)
qed

lemma image_path:
  assumes "space_wf root st" and "v < USER_TOP"
  shows "user_image root st v =
    map_option (\<lambda>a. page_bytes 4096 a st ! unat (v AND PAGE_OFFSET_MASK)) (table_of root (page_path v) st)"
proof -
  have "unat (v AND PAGE_OFFSET_MASK) < 4096"
    using unat_and_mask [of v 12] by (simp add: mask_eq_exp_minus_1)
  then show ?thesis using assms
    by (simp add: user_image_def translate_page_path option.map_comp comp_def page_bytes_def)
qed

lemma image_above: "\<not> v < USER_TOP \<Longrightarrow> user_image root st v = None"
  by (simp add: user_image_def)

text \<open>
  An operation that leaves the tables and frames of an address space alone leaves its image alone: \<open>untouched P\<close>
  says so of the pages in \<open>P\<close>.
\<close>

definition untouched :: "u64 set \<Rightarrow> 'z paging_state_scheme \<Rightarrow> 'z paging_state_scheme \<Rightarrow> bool" where
  "untouched P st st' \<longleftrightarrow> hhdm_offset st' = hhdm_offset st \<and> kmem_start st' = kmem_start st \<and> kmem_wf st' \<and>
     (\<forall>a \<in> P. a \<in> used_pages st' \<and> page_bytes 4096 a st' = page_bytes 4096 a st \<and>
        (\<forall>j < 512. pt_mem st' (entry_addr a j) = pt_mem st (entry_addr a j)))"

lemma untouched_refl: "kmem_wf st \<Longrightarrow> P \<subseteq> used_pages st \<Longrightarrow> untouched P st st"
  by (auto simp: untouched_def)

lemma untouched_trans: "untouched P st st1 \<Longrightarrow> untouched P st1 st2 \<Longrightarrow> untouched P st st2"
  unfolding untouched_def by metis

lemma untouched_mono: "untouched P st st' \<Longrightarrow> Q \<subseteq> P \<Longrightarrow> untouched Q st st'"
  unfolding untouched_def by blast

lemma untouched_tables:
  assumes wf: "space_wf root st" and same: "untouched (space root st) st st'" and q: "user_path q"
  shows "table_of root q st' = table_of root q st"
  using q
proof (induction q rule: rev_induct)
  case (snoc j q)
  have q: "user_path q" "j < 512" using user_path_snocD [OF snoc.prems] by auto
  have "pt_mem st' (entry_addr a j) = pt_mem st (entry_addr a j)" if "table_of root q st = Some a" for a
    using same spaceI [OF q(1) that] q(2) by (auto simp: untouched_def)
  moreover have "hhdm_offset st' = hhdm_offset st" using same by (simp add: untouched_def)
  ultimately show ?case unfolding table_at_snoc snoc.IH [OF q(1)] by (cases "table_of root q st") simp_all
qed simp

lemma untouched_space:
  assumes wf: "space_wf root st" and same: "untouched (space root st) st st'"
  shows "space_wf root st'" and "space root st' = space root st" and "user_image root st' = user_image root st"
proof -
  note tab = untouched_tables [OF wf same]
  show sp: "space root st' = space root st" by (auto simp: space_def tab)
  show wf': "space_wf root st'"
    unfolding space_wf_def
  proof (intro conjI allI impI)
    show "kmem_wf st'" using same by (simp add: untouched_def)
    show "hhdm_ok st'" using same space_wfD(2) [OF wf] by (simp add: untouched_def hhdm_ok_def)
    show "space root st' \<subseteq> used_pages st'" using same unfolding sp by (auto simp: untouched_def)
    show "p = q" if "user_path p" "user_path q" "table_of root p st' = Some a" "table_of root q st' = Some a" for p q a
      using space_wfD(5) [OF wf that(1,2)] that(3,4) tab [OF that(1)] tab [OF that(2)] by simp
    show "bit (pt_mem st' (entry_addr t i)) 0 \<longleftrightarrow> pt_mem st' (entry_addr t i) AND PAGE_ADDRESS_MASK \<noteq> 0"
      if p: "user_path (p @ [i])" "length p = 3" "table_of root p st' = Some t" for p t i
    proof -
      have up: "user_path p" "i < 512" using user_path_snocD [OF p(1)] by auto
      then have t: "table_of root p st = Some t" using tab p(3) by simp
      then have "pt_mem st' (entry_addr t i) = pt_mem st (entry_addr t i)"
        using same spaceI [OF up(1) t] up(2) by (simp add: untouched_def)
      then show ?thesis using space_wfD(6) [OF wf p(1,2) t] by simp
    qed
  qed
  show "user_image root st' = user_image root st"
  proof
    fix v
    show "user_image root st' v = user_image root st v"
    proof (cases "v < USER_TOP")
      case True
      note up = page_path_ok [OF True]
      have "page_bytes 4096 a st' = page_bytes 4096 a st" if "table_of root (page_path v) st = Some a" for a
        using same spaceI [OF up(1) that] by (simp add: untouched_def)
      then show ?thesis unfolding image_path [OF wf True] image_path [OF wf' True] tab [OF up(1)]
        by (cases "table_of root (page_path v) st") simp_all
    qed (simp add: image_above)
  qed
qed

section \<open>One entry changes\<close>

text \<open>An entry that leads to a new page: a table whose entries are empty, where there was none, or a frame.\<close>

lemma table_at_retarget:
  assumes wf: "space_wf root st" and p: "user_path (p @ [i])" "table_of root p st = Some t"
    and new: "new \<notin> space root st"
    and m': "\<forall>a \<in> space root st. \<forall>j < 512.
      m' (entry_addr a j) = (if a = t \<and> j = i then e else pt_mem st (entry_addr a j))"
    and e: "next_table (hhdm_offset st) e = Some new"
    and below: "length p = 3 \<or> table_of root (p @ [i]) st = None \<and> (\<forall>j < 512. m' (entry_addr new j) = 0)"
    and q: "user_path q"
  shows "table_at m' (hhdm_offset st) root q = (if q = p @ [i] then Some new else table_of root q st)"
  using q
proof (induction q rule: rev_induct)
  case (snoc j q)
  have q: "user_path q" "j < 512" "length q < 4" using user_path_snocD [OF snoc.prems] by auto
  have up: "user_path p" using user_path_snocD [OF p(1)] by auto
  note IH = snoc.IH [OF q(1)]
  consider (inside) "q = p @ [i]" | (none) "q \<noteq> p @ [i]" "table_of root q st = None"
    | (some) a where "q \<noteq> p @ [i]" "table_of root q st = Some a" by blast
  then show ?case
  proof cases
    case inside
    then have below: "table_of root q st = None" "m' (entry_addr new j) = 0" using below q(2,3) by auto
    then have "table_at m' (hhdm_offset st) root (q @ [j]) = None"
      unfolding table_at_snoc IH using inside by (simp add: next_table_def)
    moreover have "table_of root (q @ [j]) st = None" using below(1) by (simp add: table_at_snoc)
    ultimately show ?thesis using inside by simp
  next
    case none
    then show ?thesis unfolding table_at_snoc IH using p(2) by auto
  next
    case some
    have "a = t \<longleftrightarrow> q = p" using space_wfD(5) [OF wf q(1) up] some(2) p(2) by auto
    then have "m' (entry_addr a j) = (if q = p \<and> j = i then e else pt_mem st (entry_addr a j))"
      using m' [rule_format, OF spaceI [OF q(1) some(2)] q(2)] by auto
    then show ?thesis unfolding table_at_snoc IH using some e by simp
  qed
qed simp

lemma space_retarget:
  assumes wf: "space_wf root st" and p: "user_path (p @ [i])" "table_of root p st = Some t"
    and new: "new \<notin> space root st"
    and m': "\<forall>a \<in> space root st. \<forall>j < 512.
      pt_mem st' (entry_addr a j) = (if a = t \<and> j = i then e else pt_mem st (entry_addr a j))"
    and e: "next_table (hhdm_offset st) e = Some new" "length p = 3 \<longrightarrow> bit e 0"
    and below: "length p = 3 \<or> table_of root (p @ [i]) st = None \<and> (\<forall>j < 512. pt_mem st' (entry_addr new j) = 0)"
    and same: "hhdm_offset st' = hhdm_offset st" "kmem_start st' = kmem_start st" "kmem_wf st'"
    and used: "new \<in> used_pages st'" "space root st \<subseteq> used_pages st'"
  shows "\<And>q. user_path q \<Longrightarrow> table_of root q st' = (if q = p @ [i] then Some new else table_of root q st)"
    and "space_wf root st'" and "space root st' \<subseteq> insert new (space root st)"
    and "table_of root (p @ [i]) st = None \<Longrightarrow> space root st' = insert new (space root st)"
proof -
  show tab: "table_of root q st' = (if q = p @ [i] then Some new else table_of root q st)" if "user_path q" for q
    using table_at_retarget [OF wf p new m' e(1) below that] same(1) by simp
  have up: "user_path p" using user_path_snocD [OF p(1)] by auto
  show sub: "space root st' \<subseteq> insert new (space root st)"
  proof
    fix a assume "a \<in> space root st'"
    then obtain q where q: "user_path q" "table_of root q st' = Some a" by (auto simp: space_def)
    then show "a \<in> insert new (space root st)" using tab spaceI [of q st root a] by (auto split: if_splits)
  qed
  show "space root st' = insert new (space root st)" if none: "table_of root (p @ [i]) st = None"
  proof (intro equalityI sub insert_subsetI subsetI)
    show "new \<in> space root st'" using spaceI [OF p(1)] tab [OF p(1)] by simp
    fix a assume "a \<in> space root st"
    then obtain q where q: "user_path q" "table_of root q st = Some a" by (auto simp: space_def)
    then have "q \<noteq> p @ [i]" using none by auto
    then show "a \<in> space root st'" using spaceI [OF q(1)] tab [OF q(1)] q(2) by simp
  qed
  show "space_wf root st'"
    unfolding space_wf_def
  proof (intro conjI allI impI)
    show "kmem_wf st'" by (rule same(3))
    show "hhdm_ok st'" using same space_wfD(2) [OF wf] by (simp add: hhdm_ok_def)
    show "space root st' \<subseteq> used_pages st'" using sub used by blast
    show "q = r" if q: "user_path q" "user_path r" "table_of root q st' = Some a" "table_of root r st' = Some a" for q r a
    proof -
      have "table_of root q st \<noteq> Some new" "table_of root r st \<noteq> Some new" using new spaceI q(1,2) by blast+
      then show ?thesis
        using q(3,4) tab [OF q(1)] tab [OF q(2)] space_wfD(5) [OF wf q(1,2)] by (auto split: if_splits)
    qed
    show "bit (pt_mem st' (entry_addr a j)) 0 \<longleftrightarrow> pt_mem st' (entry_addr a j) AND PAGE_ADDRESS_MASK \<noteq> 0"
      if q: "user_path (q @ [j])" "length q = 3" "table_of root q st' = Some a" for q a j
    proof (cases "q = p @ [i]")
      case True
      then have "pt_mem st' (entry_addr a j) = 0" using below q tab [of q] user_path_snocD [OF q(1)] by auto
      then show ?thesis by simp
    next
      case False
      have uq: "user_path q" "j < 512" using user_path_snocD [OF q(1)] by auto
      have a: "table_of root q st = Some a" using tab [OF uq(1)] q(3) False by simp
      have "a = t \<Longrightarrow> q = p" using space_wfD(5) [OF wf uq(1) up a] p(2) by simp
      moreover have "e AND PAGE_ADDRESS_MASK \<noteq> 0" using e(1) by (auto simp: next_table_def split: if_splits)
      ultimately show ?thesis
        using m' [rule_format, OF spaceI [OF uq(1) a] uq(2)] space_wfD(6) [OF wf q(1,2) a] e(2) q(2) by auto
    qed
  qed
qed

text \<open>An entry that is cleared, when nothing is left below it.\<close>

lemma space_detach:
  assumes wf: "space_wf root st" and p: "user_path (p @ [i])" "table_of root p st = Some t" "table_of root (p @ [i]) st = Some a"
    and empty: "\<forall>j. user_path (p @ [i, j]) \<longrightarrow> table_of root (p @ [i, j]) st = None"
    and m': "\<forall>b \<in> space root st. \<forall>j < 512.
      pt_mem st' (entry_addr b j) = (if b = t \<and> j = i then 0 else pt_mem st (entry_addr b j))"
    and same: "hhdm_offset st' = hhdm_offset st" "kmem_start st' = kmem_start st" "kmem_wf st'"
    and used: "used_pages st' = used_pages st - {a}"
  shows "\<And>q. user_path q \<Longrightarrow> table_of root q st' = (if q = p @ [i] then None else table_of root q st)"
    and "space_wf root st'" and "space root st' = space root st - {a}"
proof -
  have up: "user_path p" using user_path_snocD [OF p(1)] by auto
  show tab: "table_of root q st' = (if q = p @ [i] then None else table_of root q st)" if "user_path q" for q
    using that
  proof (induction q rule: rev_induct)
    case (snoc j q)
    have q: "user_path q" "j < 512" using user_path_snocD [OF snoc.prems] by auto
    note IH = snoc.IH [OF q(1)]
    consider (inside) "q = p @ [i]" | (none) "q \<noteq> p @ [i]" "table_of root q st = None"
      | (some) b where "q \<noteq> p @ [i]" "table_of root q st = Some b" by blast
    then show ?case
    proof cases
      case inside
      then have "table_of root (q @ [j]) st = None" using empty [rule_format, of j] snoc.prems by simp
      then show ?thesis unfolding table_at_snoc [of "pt_mem st'"] IH using inside by simp
    next
      case none
      then show ?thesis unfolding table_at_snoc IH by auto
    next
      case some
      have "b = t \<longleftrightarrow> q = p" using space_wfD(5) [OF wf q(1) up] some(2) p(2) by auto
      then have "pt_mem st' (entry_addr b j) = (if q = p \<and> j = i then 0 else pt_mem st (entry_addr b j))"
        using m' [rule_format, OF spaceI [OF q(1) some(2)] q(2)] by auto
      then show ?thesis unfolding table_at_snoc IH using some same(1) by (simp add: next_table_def)
    qed
  qed simp
  show sp: "space root st' = space root st - {a}"
  proof (intro equalityI subsetI)
    fix b assume "b \<in> space root st'"
    then obtain q where q: "user_path q" "table_of root q st' = Some b" by (auto simp: space_def)
    then have "q \<noteq> p @ [i]" "table_of root q st = Some b" using tab [OF q(1)] by (auto split: if_splits)
    then show "b \<in> space root st - {a}" using space_wfD(5) [OF wf q(1) p(1)] p(3) spaceI [OF q(1)] by auto
  next
    fix b assume "b \<in> space root st - {a}"
    then obtain q where q: "user_path q" "table_of root q st = Some b" "b \<noteq> a" by (auto simp: space_def)
    then have "q \<noteq> p @ [i]" using p(3) by auto
    then show "b \<in> space root st'" using spaceI [OF q(1)] tab [OF q(1)] q(2) by simp
  qed
  show "space_wf root st'"
    unfolding space_wf_def
  proof (intro conjI allI impI)
    show "kmem_wf st'" by (rule same(3))
    show "hhdm_ok st'" using same space_wfD(2) [OF wf] by (simp add: hhdm_ok_def)
    show "space root st' \<subseteq> used_pages st'" using sp used space_wfD(3) [OF wf] by blast
    show "q = r" if q: "user_path q" "user_path r" "table_of root q st' = Some b" "table_of root r st' = Some b" for q r b
      using q(3,4) tab [OF q(1)] tab [OF q(2)] space_wfD(5) [OF wf q(1,2)] by (auto split: if_splits)
    show "bit (pt_mem st' (entry_addr b j)) 0 \<longleftrightarrow> pt_mem st' (entry_addr b j) AND PAGE_ADDRESS_MASK \<noteq> 0"
      if q: "user_path (q @ [j])" "length q = 3" "table_of root q st' = Some b" for q b j
    proof -
      have uq: "user_path q" "j < 512" using user_path_snocD [OF q(1)] by auto
      have b: "table_of root q st = Some b" using tab [OF uq(1)] q(3) by (auto split: if_splits)
      show ?thesis using m' [rule_format, OF spaceI [OF uq(1) b] uq(2)] space_wfD(6) [OF wf q(1,2) b] by simp
    qed
  qed
qed

section \<open>Mapping a page\<close>

text \<open>
  \<^verbatim>\<open>set_page_mapping\<close> adds tables to the address space, each a new page, and then sets the entry of the page.
  Pages in use outside the address space are not touched.
\<close>

definition space_grown :: "u64 \<Rightarrow> 'z paging_state_scheme \<Rightarrow> 'z paging_state_scheme \<Rightarrow> bool" where
  "space_grown root st st' \<longleftrightarrow> space_wf root st' \<and> used_pages st \<subseteq> used_pages st' \<and>
     (\<forall>q. user_path q \<longrightarrow> length q = 4 \<longrightarrow> table_of root q st' = table_of root q st) \<and>
     (\<forall>q a. user_path q \<longrightarrow> table_of root q st = Some a \<longrightarrow> table_of root q st' = Some a) \<and>
     space root st' = space root st \<union> (used_pages st' - used_pages st) \<and>
     untouched (used_pages st - space root st) st st' \<and> frame_bytes st' = frame_bytes st"

lemma space_grown_refl: "space_wf root st \<Longrightarrow> space_grown root st st"
  by (simp add: space_grown_def untouched_refl space_wfD(1))

lemma space_grown_trans:
  assumes "space_grown root st st1" and "space_grown root st1 st2"
  shows "space_grown root st st2"
proof -
  have "used_pages st - space root st \<subseteq> used_pages st1 - space root st1" using assms(1) by (auto simp: space_grown_def)
  then have "untouched (used_pages st - space root st) st1 st2"
    using assms(2) unfolding space_grown_def by (blast intro: untouched_mono)
  then have "untouched (used_pages st - space root st) st st2"
    using assms(1) unfolding space_grown_def by (blast intro: untouched_trans)
  then show ?thesis using assms unfolding space_grown_def by auto
qed

lemma outside_entries:
  assumes "kmem_wf st" and "a \<in> used_pages st" and "t \<in> used_pages st" and "a \<noteq> t" and "i < 512" and "j < 512"
  shows "entry_addr a j \<noteq> entry_addr t i"
  using entry_addr_eq_iff [of a t j i] used_pages_wfD [OF assms(1)] assms(2-6) by (simp add: is_page_def)

lemma descend_grows:
  assumes wf: "space_wf root st" and p: "user_path (p @ [i])" "length p < 3" "table_of root p st = Some t"
    and d: "descend t i st = Inr (st', t')"
  shows "space_grown root st st' \<and> table_of root (p @ [i]) st' = Some t'"
proof (cases "table_of root (p @ [i]) st")
  case (Some a)
  then have "next_table (hhdm_offset st) (pt_mem st (entry_addr t i)) = Some a" using p(3) by (simp add: table_at_snoc)
  then have "pt_mem st (entry_addr t i) AND PAGE_ADDRESS_MASK \<noteq> 0"
    "a = (pt_mem st (entry_addr t i) AND PAGE_ADDRESS_MASK) + hhdm_offset st"
    by (auto simp: next_table_def split: if_splits)
  with d have "st' = st" "t' = a" by (auto simp: descend_def)
  then show ?thesis using Some space_grown_refl [OF wf] by simp
next
  case None
  then have "pt_mem st (entry_addr t i) AND PAGE_ADDRESS_MASK = 0"
    using p(3) by (simp add: table_at_snoc next_table_def split: if_splits)
  with d obtain st1 where k: "kpage_alloc 1 st = Inr (st1, t')"
    and st': "st' = st1\<lparr>pt_mem := (zero_page t' (pt_mem st1))(entry_addr t i := (t' - hhdm_offset st1) OR PAGE_DIRECTORY_ATTRIBUTES)\<rparr>"
    by (auto simp: descend_def res_bind_eq_Inr)
  note u = kpage_alloc1_used [OF space_wfD(1) [OF wf] k]
  from kpage_alloc1_cases [OF space_wfD(1) [OF wf] k] obtain g where
    st1: "st1 = st\<lparr>kmem_page_array := (kmem_page_array st)[g := KPAGE_USED], kmem_used_pages := kmem_used_pages st + 1\<rparr>" .
  have f: "pt_mem st1 = pt_mem st" "hhdm_offset st1 = hhdm_offset st" "kmem_start st1 = kmem_start st"
    "frame_bytes st1 = frame_bytes st" by (simp_all add: st1)
  have up: "user_path p" "i < 512" using user_path_snocD [OF p(1)] by auto
  have t: "t \<in> used_pages st" using space_wfD(3) [OF wf] spaceI [OF up(1) p(3)] by blast
  have hh: "hhdm_ok st1" using space_wfD(2) [OF wf] f by (simp add: hhdm_ok_def)
  have page: "is_page t'" using used_pages_wfD [OF u(1)] u(3) by (simp add: is_page_def)
  have used: "used_pages st' = insert t' (used_pages st)" using u(3) by (simp add: st')
  let ?e = "(t' - hhdm_offset st1) OR PAGE_DIRECTORY_ATTRIBUTES"
  have e: "next_table (hhdm_offset st) ?e = Some t'"
    using next_table_new [OF hh page] used_page_above_start [OF u(1), of t'] u(3) hh f by (auto simp: hhdm_ok_def)
  have new: "t' \<notin> space root st" using space_wfD(3) [OF wf] u(2) by blast
  have old: "pt_mem st' (entry_addr a j) = (if a = t \<and> j = i then ?e else pt_mem st (entry_addr a j))"
    if a: "a \<in> used_pages st" "j < 512" for a j
  proof -
    have "is_page a" "a \<noteq> t'" using used_pages_wfD [OF space_wfD(1) [OF wf] a(1)] a(1) u(2) by (auto simp: is_page_def)
    moreover have "is_page t" using used_pages_wfD [OF space_wfD(1) [OF wf] t] by (simp add: is_page_def)
    ultimately show ?thesis using entry_addr_eq_iff [of a t j i] entry_in_page [OF page, of a j] a(2) up(2) f
      by (auto simp: st' zero_page_def)
  qed
  have empty: "pt_mem st' (entry_addr t' j) = 0" if "j < 512" for j
  proof -
    have "is_page t" "t \<noteq> t'" using used_pages_wfD [OF space_wfD(1) [OF wf] t] t u(2) by (auto simp: is_page_def)
    then show ?thesis using entry_addr_eq_iff [OF page, of t j i] entry_in_page [OF page page that] that up(2)
      by (auto simp: st' zero_page_def)
  qed
  have same: "hhdm_offset st' = hhdm_offset st" "kmem_start st' = kmem_start st" "kmem_wf st'" using f u(1) by (simp_all add: st')
  have below: "length p = 3 \<or> table_of root (p @ [i]) st = None \<and> (\<forall>j < 512. pt_mem st' (entry_addr t' j) = 0)"
    using None empty by simp
  have in_used: "t' \<in> used_pages st'" "space root st \<subseteq> used_pages st'" using used space_wfD(3) [OF wf] by auto
  have inside: "\<forall>a \<in> space root st. \<forall>j < 512. pt_mem st' (entry_addr a j) = (if a = t \<and> j = i then ?e else pt_mem st (entry_addr a j))"
    using old space_wfD(3) [OF wf] by simp
  have flag: "length p = 3 \<longrightarrow> bit ?e 0" using p(2) by simp
  note r = space_retarget [OF wf p(1,3) new inside e flag below same in_used]
  note r1 = r(1)
  have "used_pages st' - used_pages st = {t'}" using used u(2) by auto
  moreover have "untouched (used_pages st - space root st) st st'"
    using old same used f spaceI [OF up(1) p(3)] by (auto simp: untouched_def page_bytes_def st')
  moreover have "length q = 4 \<Longrightarrow> q \<noteq> p @ [i]" for q using p(2) by auto
  moreover have "space_wf root st'" "space root st' = insert t' (space root st)" using r(2,4) None p(2) by simp_all
  moreover have "frame_bytes st' = frame_bytes st" using f by (simp add: st')
  moreover have "table_of root q st' = Some a" if "user_path q" "table_of root q st = Some a" for q a
    using r1 [OF that(1)] that(2) None by (cases "q = p @ [i]") simp_all
  ultimately have "space_grown root st st'" unfolding space_grown_def using r1 used by (simp add: subset_insertI)
  then show ?thesis using r1 [OF p(1)] by simp
qed

lemma descend_error:
  assumes "kmem_wf st" and "descend t i st = Inl e"
  shows "e = Panic ''Out of physical memory''"
proof -
  from assms(2) have "kpage_alloc 1 st = Inl e" by (auto simp: descend_def res_bind_eq_Inl Let_def split: if_splits)
  then show ?thesis using assms(1) by (auto simp: kpage_alloc_eq Let_def split: if_splits)
qed

text \<open>The three tables above the entry of a page, created where they are missing.\<close>

lemma walk_down:
  assumes wf: "space_wf root st" and v: "v < USER_TOP"
  shows "case res_bind (descend root (virt_index 39 v) st) (\<lambda>(st1, t1). res_bind (descend t1 (virt_index 30 v) st1)
      (\<lambda>(st2, t2). descend t2 (virt_index 21 v) st2)) of
    Inl e \<Rightarrow> e = Panic ''Out of physical memory''
  | Inr (st', t) \<Rightarrow> space_grown root st st' \<and> table_of root (virt_path v) st' = Some t"
proof -
  let ?a = "virt_index 39 v" and ?b = "virt_index 30 v" and ?c = "virt_index 21 v"
  have up: "user_path ([] @ [?a])" "user_path ([?a] @ [?b])" "user_path ([?a, ?b] @ [?c])"
    using user_index [OF v] by (simp_all add: user_path_def virt_index_lt)
  show ?thesis
  proof (cases "descend root ?a st")
    case (Inl e)
    then show ?thesis using descend_error [OF space_wfD(1) [OF wf]] by simp
  next
    case (Inr r)
    then obtain s1 t1 where 1: "descend root ?a st = Inr (s1, t1)" by (cases r) simp
    have g1: "space_grown root st s1 \<and> table_of root [?a] s1 = Some t1"
      using descend_grows [OF wf up(1) _ _ 1] by simp
    then have wf1: "space_wf root s1" by (simp add: space_grown_def)
    show ?thesis
    proof (cases "descend t1 ?b s1")
      case (Inl e)
      then show ?thesis using 1 descend_error [OF space_wfD(1) [OF wf1]] by simp
    next
      case (Inr r)
      then obtain s2 t2 where 2: "descend t1 ?b s1 = Inr (s2, t2)" by (cases r) simp
      have g2: "space_grown root s1 s2 \<and> table_of root [?a, ?b] s2 = Some t2"
        using descend_grows [OF wf1 up(2) _ _ 2] g1 by simp
      then have wf2: "space_wf root s2" by (simp add: space_grown_def)
      show ?thesis
      proof (cases "descend t2 ?c s2")
        case (Inl e)
        then show ?thesis using 1 2 descend_error [OF space_wfD(1) [OF wf2]] by simp
      next
        case (Inr r)
        then obtain s3 t3 where 3: "descend t2 ?c s2 = Inr (s3, t3)" by (cases r) simp
        have "space_grown root s2 s3 \<and> table_of root (virt_path v) s3 = Some t3"
          using descend_grows [OF wf2 up(3) _ _ 3] g2 by (simp add: virt_path_def)
        moreover from this have "space_grown root st s3"
          using g1 g2 space_grown_trans [of root s1 s2 s3] space_grown_trans [of root st s1 s3] by blast
        ultimately show ?thesis using 1 2 3 by simp
      qed
    qed
  qed
qed

definition space_mapped :: "u64 \<Rightarrow> u64 \<Rightarrow> u64 \<Rightarrow> 'z paging_state_scheme \<Rightarrow> 'z paging_state_scheme \<Rightarrow> bool" where
  "space_mapped root v k st st' \<longleftrightarrow> space_wf root st' \<and> used_pages st \<subseteq> used_pages st' \<and>
     (\<forall>q. user_path q \<longrightarrow> length q = 4 \<longrightarrow> table_of root q st' = (if q = page_path v then Some k else table_of root q st)) \<and>
     space root st' \<subseteq> insert k (space root st \<union> (used_pages st' - used_pages st)) \<and>
     (translate root v st = None \<longrightarrow> space root st' = insert k (space root st \<union> (used_pages st' - used_pages st))) \<and>
     untouched (used_pages st - space root st) st st' \<and> frame_bytes st' = frame_bytes st"

lemma frame_address:
  assumes "kmem_wf st" and "hhdm_ok st" and "k \<in> used_pages st"
  shows "(k - hhdm_offset st) AND 4095 = 0" and "hhdm_offset st < k"
    and "next_table (hhdm_offset st) ((k - hhdm_offset st) OR PAGE_TABLE_ATTRIBUTES) = Some k"
    and "bit ((k - hhdm_offset st) OR PAGE_TABLE_ATTRIBUTES) 0"
proof -
  show gt: "hhdm_offset st < k" using used_page_above_start [OF assms(1,3)] assms(2) by (auto simp: hhdm_ok_def)
  then have "unat (k - hhdm_offset st) = unat k - unat (hhdm_offset st)" by (intro unat_sub_no_wrap) simp
  then have al: "4096 dvd unat (k - hhdm_offset st)"
    using assms(2) used_pages_wfD(1) [OF assms(1,3)] by (simp add: hhdm_ok_def)
  have "unat ((k - hhdm_offset st) AND 4095) = unat (k - hhdm_offset st) mod 4096"
    using unat_and_mask [of "k - hhdm_offset st" 12] by (simp add: mask_eq_exp_minus_1)
  then show "(k - hhdm_offset st) AND 4095 = 0" using al by (simp add: unat_eq_0 flip: unat_eq_0)
  have "((k - hhdm_offset st) OR PAGE_TABLE_ATTRIBUTES) AND PAGE_ADDRESS_MASK = k - hhdm_offset st"
    by (rule aligned_mask [OF al]) (rule attributes_masked)
  moreover have "k - hhdm_offset st \<noteq> 0" using gt by auto
  ultimately show "next_table (hhdm_offset st) ((k - hhdm_offset st) OR PAGE_TABLE_ATTRIBUTES) = Some k"
    by (simp add: next_table_def)
  show "bit ((k - hhdm_offset st) OR PAGE_TABLE_ATTRIBUTES) 0"
    using table_attribute_bits [of "k - hhdm_offset st" False] by simp
qed

lemma map_frame:
  assumes wf: "space_wf root st" and v: "v < USER_TOP" and k: "k \<in> used_pages st" "k \<notin> space root st"
  shows "case set_page_mapping root v (k - hhdm_offset st) False st of
    Inl e \<Rightarrow> e = Panic ''Out of physical memory'' | Inr st' \<Rightarrow> space_mapped root v k st st'"
proof -
  note fa = frame_address [OF space_wfD(1,2) [OF wf] k(1)]
  let ?walk = "res_bind (descend root (virt_index 39 v) st) (\<lambda>(st1, t1). res_bind (descend t1 (virt_index 30 v) st1)
      (\<lambda>(st2, t2). descend t2 (virt_index 21 v) st2))"
  have eq: "set_page_mapping root v (k - hhdm_offset st) False st = res_bind ?walk (\<lambda>(st3, t).
      Inr (st3\<lparr>pt_mem := (pt_mem st3)(entry_addr t (virt_index 12 v) := (k - hhdm_offset st) OR PAGE_TABLE_ATTRIBUTES)\<rparr>))"
    using fa(1) by (auto simp: set_page_mapping_def res_bind_def split: sum.split)
  show ?thesis
  proof (cases ?walk)
    case (Inl e)
    then show ?thesis using walk_down [OF wf v] unfolding eq by simp
  next
    case (Inr r)
    then obtain s3 t where w: "?walk = Inr (s3, t)" by (cases r) simp
    with walk_down [OF wf v] have g: "space_grown root st s3" and t: "table_of root (virt_path v) s3 = Some t" by simp_all
    let ?e = "(k - hhdm_offset st) OR PAGE_TABLE_ATTRIBUTES" and ?i = "virt_index 12 v"
    define st' where "st' = s3\<lparr>pt_mem := (pt_mem s3)(entry_addr t ?i := ?e)\<rparr>"
    have wf3: "space_wf root s3" using g by (simp add: space_grown_def)
    have h: "hhdm_offset s3 = hhdm_offset st" using g by (simp add: space_grown_def untouched_def)
    have path: "user_path (virt_path v @ [?i])" "length (virt_path v) = 3" "page_path v = virt_path v @ [?i]"
      using page_path_ok [OF v] by (simp_all add: page_path_def virt_path_def)
    have ts: "t \<in> space root s3" by (rule spaceI [OF page_path_ok(2) [OF v] t])
    have sp: "space root s3 = space root st \<union> (used_pages s3 - used_pages st)" using g by (simp add: space_grown_def)
    then have new: "k \<notin> space root s3" using k by blast
    have entry: "pt_mem st' (entry_addr a j) = (if a = t \<and> j = ?i then ?e else pt_mem s3 (entry_addr a j))"
      if "a \<in> used_pages s3" "j < 512" for a j
      using outside_entries [OF space_wfD(1) [OF wf3] that(1) space_wfD(3) [OF wf3 ts] _ virt_index_lt that(2), of 12 v] that(2)
        entry_addr_eq_iff [OF space_wfD(4) [OF wf3 ts] space_wfD(4) [OF wf3 ts] that(2) virt_index_lt, of 12 v]
      by (auto simp: st'_def)
    have e: "next_table (hhdm_offset s3) ?e = Some k" using fa(3) h by simp
    have inside: "\<forall>a \<in> space root s3. \<forall>j < 512. pt_mem st' (entry_addr a j) =
        (if a = t \<and> j = ?i then ?e else pt_mem s3 (entry_addr a j))" using entry space_wfD(3) [OF wf3] by simp
    have below: "length (virt_path v) = 3 \<or> table_of root (virt_path v @ [?i]) s3 = None \<and> (\<forall>j < 512. pt_mem st' (entry_addr k j) = 0)"
      using path(2) by simp
    have flag: "length (virt_path v) = 3 \<longrightarrow> bit ?e 0" using fa(4) by simp
    have same: "hhdm_offset st' = hhdm_offset s3" "kmem_start st' = kmem_start s3" "kmem_wf st'"
      using space_wfD(1) [OF wf3] by (simp_all add: st'_def)
    have used: "used_pages st' = used_pages s3" by (simp add: st'_def)
    have "k \<in> used_pages st'" "space root s3 \<subseteq> used_pages st'"
      using k(1) g space_wfD(3) [OF wf3] unfolding used by (auto simp: space_grown_def)
    note r = space_retarget [OF wf3 path(1) t new inside e flag below same this]
    have "table_of root q st' = (if q = page_path v then Some k else table_of root q st)" if "user_path q" "length q = 4" for q
      using r(1) [OF that(1)] g that path(3) by (simp add: space_grown_def)
    moreover have "space root st' \<subseteq> insert k (space root st \<union> (used_pages st' - used_pages st))"
      using r(3) sp used by simp
    moreover have "space root st' = insert k (space root st \<union> (used_pages st' - used_pages st))" if "translate root v st = None"
    proof -
      have "table_of root (page_path v) st = None" using that translate_page_path [OF wf v] by simp
      then have "table_of root (virt_path v @ [?i]) s3 = None"
        using g page_path_ok [OF v] path(3) by (simp add: space_grown_def)
      then show ?thesis using r(4) sp used by simp
    qed
    moreover have "untouched (used_pages st - space root st) st st'"
    proof -
      have "untouched (used_pages st - space root st) s3 st'"
        unfolding untouched_def
      proof (intro conjI ballI allI impI same)
        fix a assume a: "a \<in> used_pages st - space root st"
        then have a3: "a \<in> used_pages s3" "a \<noteq> t" using g sp ts by (auto simp: space_grown_def)
        then show "a \<in> used_pages st'" by (simp add: used)
        show "page_bytes 4096 a st' = page_bytes 4096 a s3" by (simp add: st'_def page_bytes_def)
        show "pt_mem st' (entry_addr a j) = pt_mem s3 (entry_addr a j)" if "j < 512" for j
          using entry [OF a3(1) that] a3(2) by simp
      qed
      then show ?thesis using g unfolding space_grown_def by (blast intro: untouched_trans)
    qed
    moreover have "frame_bytes st' = frame_bytes st" "used_pages st \<subseteq> used_pages st'"
      using g used by (simp_all add: space_grown_def st'_def)
    ultimately have "space_mapped root v k st st'" unfolding space_mapped_def using r(2) by blast
    then show ?thesis unfolding eq w st'_def by simp
  qed
qed

text \<open>The image after the entry of a page has been set, or after the bytes of its frame have been replaced.\<close>

definition page_of :: "u64 \<Rightarrow> u64 set" where
  "page_of v = {w. w < USER_TOP \<and> w AND PAGE_ADDRESS_MASK = v AND PAGE_ADDRESS_MASK}"

definition page_image :: "u8 list \<Rightarrow> u64 \<Rightarrow> u8 option" where
  "page_image bs w = Some (bs ! unat (w AND PAGE_OFFSET_MASK))"

lemma image_mapped:
  assumes wf: "space_wf root st" and v: "v < USER_TOP" and k: "k \<in> used_pages st" and m: "space_mapped root v k st st'"
  shows "user_image root st' = override_on (user_image root st) (page_image (page_bytes 4096 k st)) (page_of v)"
proof
  fix w
  have wf': "space_wf root st'" using m by (simp add: space_mapped_def)
  have bytes: "page_bytes 4096 a st' = page_bytes 4096 a st" for a using m by (simp add: space_mapped_def page_bytes_def)
  show "user_image root st' w = override_on (user_image root st) (page_image (page_bytes 4096 k st)) (page_of v) w"
  proof (cases "w < USER_TOP")
    case True
    have "table_of root (page_path w) st' = (if page_path w = page_path v then Some k else table_of root (page_path w) st)"
      using m page_path_ok [OF True] by (simp add: space_mapped_def)
    then show ?thesis
      unfolding image_path [OF wf True] image_path [OF wf' True] bytes page_path_eq_iff [OF True v]
      using True by (auto simp: override_on_def page_of_def page_image_def image_path [OF wf True])
  qed (simp add: image_above override_on_def page_of_def)
qed

lemma store_page_fields [simp]:
  "kmem_wf (store_page k bs st) = kmem_wf st" "used_pages (store_page k bs st) = used_pages st"
  "hhdm_ok (store_page k bs st) = hhdm_ok st" "pt_mem (store_page k bs st) = pt_mem st"
  "hhdm_offset (store_page k bs st) = hhdm_offset st" "kmem_start (store_page k bs st) = kmem_start st"
  by (simp_all add: store_page_def kmem_wf_def used_pages_def page_addr_def hhdm_ok_def)

lemma store_page_untouched:
  assumes "kmem_wf st" and "k \<in> used_pages st" and "length bs = 4096" and "P \<subseteq> used_pages st - {k}"
  shows "untouched P st (store_page k bs st)"
proof -
  have "page_bytes 4096 a (store_page k bs st) = page_bytes 4096 a st" if "a \<in> P" for a
    using page_bytes_other [OF assms(1) _ assms(2), of a 0 4096 0 bs st] that assms(3,4) by auto
  then show ?thesis using assms(1,4) by (auto simp: untouched_def)
qed

lemma store_page_space:
  assumes "space_wf root st"
  shows "space_wf root (store_page k bs st)" and "space root (store_page k bs st) = space root st"
    and "table_of root p (store_page k bs st) = table_of root p st"
  using assms by (simp_all add: space_wf_def space_def)

lemma image_store:
  assumes wf: "space_wf root st" and v: "v < USER_TOP" and k: "table_of root (page_path v) st = Some k" and bs: "length bs = 4096"
  shows "user_image root (store_page k bs st) = override_on (user_image root st) (page_image bs) (page_of v)"
proof
  fix w
  note st' = store_page_space [OF wf, of k bs]
  have used: "k \<in> used_pages st" using space_wfD(3) [OF wf] spaceI [OF page_path_ok(1) [OF v] k] by blast
  show "user_image root (store_page k bs st) w = override_on (user_image root st) (page_image bs) (page_of v) w"
  proof (cases "w < USER_TOP")
    case True
    note up = page_path_ok [OF True] page_path_ok [OF v]
    show ?thesis
    proof (cases "page_path w = page_path v")
      case same: True
      have "page_bytes 4096 k (store_page k bs st) = bs" using page_bytes_store [of bs k st] bs by simp
      then show ?thesis using same True page_path_eq_iff [OF True v] k
        by (simp add: image_path [OF st'(1) True] st'(3) page_of_def page_image_def override_on_def)
    next
      case other: False
      have "page_bytes 4096 a (store_page k bs st) = page_bytes 4096 a st" if a: "table_of root (page_path w) st = Some a" for a
      proof -
        have "a \<noteq> k" using space_wfD(5) [OF wf up(1,4) a] k other by auto
        moreover have "a \<in> used_pages st" using space_wfD(3) [OF wf] spaceI [OF up(1) a] by blast
        ultimately show ?thesis
          using page_bytes_other [OF space_wfD(1) [OF wf] _ used, of a 0 4096 0 bs st] bs by simp
      qed
      then show ?thesis using other True page_path_eq_iff [OF True v]
        by (cases "table_of root (page_path w) st")
          (simp_all add: image_path [OF st'(1) True] image_path [OF wf True] st'(3) page_of_def override_on_def)
    qed
  qed (simp add: image_above override_on_def page_of_def)
qed

end
