(* ===== verification/UserMemory.thy ===== *)
theory UserMemory
  imports Userspace Spaces Sched "HOL-Library.Sublist"
begin

text \<open>
  The memory of processes: what mapping, setting up and freeing user memory do to the images of the address spaces.
  A loop over pages fills them (locale \<open>page_filler\<close>), with zeros for a program and with the parent's bytes for a
  child. Other address spaces keep their images, and freeing gives back every page of the address space.
\<close>

section \<open>One page\<close>

text \<open>Only pages, page tables and their contents change.\<close>

definition paging_only :: "'z paging_state_scheme \<Rightarrow> 'z paging_state_scheme \<Rightarrow> bool" where
  "paging_only st st' \<longleftrightarrow>
     (\<exists>A n m f. st' = st\<lparr>kmem_page_array := A, kmem_used_pages := n, pt_mem := m, frame_bytes := f\<rparr>)"

lemma paging_only_updates [intro]:
  "paging_only st st" "paging_only st (st\<lparr>pt_mem := m\<rparr>)" "paging_only st (st\<lparr>frame_bytes := f\<rparr>)"
  "paging_only st (st\<lparr>kmem_page_array := A, kmem_used_pages := n\<rparr>)"
proof -
  have all: "paging_only st (st\<lparr>kmem_page_array := A, kmem_used_pages := n, pt_mem := m, frame_bytes := f\<rparr>)" for f m n A
    unfolding paging_only_def by blast
  show "paging_only st st" using all [of "frame_bytes st" "pt_mem st" "kmem_used_pages st" "kmem_page_array st"] by simp
  show "paging_only st (st\<lparr>pt_mem := m\<rparr>)" using all [of "frame_bytes st" m "kmem_used_pages st" "kmem_page_array st"] by simp
  show "paging_only st (st\<lparr>frame_bytes := f\<rparr>)" using all [of f "pt_mem st" "kmem_used_pages st" "kmem_page_array st"] by simp
  show "paging_only st (st\<lparr>kmem_page_array := A, kmem_used_pages := n\<rparr>)" using all [of "frame_bytes st" "pt_mem st" n A] by simp
qed

lemma paging_only_trans: "paging_only st st1 \<Longrightarrow> paging_only st1 st2 \<Longrightarrow> paging_only st st2"
  unfolding paging_only_def by clarify (simp, blast)

lemma paging_onlyD:
  assumes "paging_only st st'"
  shows "hhdm_offset st' = hhdm_offset st" "kmem_start st' = kmem_start st" "cr3_reg st' = cr3_reg st"
    "slab_allocators st' = slab_allocators st" "slab_headers st' = slab_headers st"
  using assms by (auto simp: paging_only_def)

lemma paging_only_tasks:
  assumes "paging_only st st'"
  shows "tasks st' = tasks st" "memory_ranges st' = memory_ranges st" "current_task_ts st' = current_task_ts st"
    "task_struct_lh st' = task_struct_lh st"
  using assms by (auto simp: paging_only_def)

lemma paging_only_store: "paging_only st (store_page k bs st)"
  unfolding store_page_def by (rule paging_only_updates)

lemma paging_only_alloc:
  assumes "kpage_alloc n st = Inr (st', a)"
  shows "paging_only st st'"
proof -
  from assms obtain A m where "st' = st\<lparr>kmem_page_array := A, kmem_used_pages := m\<rparr>"
    by (auto simp: kpage_alloc_def res_bind_eq_Inr)
  then show ?thesis using paging_only_updates by simp
qed

lemma paging_only_descend:
  assumes "descend t i st = Inr (st', a)"
  shows "paging_only st st'"
proof (cases "pt_mem st (entry_addr t i) AND PAGE_ADDRESS_MASK = 0")
  case True
  with assms obtain st1 m where "kpage_alloc 1 st = Inr (st1, a)" "st' = st1\<lparr>pt_mem := m\<rparr>"
    by (auto simp: descend_def res_bind_eq_Inr)
  then show ?thesis using paging_only_alloc paging_only_updates(2) paging_only_trans by metis
next
  case False
  then show ?thesis using assms by (auto simp: descend_def)
qed

lemma paging_only_set_page_mapping:
  assumes "set_page_mapping root v phys mmio st = Inr st'"
  shows "paging_only st st'"
proof -
  from assms obtain s1 t1 s2 t2 s3 t3 m where d: "descend root (virt_index 39 v) st = Inr (s1, t1)"
    "descend t1 (virt_index 30 v) s1 = Inr (s2, t2)" "descend t2 (virt_index 21 v) s2 = Inr (s3, t3)"
    and st': "st' = s3\<lparr>pt_mem := m\<rparr>"
    unfolding set_page_mapping_def by (auto simp: res_bind_eq_Inr split: if_splits)
  show ?thesis using d [THEN paging_only_descend] paging_only_updates(2) paging_only_trans unfolding st' by blast
qed

text \<open>A new page with the given bytes has been mapped at \<open>v\<close>.\<close>

definition page_added :: "u64 \<Rightarrow> u64 \<Rightarrow> u64 \<Rightarrow> u8 list \<Rightarrow> 'z paging_state_scheme \<Rightarrow> 'z paging_state_scheme \<Rightarrow> bool" where
  "page_added root v k bs st st' \<longleftrightarrow> space_wf root st' \<and> paging_only st st' \<and> used_pages st \<subseteq> used_pages st' \<and>
     table_of root (page_path v) st' = Some k \<and> k \<notin> used_pages st \<and>
     user_image root st' = override_on (user_image root st) (page_image bs) (page_of v) \<and>
     space root st' \<subseteq> space root st \<union> (used_pages st' - used_pages st) \<and>
     (user_image root st v = None \<longrightarrow> space root st' = space root st \<union> (used_pages st' - used_pages st)) \<and>
     untouched (used_pages st - space root st) st st'"

lemma fresh_page:
  assumes "kmem_wf st" and "kpage_alloc 1 st = Inr (st1, k)" and "length bs = 4096"
  shows "untouched (used_pages st) st (store_page k bs st1)" and "page_bytes 4096 k (store_page k bs st1) = bs"
proof -
  note u = kpage_alloc1_used [OF assms(1,2)]
  from kpage_alloc1_cases [OF assms(1,2)] obtain g where
    st1: "st1 = st\<lparr>kmem_page_array := (kmem_page_array st)[g := KPAGE_USED], kmem_used_pages := kmem_used_pages st + 1\<rparr>" .
  have "untouched (used_pages st) st st1"
    using u by (auto simp: untouched_def page_bytes_def st1)
  moreover have "untouched (used_pages st) st1 (store_page k bs st1)"
    using u by (intro store_page_untouched [OF u(1) _ assms(3)]) auto
  ultimately show "untouched (used_pages st) st (store_page k bs st1)" by (rule untouched_trans)
  show "page_bytes 4096 k (store_page k bs st1) = bs" using page_bytes_store [of bs k st1] assms(3) by simp
qed

lemma map_user_page_ok:
  assumes wf: "space_wf root st" and root: "pml4_page (tasks st process) = root" and v: "v < USER_TOP"
  shows "case map_user_page process v st of Inl e \<Rightarrow> e = Panic ''Out of physical memory''
    | Inr (st', k) \<Rightarrow> page_added root v k (replicate 4096 0) st st'"
proof (cases "kpage_alloc 1 st")
  case (Inl e)
  then show ?thesis using space_wfD(1) [OF wf] by (auto simp: map_user_page_def kpage_alloc_eq Let_def split: if_splits)
next
  case (Inr r)
  then obtain st1 k where k: "kpage_alloc 1 st = Inr (st1, k)" by (cases r) simp
  define st2 where "st2 = store_page k (replicate 4096 0) st1"
  note u = kpage_alloc1_used [OF space_wfD(1) [OF wf] k]
  have fresh: "untouched (used_pages st) st st2" "page_bytes 4096 k st2 = replicate 4096 0"
    unfolding st2_def by (rule fresh_page [OF space_wfD(1) [OF wf] k]; simp)+
  have sub: "space root st \<subseteq> used_pages st" using space_wfD(3) [OF wf] by blast
  note sp = untouched_space [OF wf untouched_mono [OF fresh(1) sub]]
  have used2: "used_pages st2 = insert k (used_pages st)" using u(3) by (simp add: st2_def)
  have knew: "k \<in> used_pages st2" "k \<notin> space root st2" using used2 sp(2) sub u(2) by auto
  have only: "paging_only st st2"
    unfolding st2_def using paging_only_alloc [OF k] paging_only_store paging_only_trans by blast
  have eq: "map_user_page process v st = res_bind (set_page_mapping root v (k - hhdm_offset st2) False st2) (\<lambda>st3. Inr (st3, k))"
    using k root paging_only_tasks(1) [OF only] by (simp add: map_user_page_def st2_def)
  show ?thesis
  proof (cases "set_page_mapping root v (k - hhdm_offset st2) False st2")
    case (Inl e)
    then show ?thesis using map_frame [OF sp(1) v knew] by (simp add: eq)
  next
    case (Inr st')
    then have m: "space_mapped root v k st2 st'" using map_frame [OF sp(1) v knew] by simp
    have "user_image root st' = override_on (user_image root st) (page_image (replicate 4096 0)) (page_of v)"
      using image_mapped [OF sp(1) v knew(1) m] fresh(2) sp(3) by simp
    moreover have "table_of root (page_path v) st' = Some k" using m page_path_ok [OF v] by (simp add: space_mapped_def)
    moreover have "space root st' \<subseteq> space root st \<union> (used_pages st' - used_pages st)" "used_pages st \<subseteq> used_pages st'"
      using m sp(2) used2 u(2) by (auto simp: space_mapped_def)
    moreover have "space root st' = space root st \<union> (used_pages st' - used_pages st)" if "user_image root st v = None"
    proof -
      have "translate root v st2 = None" using that v by (simp add: user_image_def flip: sp(3))
      then show ?thesis using m sp(2) used2 u(2) by (auto simp: space_mapped_def)
    qed
    moreover have "untouched (used_pages st - space root st) st st'"
    proof -
      have "used_pages st - space root st \<subseteq> used_pages st2 - space root st2" using used2 sp(2) by auto
      then have "untouched (used_pages st - space root st) st2 st'"
        using m unfolding space_mapped_def by (blast intro: untouched_mono)
      then show ?thesis using untouched_mono [OF fresh(1), of "used_pages st - space root st"] untouched_trans by blast
    qed
    moreover have "paging_only st st'" using only paging_only_set_page_mapping [OF Inr] paging_only_trans by blast
    moreover have "space_wf root st'" using m by (simp add: space_mapped_def)
    ultimately have "page_added root v k (replicate 4096 0) st st'" using u(2) by (simp add: page_added_def)
    then show ?thesis using Inr by (simp add: eq)
  qed
qed

section \<open>Loops over pages\<close>

text \<open>The addresses of the pages from \<open>a\<close> on that start before \<open>b\<close>.\<close>

definition cover :: "u64 \<Rightarrow> u64 \<Rightarrow> u64 set" where
  "cover a b = {w. a \<le> w \<and> w AND PAGE_ADDRESS_MASK < b}"

lemma unat_page_start: "unat (w AND PAGE_ADDRESS_MASK) = 4096 * (unat w div 4096)"
  unfolding page_mask by (rule minus_mod_eq_mult_div)

lemma cover_below:
  assumes "w \<in> cover a b" and "b \<le> USER_TOP"
  shows "w < USER_TOP"
proof -
  have "unat (w AND PAGE_ADDRESS_MASK) < 2 ^ 47" using assms by (auto simp: cover_def USER_TOP_def word_less_nat_alt word_le_nat_alt)
  then have "unat w div 4096 < 2 ^ 35" by (simp add: unat_page_start)
  then show ?thesis by (simp add: word_less_nat_alt USER_TOP_def div_less_iff_less_mult)
qed

lemma page_start_eq: "a AND PAGE_OFFSET_MASK = 0 \<Longrightarrow> unat a = 4096 * (unat a div 4096)"
  using unat_and_mask [of a 12] by (simp add: mask_eq_exp_minus_1 flip: unat_eq_0) (metis dvd_mult_div_cancel mod_0_imp_dvd)

lemma cover_step:
  assumes "a AND PAGE_OFFSET_MASK = 0" and "a < b" and "b \<le> USER_TOP"
  shows "cover a b = page_of a \<union> cover (a + PAGE_SIZE) b" and "page_of a \<inter> cover (a + PAGE_SIZE) b = {}"
    and "(a + PAGE_SIZE) AND PAGE_OFFSET_MASK = 0" and "a < USER_TOP" and "a \<le> a + PAGE_SIZE"
proof -
  show lt: "a < USER_TOP" using assms(2,3) by simp
  then have small: "unat a < 2 ^ 47" by (simp add: word_less_nat_alt USER_TOP_def)
  then have nxt: "unat (a + PAGE_SIZE) = unat a + 4096" by (subst unat_add_no_wrap) simp_all
  then show "a \<le> a + PAGE_SIZE" by (simp add: word_le_nat_alt)
  from page_start_eq [OF assms(1)] obtain k where k: "unat a = 4096 * k" by blast
  have self: "a AND PAGE_ADDRESS_MASK = a" using k by (simp add: word_unat_eq_iff unat_page_start)
  have "unat ((a + PAGE_SIZE) AND PAGE_OFFSET_MASK) = unat (a + PAGE_SIZE) mod 4096"
    using unat_and_mask [of "a + PAGE_SIZE" 12] by (simp add: mask_eq_exp_minus_1)
  then show "(a + PAGE_SIZE) AND PAGE_OFFSET_MASK = 0" using nxt k by (simp add: unat_eq_0 flip: unat_eq_0)
  have page: "w \<in> page_of a \<longleftrightarrow> unat a \<le> unat w \<and> unat w < unat a + 4096" for w
  proof -
    have "w AND PAGE_ADDRESS_MASK = a \<longleftrightarrow> unat w div 4096 = k" using k by (auto simp: word_unat_eq_iff unat_page_start)
    moreover have "unat w div 4096 = k \<longleftrightarrow> unat a \<le> unat w \<and> unat w < unat a + 4096" using k by auto
    moreover have "unat w < unat a + 4096 \<Longrightarrow> w < USER_TOP"
      using small k by (simp add: word_less_nat_alt USER_TOP_def)
    ultimately show ?thesis by (auto simp: page_of_def self)
  qed
  have in_cover: "w \<in> cover x b \<longleftrightarrow> unat x \<le> unat w \<and> 4096 * (unat w div 4096) < unat b" for w x
    by (simp add: cover_def word_le_nat_alt word_less_nat_alt unat_page_start)
  have ab: "unat a < unat b" using assms(2) by (simp add: word_less_nat_alt)
  show "cover a b = page_of a \<union> cover (a + PAGE_SIZE) b"
  proof (rule set_eqI)
    fix w :: u64
    have "4096 * (unat w div 4096) < unat b" if "unat w < unat a + 4096" "unat a \<le> unat w"
    proof -
      have "unat w div 4096 = k" using that k by auto
      then show ?thesis using ab k by simp
    qed
    then show "w \<in> cover a b \<longleftrightarrow> w \<in> page_of a \<union> cover (a + PAGE_SIZE) b"
      unfolding Un_iff in_cover page nxt by auto
  qed
  show "page_of a \<inter> cover (a + PAGE_SIZE) b = {}"
    by (auto simp: in_cover page nxt)
qed

locale page_filler =
  fixes body :: "u64 \<Rightarrow> 's \<Rightarrow> 's res" and ok :: "'s \<Rightarrow> bool" and img :: "'s \<Rightarrow> u64 \<Rightarrow> u8 option"
    and source :: "'s \<Rightarrow> u64 \<Rightarrow> u8 option" and step :: "bool \<Rightarrow> 's \<Rightarrow> 's \<Rightarrow> bool"
  assumes fills: "ok st \<Longrightarrow> page < USER_TOP \<Longrightarrow> page AND PAGE_OFFSET_MASK = 0 \<Longrightarrow>
      (\<And>w. w \<in> page_of page \<Longrightarrow> source st w \<noteq> None) \<Longrightarrow> (fresh \<Longrightarrow> img st page = None) \<Longrightarrow>
      case body page st of Inl e \<Rightarrow> e = Panic ''Out of physical memory''
      | Inr st' \<Rightarrow> ok st' \<and> source st' = source st \<and> img st' = override_on (img st) (source st) (page_of page) \<and> step fresh st st'"
    and step_refl: "ok st \<Longrightarrow> step fresh st st"
    and step_trans: "step fresh st st1 \<Longrightarrow> step fresh st1 st2 \<Longrightarrow> step fresh st st2"
begin

text \<open>The loop fills the pages it covers, or runs out of memory.\<close>

lemma fill_pages:
  assumes "ok st" and "a AND PAGE_OFFSET_MASK = 0" and "b \<le> USER_TOP"
    and "\<And>w. w \<in> cover a b \<Longrightarrow> source st w \<noteq> None" and "\<And>w. fresh \<Longrightarrow> w \<in> cover a b \<Longrightarrow> img st w = None"
  shows "case page_loop body a b st of Inl e \<Rightarrow> e = Panic ''Out of physical memory''
    | Inr st' \<Rightarrow> ok st' \<and> source st' = source st \<and> img st' = override_on (img st) (source st) (cover a b) \<and> step fresh st st'"
  using assms
proof (induction "unat b - unat a" arbitrary: a st rule: less_induct)
  case less
  show ?case
  proof (cases "a < b")
    case False
    have "cover a b = {}"
    proof -
      have "unat b \<le> 4096 * (unat a div 4096)" using page_start_eq [OF less.prems(2)] False by (simp add: word_less_nat_alt)
      moreover have "unat a div 4096 \<le> unat w div 4096" if "a \<le> w" for w using that by (simp add: word_le_nat_alt div_le_mono)
      ultimately have "\<not> w AND PAGE_ADDRESS_MASK < b" if "a \<le> w" for w
        using that le_trans [of "unat b" "4096 * (unat a div 4096)" "4096 * (unat w div 4096)"]
        by (simp add: word_less_nat_alt unat_page_start not_less)
      then show ?thesis by (auto simp: cover_def)
    qed
    then show ?thesis using False less.prems(1) step_refl by (simp add: page_loop.simps [of body a b st])
  next
    case True
    note c = cover_step [OF less.prems(2) True less.prems(3)]
    have a_in: "a \<in> page_of a" using c(4) by (simp add: page_of_def)
    have body: "case body a st of Inl e \<Rightarrow> e = Panic ''Out of physical memory''
        | Inr st' \<Rightarrow> ok st' \<and> source st' = source st \<and> img st' = override_on (img st) (source st) (page_of a) \<and> step fresh st st'"
      using less.prems c(1) a_in by (intro fills [OF less.prems(1) c(4) less.prems(2)]) auto
    show ?thesis
    proof (cases "body a st")
      case (Inl e)
      then show ?thesis using body True by (simp add: page_loop.simps [of body a b st])
    next
      case (Inr st1)
      have st1: "ok st1" "source st1 = source st" "img st1 = override_on (img st) (source st) (page_of a)" "step fresh st st1"
        using body Inr by simp_all
      have lt: "unat b - unat (a + PAGE_SIZE) < unat b - unat a"
        using True c(4) by (subst unat_add_no_wrap) (simp_all add: word_less_nat_alt USER_TOP_def)
      have "case page_loop body (a + PAGE_SIZE) b st1 of Inl e \<Rightarrow> e = Panic ''Out of physical memory''
        | Inr st' \<Rightarrow> ok st' \<and> source st' = source st1 \<and>
            img st' = override_on (img st1) (source st1) (cover (a + PAGE_SIZE) b) \<and> step fresh st1 st'"
      proof (rule less.hyps [OF lt st1(1) c(3) less.prems(3)])
        show "source st1 w \<noteq> None" if "w \<in> cover (a + PAGE_SIZE) b" for w using less.prems(4) that c(1) st1(2) by auto
        show "img st1 w = None" if "fresh" "w \<in> cover (a + PAGE_SIZE) b" for w
          using less.prems(5) [OF that(1)] that(2) c(1,2) st1(3) by (auto simp: override_on_def)
      qed
      moreover have "override_on (override_on (img st) (source st) (page_of a)) (source st) (cover (a + PAGE_SIZE) b) =
          override_on (img st) (source st) (cover a b)" unfolding c(1) by (auto simp: override_on_def)
      ultimately show ?thesis
        using True Inr st1 c(5) step_trans [OF st1(4)] by (auto simp: page_loop.simps [of body a b st] not_less split: sum.splits)
    qed
  qed
qed

end

section \<open>Setting up a program's memory\<close>

text \<open>
  How an address space grows: by new pages only, without touching pages in use outside it. When no page was mapped
  before (\<open>fresh\<close>) all new pages belong to it, so that nothing is lost.
\<close>

definition space_growth :: "u64 \<Rightarrow> bool \<Rightarrow> 'z paging_state_scheme \<Rightarrow> 'z paging_state_scheme \<Rightarrow> bool" where
  "space_growth root fresh st st' \<longleftrightarrow> used_pages st \<subseteq> used_pages st' \<and>
     space root st' \<subseteq> space root st \<union> (used_pages st' - used_pages st) \<and>
     (fresh \<longrightarrow> space root st' = space root st \<union> (used_pages st' - used_pages st)) \<and>
     untouched (used_pages st - space root st) st st'"

definition space_step :: "u64 \<Rightarrow> bool \<Rightarrow> 'z paging_state_scheme \<Rightarrow> 'z paging_state_scheme \<Rightarrow> bool" where
  "space_step root fresh st st' \<longleftrightarrow> paging_only st st' \<and> space_growth root fresh st st'"

lemma space_growth_refl: "space_wf root st \<Longrightarrow> space_growth root fresh st st"
  using untouched_refl [OF space_wfD(1), of root st "used_pages st - space root st"] by (simp add: space_growth_def)

lemma space_growth_trans:
  assumes "space_growth root fresh st st1" and "space_growth root fresh st1 st2"
  shows "space_growth root fresh st st2"
proof -
  have "used_pages st - space root st \<subseteq> used_pages st1 - space root st1" using assms(1) by (auto simp: space_growth_def)
  then have "untouched (used_pages st - space root st) st1 st2"
    using assms(2) unfolding space_growth_def by (blast intro: untouched_mono)
  then have "untouched (used_pages st - space root st) st st2"
    using assms(1) unfolding space_growth_def by (blast intro: untouched_trans)
  then show ?thesis using assms unfolding space_growth_def by auto
qed

lemma space_step_refl: "space_wf root st \<Longrightarrow> space_step root fresh st st"
  by (simp add: space_step_def space_growth_refl paging_only_updates(1))

lemma space_step_trans: "space_step root fresh st st1 \<Longrightarrow> space_step root fresh st1 st2 \<Longrightarrow> space_step root fresh st st2"
  unfolding space_step_def using space_growth_trans paging_only_trans by blast

lemma space_growth_others:
  assumes "space_growth root fresh st st'" and "space_wf other st" and "space other st \<inter> space root st = {}"
  shows "space_wf other st'" and "space other st' = space other st" and "user_image other st' = user_image other st"
    and "space other st' \<inter> space root st' = {}"
proof -
  have sub: "space other st \<subseteq> used_pages st" using space_wfD(3) [OF assms(2)] by blast
  then have "untouched (space other st) st st'"
    using assms(1,3) unfolding space_growth_def by (blast intro: untouched_mono)
  note u = untouched_space [OF assms(2) this]
  show "space_wf other st'" "space other st' = space other st" "user_image other st' = user_image other st" by (rule u)+
  show "space other st' \<inter> space root st' = {}" using assms(1,3) sub u(2) unfolding space_growth_def by blast
qed

lemma space_step_others:
  assumes "space_step root fresh st st'" and "space_wf other st" and "space other st \<inter> space root st = {}"
  shows "space_wf other st'" and "space other st' = space other st" and "user_image other st' = user_image other st"
    and "space other st' \<inter> space root st' = {}"
proof -
  have g: "space_growth root fresh st st'" using assms(1) by (simp add: space_step_def)
  show "space_wf other st'" "space other st' = space other st" "user_image other st' = user_image other st"
    "space other st' \<inter> space root st' = {}" by (rule space_growth_others [OF g assms(2,3)])+
qed

lemma page_image_zeros: "n = 4096 \<Longrightarrow> override_on f (page_image (replicate n 0)) A = override_on f (\<lambda>_. Some 0) A"
proof -
  have "unat (w AND PAGE_OFFSET_MASK) < 4096" for w
    using unat_and_mask [of w 12] by (simp add: mask_eq_exp_minus_1)
  then show "n = 4096 \<Longrightarrow> ?thesis" by (auto simp: override_on_def page_image_def)
qed

interpretation zero_filler: page_filler "map_page_step process"
  "\<lambda>st. space_wf root st \<and> pml4_page (tasks st process) = root" "user_image root" "\<lambda>st w. Some 0" "space_step root"
  for process root
proof unfold_locales
  fix st page fresh
  assume ok: "space_wf root st \<and> pml4_page (tasks st process) = root" and page: "page < USER_TOP"
    and none: "fresh \<Longrightarrow> user_image root st page = None"
  have m: "case map_user_page process page st of Inl e \<Rightarrow> e = Panic ''Out of physical memory''
      | Inr (st', k) \<Rightarrow> page_added root page k (replicate 4096 0) st st'" using ok page by (intro map_user_page_ok) simp_all
  show "case map_page_step process page st of Inl e \<Rightarrow> e = Panic ''Out of physical memory''
    | Inr st' \<Rightarrow> (space_wf root st' \<and> pml4_page (tasks st' process) = root) \<and> (\<lambda>w. Some 0) = (\<lambda>w. Some 0) \<and>
        user_image root st' = override_on (user_image root st) (\<lambda>w. Some 0) (page_of page) \<and> space_step root fresh st st'"
  proof (cases "map_user_page process page st")
    case (Inl e)
    then show ?thesis using m by (simp add: map_page_step_def)
  next
    case (Inr r)
    then obtain st' k where r: "map_user_page process page st = Inr (st', k)" by (cases r) simp
    then have a: "page_added root page k (replicate 4096 0) st st'" using m by simp
    then have "tasks st' = tasks st" by (simp add: page_added_def paging_only_tasks)
    then show ?thesis using a ok none by (simp add: r map_page_step_def page_added_def space_step_def space_growth_def page_image_zeros)
  qed
next
  show "space_wf root st \<and> pml4_page (tasks st process) = root \<Longrightarrow> space_step root fresh st st" for st fresh
    using space_step_refl by blast
  show "space_step root fresh st st1 \<Longrightarrow> space_step root fresh st1 st2 \<Longrightarrow> space_step root fresh st st2" for st st1 st2 fresh
    by (rule space_step_trans)
qed

definition range_cover :: "'z kernel_state_scheme \<Rightarrow> u64 \<Rightarrow> u64 set" where
  "range_cover st r = cover (mr_start (memory_ranges st r) AND PAGE_ADDRESS_MASK) (mr_end (memory_ranges st r))"

lemma aligned_start: "(a AND PAGE_ADDRESS_MASK) AND PAGE_OFFSET_MASK = 0"
proof -
  have "PAGE_ADDRESS_MASK AND PAGE_OFFSET_MASK = 0" by simp
  then show ?thesis unfolding and.assoc by (simp only: and_zero_eq)
qed

lemma setup_ranges:
  assumes "space_wf root st" and "pml4_page (tasks st process) = root"
    and "\<forall>r \<in> set rs. mr_end (memory_ranges st r) \<le> USER_TOP"
    and "fresh \<Longrightarrow> sorted_wrt (\<lambda>A B. A \<inter> B = {}) (map (range_cover st) rs)"
    and "fresh \<Longrightarrow> \<forall>r \<in> set rs. \<forall>w \<in> range_cover st r. user_image root st w = None"
  shows "case res_fold (\<lambda>range st. page_loop (map_page_step process) (mr_start (memory_ranges st range) AND PAGE_ADDRESS_MASK)
      (mr_end (memory_ranges st range)) st) rs st of Inl e \<Rightarrow> e = Panic ''Out of physical memory''
    | Inr st' \<Rightarrow> space_wf root st' \<and> user_image root st' = override_on (user_image root st) (\<lambda>_. Some 0) (\<Union>r \<in> set rs. range_cover st r) \<and>
        space_step root fresh st st'"
  using assms
proof (induction rs arbitrary: st)
  case Nil
  then show ?case using space_step_refl by (simp add: override_on_def)
next
  case (Cons r rs)
  let ?loop = "\<lambda>r st. page_loop (map_page_step process) (mr_start (memory_ranges st r) AND PAGE_ADDRESS_MASK)
      (mr_end (memory_ranges st r)) st"
  have fill: "case ?loop r st of Inl e \<Rightarrow> e = Panic ''Out of physical memory''
    | Inr st' \<Rightarrow> (space_wf root st' \<and> pml4_page (tasks st' process) = root) \<and> (\<lambda>w :: u64. Some (0 :: u8)) = (\<lambda>w. Some 0) \<and>
        user_image root st' = override_on (user_image root st) (\<lambda>_. Some 0) (range_cover st r) \<and> space_step root fresh st st'"
    unfolding range_cover_def
    using Cons.prems by (intro zero_filler.fill_pages aligned_start) (auto simp: range_cover_def)
  show ?case
  proof (cases "?loop r st")
    case (Inl e)
    then show ?thesis using fill by simp
  next
    case (Inr st1)
    then have st1: "space_wf root st1" "pml4_page (tasks st1 process) = root"
      "user_image root st1 = override_on (user_image root st) (\<lambda>_. Some 0) (range_cover st r)" "space_step root fresh st st1"
      using fill by simp_all
    have mr: "memory_ranges st1 = memory_ranges st" using st1(4) by (simp add: space_step_def space_growth_def paging_only_tasks)
    then have rc: "range_cover st1 = range_cover st" by (simp add: range_cover_def fun_eq_iff)
    have "\<forall>q \<in> set rs. \<forall>w \<in> range_cover st1 q. user_image root st1 w = None" if "fresh"
      using Cons.prems(4,5) [OF that] st1(3) unfolding rc by (auto simp: override_on_def)
    then have "case res_fold ?loop rs st1 of Inl e \<Rightarrow> e = Panic ''Out of physical memory''
      | Inr st' \<Rightarrow> space_wf root st' \<and> user_image root st' = override_on (user_image root st1) (\<lambda>_. Some 0) (\<Union>r \<in> set rs. range_cover st1 r) \<and>
          space_step root fresh st1 st'"
      using Cons.prems mr rc by (intro Cons.IH st1) auto
    moreover have "override_on (user_image root st1) (\<lambda>_. Some 0) (\<Union>r \<in> set rs. range_cover st1 r) =
        override_on (user_image root st) (\<lambda>_. Some 0) (\<Union>r \<in> set (r # rs). range_cover st r)"
      unfolding st1(3) rc by (auto simp: override_on_def)
    ultimately show ?thesis using Inr st1(4) space_step_trans [OF st1(4)] by (auto split: sum.splits)
  qed
qed

text \<open>
  C8: \<^verbatim>\<open>setup_userspace_memory\<close> fills every page of the memory ranges of a process with zeros and changes no other
  address of it; the address spaces of other processes keep their contents and stay apart. It fails only when
  the memory is used up.
\<close>

theorem setup_userspace_memory_zeroes:
  assumes "space_wf root st" and "pml4_page (tasks st process) = root"
    and "\<forall>r \<in> set (memory_ranges_lh (tasks st process)). mr_end (memory_ranges st r) \<le> USER_TOP"
  shows "case setup_userspace_memory process st of Inl e \<Rightarrow> e = Panic ''Out of physical memory''
    | Inr st' \<Rightarrow> space_wf root st' \<and>
        user_image root st' = override_on (user_image root st) (\<lambda>_. Some 0) (\<Union>r \<in> set (memory_ranges_lh (tasks st process)). range_cover st r) \<and>
        (\<forall>other. space_wf other st \<and> space other st \<inter> space root st = {} \<longrightarrow>
           space_wf other st' \<and> space other st' \<inter> space root st' = {} \<and> user_image other st' = user_image other st)"
  using setup_ranges [OF assms, of False] space_step_others [of root False st]
  unfolding setup_userspace_memory_def by (auto split: sum.splits)

section \<open>The empty address space\<close>

lemma empty_space:
  assumes "kmem_wf st" and "hhdm_ok st" and "root \<in> used_pages st" and "\<forall>i < 256. pt_mem st (entry_addr root i) = 0"
  shows "space_wf root st" and "space root st = {root}" and "user_image root st = (\<lambda>_. None)"
proof -
  have tab: "table_of root q st = (if q = [] then Some root else None)" if "user_path q" for q
    using that assms(4) by (cases q) (auto simp: user_path_def next_table_def)
  show sp: "space root st = {root}" using tab by (auto simp: space_def split: if_splits) (metis user_path_Nil)
  show wf: "space_wf root st"
    unfolding space_wf_def sp
  proof (intro conjI allI impI)
    show "p = q" if "user_path p" "user_path q" "table_of root p st = Some a" "table_of root q st = Some a" for p q a
      using that tab by (auto split: if_splits)
    show "bit (pt_mem st (entry_addr t i)) 0 \<longleftrightarrow> pt_mem st (entry_addr t i) AND PAGE_ADDRESS_MASK \<noteq> 0"
      if "user_path (p @ [i])" "length p = 3" "table_of root p st = Some t" for p t i
      using that tab [of p] user_path_snocD [OF that(1)] by (auto split: if_splits)
  qed (use assms in auto)
  show "user_image root st = (\<lambda>_. None)"
  proof
    fix w
    show "user_image root st w = None"
    proof (cases "w < USER_TOP")
      case True
      have "page_path w \<noteq> []" using page_path_ok(3) [OF True] by auto
      then show ?thesis using tab [OF page_path_ok(1) [OF True]] by (simp add: image_path [OF wf True])
    qed (simp add: image_above)
  qed
qed

section \<open>Freeing\<close>

text \<open>The paths that satisfy \<open>P\<close> have been freed: their pages are given back and nothing else has changed.\<close>

definition freed :: "u64 \<Rightarrow> (u64 list \<Rightarrow> bool) \<Rightarrow> 'z paging_state_scheme \<Rightarrow> 'z paging_state_scheme \<Rightarrow> bool" where
  "freed root P st st' \<longleftrightarrow> space_wf root st' \<and> paging_only st st' \<and>
     (\<forall>q. user_path q \<longrightarrow> table_of root q st' = (if P q then None else table_of root q st)) \<and>
     used_pages st' = used_pages st - {a. \<exists>q. user_path q \<and> P q \<and> table_of root q st = Some a} \<and>
     untouched (used_pages st - space root st) st st'"

lemma freed_refl:
  assumes "space_wf root st" and "\<And>q. user_path q \<Longrightarrow> P q \<Longrightarrow> table_of root q st = None"
  shows "freed root P st st"
  using assms untouched_refl [OF space_wfD(1) [OF assms(1)], of "used_pages st - space root st"] paging_only_updates(1)
  by (auto simp: freed_def)

lemma freed_space: "freed root P st st' \<Longrightarrow> space root st' \<subseteq> space root st"
proof
  fix a assume f: "freed root P st st'" and "a \<in> space root st'"
  then obtain q where q: "user_path q" "table_of root q st' = Some a" by (auto simp: space_def)
  then have "table_of root q st = Some a" using f by (cases "P q") (simp_all add: freed_def)
  then show "a \<in> space root st" by (rule spaceI [OF q(1)])
qed

lemma freed_trans:
  assumes wf: "space_wf root st" and 1: "freed root P st st1" and 2: "freed root Q st1 st2"
  shows "freed root (\<lambda>q. P q \<or> Q q) st st2"
proof -
  have tab: "table_of root q st1 = (if P q then None else table_of root q st)" if "user_path q" for q
    using 1 that by (simp add: freed_def)
  have gone: "a \<notin> used_pages st1" if "user_path q" "P q" "table_of root q st = Some a" for q a
    using 1 that unfolding freed_def by blast
  have "used_pages st - space root st \<subseteq> used_pages st1 - space root st1"
  proof
    fix a assume a: "a \<in> used_pages st - space root st"
    then have "a \<in> used_pages st1" using 1 spaceI [of _ st root a] unfolding freed_def by blast
    then show "a \<in> used_pages st1 - space root st1" using a freed_space [OF 1] by blast
  qed
  then have "untouched (used_pages st - space root st) st1 st2"
    using 2 unfolding freed_def by (blast intro: untouched_mono)
  then have "untouched (used_pages st - space root st) st st2"
    using 1 unfolding freed_def by (blast intro: untouched_trans)
  moreover have "paging_only st st2" using 1 2 paging_only_trans unfolding freed_def by blast
  moreover have "used_pages st2 = used_pages st - {a. \<exists>q. user_path q \<and> (P q \<or> Q q) \<and> table_of root q st = Some a}"
  proof -
    have u1: "used_pages st1 = used_pages st - {a. \<exists>q. user_path q \<and> P q \<and> table_of root q st = Some a}"
      and u2: "used_pages st2 = used_pages st1 - {a. \<exists>q. user_path q \<and> Q q \<and> table_of root q st1 = Some a}"
      using 1 2 by (simp_all add: freed_def)
    have "{a. \<exists>q. user_path q \<and> Q q \<and> table_of root q st1 = Some a} =
        {a. \<exists>q. user_path q \<and> \<not> P q \<and> Q q \<and> table_of root q st = Some a}"
      using tab by (auto split: if_splits)
    then show ?thesis unfolding u2 u1 by blast
  qed
  moreover have "space_wf root st2" using 2 by (simp add: freed_def)
  moreover have "table_of root q st2 = (if P q \<or> Q q then None else table_of root q st)" if "user_path q" for q
    using 2 tab [OF that] that by (simp add: freed_def)
  ultimately show ?thesis by (simp add: freed_def)
qed

lemma freed_cong:
  assumes "freed root P st st'" and "\<And>q. user_path q \<Longrightarrow> P q \<longleftrightarrow> Q q"
  shows "freed root Q st st'"
  using assms unfolding freed_def by (auto cong: conj_cong)

text \<open>Giving a page back and clearing the entry that led to it.\<close>

lemma free_entry:
  assumes wf: "space_wf root st" and p: "user_path (p @ [i])" "table_of root p st = Some t" "table_of root (p @ [i]) st = Some a"
    and empty: "\<forall>j. user_path (p @ [i, j]) \<longrightarrow> table_of root (p @ [i, j]) st = None"
  shows "\<exists>st'. res_bind (kpage_free a 1 st) (\<lambda>st1. Inr (st1\<lparr>pt_mem := (pt_mem st1)(entry_addr t i := 0)\<rparr>)) = Inr st' \<and>
    freed root (\<lambda>q. q = p @ [i]) st st'"
proof -
  have up: "user_path p" "i < 512" using user_path_snocD [OF p(1)] by auto
  have ta: "t \<in> space root st" "a \<in> space root st" using spaceI [OF up(1) p(2)] spaceI [OF p(1,3)] by simp_all
  from kpage_free1_used [OF space_wfD(1) [OF wf] space_wfD(3) [OF wf ta(2)]] obtain st1 where st1: "kpage_free a 1 st = Inr st1"
    "kmem_wf st1" "used_pages st1 = used_pages st - {a}" by blast
  then obtain A n where st1_eq: "st1 = st\<lparr>kmem_page_array := A, kmem_used_pages := n\<rparr>"
    by (auto simp: kpage_free_def res_bind_eq_Inr Let_def)
  define st' where "st' = st1\<lparr>pt_mem := (pt_mem st1)(entry_addr t i := 0)\<rparr>"
  have entry: "pt_mem st' (entry_addr b j) = (if b = t \<and> j = i then 0 else pt_mem st (entry_addr b j))"
    if b: "b \<in> used_pages st" "j < 512" for b j
    using outside_entries [OF space_wfD(1) [OF wf] b(1) space_wfD(3) [OF wf ta(1)] _ up(2) b(2)]
      entry_addr_eq_iff [OF space_wfD(4) [OF wf ta(1)] space_wfD(4) [OF wf ta(1)] b(2) up(2)]
    by (auto simp: st'_def st1_eq)
  have inside: "\<forall>b \<in> space root st. \<forall>j < 512. pt_mem st' (entry_addr b j) =
      (if b = t \<and> j = i then 0 else pt_mem st (entry_addr b j))" using entry space_wfD(3) [OF wf] by simp
  have same: "hhdm_offset st' = hhdm_offset st" "kmem_start st' = kmem_start st" "kmem_wf st'"
    using st1(2) by (simp_all add: st'_def) (simp_all add: st1_eq)
  have used: "used_pages st' = used_pages st - {a}" using st1(3) by (simp add: st'_def)
  note d = space_detach [OF wf p empty inside same used]
  have "{b. \<exists>q. user_path q \<and> q = p @ [i] \<and> table_of root q st = Some b} = {a}" using p(1,3) by auto
  moreover have "untouched (used_pages st - space root st) st st'"
    unfolding untouched_def
  proof (intro conjI ballI allI impI same)
    fix b assume b: "b \<in> used_pages st - space root st"
    then show "b \<in> used_pages st'" using used ta(2) by auto
    show "page_bytes 4096 b st' = page_bytes 4096 b st" by (simp add: st'_def st1_eq page_bytes_def)
    show "pt_mem st' (entry_addr b j) = pt_mem st (entry_addr b j)" if "j < 512" for j
      using entry [of b j] b ta(1) that by auto
  qed
  moreover have "paging_only st st'" unfolding st'_def st1_eq using paging_only_updates paging_only_trans by blast
  ultimately have "freed root (\<lambda>q. q = p @ [i]) st st'" using d used by (simp add: freed_def)
  then show ?thesis using st1(1) by (simp add: st'_def)
qed

lemma freed_loop:
  assumes wf: "space_wf root st" and p: "user_path p" "table_of root p st = Some t"
    and step: "\<And>i st. i < n \<Longrightarrow> space_wf root st \<Longrightarrow> table_of root p st = Some t \<Longrightarrow>
      \<exists>st'. f (of_nat i) st = Inr st' \<and> freed root (prefix (p @ [of_nat i])) st st'"
  shows "\<exists>st'. res_fold f (map of_nat [0..<n]) st = Inr st' \<and> freed root (\<lambda>q. \<exists>i < n. prefix (p @ [of_nat i]) q) st st'"
  using step
proof (induction n)
  case 0
  then show ?case using freed_refl [OF wf] by simp
next
  case (Suc n)
  have "\<exists>st1. res_fold f (map of_nat [0..<n]) st = Inr st1 \<and> freed root (\<lambda>q. \<exists>i < n. prefix (p @ [of_nat i]) q) st st1"
    by (rule Suc.IH) (simp add: Suc.prems)
  then obtain st1 where st1: "res_fold f (map of_nat [0..<n]) st = Inr st1"
    "freed root (\<lambda>q. \<exists>i < n. prefix (p @ [of_nat i]) q) st st1" by blast
  have "\<not> prefix (p @ [i]) p" for i by (auto dest: prefix_length_le)
  then have "table_of root p st1 = Some t" "space_wf root st1" using st1(2) p by (simp_all add: freed_def)
  from Suc.prems [OF lessI this(2,1)] obtain st2 where st2: "f (of_nat n) st1 = Inr st2"
    "freed root (prefix (p @ [of_nat n])) st1 st2" by blast
  have "freed root (\<lambda>q. \<exists>i < Suc n. prefix (p @ [of_nat i]) q) st st2"
    by (rule freed_cong [OF freed_trans [OF wf st1(2) st2(2)]]) (auto simp: less_Suc_eq)
  then show ?case using st1(1) st2(1) by (simp add: res_fold_append)
qed

lemma below_none: "table_of root p st = None \<Longrightarrow> prefix p q \<Longrightarrow> table_of root q st = None"
  by (auto simp: prefix_def table_at_append)

text \<open>An entry with nothing below it, and an entry whose subtree is freed first.\<close>

lemma free_leaf:
  assumes wf: "space_wf root st" and p: "user_path (p @ [i])" "length p = 3" "table_of root p st = Some t"
  shows "\<exists>st'. (let entry = pt_mem st (entry_addr t i) in if entry AND PAGE_ADDRESS_MASK = 0 then Inr st
      else res_bind (kpage_free ((entry AND PAGE_ADDRESS_MASK) + hhdm_offset st) 1 st) (\<lambda>st1.
        Inr (st1\<lparr>pt_mem := (pt_mem st1)(entry_addr t i := 0)\<rparr>))) = Inr st' \<and> freed root (prefix (p @ [i])) st st'"
proof (cases "table_of root (p @ [i]) st")
  case None
  then have "pt_mem st (entry_addr t i) AND PAGE_ADDRESS_MASK = 0"
    using p(3) by (simp add: table_at_snoc next_table_def split: if_splits)
  then show ?thesis using freed_refl [OF wf, of "prefix (p @ [i])"] below_none [OF None] by simp
next
  case (Some a)
  then have e: "pt_mem st (entry_addr t i) AND PAGE_ADDRESS_MASK \<noteq> 0"
    "(pt_mem st (entry_addr t i) AND PAGE_ADDRESS_MASK) + hhdm_offset st = a"
    using p(3) by (auto simp: table_at_snoc next_table_def split: if_splits)
  have none: "\<not> user_path (p @ [i, j])" for j using p(2) by (simp add: user_path_def)
  then obtain st' where st': "res_bind (kpage_free a 1 st) (\<lambda>st1. Inr (st1\<lparr>pt_mem := (pt_mem st1)(entry_addr t i := 0)\<rparr>)) = Inr st'"
    "freed root (\<lambda>q. q = p @ [i]) st st'" using free_entry [OF wf p(1,3) Some] by blast
  have "q = p @ [i] \<longleftrightarrow> prefix (p @ [i]) q" if "user_path q" for q
    using that p(2) by (auto simp: prefix_def user_path_def)
  then have "freed root (prefix (p @ [i])) st st'" by (rule freed_cong [OF st'(2)])
  then show ?thesis using st'(1) e by (simp add: Let_def)
qed

lemma free_subtree:
  assumes wf: "space_wf root st" and p: "user_path (p @ [i])" "length p < 3" "table_of root p st = Some t"
    and below: "\<And>a. table_of root (p @ [i]) st = Some a \<Longrightarrow>
      \<exists>st1. f a st = Inr st1 \<and> freed root (\<lambda>q. \<exists>j < 512. prefix ((p @ [i]) @ [of_nat j]) q) st st1"
  shows "\<exists>st'. (let entry = pt_mem st (entry_addr t i) in if entry AND PAGE_ADDRESS_MASK = 0 then Inr st
      else let entries = (entry AND PAGE_ADDRESS_MASK) + hhdm_offset st
           in res_bind (f entries st) (\<lambda>st1. res_bind (kpage_free entries 1 st1) (\<lambda>st2.
                Inr (st2\<lparr>pt_mem := (pt_mem st2)(entry_addr t i := 0)\<rparr>)))) = Inr st' \<and> freed root (prefix (p @ [i])) st st'"
proof (cases "table_of root (p @ [i]) st")
  case None
  then have "pt_mem st (entry_addr t i) AND PAGE_ADDRESS_MASK = 0"
    using p(3) by (simp add: table_at_snoc next_table_def split: if_splits)
  then show ?thesis using freed_refl [OF wf, of "prefix (p @ [i])"] below_none [OF None] by simp
next
  case (Some a)
  then have e: "pt_mem st (entry_addr t i) AND PAGE_ADDRESS_MASK \<noteq> 0"
    "(pt_mem st (entry_addr t i) AND PAGE_ADDRESS_MASK) + hhdm_offset st = a"
    using p(3) by (auto simp: table_at_snoc next_table_def split: if_splits)
  have up: "user_path p" using user_path_snocD [OF p(1)] by simp
  from below [OF Some] obtain st1 where st1: "f a st = Inr st1"
    "freed root (\<lambda>q. \<exists>j < 512. prefix ((p @ [i]) @ [of_nat j]) q) st st1" by blast
  have shorter: "\<not> prefix ((p @ [i]) @ [j]) (p @ [i])" "\<not> prefix ((p @ [i]) @ [j]) p" for j
    by (auto dest: prefix_length_le)
  have s1: "space_wf root st1" "table_of root p st1 = Some t" "table_of root (p @ [i]) st1 = Some a"
    using st1(2) shorter up p(1,3) Some by (simp_all add: freed_def)
  have index: "\<exists>k < 512. j = of_nat k" if "j < 512" for j :: u64
    using that by (intro exI [of _ "unat j"]) (simp add: word_less_nat_alt)
  have empty: "\<forall>j. user_path (p @ [i, j]) \<longrightarrow> table_of root (p @ [i, j]) st1 = None"
  proof (intro allI impI)
    fix j assume u: "user_path (p @ [i, j])"
    then have "j < 512" by (simp add: user_path_def)
    with index obtain k where "k < 512" "j = of_nat k" by blast
    then show "table_of root (p @ [i, j]) st1 = None" using st1(2) u by (auto simp: freed_def)
  qed
  obtain st2 where st2: "res_bind (kpage_free a 1 st1) (\<lambda>st1. Inr (st1\<lparr>pt_mem := (pt_mem st1)(entry_addr t i := 0)\<rparr>)) = Inr st2"
    "freed root (\<lambda>q. q = p @ [i]) st1 st2" using free_entry [OF s1(1) p(1) s1(2,3) empty] by blast
  have "(\<exists>j < 512. prefix ((p @ [i]) @ [of_nat j]) q) \<or> q = p @ [i] \<longleftrightarrow> prefix (p @ [i]) q" if q: "user_path q" for q
  proof
    assume "prefix (p @ [i]) q"
    then obtain r where r: "q = (p @ [i]) @ r" by (auto simp: prefix_def)
    show "(\<exists>j < 512. prefix ((p @ [i]) @ [of_nat j]) q) \<or> q = p @ [i]"
    proof (cases r)
      case (Cons j r')
      then have "j < 512" using q r by (simp add: user_path_def)
      then show ?thesis using index [of j] r Cons by auto
    qed (simp add: r)
  qed (auto simp: prefix_def)
  then have "freed root (prefix (p @ [i])) st st2" by (rule freed_cong [OF freed_trans [OF wf st1(2) st2(2)]])
  then show ?thesis using st1(1) st2(1) e by (simp add: Let_def)
qed

lemma free_table_ok:
  fixes st :: "'z paging_state_scheme"
  assumes "space_wf root st" and "user_path p" and "length p + level = 3" and "table_of root p st = Some t"
    and "n \<le> 512" and "p = [] \<Longrightarrow> n \<le> 256"
  shows "\<exists>st'. free_table level n t st = Inr st' \<and> freed root (\<lambda>q. \<exists>i < n. prefix (p @ [of_nat i]) q) st st'"
  using assms
proof (induction level arbitrary: p t n st)
  case 0
  have up: "user_path (p @ [of_nat i])" if "i < n" for i
    using that 0 by (intro user_path_snoc) (auto simp: word_less_nat_alt unat_of_nat_small)
  show ?case unfolding free_table.simps
    using up 0 by (intro freed_loop [OF 0(1,2,4)] free_leaf) simp_all
next
  case (Suc level)
  have up: "user_path (p @ [of_nat i])" if "i < n" for i
    using that Suc.prems by (intro user_path_snoc) (auto simp: word_less_nat_alt unat_of_nat_small)
  show ?case unfolding free_table.simps
  proof (intro freed_loop [OF Suc.prems(1,2,4)] free_subtree)
    fix i a and st :: "'z paging_state_scheme"
    assume i: "i < n" and s: "space_wf root st" "table_of root p st = Some t" "table_of root (p @ [of_nat i]) st = Some a"
    show "\<exists>st1. free_table level 512 a st = Inr st1 \<and> freed root (\<lambda>q. \<exists>j < 512. prefix ((p @ [of_nat i]) @ [of_nat j]) q) st st1"
      using Suc.prems(3) by (intro Suc.IH [OF s(1) up [OF i] _ s(3)]) simp_all
  qed (use up Suc.prems in simp_all)
qed

text \<open>Freeing the memory ranges changes headers of slab pages only.\<close>

lemma slab_free_headers:
  assumes "slab_free sid a st = Inr st'"
  shows "\<exists>h. st' = st\<lparr>slab_headers := h\<rparr>"
  using assms by (auto simp: slab_free_def res_bind_eq_Inr Let_def split: if_splits)

lemma slab_free_many_headers:
  assumes "res_fold (slab_free sid) as st = Inr st'"
  shows "\<exists>h. st' = st\<lparr>slab_headers := h\<rparr>"
proof (rule res_fold_inv [OF assms])
  show "\<exists>h. st = st\<lparr>slab_headers := h\<rparr>" by (rule exI [of _ "slab_headers st"]) simp
  show "\<exists>h. s' = st\<lparr>slab_headers := h\<rparr>" if "\<exists>h. s = st\<lparr>slab_headers := h\<rparr>" "slab_free sid a s = Inr s'" for a s s'
    using that(1) slab_free_headers [OF that(2)] by auto
qed

lemma space_headers [simp]:
  "space_wf root (st\<lparr>slab_headers := h\<rparr>) = space_wf root st" "space root (st\<lparr>slab_headers := h\<rparr>) = space root st"
  "user_image root (st\<lparr>slab_headers := h\<rparr>) = user_image root st" "untouched P st0 (st\<lparr>slab_headers := h\<rparr>) = untouched P st0 st"
  by (simp_all add: space_wf_def space_def user_image_def translate_def untouched_def page_bytes_def hhdm_ok_def fun_eq_iff)

lemma upd_task_memory [simp]:
  "space_wf root (upd_task t f st) = space_wf root st" "space root (upd_task t f st) = space root st"
  "user_image root (upd_task t f st) = user_image root st" "untouched P st0 (upd_task t f st) = untouched P st0 st"
  "used_pages (upd_task t f st) = used_pages st" "slab_wf (upd_task t f st) = slab_wf st"
  "slab_live sid (upd_task t f st) = slab_live sid st"
  by (simp_all add: upd_task_def space_wf_def space_def user_image_def translate_def untouched_def page_bytes_def hhdm_ok_def fun_eq_iff
      kmem_wf_def used_pages_def page_addr_def slab_wf_def slab_live_def)

definition slab_memory :: "'z slab_state_scheme \<Rightarrow> u64 set" where
  "slab_memory st = (\<Union>sid. set (slab_pages (slab_allocators st sid)))"

lemma slab_memory_used: "slab_wf st \<Longrightarrow> slab_memory st \<subseteq> used_pages st"
  using slab_wfD(4) by (auto simp: slab_memory_def)

lemma paging_only_slabs:
  assumes "paging_only st st'" and "slab_wf st" and "kmem_wf st'" and "slab_memory st \<subseteq> used_pages st'"
  shows "slab_wf st'" and "slab_live sid st' = slab_live sid st" and "slab_memory st' = slab_memory st"
  using assms paging_onlyD(4,5) [OF assms(1)] by (auto simp: slab_wf_def slab_live_def slab_memory_def)

lemma free_userspace_memory_ok:
  assumes wf: "space_wf root st" and root: "pml4_page (tasks st process) = root" and slab: "slab_wf st"
    and ranges: "distinct (memory_ranges_lh (tasks st process))" "set (memory_ranges_lh (tasks st process)) \<subseteq> slab_live Memory_Range_Slab st"
    and apart: "slab_memory st \<inter> space root st = {}"
  shows "\<exists>st'. free_userspace_memory process st = Inr st' \<and> space_wf root st' \<and> slab_wf st' \<and> user_image root st' = (\<lambda>_. None) \<and>
    used_pages st' = used_pages st - (space root st - {root}) \<and> untouched (used_pages st - space root st) st st' \<and>
    slab_live Memory_Range_Slab st' = slab_live Memory_Range_Slab st - set (memory_ranges_lh (tasks st process)) \<and>
    memory_ranges_lh (tasks st' process) = []"
proof -
  obtain st1 where st1: "free_table 3 256 root st = Inr st1" and f: "freed root (\<lambda>q. \<exists>i < 256. prefix ([] @ [of_nat i]) q) st st1"
    using free_table_ok [OF wf, of "[]" 3 root 256] by auto
  have first: "(\<exists>i < 256. prefix ([] @ [of_nat i]) q) \<longleftrightarrow> q \<noteq> []" if q: "user_path q" for q :: "u64 list"
  proof (cases q)
    case (Cons j r)
    then have "j < 256" using q by (simp add: user_path_def)
    then have "unat j < 256" "j = of_nat (unat j)" by (simp_all add: word_less_nat_alt)
    then show ?thesis unfolding Cons by auto
  qed simp
  have g: "freed root (\<lambda>q. q \<noteq> []) st st1" by (rule freed_cong [OF f first])
  then have wf1: "space_wf root st1" and only: "paging_only st st1"
    and tab: "\<And>q. user_path q \<Longrightarrow> table_of root q st1 = (if q \<noteq> [] then None else table_of root q st)"
    and out: "untouched (used_pages st - space root st) st st1" by (simp_all add: freed_def)
  have used: "used_pages st1 = used_pages st - (space root st - {root})"
  proof -
    have "{a. \<exists>q. user_path q \<and> q \<noteq> [] \<and> table_of root q st = Some a} = space root st - {root}"
    proof (intro equalityI subsetI)
      fix a assume "a \<in> {a. \<exists>q. user_path q \<and> q \<noteq> [] \<and> table_of root q st = Some a}"
      then obtain q where q: "user_path q" "q \<noteq> []" "table_of root q st = Some a" by blast
      then have "a \<noteq> root" using space_wfD(5) [OF wf q(1), of "[]"] by auto
      then show "a \<in> space root st - {root}" using spaceI [OF q(1,3)] by simp
    next
      fix a assume a: "a \<in> space root st - {root}"
      then obtain q where q: "user_path q" "table_of root q st = Some a" by (auto simp: space_def)
      then have "q \<noteq> []" using a by auto
      with q show "a \<in> {a. \<exists>q. user_path q \<and> q \<noteq> [] \<and> table_of root q st = Some a}" by blast
    qed
    then show ?thesis using g by (simp add: freed_def)
  qed
  have "user_image root st1 w = None" for w
  proof (cases "w < USER_TOP")
    case True
    then show ?thesis using page_path_ok [OF True] tab [of "page_path w"] by (auto simp: image_path [OF wf1 True])
  qed (simp add: image_above)
  then have none: "user_image root st1 = (\<lambda>_. None)" by auto
  have "slab_memory st \<subseteq> used_pages st1" using slab_memory_used [OF slab] apart used by blast
  note sl = paging_only_slabs [OF only slab space_wfD(1) [OF wf1] this]
  have mr: "memory_ranges_lh (tasks st1 process) = memory_ranges_lh (tasks st process)" using paging_only_tasks [OF only] by simp
  obtain st2 where st2: "res_fold (slab_free Memory_Range_Slab) (memory_ranges_lh (tasks st1 process)) st1 = Inr st2" "slab_wf st2"
    "slab_live Memory_Range_Slab st2 = slab_live Memory_Range_Slab st1 - set (memory_ranges_lh (tasks st process))"
    using slab.free_many [OF sl(1), of "memory_ranges_lh (tasks st process)" Memory_Range_Slab] ranges sl(2) mr by auto
  from slab_free_many_headers [OF st2(1)] obtain h where h: "st2 = st1\<lparr>slab_headers := h\<rparr>" ..
  have "free_userspace_memory process st = Inr (upd_task process (\<lambda>t. t\<lparr>memory_ranges_lh := []\<rparr>) st2)"
    using st1 st2(1) root by (simp add: free_userspace_memory_def)
  moreover have "memory_ranges_lh (tasks (upd_task process (\<lambda>t. t\<lparr>memory_ranges_lh := []\<rparr>) st2) process) = []"
    by (simp add: upd_task_def)
  ultimately show ?thesis using st2(2,3) sl(2) used none wf1 out by (simp add: h)
qed

text \<open>
  C9: \<^verbatim>\<open>free_userspace_memory\<close> gives back exactly the pages of the address space, tables and frames, but for the root, and
  the objects of the memory ranges; no address of the process is mapped any more, and the address spaces of
  other processes keep their contents.
\<close>

theorem free_userspace_memory_returns:
  assumes "space_wf root st" and "pml4_page (tasks st process) = root" and "slab_wf st"
    and "distinct (memory_ranges_lh (tasks st process))"
    and "set (memory_ranges_lh (tasks st process)) \<subseteq> slab_live Memory_Range_Slab st"
    and "slab_memory st \<inter> space root st = {}"
  shows "case free_userspace_memory process st of Inl e \<Rightarrow> False
    | Inr st' \<Rightarrow> space_wf root st' \<and> slab_wf st' \<and> user_image root st' = (\<lambda>_. None) \<and> memory_ranges_lh (tasks st' process) = [] \<and>
        used_pages st' = used_pages st - (space root st - {root}) \<and>
        slab_live Memory_Range_Slab st' = slab_live Memory_Range_Slab st - set (memory_ranges_lh (tasks st process)) \<and>
        (\<forall>other. space_wf other st \<and> space other st \<inter> space root st = {} \<longrightarrow>
           space_wf other st' \<and> user_image other st' = user_image other st)"
proof -
  from free_userspace_memory_ok [OF assms] obtain st' where st': "free_userspace_memory process st = Inr st'"
    "space_wf root st'" "slab_wf st'" "user_image root st' = (\<lambda>_. None)"
    "used_pages st' = used_pages st - (space root st - {root})" "untouched (used_pages st - space root st) st st'"
    "slab_live Memory_Range_Slab st' = slab_live Memory_Range_Slab st - set (memory_ranges_lh (tasks st process))"
    "memory_ranges_lh (tasks st' process) = []" by blast
  have "space_wf other st' \<and> user_image other st' = user_image other st"
    if o: "space_wf other st" "space other st \<inter> space root st = {}" for other
  proof -
    have "untouched (space other st) st st'"
      using st'(6) space_wfD(3) [OF o(1)] o(2) by (blast intro: untouched_mono)
    then show ?thesis using untouched_space [OF o(1)] by blast
  qed
  then show ?thesis using st' by simp
qed

text \<open>Setting up the memory of a program in an empty address space and freeing it leaves the pages in use as they were.\<close>

lemma setup_free_restores:
  assumes wf: "space_wf root st" and root: "pml4_page (tasks st process) = root" and empty: "space root st = {root}"
    and slab: "slab_wf st" "root \<notin> slab_memory st"
    and ranges: "distinct (memory_ranges_lh (tasks st process))" "set (memory_ranges_lh (tasks st process)) \<subseteq> slab_live Memory_Range_Slab st"
    and user: "\<forall>r \<in> set (memory_ranges_lh (tasks st process)). mr_end (memory_ranges st r) \<le> USER_TOP"
    and disjoint: "sorted_wrt (\<lambda>A B. A \<inter> B = {}) (map (range_cover st) (memory_ranges_lh (tasks st process)))"
    and done_setup: "setup_userspace_memory process st = Inr st1"
  shows "\<exists>st2. free_userspace_memory process st1 = Inr st2 \<and> used_pages st2 = used_pages st"
proof -
  have none: "user_image root st w = None" for w
  proof (cases "w < USER_TOP")
    case True
    have "table_of root (page_path w) st = None"
    proof (rule ccontr)
      assume "table_of root (page_path w) st \<noteq> None"
      then obtain a where a: "table_of root (page_path w) st = Some a" by blast
      then have "a = root" using spaceI [OF page_path_ok(1) [OF True] a] empty by simp
      then have "page_path w = []" using space_wfD(5) [OF wf page_path_ok(1) [OF True], of "[]"] a by simp
      then show False using page_path_ok(3) [OF True] by simp
    qed
    then show ?thesis by (simp add: image_path [OF wf True])
  qed (simp add: image_above)
  have "space_wf root st1 \<and> space_step root True st st1"
    using setup_ranges [OF wf root user, of True] disjoint none done_setup by (simp add: setup_userspace_memory_def)
  then have wf1: "space_wf root st1" and only: "paging_only st st1" and sp: "space root st1 = {root} \<union> (used_pages st1 - used_pages st)"
    and sub: "used_pages st \<subseteq> used_pages st1"
    using empty by (simp_all add: space_step_def space_growth_def)
  have "slab_memory st \<subseteq> used_pages st1" using slab_memory_used [OF slab(1)] sub by blast
  note sl = paging_only_slabs [OF only slab(1) space_wfD(1) [OF wf1] this]
  have t: "tasks st1 = tasks st" using paging_only_tasks [OF only] by simp
  have apart: "slab_memory st1 \<inter> space root st1 = {}" unfolding sl(3) sp using slab(2) slab_memory_used [OF slab(1)] by auto
  have "pml4_page (tasks st1 process) = root" "distinct (memory_ranges_lh (tasks st1 process))"
    "set (memory_ranges_lh (tasks st1 process)) \<subseteq> slab_live Memory_Range_Slab st1" using root ranges sl(2) t by simp_all
  from free_userspace_memory_ok [OF wf1 this(1) sl(1) this(2,3) apart]
  obtain st2 where "free_userspace_memory process st1 = Inr st2" "used_pages st2 = used_pages st1 - (space root st1 - {root})" by blast
  moreover have "root \<in> used_pages st" using space_wfD(3) [OF wf] root_in_space by blast
  ultimately show ?thesis using sp sub by auto
qed

section \<open>Example\<close>

text \<open>
  A process with one page mapped at \<open>0x400000\<close>, through the tables in the pages \<open>0x21000\<close>, \<open>0x24000\<close>, \<open>0x25000\<close> and \<open>0x26000\<close>; its
  frame is \<open>0x27000\<close>. The allocators of memory ranges and of tasks have a page each.
\<close>

definition demo_user :: kernel_state where
  "demo_user = demo_kernel
     \<lparr>kmem_page_array := [KPAGE_PAGE_ARRAY, KPAGE_USED, KPAGE_USED, KPAGE_USED, KPAGE_USED, KPAGE_USED, KPAGE_USED, KPAGE_USED,
        KPAGE_FREE, KPAGE_FREE, KPAGE_FREE, KPAGE_FREE, KPAGE_FREE, KPAGE_FREE, KPAGE_FREE, KPAGE_FREE],
      kmem_total_pages := 16, kmem_used_pages := 7,
      slab_headers := (\<lambda>_. [0, 0, 0, 0]),
      slab_allocators := (\<lambda>sid. (SLAB_OF (slab_object_bytes sid))
        \<lparr>slab_pages := (if sid = Memory_Range_Slab then [0x22000] else if sid = Task_Slab then [0x23000] else [])\<rparr>),
      pt_mem := (\<lambda>_. 0)(0x21000 := 0x14027, 0x24000 := 0x15027, 0x25010 := 0x16027, 0x26000 := 0x170E7),
      cr3_reg := 0x11000, frame_bytes := (\<lambda>a. ucast a),
      tasks := (\<lambda>_. (demo_task 1 TS_RUNNING)\<lparr>pml4_page := 0x21000, memory_ranges_lh := [0x22030]\<rparr>),
      memory_ranges := (\<lambda>_. \<lparr>mr_start = 0x400000, mr_end = 0x401000, mr_type = USERSPACE_MEMRANGE_NORMAL\<rparr>),
      task_struct_lh := [0x23030], current_task_ts := 0x23030\<rparr>"

lemma demo_user_fields:
  "kmem_page_array demo_user = [KPAGE_PAGE_ARRAY, KPAGE_USED, KPAGE_USED, KPAGE_USED, KPAGE_USED, KPAGE_USED, KPAGE_USED, KPAGE_USED,
        KPAGE_FREE, KPAGE_FREE, KPAGE_FREE, KPAGE_FREE, KPAGE_FREE, KPAGE_FREE, KPAGE_FREE, KPAGE_FREE]"
  "kmem_total_pages demo_user = 16" "kmem_used_pages demo_user = 7" "kmem_start demo_user = 0x20000" "hhdm_offset demo_user = 0x10000"
  "slab_headers demo_user = (\<lambda>_. [0, 0, 0, 0])"
  "slab_pages (slab_allocators demo_user sid) = (if sid = Memory_Range_Slab then [0x22000] else if sid = Task_Slab then [0x23000] else [])"
  "object_size (slab_allocators demo_user sid) = object_size (SLAB_OF (slab_object_bytes sid))"
  "objects_per_page (slab_allocators demo_user sid) = objects_per_page (SLAB_OF (slab_object_bytes sid))"
  "pt_mem demo_user = (\<lambda>_. 0)(0x21000 := 0x14027, 0x24000 := 0x15027, 0x25010 := 0x16027, 0x26000 := 0x170E7)"
  "cr3_reg demo_user = 0x11000" "tasks demo_user t = (demo_task 1 TS_RUNNING)\<lparr>pml4_page := 0x21000, memory_ranges_lh := [0x22030]\<rparr>"
  "memory_ranges demo_user r = \<lparr>mr_start = 0x400000, mr_end = 0x401000, mr_type = USERSPACE_MEMRANGE_NORMAL\<rparr>"
  "current_task_ts demo_user = 0x23030"
  by (simp_all add: demo_user_def demo_kernel_def demo_device_def demo_tty_def fs_state.defs device_state.defs keyboard_state.defs
      tty_state.defs vfs_state.defs demo_vfs_def paging_state.defs demo_paging_def demo_slab_def kmem_state.defs slab_state.defs
      demo_kmem_def kernel_state.defs)

lemma demo_user_wf: "kmem_wf demo_user" "hhdm_ok demo_user"
  by (simp_all add: kmem_wf_def hhdm_ok_def demo_user_fields used_count_def KPAGE_PAGE_ARRAY_def KPAGE_FREE_def KPAGE_USED_def)

lemma demo_user_used: "{0x21000, 0x22000, 0x23000, 0x24000, 0x25000, 0x26000, 0x27000} \<subseteq> used_pages demo_user"
proof -
  have "page_addr demo_user i \<in> used_pages demo_user" if "i \<in> {1, 2, 3, 4, 5, 6, 7}" for i
    using that unfolding used_pages_def by (intro CollectI exI [of _ i]) (auto simp: demo_user_fields)
  from this [of 1] this [of 2] this [of 3] this [of 4] this [of 5] this [of 6] this [of 7]
  show ?thesis by (simp add: page_addr_def demo_user_fields)
qed

lemma demo_user_slab: "slab_wf demo_user" "0x22030 \<in> slab_live Memory_Range_Slab demo_user" "0x23030 \<in> slab_live Task_Slab demo_user"
proof -
  show wf: "slab_wf demo_user"
    unfolding slab_wf_def
  proof (intro conjI allI impI ballI demo_user_wf)
    fix sid
    have "allocator_ok (slab_allocators demo_user sid) = allocator_ok (SLAB_OF (slab_object_bytes sid))"
      by (simp add: allocator_ok_def demo_user_fields)
    then show "allocator_ok (slab_allocators demo_user sid)" using SLAB_OF_ok by simp
    show "distinct (slab_pages (slab_allocators demo_user sid))" by (simp add: demo_user_fields)
    show "set (slab_pages (slab_allocators demo_user sid)) \<subseteq> used_pages demo_user"
      using demo_user_used by (cases "sid = Memory_Range_Slab"; cases "sid = Task_Slab"; simp add: demo_user_fields)
    show "header_ok (slab_allocators demo_user sid) (slab_headers demo_user p)" for p
      by (simp add: header_ok_def slot_free_zero demo_user_fields)
  qed (auto simp: demo_user_fields)
  show "0x22030 \<in> slab_live Memory_Range_Slab demo_user" "0x23030 \<in> slab_live Task_Slab demo_user"
    using slab_live_iff [OF wf, of "0x22000" Memory_Range_Slab 0] slot_free_zero [of 0]
      slab_live_iff [OF wf, of "0x23000" Task_Slab 0]
    by (simp_all add: demo_user_fields SLAB_OF_def slot_addr_def)
qed

lemma demo_user_entry:
  assumes "t \<in> {0x21000, 0x24000, 0x25000, 0x26000}" and "i < 512"
  shows "entry_addr t i = 0x21000 \<longleftrightarrow> t = 0x21000 \<and> i = 0" "entry_addr t i = 0x24000 \<longleftrightarrow> t = 0x24000 \<and> i = 0"
    "entry_addr t i = 0x25010 \<longleftrightarrow> t = 0x25000 \<and> i = 2" "entry_addr t i = 0x26000 \<longleftrightarrow> t = 0x26000 \<and> i = 0"
proof -
  have page: "is_page 0x21000" "is_page 0x24000" "is_page 0x25000" "is_page 0x26000" by (simp_all add: is_page_def)
  then have t: "is_page t" using assms(1) by blast
  have c: "entry_addr 0x21000 0 = 0x21000" "entry_addr 0x24000 0 = 0x24000" "entry_addr 0x25000 2 = 0x25010" "entry_addr 0x26000 0 = 0x26000"
    by (simp_all add: entry_addr_def)
  show "entry_addr t i = 0x21000 \<longleftrightarrow> t = 0x21000 \<and> i = 0" using entry_addr_eq_iff [OF t page(1) assms(2), of 0] unfolding c by simp
  show "entry_addr t i = 0x24000 \<longleftrightarrow> t = 0x24000 \<and> i = 0" using entry_addr_eq_iff [OF t page(2) assms(2), of 0] unfolding c by simp
  show "entry_addr t i = 0x25010 \<longleftrightarrow> t = 0x25000 \<and> i = 2" using entry_addr_eq_iff [OF t page(3) assms(2), of 2] unfolding c by simp
  show "entry_addr t i = 0x26000 \<longleftrightarrow> t = 0x26000 \<and> i = 0" using entry_addr_eq_iff [OF t page(4) assms(2), of 0] unfolding c by simp
qed

lemma demo_user_next:
  assumes "i < 512"
  shows "next_table 0x10000 (pt_mem demo_user (entry_addr 0x21000 i)) = (if i = 0 then Some 0x24000 else None)"
    "next_table 0x10000 (pt_mem demo_user (entry_addr 0x24000 i)) = (if i = 0 then Some 0x25000 else None)"
    "next_table 0x10000 (pt_mem demo_user (entry_addr 0x25000 i)) = (if i = 2 then Some 0x26000 else None)"
    "next_table 0x10000 (pt_mem demo_user (entry_addr 0x26000 i)) = (if i = 0 then Some 0x27000 else None)"
    "bit (pt_mem demo_user (entry_addr 0x26000 i)) 0 \<longleftrightarrow> pt_mem demo_user (entry_addr 0x26000 i) AND PAGE_ADDRESS_MASK \<noteq> 0"
proof -
  have "bit (0x170E7 :: u64) 0" by (simp add: bit_0)
  then show "next_table 0x10000 (pt_mem demo_user (entry_addr 0x21000 i)) = (if i = 0 then Some 0x24000 else None)"
    "next_table 0x10000 (pt_mem demo_user (entry_addr 0x24000 i)) = (if i = 0 then Some 0x25000 else None)"
    "next_table 0x10000 (pt_mem demo_user (entry_addr 0x25000 i)) = (if i = 2 then Some 0x26000 else None)"
    "next_table 0x10000 (pt_mem demo_user (entry_addr 0x26000 i)) = (if i = 0 then Some 0x27000 else None)"
    "bit (pt_mem demo_user (entry_addr 0x26000 i)) 0 \<longleftrightarrow> pt_mem demo_user (entry_addr 0x26000 i) AND PAGE_ADDRESS_MASK \<noteq> 0"
    using assms by (simp_all add: demo_user_fields(10) demo_user_entry next_table_def)
qed

lemma demo_user_tables:
  assumes "user_path p"
  shows "table_of 0x21000 p demo_user = (if p = [] then Some 0x21000 else if p = [0] then Some 0x24000 else if p = [0, 0] then Some 0x25000
    else if p = [0, 0, 2] then Some 0x26000 else if p = [0, 0, 2, 0] then Some 0x27000 else None)"
proof -
  have idx: "\<forall>i \<in> set p. i < 512" and "length p \<le> 4" using assms by (simp_all add: user_path_def)
  then consider "p = []" | a where "p = [a]" | a b where "p = [a, b]" | a b c where "p = [a, b, c]" | a b c d where "p = [a, b, c, d]"
    by (cases p rule: list.exhaust; cases "tl p" rule: list.exhaust; cases "tl (tl p)" rule: list.exhaust;
        cases "tl (tl (tl p))" rule: list.exhaust; simp)
  then show ?thesis using idx by cases (simp_all add: demo_user_next demo_user_fields(5))
qed

lemma demo_user_space: "space 0x21000 demo_user = {0x21000, 0x24000, 0x25000, 0x26000, 0x27000}"
proof (intro equalityI subsetI)
  fix a assume "a \<in> space 0x21000 demo_user"
  then obtain p where "user_path p" "table_of 0x21000 p demo_user = Some a" by (auto simp: space_def)
  then show "a \<in> {0x21000, 0x24000, 0x25000, 0x26000, 0x27000}" by (auto simp: demo_user_tables split: if_splits)
next
  fix a :: u64 assume a: "a \<in> {0x21000, 0x24000, 0x25000, 0x26000, 0x27000}"
  have "0x24000 \<in> space 0x21000 demo_user" "0x25000 \<in> space 0x21000 demo_user" "0x26000 \<in> space 0x21000 demo_user"
    "0x27000 \<in> space 0x21000 demo_user"
    by (rule spaceI [of "[0]"] spaceI [of "[0, 0]"] spaceI [of "[0, 0, 2]"] spaceI [of "[0, 0, 2, 0]"];
        simp add: user_path_def demo_user_next demo_user_fields(5); fail)+
  then show "a \<in> space 0x21000 demo_user" using a by auto
qed

lemma demo_user_space_wf: "space_wf 0x21000 demo_user"
  unfolding space_wf_def
proof (intro conjI allI impI demo_user_wf)
  show "space 0x21000 demo_user \<subseteq> used_pages demo_user" using demo_user_used by (simp add: demo_user_space)
  show "p = q" if "user_path p" "user_path q" "table_of 0x21000 p demo_user = Some a" "table_of 0x21000 q demo_user = Some a" for p q a
    using that(3,4) unfolding demo_user_tables [OF that(1)] demo_user_tables [OF that(2)] by (simp split: if_splits)
  show "bit (pt_mem demo_user (entry_addr t i)) 0 \<longleftrightarrow> pt_mem demo_user (entry_addr t i) AND PAGE_ADDRESS_MASK \<noteq> 0"
    if p: "user_path (p @ [i])" "length p = 3" "table_of 0x21000 p demo_user = Some t" for p t i
  proof -
    have "user_path p" "i < 512" using user_path_snocD [OF p(1)] by auto
    moreover from this have "t = 0x26000" using p(2,3) by (auto simp: demo_user_tables split: if_splits)
    ultimately show ?thesis using demo_user_next(5) by simp
  qed
qed

lemma demo_user_mapped: "w \<in> cover 0x400000 0x401000 \<Longrightarrow> user_image 0x21000 demo_user w \<noteq> None"
proof -
  assume w: "w \<in> cover 0x400000 0x401000"
  have top: "w < USER_TOP" using cover_below [OF w] by (simp add: USER_TOP_def)
  have v: "(0x400000 :: u64) < USER_TOP" by (simp add: USER_TOP_def)
  have "unat w div 4096 = 1024" using w unat_page_start [of w] by (auto simp: cover_def word_le_nat_alt word_less_nat_alt)
  then have "w AND PAGE_ADDRESS_MASK = 0x400000 AND PAGE_ADDRESS_MASK"
    using unat_page_start [of w] by (simp add: word_unat_eq_iff)
  then have "page_path w = page_path 0x400000" using page_path_eq_iff [OF top v] by simp
  also have "\<dots> = [0, 0, 2, 0]" by (simp add: page_path_def virt_path_def virt_index_def drop_bit_eq_div)
  finally show ?thesis
    using page_path_ok(1) [OF top] by (simp add: image_path [OF demo_user_space_wf top] demo_user_next demo_user_fields(5))
qed

lemma setup_userspace_memory_zeroes_witness:
  "case setup_userspace_memory 0x23030 demo_user of Inl e \<Rightarrow> e = Panic ''Out of physical memory''
    | Inr st' \<Rightarrow> space_wf 0x21000 st' \<and>
        user_image 0x21000 st' = override_on (user_image 0x21000 demo_user) (\<lambda>_. Some 0)
          (\<Union>r \<in> set (memory_ranges_lh (tasks demo_user 0x23030)). range_cover demo_user r) \<and>
        (\<forall>other. space_wf other demo_user \<and> space other demo_user \<inter> space 0x21000 demo_user = {} \<longrightarrow>
           space_wf other st' \<and> space other st' \<inter> space 0x21000 st' = {} \<and> user_image other st' = user_image other demo_user)"
  by (rule setup_userspace_memory_zeroes [OF demo_user_space_wf])
    (simp_all add: demo_user_fields USER_TOP_def)

lemma free_userspace_memory_returns_witness:
  "case free_userspace_memory 0x23030 demo_user of Inl e \<Rightarrow> False
    | Inr st' \<Rightarrow> space_wf 0x21000 st' \<and> slab_wf st' \<and> user_image 0x21000 st' = (\<lambda>_. None) \<and>
        memory_ranges_lh (tasks st' 0x23030) = [] \<and>
        used_pages st' = used_pages demo_user - ({0x21000, 0x24000, 0x25000, 0x26000, 0x27000} - {0x21000}) \<and>
        slab_live Memory_Range_Slab st' = slab_live Memory_Range_Slab demo_user - {0x22030} \<and>
        (\<forall>other. space_wf other demo_user \<and> space other demo_user \<inter> {0x21000, 0x24000, 0x25000, 0x26000, 0x27000} = {} \<longrightarrow>
           space_wf other st' \<and> user_image other st' = user_image other demo_user)"
proof -
  have r: "memory_ranges_lh (tasks demo_user 0x23030) = [0x22030]" "pml4_page (tasks demo_user 0x23030) = 0x21000"
    by (simp_all add: demo_user_fields)
  have "slab_memory demo_user = {0x22000, 0x23000}" by (auto simp: slab_memory_def demo_user_fields split: if_splits)
  then have "slab_memory demo_user \<inter> space 0x21000 demo_user = {}" by (simp add: demo_user_space)
  from free_userspace_memory_returns [OF demo_user_space_wf r(2) demo_user_slab(1) _ _ this] show ?thesis
    using demo_user_slab(2) unfolding r demo_user_space list.set by simp
qed

end
