(* ===== verification/ProcessMemory.thy ===== *)
theory ProcessMemory
  imports Syscall UserMemory
begin

text \<open>
  What \<^verbatim>\<open>fork\<close> does to memory: the child gets a copy of the parent's image on the parent's memory ranges, in new pages;
  every page that was in use before stays as it is, so that the memory of the parent and of all other processes
  is the same as before.
\<close>

section \<open>Operations that leave used pages alone\<close>

lemma same_memory:
  assumes "paging_state.truncate st' = paging_state.truncate st"
  shows "space_wf root st' = space_wf root st" "space root st' = space root st" "user_image root st' = user_image root st"
    "untouched P st0 st' = untouched P st0 st" "used_pages st' = used_pages st" "kmem_wf st' = kmem_wf st"
    "slab_wf st' = slab_wf st" "slab_live sid st' = slab_live sid st" "slab_memory st' = slab_memory st"
    "cr3_reg st' = cr3_reg st" "hhdm_offset st' = hhdm_offset st"
proof -
  have f: "pt_mem st' = pt_mem st" "frame_bytes st' = frame_bytes st" "cr3_reg st' = cr3_reg st" "hhdm_offset st' = hhdm_offset st"
    "kmem_start st' = kmem_start st" "kmem_total_pages st' = kmem_total_pages st" "kmem_page_array st' = kmem_page_array st"
    "kmem_used_pages st' = kmem_used_pages st" "slab_headers st' = slab_headers st" "slab_allocators st' = slab_allocators st"
    using assms by (simp_all add: paging_state.truncate_def)
  show wf: "kmem_wf st' = kmem_wf st" and used: "used_pages st' = used_pages st"
    by (simp_all add: kmem_wf_def used_pages_def page_addr_def f)
  show "space_wf root st' = space_wf root st" "space root st' = space root st" "user_image root st' = user_image root st"
    "untouched P st0 st' = untouched P st0 st"
    by (simp_all add: space_wf_def space_def user_image_def translate_def untouched_def page_bytes_def hhdm_ok_def fun_eq_iff f wf used)
  show "slab_wf st' = slab_wf st" "slab_live sid st' = slab_live sid st" "slab_memory st' = slab_memory st"
    by (simp_all add: slab_wf_def slab_live_def slab_memory_def f wf used)
  show "cr3_reg st' = cr3_reg st" "hhdm_offset st' = hhdm_offset st" by (rule f)+
qed

lemma kpage_alloc_untouched:
  assumes "kmem_wf st" and "0 < n" and "kpage_alloc n st = Inr (st', a)"
  shows "untouched (used_pages st) st st'" and "kmem_wf st'" and "used_pages st \<subseteq> used_pages st'"
proof -
  show wf: "kmem_wf st'" by (rule kpage_alloc_wf [OF assms])
  from kpage_alloc_cases [OF assms] obtain f where run: "free_run (kmem_page_array st) f n"
    and st': "st' = st\<lparr>kmem_page_array := take f (kmem_page_array st) @ replicate n KPAGE_USED @ drop (f + n) (kmem_page_array st),
                 kmem_used_pages := kmem_used_pages st + of_nat n\<rparr>" by blast
  have len: "f + n \<le> length (kmem_page_array st)" using run by (simp add: free_run_def)
  show sub: "used_pages st \<subseteq> used_pages st'"
  proof
    fix b assume "b \<in> used_pages st"
    then obtain i where i: "b = page_addr st i" "i < length (kmem_page_array st)" "kmem_page_array st ! i = KPAGE_USED"
      by (auto simp: used_pages_def)
    have "kmem_page_array st' ! i = KPAGE_USED" using i len by (auto simp: st' nth_append)
    moreover have "i < length (kmem_page_array st')" using i(2) len by (simp add: st')
    ultimately show "b \<in> used_pages st'" using i(1) by (auto simp: used_pages_def page_addr_def st')
  qed
  have "pt_mem st' = pt_mem st" "frame_bytes st' = frame_bytes st" "hhdm_offset st' = hhdm_offset st" "kmem_start st' = kmem_start st"
    by (simp_all add: st')
  then show "untouched (used_pages st) st st'" using wf sub by (auto simp: untouched_def page_bytes_def)
qed

lemma slab_alloc_untouched:
  assumes wf: "slab_wf st" and a: "slab_alloc sid st = Inr (st', a)"
  shows "untouched (used_pages st) st st'" and "slab_memory st' \<subseteq> slab_memory st \<union> (used_pages st' - used_pages st)"
    and "used_pages st \<subseteq> used_pages st'"
proof -
  have take: "untouched (used_pages s) s s'" "slab_memory s' = slab_memory s" "used_pages s' = used_pages s"
    if t: "slab_try_alloc sid s = Some (s', a)" "kmem_wf s" for s s' :: "'a paging_state_scheme"
  proof -
    from t(1) obtain h where "s' = s\<lparr>slab_headers := h\<rparr>" by (auto simp: slab_try_alloc_def)
    then show "untouched (used_pages s) s s'" "slab_memory s' = slab_memory s" "used_pages s' = used_pages s"
      using t(2) by (simp_all add: untouched_refl slab_memory_def)
  qed
  have *: "untouched (used_pages st) st st' \<and> slab_memory st' \<subseteq> slab_memory st \<union> (used_pages st' - used_pages st) \<and>
    used_pages st \<subseteq> used_pages st'"
  proof (cases "slab_try_alloc sid st")
    case (Some r)
    with a have "slab_try_alloc sid st = Some (st', a)" by (simp add: slab_alloc_def)
    from take [OF this slab_wfD(1) [OF wf]] show ?thesis by simp
  next
    case None
    with a obtain st1 p where k: "kpage_alloc 1 st = Inr (st1, p)"
      and got: "slab_try_alloc sid (slab_new_page sid p st1) = Some (st', a)"
      by (auto simp: slab_alloc_def res_bind_eq_Inr split: option.splits)
    note u = kpage_alloc1_used [OF slab_wfD(1) [OF wf] k]
    let ?s = "slab_new_page sid p st1"
    have s: "kmem_wf ?s" "used_pages ?s = used_pages st1" "untouched (used_pages st) st ?s = untouched (used_pages st) st st1"
      using u(1) by (simp_all add: slab_new_page_def Let_def untouched_def page_bytes_def)
    note t = take [OF got s(1)]
    have "untouched (used_pages st) st ?s" using kpage_alloc_untouched(1) [OF slab_wfD(1) [OF wf] _ k] s(3) by simp
    moreover have "untouched (used_pages st) ?s st'" using t(1) s(2) u(3) by (auto intro: untouched_mono)
    ultimately have "untouched (used_pages st) st st'" by (rule untouched_trans)
    moreover have "slab_memory ?s = insert p (slab_memory st)"
      using kpage_alloc_slab_fields(2) [OF k] by (auto simp: slab_memory_def slab_new_page_def Let_def split: if_splits)
    ultimately show ?thesis using t(2,3) s(2) u(2,3) by auto
  qed
  then show "untouched (used_pages st) st st'" "slab_memory st' \<subseteq> slab_memory st \<union> (used_pages st' - used_pages st)"
    "used_pages st \<subseteq> used_pages st'" by simp_all
qed

section \<open>Copying pages\<close>

lemma user_load_image:
  assumes "\<And>i. i < n \<Longrightarrow> user_image (cr3_reg st + hhdm_offset st) st (v + of_nat i) = Some (f i)"
  shows "user_load v n st = Inr (map f [0..<n])"
  using assms
proof (induction n arbitrary: v f)
  case (Suc n)
  have "user_byte v st = Inr (f 0)" using Suc.prems [of 0] by (simp add: user_byte_image)
  moreover have "user_load (v + 1) n st = Inr (map (\<lambda>i. f (Suc i)) [0..<n])"
  proof (rule Suc.IH)
    show "user_image (cr3_reg st + hhdm_offset st) st (v + 1 + of_nat i) = Some (f (Suc i))" if "i < n" for i
      using Suc.prems [of "Suc i"] that by (simp add: add.assoc)
  qed
  ultimately show ?case by (simp add: map_upt_Suc del: upt_Suc)
qed simp

lemma page_split:
  assumes "w \<in> page_of page" and "page AND PAGE_OFFSET_MASK = 0"
  shows "page + of_nat (unat (w AND PAGE_OFFSET_MASK)) = w" and "unat (w AND PAGE_OFFSET_MASK) < 4096"
proof -
  have o: "unat (w AND PAGE_OFFSET_MASK) = unat w mod 4096"
    using unat_and_mask [of w 12] by (simp add: mask_eq_exp_minus_1)
  then show lt: "unat (w AND PAGE_OFFSET_MASK) < 4096" by simp
  have "4096 * (unat w div 4096) = 4096 * (unat page div 4096)"
    using assms(1) unat_page_start [of w] unat_page_start [of page] by (simp add: page_of_def)
  then have w: "unat w = unat page + unat w mod 4096" using page_start_eq [OF assms(2)] mult_div_mod_eq [of 4096 "unat w"] by linarith
  have "unat (page + (w AND PAGE_OFFSET_MASK)) = unat page + unat (w AND PAGE_OFFSET_MASK)"
    using w o unat_lt_64 [of w] by (intro unat_add_no_wrap) simp
  then have "page + (w AND PAGE_OFFSET_MASK) = w" using w o by (simp add: word_unat_eq_iff)
  then show "page + of_nat (unat (w AND PAGE_OFFSET_MASK)) = w" by simp
qed

lemma in_page:
  assumes "page < USER_TOP" and "page AND PAGE_OFFSET_MASK = 0" and "i < 4096"
  shows "page + of_nat i \<in> page_of page" and "unat ((page + of_nat i) AND PAGE_OFFSET_MASK) = i"
proof -
  from page_start_eq [OF assms(2)] obtain k where k: "unat page = 4096 * k" by blast
  have small: "unat page < 2 ^ 47" using assms(1) by (simp add: word_less_nat_alt USER_TOP_def)
  have u: "unat (page + of_nat i) = 4096 * k + i"
    using small k assms(3) by (subst unat_add_no_wrap) (simp_all add: unat_of_nat_small)
  then show "unat ((page + of_nat i) AND PAGE_OFFSET_MASK) = i"
    using unat_and_mask [of "page + of_nat i" 12] assms(3) by (simp add: mask_eq_exp_minus_1)
  have "k < 2 ^ 35" using small k by simp
  then have "page + of_nat i < USER_TOP" using u assms(3) by (simp add: word_less_nat_alt USER_TOP_def)
  moreover have "unat ((page + of_nat i) AND PAGE_ADDRESS_MASK) = unat (page AND PAGE_ADDRESS_MASK)"
    using u k assms(3) by (simp add: unat_page_start)
  ultimately show "page + of_nat i \<in> page_of page" by (simp add: page_of_def word_unat_eq_iff)
qed

text \<open>The child's page gets the bytes that the parent has there.\<close>

definition forking :: "u64 \<Rightarrow> u64 \<Rightarrow> u64 \<Rightarrow> 'z kernel_state_scheme \<Rightarrow> bool" where
  "forking child root parent st \<longleftrightarrow> space_wf root st \<and> pml4_page (tasks st child) = root \<and> space_wf parent st \<and>
     space parent st \<inter> space root st = {} \<and> cr3_reg st + hhdm_offset st = parent"

lemma fork_page_ok:
  assumes ok: "forking child root parent st" and page: "page < USER_TOP" "page AND PAGE_OFFSET_MASK = 0"
    and mapped: "\<And>w. w \<in> page_of page \<Longrightarrow> user_image parent st w \<noteq> None"
    and none: "fresh \<Longrightarrow> user_image root st page = None"
  shows "case fork_page child page st of Inl e \<Rightarrow> e = Panic ''Out of physical memory''
    | Inr st' \<Rightarrow> forking child root parent st' \<and> user_image parent st' = user_image parent st \<and>
        user_image root st' = override_on (user_image root st) (user_image parent st) (page_of page) \<and> space_step root fresh st st'"
proof (cases "map_user_page child page st")
  case (Inl e)
  then show ?thesis using map_user_page_ok [of root st child page] ok page(1) by (simp add: forking_def fork_page_def)
next
  case (Inr r)
  then obtain st1 k where m: "map_user_page child page st = Inr (st1, k)" by (cases r) simp
  then have a: "page_added root page k (replicate 4096 0) st st1"
    using map_user_page_ok [of root st child page] ok page(1) by (simp add: forking_def)
  have step: "space_step root fresh st st1" using a none by (simp add: page_added_def space_step_def space_growth_def)
  note o = space_step_others [OF step, of parent]
  have parent: "space_wf parent st1" "user_image parent st1 = user_image parent st" "space parent st1 \<inter> space root st1 = {}"
    "space parent st1 = space parent st"
    using o ok by (simp_all add: forking_def)
  have only: "paging_only st st1" using a by (simp add: page_added_def)
  let ?bs = "map (\<lambda>i. the (user_image parent st (page + of_nat i))) [0..<4096]"
  have "user_load page 4096 st1 = Inr ?bs"
  proof (rule user_load_image)
    fix i :: nat assume "i < 4096"
    then have "user_image parent st (page + of_nat i) \<noteq> None" using mapped in_page(1) [OF page] by blast
    then show "user_image (cr3_reg st1 + hhdm_offset st1) st1 (page + of_nat i) = Some (the (user_image parent st (page + of_nat i)))"
      using ok parent(2) paging_onlyD [OF only] by (simp add: forking_def)
  qed
  then have eq: "fork_page child page st = Inr (store_page k ?bs st1)" by (simp add: fork_page_def m)
  have wf1: "space_wf root st1" and k: "table_of root (page_path page) st1 = Some k" "k \<notin> used_pages st"
    and used: "used_pages st \<subseteq> used_pages st1" using a by (simp_all add: page_added_def)
  have ku: "k \<in> used_pages st1" using space_wfD(3) [OF wf1] spaceI [OF page_path_ok(1) [OF page(1)] k(1)] by blast
  have keep: "untouched (used_pages st) st1 (store_page k ?bs st1)"
    using k(2) used ku by (intro store_page_untouched [OF space_wfD(1) [OF wf1]]) auto
  have "space parent st1 \<subseteq> used_pages st" using space_wfD(3) [of parent st] ok parent(4) by (auto simp: forking_def)
  note pu = untouched_space [OF parent(1) untouched_mono [OF keep this]]
  note su = store_page_space [OF wf1, of k ?bs]
  have "user_image root (store_page k ?bs st1) = override_on (user_image root st1) (page_image ?bs) (page_of page)"
    by (rule image_store [OF wf1 page(1) k(1)]) simp
  also have "\<dots> = override_on (user_image root st) (user_image parent st) (page_of page)"
  proof
    fix w
    show "override_on (user_image root st1) (page_image ?bs) (page_of page) w = override_on (user_image root st) (user_image parent st) (page_of page) w"
    proof (cases "w \<in> page_of page")
      case True
      have "page_image ?bs w = Some (the (user_image parent st w))"
        using page_split [OF True page(2)] by (simp add: page_image_def)
      then show ?thesis using True mapped [OF True] by (simp add: override_on_def)
    next
      case False
      then show ?thesis using a by (simp add: page_added_def override_on_def)
    qed
  qed
  finally have img: "user_image root (store_page k ?bs st1) = override_on (user_image root st) (user_image parent st) (page_of page)" .
  have only2: "paging_only st (store_page k ?bs st1)" using only paging_only_store paging_only_trans by blast
  have "untouched (used_pages st - space root st) st (store_page k ?bs st1)"
    using step untouched_mono [OF keep, of "used_pages st - space root st"] unfolding space_step_def space_growth_def by (blast intro: untouched_trans)
  then have "space_step root fresh st (store_page k ?bs st1)" using step only2 su(2) by (simp add: space_step_def space_growth_def)
  moreover have "forking child root parent (store_page k ?bs st1)"
    using ok su pu(1,2) parent(3) paging_onlyD [OF only2] paging_only_tasks(1) [OF only2] by (simp add: forking_def)
  ultimately show ?thesis using eq img pu(3) parent(2) by simp
qed

interpretation fork_filler: page_filler "fork_page child" "forking child root parent" "user_image root" "user_image parent" "space_step root"
  for child root parent
proof unfold_locales
  show "case fork_page child page st of Inl e \<Rightarrow> e = Panic ''Out of physical memory''
    | Inr st' \<Rightarrow> forking child root parent st' \<and> user_image parent st' = user_image parent st \<and>
        user_image root st' = override_on (user_image root st) (user_image parent st) (page_of page) \<and> space_step root fresh st st'"
    if "forking child root parent st" "page < USER_TOP" "page AND PAGE_OFFSET_MASK = 0"
      "\<And>w. w \<in> page_of page \<Longrightarrow> user_image parent st w \<noteq> None" "fresh \<Longrightarrow> user_image root st page = None" for st page fresh
    using that by (rule fork_page_ok)
  show "forking child root parent st \<Longrightarrow> space_step root fresh st st" for st fresh
    by (rule space_step_refl) (simp add: forking_def)
  show "space_step root fresh st st1 \<Longrightarrow> space_step root fresh st1 st2 \<Longrightarrow> space_step root fresh st st2" for st st1 st2 fresh
    by (rule space_step_trans)
qed

section \<open>Copying the memory ranges\<close>

text \<open>
  \<open>forked\<close> is what holds in the middle of \<^verbatim>\<open>fork\<close>, compared with the state \<open>st0\<close> before it: pages that were in use are
  untouched, the child has an address space of new pages, and its ranges \<open>copied\<close> are new objects with the bounds of the
  parent's ranges \<open>finished\<close>.
\<close>

definition fork_ready :: "'z kernel_state_scheme \<Rightarrow> bool" where
  "fork_ready st \<longleftrightarrow> slab_wf st \<and> hhdm_ok st \<and> current_task_ts st \<in> slab_live Task_Slab st \<and>
     space_wf (pml4_page (current st)) st \<and> cr3_reg st + hhdm_offset st = pml4_page (current st) \<and>
     set (memory_ranges_lh (current st)) \<subseteq> slab_live Memory_Range_Slab st \<and>
     (\<forall>t. length (task_name (tasks st t)) = TASK_NAME_MAXLEN) \<and> (\<exists>name. array_string (task_name (current st)) = Inr name) \<and>
     (\<forall>r \<in> set (memory_ranges_lh (current st)). mr_start (memory_ranges st r) AND PAGE_OFFSET_MASK = 0 \<and>
        mr_end (memory_ranges st r) \<le> USER_TOP \<and>
        (\<forall>w \<in> cover (mr_start (memory_ranges st r)) (mr_end (memory_ranges st r)). user_image (pml4_page (current st)) st w \<noteq> None))"

definition same_range :: "userspace_memory_range \<Rightarrow> userspace_memory_range \<Rightarrow> bool" where
  "same_range r s \<longleftrightarrow> mr_start r = mr_start s \<and> mr_end r = mr_end s \<and> mr_type r = mr_type s"

definition forked ::
  "'z kernel_state_scheme \<Rightarrow> u64 \<Rightarrow> u64 \<Rightarrow> u64 list \<Rightarrow> 'z kernel_state_scheme \<Rightarrow> bool" where
  "forked st0 child root finished st \<longleftrightarrow> slab_wf st \<and> used_pages st0 \<subseteq> used_pages st \<and> untouched (used_pages st0) st0 st \<and>
     space_wf root st \<and> space root st \<inter> used_pages st0 = {} \<and> slab_memory st \<inter> space root st = {} \<and>
     cr3_reg st = cr3_reg st0 \<and> current_task_ts st = current_task_ts st0 \<and> tasks st (current_task_ts st0) = current st0 \<and>
     child \<noteq> current_task_ts st0 \<and> pml4_page (tasks st child) = root \<and> pid (tasks st child) = pid_counter st0 \<and>
     task_struct_lh st = task_struct_lh st0 @ [child] \<and>
     slab_live Memory_Range_Slab st0 \<subseteq> slab_live Memory_Range_Slab st \<and>
     (\<forall>r \<in> slab_live Memory_Range_Slab st0. memory_ranges st r = memory_ranges st0 r) \<and>
     distinct (memory_ranges_lh (tasks st child)) \<and>
     set (memory_ranges_lh (tasks st child)) \<subseteq> slab_live Memory_Range_Slab st \<and>
     list_all2 (\<lambda>r s. same_range (memory_ranges st r) (memory_ranges st0 s)) (memory_ranges_lh (tasks st child)) finished"

lemma forkedD:
  assumes "forked st0 child root finished st" and "fork_ready st0"
  shows "forking child root (pml4_page (current st0)) st" and "user_image (pml4_page (current st0)) st = user_image (pml4_page (current st0)) st0"
    and "hhdm_offset st = hhdm_offset st0"
proof -
  let ?p = "pml4_page (current st0)"
  have wf0: "space_wf ?p st0" using assms(2) by (simp add: fork_ready_def)
  have sub: "space ?p st0 \<subseteq> used_pages st0" using space_wfD(3) [OF wf0] by blast
  have "untouched (space ?p st0) st0 st" using assms(1) sub unfolding forked_def by (blast intro: untouched_mono)
  note u = untouched_space [OF wf0 this]
  show "user_image ?p st = user_image ?p st0" by (rule u)
  show h: "hhdm_offset st = hhdm_offset st0" using assms(1) by (simp add: forked_def untouched_def)
  show "forking child root ?p st"
    using assms u sub h by (auto simp: forking_def forked_def fork_ready_def)
qed

text \<open>A new memory range for the child, before its pages are copied.\<close>

lemma forked_new_range:
  assumes fk: "forked st0 child root finished st" and old: "old \<in> slab_live Memory_Range_Slab st0"
    and a: "slab_alloc Memory_Range_Slab st = Inr (st1, new)"
    and st2: "st2 = upd_task child (\<lambda>t. t\<lparr>memory_ranges_lh := memory_ranges_lh t @ [new]\<rparr>)
      (upd_range new (\<lambda>_. \<lparr>mr_start = mr_start (memory_ranges st1 old), mr_end = mr_end (memory_ranges st1 old),
         mr_type = mr_type (memory_ranges st1 old)\<rparr>) st1)"
  shows "forked st0 child root (finished @ [old]) st2" and "user_image root st2 = user_image root st" and "memory_ranges st1 old = memory_ranges st0 old"
    and "files_lh (tasks st2 child) = files_lh (tasks st child)"
proof -
  have wf: "slab_wf st" using fk by (simp add: forked_def)
  from slab_alloc_step [OF wf a] have s: "slab_wf st1" "new \<notin> slab_live Memory_Range_Slab st"
    "slab_live Memory_Range_Slab st1 = insert new (slab_live Memory_Range_Slab st)" "slab_state.more st1 = slab_state.more st"
    by (simp_all add: slab_take_step_def)
  note u = slab_alloc_untouched [OF wf a]
  have k: "tasks st1 = tasks st" "memory_ranges st1 = memory_ranges st" "current_task_ts st1 = current_task_ts st" "cr3_reg st1 = cr3_reg st"
    "task_struct_lh st1 = task_struct_lh st" using s(4) by (cases st; cases st1; simp)+
  have sub: "space root st \<subseteq> used_pages st" using fk space_wfD(3) [of root st] by (auto simp: forked_def)
  have wfr: "space_wf root st" using fk by (simp add: forked_def)
  note sp = untouched_space [OF wfr untouched_mono [OF u(1) sub]]
  have tr: "paging_state.truncate st2 = paging_state.truncate st1"
    by (simp add: st2 upd_task_def upd_range_def paging_state.truncate_def)
  note m = same_memory [OF tr]
  have ne: "old \<noteq> new" "\<And>r. r \<in> slab_live Memory_Range_Slab st0 \<Longrightarrow> r \<noteq> new"
    "\<And>r. r \<in> set (memory_ranges_lh (tasks st child)) \<Longrightarrow> r \<noteq> new"
    using s(2) old fk by (auto simp: forked_def)
  show range: "memory_ranges st1 old = memory_ranges st0 old" using fk old k(2) by (simp add: forked_def)
  have t2: "tasks st2 = (tasks st)(child := (tasks st child)\<lparr>memory_ranges_lh := memory_ranges_lh (tasks st child) @ [new]\<rparr>)"
    "memory_ranges st2 = (memory_ranges st)(new := \<lparr>mr_start = mr_start (memory_ranges st1 old), mr_end = mr_end (memory_ranges st1 old),
         mr_type = mr_type (memory_ranges st1 old)\<rparr>)" "current_task_ts st2 = current_task_ts st"
    "task_struct_lh st2 = task_struct_lh st" using k by (simp_all add: st2 upd_task_def upd_range_def)
  have "list_all2 (\<lambda>r s. same_range (memory_ranges st2 r) (memory_ranges st0 s)) (memory_ranges_lh (tasks st child)) finished"
  proof (rule list.rel_mono_strong)
    show "list_all2 (\<lambda>r s. same_range (memory_ranges st r) (memory_ranges st0 s)) (memory_ranges_lh (tasks st child)) finished"
      using fk by (simp add: forked_def)
  qed (use ne(3) in \<open>simp add: t2(2)\<close>)
  then have "list_all2 (\<lambda>r s. same_range (memory_ranges st2 r) (memory_ranges st0 s)) (memory_ranges_lh (tasks st2 child)) (finished @ [old])"
    using range by (simp add: t2 list_all2_appendI same_range_def)
  moreover have "untouched (used_pages st0) st0 st2"
    using fk untouched_mono [OF u(1), of "used_pages st0"] m(4) unfolding forked_def by (blast intro: untouched_trans)
  moreover have "slab_memory st2 \<inter> space root st2 = {}"
    using fk u(2) sub sp(2) unfolding m forked_def by blast
  ultimately show "forked st0 child root (finished @ [old]) st2"
    using fk s(1,2,3) u(3) sp ne k unfolding forked_def m t2 by auto
  show "user_image root st2 = user_image root st" using m(3) sp(3) by simp
  show "files_lh (tasks st2 child) = files_lh (tasks st child)" by (simp add: t2)
qed

lemma forked_step:
  assumes fk: "forked st0 child root finished st" and step: "space_step root False st st'" and wf: "space_wf root st'"
  shows "forked st0 child root finished st'"
proof -
  have only: "paging_only st st'" and sub: "used_pages st \<subseteq> used_pages st'" using step by (simp_all add: space_step_def space_growth_def)
  have slab: "slab_wf st" using fk by (simp add: forked_def)
  have "slab_memory st \<subseteq> used_pages st'" using slab_memory_used [OF slab] sub by blast
  note sl = paging_only_slabs [OF only slab space_wfD(1) [OF wf] this]
  have fk0: "used_pages st0 \<subseteq> used_pages st" "space root st \<inter> used_pages st0 = {}" "untouched (used_pages st0) st0 st"
    "slab_memory st \<inter> space root st = {}" using fk by (simp_all add: forked_def)
  have grow: "untouched (used_pages st - space root st) st st'" "space root st' \<subseteq> space root st \<union> (used_pages st' - used_pages st)"
    using step by (simp_all add: space_step_def space_growth_def)
  have "used_pages st0 \<subseteq> used_pages st - space root st" using fk0(1,2) by blast
  then have "untouched (used_pages st0) st0 st'" by (intro untouched_trans [OF fk0(3)] untouched_mono [OF grow(1)])
  moreover have "space root st' \<inter> used_pages st0 = {}" using grow(2) fk0(1,2) by blast
  moreover have "slab_memory st' \<inter> space root st' = {}" using grow(2) fk0(4) slab_memory_used [OF slab] unfolding sl(3) by blast
  moreover have "used_pages st0 \<subseteq> used_pages st'" using fk0(1) sub by blast
  ultimately show ?thesis
    using fk wf by (simp add: forked_def sl(1,2) paging_only_tasks [OF only] paging_onlyD(3) [OF only])
qed

lemma paging_only_files: "paging_only st st' \<Longrightarrow> files_lh (tasks st' t) = files_lh (tasks st t)"
  by (simp add: paging_only_tasks)

lemma fork_range_ok:
  assumes ready: "fork_ready st0" and fk: "forked st0 child root finished st"
    and old: "old \<in> set (memory_ranges_lh (current st0))"
  shows "case fork_range child old st of Inl e \<Rightarrow> e = Panic ''Out of physical memory''
    | Inr st' \<Rightarrow> forked st0 child root (finished @ [old]) st' \<and> files_lh (tasks st' child) = files_lh (tasks st child) \<and>
        user_image root st' = override_on (user_image root st) (user_image (pml4_page (current st0)) st0)
          (cover (mr_start (memory_ranges st0 old)) (mr_end (memory_ranges st0 old)))"
proof (cases "slab_alloc Memory_Range_Slab st")
  case (Inl e)
  then show ?thesis using slab_alloc_error [of st] fk by (simp add: fork_range_def forked_def)
next
  case (Inr r)
  then obtain st1 new where a: "slab_alloc Memory_Range_Slab st = Inr (st1, new)" by (cases r) simp
  define st2 where "st2 = upd_task child (\<lambda>t. t\<lparr>memory_ranges_lh := memory_ranges_lh t @ [new]\<rparr>)
      (upd_range new (\<lambda>_. \<lparr>mr_start = mr_start (memory_ranges st1 old), mr_end = mr_end (memory_ranges st1 old),
         mr_type = mr_type (memory_ranges st1 old)\<rparr>) st1)"
  have live: "old \<in> slab_live Memory_Range_Slab st0" using ready old by (auto simp: fork_ready_def)
  note n = forked_new_range [OF fk live a st2_def]
  note d = forkedD [OF n(1) ready]
  let ?r = "memory_ranges st0 old"
  have eq: "fork_range child old st = page_loop (fork_page child) (mr_start ?r) (mr_end ?r) st2"
    using a n(3) by (simp add: fork_range_def st2_def Let_def)
  have r: "mr_start ?r AND PAGE_OFFSET_MASK = 0" "mr_end ?r \<le> USER_TOP"
    "\<And>w. w \<in> cover (mr_start ?r) (mr_end ?r) \<Longrightarrow> user_image (pml4_page (current st0)) st2 w \<noteq> None"
    using ready old unfolding d(2) by (auto simp: fork_ready_def)
  have fill: "case page_loop (fork_page child) (mr_start ?r) (mr_end ?r) st2 of Inl e \<Rightarrow> e = Panic ''Out of physical memory''
    | Inr st' \<Rightarrow> forking child root (pml4_page (current st0)) st' \<and> user_image (pml4_page (current st0)) st' = user_image (pml4_page (current st0)) st2 \<and>
        user_image root st' = override_on (user_image root st2) (user_image (pml4_page (current st0)) st2) (cover (mr_start ?r) (mr_end ?r)) \<and>
        space_step root False st2 st'"
    by (rule fork_filler.fill_pages [OF d(1) r]) simp_all
  show ?thesis
  proof (cases "page_loop (fork_page child) (mr_start ?r) (mr_end ?r) st2")
    case (Inl e)
    then show ?thesis using fill eq by simp
  next
    case (Inr st')
    then have f: "forking child root (pml4_page (current st0)) st'" "space_step root False st2 st'"
      "user_image root st' = override_on (user_image root st2) (user_image (pml4_page (current st0)) st2) (cover (mr_start ?r) (mr_end ?r))"
      using fill by simp_all
    have "space_wf root st'" using f(1) by (simp add: forking_def)
    then have "forked st0 child root (finished @ [old]) st'" by (rule forked_step [OF n(1) f(2)])
    moreover have "files_lh (tasks st' child) = files_lh (tasks st child)"
      using paging_only_files [of st2 st'] f(2) n(4) by (simp add: space_step_def space_growth_def)
    ultimately show ?thesis using Inr eq f(3) n(2) d(2) by simp
  qed
qed

lemma fork_ranges_ok:
  assumes ready: "fork_ready st0" and fk: "forked st0 child root finished st" and rs: "set rs \<subseteq> set (memory_ranges_lh (current st0))"
  shows "case res_fold (fork_range child) rs st of Inl e \<Rightarrow> e = Panic ''Out of physical memory''
    | Inr st' \<Rightarrow> forked st0 child root (finished @ rs) st' \<and> files_lh (tasks st' child) = files_lh (tasks st child) \<and>
        user_image root st' = override_on (user_image root st) (user_image (pml4_page (current st0)) st0)
          (\<Union>r \<in> set rs. cover (mr_start (memory_ranges st0 r)) (mr_end (memory_ranges st0 r)))"
  using fk rs
proof (induction rs arbitrary: st finished)
  case Nil
  then show ?case by (simp add: override_on_def)
next
  case (Cons r rs)
  note step = fork_range_ok [OF ready Cons.prems(1), of r]
  show ?case
  proof (cases "fork_range child r st")
    case (Inl e)
    then show ?thesis using step Cons.prems(2) by simp
  next
    case (Inr st1)
    then have st1: "forked st0 child root (finished @ [r]) st1" "files_lh (tasks st1 child) = files_lh (tasks st child)"
      "user_image root st1 = override_on (user_image root st) (user_image (pml4_page (current st0)) st0)
          (cover (mr_start (memory_ranges st0 r)) (mr_end (memory_ranges st0 r)))"
      using step Cons.prems(2) by simp_all
    have "override_on (override_on f g A) g B = override_on f g (A \<union> B)" for f g :: "u64 \<Rightarrow> u8 option" and A B
      by (auto simp: override_on_def)
    then show ?thesis using Cons.IH [OF st1(1)] Cons.prems(2) Inr st1(2,3) by (auto split: sum.splits)
  qed
qed


section \<open>The child process\<close>

lemma copy_entries_other:
  "(\<And>i. i \<in> set is \<Longrightarrow> a \<noteq> entry_addr new i) \<Longrightarrow> copy_entries new old is m a = m a"
proof (induction "is" arbitrary: m)
  case (Cons i rest)
  then show ?case using Cons.IH [of "m(entry_addr new i := m (entry_addr old i))"] by (simp add: copy_entries_def)
qed (simp add: copy_entries_def)

lemma kpage_alloc_panics:
  assumes "kmem_wf st" and "0 < n" and "kpage_alloc n st = Inl e"
  shows "e = Panic ''Out of physical memory''"
  using assms(3) unfolding kpage_alloc_eq [OF assms(1,2)] by (auto simp: Let_def split: if_splits)

text \<open>The new root table: an address space without a page.\<close>

lemma setup_kernelspace_ok:
  assumes wf: "slab_wf st" "hhdm_ok st"
  shows "case setup_kernelspace_memory child st of Inl e \<Rightarrow> e = Panic ''Out of physical memory''
    | Inr st' \<Rightarrow> \<exists>root. slab_wf st' \<and> used_pages st \<subseteq> used_pages st' \<and> untouched (used_pages st) st st' \<and>
        space_wf root st' \<and> space root st' = {root} \<and> root \<notin> used_pages st \<and> user_image root st' = (\<lambda>_. None) \<and>
        slab_memory st' = slab_memory st \<and> slab_live Memory_Range_Slab st' = slab_live Memory_Range_Slab st \<and>
        cr3_reg st' = cr3_reg st \<and> current_task_ts st' = current_task_ts st \<and> memory_ranges st' = memory_ranges st \<and>
        task_struct_lh st' = task_struct_lh st \<and>
        (\<exists>a b. tasks st' = (tasks st)(child := (tasks st child)\<lparr>kernel_stack_pages := a, kernel_entry_rsp := b, pml4_page := root\<rparr>))"
proof (cases "kpage_alloc KERNEL_STACK_PAGES st")
  case (Inl e)
  then show ?thesis using kpage_alloc_panics [OF slab_wfD(1) [OF wf(1)], of KERNEL_STACK_PAGES] by (simp add: setup_kernelspace_memory_def del: upt_rec_numeral)
next
  case (Inr r)
  then obtain st1 pages where a1: "kpage_alloc KERNEL_STACK_PAGES st = Inr (st1, pages)" by (cases r) simp
  have pos: "0 < KERNEL_STACK_PAGES" by simp
  note u1 = kpage_alloc_untouched [OF slab_wfD(1) [OF wf(1)] pos a1]
  have o1: "paging_only st st1" by (rule paging_only_alloc [OF a1])
  define st2 where "st2 = upd_task child (\<lambda>t. t\<lparr>kernel_stack_pages := pages,
                 kernel_entry_rsp := pages + PAGE_SIZE * of_nat KERNEL_STACK_PAGES\<rparr>) st1"
  have tr2: "paging_state.truncate st2 = paging_state.truncate st1"
    by (simp add: st2_def upd_task_def paging_state.truncate_def)
  note m2 = same_memory [OF tr2]
  have wf2: "kmem_wf st2" using u1(2) m2(6) by simp
  show ?thesis
  proof (cases "kpage_alloc 1 st2")
    case (Inl e)
    then show ?thesis using kpage_alloc_panics [OF wf2, of 1] a1 by (simp add: setup_kernelspace_memory_def st2_def del: upt_rec_numeral)
  next
    case (Inr r)
    then obtain st3 root where a3: "kpage_alloc 1 st2 = Inr (st3, root)" by (cases r) simp
    note u3 = kpage_alloc1_used [OF wf2 a3]
    have o3: "paging_only st2 st3" by (rule paging_only_alloc [OF a3])
    have t3: "untouched (used_pages st2) st2 st3" by (rule kpage_alloc_untouched [OF wf2 _ a3]) simp
    let ?m = "copy_entries root (cr3_reg st2 + hhdm_offset st2) (map of_nat [256..<512]) (zero_page root (pt_mem st3))"
    define st4 where "st4 = st3\<lparr>pt_mem := ?m\<rparr>"
    define st5 where "st5 = upd_task child (\<lambda>t. t\<lparr>pml4_page := root\<rparr>) st4"
    have eq: "setup_kernelspace_memory child st = Inr st5"
      using a1 a3 by (simp add: setup_kernelspace_memory_def st2_def st4_def st5_def Let_def del: upt_rec_numeral)
    have page: "is_page root" using used_pages_wfD [OF u3(1)] u3(3) by (simp add: is_page_def)
    have idx: "i < 512" "256 \<le> i" if "i \<in> set (map of_nat [256..<512])" for i :: u64
      using that by (auto simp: word_less_nat_alt word_le_nat_alt unat_of_nat_small simp del: upt_rec_numeral)
    have m_other: "?m (entry_addr b j) = pt_mem st3 (entry_addr b j)" if b: "b \<in> used_pages st2" "j < 512" for b j
    proof -
      have bp: "is_page b" "b \<noteq> root" using used_pages_wfD [OF wf2 b(1)] b(1) u3(2) by (auto simp: is_page_def)
      have "entry_addr b j \<noteq> entry_addr root i" if "i \<in> set (map of_nat [256..<512])" for i
        using entry_addr_eq_iff [OF bp(1) page b(2) idx(1) [OF that]] bp(2) by simp
      then have "?m (entry_addr b j) = zero_page root (pt_mem st3) (entry_addr b j)" by (rule copy_entries_other)
      then show ?thesis using entry_in_page [OF page bp(1) b(2)] bp(2) by (simp add: zero_page_def)
    qed
    have m_root: "?m (entry_addr root i) = 0" if "i < 256" for i
    proof -
      have i: "i < 512" using that by (rule order_less_le_trans) simp
      have "entry_addr root i \<noteq> entry_addr root k" if k: "k \<in> set (map of_nat [256..<512])" for k
        using entry_addr_eq_iff [OF page page i idx(1) [OF k]] idx(2) [OF k] \<open>i < 256\<close> by auto
      then have "?m (entry_addr root i) = zero_page root (pt_mem st3) (entry_addr root i)" by (rule copy_entries_other)
      then show ?thesis using entry_in_page [OF page page i] by (simp add: zero_page_def)
    qed
    have out: "untouched (used_pages st2) st3 st4"
      using m_other u3(1,3) by (auto simp: untouched_def st4_def page_bytes_def)
    have tr5: "paging_state.truncate st5 = paging_state.truncate st4"
      by (simp add: st5_def upd_task_def paging_state.truncate_def)
    note m5 = same_memory [OF tr5]
    have only: "paging_only st3 st4" unfolding st4_def by (rule paging_only_updates)
    have used: "used_pages st5 = insert root (used_pages st1)" "used_pages st2 = used_pages st1"
      using u3(3) m5(5) m2(5) by (simp_all add: st4_def)
    have "untouched (used_pages st) st1 st2" using u1(2,3) m2(4) untouched_refl [of st1 "used_pages st"] by simp
    moreover have sub2: "used_pages st \<subseteq> used_pages st2" using used(2) u1(3) by simp
    ultimately have "untouched (used_pages st) st st4"
      by (intro untouched_trans [OF u1(1)] untouched_trans [OF _ untouched_trans [OF untouched_mono [OF t3] untouched_mono [OF out]]])
    then have unt: "untouched (used_pages st) st st5" by (simp only: m5(4))
    have hh: "hhdm_ok st4" using wf(2) paging_onlyD(1,2) [OF o1] paging_onlyD(1,2) [OF o3]
      by (simp add: hhdm_ok_def st4_def st2_def upd_task_def)
    have "kmem_wf st4" "root \<in> used_pages st4" using u3 by (simp_all add: st4_def)
    from empty_space [OF this(1) hh this(2)] m_root have emp: "space_wf root st4" "space root st4 = {root}" "user_image root st4 = (\<lambda>_. None)"
      by (simp_all add: st4_def)
    have sl: "slab_allocators st4 = slab_allocators st" "slab_headers st4 = slab_headers st"
      using paging_onlyD(4,5) [OF o1] paging_onlyD(4,5) [OF o3] by (simp_all add: st4_def st2_def upd_task_def)
    have mem: "slab_memory st5 = slab_memory st" "slab_live Memory_Range_Slab st5 = slab_live Memory_Range_Slab st"
      using sl by (simp_all add: slab_memory_def slab_live_def st5_def upd_task_def)
    have "slab_wf st4"
      unfolding slab_wf_def
    proof (intro conjI allI impI)
      show "set (slab_pages (slab_allocators st4 sid)) \<subseteq> used_pages st4" for sid
        using slab_wfD(4) [OF wf(1)] u1(3) used u3(3) by (auto simp: sl) (auto simp: st4_def)
    qed (use wf(1) u3(1) in \<open>simp_all add: sl slab_wf_def\<close>, simp add: st4_def)
    moreover have ex: "\<exists>a b. tasks st5 = (tasks st)(child := (tasks st child)\<lparr>kernel_stack_pages := a, kernel_entry_rsp := b, pml4_page := root\<rparr>)"
      using paging_only_tasks(1) [OF o1] paging_only_tasks(1) [OF o3]
      by (intro exI [of _ pages] exI [of _ "pages + PAGE_SIZE * of_nat KERNEL_STACK_PAGES"]) (simp add: st5_def st4_def st2_def upd_task_def)
    moreover have "cr3_reg st5 = cr3_reg st" "current_task_ts st5 = current_task_ts st" "memory_ranges st5 = memory_ranges st"
      "task_struct_lh st5 = task_struct_lh st"
      using paging_onlyD(3) [OF o1] paging_onlyD(3) [OF o3] paging_only_tasks(2-4) [OF o1] paging_only_tasks(2-4) [OF o3]
      by (simp_all add: st5_def st4_def st2_def upd_task_def)
    moreover have "root \<notin> used_pages st" "used_pages st \<subseteq> used_pages st5" using u3(2) u1(3) used by auto
    ultimately show ?thesis
      unfolding eq sum.case using m5 emp mem unt by (intro exI [of _ root] conjI ex) simp_all
  qed
qed

text \<open>Steps that leave memory, the parent and the ranges of the child alone.\<close>

lemma forked_same:
  assumes fk: "forked st0 child root finished st" and tr: "paging_state.truncate st' = paging_state.truncate st"
    and "current_task_ts st' = current_task_ts st" "memory_ranges st' = memory_ranges st" "task_struct_lh st' = task_struct_lh st"
    and "tasks st' (current_task_ts st0) = tasks st (current_task_ts st0)"
    and "pml4_page (tasks st' child) = pml4_page (tasks st child)" "pid (tasks st' child) = pid (tasks st child)"
      "memory_ranges_lh (tasks st' child) = memory_ranges_lh (tasks st child)"
  shows "forked st0 child root finished st'" and "user_image root st' = user_image root st"
  using assms same_memory [OF tr] by (simp_all add: forked_def)

lemma forked_slab_alloc:
  assumes fk: "forked st0 child root finished st" and a: "slab_alloc File_Slab st = Inr (st1, new)"
  shows "forked st0 child root finished st1" and "user_image root st1 = user_image root st" and "tasks st1 = tasks st"
proof -
  have wf: "slab_wf st" and wfr: "space_wf root st" using fk by (simp_all add: forked_def)
  from slab_alloc_step [OF wf a] have s: "slab_wf st1" "slab_live Memory_Range_Slab st1 = slab_live Memory_Range_Slab st"
    "slab_state.more st1 = slab_state.more st" by (simp_all add: slab_take_step_def)
  note u = slab_alloc_untouched [OF wf a]
  have k: "tasks st1 = tasks st" "memory_ranges st1 = memory_ranges st" "current_task_ts st1 = current_task_ts st" "cr3_reg st1 = cr3_reg st"
    "task_struct_lh st1 = task_struct_lh st" using s(3) by (cases st; cases st1; simp)+
  have sub: "space root st \<subseteq> used_pages st" "used_pages st0 \<subseteq> used_pages st" using fk space_wfD(3) [OF wfr] by (auto simp: forked_def)
  note sp = untouched_space [OF wfr untouched_mono [OF u(1) sub(1)]]
  have "untouched (used_pages st0) st0 st1"
    using fk untouched_trans [OF _ untouched_mono [OF u(1) sub(2)]] by (simp add: forked_def)
  moreover have "slab_memory st1 \<inter> space root st1 = {}" using fk u(2) sub(1) unfolding sp(2) forked_def by blast
  moreover have "used_pages st0 \<subseteq> used_pages st1" using u(3) sub(2) by blast
  ultimately show "forked st0 child root finished st1" using fk s sp k unfolding forked_def by simp
  show "user_image root st1 = user_image root st" "tasks st1 = tasks st" by (rule sp k)+
qed

lemma fork_file_ok:
  assumes fk: "forked st0 child root finished st"
  shows "case fork_file child f st of Inl e \<Rightarrow> e = Panic ''Out of physical memory''
    | Inr st' \<Rightarrow> forked st0 child root finished st' \<and> user_image root st' = user_image root st"
proof (cases "slab_alloc File_Slab st")
  case (Inl e)
  then show ?thesis using slab_alloc_error [of st] fk by (simp add: fork_file_def forked_def)
next
  case (Inr r)
  then obtain st1 new where a: "slab_alloc File_Slab st = Inr (st1, new)" by (cases r) simp
  note n = forked_slab_alloc [OF fk a]
  let ?st2 = "upd_task child (\<lambda>t. t\<lparr>files_lh := files_lh t @ [new]\<rparr>)
      (upd_file new (\<lambda>_. \<lparr>f_fd = f_fd (filps st1 f), f_inode = f_inode (filps st1 f), f_offset = f_offset (filps st1 f)\<rparr>) st1)"
  have "child \<noteq> current_task_ts st0" using n(1) by (simp add: forked_def)
  then have "forked st0 child root finished ?st2 \<and> user_image root ?st2 = user_image root st1"
    by (intro conjI forked_same [OF n(1)]) (simp_all add: upd_task_def upd_file_def paging_state.truncate_def)
  then show ?thesis using a n(2) by (simp add: fork_file_def Let_def)
qed

lemma fork_files_ok:
  assumes "forked st0 child root finished st"
  shows "case res_fold (fork_file child) fs st of Inl e \<Rightarrow> e = Panic ''Out of physical memory''
    | Inr st' \<Rightarrow> forked st0 child root finished st' \<and> user_image root st' = user_image root st"
  using assms
proof (induction fs arbitrary: st)
  case (Cons f fs)
  show ?case
  proof (cases "fork_file child f st")
    case (Inr st1)
    then show ?thesis using fork_file_ok [OF Cons.prems, of f] Cons.IH [of st1] by (simp split: sum.splits)
  qed (use fork_file_ok [OF Cons.prems, of f] in simp)
qed simp

lemma array_string_short:
  assumes "array_string xs = Inr name"
  shows "length name < length xs"
proof -
  from assms have "0 \<in> set xs" and name: "name = takeWhile (\<lambda>c. c \<noteq> 0) xs" by (auto simp: array_string_def split: if_splits)
  from split_list_first [OF this(1)] obtain ys zs where xs: "xs = ys @ 0 # zs" "0 \<notin> set ys" by blast
  then have "name = ys" unfolding name xs(1) by (subst takeWhile_append2) auto
  then show ?thesis by (simp add: xs(1))
qed

text \<open>The child with its root table, before its memory is copied.\<close>

lemma forked_start:
  assumes ready: "fork_ready st" and a: "slab_alloc Task_Slab st = Inr (st1, child)"
    and st2: "st2 = (upd_task child (\<lambda>t. t\<lparr>pid := pid_counter st1, task_state := s, task_name := n, kernel_stack_pages := 0,
        pml4_page := 0, kernel_entry_rsp := 0, memory_ranges_lh := []\<rparr>) st1)
      \<lparr>pid_counter := pid_counter st1 + 1, task_struct_lh := task_struct_lh st1 @ [child]\<rparr>"
  shows "case setup_kernelspace_memory child st2 of Inl e \<Rightarrow> e = Panic ''Out of physical memory''
    | Inr st3 \<Rightarrow> \<exists>root. forked st child root [] (upd_task child (\<lambda>t. t\<lparr>files_lh := []\<rparr>) st3) \<and>
        user_image root (upd_task child (\<lambda>t. t\<lparr>files_lh := []\<rparr>) st3) = (\<lambda>_. None)"
proof -
  have wf: "slab_wf st" "hhdm_ok st" "current_task_ts st \<in> slab_live Task_Slab st" using ready by (simp_all add: fork_ready_def)
  from slab_alloc_step [OF wf(1) a] have t: "slab_wf st1" "child \<notin> slab_live Task_Slab st"
    "slab_live Memory_Range_Slab st1 = slab_live Memory_Range_Slab st" "slab_state.more st1 = slab_state.more st"
    by (simp_all add: slab_take_step_def)
  note u = slab_alloc_untouched [OF wf(1) a]
  have k: "tasks st1 = tasks st" "memory_ranges st1 = memory_ranges st" "current_task_ts st1 = current_task_ts st" "cr3_reg st1 = cr3_reg st"
    "task_struct_lh st1 = task_struct_lh st" "pid_counter st1 = pid_counter st" using t(4) by (cases st; cases st1; simp)+
  have tr2: "paging_state.truncate st2 = paging_state.truncate st1"
    by (simp add: st2 upd_task_def paging_state.truncate_def)
  note m2 = same_memory [OF tr2]
  have hh: "hhdm_ok st2" using wf(2) u(1) m2(4,11) by (simp add: st2 upd_task_def hhdm_ok_def untouched_def)
  have u2: "untouched (used_pages st) st st2" "used_pages st \<subseteq> used_pages st2" using u(1,3) m2(4,5) by simp_all
  have ne: "child \<noteq> current_task_ts st" using t(2) wf(3) by auto
  have sw: "slab_wf st2" using t(1) m2(7) by simp
  show ?thesis
  proof (cases "setup_kernelspace_memory child st2")
    case (Inl e)
    then show ?thesis using setup_kernelspace_ok [OF sw hh, of child] by simp
  next
    case (Inr st3)
    then obtain root where r: "slab_wf st3" "used_pages st2 \<subseteq> used_pages st3" "untouched (used_pages st2) st2 st3"
      "space_wf root st3" "space root st3 = {root}" "root \<notin> used_pages st2" "user_image root st3 = (\<lambda>_. None)"
      "slab_memory st3 = slab_memory st2" "slab_live Memory_Range_Slab st3 = slab_live Memory_Range_Slab st2"
      "cr3_reg st3 = cr3_reg st2" "current_task_ts st3 = current_task_ts st2" "memory_ranges st3 = memory_ranges st2"
      "task_struct_lh st3 = task_struct_lh st2"
      and ex: "\<exists>a b. tasks st3 = (tasks st2)(child := (tasks st2 child)\<lparr>kernel_stack_pages := a, kernel_entry_rsp := b, pml4_page := root\<rparr>)"
      using setup_kernelspace_ok [OF sw hh, of child] by auto
    let ?st4 = "upd_task child (\<lambda>t. t\<lparr>files_lh := []\<rparr>) st3"
    have f4: "tasks ?st4 (current_task_ts st) = current st" "pml4_page (tasks ?st4 child) = root" "pid (tasks ?st4 child) = pid_counter st"
      "memory_ranges_lh (tasks ?st4 child) = []"
      using ex ne k by (auto simp: upd_task_def st2 current_def)
    have f2: "cr3_reg st2 = cr3_reg st" "current_task_ts st2 = current_task_ts st" "memory_ranges st2 = memory_ranges st"
      "task_struct_lh st2 = task_struct_lh st @ [child]"
      using k by (simp_all add: st2 upd_task_def)
    have f: "cr3_reg ?st4 = cr3_reg st" "current_task_ts ?st4 = current_task_ts st" "memory_ranges ?st4 = memory_ranges st"
      "task_struct_lh ?st4 = task_struct_lh st @ [child]" "slab_memory ?st4 = slab_memory st3"
      using f2 r(10-13) by (simp_all add: upd_task_def slab_memory_def)
    have "untouched (used_pages st) st st3" by (rule untouched_trans [OF u2(1) untouched_mono [OF r(3) u2(2)]])
    moreover have "used_pages st \<subseteq> used_pages st3" "space root st3 \<inter> used_pages st = {}" using u2(2) r(2,5,6) by auto
    moreover have "slab_memory st3 \<inter> space root st3 = {}" using slab_memory_used [OF sw] r(5,6,8) by auto
    ultimately have "forked st child root [] ?st4"
      using r(1,4,9) f f4 ne t(3) m2(8) by (simp add: forked_def)
    then show ?thesis using Inr r(7) by auto
  qed
qed

definition parent_memory :: "'z kernel_state_scheme \<Rightarrow> u64 set" where
  "parent_memory st = (\<Union>r \<in> set (memory_ranges_lh (current st)). cover (mr_start (memory_ranges st r)) (mr_end (memory_ranges st r)))"

lemma sys_fork_ok:
  assumes ready: "fork_ready st"
  shows "case sys_fork rsp st of Inl e \<Rightarrow> e = Panic ''Out of physical memory''
    | Inr (st', r) \<Rightarrow> \<exists>child root. forked st child root (memory_ranges_lh (current st)) st' \<and> r = ucast (pid_counter st) \<and>
        user_image root st' = user_image (pml4_page (current st)) st |` parent_memory st"
proof (cases "slab_alloc Task_Slab st")
  case (Inl e)
  then show ?thesis using slab_alloc_error [of st] ready by (simp add: sys_fork_def fork_ready_def)
next
  case (Inr r)
  then obtain st1 child where a: "slab_alloc Task_Slab st = Inr (st1, child)" by (cases r) simp
  have "slab_state.more st1 = slab_state.more st"
    using slab_alloc_step [OF _ a] ready by (simp add: slab_take_step_def fork_ready_def)
  then have k: "tasks st1 = tasks st" "current_task_ts st1 = current_task_ts st" by (cases st; cases st1; simp)+
  from ready obtain name where name: "array_string (task_name (current st)) = Inr name"
    and len: "length (task_name (current st)) = TASK_NAME_MAXLEN" "length (task_name (tasks st child)) = TASK_NAME_MAXLEN"
    unfolding fork_ready_def current_def by blast
  have fits: "length name < length (task_name (tasks st child))" using array_string_short [OF name] len by simp
  let ?n = "name @ 0 # drop (Suc (length name)) (task_name (tasks st child))"
  define st2 where "st2 = (upd_task child (\<lambda>t. t\<lparr>pid := pid_counter st1, task_state := task_state (current st1), task_name := ?n,
        kernel_stack_pages := 0, pml4_page := 0, kernel_entry_rsp := 0, memory_ranges_lh := []\<rparr>) st1)
      \<lparr>pid_counter := pid_counter st1 + 1, task_struct_lh := task_struct_lh st1 @ [child]\<rparr>"
  define stack where "stack st6 = (let (sp, m) = fork_stack rsp (kernel_entry_rsp (current st6))
        (kernel_entry_rsp (tasks st6 child), stack_words st6);
      st7 = upd_task child (\<lambda>t. t\<lparr>kernel_rsp := sp\<rparr>) (st6\<lparr>stack_words := m\<rparr>)
    in Inr (st7, ucast (pid (tasks st7 child))) :: ('a kernel_state_scheme \<times> u64) res)" for st6
  have eq: "sys_fork rsp st = res_bind (setup_kernelspace_memory child st2) (\<lambda>st3.
      let st4 = upd_task child (\<lambda>t. t\<lparr>files_lh := []\<rparr>) st3
      in res_bind (res_fold (fork_range child) (memory_ranges_lh (current st4)) st4) (\<lambda>st5.
         res_bind (res_fold (fork_file child) (files_lh (current st5)) st5) stack))"
    using a k name array_strcpy_ok [OF fits] unfolding sys_fork_def stack_def [abs_def] st2_def
    by (simp add: current_def Let_def)
  note start = forked_start [OF ready a st2_def]
  show ?thesis
  proof (cases "setup_kernelspace_memory child st2")
    case (Inl e)
    then show ?thesis using start by (simp add: eq)
  next
    case 3: (Inr st3)
    define st4 where "st4 = upd_task child (\<lambda>t. t\<lparr>files_lh := []\<rparr>) st3"
    from start 3 obtain root where f4: "forked st child root [] st4" "user_image root st4 = (\<lambda>_. None)" by (auto simp: st4_def)
    have rs: "memory_ranges_lh (current st4) = memory_ranges_lh (current st)" using f4(1) by (simp add: forked_def current_def)
    note ranges = fork_ranges_ok [OF ready f4(1) subset_refl]
    have eq4: "sys_fork rsp st = res_bind (res_fold (fork_range child) (memory_ranges_lh (current st)) st4) (\<lambda>st5.
         res_bind (res_fold (fork_file child) (files_lh (current st5)) st5) stack)"
      unfolding eq 3 using rs by (simp add: st4_def Let_def)
    show ?thesis
    proof (cases "res_fold (fork_range child) (memory_ranges_lh (current st)) st4")
      case (Inl e)
      then show ?thesis using ranges by (simp add: eq4)
    next
      case 5: (Inr st5)
      then have f5: "forked st child root (memory_ranges_lh (current st)) st5"
        and img: "user_image root st5 = override_on (\<lambda>_. None) (user_image (pml4_page (current st)) st) (parent_memory st)"
        using ranges f4(2) by (simp_all add: parent_memory_def)
      note files = fork_files_ok [OF f5, of "files_lh (current st5)"]
      show ?thesis
      proof (cases "res_fold (fork_file child) (files_lh (current st5)) st5")
        case (Inl e)
        then show ?thesis using files by (simp add: eq4 5)
      next
        case 6: (Inr st6)
        then have f6: "forked st child root (memory_ranges_lh (current st)) st6" "user_image root st6 = user_image root st5"
          using files by simp_all
        obtain sp m where st: "fork_stack rsp (kernel_entry_rsp (current st6)) (kernel_entry_rsp (tasks st6 child), stack_words st6) = (sp, m)"
          by (cases "fork_stack rsp (kernel_entry_rsp (current st6)) (kernel_entry_rsp (tasks st6 child), stack_words st6)") blast
        let ?st7 = "upd_task child (\<lambda>t. t\<lparr>kernel_rsp := sp\<rparr>) (st6\<lparr>stack_words := m\<rparr>)"
        have ne: "child \<noteq> current_task_ts st" using f6(1) by (simp add: forked_def)
        have f7: "forked st child root (memory_ranges_lh (current st)) ?st7" "user_image root ?st7 = user_image root st6"
          by (rule forked_same [OF f6(1)]; simp add: upd_task_def paging_state.truncate_def ne [symmetric])+
        have "pid (tasks ?st7 child) = pid_counter st" using f7(1) by (simp add: forked_def)
        moreover have "override_on (\<lambda>_. None) f A = f |` A" for f :: "u64 \<Rightarrow> u8 option" and A
          by (auto simp: override_on_def restrict_map_def)
        ultimately show ?thesis
          using f7 f6(2) img by (simp add: eq4 5 6 stack_def st) blast
      qed
    qed
  qed
qed

section \<open>Extending the heap\<close>




section \<open>Properties\<close>

text \<open>
  C7: \<^verbatim>\<open>fork\<close> adds a task whose memory is a copy of the parent's on the parent's memory ranges, made of pages that were not in
  use, and whose ranges are those of the parent; the memory of the parent and of every other process is as before. It
  fails only when the memory is used up.
\<close>

theorem sys_fork_copies_memory:
  assumes "fork_ready st"
  shows "case sys_fork rsp st of Inl e \<Rightarrow> e = Panic ''Out of physical memory''
    | Inr (st', r) \<Rightarrow> \<exists>child root. task_struct_lh st' = task_struct_lh st @ [child] \<and> pml4_page (tasks st' child) = root \<and>
        r = ucast (pid_counter st) \<and> space_wf root st' \<and> space root st' \<inter> used_pages st = {} \<and>
        user_image root st' = user_image (pml4_page (current st)) st |` parent_memory st \<and>
        list_all2 (\<lambda>s t. same_range (memory_ranges st' s) (memory_ranges st t))
          (memory_ranges_lh (tasks st' child)) (memory_ranges_lh (current st)) \<and>
        (\<forall>other. space_wf other st \<longrightarrow> space_wf other st' \<and> user_image other st' = user_image other st)"
proof (cases "sys_fork rsp st")
  case (Inl e)
  then show ?thesis using sys_fork_ok [OF assms, of rsp] by simp
next
  case (Inr x)
  then obtain st' r where x: "sys_fork rsp st = Inr (st', r)" by (cases x) simp
  with sys_fork_ok [OF assms, of rsp] obtain child root where f: "forked st child root (memory_ranges_lh (current st)) st'"
    and r: "r = ucast (pid_counter st)" and img: "user_image root st' = user_image (pml4_page (current st)) st |` parent_memory st" by auto
  have others: "space_wf other st' \<and> user_image other st' = user_image other st" if o: "space_wf other st" for other
  proof -
    have "untouched (space other st) st st'"
      using f space_wfD(3) [OF o] unfolding forked_def by (blast intro: untouched_mono)
    then show ?thesis using untouched_space [OF o] by blast
  qed
  show ?thesis
    unfolding x sum.case prod.case using f r img others by (intro exI [of _ child] exI [of _ root]) (simp add: forked_def)
qed




lemma demo_fork_ready: "fork_ready demo_user"
proof -
  have c: "current demo_user = (demo_task 1 TS_RUNNING)\<lparr>pml4_page := 0x21000, memory_ranges_lh := [0x22030]\<rparr>"
    by (simp add: current_def demo_user_fields)
  show ?thesis
    unfolding fork_ready_def c
    using demo_user_slab demo_user_wf demo_user_space_wf demo_user_mapped
    by (simp add: demo_user_fields demo_task_def array_string_def USER_TOP_def)
qed

lemma sys_fork_copies_memory_witness:
  "case sys_fork 0x28000 demo_user of Inl e \<Rightarrow> e = Panic ''Out of physical memory''
    | Inr (st', r) \<Rightarrow> \<exists>child root. task_struct_lh st' = task_struct_lh demo_user @ [child] \<and> pml4_page (tasks st' child) = root \<and>
        r = ucast (pid_counter demo_user) \<and> space_wf root st' \<and> space root st' \<inter> used_pages demo_user = {} \<and>
        user_image root st' = user_image (pml4_page (current demo_user)) demo_user |` parent_memory demo_user \<and>
        list_all2 (\<lambda>s t. same_range (memory_ranges st' s) (memory_ranges demo_user t))
          (memory_ranges_lh (tasks st' child)) (memory_ranges_lh (current demo_user)) \<and>
        (\<forall>other. space_wf other demo_user \<longrightarrow> space_wf other st' \<and> user_image other st' = user_image other demo_user)"
  by (rule sys_fork_copies_memory [OF demo_fork_ready])

end
