(* ===== verification/Opening.thy ===== *)
theory Opening
  imports Syscall Resolve
begin

text \<open>
  What \<^verbatim>\<open>open\<close> does besides making a descriptor: it resolves the path, creates the file when it is missing, and
  truncates it. None of this touches the table of open files: a call of \<^verbatim>\<open>open\<close> that returns either leaves the table
  alone or is one \<open>open_filp\<close> between such steps (\<open>sys_open_cases\<close>).
\<close>

section \<open>The table\<close>

definition task_files :: "'z kernel_state_scheme \<Rightarrow> u64 list" where
  "task_files st = files_lh (current st)"

definition fd_of :: "'z vfs_state_scheme \<Rightarrow> u64 \<Rightarrow> u32" where
  "fd_of st f = f_fd (filps st f)"

definition open_of :: "'z vfs_state_scheme \<Rightarrow> u64 \<Rightarrow> u64 \<times> u64" where
  "open_of st f = (f_inode (filps st f), f_offset (filps st f))"

section \<open>Allocation and lists\<close>

lemma slab_more_kernel:
  assumes "slab_state.more st' = slab_state.more st"
  shows "tasks st' = tasks st" "current_task_ts st' = current_task_ts st" "filps st' = filps st"
    "task_files st' = task_files st"
  using assms by (cases st; cases st'; simp add: task_files_def current_def)+

lemma task_files_upd [simp]:
  "task_files (upd_file a f st) = task_files st"
  "task_files (set_files g st) = g (task_files st)"
  "filps (set_files g st) = filps st"
  by (simp_all add: task_files_def current_def upd_file_def set_files_def upd_task_def)

lemma slab_upd_kernel [simp]:
  "slab_wf (upd_file a f st) = slab_wf st" "slab_live sid (upd_file a f st) = slab_live sid st"
  by (subst slab_wf_truncate slab_live_truncate, simp, subst slab_wf_truncate slab_live_truncate, simp)+

lemma slab_set_files [simp]:
  "slab_wf (set_files g st) = slab_wf st" "slab_live sid (set_files g st) = slab_live sid st"
proof -
  have "slab_state.truncate (set_files g st) = slab_state.truncate st"
    by (simp add: set_files_def upd_task_def slab_state.truncate_def)
  then show "slab_wf (set_files g st) = slab_wf st" "slab_live sid (set_files g st) = slab_live sid st"
    by (metis slab_wf_truncate, metis slab_live_truncate)
qed

section \<open>What leaves the table alone\<close>

definition files_same :: "'z kernel_state_scheme \<Rightarrow> 'z kernel_state_scheme \<Rightarrow> bool" where
  "files_same st st' \<longleftrightarrow> slab_wf st' \<and> slab_live File_Slab st' = slab_live File_Slab st \<and>
     filps st' = filps st \<and> tasks st' = tasks st \<and> current_task_ts st' = current_task_ts st"

lemma files_same_refl: "slab_wf st \<Longrightarrow> files_same st st"
  by (simp add: files_same_def)

lemma files_same_trans: "files_same st st1 \<Longrightarrow> files_same st1 st2 \<Longrightarrow> files_same st st2"
  by (simp add: files_same_def)

lemma files_sameD:
  assumes "files_same st st'"
  shows "slab_wf st'" "slab_live File_Slab st' = slab_live File_Slab st" "filps st' = filps st"
    "task_files st' = task_files st" "fd_of st' = fd_of st" "open_of st' = open_of st"
    "current_task_ts st' = current_task_ts st" "tasks st' = tasks st"
  using assms by (simp_all add: files_same_def task_files_def current_def fd_of_def [abs_def] open_of_def [abs_def])

text \<open>Steps on other slabs and on the objects of the file system.\<close>

lemma alloc_files_same:
  assumes "slab_wf st" and "slab_alloc sid st = Inr (st', a)" and "sid \<noteq> File_Slab"
  shows "files_same st st'" "a \<in> slab_live sid st'" "\<forall>i. i \<noteq> sid \<longrightarrow> slab_live i st' = slab_live i st"
proof -
  note t = slab_alloc_step [OF assms(1,2), unfolded slab_take_step_def]
  have more: "slab_state.more st' = slab_state.more st" using t by blast
  show "files_same st st'"
    using t assms(3) slab_more_kernel [OF more] by (simp add: files_same_def)
  show "a \<in> slab_live sid st'" "\<forall>i. i \<noteq> sid \<longrightarrow> slab_live i st' = slab_live i st" using t by simp_all
qed

lemma free_files_same:
  assumes "slab_wf st" and "slab_free sid a st = Inr st'" and "a \<in> slab_live sid st" and "sid \<noteq> File_Slab"
  shows "files_same st st'" "\<forall>i. i \<noteq> sid \<longrightarrow> slab_live i st' = slab_live i st"
proof -
  obtain s where s: "slab_free sid a st = Inr s" "slab_wf s" "\<forall>i. i \<noteq> sid \<longrightarrow> slab_live i s = slab_live i st"
    "slab_state.more s = slab_state.more st"
    using slab_free_live [OF assms(1,3)] by blast
  with assms(2) have "s = st'" by simp
  with s slab_more_kernel [OF s(4)] assms(4)
  show "files_same st st'" "\<forall>i. i \<noteq> sid \<longrightarrow> slab_live i st' = slab_live i st" by (simp_all add: files_same_def)
qed

lemma object_files_same:
  assumes "slab_wf st"
  shows "files_same st (upd_inode i f st)" "files_same st (upd_dentry d g st)" "files_same st (upd_ramfs_inode r h st)"
proof -
  have "slab_wf (upd_inode i f st)" "slab_live sid (upd_inode i f st) = slab_live sid st"
    "slab_wf (upd_dentry d g st)" "slab_live sid (upd_dentry d g st) = slab_live sid st"
    "slab_wf (upd_ramfs_inode r h st)" "slab_live sid (upd_ramfs_inode r h st) = slab_live sid st" for sid
    using assms by (subst slab_wf_truncate slab_live_truncate; simp flip: slab_wf_truncate slab_live_truncate)+
  then show "files_same st (upd_inode i f st)" "files_same st (upd_dentry d g st)" "files_same st (upd_ramfs_inode r h st)"
    by (simp_all add: files_same_def) (simp_all add: upd_inode_def upd_dentry_def upd_ramfs_inode_def)
qed

section \<open>Creating\<close>

lemma dir_append_files_same:
  assumes "slab_wf st" and "dir_append i d st = Inr st'"
  shows "files_same st st'"
  using assms(2) object_files_same(1) [OF assms(1)] by (auto simp: dir_append_def res_bind_eq_Inr)

lemma ramfs_create_files_same:
  assumes "slab_wf st" and "ramfs_create_file_inode parent inode dentry st = Inr (st', r)"
  shows "files_same st st' \<and> r = 0"
proof -
  obtain st1 st3 ri where st1: "files_same st st1" and a: "slab_alloc Ramfs_Inode_Slab st1 = Inr (st3, ri)"
    and d: "dir_append parent dentry (upd_inode inode (\<lambda>i. i\<lparr>i_private := ri\<rparr>)
      (upd_ramfs_inode ri (\<lambda>r. r\<lparr>ri_clusters := []\<rparr>) st3)) = Inr st'" and r: "r = 0"
  proof -
    define s1 where "s1 = upd_inode inode (\<lambda>i. i\<lparr>i_type := INODE_REGULAR_FILE,
                  i_superblock := i_superblock (inodes st parent), i_data := Dir_Data []\<rparr>) st"
    define s2 where "s2 = upd_dentry dentry (\<lambda>d. d\<lparr>d_inode := inode, d_mounted_inode := 0\<rparr>) s1"
    have "files_same st s1" unfolding s1_def by (rule object_files_same(1) [OF assms(1)])
    then have "files_same st s2"
      unfolding s2_def using object_files_same(2) files_sameD(1) files_same_trans by blast
    with that [of s2] assms(2) show thesis
      unfolding ramfs_create_file_inode_def s1_def [symmetric] Let_def s2_def [symmetric] by (auto simp: res_bind_eq_Inr)
  qed
  have 3: "files_same st st3"
    by (rule files_same_trans [OF st1 alloc_files_same(1) [OF files_sameD(1) [OF st1] a]]) simp
  let ?st4 = "upd_ramfs_inode ri (\<lambda>r. r\<lparr>ri_clusters := []\<rparr>) st3"
  have 4: "files_same st ?st4"
    by (rule files_same_trans [OF 3 object_files_same(3) [OF files_sameD(1) [OF 3]]])
  have 5: "files_same st (upd_inode inode (\<lambda>i. i\<lparr>i_private := ri\<rparr>) ?st4)"
    by (rule files_same_trans [OF 4 object_files_same(1) [OF files_sameD(1) [OF 4]]])
  show ?thesis using files_same_trans [OF 5 dir_append_files_same [OF files_sameD(1) [OF 5] d]] r by simp
qed

lemma vfs_create_files_same:
  assumes "slab_wf st" and "vfs_create parent name st = Inr (st', inode)"
  shows "files_same st st'"
proof -
  obtain st1 i d where new: "vfs_new_entry name st = Inr (st1, i, d)" using assms(2)
    by (auto simp: vfs_create_def res_bind_eq_Inr)
  obtain s1 s2 chars where a1: "slab_alloc Inode_Slab st = Inr (s1, i)" and a2: "slab_alloc Dentry_Slab s1 = Inr (s2, d)"
    and st1: "st1 = upd_dentry d (\<lambda>d. d\<lparr>d_name := chars\<rparr>) s2"
    using new by (auto simp: vfs_new_entry_def res_bind_eq_Inr)
  note f1 = alloc_files_same [OF assms(1) a1]
  have w1: "slab_wf s1" using f1(1) by (simp add: files_sameD)
  note f2 = alloc_files_same [OF w1 a2]
  have w2: "slab_wf s2" using f2(1) by (simp add: files_sameD)
  have 2: "files_same st s2" using f1(1) f2(1) files_same_trans by simp
  have 3: "files_same st st1" unfolding st1 by (rule files_same_trans [OF 2 object_files_same(2) [OF w2]])
  have w3: "slab_wf st1" using 3 by (rule files_sameD)
  have live: "i \<in> slab_live Inode_Slab st1" "d \<in> slab_live Dentry_Slab st1"
    using f1(2) f2(2,3) unfolding st1
    by (subst slab_live_truncate, simp flip: slab_live_truncate)+
  obtain st2 cr where c: "fs_create_file_inode parent i d st1 = Inr (st2, cr)"
    and end_: "(if cr \<noteq> 0 then res_bind (slab_free Inode_Slab i st2) (\<lambda>st3.
        res_bind (slab_free Dentry_Slab d st3) (\<lambda>st4. Inr (st4, 0))) else Inr (st2, i)) = Inr (st', inode)"
    using assms(2) new by (auto simp: vfs_create_def res_bind_eq_Inr)
  consider "files_same st1 st2 \<and> cr = 0" | "st2 = st1 \<and> cr = -1"
  proof -
    obtain ops where ops: "inode_ops parent st1 = Inr ops" using c by (auto simp: fs_create_file_inode_def res_bind_eq_Inr)
    show thesis
    proof (cases ops)
      case Ramfs_Ops
      then have "ramfs_create_file_inode parent i d st1 = Inr (st2, cr)" using c ops by (simp add: fs_create_file_inode_def)
      then show thesis using that(1) ramfs_create_files_same [OF w3] by blast
    qed (use c ops that(2) in \<open>simp_all add: fs_create_file_inode_def sysfs_create_file_inode_def exfat_create_file_inode_def\<close>)
  qed
  then show ?thesis
  proof cases
    case 1
    with end_ 3 show ?thesis using files_same_trans by auto
  next
    case 2
    with end_ obtain st3 where e: "slab_free Inode_Slab i st1 = Inr st3" "slab_free Dentry_Slab d st3 = Inr st'"
      by (auto simp: res_bind_eq_Inr)
    note g1 = free_files_same [OF w3 e(1) live(1)]
    have "slab_wf st3" "d \<in> slab_live Dentry_Slab st3" using g1 live(2) by (simp_all add: files_sameD)
    note g2 = free_files_same(1) [OF this(1) e(2) this(2)]
    show ?thesis by (rule files_same_trans [OF 3 files_same_trans [OF g1(1) g2]]) simp_all
  qed
qed

section \<open>Truncating\<close>

text \<open>The files of a tree that \<^verbatim>\<open>ftruncate\<close> may cut: their clusters are distinct live objects of their own.\<close>

definition tree_files_wf :: "u64 set \<Rightarrow> 'z vfs_state_scheme \<Rightarrow> bool" where
  "tree_files_wf D st \<longleftrightarrow> (\<forall>i \<in> D. i_type (inodes st i) = INODE_REGULAR_FILE \<longrightarrow> inode_ops i st = Inr Ramfs_Ops \<longrightarrow>
     ramfs_file_wf st (i_private (inodes st i)))"

lemma vfs_more_kernel:
  assumes "vfs_state.more st' = vfs_state.more st"
  shows "tasks st' = tasks st" "current_task_ts st' = current_task_ts st"
  using assms by (cases st; cases st'; simp)+

lemma vfs_ftruncate_files_same:
  assumes "slab_wf st" and "vfs_ftruncate filp 0 st = Inr (st', r)"
    and "i_type (inodes st (f_inode (filps st filp))) = INODE_REGULAR_FILE \<Longrightarrow>
      inode_ops (f_inode (filps st filp)) st = Inr Ramfs_Ops \<Longrightarrow> ramfs_file_wf st (ramfs_ino st filp)"
  shows "files_same st st'"
proof (cases "fs_set_size filp 0 st = Inr (st', r) \<and> i_type (inodes st (f_inode (filps st filp))) = INODE_REGULAR_FILE")
  case False
  then have "st' = st" using assms(2)
    by (auto simp: vfs_ftruncate_def res_bind_eq_Inr filp_inode_def split: if_splits)
  then show ?thesis using files_same_refl [OF assms(1)] by simp
next
  case True
  then obtain ops where ops: "inode_ops (f_inode (filps st filp)) st = Inr ops" by (auto simp: fs_set_size_def res_bind_eq_Inr)
  show ?thesis
  proof (cases "ops = Ramfs_Ops")
    case False
    then have "st' = st" using True ops
      by (cases ops) (auto simp: fs_set_size_def sysfs_set_size_def exfat_set_size_def)
    then show ?thesis using files_same_refl [OF assms(1)] by simp
  next
    case ramfs: True
    have wf: "ramfs_file_wf st (ramfs_ino st filp)" using assms(3) True ops ramfs by simp
    have run: "ramfs_set_size filp 0 st = Inr (st', r)" using True ops ramfs by (simp add: fs_set_size_def)
    have wf': "ramfs_file_wf st' (ramfs_ino st filp)" and frame: "resize_frame (ramfs_ino st filp) st st'"
      using ramfs_set_size_ok [OF wf _ run] by simp_all
    have more: "vfs_state.more st' = vfs_state.more st" and filps: "filps st' = filps st"
      and live: "slab_live File_Slab st' = slab_live File_Slab st"
      using frame by (simp_all add: resize_frame_def)
    show ?thesis
      unfolding files_same_def using ramfs_file_wfD(1) [OF wf'] vfs_more_kernel [OF more] filps live by blast
  qed
qed

section \<open>Opening\<close>

lemma walk_At_tree:
  assumes "loaded_tree D st"
  shows "i \<in> D \<Longrightarrow> walk st i d p names trailing = At x y z \<Longrightarrow> x \<in> D"
proof (induction names arbitrary: i d p)
  case Nil
  then show ?case by (simp split: if_splits)
next
  case (Cons w names)
  from Cons.prems(2) obtain e where dir: "i_type (inodes st i) = INODE_DIRECTORY"
    and e: "entry_named st i w = Some e" "walk st (dentry_target e st) e i names trailing = At x y z"
    by (auto split: option.splits if_splits)
  obtain ds where ds: "i_data (inodes st i) = Dir_Data ds"
    and names: "\<forall>d \<in> set ds. \<exists>s. array_string (d_name (dentries st d)) = Inr s"
    and targets: "\<forall>d \<in> set ds. dentry_target d st \<in> D \<and> lookup_quiet (dentry_target d st) st"
    by (rule loaded_treeD [OF assms Cons.prems(1) dir])
  have "e \<in> set ds" by (rule entry_named_member [OF e(1) ds])
  then have "dentry_target e st \<in> D" using targets by blast
  then show ?case by (rule Cons.IH [OF _ e(2)])
qed

lemma open_filp_step:
  assumes "slab_wf st" and "open_filp inode st = Inr (st', filp)"
  shows "slab_wf st'" "inodes st' = inodes st" "f_inode (filps st' filp) = inode"
    "inode_ops i st' = inode_ops i st" "ramfs_file_wf st ino \<Longrightarrow> ramfs_file_wf st' ino"
proof -
  obtain st1 x where a: "slab_alloc File_Slab st = Inr (st1, filp)"
    and st': "st' = set_files (\<lambda>fs. fs @ [filp]) (upd_file filp (\<lambda>_. x) st1)" and x: "f_inode x = inode"
    using assms(2) by (auto simp: open_filp_def res_bind_eq_Inr Let_def)
  note t = slab_alloc_step [OF assms(1) a, unfolded slab_take_step_def]
  have more: "slab_state.more st1 = slab_state.more st" using t by blast
  note same = slab_more_fields [OF more]
  show wf: "slab_wf st'" using t by (simp add: st')
  show "inodes st' = inodes st" "f_inode (filps st' filp) = inode"
    using x by (simp_all add: st' set_files_def upd_task_def upd_file_def same)
  show "inode_ops i st' = inode_ops i st"
    by (simp add: inode_ops_def st' set_files_def upd_task_def upd_file_def same)
  have "slab_live Ramfs_Cluster_Slab st' = slab_live Ramfs_Cluster_Slab st" using t by (simp add: st')
  then show "ramfs_file_wf st' ino" if "ramfs_file_wf st ino"
    using that wf by (simp add: ramfs_file_wf_def) (simp add: st' set_files_def upd_task_def upd_file_def same)
qed

text \<open>
  A call of \<^verbatim>\<open>open\<close> that returns: an error code, with the table unchanged, or one new descriptor, which is the
  result unless truncating has failed.
\<close>

lemma sys_open_cases:
  assumes "slab_wf st" and "loaded_tree D st" and "tree_files_wf D st" and "sys_open devs path_arg flags st = Inr (st', r)"
  obtains (refused) "files_same st st'"
  | (opened) st1 inode st2 filp where "files_same st st1" "open_filp inode st1 = Inr (st2, filp)" "files_same st2 st'"
proof -
  obtain path where path: "user_string path_arg st = Inr path" using assms(4)
    by (auto simp: sys_open_def res_bind_eq_Inr)
  obtain res where res: "vfs_resolve devs path st = Inr (st, res)"
    and walk: "resolution_of path res = walk st vfs_root_inode 0 vfs_root_inode (components path) (trailing_slash path)"
    using vfs_resolve_walks [OF assms(2), where devs = devs and path = path] by (auto split: sum.splits)
  note run = assms(4) [unfolded sys_open_def path res_bind_Inr res prod.case]
  show thesis
  proof (cases res)
    case (Resolve_Exists inode dentry parent)
    have "inode \<in> D"
      using walk_At_tree [OF assms(2)] assms(2) walk unfolding Resolve_Exists loaded_tree_def by simp metis
    obtain st2 filp where o: "open_filp inode st = Inr (st2, filp)"
      and rest: "(if i_type (inodes st2 (f_inode (filps st2 filp))) = INODE_REGULAR_FILE \<and> flags AND O_TRUNCATE \<noteq> 0
             then res_bind (vfs_ftruncate filp 0 st2) (\<lambda>(st3, truncate_result).
                    if truncate_result <s 0 then Inr (st3, truncate_result)
                    else Inr (st3, ucast (f_fd (filps st3 filp))))
             else Inr (st2, ucast (f_fd (filps st2 filp)))) = Inr (st', r)"
      using run by (auto simp: Resolve_Exists res_bind_eq_Inr)
    note step = open_filp_step [OF assms(1) o]
    have "files_same st2 st'"
    proof (cases "i_type (inodes st2 (f_inode (filps st2 filp))) = INODE_REGULAR_FILE \<and> flags AND O_TRUNCATE \<noteq> 0")
      case True
      with rest obtain tr where "vfs_ftruncate filp 0 st2 = Inr (st', tr)" by (auto simp: res_bind_eq_Inr split: if_splits)
      then show ?thesis
        by (rule vfs_ftruncate_files_same [OF step(1)])
          (use assms(3) \<open>inode \<in> D\<close> step(2-5) in \<open>auto simp: tree_files_wf_def\<close>)
    next
      case False
      with rest show ?thesis using files_same_refl [OF step(1)] by auto
    qed
    with opened [OF files_same_refl [OF assms(1)] o] show thesis by simp
  next
    case (Resolve_Doesnt_Exist dentry parent s n)
    show thesis
    proof (cases "flags AND O_CREAT \<noteq> 0")
      case False
      with run Resolve_Doesnt_Exist have "st' = st" by simp
      then show thesis using refused files_same_refl [OF assms(1)] by simp
    next
      case True
      with run Resolve_Doesnt_Exist obtain st2 inode where c: "vfs_create parent (drop s path) st = Inr (st2, inode)"
        and rest: "(if inode = 0 then Inr (st2, -4)
          else res_bind (open_filp inode st2) (\<lambda>(st3, filp). Inr (st3, ucast (f_fd (filps st3 filp))))) = Inr (st', r)"
        by (auto simp: res_bind_eq_Inr)
      note same = vfs_create_files_same [OF assms(1) c]
      show thesis
      proof (cases "inode = 0")
        case True
        with rest same refused show thesis by simp
      next
        case False
        with rest obtain filp where o: "open_filp inode st2 = Inr (st', filp)" by (auto simp: res_bind_eq_Inr)
        show thesis
          by (rule opened [OF same o files_same_refl]) (rule open_filp_step(1) [OF files_sameD(1) [OF same] o])
      qed
    qed
  qed (use run refused files_same_refl [OF assms(1)] in simp_all)
qed

end
