(* ===== verification/Fds.thy ===== *)
theory Fds
  imports Opening Sched
begin

text \<open>
  The table of open files of a task. It is a list of file objects; what the system calls promise is the
  finite map from descriptors to the object's inode and offset (\<open>fds\<close>). \<open>fd_table_ok\<close> is the invariant of the
  list: its descriptors ascend, and its objects are live objects of their allocator.
\<close>

section \<open>The invariant and the abstract table\<close>

definition fd_table_ok :: "'z kernel_state_scheme \<Rightarrow> bool" where
  "fd_table_ok st \<longleftrightarrow> slab_wf st \<and> set (task_files st) \<subseteq> slab_live File_Slab st \<and>
     sorted_wrt (<) (map (fd_of st) (task_files st))"

definition fds :: "'z kernel_state_scheme \<Rightarrow> u32 \<rightharpoonup> u64 \<times> u64" where
  "fds st fd = map_option (open_of st) (find (\<lambda>f. fd_of st f = fd) (task_files st))"

lemma slab_live_nonzero:
  assumes "slab_wf st" and "a \<in> slab_live sid st"
  shows "a \<noteq> 0"
proof (rule slab_live_page [OF assms])
  fix p s
  assume "unat a = unat p + (48 + s * unat (object_size (slab_allocators st sid)))"
  then have "48 \<le> unat a" by linarith
  then show "a \<noteq> 0" by (intro notI) simp
qed

lemma sorted_fds_inj:
  assumes "sorted_wrt (<) (map g xs)" and "a \<in> set xs" and "b \<in> set xs" and "g a = (g b :: u32)"
  shows "a = b"
proof -
  have "distinct (map g xs)" using assms(1) by (simp add: strict_sorted_iff)
  then show ?thesis using assms(2-4) by (auto simp: distinct_map dest: inj_onD)
qed

section \<open>Lookup\<close>

lemma find_member: "find P xs = Some x \<Longrightarrow> x \<in> set xs \<and> P x"
  by (induction xs) (auto split: if_splits)


lemma find_key:
  assumes "sorted_wrt (<) (map g xs)" and "a \<in> set xs"
  shows "find (\<lambda>x. g x = (g a :: u32)) xs = Some a"
  using assms
proof (induction xs)
  case (Cons x xs)
  then show ?case using sorted_fds_inj [OF Cons.prems(1), of x a] by (cases "x = a") auto
qed simp

lemma current_filp_cases:
  assumes "fd_table_ok st"
  shows "current_filp fd st = 0 \<and> fds st (ucast fd) = None \<or>
    current_filp fd st \<noteq> 0 \<and> current_filp fd st \<in> set (task_files st) \<and>
    fd_of st (current_filp fd st) = ucast fd \<and> fds st (ucast fd) = Some (open_of st (current_filp fd st))"
proof (cases "find (\<lambda>f. fd_of st f = ucast fd) (task_files st)")
  case None
  then show ?thesis by (simp add: current_filp_def filp_find_def fds_def fd_of_def task_files_def)
next
  case (Some f)
  then have f: "f \<in> set (task_files st)" "fd_of st f = ucast fd" using find_member [OF Some] by simp_all
  then have "f \<noteq> 0" using assms slab_live_nonzero [of st f File_Slab] by (auto simp: fd_table_ok_def)
  moreover have "current_filp fd st = f"
    using Some by (simp add: current_filp_def filp_find_def fd_of_def task_files_def)
  ultimately show ?thesis using Some f by (simp add: fds_def)
qed

lemma fds_eqI:
  assumes "task_files st' = task_files st" and "\<And>f. f \<in> set (task_files st) \<Longrightarrow> filps st' f = filps st f"
  shows "fds st' = fds st"
proof
  fix fd
  have "find (\<lambda>f. fd_of st' f = fd) (task_files st) = find (\<lambda>f. fd_of st f = fd) (task_files st)"
    by (rule find_cong [OF refl]) (simp add: fd_of_def assms(2))
  moreover have "f \<in> set (task_files st) \<Longrightarrow> open_of st' f = open_of st f" for f
    by (simp add: open_of_def assms(2))
  ultimately show "fds st' fd = fds st fd"
    unfolding fds_def assms(1)
    by (cases "find (\<lambda>f. fd_of st f = fd) (task_files st)") (simp_all add: find_member)
qed

section \<open>The operations on the list\<close>

lemma fds_iff:
  assumes "sorted_wrt (<) (map (fd_of st) (task_files st))"
  shows "fds st fd = Some v \<longleftrightarrow> (\<exists>f \<in> set (task_files st). fd_of st f = fd \<and> open_of st f = v)"
proof
  assume "fds st fd = Some v"
  then show "\<exists>f \<in> set (task_files st). fd_of st f = fd \<and> open_of st f = v"
    unfolding fds_def using find_member by fastforce
next
  assume "\<exists>f \<in> set (task_files st). fd_of st f = fd \<and> open_of st f = v"
  then obtain f where "f \<in> set (task_files st)" "fd = fd_of st f" "open_of st f = v" by blast
  then show "fds st fd = Some v" using find_key [OF assms] by (simp add: fds_def)
qed

lemma map_by_entries: "(\<And>k v. m k = Some v \<longleftrightarrow> m' k = Some v) \<Longrightarrow> m = m'"
  by (rule ext) (metis option.exhaust)

lemma sorted_wrt_remove: "sorted_wrt P xs \<Longrightarrow> sorted_wrt P (remove1 x xs)"
  using set_remove1_subset by (induction xs) fastforce+

text \<open>A table whose files are those of another one but for one removed or one added.\<close>

lemma fds_removed:
  assumes "sorted_wrt (<) (map (fd_of st) (task_files st))" and "f \<in> set (task_files st)"
    and "task_files st' = remove1 f (task_files st)" and "filps st' = filps st"
  shows "sorted_wrt (<) (map (fd_of st') (task_files st'))" and "fds st' = (fds st)(fd_of st f := None)"
proof -
  have same: "fd_of st' = fd_of st" "open_of st' = open_of st"
    by (simp_all add: fd_of_def [abs_def] open_of_def [abs_def] assms(4))
  have d: "distinct (task_files st)" using assms(1) by (simp add: strict_sorted_iff distinct_map)
  show s: "sorted_wrt (<) (map (fd_of st') (task_files st'))"
    unfolding same assms(3) using assms(1) by (simp add: sorted_wrt_map) (rule sorted_wrt_remove)
  show "fds st' = (fds st)(fd_of st f := None)"
  proof (rule map_by_entries)
    fix k v
    have "fds st' k = Some v \<longleftrightarrow> (\<exists>g \<in> set (task_files st) - {f}. fd_of st g = k \<and> open_of st g = v)"
      using fds_iff [OF s] d by (simp add: same assms(3))
    also have "\<dots> \<longleftrightarrow> k \<noteq> fd_of st f \<and> fds st k = Some v"
      using fds_iff [OF assms(1)] sorted_fds_inj [OF assms(1) _ assms(2)] by blast
    finally show "fds st' k = Some v \<longleftrightarrow> ((fds st)(fd_of st f := None)) k = Some v" by simp
  qed
qed

lemma fds_added:
  assumes "sorted_wrt (<) (map (fd_of st') (task_files st'))" and "set (task_files st') = insert f (set (task_files st))"
    and "sorted_wrt (<) (map (fd_of st) (task_files st))"
    and "\<And>g. g \<noteq> f \<Longrightarrow> filps st' g = filps st g" and "f \<notin> set (task_files st)"
  shows "fds st' = (fds st)(fd_of st' f \<mapsto> open_of st' f)"
proof (rule map_by_entries)
  fix k v
  have old: "fd_of st' g = fd_of st g" "open_of st' g = open_of st g" if "g \<in> set (task_files st)" for g
  proof -
    have "g \<noteq> f" using that assms(5) by blast
    then show "fd_of st' g = fd_of st g" "open_of st' g = open_of st g" by (simp_all add: fd_of_def open_of_def assms(4))
  qed
  have inj: "g = f" if "g \<in> set (task_files st')" "fd_of st' g = fd_of st' f" for g
    using that sorted_fds_inj [OF assms(1)] assms(2) by blast
  have "fds st' k = Some v \<longleftrightarrow> (\<exists>g \<in> insert f (set (task_files st)). fd_of st' g = k \<and> open_of st' g = v)"
    using fds_iff [OF assms(1)] assms(2) by simp
  also have "\<dots> \<longleftrightarrow> (if k = fd_of st' f then v = open_of st' f else fds st k = Some v)"
  proof (cases "k = fd_of st' f")
    case True
    have "f \<in> set (task_files st')" using assms(2) by simp
    then show ?thesis unfolding assms(2) [symmetric] using True inj by fastforce
  next
    case False
    then show ?thesis using fds_iff [OF assms(3)] old by auto
  qed
  finally show "fds st' k = Some v \<longleftrightarrow> ((fds st)(fd_of st' f \<mapsto> open_of st' f)) k = Some v" by auto
qed

section \<open>The system calls\<close>

lemma fd_table_okD:
  assumes "fd_table_ok st"
  shows "slab_wf st" "set (task_files st) \<subseteq> slab_live File_Slab st" "sorted_wrt (<) (map (fd_of st) (task_files st))"
  using assms by (simp_all add: fd_table_ok_def)

lemma map_if_fresh: "f \<notin> set xs \<Longrightarrow> map (\<lambda>g. if g = f then a else h g) xs = map h xs"
  by (intro map_cong) auto

text \<open>Removing an open file and freeing it.\<close>

lemma release_file:
  assumes "fd_table_ok st" and "f \<in> set (task_files st)"
  shows "\<exists>st'. slab_free File_Slab f (set_files (remove1 f) st) = Inr st' \<and> fd_table_ok st' \<and>
    fds st' = (fds st)(fd_of st f := None) \<and> filps st' = filps st \<and> current_task_ts st' = current_task_ts st"
proof -
  note ok = fd_table_okD [OF assms(1)]
  let ?st1 = "set_files (remove1 f) st"
  have "f \<in> slab_live File_Slab ?st1" using ok(2) assms(2) by auto
  with slab_free_live [of ?st1 f File_Slab] ok(1) obtain st'
    where st': "slab_free File_Slab f ?st1 = Inr st'" "slab_wf st'" "slab_live File_Slab st' = slab_live File_Slab st - {f}"
      "slab_state.more st' = slab_state.more ?st1" by auto
  note more = slab_more_kernel [OF st'(4)]
  have files: "task_files st' = remove1 f (task_files st)" "filps st' = filps st" by (simp_all add: more)
  have "distinct (task_files st)" using ok(3) by (simp add: strict_sorted_iff distinct_map)
  then have "set (task_files st') \<subseteq> slab_live File_Slab st'" using ok(2) st'(3) files by auto
  with fds_removed [OF ok(3) assms(2) files] st'(1,2) files more show ?thesis
    by (intro exI [of _ st']) (simp add: fd_table_ok_def set_files_def upd_task_def)
qed

text \<open>Allocating an open file and putting it in the list.\<close>

lemma insert_file:
  assumes "fd_table_ok st" and "slab_alloc File_Slab st = Inr (st1, f)"
    and "set (place (task_files st)) = insert f (set (task_files st))"
    and "sorted_wrt (<) (map (\<lambda>g. if g = f then f_fd x else fd_of st g) (place (task_files st)))"
  shows "fd_table_ok (set_files place (upd_file f (\<lambda>_. x) st1))"
    and "fds (set_files place (upd_file f (\<lambda>_. x) st1)) = (fds st)(f_fd x \<mapsto> (f_inode x, f_offset x))"
    and "filps (set_files place (upd_file f (\<lambda>_. x) st1)) f = x"
    and "f \<notin> set (task_files st)"
proof -
  note ok = fd_table_okD [OF assms(1)]
  let ?st' = "set_files place (upd_file f (\<lambda>_. x) st1)"
  have step: "slab_wf st1" "f \<notin> slab_live File_Slab st" "slab_live File_Slab st1 = insert f (slab_live File_Slab st)"
    "slab_state.more st1 = slab_state.more st"
    using slab_alloc_step [OF ok(1) assms(2)] by (simp_all add: slab_take_step_def)
  note more = slab_more_kernel [OF step(4)]
  have files: "task_files ?st' = place (task_files st)" by (simp add: more)
  have filps: "filps ?st' = (filps st)(f := x)" by (simp add: more upd_file_def)
  have fd: "fd_of ?st' = (\<lambda>g. if g = f then f_fd x else fd_of st g)" unfolding fd_of_def filps by (rule ext) simp
  show fresh: "f \<notin> set (task_files st)" using step(2) ok(2) by blast
  show "filps ?st' f = x" unfolding filps by simp
  have sorted: "sorted_wrt (<) (map (fd_of ?st') (task_files ?st'))" unfolding files fd by (rule assms(4))
  show "fd_table_ok ?st'"
    unfolding fd_table_ok_def files using step ok(2) assms(3) sorted [unfolded files] by auto
  have "fds ?st' = (fds st)(fd_of ?st' f \<mapsto> open_of ?st' f)"
  proof (rule fds_added [OF sorted _ ok(3) _ fresh])
    show "set (task_files ?st') = insert f (set (task_files st))" unfolding files by (rule assms(3))
    show "filps ?st' g = filps st g" if "g \<noteq> f" for g unfolding filps using that by simp
  qed
  moreover have "open_of ?st' f = (f_inode x, f_offset x)" unfolding open_of_def filps by simp
  ultimately show "fds ?st' = (fds st)(f_fd x \<mapsto> (f_inode x, f_offset x))" by (simp add: fd)
qed

lemma word_less_inc: "x + 1 \<noteq> (0 :: u32) \<Longrightarrow> x < x + 1"
  using unatSuc [of x] by (simp add: word_less_nat_alt add.commute)

text \<open>
  \<^verbatim>\<open>close\<close> removes its descriptor, or returns -1 when there is none; it cannot fail otherwise.
\<close>

lemma sys_close_fds:
  assumes "fd_table_ok st"
  shows "\<exists>st' r. sys_close fd st = Inr (st', r) \<and> fd_table_ok st' \<and> fds st' = (fds st)(ucast fd := None) \<and>
    r = (if fds st (ucast fd) = None then -1 else 0)"
  using current_filp_cases [OF assms, of fd]
proof
  assume "current_filp fd st = 0 \<and> fds st (ucast fd) = None"
  then show ?thesis using assms by (auto simp: sys_close_def fun_upd_idem)
next
  let ?f = "current_filp fd st"
  assume f: "?f \<noteq> 0 \<and> ?f \<in> set (task_files st) \<and> fd_of st ?f = ucast fd \<and> fds st (ucast fd) = Some (open_of st ?f)"
  with release_file [OF assms, of ?f] obtain st' where "slab_free File_Slab ?f (set_files (remove1 ?f) st) = Inr st'"
    "fd_table_ok st'" "fds st' = (fds st)(ucast fd := None)" by auto
  with f show ?thesis by (simp add: sys_close_def)
qed

text \<open>The part of \<^verbatim>\<open>open\<close> that makes the descriptor: the number after the last one.\<close>

definition next_fd :: "'z kernel_state_scheme \<Rightarrow> u32" where
  "next_fd st = (if task_files st = [] then 0 else fd_of st (last (task_files st)) + 1)"

lemma open_filp_fds:
  assumes "fd_table_ok st" and "task_files st = [] \<or> next_fd st \<noteq> 0"
  shows "case open_filp inode st of Inl e \<Rightarrow> e = Panic ''Out of physical memory''
    | Inr (st', filp) \<Rightarrow> fd_table_ok st' \<and> filp \<in> set (task_files st') \<and> f_fd (filps st' filp) = next_fd st \<and>
        fds st (next_fd st) = None \<and> fds st' = (fds st)(next_fd st \<mapsto> (inode, 0))"
proof (cases "slab_alloc File_Slab st")
  case (Inl e)
  with slab_alloc_error [OF fd_table_okD(1) [OF assms(1)]] show ?thesis by (simp add: open_filp_def)
next
  case (Inr r)
  obtain st1 f where r: "r = (st1, f)" by force
  note ok = fd_table_okD [OF assms(1)]
  note more = slab_more_kernel [OF slab_alloc_step [OF ok(1) Inr [unfolded r], unfolded slab_take_step_def, THEN conjunct2, THEN conjunct2, THEN conjunct2, THEN conjunct2]]
  let ?x = "\<lparr>f_fd = next_fd st, f_inode = inode, f_offset = 0\<rparr>"
  let ?st' = "set_files (\<lambda>fs. fs @ [f]) (upd_file f (\<lambda>_. ?x) st1)"
  have fresh: "f \<notin> set (task_files st)" using slab.alloc_fresh [OF ok(1) Inr [unfolded r]] ok(2) by blast
  have below: "fd_of st g < next_fd st" if "g \<in> set (task_files st)" for g
  proof -
    have ne: "task_files st \<noteq> []" using that by auto
    then have split: "task_files st = butlast (task_files st) @ [last (task_files st)]" by simp
    have "fd_of st g \<le> fd_of st (last (task_files st))"
    proof (cases "g = last (task_files st)")
      case False
      with that have "g \<in> set (butlast (task_files st))" by (metis append_butlast_last_id ne rotate1.simps(2) set_ConsD set_rotate1)
      moreover have "sorted_wrt (<) (map (fd_of st) (butlast (task_files st)) @ [fd_of st (last (task_files st))])"
        using ok(3) split by (metis (no_types, lifting) list.simps(8) list.simps(9) map_append)
      ultimately show ?thesis by (auto simp: sorted_wrt_append)
    qed simp
    also have "\<dots> < next_fd st"
      using assms(2) ne word_less_inc [of "fd_of st (last (task_files st))"] by (simp add: next_fd_def)
    finally show ?thesis .
  qed
  have sorted: "sorted_wrt (<) (map (\<lambda>g. if g = f then f_fd ?x else fd_of st g) (task_files st @ [f]))"
    using ok(3) below by (auto simp: map_if_fresh [OF fresh] sorted_wrt_append)
  note ins = insert_file [OF assms(1) Inr [unfolded r], of "\<lambda>fs. fs @ [f]" ?x, OF _ sorted]
  have "open_filp inode st = Inr (?st', f)"
    by (simp add: open_filp_def Inr r Let_def next_fd_def fd_of_def more task_files_def [symmetric])
  moreover have "fds st (next_fd st) = None"
    using fds_iff [OF ok(3)] below by (metis not_Some_eq order_less_irrefl)
  ultimately show ?thesis using ins by simp
qed

text \<open>
  \<^verbatim>\<open>dup2\<close>: the place of the new object is before the first descriptor that is greater, or at the end.
\<close>

lemma find_split:
  "find P xs = Some n \<Longrightarrow> \<exists>ys zs. xs = ys @ n # zs \<and> P n \<and> (\<forall>y \<in> set ys. \<not> P y)"
proof (induction xs)
  case (Cons x xs)
  show ?case
  proof (cases "P x")
    case True
    with Cons.prems show ?thesis by (intro exI [of _ "[]"] exI [of _ xs]) simp
  next
    case False
    with Cons obtain ys zs where "xs = ys @ n # zs" "P n" "\<forall>y \<in> set ys. \<not> P y" by auto
    with False show ?thesis by (intro exI [of _ "x # ys"] exI [of _ zs]) simp
  qed
qed simp

definition dup_place :: "u64 \<Rightarrow> u64 \<Rightarrow> u64 list \<Rightarrow> u64 list" where
  "dup_place new_filp next_filp =
     (if next_filp = 0 then (\<lambda>fs. fs @ [new_filp]) else insert_before new_filp next_filp)"

lemma dup_place_sorted:
  assumes "fd_table_ok st" and "fds st k = None" and "f \<notin> set (task_files st)"
  defines "place \<equiv> dup_place f (filp_insert_point_find (task_files st) k st)"
  shows "set (place (task_files st)) = insert f (set (task_files st))"
    and "sorted_wrt (<) (map (\<lambda>g. if g = f then k else fd_of st g) (place (task_files st)))"
proof -
  note ok = fd_table_okD [OF assms(1)]
  have none: "fd_of st g \<noteq> k" if "g \<in> set (task_files st)" for g
    using that assms(2) fds_iff [OF ok(3), of k] by fastforce
  have "set (place (task_files st)) = insert f (set (task_files st)) \<and>
    sorted_wrt (<) (map (\<lambda>g. if g = f then k else fd_of st g) (place (task_files st)))"
  proof (cases "find (\<lambda>g. f_fd (filps st g) > k) (task_files st)")
    case None
    then have "fd_of st g < k" if "g \<in> set (task_files st)" for g
      using that none by (force simp: find_None_iff fd_of_def)
    with None ok(3) show ?thesis
      by (simp add: place_def dup_place_def filp_insert_point_find_def map_if_fresh [OF assms(3)] sorted_wrt_append)
  next
    case (Some n)
    from find_split [OF Some] obtain ys zs where split: "task_files st = ys @ n # zs"
      and n: "k < fd_of st n" and ys: "\<forall>y \<in> set ys. \<not> k < fd_of st y" by (auto simp: fd_of_def)
    have "n \<noteq> 0" using split ok(1,2) slab_live_nonzero [of st n File_Slab] by auto
    then have place: "place (task_files st) = insert_before f n (task_files st)"
      by (simp add: place_def dup_place_def filp_insert_point_find_def Some)
    have d: "distinct (task_files st)" using ok(3) by (simp add: strict_sorted_iff distinct_map)
    then have "takeWhile (\<lambda>g. g \<noteq> n) (task_files st) = ys" "dropWhile (\<lambda>g. g \<noteq> n) (task_files st) = n # zs"
      using split by (auto simp: takeWhile_append takeWhile_eq_all_conv dropWhile_append)
    then have at: "place (task_files st) = ys @ f # n # zs" unfolding place insert_before_def by simp
    have fresh: "f \<notin> set ys" "f \<notin> set (n # zs)" using assms(3) split by auto
    have s: "sorted_wrt (<) (map (fd_of st) ys @ map (fd_of st) (n # zs))" using ok(3) split by simp
    have less: "\<forall>y \<in> set ys. fd_of st y < k" using ys none split by force
    have greater: "\<forall>z \<in> set (n # zs). k < fd_of st z" using s n by (auto simp: sorted_wrt_append)
    have keys: "map (\<lambda>g. if g = f then k else fd_of st g) (place (task_files st)) =
        map (fd_of st) ys @ k # map (fd_of st) (n # zs)"
      unfolding at using fresh by auto
    have "sorted_wrt (<) (map (fd_of st) ys @ k # map (fd_of st) (n # zs))"
      using s less greater by (auto simp: sorted_wrt_append)
    then have "sorted_wrt (<) (map (\<lambda>g. if g = f then k else fd_of st g) (place (task_files st)))" unfolding keys .
    moreover have "set (place (task_files st)) = insert f (set (task_files st))" unfolding at by (auto simp: split)
    ultimately show ?thesis by (rule conjI [rotated])
  qed
  then show "set (place (task_files st)) = insert f (set (task_files st))"
    "sorted_wrt (<) (map (\<lambda>g. if g = f then k else fd_of st g) (place (task_files st)))" by blast+
qed

lemma dup2_tail:
  assumes "fd_table_ok st" and "fds st (ucast new_fd) = None"
  shows "case slab_alloc File_Slab st of Inl e \<Rightarrow> e = Panic ''Out of physical memory''
    | Inr (st2, new_filp) \<Rightarrow>
        let st3 = upd_file new_filp (\<lambda>f. f\<lparr>f_fd := ucast new_fd\<rparr>) st2;
            st4 = upd_file new_filp (\<lambda>f. f\<lparr>f_inode := f_inode (filps st3 old_filp)\<rparr>) st3;
            st5 = upd_file new_filp (\<lambda>f. f\<lparr>f_offset := f_offset (filps st4 old_filp)\<rparr>) st4;
            st6 = set_files (dup_place new_filp (filp_insert_point_find (task_files st) (ucast new_fd) st)) st5
        in fd_table_ok st6 \<and> fds st6 = (fds st)(ucast new_fd \<mapsto> open_of st old_filp) \<and>
           f_fd (filps st5 new_filp) = ucast new_fd"
proof (cases "slab_alloc File_Slab st")
  case (Inl e)
  with slab_alloc_error [OF fd_table_okD(1) [OF assms(1)]] show ?thesis by simp
next
  case (Inr r)
  obtain st2 f where r: "r = (st2, f)" by force
  note ok = fd_table_okD [OF assms(1)]
  have m: "slab_state.more st2 = slab_state.more st"
    using slab_alloc_step [OF ok(1) Inr [unfolded r]] by (simp add: slab_take_step_def)
  note more = slab_more_kernel [OF m]
  let ?x = "\<lparr>f_fd = ucast new_fd, f_inode = f_inode (filps st old_filp), f_offset = f_offset (filps st old_filp)\<rparr>"
  define st3 where "st3 = upd_file f (\<lambda>x. x\<lparr>f_fd := ucast new_fd\<rparr>) st2"
  define st4 where "st4 = upd_file f (\<lambda>x. x\<lparr>f_inode := f_inode (filps st3 old_filp)\<rparr>) st3"
  define st5 where "st5 = upd_file f (\<lambda>x. x\<lparr>f_offset := f_offset (filps st4 old_filp)\<rparr>) st4"
  have st5: "st5 = upd_file f (\<lambda>_. ?x) st2"
    unfolding st5_def st4_def st3_def by (cases "filps st f") (simp add: upd_file_def more)
  have fresh: "f \<notin> set (task_files st)" using slab.alloc_fresh [OF ok(1) Inr [unfolded r]] ok(2) by blast
  note place = dup_place_sorted [OF assms fresh]
  have key: "f_fd ?x = ucast new_fd" by simp
  note ins = insert_file [where x = ?x and place = "dup_place f (filp_insert_point_find (task_files st) (ucast new_fd) st)",
      OF assms(1) Inr [unfolded r] place(1), unfolded key, OF place(2)]
  have "f_fd (filps st5 f) = ucast new_fd" by (simp add: st5 upd_file_def)
  with ins show ?thesis
    unfolding Inr r st3_def [symmetric] st4_def [symmetric] st5_def [symmetric] Let_def prod.case sum.case
    unfolding st5 by (simp add: open_of_def)
qed

lemma sys_dup2_fds:
  assumes "fd_table_ok st"
  shows "case sys_dup2 old_fd new_fd st of Inl e \<Rightarrow> e = Panic ''Out of physical memory''
    | Inr (st', r) \<Rightarrow> fd_table_ok st' \<and>
        (case fds st (ucast old_fd) of
           None \<Rightarrow> r = -1 \<and> fds st' = fds st
         | Some x \<Rightarrow> r = ucast (ucast new_fd :: u32) \<and> fds st' = (fds st)(ucast new_fd \<mapsto> x))"
proof (cases "fds st (ucast old_fd)")
  case None
  then have "current_filp old_fd st = 0" using current_filp_cases [OF assms, of old_fd] by auto
  with None assms show ?thesis by (simp add: sys_dup2_def)
next
  case (Some x)
  define old_filp where "old_filp = current_filp old_fd st"
  have old: "old_filp \<noteq> 0" "open_of st old_filp = x"
    using current_filp_cases [OF assms, of old_fd] Some by (auto simp: old_filp_def)
  define closing where "closing = current_filp new_fd st"
  have "\<exists>st1. (if closing \<noteq> 0 then slab_free File_Slab closing (set_files (remove1 closing) st) else Inr st) = Inr st1 \<and>
      fd_table_ok st1 \<and> fds st1 = (fds st)(ucast new_fd := None) \<and> filps st1 = filps st"
    using current_filp_cases [OF assms, of new_fd, folded closing_def]
  proof
    assume "closing = 0 \<and> fds st (ucast new_fd) = None"
    then show ?thesis using assms by (auto simp: fun_upd_idem)
  next
    assume "closing \<noteq> 0 \<and> closing \<in> set (task_files st) \<and> fd_of st closing = ucast new_fd \<and>
      fds st (ucast new_fd) = Some (open_of st closing)"
    with release_file [OF assms, of closing] show ?thesis by auto
  qed
  then obtain st1 where st1: "(if closing \<noteq> 0 then slab_free File_Slab closing (set_files (remove1 closing) st) else Inr st) = Inr st1"
    "fd_table_ok st1" "fds st1 = (fds st)(ucast new_fd := None)" "filps st1 = filps st" by blast
  have "open_of st1 old_filp = x" using old(2) st1(4) by (simp add: open_of_def)
  with dup2_tail [OF st1(2), of new_fd old_filp] st1(3) old(1) Some show ?thesis
    by (cases "slab_alloc File_Slab st1")
      (auto simp: sys_dup2_def Let_def st1(1) dup_place_def task_files_def [symmetric]
        simp flip: old_filp_def closing_def)
qed

section \<open>The objects of the table\<close>

text \<open>
  What holds of the table even when the descriptors have wrapped around: its objects are distinct live objects.
\<close>

definition fd_objects_ok :: "'z kernel_state_scheme \<Rightarrow> bool" where
  "fd_objects_ok st \<longleftrightarrow> slab_wf st \<and> set (task_files st) \<subseteq> slab_live File_Slab st \<and> distinct (task_files st)"

lemma fd_objects_okD:
  assumes "fd_objects_ok st"
  shows "slab_wf st" "set (task_files st) \<subseteq> slab_live File_Slab st" "distinct (task_files st)"
  using assms by (simp_all add: fd_objects_ok_def)

lemma fd_table_objects: "fd_table_ok st \<Longrightarrow> fd_objects_ok st"
  by (simp add: fd_table_ok_def fd_objects_ok_def strict_sorted_iff distinct_map)

lemma fd_objects_upd_file [simp]: "fd_objects_ok (upd_file a f st) = fd_objects_ok st"
  by (simp add: fd_objects_ok_def)

lemma current_filp_member: "current_filp fd st \<noteq> 0 \<Longrightarrow> current_filp fd st \<in> set (task_files st)"
  using find_member [of "\<lambda>f. f_fd (filps st f) = ucast fd" "task_files st"]
  by (auto simp: current_filp_def filp_find_def task_files_def [symmetric] split: option.splits)

lemma release_objects:
  assumes "fd_objects_ok st" and "f \<in> set (task_files st)" and "slab_free File_Slab f (set_files (remove1 f) st) = Inr st'"
  shows "fd_objects_ok st'"
proof -
  note ok = fd_objects_okD [OF assms(1)]
  let ?st1 = "set_files (remove1 f) st"
  have "f \<in> slab_live File_Slab ?st1" using ok(2) assms(2) by auto
  with slab_free_live [of ?st1 f File_Slab] ok(1) assms(3)
  have st': "slab_wf st'" "slab_live File_Slab st' = slab_live File_Slab st - {f}"
    "slab_state.more st' = slab_state.more ?st1" by auto
  have "task_files st' = remove1 f (task_files st)" by (simp add: slab_more_kernel [OF st'(3)])
  then show ?thesis using st'(1,2) ok by (auto simp: fd_objects_ok_def)
qed

lemma insert_objects:
  assumes "fd_objects_ok st" and "slab_alloc File_Slab st = Inr (st1, f)"
    and "set (place (task_files st)) = insert f (set (task_files st))" and "f \<notin> set (task_files st) \<Longrightarrow> distinct (place (task_files st))"
  shows "fd_objects_ok (set_files place st1)"
proof -
  note ok = fd_objects_okD [OF assms(1)]
  note t = slab_alloc_step [OF ok(1) assms(2), unfolded slab_take_step_def]
  have more: "slab_state.more st1 = slab_state.more st" using t by blast
  have "f \<notin> set (task_files st)" using t ok(2) by blast
  then show ?thesis using t ok(2) assms(3,4) by (auto simp: fd_objects_ok_def slab_more_kernel [OF more])
qed

lemma dup_place_objects:
  "set (dup_place f n fs) = insert f (set fs)" "distinct fs \<Longrightarrow> f \<notin> set fs \<Longrightarrow> distinct (dup_place f n fs)"
proof -
  let ?P = "\<lambda>g. g \<noteq> n"
  have split: "fs = takeWhile ?P fs @ dropWhile ?P fs" by simp
  have sets: "set fs = set (takeWhile ?P fs) \<union> set (dropWhile ?P fs)" by (subst split) (simp only: set_append)
  then show "set (dup_place f n fs) = insert f (set fs)" by (auto simp: dup_place_def insert_before_def)
  assume "distinct fs" "f \<notin> set fs"
  then have "distinct (takeWhile ?P fs @ dropWhile ?P fs)" by simp
  then have "set (takeWhile ?P fs) \<inter> set (dropWhile ?P fs) = {}" by (simp only: distinct_append)
  with \<open>distinct fs\<close> \<open>f \<notin> set fs\<close> sets show "distinct (dup_place f n fs)"
    by (cases "n = 0") (simp_all add: dup_place_def insert_before_def [abs_def])
qed

lemma open_filp_objects:
  assumes "fd_objects_ok st" and "open_filp inode st = Inr (st', filp)"
  shows "fd_objects_ok st'"
proof -
  obtain st1 x where a: "slab_alloc File_Slab st = Inr (st1, filp)"
    and st': "st' = set_files (\<lambda>fs. fs @ [filp]) (upd_file filp (\<lambda>_. x) st1)"
    using assms(2) by (auto simp: open_filp_def res_bind_eq_Inr Let_def)
  have "fd_objects_ok (set_files (\<lambda>fs. fs @ [filp]) st1)"
    by (rule insert_objects [OF assms(1) a]) (use fd_objects_okD(3) [OF assms(1)] in auto)
  then show ?thesis by (simp add: st' fd_objects_ok_def)
qed

lemma sys_close_objects:
  assumes "fd_objects_ok st" and "sys_close fd st = Inr (st', r)"
  shows "fd_objects_ok st'"
  using assms release_objects [OF assms(1) current_filp_member]
  by (auto simp: sys_close_def Let_def res_bind_eq_Inr split: if_splits)

lemma sys_dup2_objects:
  assumes "fd_objects_ok st" and "sys_dup2 old_fd new_fd st = Inr (st', r)"
  shows "fd_objects_ok st'"
proof (cases "current_filp old_fd st = 0")
  case True
  with assms show ?thesis by (simp add: sys_dup2_def)
next
  case False
  define closing where "closing = current_filp new_fd st"
  obtain st1 st2 f n g where close: "(if closing \<noteq> 0 then slab_free File_Slab closing (set_files (remove1 closing) st) else Inr st) = Inr st1"
    and a: "slab_alloc File_Slab st1 = Inr (st2, f)"
    and st': "st' = set_files (dup_place f n) (upd_file f g st2)"
  proof -
    from assms(2) False obtain st1 st2 f where *:
      "(if closing \<noteq> 0 then slab_free File_Slab closing (set_files (remove1 closing) st) else Inr st) = Inr st1"
      "slab_alloc File_Slab st1 = Inr (st2, f)"
      and e: "(let next_filp = filp_insert_point_find (files_lh (current st1)) (ucast new_fd) st1;
            st3 = upd_file f (\<lambda>f. f\<lparr>f_fd := ucast new_fd\<rparr>) st2;
            st4 = upd_file f (\<lambda>x. x\<lparr>f_inode := f_inode (filps st3 (current_filp old_fd st))\<rparr>) st3;
            st5 = upd_file f (\<lambda>x. x\<lparr>f_offset := f_offset (filps st4 (current_filp old_fd st))\<rparr>) st4
        in set_files (if next_filp = 0 then (\<lambda>fs. fs @ [f]) else insert_before f next_filp) st5) = st'"
      unfolding sys_dup2_def closing_def by (auto simp: Let_def res_bind_eq_Inr)
    have three: "upd_file f c (upd_file f b (upd_file f a s)) = upd_file f (c \<circ> b \<circ> a) s" for a b c and s :: "'a kernel_state_scheme"
      by (simp add: upd_file_def)
    have "\<exists>n g. st' = set_files (dup_place f n) (upd_file f g st2)"
      unfolding e [symmetric] Let_def three dup_place_def [symmetric] by (intro exI) (rule refl)
    with that [OF *] show thesis by blast
  qed
  have ok1: "fd_objects_ok st1"
    using close assms(1) release_objects [OF assms(1) current_filp_member] by (auto simp: closing_def split: if_splits)
  have "fd_objects_ok (set_files (dup_place f n) st2)"
    by (rule insert_objects [OF ok1 a]) (use fd_objects_okD(3) [OF ok1] dup_place_objects in auto)
  then show ?thesis by (simp add: st' fd_objects_ok_def)
qed

lemma sys_lseek_cases:
  assumes "sys_lseek fd offset whence st = Inr (st', r)"
  shows "st' = st \<or> (\<exists>f. st' = upd_file f (\<lambda>x. x\<lparr>f_offset := offset\<rparr>) st)"
  using assms by (auto simp: sys_lseek_def Let_def split: if_splits)

lemma fd_table_upd_offset [simp]: "fd_table_ok (upd_file f (\<lambda>x. x\<lparr>f_offset := offset\<rparr>) st) = fd_table_ok st"
proof -
  have "fd_of (upd_file f (\<lambda>x. x\<lparr>f_offset := offset\<rparr>) st) = fd_of st"
    by (rule ext) (simp add: fd_of_def upd_file_def)
  then show ?thesis by (simp add: fd_table_ok_def)
qed

section \<open>Properties\<close>

text \<open>
  Something else happens in the kernel: the task keeps its file objects with their descriptors; their offsets, other tasks,
  the file systems, pages and other slabs may change.
\<close>

definition files_kept :: "'z kernel_state_scheme \<Rightarrow> 'z kernel_state_scheme \<Rightarrow> bool" where
  "files_kept st st' \<longleftrightarrow> slab_wf st' \<and> slab_live File_Slab st' = slab_live File_Slab st \<and>
     task_files st' = task_files st \<and> (\<forall>f \<in> set (task_files st). fd_of st' f = fd_of st f)"

lemma files_same_kept: "files_same st st' \<Longrightarrow> files_kept st st'"
  using files_sameD [of st st'] by (simp add: files_kept_def)

lemma files_kept_objects: "files_kept st st' \<Longrightarrow> fd_objects_ok st \<Longrightarrow> fd_objects_ok st'"
  by (simp add: files_kept_def fd_objects_ok_def)

lemma files_kept_table:
  assumes "files_kept st st'" and "fd_table_ok st"
  shows "fd_table_ok st'"
proof -
  have "map (fd_of st') (task_files st) = map (fd_of st) (task_files st)" using assms(1) by (simp add: files_kept_def)
  then have "sorted_wrt (<) (map (fd_of st') (task_files st))" using assms(2) by (simp only: fd_table_ok_def)
  then show ?thesis using assms by (simp add: files_kept_def fd_table_ok_def)
qed

definition last_fd_greatest :: "'z kernel_state_scheme \<Rightarrow> bool" where
  "last_fd_greatest st \<longleftrightarrow> task_files st \<noteq> [] \<and> next_fd st = 0"

lemma sys_open_table:
  assumes "fd_objects_ok st" and "loaded_tree D st" and "tree_files_wf D st" and "sys_open devs path_arg flags st = Inr (st', r)"
  shows "fd_objects_ok st'" and "\<not> last_fd_greatest st \<Longrightarrow> fd_table_ok st \<Longrightarrow> fd_table_ok st'"
proof -
  have "fd_objects_ok st' \<and> (\<not> last_fd_greatest st \<longrightarrow> fd_table_ok st \<longrightarrow> fd_table_ok st')"
    using fd_objects_okD(1) [OF assms(1)] assms(2-4)
  proof (rule sys_open_cases)
    assume "files_same st st'"
    then have "files_kept st st'" by (rule files_same_kept)
    then show ?thesis using files_kept_objects files_kept_table assms(1) by blast
  next
    fix st1 inode st2 filp
    assume before: "files_same st st1" and o: "open_filp inode st1 = Inr (st2, filp)" and after: "files_same st2 st'"
    note k1 = files_same_kept [OF before] and k2 = files_same_kept [OF after]
    have 1: "fd_objects_ok st1" by (rule files_kept_objects [OF k1 assms(1)])
    have "fd_objects_ok st'" by (rule files_kept_objects [OF k2 open_filp_objects [OF 1 o]])
    moreover have "fd_table_ok st'" if n: "\<not> last_fd_greatest st" and t: "fd_table_ok st"
    proof -
      have t1: "fd_table_ok st1" by (rule files_kept_table [OF k1 t])
      have "task_files st1 = [] \<or> next_fd st1 \<noteq> 0"
        using n files_sameD(4,5) [OF before] by (auto simp: last_fd_greatest_def next_fd_def)
      from open_filp_fds [OF t1 this, of inode] have "fd_table_ok st2" by (simp add: o)
      then show ?thesis by (rule files_kept_table [OF k2])
    qed
    ultimately show ?thesis by blast
  qed
  then show "fd_objects_ok st'" and "\<not> last_fd_greatest st \<Longrightarrow> fd_table_ok st \<Longrightarrow> fd_table_ok st'" by blast+
qed

text \<open>
  A task's life with its table: calls of open, close, dup2 and lseek that return, and in between whatever keeps its
  files. When \<^verbatim>\<open>open\<close> is called, the directories of the tree are loaded and its ramfs files well formed. The flag tells
  whether \<^verbatim>\<open>open\<close> was called at a time when the last descriptor was the greatest number.
\<close>

inductive fd_run :: "'z kernel_state_scheme \<Rightarrow> bool \<Rightarrow> 'z kernel_state_scheme \<Rightarrow> bool" for st0 :: "'z kernel_state_scheme" where
  run_start: "fd_run st0 False st0"
| run_open: "fd_run st0 w st \<Longrightarrow> loaded_tree D st \<Longrightarrow> tree_files_wf D st \<Longrightarrow>
    sys_open devs path_arg flags st = Inr (st', r) \<Longrightarrow> fd_run st0 (w \<or> last_fd_greatest st) st'"
| run_close: "fd_run st0 w st \<Longrightarrow> sys_close fd st = Inr (st', r) \<Longrightarrow> fd_run st0 w st'"
| run_dup2: "fd_run st0 w st \<Longrightarrow> sys_dup2 old_fd new_fd st = Inr (st', r) \<Longrightarrow> fd_run st0 w st'"
| run_lseek: "fd_run st0 w st \<Longrightarrow> sys_lseek fd offset whence st = Inr (st', r) \<Longrightarrow> fd_run st0 w st'"
| run_other: "fd_run st0 w st \<Longrightarrow> files_kept st st' \<Longrightarrow> fd_run st0 w st'"

lemma fd_run_ok:
  assumes "fd_run st0 w st" and "fd_table_ok st0"
  shows "fd_objects_ok st \<and> (w \<or> fd_table_ok st)"
  using assms(1)
proof (induction rule: fd_run.induct)
  case run_start
  then show ?case using assms(2) fd_table_objects by blast
next
  case (run_open w st D devs path_arg flags st' r)
  then show ?case using sys_open_table [of st D devs path_arg flags st' r] by blast
next
  case (run_close w st fd st' r)
  have "fd_table_ok st'" if "fd_table_ok st"
    using sys_close_fds [OF that, of fd] run_close.hyps(2) by auto
  then show ?case using run_close sys_close_objects by blast
next
  case (run_dup2 w st old_fd new_fd st' r)
  have "fd_table_ok st'" if "fd_table_ok st"
    using sys_dup2_fds [OF that, where old_fd = old_fd and new_fd = new_fd] run_dup2.hyps(2) by simp
  then show ?case using run_dup2 sys_dup2_objects by blast
next
  case (run_lseek w st fd offset whence st' r)
  with sys_lseek_cases [OF run_lseek.hyps(2)] show ?case by auto
next
  case (run_other w st st')
  then show ?case using files_kept_objects files_kept_table by blast
qed

text \<open>
  C11: In every state that a task reaches by calls of open, close, dup2 and lseek, and by anything in between that keeps
  its files, the objects of its table are distinct and live. Unless \<^verbatim>\<open>open\<close> has been called when the last descriptor was
  the greatest number, the descriptors ascend, so that each number finds one file object.
\<close>

theorem fd_table_invariant:
  assumes "fd_run st0 w st" and "fd_table_ok st0"
  shows "slab_wf st \<and> set (task_files st) \<subseteq> slab_live File_Slab st \<and> distinct (task_files st) \<and>
    (w \<or> sorted_wrt (<) (map (fd_of st) (task_files st)))"
  using fd_run_ok [OF assms] by (auto simp: fd_objects_ok_def fd_table_ok_def)

text \<open>
  C12: What the calls do to the table, as a map from descriptors to an inode and an offset: open adds an unused
  descriptor for the inode at offset 0, close removes its descriptor or returns -1 when it is not open, and
  dup2 makes the new descriptor what the old one is, whatever it was before, or returns -1. The only
  failure is running out of memory.
\<close>

theorem fd_calls_refine:
  assumes "fd_table_ok st"
  shows "(if task_files st = [] \<or> next_fd st \<noteq> 0
     then case open_filp inode st of Inl e \<Rightarrow> e = Panic ''Out of physical memory''
      | Inr (st', filp) \<Rightarrow> f_fd (filps st' filp) = next_fd st \<and> fds st (next_fd st) = None \<and>
          fds st' = (fds st)(next_fd st \<mapsto> (inode, 0))
     else next_fd st = 0) \<and>
    (case sys_close fd st of Inl e \<Rightarrow> False
      | Inr (st', r) \<Rightarrow> fds st' = (fds st)(ucast fd := None) \<and> r = (if fds st (ucast fd) = None then -1 else 0)) \<and>
    (case sys_dup2 old_fd new_fd st of Inl e \<Rightarrow> e = Panic ''Out of physical memory''
      | Inr (st', r) \<Rightarrow> (case fds st (ucast old_fd) of None \<Rightarrow> r = -1 \<and> fds st' = fds st
          | Some x \<Rightarrow> r = ucast (ucast new_fd :: u32) \<and> fds st' = (fds st)(ucast new_fd \<mapsto> x)))"
  using open_filp_fds [OF assms, of inode] sys_close_fds [OF assms, of fd]
    sys_dup2_fds [OF assms, where old_fd = old_fd and new_fd = new_fd]
  by (auto split: sum.splits option.splits)


section \<open>Example\<close>

text \<open>A task with two open files, the second with the descriptor \<open>k\<close>.\<close>

definition demo_fds :: "u32 \<Rightarrow> kernel_state" where
  "demo_fds k = set_files (\<lambda>_. [0x22030, 0x22058])
     (upd_file 0x22058 (\<lambda>_. \<lparr>f_fd = k, f_inode = 9, f_offset = 0\<rparr>)
       (upd_file 0x22030 (\<lambda>_. \<lparr>f_fd = 0, f_inode = 7, f_offset = 3\<rparr>) demo_kernel))"

lemma demo_kernel_slab: "slab_wf demo_kernel" "slab_live sid demo_kernel = slab_live sid (demo_slab File_Slab)"
proof -
  have "slab_state.truncate demo_kernel = demo_slab File_Slab"
    unfolding demo_device_truncate [of File_Slab, symmetric]
    by (simp add: demo_kernel_def slab_state.truncate_def kernel_state.defs fs_state.defs device_state.defs)
  then show "slab_wf demo_kernel" "slab_live sid demo_kernel = slab_live sid (demo_slab File_Slab)"
    by (subst slab_wf_truncate slab_live_truncate; simp add: demo_slab_wf)+
qed

lemma demo_fds_facts:
  "task_files (demo_fds k) = [0x22030, 0x22058]" "fd_of (demo_fds k) 0x22030 = 0" "fd_of (demo_fds k) 0x22058 = k"
  "open_of (demo_fds k) 0x22030 = (7, 3)" "open_of (demo_fds k) 0x22058 = (9, 0)"
  by (simp_all add: demo_fds_def fd_of_def open_of_def) (simp_all add: upd_file_def)

lemma demo_fds_ok:
  assumes "0 < k"
  shows "fd_table_ok (demo_fds k)"
proof -
  have "0x22030 \<in> slab_live File_Slab (demo_slab File_Slab)" "0x22058 \<in> slab_live File_Slab (demo_slab File_Slab)"
    using demo_slab_live [of 0 File_Slab] demo_slab_live [of 1 File_Slab] by (simp_all add: slot_addr_def)
  then show ?thesis
    using assms by (simp add: fd_table_ok_def demo_fds_facts) (simp add: demo_fds_def demo_kernel_slab)
qed

lemma fd_table_invariant_witness:
  "let st = (case sys_close 0 (demo_fds 4) of Inr (st, r) \<Rightarrow> st | Inl e \<Rightarrow> demo_fds 4) in
   slab_wf st \<and> set (task_files st) \<subseteq> slab_live File_Slab st \<and> distinct (task_files st) \<and>
    (False \<or> sorted_wrt (<) (map (fd_of st) (task_files st)))"
  unfolding Let_def
proof (rule fd_table_invariant [of "demo_fds 4"])
  show "fd_run (demo_fds 4) False (case sys_close 0 (demo_fds 4) of Inr (st, r) \<Rightarrow> st | Inl e \<Rightarrow> demo_fds 4)"
    by (auto split: sum.split intro: run_start run_close [OF run_start])
qed (simp add: demo_fds_ok)

lemma fd_calls_refine_witness:
  "(if task_files (demo_fds 4) = [] \<or> next_fd (demo_fds 4) \<noteq> 0
     then case open_filp 11 (demo_fds 4) of Inl e \<Rightarrow> e = Panic ''Out of physical memory''
      | Inr (st', filp) \<Rightarrow> f_fd (filps st' filp) = next_fd (demo_fds 4) \<and> fds (demo_fds 4) (next_fd (demo_fds 4)) = None \<and>
          fds st' = (fds (demo_fds 4))(next_fd (demo_fds 4) \<mapsto> (11, 0))
     else next_fd (demo_fds 4) = 0) \<and>
    (case sys_close 4 (demo_fds 4) of Inl e \<Rightarrow> False
      | Inr (st', r) \<Rightarrow> fds st' = (fds (demo_fds 4))(ucast (4 :: u64) := None) \<and>
          r = (if fds (demo_fds 4) (ucast (4 :: u64)) = None then -1 else 0)) \<and>
    (case sys_dup2 0 2 (demo_fds 4) of Inl e \<Rightarrow> e = Panic ''Out of physical memory''
      | Inr (st', r) \<Rightarrow> (case fds (demo_fds 4) (ucast (0 :: u64)) of None \<Rightarrow> r = -1 \<and> fds st' = fds (demo_fds 4)
          | Some x \<Rightarrow> r = ucast (ucast (2 :: u64) :: u32) \<and> fds st' = (fds (demo_fds 4))(ucast (2 :: u64) \<mapsto> x)))"
  by (rule fd_calls_refine [OF demo_fds_ok]) simp


end
