(* ===== verification/Waiting.thy ===== *)
theory Waiting
  imports Syscall Sched
begin

text \<open>
  The calls that wait: \<^verbatim>\<open>sleep\<close> counts timer ticks of 10 ms and is woken at the first return of control
  at which enough have passed.
\<close>

section \<open>Waiting for a condition\<close>

lemma yield_until_cases:
  "case yield_until P yields st of
     Inl e \<Rightarrow> \<exists>k. res_fold (\<lambda>y. y) (take k yields) st = Inl e
   | Inr (st', ended) \<Rightarrow> ended = P st' \<and> (if ended then True else res_fold (\<lambda>y. y) yields st = Inr st')"
proof (induction yields arbitrary: st)
  case Nil
  then show ?case by simp
next
  case (Cons y ys)
  show ?case
  proof (cases "P st")
    case True
    then show ?thesis by simp
  next
    case False
    show ?thesis
    proof (cases "y st")
      case (Inl e)
      with False show ?thesis by (auto intro: exI [of _ 1])
    next
      case (Inr st1)
      have "\<exists>k. res_fold (\<lambda>y. y) (take k (y # ys)) st = Inl e" if "res_fold (\<lambda>y. y) (take k ys) st1 = Inl e" for k e
        using that Inr by (intro exI [of _ "Suc k"]) simp
      with Cons.IH [of st1] False Inr show ?thesis
        by (auto split: sum.splits if_splits)
    qed
  qed
qed

section \<open>Sleep\<close>

lemma unat_mult_no_wrap: "unat a * unat b < 2 ^ 64 \<Longrightarrow> unat (a * b :: u64) = unat a * unat b"
  by (simp add: unat_word_ariths)

lemma sleep_end_ticks:
  assumes "0 < ms" and "unat ms * 100 < 2 ^ 64" and "unat start + unat ms < 2 ^ 64"
  shows "unat (sleep_end start ms) = unat start + (unat ms + 9) div 10"
proof -
  have "0 < unat ms" using assms(1) by (simp add: word_less_nat_alt)
  then have m: "unat (ms - 1) = unat ms - 1" by (subst unat_sub_no_wrap) (simp_all add: word_le_nat_alt)
  then have "unat ((ms - 1) * TIMER_TICKS_PER_SECOND) = (unat ms - 1) * 100"
    using assms(2) by (subst unat_mult_no_wrap) (simp_all add: TIMER_TICKS_PER_SECOND_def m)
  then have d: "unat ((ms - 1) * TIMER_TICKS_PER_SECOND div 1000) = (unat ms - 1) div 10"
    by (simp add: unat_div_distrib)
  have "(unat ms - 1) div 10 + 1 = (unat ms + 9) div 10" using \<open>0 < unat ms\<close> by simp
  moreover have "(unat ms + 9) div 10 \<le> unat ms" using \<open>0 < unat ms\<close> by linarith
  ultimately show ?thesis
    using assms(3) d unfolding sleep_end_def
    by (simp add: unat_word_ariths add.assoc mod_less)
qed

text \<open>With 0 milliseconds the count wraps around: the task sleeps for more than five million years.\<close>

lemma sleep_zero: "sleep_end start 0 = start + 18446744073709552"
  by (simp add: sleep_end_def TIMER_TICKS_PER_SECOND_def)

text \<open>
  C36: \<^verbatim>\<open>sleep\<close> of at least one millisecond returns 0, never before the time has passed; while it has not
  returned, less time than that and one tick has passed. It fails only when another task does.
\<close>

theorem sys_sleep_waits:
  assumes "0 < ms" and "unat ms * 100 < 2 ^ 64" and "unat (timer_ticks st) + unat ms < 2 ^ 64"
  shows "case sys_sleep yields ms st of
      Inl e \<Rightarrow> \<exists>k. res_fold (\<lambda>y. y) (take k yields) st = Inl e
    | Inr (Return st' r) \<Rightarrow> r = 0 \<and> unat ms + 10 * unat (timer_ticks st) \<le> 10 * unat (timer_ticks st')
    | Inr (Yielding st') \<Rightarrow> res_fold (\<lambda>y. y) yields st = Inr st' \<and>
        10 * unat (timer_ticks st') < 10 * unat (timer_ticks st) + unat ms"
  using yield_until_cases [where P = "\<lambda>s. \<not> timer_ticks s < sleep_end (timer_ticks st) ms" and yields = yields and st = st]
    sleep_end_ticks [OF assms]
  by (auto simp: sys_sleep_def Let_def word_less_nat_alt res_bind_def split: sum.splits if_splits)

lemma sys_sleep_waits_witness:
  "case sys_sleep (replicate 4 (\<lambda>s. Inr (s\<lparr>timer_ticks := timer_ticks s + 1\<rparr>))) 25 demo_kernel of
      Inl e \<Rightarrow> \<exists>k. res_fold (\<lambda>y. y) (take k (replicate 4 (\<lambda>s. Inr (s\<lparr>timer_ticks := timer_ticks s + 1\<rparr>)))) demo_kernel = Inl e
    | Inr (Return st' r) \<Rightarrow> r = 0 \<and> unat (25 :: u64) + 10 * unat (timer_ticks demo_kernel) \<le> 10 * unat (timer_ticks st')
    | Inr (Yielding st') \<Rightarrow> res_fold (\<lambda>y. y) (replicate 4 (\<lambda>s. Inr (s\<lparr>timer_ticks := timer_ticks s + 1\<rparr>))) demo_kernel = Inr st' \<and>
        10 * unat (timer_ticks st') < 10 * unat (timer_ticks demo_kernel) + unat (25 :: u64)"
  by (rule sys_sleep_waits) (simp_all add: demo_kernel_def kernel_state.defs fs_state.defs)

end
