(* ===== verification/Commands.thy ===== *)
theory Commands
  imports NvmePart
begin

text \<open>
  What the NVMe driver guarantees of its command table and of partitions: a command identifier belongs to one
  command at a time, and transfers at an offset inside a partition stay inside it.
\<close>

section \<open>The command table\<close>

definition statuses :: "nat \<Rightarrow> 'z device_state_scheme \<Rightarrow> u8 list" where
  "statuses i st = command_statuses (nvme_devices st ! i)"

definition with_statuses :: "nat \<Rightarrow> u8 list \<Rightarrow> 'z device_state_scheme \<Rightarrow> 'z device_state_scheme" where
  "with_statuses i cs st = upd_nvme i (\<lambda>d. d\<lparr>command_statuses := cs\<rparr>) st"

definition command_table_ok :: "nat \<Rightarrow> 'z device_state_scheme \<Rightarrow> bool" where
  "command_table_ok i st \<longleftrightarrow> i < length (nvme_devices st) \<and> length (statuses i st) = NVME_MAX_COMMANDS \<and>
     set (statuses i st) \<subseteq> {NVME_COMMAND_FREE, NVME_COMMAND_IN_FLIGHT, NVME_COMMAND_COMPLETED}"

lemma with_statuses_simps:
  assumes "i < length (nvme_devices st)"
  shows "length (nvme_devices (with_statuses i cs st)) = length (nvme_devices st)"
    and "statuses i (with_statuses i cs st) = cs"
    and "with_statuses i ds (with_statuses i cs st) = with_statuses i ds st"
    and "with_statuses i (statuses i st) st = st"
  using assms by (simp_all add: with_statuses_def statuses_def upd_nvme_def)

lemma set_command_status_eq:
  assumes "command_table_ok i st"
  shows "set_command_status i c s st =
    (if unat c < NVME_MAX_COMMANDS then Inr (with_statuses i ((statuses i st)[unat c := s]) st) else Inl Invalid_Access)"
  using assms by (simp add: set_command_status_def command_table_ok_def nvme_dev_def array_get_def array_set_def
      statuses_def with_statuses_def)

lemma with_statuses_ok:
  assumes "command_table_ok i st" and "s \<in> {NVME_COMMAND_FREE, NVME_COMMAND_IN_FLIGHT, NVME_COMMAND_COMPLETED}"
  shows "command_table_ok i (with_statuses i ((statuses i st)[c := s]) st)"
  using assms set_update_subset_insert [of "statuses i st" c s]
  by (auto simp: command_table_ok_def with_statuses_simps)

lemma start_command_eq:
  assumes "command_table_ok i st"
  shows "start_command i st =
    (case find (\<lambda>c. statuses i st ! c = NVME_COMMAND_FREE) [0..<NVME_MAX_COMMANDS] of
       None \<Rightarrow> Inl Diverges
     | Some c \<Rightarrow> Inr (with_statuses i ((statuses i st)[c := NVME_COMMAND_IN_FLIGHT]) st, of_nat c))"
proof (cases "find (\<lambda>c. statuses i st ! c = NVME_COMMAND_FREE) [0..<NVME_MAX_COMMANDS]")
  case None
  then show ?thesis using assms
    by (simp add: start_command_def command_table_ok_def nvme_dev_def array_get_def statuses_def)
next
  case (Some c)
  then have "c < NVME_MAX_COMMANDS" by (auto simp: find_Some_iff)
  then have "c < 128" "unat (of_nat c :: u16) = c" by (simp_all add: NVME_MAX_COMMANDS_def unat_of_nat_small)
  with Some show ?thesis using assms set_command_status_eq [OF assms, of "of_nat c" NVME_COMMAND_IN_FLIGHT]
    by (simp add: start_command_def command_table_ok_def nvme_dev_def array_get_def statuses_def NVME_MAX_COMMANDS_def)
qed

text \<open>
  \<^verbatim>\<open>start_command\<close> never hands out an identifier that is in use: it takes the lowest free one, marks it in
  flight and changes no other, whatever the table holds; once that command is finished and freed, the table
  is what it was. It fails to return only when all 128 are in use.
\<close>

lemma start_command_exclusive:
  assumes "command_table_ok i st"
  shows "case start_command i st of
      Inl e \<Rightarrow> e = Diverges \<and> NVME_COMMAND_FREE \<notin> set (statuses i st)
    | Inr (st', c) \<Rightarrow> unat c < NVME_MAX_COMMANDS \<and> statuses i st ! unat c = NVME_COMMAND_FREE \<and>
        NVME_COMMAND_FREE \<notin> set (take (unat c) (statuses i st)) \<and> command_table_ok i st' \<and>
        statuses i st' = (statuses i st)[unat c := NVME_COMMAND_IN_FLIGHT] \<and>
        res_bind (finish_command i c st') (free_command i c) = Inr st"
proof (cases "find (\<lambda>c. statuses i st ! c = NVME_COMMAND_FREE) [0..<NVME_MAX_COMMANDS]")
  case None
  then have "NVME_COMMAND_FREE \<notin> set (statuses i st)"
    using assms by (auto simp: find_None_iff command_table_ok_def in_set_conv_nth)
  with None show ?thesis by (simp add: start_command_eq [OF assms])
next
  case (Some c)
  let ?cs = "statuses i st"
  let ?st' = "with_statuses i (?cs[c := NVME_COMMAND_IN_FLIGHT]) st"
  have i: "i < length (nvme_devices st)" and len: "length ?cs = 128"
    using assms by (simp_all add: command_table_ok_def NVME_MAX_COMMANDS_def)
  have c: "c < 128" "?cs ! c = NVME_COMMAND_FREE" "\<forall>j < c. ?cs ! j \<noteq> NVME_COMMAND_FREE"
    using Some by (auto simp: find_Some_iff NVME_MAX_COMMANDS_def)
  have u: "unat (of_nat c :: u16) = c" using c(1) by (simp add: unat_of_nat_small)
  have ok': "command_table_ok i ?st'" by (rule with_statuses_ok [OF assms]) simp
  have "finish_command i (of_nat c) ?st' = Inr (with_statuses i (?cs[c := NVME_COMMAND_COMPLETED]) st)"
    using c(1) u i by (simp add: finish_command_def set_command_status_eq [OF ok'] with_statuses_simps NVME_MAX_COMMANDS_def)
  moreover have "command_table_ok i (with_statuses i (?cs[c := NVME_COMMAND_COMPLETED]) st)"
    by (rule with_statuses_ok [OF assms]) simp
  then have "free_command i (of_nat c) (with_statuses i (?cs[c := NVME_COMMAND_COMPLETED]) st) = Inr st"
    using c u i len list_update_id [of ?cs c]
    by (simp add: free_command_def set_command_status_eq with_statuses_simps NVME_MAX_COMMANDS_def)
  moreover have "NVME_COMMAND_FREE \<notin> set (take c ?cs)"
    using c(1,3) len by (auto simp: in_set_conv_nth)
  ultimately show ?thesis
    using c u i ok' unfolding start_command_eq [OF assms] Some by (simp add: with_statuses_simps NVME_MAX_COMMANDS_def)
qed

text \<open>An identifier from the device that is out of range is written behind the table, 128 without a message.\<close>

lemma finish_command_out_of_range:
  assumes "command_table_ok i st" and "unat c = 128"
  shows "finish_command i c st = Inl Invalid_Access"
  using assms(2) by (simp add: finish_command_def set_command_status_eq [OF assms(1)] NVME_MAX_COMMANDS_def)

section \<open>Partitions\<close>

text \<open>The bytes of a partition on its device, without wrap-around.\<close>

definition partition_start :: "nvmepart_device \<Rightarrow> nvme_device \<Rightarrow> nat" where
  "partition_start p dev = unat (first_lba p) * 2 ^ unat (lbads_exponent dev)"

definition partition_end :: "nvmepart_device \<Rightarrow> nvme_device \<Rightarrow> nat" where
  "partition_end p dev = (unat (last_lba p) + 1) * 2 ^ unat (lbads_exponent dev)"

lemma shl64_small:
  assumes "unat w * 2 ^ unat e < 2 ^ 64" and "e < 64"
  shows "\<exists>v. shl64 w e = Inr v \<and> unat v = unat w * 2 ^ unat e"
proof -
  have "unat (push_bit (unat e) w) = take_bit 64 (push_bit (unat e) (unat w))"
    by (subst unsigned_push_bit_eq) simp
  also have "\<dots> = unat w * 2 ^ unat e" using assms(1) by (simp add: push_bit_eq_mult take_bit_nat_eq_self)
  finally have "unat (push_bit (unat e) w) = unat w * 2 ^ unat e" .
  with assms(2) show ?thesis by (simp add: shl64_def)
qed

lemma nvmepart_window_eq:
  assumes "nvmepart_of dev st = Inr k" and "nvme_dev (np_nvme_device (nvmepart_devices st ! k)) st = Inr nvme"
  defines "p \<equiv> nvmepart_devices st ! k"
  assumes "lbads_exponent nvme < 64" and "first_lba p \<le> last_lba p" and "partition_end p nvme < 2 ^ 64"
    and "unat offset + partition_start p nvme < 2 ^ 64"
  shows "\<exists>start len. nvmepart_window dev offset st = Inr (np_nvme_device p, start, len) \<and>
    unat start = partition_start p nvme + unat offset \<and>
    (if unat start \<le> partition_end p nvme then unat start + unat len = partition_end p nvme
     else unat len = 2 ^ 64 - (unat start - partition_end p nvme))"
proof -
  have le: "unat (first_lba p) \<le> unat (last_lba p)" using assms(5) by (simp add: word_le_nat_alt)
  have "partition_end p nvme \<ge> (unat (last_lba p) + 1) * 1" unfolding partition_end_def by (rule mult_le_mono2) simp
  then have lt: "unat (last_lba p) + 1 < 2 ^ 64" using assms(6) by (simp only: mult_1_right order_le_less_trans)
  then have u: "unat (last_lba p + 1) = unat (last_lba p) + 1" by (subst unat_add_no_wrap) simp_all
  have "partition_start p nvme \<le> partition_end p nvme"
    unfolding partition_start_def partition_end_def using le by (intro mult_le_mono1) simp
  then have s: "unat (first_lba p) * 2 ^ unat (lbads_exponent nvme) < 2 ^ 64"
    using assms(6) by (simp add: partition_start_def)
  from shl64_small [OF s assms(4)] obtain start where start: "shl64 (first_lba p) (lbads_exponent nvme) = Inr start"
    "unat start = partition_start p nvme" by (auto simp: partition_start_def)
  have e: "unat (last_lba p + 1) * 2 ^ unat (lbads_exponent nvme) < 2 ^ 64"
    using assms(6) by (simp add: u partition_end_def)
  from shl64_small [OF e assms(4)] obtain limit where limit: "shl64 (last_lba p + 1) (lbads_exponent nvme) = Inr limit"
    "unat limit = partition_end p nvme" by (auto simp: partition_end_def u)
  have off: "unat (offset + start) = partition_start p nvme + unat offset"
    using assms(7) start(2) by (subst unat_add_no_wrap) simp_all
  have sub: "if unat (offset + start) \<le> unat limit then unat (limit - (offset + start)) = unat limit - unat (offset + start)
      else unat (limit - (offset + start)) = 2 ^ 64 - (unat (offset + start) - unat limit)"
    by (simp add: unat_sub_if') linarith
  have "nvmepart_window dev offset st = Inr (np_nvme_device p, offset + start, limit - (offset + start))"
    using assms(1,2) start(1) limit(1) by (simp add: nvmepart_window_def p_def)
  moreover have "if unat (offset + start) \<le> partition_end p nvme
      then unat (offset + start) + unat (limit - (offset + start)) = partition_end p nvme
      else unat (limit - (offset + start)) = 2 ^ 64 - (unat (offset + start) - partition_end p nvme)"
    using sub unfolding limit(2) by (auto split: if_splits)
  ultimately show ?thesis using off by blast
qed

text \<open>
  C34: A read or write of a partition at an offset within it is a transfer of the whole device at that place behind the
  partition's first byte, of the length asked for, but cut at the partition's last byte. At an offset behind the
  partition's end the length left wraps around: a transfer of any length in use is not cut, and goes on behind the
  partition.
\<close>

theorem nvmepart_transfer_bounds:
  assumes "nvmepart_of dev st = Inr k" and "nvme_dev (np_nvme_device (nvmepart_devices st ! k)) st = Inr nvme"
  defines "p \<equiv> nvmepart_devices st ! k"
  assumes "lbads_exponent nvme < 64" and "first_lba p \<le> last_lba p" and "partition_end p nvme < 2 ^ 64"
    and "unat offset + partition_start p nvme < 2 ^ 64"
  shows "let device_offset = partition_start p nvme + unat offset;
      left = (if device_offset \<le> partition_end p nvme then partition_end p nvme - device_offset
              else 2 ^ 64 - (device_offset - partition_end p nvme));
      cut = of_nat (min (unat len) left) in
    nvmepart_read hw dev buffer offset len st =
      nvme_read hw (nvme_addr (np_nvme_device p)) buffer (of_nat device_offset) cut st \<and>
    nvmepart_write hw dev buffer offset len st =
      nvme_write hw (nvme_addr (np_nvme_device p)) buffer (of_nat device_offset) cut st"
proof -
  obtain start left where w: "nvmepart_window dev offset st = Inr (np_nvme_device p, start, left)"
    and s: "unat start = partition_start p nvme + unat offset"
    and l: "if unat start \<le> partition_end p nvme then unat start + unat left = partition_end p nvme
      else unat left = 2 ^ 64 - (unat start - partition_end p nvme)"
    using nvmepart_window_eq [OF assms(1,2,4) assms(5-7) [unfolded p_def]] unfolding p_def by auto
  have start: "of_nat (partition_start p nvme + unat offset) = start" unfolding s [symmetric] by simp
  have left: "(if partition_start p nvme + unat offset \<le> partition_end p nvme
      then partition_end p nvme - (partition_start p nvme + unat offset)
      else 2 ^ 64 - (partition_start p nvme + unat offset - partition_end p nvme)) = unat left"
    using l unfolding s by (auto split: if_splits)
  have cut: "of_nat (min (unat len) (unat left)) = (if len > left then left else len)"
    by (simp add: min_def word_less_nat_alt)
  show ?thesis unfolding Let_def left start cut by (simp add: nvmepart_read_def nvmepart_write_def w)
qed

text \<open>The second, small partition of a device with blocks of 512 bytes.\<close>

definition demo_nvme :: nvme_device where
  "demo_nvme = \<lparr>nv_pci_device = 0, major_version = 1, minor_version = 4, dstrd_exponent = 0, lbads_exponent = 9,
     metadata_size = 0, lba_count = 1000, asq = 0, asq_tail = 0, asq_head = 0, acq = 0, acq_head = 0, acq_phase = False,
     iosq = 0, iosq_tail = 0, iosq_head = 0, iocq = 0, iocq_head = 0, iocq_phase = False,
     command_statuses = NVME_COMMAND_IN_FLIGHT # replicate 127 NVME_COMMAND_FREE, admin_result_buffer = 0\<rparr>"

definition demo_partition :: "u64 \<Rightarrow> u64 \<Rightarrow> nvmepart_device" where
  "demo_partition first last_block = \<lparr>np_nvme_device = 0, partition_type_guid = [1, 0, 0, 0], partition_guid = [1, 0, 0, 0],
     first_lba = first, last_lba = last_block, partition_name = []\<rparr>"

definition demo_disk :: device_state where
  "demo_disk = (demo_device Inode_Slab)
     \<lparr>nvme_devices := [demo_nvme], nvmepart_devices := [demo_partition 40 99, demo_partition 100 199]\<rparr>"

lemma start_command_exclusive_witness:
  "case start_command 0 demo_disk of
      Inl e \<Rightarrow> e = Diverges \<and> NVME_COMMAND_FREE \<notin> set (statuses 0 demo_disk)
    | Inr (st', c) \<Rightarrow> unat c < NVME_MAX_COMMANDS \<and> statuses 0 demo_disk ! unat c = NVME_COMMAND_FREE \<and>
        NVME_COMMAND_FREE \<notin> set (take (unat c) (statuses 0 demo_disk)) \<and> command_table_ok 0 st' \<and>
        statuses 0 st' = (statuses 0 demo_disk)[unat c := NVME_COMMAND_IN_FLIGHT] \<and>
        res_bind (finish_command 0 c st') (free_command 0 c) = Inr demo_disk"
  by (rule start_command_exclusive)
    (simp add: command_table_ok_def statuses_def demo_disk_def demo_nvme_def NVME_MAX_COMMANDS_def)

lemma nvmepart_transfer_bounds_witness:
  "\<forall>hw buffer. let device_offset = partition_start (nvmepart_devices demo_disk ! 1) demo_nvme + unat (600 :: u64);
      left = (if device_offset \<le> partition_end (nvmepart_devices demo_disk ! 1) demo_nvme
              then partition_end (nvmepart_devices demo_disk ! 1) demo_nvme - device_offset
              else 2 ^ 64 - (device_offset - partition_end (nvmepart_devices demo_disk ! 1) demo_nvme));
      cut = of_nat (min (unat (100000 :: u64)) left) in
    nvmepart_read hw (nvmepart_addr 1) buffer 600 100000 demo_disk =
      nvme_read hw (nvme_addr (np_nvme_device (nvmepart_devices demo_disk ! 1))) buffer (of_nat device_offset) cut demo_disk \<and>
    nvmepart_write hw (nvmepart_addr 1) buffer 600 100000 demo_disk =
      nvme_write hw (nvme_addr (np_nvme_device (nvmepart_devices demo_disk ! 1))) buffer (of_nat device_offset) cut demo_disk"
  by (intro allI, rule nvmepart_transfer_bounds)
    (simp_all add: demo_disk_def nvmepart_of_def nvmepart_addr_def nvme_dev_def array_get_def demo_partition_def
      demo_nvme_def partition_start_def partition_end_def)

end
