(* ===== verification/Transfers.thy ===== *)
theory Transfers
  imports Commands
begin

text \<open>
  Transfers between an NVMe disk and memory. The locale \<open>nvme_controller\<close> is what the controller promises: a command
  that stands in the submission queue when its doorbell is rung is carried out and completed. The driver is
  proved to read and write the bytes of the medium on top of it.
\<close>

section \<open>The driver's side of the queues\<close>

text \<open>
  The entry of the completion queue at \<open>iocq_head\<close> is the next to come. Entries are new when their phase bit
  differs from \<open>iocq_phase\<close>: those in front of the head are of the pass under way, the others of the last one.
\<close>

definition cq_synced :: "nat \<Rightarrow> 'z device_state_scheme \<Rightarrow> bool" where
  "cq_synced i st \<longleftrightarrow> (let dev = nvme_devices st ! i in \<forall>p < NVME_QUEUE_SIZE.
     ((cq_status (iocq dev) (of_nat p) st AND 1 = 1) = iocq_phase dev) = (unat (iocq_head dev) \<le> p))"

text \<open>Nothing is new in the queue of the admin commands, which are used at detection only.\<close>

definition acq_quiet :: "nat \<Rightarrow> 'z device_state_scheme \<Rightarrow> bool" where
  "acq_quiet i st \<longleftrightarrow> (let dev = nvme_devices st ! i in
     (cq_status (acq dev) (acq_head dev) st AND 1 = 1) = acq_phase dev)"

definition queue_pages :: "nat \<Rightarrow> 'z device_state_scheme \<Rightarrow> u64 set" where
  "queue_pages i st = {iosq (nvme_devices st ! i), iocq (nvme_devices st ! i), acq (nvme_devices st ! i)}"

definition device_ok :: "nat \<Rightarrow> 'z device_state_scheme \<Rightarrow> bool" where
  "device_ok i st \<longleftrightarrow> i < length (nvme_devices st) \<and> length (nvme_devices st) \<le> MAX_NVME_DEVICES \<and>
     (let dev = nvme_devices st ! i in
        nv_pci_device dev < length (pci_devices st) \<and> dstrd_exponent dev < 32 \<and> lbads_exponent dev \<le> 12 \<and>
        unat (lba_count dev) \<le> 2 ^ 32 \<and> unat (acq_head dev) < NVME_QUEUE_SIZE \<and>
        iosq dev \<noteq> iocq dev \<and> iosq dev \<noteq> acq dev \<and> iocq dev \<noteq> acq dev)"

definition queues_ok :: "nat \<Rightarrow> 'z device_state_scheme \<Rightarrow> bool" where
  "queues_ok i st \<longleftrightarrow> device_ok i st \<and> kmem_wf st \<and> queue_pages i st \<subseteq> used_pages st \<and>
     cq_synced i st \<and> acq_quiet i st \<and>
     (let dev = nvme_devices st ! i in unat (iosq_tail dev) < NVME_QUEUE_SIZE \<and> unat (iosq_head dev) < NVME_QUEUE_SIZE \<and>
        unat (iocq_head dev) < NVME_QUEUE_SIZE \<and> command_table_ok i st)"

text \<open>No command is under way.\<close>

definition nvme_idle :: "nat \<Rightarrow> 'z device_state_scheme \<Rightarrow> bool" where
  "nvme_idle i st \<longleftrightarrow> queues_ok i st \<and> statuses i st = replicate NVME_MAX_COMMANDS NVME_COMMAND_FREE \<and>
     iosq_tail (nvme_devices st ! i) = iosq_head (nvme_devices st ! i)"

text \<open>Command \<open>c\<close>, the transfer of a page at a logical block, is all that stands in the submission queue.\<close>

definition block_offset :: "nat \<Rightarrow> u32 \<Rightarrow> 'z device_state_scheme \<Rightarrow> nat" where
  "block_offset i lba st = unat lba * 2 ^ unat (lbads_exponent (nvme_devices st ! i))"

definition capacity :: "nat \<Rightarrow> 'z device_state_scheme \<Rightarrow> nat" where
  "capacity i st = unat (lba_count (nvme_devices st ! i)) * 2 ^ unat (lbads_exponent (nvme_devices st ! i))"

definition command_pending ::
  "nat \<Rightarrow> u32 \<Rightarrow> u16 \<Rightarrow> u32 \<Rightarrow> u64 \<Rightarrow> 'z device_state_scheme \<Rightarrow> bool" where
  "command_pending i opcode c lba page st \<longleftrightarrow> queues_ok i st \<and> page \<in> used_pages st - queue_pages i st \<and>
     block_offset i lba st + 4096 \<le> capacity i st \<and> unat c < NVME_MAX_COMMANDS \<and>
     statuses i st = (replicate NVME_MAX_COMMANDS NVME_COMMAND_FREE)[unat c := NVME_COMMAND_IN_FLIGHT] \<and>
     (let dev = nvme_devices st ! i in iosq_tail dev = queue_next (iosq_head dev) \<and>
        page_bytes 64 (iosq dev + 64 * ucast (iosq_head dev)) st =
          sq_entry_bytes (nvme_command opcode c 1 (page - hhdm_offset st) lba 0 (drop_bit (unat (lbads_exponent dev)) 4095)))"

lemma length_sq_entry: "length (sq_entry_bytes (nvme_command opcode c nsid prp s1 s2 s3)) = 64"
  by (simp add: sq_entry_bytes_def nvme_command_def)

lemma queues_okD:
  assumes "queues_ok i st"
  shows "i < length (nvme_devices st)" "kmem_wf st" "iosq (nvme_devices st ! i) \<in> used_pages st"
    "iocq (nvme_devices st ! i) \<in> used_pages st" "iosq (nvme_devices st ! i) \<noteq> iocq (nvme_devices st ! i)"
    "cq_synced i st" "unat (iosq_tail (nvme_devices st ! i)) < 64" "unat (iosq_head (nvme_devices st ! i)) < 64"
    "unat (iocq_head (nvme_devices st ! i)) < 64" "command_table_ok i st" "lbads_exponent (nvme_devices st ! i) \<le> 12"
    "device_ok i st" "acq (nvme_devices st ! i) \<in> used_pages st" "iosq (nvme_devices st ! i) \<noteq> acq (nvme_devices st ! i)"
    "iocq (nvme_devices st ! i) \<noteq> acq (nvme_devices st ! i)" "acq_quiet i st" "unat (acq_head (nvme_devices st ! i)) < 64"
  using assms by (simp_all add: queues_ok_def device_ok_def queue_pages_def NVME_QUEUE_SIZE_def Let_def)

lemma unat_queue_next:
  assumes "unat t < 64"
  shows "unat (queue_next t) = (if unat t = 63 then 0 else unat t + 1)"
  using assms by (auto simp: queue_next_def NVME_QUEUE_SIZE_def unat_of_nat_small)

lemma queue_slot:
  assumes "unat (t :: u8) < 64"
  shows "q + 64 * ucast t = (q + of_nat (64 * unat t) :: u64)" and "q + 16 * ucast t + 14 = (q + of_nat (16 * unat t + 14) :: u64)"
proof -
  have u: "unat (ucast t :: u64) = unat t" by (rule unat_ucast_small) (use assms in simp)
  have c: "(ucast t :: u64) = of_nat (unat t)" by (subst u [symmetric]) simp
  show "q + 64 * ucast t = (q + of_nat (64 * unat t) :: u64)" "q + 16 * ucast t + 14 = (q + of_nat (16 * unat t + 14) :: u64)"
    unfolding c by simp_all
qed

text \<open>The completion entries do not see what is stored elsewhere.\<close>

lemma cq_status_other:
  assumes "kmem_wf st" and "p \<in> used_pages st" and "q \<in> used_pages st" and "q \<noteq> p" and "y + length bs \<le> 4096"
    and "unat t < 64"
  shows "cq_status p t (store_page (q + of_nat y) bs s) = cq_status p t s"
  using page_bytes_other [OF assms(1,2,3) assms(4) [symmetric] _ assms(5), of "16 * unat t + 14" 2 s] assms(6)
  by (simp only: cq_status_def queue_slot(2) [OF assms(6)])

lemma queues_ok_store:
  assumes "queues_ok i st" and "q \<in> used_pages st" and "q \<noteq> iocq (nvme_devices st ! i)" and "q \<noteq> acq (nvme_devices st ! i)"
    and "y + length bs \<le> 4096"
  shows "queues_ok i (store_page (q + of_nat y) bs st)"
proof -
  note q = queues_okD [OF assms(1)]
  have f: "nvme_devices (store_page (q + of_nat y) bs st) = nvme_devices st" "pci_devices (store_page (q + of_nat y) bs st) = pci_devices st"
    "kmem_wf (store_page (q + of_nat y) bs st) = kmem_wf st" "used_pages (store_page (q + of_nat y) bs st) = used_pages st"
    by (simp_all add: truncate_kmem [OF store_page_truncate]) (simp_all add: store_page_def)
  have "cq_status (iocq (nvme_devices st ! i)) (of_nat p) (store_page (q + of_nat y) bs st) =
      cq_status (iocq (nvme_devices st ! i)) (of_nat p) st" if "p < NVME_QUEUE_SIZE" for p
    using that by (intro cq_status_other [OF q(2,4) assms(2,3,5)]) (simp add: NVME_QUEUE_SIZE_def unat_of_nat_small)
  with q(6) have "cq_synced i (store_page (q + of_nat y) bs st)" by (simp add: cq_synced_def Let_def f(1))
  moreover have "acq_quiet i (store_page (q + of_nat y) bs st)"
    using q(16) unfolding acq_quiet_def Let_def f(1) cq_status_other [OF q(2,13) assms(2,4,5) q(17)] .
  ultimately show ?thesis using assms(1)
    by (simp add: queues_ok_def device_ok_def queue_pages_def command_table_ok_def statuses_def f Let_def)
qed

lemma upd_nvme_frame [simp]:
  "kmem_wf (upd_nvme i f st) = kmem_wf st" "used_pages (upd_nvme i f st) = used_pages st"
  "cq_status q t (upd_nvme i f st) = cq_status q t st" "page_bytes n a (upd_nvme i f st) = page_bytes n a st"
  "hhdm_offset (upd_nvme i f st) = hhdm_offset st" "pci_devices (upd_nvme i f st) = pci_devices st"
  "nvmepart_devices (upd_nvme i f st) = nvmepart_devices st" "fs_view (upd_nvme i f st) = fs_view st"
  "device_state.more (upd_nvme i f st) = device_state.more st"
  "length (nvme_devices (upd_nvme i f st)) = length (nvme_devices st)"
proof -
  have t: "slab_state.truncate (upd_nvme i f st) = slab_state.truncate st"
    by (simp add: upd_nvme_def slab_state.truncate_def)
  show "kmem_wf (upd_nvme i f st) = kmem_wf st" "used_pages (upd_nvme i f st) = used_pages st"
    by (rule truncate_kmem [OF t])+
  show "fs_view (upd_nvme i f st) = fs_view st" unfolding fs_view_def t by (simp add: upd_nvme_def)
qed (simp_all add: upd_nvme_def cq_status_def page_bytes_def)

lemma upd_nvme_nth [simp]:
  assumes "i < length (nvme_devices st)"
  shows "nvme_devices (upd_nvme i f st) ! i = f (nvme_devices st ! i)"
  using assms by (simp add: upd_nvme_def)

lemma queues_ok_tail:
  assumes "queues_ok i st" and "unat t < 64"
  shows "queues_ok i (upd_nvme i (\<lambda>d. d\<lparr>iosq_tail := t\<rparr>) st)"
  using assms queues_okD(1) [OF assms(1)] unfolding queues_ok_def device_ok_def
  by (simp add: queue_pages_def cq_synced_def acq_quiet_def command_table_ok_def statuses_def NVME_QUEUE_SIZE_def Let_def)

lemma queues_ok_statuses:
  assumes "queues_ok i st" and "s \<in> {NVME_COMMAND_FREE, NVME_COMMAND_IN_FLIGHT, NVME_COMMAND_COMPLETED}"
  shows "queues_ok i (with_statuses i ((statuses i st)[c := s]) st)"
  using assms(1) queues_okD(1) [OF assms(1)] with_statuses_ok [OF queues_okD(10) [OF assms(1)] assms(2), of c]
  unfolding queues_ok_def device_ok_def by (simp add: with_statuses_def queue_pages_def cq_synced_def acq_quiet_def Let_def)

text \<open>The command that the driver puts into the queue of an idle device.\<close>

definition submitted :: "nat \<Rightarrow> u32 \<Rightarrow> u32 \<Rightarrow> u64 \<Rightarrow> 'z device_state_scheme \<Rightarrow> 'z device_state_scheme" where
  "submitted i opcode lba page st =
     (let dev = nvme_devices st ! i in
      upd_nvme i (\<lambda>d. d\<lparr>iosq_tail := queue_next (iosq_tail d)\<rparr>)
        (store_page (iosq dev + 64 * ucast (iosq_tail dev))
          (sq_entry_bytes (nvme_command opcode 0 1 (page - hhdm_offset st) lba 0 (drop_bit (unat (lbads_exponent dev)) 4095)))
          (with_statuses i ((statuses i st)[0 := NVME_COMMAND_IN_FLIGHT]) st)))"

lemma idle_start_command:
  assumes "nvme_idle i st"
  shows "start_command i st = Inr (with_statuses i ((statuses i st)[0 := NVME_COMMAND_IN_FLIGHT]) st, 0)"
proof -
  have "find (\<lambda>c. statuses i st ! c = NVME_COMMAND_FREE) [0..<NVME_MAX_COMMANDS] = Some 0"
    using assms by (auto simp: find_Some_iff nvme_idle_def NVME_MAX_COMMANDS_def intro!: exI [where x = 0])
  moreover have "command_table_ok i st" using assms queues_okD(10) by (auto simp: nvme_idle_def)
  ultimately show ?thesis by (simp add: start_command_eq)
qed

lemma submitted_pending:
  assumes "nvme_idle i st" and "page \<in> used_pages st - queue_pages i st" and "block_offset i lba st + 4096 \<le> capacity i st"
  shows "command_pending i opcode 0 lba page (submitted i opcode lba page st)"
    and "page_bytes 4096 page (submitted i opcode lba page st) = page_bytes 4096 page st"
proof -
  have ok: "queues_ok i st" and head: "iosq_tail (nvme_devices st ! i) = iosq_head (nvme_devices st ! i)"
    and free: "statuses i st = replicate NVME_MAX_COMMANDS NVME_COMMAND_FREE" using assms(1) by (simp_all add: nvme_idle_def)
  note q = queues_okD [OF ok]
  define dev where "dev = nvme_devices st ! i"
  define y where "y = 64 * unat (iosq_tail dev)"
  define bs where "bs = sq_entry_bytes
    (nvme_command opcode 0 1 (page - hhdm_offset st) lba 0 (drop_bit (unat (lbads_exponent dev)) 4095))"
  have bs: "length bs = 64" by (simp add: bs_def length_sq_entry)
  then have y: "y + length bs \<le> 4096" using q(7) by (simp add: y_def dev_def)
  define s1 where "s1 = with_statuses i ((statuses i st)[0 := NVME_COMMAND_IN_FLIGHT]) st"
  define s2 where "s2 = store_page (iosq dev + of_nat y) bs s1"
  have sub: "submitted i opcode lba page st = upd_nvme i (\<lambda>d. d\<lparr>iosq_tail := queue_next (iosq_tail d)\<rparr>) s2"
    using queue_slot(1) [OF q(7)] by (simp add: submitted_def s2_def s1_def y_def bs_def dev_def Let_def)
  have ok1: "queues_ok i s1" unfolding s1_def by (rule queues_ok_statuses [OF ok]) simp
  have d1: "nvme_devices s1 ! i = dev\<lparr>command_statuses := (statuses i st)[0 := NVME_COMMAND_IN_FLIGHT]\<rparr>"
    "used_pages s1 = used_pages st" "hhdm_offset s1 = hhdm_offset st" "kmem_wf s1 = kmem_wf st"
    using q(1) by (simp_all add: s1_def with_statuses_def dev_def)
  have iosq: "iosq dev \<in> used_pages s1" "iosq dev \<noteq> iocq (nvme_devices s1 ! i)" "iosq dev \<noteq> acq (nvme_devices s1 ! i)"
    using q(3,5,14) d1 by (simp_all add: dev_def)
  have ok2: "queues_ok i s2" unfolding s2_def by (rule queues_ok_store [OF ok1 iosq y])
  have d2: "nvme_devices s2 ! i = nvme_devices s1 ! i" "used_pages s2 = used_pages st" "hhdm_offset s2 = hhdm_offset st"
    using d1 truncate_kmem [OF store_page_truncate, of "iosq dev + of_nat y" bs s1] by (simp_all add: s2_def) (simp_all add: store_page_def)
  have ok3: "queues_ok i (submitted i opcode lba page st)" unfolding sub
    using queues_ok_tail [OF ok2, of "queue_next (iosq_tail dev)"] queues_okD(1) [OF ok2] unat_queue_next [OF q(7)] q(7) d2 d1
    by (simp add: upd_nvme_def dev_def split: if_splits)
  have d3: "nvme_devices (submitted i opcode lba page st) ! i =
      dev\<lparr>command_statuses := (statuses i st)[0 := NVME_COMMAND_IN_FLIGHT], iosq_tail := queue_next (iosq_tail dev)\<rparr>"
    using queues_okD(1) [OF ok2] by (simp add: sub d2 d1)
  have "page_bytes 64 (iosq dev + of_nat y) s2 = bs"
    using page_bytes_part [of s1 "iosq dev" y 64 y bs s1] bs y iosq(1) q(2) d1 by (simp add: s2_def)
  then have entry: "page_bytes 64 (iosq dev + 64 * ucast (iosq_head dev)) (submitted i opcode lba page st) = bs"
    using queue_slot(1) [OF q(7)] head by (simp add: sub y_def dev_def)
  have f3: "hhdm_offset (submitted i opcode lba page st) = hhdm_offset st"
    "used_pages (submitted i opcode lba page st) = used_pages st" by (simp_all add: sub d2)
  have "page \<in> used_pages (submitted i opcode lba page st) - queue_pages i (submitted i opcode lba page st)"
    using assms(2) by (simp add: queue_pages_def f3 d3) (simp add: dev_def)
  moreover have "block_offset i lba (submitted i opcode lba page st) + 4096 \<le> capacity i (submitted i opcode lba page st)"
    using assms(3) by (simp add: block_offset_def capacity_def d3) (simp add: dev_def)
  moreover have "statuses i (submitted i opcode lba page st) =
      (replicate NVME_MAX_COMMANDS NVME_COMMAND_FREE)[unat (0 :: u16) := NVME_COMMAND_IN_FLIGHT]"
    by (simp add: statuses_def d3) (simp add: free flip: statuses_def)
  ultimately show "command_pending i opcode 0 lba page (submitted i opcode lba page st)"
    using ok3 entry head unfolding command_pending_def Let_def d3 f3
    by (simp add: NVME_MAX_COMMANDS_def bs_def) (simp add: dev_def)
  have "page_bytes 4096 (page + of_nat 0) s2 = page_bytes 4096 (page + of_nat 0) s1"
    unfolding s2_def using assms(2) iosq(1) y q(2) d1(2,4)
    by (intro page_bytes_other) (simp_all add: queue_pages_def dev_def)
  then show "page_bytes 4096 page (submitted i opcode lba page st) = page_bytes 4096 page st"
    by (simp add: sub s1_def with_statuses_def)
qed

section \<open>What the controller promises\<close>

text \<open>What the driver does not change of a device while it works, and the rest of the state that stays.\<close>

definition fixed_part :: "nvme_device \<Rightarrow> nvme_device" where
  "fixed_part dev = dev\<lparr>iosq_tail := 0, iosq_head := 0, iocq_head := 0, iocq_phase := False, command_statuses := []\<rparr>"

definition same_devices :: "'z device_state_scheme \<Rightarrow> 'z device_state_scheme \<Rightarrow> bool" where
  "same_devices st st' \<longleftrightarrow> map fixed_part (nvme_devices st') = map fixed_part (nvme_devices st) \<and>
     pci_devices st' = pci_devices st \<and> nvmepart_devices st' = nvmepart_devices st \<and> fs_view st' = fs_view st"

definition overwrite :: "(nat \<Rightarrow> u8) \<Rightarrow> nat \<Rightarrow> u8 list \<Rightarrow> nat \<Rightarrow> u8" where
  "overwrite m x bs a = (if x \<le> a \<and> a < x + length bs then bs ! (a - x) else m a)"

lemma overwrite_Nil [simp]: "overwrite m x [] = m"
  by (auto simp: overwrite_def fun_eq_iff)

lemma overwrite_append: "overwrite (overwrite m x bs) (x + length bs) cs = overwrite m x (bs @ cs)"
  by (auto simp: overwrite_def fun_eq_iff nth_append)

lemma overwrite_inside:
  assumes "k + length bs \<le> n"
  shows "overwrite m x (take k (map m [x..<x + n]) @ bs @ drop (k + length bs) (map m [x..<x + n])) = overwrite m (x + k) bs"
  using assms by (auto simp: overwrite_def fun_eq_iff nth_append)

text \<open>
  The bytes of the medium are a function of what the state holds besides the fields of the kernel that the model of
  the driver knows. A read (opcode 2) moves them to the page, a write (opcode 1) takes them from it.
\<close>

definition transferred ::
  "('z \<Rightarrow> nat \<Rightarrow> u8) \<Rightarrow> nat \<Rightarrow> u32 \<Rightarrow> u32 \<Rightarrow> u64 \<Rightarrow> 'z device_state_scheme \<Rightarrow> 'z device_state_scheme \<Rightarrow> bool" where
  "transferred medium i opcode lba page st st' \<longleftrightarrow>
     (let x = block_offset i lba st; old = medium (device_state.more st); new = medium (device_state.more st') in
      if opcode = 2 then page_bytes 4096 page st' = map old [x..<x + 4096] \<and> new = old
      else new = overwrite old x (page_bytes 4096 page st))"

definition command_served :: "nat \<Rightarrow> u16 \<Rightarrow> 'z device_state_scheme \<Rightarrow> 'z device_state_scheme \<Rightarrow> bool" where
  "command_served i c st st' \<longleftrightarrow> queues_ok i st' \<and> same_devices st st' \<and>
     statuses i st' = (replicate NVME_MAX_COMMANDS NVME_COMMAND_FREE)[unat c := NVME_COMMAND_COMPLETED] \<and>
     iosq_tail (nvme_devices st' ! i) = iosq_head (nvme_devices st' ! i) \<and>
     drop_bit 1 (cq_status (iocq (nvme_devices st ! i)) (iocq_head (nvme_devices st ! i)) st') = 0"

lemma same_devices_refl: "same_devices st st"
  by (simp add: same_devices_def)

lemma same_devices_trans: "same_devices st st' \<Longrightarrow> same_devices st' st'' \<Longrightarrow> same_devices st st''"
  by (simp add: same_devices_def)

lemma same_devicesD:
  assumes "same_devices st st'" and "i < length (nvme_devices st)"
  shows "length (nvme_devices st') = length (nvme_devices st)"
    "iosq (nvme_devices st' ! i) = iosq (nvme_devices st ! i)" "iocq (nvme_devices st' ! i) = iocq (nvme_devices st ! i)"
    "lbads_exponent (nvme_devices st' ! i) = lbads_exponent (nvme_devices st ! i)"
    "lba_count (nvme_devices st' ! i) = lba_count (nvme_devices st ! i)"
    "used_pages st' = used_pages st" "block_offset i lba st' = block_offset i lba st" "capacity i st' = capacity i st"
    "queue_pages i st' = queue_pages i st"
proof -
  have m: "map fixed_part (nvme_devices st') = map fixed_part (nvme_devices st)" and v: "fs_view st' = fs_view st"
    using assms(1) by (simp_all add: same_devices_def)
  show len: "length (nvme_devices st') = length (nvme_devices st)" using arg_cong [OF m, of length] by simp
  have f: "fixed_part (nvme_devices st' ! i) = fixed_part (nvme_devices st ! i)"
    using arg_cong [OF m, of "\<lambda>xs. xs ! i"] assms(2) len by simp
  show e: "iosq (nvme_devices st' ! i) = iosq (nvme_devices st ! i)" "iocq (nvme_devices st' ! i) = iocq (nvme_devices st ! i)"
    "lbads_exponent (nvme_devices st' ! i) = lbads_exponent (nvme_devices st ! i)"
    "lba_count (nvme_devices st' ! i) = lba_count (nvme_devices st ! i)"
    using arg_cong [OF f, of iosq] arg_cong [OF f, of iocq] arg_cong [OF f, of lbads_exponent] arg_cong [OF f, of lba_count]
    by (simp_all add: fixed_part_def)
  show "used_pages st' = used_pages st" using fs_viewD(7) [OF v] by (rule truncate_kmem)
  have "acq (nvme_devices st' ! i) = acq (nvme_devices st ! i)" using arg_cong [OF f, of acq] by (simp add: fixed_part_def)
  then show "block_offset i lba st' = block_offset i lba st" "capacity i st' = capacity i st" "queue_pages i st' = queue_pages i st"
    by (simp_all add: block_offset_def capacity_def queue_pages_def e)
qed

lemma same_devices_ok:
  assumes "same_devices st st'" and "device_ok i st"
  shows "device_ok i st'"
proof -
  have i: "i < length (nvme_devices st)" using assms(2) by (simp add: device_ok_def)
  have m: "map fixed_part (nvme_devices st') = map fixed_part (nvme_devices st)" and "pci_devices st' = pci_devices st"
    using assms(1) by (simp_all add: same_devices_def)
  note len = same_devicesD(1) [OF assms(1) i]
  have f: "fixed_part (nvme_devices st' ! i) = fixed_part (nvme_devices st ! i)"
    using arg_cong [OF m, of "\<lambda>xs. xs ! i"] i len by simp
  have "nv_pci_device (nvme_devices st' ! i) = nv_pci_device (nvme_devices st ! i)"
    "dstrd_exponent (nvme_devices st' ! i) = dstrd_exponent (nvme_devices st ! i)"
    "acq_head (nvme_devices st' ! i) = acq_head (nvme_devices st ! i)" "acq (nvme_devices st' ! i) = acq (nvme_devices st ! i)"
    using arg_cong [OF f, of nv_pci_device] arg_cong [OF f, of dstrd_exponent] arg_cong [OF f, of acq_head] arg_cong [OF f, of acq]
    by (simp_all add: fixed_part_def)
  then show ?thesis using assms(2) \<open>pci_devices st' = pci_devices st\<close>
    by (simp add: device_ok_def Let_def len same_devicesD [OF assms(1) i])
qed

lemma same_devices_upd:
  assumes "\<And>d. fixed_part (f d) = fixed_part d"
  shows "same_devices st (upd_nvme i f st)"
proof -
  have "map fixed_part ((nvme_devices st)[i := f (nvme_devices st ! i)]) = map fixed_part (nvme_devices st)"
    by (cases "i < length (nvme_devices st)") (simp_all add: assms map_update list_update_same_conv list_update_beyond)
  then show ?thesis by (simp add: same_devices_def) (simp add: upd_nvme_def)
qed

lemma same_devices_store [simp]: "same_devices st (store_page p bs st)"
proof -
  have "fs_view (store_page p bs st) = fs_view st" unfolding fs_view_def store_page_truncate by (simp add: store_page_def)
  then show ?thesis by (simp add: same_devices_def) (simp add: store_page_def)
qed

lemma same_devices_submitted: "same_devices st (submitted i opcode lba page st)"
  unfolding submitted_def Let_def with_statuses_def
  by (rule same_devices_trans [OF same_devices_trans [OF same_devices_upd same_devices_store] same_devices_upd])
    (simp_all add: fixed_part_def)

lemma doorbell_ok:
  assumes "device_ok i st"
  shows "\<exists>db. doorbell i k st = Inr db"
  using assms by (auto simp: doorbell_def device_ok_def nvme_dev_def array_get_def shl32_def Let_def)

lemma capacity_bound:
  assumes "device_ok i st"
  shows "capacity i st \<le> 2 ^ 44"
proof -
  have "lbads_exponent (nvme_devices st ! i) \<le> 12" "unat (lba_count (nvme_devices st ! i)) \<le> 2 ^ 32"
    using assms by (simp_all add: device_ok_def Let_def)
  then have "unat (lba_count (nvme_devices st ! i)) * 2 ^ unat (lbads_exponent (nvme_devices st ! i)) \<le> 2 ^ 32 * 2 ^ 12"
    by (intro mult_le_mono power_increasing) (simp_all add: word_le_nat_alt)
  then show ?thesis by (simp add: capacity_def)
qed

text \<open>The block that the driver computes is where the page of the offset starts.\<close>

lemma nvme_lba_offset:
  assumes "device_ok i st" and "unat offset < capacity i st"
  shows "\<exists>lba. nvme_lba (nvme_devices st ! i) offset = Inr lba \<and> block_offset i lba st = unat offset div 4096 * 4096"
proof -
  let ?e = "unat (lbads_exponent (nvme_devices st ! i))"
  let ?w = "drop_bit 12 offset" and ?b = "unat offset div 4096 * 2 ^ (12 - ?e)"
  have "lbads_exponent (nvme_devices st ! i) \<le> 12" and blocks: "unat (lba_count (nvme_devices st ! i)) \<le> 2 ^ 32"
    using assms(1) by (simp_all add: device_ok_def Let_def)
  then have e: "?e \<le> 12" "\<not> 12 < lbads_exponent (nvme_devices st ! i)" by (simp_all add: word_le_nat_alt word_less_nat_alt)
  have p: "(4096 :: nat) = 2 ^ (12 - ?e) * 2 ^ ?e" using e(1) by (simp flip: power_add)
  have w: "unat ?w = unat offset div 4096" by (simp add: unat_drop_bit)
  have "?b * 2 ^ ?e = unat offset div 4096 * 4096" by (subst (2) p) simp
  also have "\<dots> \<le> unat offset" by simp
  finally have "?b * 2 ^ ?e < unat (lba_count (nvme_devices st ! i)) * 2 ^ ?e" using assms(2) unfolding capacity_def by (rule le_less_trans)
  then have b: "?b < 2 ^ 32" using blocks by simp
  then have u: "unat (push_bit (12 - ?e) ?w) = ?b"
    by (subst unsigned_push_bit_eq) (simp add: w push_bit_eq_mult take_bit_nat_eq_self)
  then have "unat (ucast (push_bit (12 - ?e) ?w) :: u32) = ?b" using b by (subst unat_ucast_small) simp_all
  moreover have "?b * 2 ^ ?e = unat offset div 4096 * 4096" by (subst (2) p) simp
  ultimately show ?thesis using e(2) by (simp add: nvme_lba_def block_offset_def)
qed

text \<open>One round of a transfer: what is moved lies in one page and inside the device.\<close>

lemma transfer_round:
  assumes "device_ok i st" and "k < len" and "unat offset + (unat len - unat k) \<le> 4096 * (capacity i st div 4096)"
  defines "n \<equiv> nvme_chunk offset (len - k)"
  shows "unat offset mod 4096 + unat n \<le> 4096" "unat k + unat n \<le> unat len" "0 < unat n"
    "unat (k + n) = unat k + unat n" "unat (offset + n) = unat offset + unat n"
    "unat offset < 4096 * (capacity i st div 4096)" "unat k < unat len"
proof -
  have lt: "unat k < unat len" "k \<le> len" using assms(2) by (simp_all add: word_less_nat_alt word_le_nat_alt)
  then show "unat k < unat len" "unat offset < 4096 * (capacity i st div 4096)" using assms(3) by simp_all
  note n = unat_nvme_chunk [OF lt(2), of offset, folded n_def]
  have "unat offset mod 4096 < 4096" by simp
  then show "unat offset mod 4096 + unat n \<le> 4096" "0 < unat n" and le: "unat k + unat n \<le> unat len"
    using n(1) lt(1) unfolding min_def by (auto split: if_splits)
  show "unat (k + n) = unat k + unat n" by (rule n(2))
  have "4096 * (capacity i st div 4096) \<le> 2 ^ 44"
    using capacity_bound [OF assms(1)] times_div_less_eq_dividend [of 4096 "capacity i st"] by linarith
  then show "unat (offset + n) = unat offset + unat n" using assms(3) le by (intro unat_add_no_wrap) simp
qed

lemma idle_queues: "nvme_idle i st \<Longrightarrow> queues_ok i st"
  by (simp add: nvme_idle_def)

lemmas idle_device = queues_okD(12) [OF idle_queues] and idle_kmem = queues_okD(2) [OF idle_queues]
  and idle_index = queues_okD(1) [OF idle_queues]

lemma idle_store:
  assumes "nvme_idle i st" and "page \<in> used_pages st - queue_pages i st" and "length bs \<le> 4096"
  shows "nvme_idle i (store_page page bs st)"
proof -
  have "queues_ok i (store_page page bs st)"
    using queues_ok_store [OF idle_queues [OF assms(1)], of page 0 bs] assms(2,3) by (simp add: queue_pages_def)
  then show ?thesis using assms(1) by (simp add: nvme_idle_def statuses_def) (simp add: store_page_def)
qed

text \<open>A page that is allocated for a transfer and given back.\<close>

lemma queues_cong:
  assumes "queues_ok i st" and "nvme_devices st' = nvme_devices st" and "pci_devices st' = pci_devices st"
    and "frame_bytes st' = frame_bytes st" and "kmem_wf st'" and "queue_pages i st \<subseteq> used_pages st'"
  shows "queues_ok i st'"
proof -
  have "cq_status q p st' = cq_status q p st" for q p by (simp add: cq_status_def page_bytes_def assms(4))
  then have "cq_synced i st' = cq_synced i st" "acq_quiet i st' = acq_quiet i st" by (simp_all add: cq_synced_def acq_quiet_def assms(2))
  moreover have "device_ok i st' = device_ok i st" "queue_pages i st' = queue_pages i st" "command_table_ok i st' = command_table_ok i st"
    by (simp_all add: device_ok_def statuses_def queue_pages_def command_table_ok_def assms(2,3))
  ultimately show ?thesis using assms(1,5,6) by (simp add: queues_ok_def assms(2))
qed

lemma idle_cong:
  assumes "nvme_idle i st" and "nvme_devices st' = nvme_devices st" and "pci_devices st' = pci_devices st"
    and "frame_bytes st' = frame_bytes st" and "kmem_wf st'" and "queue_pages i st \<subseteq> used_pages st'"
  shows "nvme_idle i st'"
  using queues_cong [OF idle_queues [OF assms(1)] assms(2-6)] assms(1) by (simp add: nvme_idle_def statuses_def assms(2))

lemma page_taken:
  assumes "nvme_idle i st" and "kpage_alloc 1 st = Inr (st1, page)"
  shows "nvme_idle i st1" "page \<in> used_pages st1 - queue_pages i st1" "capacity i st1 = capacity i st"
    "device_state.more st1 = device_state.more st" "nvme_devices st1 = nvme_devices st"
proof -
  have m: "nvme_devices st1 = nvme_devices st" "pci_devices st1 = pci_devices st" "frame_bytes st1 = frame_bytes st"
    "device_state.more st1 = device_state.more st"
    using kpage_alloc_more [OF assms(2)] by (cases st; cases st1; simp)+
  note a = kpage_alloc1_used [OF idle_kmem [OF assms(1)] assms(2)]
  have sub: "queue_pages i st \<subseteq> used_pages st" using idle_queues [OF assms(1)] by (simp add: queues_ok_def)
  show "nvme_idle i st1" using sub a by (intro idle_cong [OF assms(1) m(1-3)]) auto
  show "page \<in> used_pages st1 - queue_pages i st1" using sub a by (auto simp: queue_pages_def m)
  show "capacity i st1 = capacity i st" by (simp add: capacity_def m)
qed (use kpage_alloc_more [OF assms(2)] in \<open>cases st; cases st1; simp\<close>)+

lemma page_returned:
  assumes "nvme_idle i st" and "kpage_alloc 1 st = Inr (st1, page)" and "nvme_idle i st2" and "same_devices st1 st2"
  shows "\<exists>st3. kpage_free page 1 st2 = Inr st3 \<and> nvme_idle i st3 \<and> same_devices st st3 \<and>
    device_state.more st3 = device_state.more st2"
proof -
  note wf = idle_kmem [OF assms(1)]
  from kpage_alloc1_cases [OF wf assms(2)] obtain f where f: "f < length (kmem_page_array st)"
    "kmem_page_array st ! f = KPAGE_FREE" and page: "page = page_addr st f"
    and st1: "st1 = st\<lparr>kmem_page_array := (kmem_page_array st)[f := KPAGE_USED], kmem_used_pages := kmem_used_pages st + 1\<rparr>" .
  have v: "fs_view st2 = fs_view st1" using assms(4) by (simp add: same_devices_def)
  have k: "kmem_page_array st2 = (kmem_page_array st)[f := KPAGE_USED]" "kmem_used_pages st2 = kmem_used_pages st + 1"
    "kmem_start st2 = kmem_start st"
    using fs_viewD(7) [OF v] by (simp_all add: slab_state.truncate_def st1)
  let ?st3 = "st2\<lparr>kmem_page_array := kmem_page_array st, kmem_used_pages := kmem_used_pages st\<rparr>"
  have "page_addr st2 f = page" by (simp add: page page_addr_def k)
  moreover have "take f (kmem_page_array st2) @ replicate 1 KPAGE_FREE @ drop (f + 1) (kmem_page_array st2) = kmem_page_array st"
    using f(1) id_take_nth_drop [OF f(1)] by (simp add: k f(2))
  ultimately have free: "kpage_free page 1 st2 = Inr ?st3"
    using kpage_free_eq [OF idle_kmem [OF assms(3)], of f 1] f(1) by (simp add: k)
  have t: "slab_state.truncate ?st3 = slab_state.truncate st"
    using fs_viewD(7) [OF v] by (simp add: slab_state.truncate_def st1)
  have v3: "fs_view ?st3 = fs_view st"
    using fs_viewD(1-6) [OF v] unfolding fs_view_def t by (simp add: st1)
  have q: "queue_pages i st2 \<subseteq> used_pages ?st3"
    using idle_queues [OF assms(1)] same_devicesD(9) [OF assms(4)] idle_index [OF assms(1)]
    by (simp add: truncate_kmem [OF t] queues_ok_def queue_pages_def st1)
  have "nvme_idle i ?st3" using wf q by (intro idle_cong [OF assms(3)]) (simp_all add: truncate_kmem [OF t])
  moreover have "same_devices st ?st3" using assms(4) v3 by (simp add: same_devices_def) (simp add: st1)
  ultimately show ?thesis using free by auto
qed

lemma nvme_of_index:
  assumes "device_ok i st"
  shows "nvme_of (nvme_addr i) st = Inr i"
proof -
  have n: "i < length (nvme_devices st)" "length (nvme_devices st) \<le> 10"
    using assms by (simp_all add: device_ok_def MAX_NVME_DEVICES_def)
  have inj: "j = i" if "j < length (nvme_devices st)" "nvme_addr j = nvme_addr i" for j
  proof -
    have u: "unat (of_nat m * 0x200 :: u64) = m * 0x200" if "m < 10" for m
    proof -
      have "(of_nat m * 0x200 :: u64) = of_nat (m * 0x200)" by simp
      moreover have "unat (of_nat (m * 0x200) :: u64) = m * 0x200" using that by (intro unat_of_nat_small) simp
      ultimately show ?thesis by (simp only:)
    qed
    have "(of_nat j * 0x200 :: u64) = of_nat i * 0x200" using that(2) by (simp add: nvme_addr_def)
    then have "unat (of_nat j * 0x200 :: u64) = unat (of_nat i * 0x200 :: u64)" by (rule arg_cong)
    moreover have "j < 10" "i < 10" using that(1) n by simp_all
    ultimately have "j * 0x200 = i * 0x200" by (simp only: u)
    then show ?thesis by simp
  qed
  have "nvme_addr j \<noteq> nvme_addr i" if "j < i" for j
  proof
    assume "nvme_addr j = nvme_addr i"
    moreover have "j < length (nvme_devices st)" using that n(1) by simp
    ultimately show False using inj [of j] that by simp
  qed
  then have "find (\<lambda>j. nvme_addr j = nvme_addr i) [0..<length (nvme_devices st)] = Some i"
    unfolding find_Some_iff using n(1) by (intro exI [of _ i]) (auto simp del: upt_Suc)
  then show ?thesis by (simp add: nvme_of_def)
qed

lemma sless_small:
  assumes "unat v < 2 ^ 63" and "unat w < 2 ^ 63"
  shows "v <s w \<longleftrightarrow> unat v < unat (w :: u64)"
proof -
  have "sint x = int (unat x)" if "unat x < 2 ^ 63" for x :: u64
  proof -
    have "int (unat x) < int (2 ^ 63)" using that by (simp only: of_nat_less_iff)
    then have "uint x < 2 ^ 63" by simp
    then have "signed_take_bit 63 (uint x) = uint x" using order_trans [OF _ uint_ge_0 [of x], of "- (2 ^ 63)"]
      by (intro signed_take_bit_int_eq_self) simp_all
    then show ?thesis by (simp add: sint_uint)
  qed
  then show ?thesis using assms by (simp add: word_sless_alt) (simp flip: word_less_def word_less_nat_alt)
qed

lemma nvme_bytes_left_eq:
  assumes "device_ok i st" and "unat offset \<le> capacity i st"
  shows "\<exists>n. nvme_bytes_left (nvme_devices st ! i) offset = Inr n \<and> unat n = capacity i st - unat offset"
proof -
  have "lbads_exponent (nvme_devices st ! i) < 64"
    using assms(1) by (auto simp: device_ok_def Let_def elim: le_less_trans)
  moreover have lt: "capacity i st < 2 ^ 64" using capacity_bound [OF assms(1)] by simp
  ultimately obtain total where total: "shl64 (lba_count (nvme_devices st ! i)) (lbads_exponent (nvme_devices st ! i)) = Inr total"
    "unat total = capacity i st" using shl64_small unfolding capacity_def by blast
  have u: "unat (total - offset) = capacity i st - unat offset"
    using assms(2) by (simp add: unat_sub_no_wrap word_le_nat_alt total(2))
  then have "unat (total - offset) < 2 ^ 63" using capacity_bound [OF assms(1)] by simp
  then have "\<not> total - offset <s 0" using sless_small [of "total - offset" 0] by simp
  then show ?thesis using total(1) u by (simp add: nvme_bytes_left_def)
qed

text \<open>
  The promise: when the doorbell of the submission queue is rung, the command is carried out while the
  driver waits, its completion reports success, and the kernel's data stay as they are.
\<close>

locale nvme_controller =
  fixes hw :: "('z device_state_scheme) hardware" and i :: nat and medium :: "'z \<Rightarrow> nat \<Rightarrow> u8"
  assumes serves: "command_pending i opcode c lba page st \<Longrightarrow> opcode = 1 \<or> opcode = 2 \<Longrightarrow> doorbell i 2 st = Inr db \<Longrightarrow>
    \<exists>st'. await_command_finish hw i c (hw_mmio_write32 hw db (ucast (iosq_tail (nvme_devices st ! i))) st) = Inr st' \<and>
      command_served i c st st' \<and> transferred medium i opcode lba page st st'"
begin

lemma page_command:
  assumes "nvme_idle i st" and "page \<in> used_pages st - queue_pages i st" and "opcode = 1 \<or> opcode = 2"
    and "block_offset i lba st + 4096 \<le> capacity i st"
  shows "\<exists>st'. nvme_page_command hw opcode name i lba page st = Inr st' \<and> nvme_idle i st' \<and> same_devices st st' \<and>
    transferred medium i opcode lba page st st'"
proof -
  let ?s = "submitted i opcode lba page st" and ?dev = "nvme_devices st ! i"
  have ok: "queues_ok i st" and head: "iosq_tail ?dev = iosq_head ?dev"
    and free: "statuses i st = replicate NVME_MAX_COMMANDS NVME_COMMAND_FREE" using assms(1) by (simp_all add: nvme_idle_def)
  note q = queues_okD [OF ok]
  note pending = submitted_pending [OF assms(1,2,4), of opcode]
  have oks: "queues_ok i ?s" using pending(1) by (simp add: command_pending_def)
  from doorbell_ok [OF queues_okD(12) [OF oks]] obtain db where db: "doorbell i 2 ?s = Inr db" by blast
  from serves [OF pending(1) assms(3) db] obtain st' where
    wait: "await_command_finish hw i 0 (hw_mmio_write32 hw db (ucast (iosq_tail (nvme_devices ?s ! i))) ?s) = Inr st'"
    and served: "command_served i 0 ?s st'" and moved: "transferred medium i opcode lba page ?s st'" by blast
  have sd: "same_devices st ?s" "same_devices ?s st'" using same_devices_submitted served by (simp_all add: command_served_def)
  have dev_s: "nvme_devices ?s ! i = ?dev\<lparr>command_statuses := (statuses i st)[0 := NVME_COMMAND_IN_FLIGHT],
      iosq_tail := queue_next (iosq_tail ?dev)\<rparr>"
    using q(1) by (simp add: submitted_def with_statuses_def Let_def upd_nvme_def store_page_def)
  have ok': "queues_ok i st'" "statuses i st' = (replicate NVME_MAX_COMMANDS NVME_COMMAND_FREE)[0 := NVME_COMMAND_COMPLETED]"
    "iosq_tail (nvme_devices st' ! i) = iosq_head (nvme_devices st' ! i)"
    "drop_bit 1 (cq_status (iocq ?dev) (iocq_head ?dev) st') = 0"
    using served by (simp_all add: command_served_def dev_s)
  let ?st = "with_statuses i ((statuses i st')[0 := NVME_COMMAND_FREE]) st'"
  have freed: "free_command i 0 st' = Inr ?st"
    by (simp add: free_command_def set_command_status_eq [OF queues_okD(10) [OF ok'(1)]] NVME_MAX_COMMANDS_def)
  have all: "(statuses i st')[0 := NVME_COMMAND_FREE] = replicate NVME_MAX_COMMANDS NVME_COMMAND_FREE"
    unfolding ok'(2) by (simp add: NVME_MAX_COMMANDS_def list_update_same_conv)
  note q' = queues_okD [OF ok'(1)]
  have idle: "nvme_idle i ?st" unfolding nvme_idle_def
    using queues_ok_statuses [OF ok'(1), of NVME_COMMAND_FREE 0] all q'(1) ok'(3)
    by (simp add: with_statuses_simps) (simp add: with_statuses_def)
  have same: "same_devices st' ?st" unfolding with_statuses_def by (rule same_devices_upd) (simp add: fixed_part_def)
  have iocq: "iocq (nvme_devices ?st ! i) = iocq ?dev"
    using same_devicesD(3) [OF same_devices_trans [OF same_devices_trans [OF sd] same] q(1)] .
  have status: "cq_status (iocq ?dev) (iocq_head ?dev) ?st = cq_status (iocq ?dev) (iocq_head ?dev) st'"
    by (simp add: with_statuses_def)
  have notfull: "poll_while (hw_polls hw) (iosq_full i) (hw_yield hw) st = Inr st"
    using unat_queue_next [OF q(7)] q(1,7) head
    by (subst poll_while.simps) (auto simp: iosq_full_def NVME_QUEUE_SIZE_def mod_Suc split: if_splits)
  have "nvme_page_command hw opcode name i lba page st = Inr ?st"
  proof -
    have e: "lbads_exponent ?dev < 32" using q(11) by (rule le_less_trans) simp
    have "nvme_dev i (with_statuses i ((statuses i st)[0 := NVME_COMMAND_IN_FLIGHT]) st) =
        Inr (?dev\<lparr>command_statuses := (statuses i st)[0 := NVME_COMMAND_IN_FLIGHT]\<rparr>)"
      using q(1) by (simp add: nvme_dev_def array_get_def with_statuses_def)
    moreover have "nvme_dev i ?st = Inr (nvme_devices ?st ! i)" using q'(1) by (simp add: nvme_dev_def array_get_def with_statuses_simps)
    moreover have "hhdm_offset (with_statuses i ((statuses i st)[0 := NVME_COMMAND_IN_FLIGHT]) st) = hhdm_offset st"
      by (simp add: with_statuses_def)
    moreover have "await_command_finish hw i 0 (hw_mmio_write32 hw db (ucast (queue_next (iosq_tail ?dev))) ?s) = Inr st'"
      using wait by (simp add: dev_s)
    ultimately show ?thesis
      unfolding nvme_page_command_def notfull res_bind_Inr idle_start_command [OF assms(1)] Let_def prod.case
      using db e freed iocq status ok'(4)
      by (simp add: shr32_def submitted_def [of i opcode lba page st, unfolded Let_def, symmetric])
  qed
  moreover have "same_devices st ?st" by (rule same_devices_trans [OF same_devices_trans [OF sd] same])
  moreover have "transferred medium i opcode lba page st ?st"
  proof -
    have m: "device_state.more ?s = device_state.more st"
      by (simp add: submitted_def with_statuses_def Let_def) (simp add: store_page_def)
    have n: "page_bytes 4096 page ?st = page_bytes 4096 page st'" "device_state.more ?st = device_state.more st'"
      by (simp_all add: with_statuses_def)
    show ?thesis using moved unfolding transferred_def Let_def same_devicesD(7) [OF sd(1) q(1)] pending(2) m n .
  qed
  ultimately show ?thesis using idle by blast
qed

lemma offset_command:
  assumes "nvme_idle i st" and "page \<in> used_pages st - queue_pages i st" and "opcode = 1 \<or> opcode = 2"
    and "unat offset < 4096 * (capacity i st div 4096)"
  shows "\<exists>lba st'. nvme_lba (nvme_devices st ! i) offset = Inr lba \<and> nvme_page_command hw opcode name i lba page st = Inr st' \<and>
    nvme_idle i st' \<and> same_devices st st' \<and> block_offset i lba st = unat offset div 4096 * 4096 \<and>
    transferred medium i opcode lba page st st'"
proof -
  have ok: "device_ok i st" by (rule idle_device [OF assms(1)])
  have "unat offset < capacity i st" using assms(4) times_div_less_eq_dividend [of 4096 "capacity i st"] by linarith
  from nvme_lba_offset [OF ok this] obtain lba where lba: "nvme_lba (nvme_devices st ! i) offset = Inr lba"
    "block_offset i lba st = unat offset div 4096 * 4096" by blast
  have "unat offset div 4096 < capacity i st div 4096" using assms(4) by (simp add: less_mult_imp_div_less mult.commute)
  then have "(unat offset div 4096 + 1) * 4096 \<le> capacity i st div 4096 * 4096" by (intro mult_le_mono1) simp
  then have "block_offset i lba st + 4096 \<le> capacity i st" using lba(2) by simp
  from page_command [OF assms(1-3) this, of name] lba show ?thesis by blast
qed

lemma read_loop:
  assumes "nvme_idle i st" and "page \<in> used_pages st - queue_pages i st" and "unat k \<le> unat len"
    and "unat offset + (unat len - unat k) \<le> 4096 * (capacity i st div 4096)" and "unat len \<le> length buffer"
  shows "\<exists>st'. nvme_read_loop hw i page len offset k buffer st =
      Inr (st', take (unat k) buffer @
        map (medium (device_state.more st)) [unat offset..<unat offset + (unat len - unat k)] @ drop (unat len) buffer) \<and>
    nvme_idle i st' \<and> same_devices st st' \<and> medium (device_state.more st') = medium (device_state.more st)"
  using assms
proof (induction "unat len - unat k" arbitrary: k offset buffer st rule: less_induct)
  case less
  note step = nvme_read_loop.simps [of hw i page len offset k buffer st]
  show ?case
  proof (cases "k < len")
    case False
    then have "unat k = unat len" using less.prems(3) by (simp add: word_less_nat_alt)
    with False show ?thesis using less.prems(1) by (simp add: step same_devices_refl)
  next
    case True

    note r = transfer_round [OF idle_device [OF less.prems(1)] True less.prems(4)]
    note i = idle_index [OF less.prems(1)]
    from offset_command [OF less.prems(1,2) _ r(6), of 2 "''Read''"] obtain lba st1 where
      lba: "nvme_lba (nvme_devices st ! i) offset = Inr lba" "block_offset i lba st = unat offset div 4096 * 4096"
      and run: "nvme_readpage hw i lba page st = Inr st1" and st1: "nvme_idle i st1" "same_devices st st1"
      and moved: "transferred medium i 2 lba page st st1" by (auto simp: nvme_readpage_def)
    let ?m = "medium (device_state.more st)" and ?n = "nvme_chunk offset (len - k)" and ?o = "unat offset mod 4096"
    have page: "page_bytes 4096 page st1 = map ?m [unat offset div 4096 * 4096..<unat offset div 4096 * 4096 + 4096]"
      and m1: "medium (device_state.more st1) = ?m"
      using moved by (simp_all add: transferred_def Let_def lba(2))
    have bytes: "take (unat ?n) (drop ?o (page_bytes 4096 page st1)) = map ?m [unat offset..<unat offset + unat ?n]"
    proof -
      have "unat offset div 4096 * 4096 + ?o = unat offset" by simp
      moreover from this have "unat offset + unat ?n \<le> unat offset div 4096 * 4096 + 4096" using r(1) by linarith
      ultimately show ?thesis unfolding page drop_map take_map drop_upt by (simp only: take_upt)
    qed
    let ?b = "take (unat k) buffer @ map ?m [unat offset..<unat offset + unat ?n] @ drop (unat k + unat ?n) buffer"
    have blit: "blit buffer (unat k) (page_bytes 4096 page st1) (unat (offset mod 4096)) (unat ?n) = Inr ?b"
      using r less.prems(5) by (subst blit_ok) (simp_all add: unat_mod_distrib bytes)
    note same = same_devicesD [OF st1(2) i]
    have "\<exists>st'. nvme_read_loop hw i page len (offset + ?n) (k + ?n) ?b st1 =
        Inr (st', take (unat (k + ?n)) ?b @
          map (medium (device_state.more st1)) [unat (offset + ?n)..<unat (offset + ?n) + (unat len - unat (k + ?n))] @ drop (unat len) ?b) \<and>
      nvme_idle i st' \<and> same_devices st1 st' \<and> medium (device_state.more st') = medium (device_state.more st1)"
      using r less.prems(2,4,5) by (intro less.hyps st1(1)) (simp_all add: same)
    then obtain st' where st': "nvme_read_loop hw i page len (offset + ?n) (k + ?n) ?b st1 =
        Inr (st', take (unat (k + ?n)) ?b @
          map ?m [unat (offset + ?n)..<unat (offset + ?n) + (unat len - unat (k + ?n))] @ drop (unat len) ?b)"
      "nvme_idle i st'" "same_devices st1 st'" "medium (device_state.more st') = ?m" unfolding m1 by blast
    have "take (unat (k + ?n)) ?b @ map ?m [unat (offset + ?n)..<unat (offset + ?n) + (unat len - unat (k + ?n))] @ drop (unat len) ?b =
        take (unat k) buffer @ map ?m [unat offset..<unat offset + (unat len - unat k)] @ drop (unat len) buffer"
    proof -
      have "[unat offset..<unat offset + (unat len - unat k)] =
          [unat offset..<unat offset + unat ?n] @ [unat offset + unat ?n..<unat offset + unat ?n + (unat len - (unat k + unat ?n))]"
        using upt_add_eq_append [of "unat offset" "unat offset + unat ?n" "unat len - (unat k + unat ?n)"] r(2) by simp
      then show ?thesis using r less.prems(5) by simp
    qed
    then show ?thesis
      using st' True i lba(1) run blit same_devices_trans [OF st1(2) st'(3)]
      by (simp add: step nvme_dev_def array_get_def)
  qed
qed

lemma write_loop:
  assumes "nvme_idle i st" and "page \<in> used_pages st - queue_pages i st" and "unat k \<le> unat len"
    and "unat offset + (unat len - unat k) \<le> 4096 * (capacity i st div 4096)" and "unat len \<le> length buffer"
  shows "\<exists>st'. nvme_write_loop hw i page len offset k buffer st = Inr st' \<and> nvme_idle i st' \<and> same_devices st st' \<and>
    medium (device_state.more st') =
      overwrite (medium (device_state.more st)) (unat offset) (take (unat len - unat k) (drop (unat k) buffer))"
  using assms
proof (induction "unat len - unat k" arbitrary: k offset st rule: less_induct)
  case less
  note step = nvme_write_loop.simps [of hw i page len offset k buffer st]
  show ?case
  proof (cases "k < len")
    case False
    then have "unat k = unat len" using less.prems(3) by (simp add: word_less_nat_alt)
    with False show ?thesis using less.prems(1) by (simp add: step same_devices_refl)
  next
    case True
    note r = transfer_round [OF idle_device [OF less.prems(1)] True less.prems(4)]
    note i = idle_index [OF less.prems(1)]
    let ?m = "medium (device_state.more st)" and ?n = "nvme_chunk offset (len - k)" and ?o = "unat offset mod 4096"
      and ?x = "unat offset div 4096 * 4096"
    from offset_command [OF less.prems(1,2) _ r(6), of 2 "''Read''"] obtain lba st1 where
      lba: "nvme_lba (nvme_devices st ! i) offset = Inr lba" "block_offset i lba st = ?x"
      and read: "nvme_readpage hw i lba page st = Inr st1" and st1: "nvme_idle i st1" "same_devices st st1"
      and moved: "transferred medium i 2 lba page st st1" by (auto simp: nvme_readpage_def)
    have page: "page_bytes 4096 page st1 = map ?m [?x..<?x + 4096]" and m1: "medium (device_state.more st1) = ?m"
      using moved by (simp_all add: transferred_def Let_def lba(2))
    note same = same_devicesD [OF st1(2) i]
    let ?bs = "take (unat ?n) (drop (unat k) buffer)"
    let ?p = "take ?o (map ?m [?x..<?x + 4096]) @ ?bs @ drop (?o + unat ?n) (map ?m [?x..<?x + 4096])"
    have bs: "length ?bs = unat ?n" using r(2) less.prems(5) by simp
    then have lp: "length ?p = 4096" using r(1) by simp
    have blit: "blit (page_bytes 4096 page st1) (unat (offset mod 4096)) buffer (unat k) (unat ?n) = Inr ?p"
      using r less.prems(5) by (subst blit_ok) (simp_all add: unat_mod_distrib page)
    let ?st = "store_page page ?p st1"
    have pg: "page \<in> used_pages st1 - queue_pages i st1" using less.prems(2) by (simp add: same)
    have idle: "nvme_idle i ?st" using lp by (intro idle_store [OF st1(1) pg]) simp
    have sd: "same_devices st1 ?st" by simp
    note sames = same_devicesD [OF sd idle_index [OF st1(1)]]
    from offset_command [OF idle, of page 1 offset "''Write''"] r(6) pg obtain lba' st2 where
      "nvme_lba (nvme_devices ?st ! i) offset = Inr lba'" and st2: "nvme_writepage hw i lba' page ?st = Inr st2" "nvme_idle i st2"
      "same_devices ?st st2" and wrote: "transferred medium i 1 lba' page ?st st2"
      by (auto simp: sames same nvme_writepage_def)
    moreover have "nvme_lba (nvme_devices ?st ! i) offset = Inr lba"
      using lba(1) by (simp add: nvme_lba_def sames same split: if_splits)
    ultimately have "lba' = lba" by simp
    have "page_bytes 4096 page ?st = ?p" using page_bytes_store [of ?p page st1] lp by simp
    moreover have "device_state.more ?st = device_state.more st1" by (simp add: store_page_def)
    moreover have "block_offset i lba ?st = ?x" using lba(2) by (simp only: sames same)
    ultimately have "medium (device_state.more st2) = overwrite ?m ?x ?p"
      using wrote unfolding \<open>lba' = lba\<close> by (simp add: transferred_def Let_def m1)
    also have "\<dots> = overwrite ?m (unat offset) ?bs"
      using overwrite_inside [of ?o ?bs 4096 ?m ?x] r(1) unfolding bs by simp
    finally have m2: "medium (device_state.more st2) = overwrite ?m (unat offset) ?bs" .
    have sd2: "same_devices st st2" by (rule same_devices_trans [OF same_devices_trans [OF st1(2) sd] st2(3)])
    note same2 = same_devicesD [OF sd2 i]
    have "\<exists>st'. nvme_write_loop hw i page len (offset + ?n) (k + ?n) buffer st2 = Inr st' \<and> nvme_idle i st' \<and> same_devices st2 st' \<and>
      medium (device_state.more st') = overwrite (medium (device_state.more st2)) (unat (offset + ?n))
        (take (unat len - unat (k + ?n)) (drop (unat (k + ?n)) buffer))"
      using r less.prems(2,4,5) by (intro less.hyps st2(2)) (simp_all add: same2)
    then obtain st' where st': "nvme_write_loop hw i page len (offset + ?n) (k + ?n) buffer st2 = Inr st'" "nvme_idle i st'"
      "same_devices st2 st'" "medium (device_state.more st') = overwrite (overwrite ?m (unat offset) ?bs) (unat offset + length ?bs)
        (take (unat len - (unat k + unat ?n)) (drop (unat k + unat ?n) buffer))"
      unfolding m2 bs r(4,5) by blast
    have "?bs @ take (unat len - (unat k + unat ?n)) (drop (unat k + unat ?n) buffer) = take (unat len - unat k) (drop (unat k) buffer)"
    proof -
      have "unat len - unat k = unat ?n + (unat len - (unat k + unat ?n))" using r(2,7) by simp
      then show ?thesis by (simp add: take_add add.commute)
    qed
    then have "medium (device_state.more st') = overwrite ?m (unat offset) (take (unat len - unat k) (drop (unat k) buffer))"
      using st'(4) by (simp only: overwrite_append)
    then show ?thesis
      using st'(1,2) True i lba(1) read blit st2(1) same_devices_trans [OF sd2 st'(3)] unfolding \<open>lba' = lba\<close>
      by (simp add: step nvme_dev_def array_get_def page)
  qed
qed

lemma nvme_read_ok:
  assumes "nvme_idle i st" and "kpage_alloc 1 st = Inr (st1, page)" and "4096 dvd capacity i st"
    and "unat offset \<le> capacity i st" and "unat len < 2 ^ 63" and "unat len \<le> length buffer"
  defines "n \<equiv> min (unat len) (capacity i st - unat offset)"
  shows "\<exists>st' r. nvme_read hw (nvme_addr i) buffer offset len st =
      Inr (st', map (medium (device_state.more st)) [unat offset..<unat offset + n] @ drop n buffer, r) \<and> unat r = n \<and>
    nvme_idle i st' \<and> same_devices st st' \<and> medium (device_state.more st') = medium (device_state.more st)"
proof -
  note idle1 = page_taken [OF assms(1,2)]
  note ok1 = idle_device [OF idle1(1)]
  from nvme_bytes_left_eq [OF ok1] assms(4) obtain left where left: "nvme_bytes_left (nvme_devices st1 ! i) offset = Inr left"
    "unat left = capacity i st - unat offset" unfolding idle1(3) by blast
  have "unat left < 2 ^ 63" using left(2) capacity_bound [OF idle_device [OF assms(1)]] by simp
  define r where "r = (if left <s len then left else len)"
  have r: "unat r = n" unfolding r_def n_def sless_small [OF \<open>unat left < 2 ^ 63\<close> assms(5)] using left(2) by simp
  have bound: "unat offset + (unat r - unat (0 :: u64)) \<le> 4096 * (capacity i st1 div 4096)"
    using assms(3,4) by (simp add: r n_def idle1(3))
  have "unat r \<le> length buffer" using assms(6) by (simp add: r n_def)
  from read_loop [OF idle1(1,2) _ bound this] obtain st2 where
    st2: "nvme_read_loop hw i page r offset 0 buffer st1 =
      Inr (st2, map (medium (device_state.more st)) [unat offset..<unat offset + n] @ drop n buffer)"
    "nvme_idle i st2" "same_devices st1 st2" "medium (device_state.more st2) = medium (device_state.more st)"
    unfolding idle1(4) by (auto simp: r)
  from page_returned [OF assms(1,2) st2(2,3)] obtain st3 where st3: "kpage_free page 1 st2 = Inr st3" "nvme_idle i st3"
    "same_devices st st3" "device_state.more st3 = device_state.more st2" by blast
  have "nvme_read hw (nvme_addr i) buffer offset len st =
      Inr (st3, map (medium (device_state.more st)) [unat offset..<unat offset + n] @ drop n buffer, r)"
    using nvme_of_index [OF idle_device [OF assms(1)]] assms(2) left(1) st2(1) st3(1)
    by (simp add: nvme_read_def Let_def r_def [symmetric])
  then show ?thesis using r st3 st2(4) by simp
qed

lemma nvme_write_ok:
  assumes "nvme_idle i st" and "kpage_alloc 1 st = Inr (st1, page)" and "4096 dvd capacity i st"
    and "unat offset \<le> capacity i st" and "unat len \<le> length buffer"
  defines "n \<equiv> min (unat len) (capacity i st - unat offset)"
  shows "\<exists>st' r. nvme_write hw (nvme_addr i) buffer offset len st = Inr (st', r) \<and> unat r = n \<and>
    nvme_idle i st' \<and> same_devices st st' \<and>
    medium (device_state.more st') = overwrite (medium (device_state.more st)) (unat offset) (take n buffer)"
proof -
  note idle1 = page_taken [OF assms(1,2)]
  note ok1 = idle_device [OF idle1(1)]
  from nvme_bytes_left_eq [OF ok1] assms(4) obtain left where left: "nvme_bytes_left (nvme_devices st1 ! i) offset = Inr left"
    "unat left = capacity i st - unat offset" unfolding idle1(3) by blast
  define r where "r = (if len > left then left else len)"
  have r: "unat r = n" unfolding r_def n_def using left(2) by (simp add: word_less_nat_alt)
  have bound: "unat offset + (unat r - unat (0 :: u64)) \<le> 4096 * (capacity i st1 div 4096)"
    using assms(3,4) by (simp add: r n_def idle1(3))
  have "unat r \<le> length buffer" using assms(5) by (simp add: r n_def)
  from write_loop [OF idle1(1,2) _ bound this] obtain st2 where
    st2: "nvme_write_loop hw i page r offset 0 buffer st1 = Inr st2" "nvme_idle i st2" "same_devices st1 st2"
    "medium (device_state.more st2) = overwrite (medium (device_state.more st)) (unat offset) (take n buffer)"
    unfolding idle1(4) by (auto simp: r)
  from page_returned [OF assms(1,2) st2(2,3)] obtain st3 where st3: "kpage_free page 1 st2 = Inr st3" "nvme_idle i st3"
    "same_devices st st3" "device_state.more st3 = device_state.more st2" by blast
  have "nvme_write hw (nvme_addr i) buffer offset len st = Inr (st3, r)"
    using nvme_of_index [OF idle_device [OF assms(1)]] assms(2) left(1) st2(1) st3(1)
    by (simp add: nvme_write_def Let_def r_def [symmetric])
  then show ?thesis using r st3 st2(4) by simp
qed

end

section \<open>The driver as a block device\<close>

text \<open>
  The device serves when it is idle, there is a page left for the driver's transfers, its capacity is a number of whole
  pages, and the medium holds the bytes of the disk. The page of the client is none of the queues.
\<close>

definition nvme_serving ::
  "nat \<Rightarrow> ('z \<Rightarrow> nat \<Rightarrow> u8) \<Rightarrow> u8 list \<Rightarrow> u64 \<Rightarrow> 'z device_state_scheme \<Rightarrow> bool" where
  "nvme_serving i medium disk page st \<longleftrightarrow> nvme_idle i st \<and> page \<in> used_pages st - queue_pages i st \<and>
     KPAGE_FREE \<in> set (kmem_page_array st) \<and> 4096 dvd capacity i st \<and>
     disk = map (medium (device_state.more st)) [0..<capacity i st]"

definition partition_serving ::
  "nat \<Rightarrow> nat \<Rightarrow> ('z \<Rightarrow> nat \<Rightarrow> u8) \<Rightarrow> u8 list \<Rightarrow> u64 \<Rightarrow> 'z device_state_scheme \<Rightarrow> bool" where
  "partition_serving k i medium disk page st \<longleftrightarrow>
     nvme_serving i medium (map (medium (device_state.more st)) [0..<capacity i st]) page st \<and>
     nvmepart_of (nvmepart_addr k) st = Inr k \<and> np_nvme_device (nvmepart_devices st ! k) = i \<and>
     first_lba (nvmepart_devices st ! k) \<le> last_lba (nvmepart_devices st ! k) \<and>
     partition_end (nvmepart_devices st ! k) (nvme_devices st ! i) \<le> capacity i st \<and>
     disk = map (medium (device_state.more st))
       [partition_start (nvmepart_devices st ! k) (nvme_devices st ! i)..<partition_end (nvmepart_devices st ! k) (nvme_devices st ! i)]"

lemma take_drop_medium:
  assumes "unat offset + unat len \<le> n - m"
  shows "take (unat len) (drop (unat offset) (map f [m..<n])) = map f [m + unat offset..<m + unat offset + unat len]"
  using assms by (cases "m \<le> n") (simp_all add: drop_map take_map)

lemma serving_alloc:
  assumes "nvme_serving i medium disk page st"
  shows "\<exists>st1 temp_page. kpage_alloc 1 st = Inr (st1, temp_page)"
proof -
  have free: "KPAGE_FREE \<in> set (kmem_page_array st)" and idle: "nvme_idle i st" using assms by (simp_all add: nvme_serving_def)
  from free obtain f where "f < length (kmem_page_array st)" "kmem_page_array st ! f = KPAGE_FREE" by (auto simp: in_set_conv_nth)
  then show ?thesis by (rule kpage_alloc_ex [OF idle_kmem [OF idle]])
qed

lemma serving_same:
  assumes "nvme_serving i medium disk page st" and "nvme_idle i st'" and "same_devices st st'"
    and "medium (device_state.more st') = medium (device_state.more st)"
  shows "nvme_serving i medium disk page st'"
proof -
  have i: "i < length (nvme_devices st)" using assms(1) idle_index by (auto simp: nvme_serving_def)
  have v: "fs_view st' = fs_view st" using assms(3) by (simp add: same_devices_def)
  have "kmem_page_array st' = kmem_page_array st" using fs_viewD(7) [OF v] by (simp add: slab_state.truncate_def)
  then show ?thesis using assms(1,2,4) same_devicesD [OF assms(3) i] by (simp add: nvme_serving_def)
qed

lemma serving_store:
  assumes "nvme_serving i medium disk page st" and "length bytes \<le> 4096"
  shows "nvme_serving i medium disk page (upd_file filp f (store_page page bytes st))"
proof -
  let ?s = "store_page page bytes st" and ?st = "upd_file filp f (store_page page bytes st)"
  have idle: "nvme_idle i st" and page: "page \<in> used_pages st - queue_pages i st" using assms(1) by (simp_all add: nvme_serving_def)
  have t: "slab_state.truncate ?st = slab_state.truncate st" by simp
  have m: "nvme_devices ?st = nvme_devices st" "pci_devices ?st = pci_devices st" "frame_bytes ?st = frame_bytes ?s"
    "nvme_devices ?s = nvme_devices st" "pci_devices ?s = pci_devices st" "device_state.more ?st = device_state.more st"
    "kmem_page_array ?st = kmem_page_array st"
    by (simp_all add: upd_file_def store_page_def)
  have "nvme_idle i ?st"
    using idle_kmem [OF idle] idle_queues [OF idle]
    by (intro idle_cong [OF idle_store [OF idle page assms(2)]])
      (simp_all add: m truncate_kmem [OF t] queue_pages_def queues_ok_def)
  then show ?thesis using assms(1)
    by (simp add: nvme_serving_def truncate_kmem [OF t] m capacity_def queue_pages_def)
qed

context nvme_controller begin

lemma read_serving:
  assumes "nvme_serving i medium disk page st" and "unat offset + unat len \<le> capacity i st" and "unat len \<le> length buffer"
  shows "\<exists>st'. nvme_read hw (nvme_addr i) buffer offset len st =
      Inr (st', map (medium (device_state.more st)) [unat offset..<unat offset + unat len] @ drop (unat len) buffer, len) \<and>
    same_devices st st' \<and> nvme_serving i medium disk page st' \<and> medium (device_state.more st') = medium (device_state.more st)"
proof -
  from serving_alloc [OF assms(1)] obtain st1 temp_page where a: "kpage_alloc 1 st = Inr (st1, temp_page)" by blast
  have s: "nvme_idle i st" "4096 dvd capacity i st" using assms(1) by (simp_all add: nvme_serving_def)
  have "unat len < 2 ^ 63" using capacity_bound [OF idle_device [OF s(1)]] assms(2) by simp
  moreover have "unat offset \<le> capacity i st" "min (unat len) (capacity i st - unat offset) = unat len" using assms(2) by simp_all
  ultimately obtain st' r where r: "nvme_read hw (nvme_addr i) buffer offset len st =
      Inr (st', map (medium (device_state.more st)) [unat offset..<unat offset + unat len] @ drop (unat len) buffer, r)"
    "unat r = unat len" "nvme_idle i st'" "same_devices st st'" "medium (device_state.more st') = medium (device_state.more st)"
    using nvme_read_ok [OF s(1) a s(2) _ _ assms(3), of offset] by auto
  have "r = len" using r(2) by (simp add: word_unat_eq_iff)
  with r serving_same [OF assms(1) r(3-5)] show ?thesis by blast
qed

lemma read_partition:
  assumes "partition_serving k i medium disk page st" and "unat offset + unat len \<le> length disk" and "unat len \<le> length buffer"
  shows "\<exists>st'. nvmepart_read hw (nvmepart_addr k) buffer offset len st =
      Inr (st', take (unat len) (drop (unat offset) disk) @ drop (unat len) buffer, len) \<and>
    same_devices st st' \<and> partition_serving k i medium disk page st'"
proof -
  let ?p = "nvmepart_devices st ! k" and ?dev = "nvme_devices st ! i" and ?m = "medium (device_state.more st)"
  have s: "nvme_serving i medium (map ?m [0..<capacity i st]) page st" "nvmepart_of (nvmepart_addr k) st = Inr k"
    "np_nvme_device ?p = i" "first_lba ?p \<le> last_lba ?p" "partition_end ?p ?dev \<le> capacity i st"
    "disk = map ?m [partition_start ?p ?dev..<partition_end ?p ?dev]"
    using assms(1) by (simp_all add: partition_serving_def)
  have idle: "nvme_idle i st" using s(1) by (simp add: nvme_serving_def)
  note i = idle_index [OF idle] and cap = capacity_bound [OF idle_device [OF idle]]
  have fit: "unat offset + unat len \<le> partition_end ?p ?dev - partition_start ?p ?dev" using assms(2) by (simp add: s(6))
  have le: "partition_start ?p ?dev \<le> partition_end ?p ?dev"
    unfolding partition_start_def partition_end_def using s(4) by (intro mult_le_mono1) (simp add: word_le_nat_alt)
  have dev: "nvme_dev (np_nvme_device ?p) st = Inr ?dev" using i by (simp add: nvme_dev_def array_get_def s(3))
  have e: "lbads_exponent ?dev < 64" using queues_okD(11) [OF idle_queues [OF idle]] by (rule le_less_trans) simp
  have b: "partition_end ?p ?dev < 2 ^ 64" "unat offset + partition_start ?p ?dev < 2 ^ 64" using s(5) cap fit le by simp_all
  from nvmepart_window_eq [OF s(2) dev e s(4) b] obtain start n where w: "nvmepart_window (nvmepart_addr k) offset st = Inr (i, start, n)"
    "unat start = partition_start ?p ?dev + unat offset"
    "if unat start \<le> partition_end ?p ?dev then unat start + unat n = partition_end ?p ?dev
     else unat n = 2 ^ 64 - (unat start - partition_end ?p ?dev)"
    unfolding s(3) by blast
  have "unat start \<le> partition_end ?p ?dev" using w(2) fit le by simp
  then have "unat start + unat n = partition_end ?p ?dev" using w(3) by (simp only: if_True)
  then have n: "unat len \<le> unat n" "unat start + unat len \<le> capacity i st" using w(2) fit le s(5) by simp_all
  then have "\<not> len > n" by (simp add: word_less_nat_alt)
  moreover from read_serving [OF s(1) n(2) assms(3)] obtain st' where r: "nvme_read hw (nvme_addr i) buffer start len st =
      Inr (st', map ?m [unat start..<unat start + unat len] @ drop (unat len) buffer, len)" "same_devices st st'"
    "nvme_serving i medium (map ?m [0..<capacity i st]) page st'" "medium (device_state.more st') = ?m" by blast
  ultimately have "nvmepart_read hw (nvmepart_addr k) buffer offset len st =
      Inr (st', take (unat len) (drop (unat offset) disk) @ drop (unat len) buffer, len)"
    unfolding s(6) take_drop_medium [OF fit] by (simp add: nvmepart_read_def w(1,2) add.assoc)
  moreover have "partition_serving k i medium disk page st'"
  proof -
    note d = same_devicesD [OF r(2) i]
    have np: "nvmepart_devices st' = nvmepart_devices st" using r(2) by (simp add: same_devices_def)
    then have "nvmepart_of (nvmepart_addr k) st' = Inr k" using s(2) by (simp add: nvmepart_of_def)
    then show ?thesis using s r(3)
      by (simp add: partition_serving_def np r(4) d(8) partition_start_def partition_end_def d(4))
  qed
  ultimately show ?thesis using r(2) by blast
qed

end

sublocale nvme_controller \<subseteq> nvme_disk: block_device "nvme_device_fops hw" "nvme_addr i" disk "nvme_serving i medium disk" for disk
proof unfold_locales
  fix page offset len :: u64 and buffer :: "u8 list" and st
  assume a: "nvme_serving i medium disk page st" "unat offset + unat len \<le> length disk" "unat len \<le> length buffer"
  have d: "disk = map (medium (device_state.more st)) [0..<capacity i st]" using a(1) by (simp add: nvme_serving_def)
  have fit: "unat offset + unat len \<le> capacity i st - 0" using a(2) by (simp add: d)
  have "take (unat len) (drop (unat offset) disk) = map (medium (device_state.more st)) [unat offset..<unat offset + unat len]"
    using take_drop_medium [OF fit] by (simp only: d add_0)
  then show "\<exists>st'. fo_read (nvme_device_fops hw) (nvme_addr i) buffer offset len st =
      Inr (st', take (unat len) (drop (unat offset) disk) @ drop (unat len) buffer, len) \<and> fs_view st' = fs_view st \<and>
      nvme_serving i medium disk page st'"
    using read_serving [OF a(1) _ a(3), of offset] fit by (auto simp: nvme_device_fops_def same_devices_def)
qed (rule serving_store)

sublocale nvme_controller \<subseteq> partition: block_device "nvmepart_device_fops hw" "nvmepart_addr k" disk "partition_serving k i medium disk"
  for k disk
proof unfold_locales
  fix page offset len :: u64 and buffer :: "u8 list" and st
  assume "partition_serving k i medium disk page st" "unat offset + unat len \<le> length disk" "unat len \<le> length buffer"
  from read_partition [OF this] show "\<exists>st'. fo_read (nvmepart_device_fops hw) (nvmepart_addr k) buffer offset len st =
      Inr (st', take (unat len) (drop (unat offset) disk) @ drop (unat len) buffer, len) \<and> fs_view st' = fs_view st \<and>
      partition_serving k i medium disk page st'"
    by (auto simp: nvmepart_device_fops_def same_devices_def)
next
  fix page :: u64 and bytes :: "u8 list" and filp f and st
  assume a: "partition_serving k i medium disk page st" "length bytes \<le> 4096"
  let ?st = "upd_file filp f (store_page page bytes st)"
  have m: "nvme_devices ?st = nvme_devices st" "nvmepart_devices ?st = nvmepart_devices st"
    "device_state.more ?st = device_state.more st" "capacity i ?st = capacity i st"
    by (simp_all add: upd_file_def store_page_def capacity_def)
  have "nvme_serving i medium (map (medium (device_state.more st)) [0..<capacity i st]) page ?st"
    using a by (intro serving_store) (simp_all add: partition_serving_def)
  then show "partition_serving k i medium disk page ?st"
    using a(1) by (simp add: partition_serving_def m nvmepart_of_def)
qed

context nvme_controller begin

lemmas partition_is_block_device = partition.block_device_axioms

end

end
