(* ===== verification/Controller.thy ===== *)
theory Controller
  imports Transfers
begin

unbundle bit_operations_syntax

text \<open>
  A controller that keeps the promise of theory \<open>Transfers\<close>: it executes the entry at the head of the submission queue
  when the doorbell is rung and posts its completion; the interrupt that follows is the driver's handler. The medium is
  what extends the state.
\<close>

section \<open>Entries of the queues\<close>

lemma sq_entry_word:
  assumes "k < length ws"
  shows "take 4 (drop (4 * k) (sq_entry_bytes ws)) = le_bytes 4 (unat (ws ! k))"
  using assms
proof (induction ws arbitrary: k)
  case Nil
  then show ?case by simp
next
  case (Cons w ws)
  show ?case
  proof (cases k)
    case 0
    then show ?thesis by (simp add: sq_entry_bytes_def del: le_bytes.simps)
  next
    case (Suc m)
    then show ?thesis using Cons by (simp add: sq_entry_bytes_def del: le_bytes.simps)
  qed
qed

definition entry_word :: "u8 list \<Rightarrow> nat \<Rightarrow> u32" where
  "entry_word entry k = of_nat (le_nat (take 4 (drop (4 * k) entry)))"

lemma entry_word_sq:
  assumes "k < length ws"
  shows "entry_word (sq_entry_bytes ws) k = ws ! k"
proof -
  have "unat (ws ! k) < 256 ^ 4" using unsigned_less [of "ws ! k", where ?'a = nat] by simp
  then show ?thesis by (simp add: entry_word_def sq_entry_word [OF assms] le_nat_bytes del: le_bytes.simps)
qed

lemma command_word:
  assumes "opcode = 1 \<or> opcode = (2 :: u32)"
  shows "(opcode OR push_bit 16 (ucast c)) AND 0xFFFF = opcode" and "ucast (drop_bit 16 (opcode OR push_bit 16 (ucast c))) = (c :: u16)"
proof -
  have o: "opcode AND 0xFFFF = opcode" "drop_bit 16 opcode = 0" using assms by auto
  have m: "(0xFFFF :: u32) = mask 16" by (simp add: mask_eq_exp_minus_1)
  have "push_bit 16 (ucast c) AND (0xFFFF :: u32) = 0" unfolding m by (rule bit_word_eqI) (auto simp: bit_simps)
  then show "(opcode OR push_bit 16 (ucast c)) AND 0xFFFF = opcode" using o by (simp add: bit.conj_disj_distrib2)
  have "drop_bit 16 (opcode OR push_bit 16 (ucast c)) = drop_bit 16 (push_bit 16 (ucast c))" using o(2) by simp
  also have "ucast \<dots> = c" by (rule bit_word_eqI) (auto simp: bit_simps)
  finally show "ucast (drop_bit 16 (opcode OR push_bit 16 (ucast c))) = c" .
qed

lemma prp_words: "ucast (ucast prp :: u32) OR push_bit 32 (ucast (ucast (drop_bit 32 prp) :: u32)) = (prp :: u64)"
  by (rule bit_word_eqI) (auto simp: bit_simps)

lemma blocks_of_page:
  assumes "e \<le> (12 :: nat)"
  shows "(unat (drop_bit e (4095 :: u32)) + 1) * 2 ^ e = 4096"
proof -
  have "e \<in> {0, 1, 2, 3, 4, 5, 6, 7, 8, 9, 10, 11, 12}" using assms unfolding insert_iff empty_iff by presburger
  then show ?thesis by (elim insertE) (simp_all add: unat_drop_bit)
qed

section \<open>The controller\<close>

definition set_medium :: "(nat \<Rightarrow> u8) \<Rightarrow> (nat \<Rightarrow> u8) device_state_scheme \<Rightarrow> (nat \<Rightarrow> u8) device_state_scheme" where
  "set_medium m st = device_state.extend (device_state.truncate st) m"

lemma set_medium_fields [simp]:
  "nvme_devices (set_medium m st) = nvme_devices st" "pci_devices (set_medium m st) = pci_devices st"
  "nvmepart_devices (set_medium m st) = nvmepart_devices st" "device_state.more (set_medium m st) = m"
  "frame_bytes (set_medium m st) = frame_bytes st" "hhdm_offset (set_medium m st) = hhdm_offset st"
  "slab_state.truncate (set_medium m st) = slab_state.truncate st" "fs_view (set_medium m st) = fs_view st"
  by (cases st; simp add: set_medium_def device_state.defs slab_state.truncate_def fs_view_def)+

definition completion_entry :: "nat \<Rightarrow> nat \<Rightarrow> nat \<Rightarrow> u8 list" where
  "completion_entry sq_head c status = replicate 8 0 @ le_bytes 2 sq_head @ [1, 0] @ le_bytes 2 c @ le_bytes 2 status"

definition execute_entry :: "nat \<Rightarrow> u8 list \<Rightarrow> (nat \<Rightarrow> u8) device_state_scheme \<Rightarrow> (nat \<Rightarrow> u8) device_state_scheme" where
  "execute_entry i entry st =
     (let e = unat (lbads_exponent (nvme_devices st ! i));
          page = (ucast (entry_word entry 6) OR push_bit 32 (ucast (entry_word entry 7))) + hhdm_offset st;
          x = unat (entry_word entry 10) * 2 ^ e;
          n = (unat (entry_word entry 12) + 1) * 2 ^ e
      in if entry_word entry 0 AND 0xFFFF = 2
         then store_page page (map (device_state.more st) [x..<x + n]) st
         else set_medium (overwrite (device_state.more st) x (page_bytes n page st)) st)"

definition post_completion :: "nat \<Rightarrow> u16 \<Rightarrow> 'z device_state_scheme \<Rightarrow> 'z device_state_scheme" where
  "post_completion i c st =
     (let dev = nvme_devices st ! i
      in store_page (iocq dev + 16 * ucast (iocq_head dev))
           (completion_entry (unat (queue_next (iosq_head dev))) (unat c) (if iocq_phase dev then 0 else 1)) st)"

definition controller_step :: "nat \<Rightarrow> (nat \<Rightarrow> u8) device_state_scheme \<Rightarrow> (nat \<Rightarrow> u8) device_state_scheme" where
  "controller_step i st =
     (let dev = nvme_devices st ! i; entry = page_bytes 64 (iosq dev + 64 * ucast (iosq_head dev)) st
      in post_completion i (ucast (drop_bit 16 (entry_word entry 0))) (execute_entry i entry st))"

text \<open>Ports and registers without effect, and the controller behind the doorbell of its submission queue.\<close>

definition quiet_hw :: "'s hardware" where
  "quiet_hw = \<lparr>hw_outb = (\<lambda>_ _ s. s), hw_inb = (\<lambda>_ s. (s, 0)), hw_outl = (\<lambda>_ _ s. s), hw_inl = (\<lambda>_ s. (s, 0)),
     hw_mmio_read = (\<lambda>_ s. (s, 0)), hw_mmio_write32 = (\<lambda>_ _ s. s), hw_mmio_write64 = (\<lambda>_ _ s. s),
     hw_yield = Inr, hw_polls = 2\<rparr>"

definition simple_hw :: "nat \<Rightarrow> ((nat \<Rightarrow> u8) device_state_scheme) hardware" where
  "simple_hw i = quiet_hw
     \<lparr>hw_mmio_write32 := (\<lambda>db v st. if doorbell i 2 st = Inr db then controller_step i st else st),
      hw_yield := nvme_interrupt_device quiet_hw i\<rparr>"

section \<open>The interrupt handler\<close>

text \<open>
  One new entry in the completion queue: the handler finishes its command, moves the head past it, where the phase
  changes at the end of the queue, and learns how far the submission queue has been read.
\<close>

definition handled :: "nat \<Rightarrow> u16 \<Rightarrow> u8 \<Rightarrow> 'z device_state_scheme \<Rightarrow> 'z device_state_scheme" where
  "handled i c sq_head st =
     (let dev = nvme_devices st ! i; st1 = with_statuses i ((statuses i st)[unat c := NVME_COMMAND_COMPLETED]) st
      in if iocq_head dev + 1 = 64 then upd_nvme i (iocq_put 0 (\<not> iocq_phase dev) sq_head) st1
         else upd_nvme i (iocq_put (iocq_head dev + 1) (iocq_phase dev) sq_head) st1)"

lemma same_devices_handled: "same_devices st (handled i c sq_head st)"
proof -
  have "same_devices st (upd_nvme i (iocq_put h p sq_head) (with_statuses i cs st))" for h p cs
    unfolding with_statuses_def by (rule same_devices_trans [OF same_devices_upd same_devices_upd]) (simp_all add: fixed_part_def iocq_put_def)
  then show ?thesis by (simp add: handled_def Let_def)
qed

lemma nvme_interrupt_device_handles:
  assumes "device_ok i st" and "acq_quiet i st" and "command_table_ok i st" and "unat c < NVME_MAX_COMMANDS"
    and "unat (iocq_head (nvme_devices st ! i)) < 64"
    and "(cq_status (iocq (nvme_devices st ! i)) (iocq_head (nvme_devices st ! i)) st AND 1 = 1) \<noteq> iocq_phase (nvme_devices st ! i)"
    and "if iocq_head (nvme_devices st ! i) + 1 = 64
      then (cq_status (iocq (nvme_devices st ! i)) 0 st AND 1 = 1) = (\<not> iocq_phase (nvme_devices st ! i))
      else (cq_status (iocq (nvme_devices st ! i)) (iocq_head (nvme_devices st ! i) + 1) st AND 1 = 1) = iocq_phase (nvme_devices st ! i)"
    and "cq_command (iocq (nvme_devices st ! i)) (iocq_head (nvme_devices st ! i)) st = c"
    and "ucast (cq_sq_head (iocq (nvme_devices st ! i)) (iocq_head (nvme_devices st ! i)) st) = sq_head"
  shows "nvme_interrupt_device quiet_hw i st = Inr (handled i c sq_head st)"
proof -
  let ?dev = "nvme_devices st ! i"
  let ?st1 = "with_statuses i ((statuses i st)[unat c := NVME_COMMAND_COMPLETED]) st"
  have i: "i < length (nvme_devices st)" using assms(1) by (simp add: device_ok_def)
  have acq: "drain_cq 2 i acq_get acq_put False st = Inr (st, False)"
    using i assms(2) by (simp add: numeral_2_eq_2 nvme_dev_def array_get_def acq_get_def acq_quiet_def Let_def)
  have fin: "finish_command i c st = Inr ?st1"
    using assms(4) by (simp add: finish_command_def set_command_status_eq [OF assms(3)] NVME_MAX_COMMANDS_def)
  have same: "cq_status q t ?st1 = cq_status q t st" "cq_sq_head q t ?st1 = cq_sq_head q t st" for q t
    by (simp_all add: with_statuses_def) (simp add: cq_sq_head_def)
  have dev1: "nvme_devices ?st1 ! i = ?dev\<lparr>command_statuses := (statuses i st)[unat c := NVME_COMMAND_COMPLETED]\<rparr>"
    "length (nvme_devices ?st1) = length (nvme_devices st)"
    using i by (simp_all add: with_statuses_def)
  have iocq: "drain_cq 2 i iocq_get iocq_put False st = Inr (handled i c sq_head st, True)"
  proof (cases "iocq_head ?dev = 63")
    case True
    show ?thesis using i assms(6-9) [unfolded True] fin True
      by (simp add: numeral_2_eq_2 nvme_dev_def array_get_def iocq_get_def iocq_put_def handled_def NVME_QUEUE_SIZE_def
          Let_def same dev1)
  next
    case False
    show ?thesis using i assms(6-9) fin False
      by (simp add: numeral_2_eq_2 nvme_dev_def array_get_def iocq_get_def iocq_put_def handled_def NVME_QUEUE_SIZE_def
          Let_def same dev1)
  qed
  have ok: "device_ok i (handled i c sq_head st)" by (rule same_devices_ok [OF same_devices_handled assms(1)])
  from doorbell_ok [OF this] obtain db where "doorbell i 3 (handled i c sq_head st) = Inr db" by blast
  then show ?thesis using acq iocq by (simp add: nvme_interrupt_device_def quiet_hw_def)
qed

section \<open>The controller keeps the promise\<close>

lemma queue_slot16:
  assumes "unat (t :: u8) < 64"
  shows "q + 16 * ucast t + of_nat k = (q + of_nat (16 * unat t + k) :: u64)"
proof -
  have u: "unat (ucast t :: u64) = unat t" by (rule unat_ucast_small) (use assms in simp)
  have "(ucast t :: u64) = of_nat (unat t)" by (subst u [symmetric]) simp
  then show ?thesis by (simp add: add.assoc)
qed

lemma length_completion_entry: "length (completion_entry h c s) = 16"
  by (simp add: completion_entry_def)

text \<open>The entry that is posted is read back; the others are as before.\<close>

lemma posted_field:
  assumes "queues_ok i st" and "k + 2 \<le> 16"
  defines "q \<equiv> iocq (nvme_devices st ! i)" and "h \<equiv> iocq_head (nvme_devices st ! i)"
  shows "page_bytes 2 (q + 16 * ucast h + of_nat k) (store_page (q + 16 * ucast h) (completion_entry sq c s) st) =
    take 2 (drop k (completion_entry sq c s))"
proof -
  note ok = queues_okD [OF assms(1)]
  have "q + 16 * ucast h = q + of_nat (16 * unat h)"
    using queue_slot16 [OF ok(9), of q 0] by (simp add: q_def h_def)
  moreover have "page_bytes 2 (q + of_nat (16 * unat h + k)) (store_page (q + of_nat (16 * unat h)) (completion_entry sq c s) st) =
      take 2 (drop (16 * unat h + k - 16 * unat h) (completion_entry sq c s))"
    using ok(2,4,9) assms(2) unfolding q_def h_def by (intro page_bytes_part) (simp_all add: length_completion_entry)
  ultimately show ?thesis by (simp add: add.assoc)
qed

lemma posted_status_other:
  assumes "queues_ok i st" and "unat t < 64" and "t \<noteq> iocq_head (nvme_devices st ! i)"
  defines "q \<equiv> iocq (nvme_devices st ! i)" and "h \<equiv> iocq_head (nvme_devices st ! i)"
  shows "cq_status q t (store_page (q + 16 * ucast h) (completion_entry sq c s) st) = cq_status q t st"
proof -
  note ok = queues_okD [OF assms(1)]
  have "unat t \<noteq> unat h" using assms(3) by (simp add: h_def word_unat_eq_iff)
  then have "page_bytes 2 (q + of_nat (16 * unat t + 14)) (store_page (q + of_nat (16 * unat h)) (completion_entry sq c s) st) =
      page_bytes 2 (q + of_nat (16 * unat t + 14)) st"
    using ok(2,4,9) assms(2) unfolding q_def h_def
    by (intro page_bytes_apart) (simp_all add: length_completion_entry, linarith)
  moreover have "q + 16 * ucast h = q + of_nat (16 * unat h)"
    using queue_slot16 [OF ok(9), of q 0] by (simp add: q_def h_def)
  ultimately show ?thesis by (simp only: cq_status_def queue_slot(2) [OF assms(2)])
qed

lemma posted_completion:
  assumes "queues_ok i st" and "unat (iosq_head (nvme_devices st ! i)) < 64"
  defines "q \<equiv> iocq (nvme_devices st ! i)" and "h \<equiv> iocq_head (nvme_devices st ! i)"
  shows "cq_status q h (post_completion i c st) = (if iocq_phase (nvme_devices st ! i) then 0 else 1)"
    and "cq_command q h (post_completion i c st) = c"
    and "ucast (cq_sq_head q h (post_completion i c st)) = queue_next (iosq_head (nvme_devices st ! i))"
    and "acq_quiet i (post_completion i c st)"
proof -
  let ?n = "queue_next (iosq_head (nvme_devices st ! i))" and ?s = "if iocq_phase (nvme_devices st ! i) then 0 else 1 :: nat"
  have post: "post_completion i c st = store_page (q + 16 * ucast h) (completion_entry (unat ?n) (unat c) ?s) st"
    by (simp add: post_completion_def q_def h_def Let_def)
  note f = posted_field [OF assms(1), folded q_def h_def]
  have "cq_status q h (post_completion i c st) = of_nat (le_nat (le_bytes 2 ?s))"
    using f [of 14] by (simp add: cq_status_def post completion_entry_def del: le_bytes.simps)
  then show "cq_status q h (post_completion i c st) = (if iocq_phase (nvme_devices st ! i) then 0 else 1)"
    by (simp add: le_nat_bytes del: le_bytes.simps)
  have "unat c < 2 ^ 16" using unsigned_less [of c, where ?'a = nat] by simp
  moreover have "cq_command q h (post_completion i c st) = of_nat (le_nat (le_bytes 2 (unat c)))"
    using f [of 12] by (simp add: cq_command_def post completion_entry_def del: le_bytes.simps)
  ultimately show "cq_command q h (post_completion i c st) = c" by (simp add: le_nat_bytes del: le_bytes.simps)
  have "unat ?n < 2 ^ 8" using unsigned_less [of ?n, where ?'a = nat] by simp
  moreover have "cq_sq_head q h (post_completion i c st) = of_nat (le_nat (le_bytes 2 (unat ?n)))"
    using f [of 8] by (simp add: cq_sq_head_def post completion_entry_def del: le_bytes.simps)
  moreover have "ucast (ucast ?n :: u16) = ?n" by (rule bit_word_eqI) (auto simp: bit_simps)
  ultimately show "ucast (cq_sq_head q h (post_completion i c st)) = ?n"
    by (simp add: le_nat_bytes del: le_bytes.simps)
  note ok = queues_okD [OF assms(1)]
  have "q + 16 * ucast h = q + of_nat (16 * unat h)"
    using queue_slot16 [OF ok(9), of q 0] by (simp add: q_def h_def)
  moreover have "cq_status (acq (nvme_devices st ! i)) (acq_head (nvme_devices st ! i))
      (store_page (q + of_nat (16 * unat h)) (completion_entry (unat ?n) (unat c) ?s) st) =
      cq_status (acq (nvme_devices st ! i)) (acq_head (nvme_devices st ! i)) st"
    using ok unfolding q_def h_def by (intro cq_status_other) (simp_all add: length_completion_entry)
  moreover have "nvme_devices (post_completion i c st) = nvme_devices st" by (simp add: post store_page_def)
  ultimately show "acq_quiet i (post_completion i c st)" using ok(16) unfolding acq_quiet_def Let_def post by simp
qed

lemma post_completion_fields:
  "nvme_devices (post_completion i c st) = nvme_devices st" "pci_devices (post_completion i c st) = pci_devices st"
  "same_devices st (post_completion i c st)" "device_state.more (post_completion i c st) = device_state.more st"
  "kmem_wf (post_completion i c st) = kmem_wf st" "used_pages (post_completion i c st) = used_pages st"
  by (simp_all add: post_completion_def Let_def truncate_kmem [OF store_page_truncate]) (simp_all add: store_page_def)

lemma handled_fields:
  assumes "i < length (nvme_devices st)"
  defines "dev \<equiv> nvme_devices st ! i" and "h \<equiv> iocq_head (nvme_devices st ! i)"
  shows "nvme_devices (handled i c sq_head st) ! i =
      dev\<lparr>command_statuses := (statuses i st)[unat c := NVME_COMMAND_COMPLETED], iosq_head := sq_head,
        iocq_head := (if h + 1 = 64 then 0 else h + 1), iocq_phase := (if h + 1 = 64 then \<not> iocq_phase dev else iocq_phase dev)\<rparr>"
    and "cq_status q t (handled i c sq_head st) = cq_status q t st"
    and "page_bytes n a (handled i c sq_head st) = page_bytes n a st"
    and "kmem_wf (handled i c sq_head st) = kmem_wf st" and "used_pages (handled i c sq_head st) = used_pages st"
    and "device_state.more (handled i c sq_head st) = device_state.more st"
  using assms by (simp_all add: handled_def Let_def with_statuses_def iocq_put_def)

lemma handled_synced:
  assumes "queues_ok i st"
  shows "cq_synced i (handled i c sq_head (post_completion i c st))"
proof -
  note ok = queues_okD [OF assms]
  let ?dev = "nvme_devices st ! i"
  let ?h = "iocq_head ?dev" and ?st = "post_completion i c st"
  have i: "i < length (nvme_devices ?st)" using ok(1) by (simp add: post_completion_fields)
  note f = handled_fields [OF i, unfolded post_completion_fields]
  have sync: "((cq_status (iocq ?dev) (of_nat p) st AND 1 = 1) = iocq_phase ?dev) = (unat ?h \<le> p)" if "p < 64" for p
    using ok(6) that by (simp add: cq_synced_def NVME_QUEUE_SIZE_def Let_def)
  have new: "(cq_status (iocq ?dev) (of_nat p) ?st AND 1 = 1) =
      (if p = unat ?h then \<not> iocq_phase ?dev else (if unat ?h \<le> p then iocq_phase ?dev else \<not> iocq_phase ?dev))"
    if p: "p < 64" for p
  proof (cases "p = unat ?h")
    case True
    then show ?thesis using posted_completion(1) [OF assms ok(8)] by simp
  next
    case False
    have u: "unat (of_nat p :: u8) = p" using p by (simp add: unat_of_nat_small)
    then have "of_nat p \<noteq> ?h" using False by auto
    then have "cq_status (iocq ?dev) (of_nat p) ?st = cq_status (iocq ?dev) (of_nat p) st"
      using posted_status_other [OF assms, of "of_nat p"] p u by (simp add: post_completion_def Let_def)
    then show ?thesis using sync [OF p] False by auto
  qed
  have h: "unat (?h + 1) = unat ?h + 1" using ok(9) by (subst unat_add_no_wrap) simp_all
  then have e: "?h + 1 = 64 \<longleftrightarrow> unat ?h = 63" by (simp add: word_unat_eq_iff)
  show ?thesis unfolding cq_synced_def Let_def f NVME_QUEUE_SIZE_def
  proof (intro allI impI)
    fix p assume p: "p < (64 :: nat)"
    then show "((cq_status (iocq (?dev\<lparr>command_statuses := (statuses i ?st)[unat c := NVME_COMMAND_COMPLETED], iosq_head := sq_head,
        iocq_head := (if ?h + 1 = 64 then 0 else ?h + 1), iocq_phase := (if ?h + 1 = 64 then \<not> iocq_phase ?dev else iocq_phase ?dev)\<rparr>))
        (of_nat p) ?st AND 1 = 1) =
      iocq_phase (?dev\<lparr>command_statuses := (statuses i ?st)[unat c := NVME_COMMAND_COMPLETED], iosq_head := sq_head,
        iocq_head := (if ?h + 1 = 64 then 0 else ?h + 1), iocq_phase := (if ?h + 1 = 64 then \<not> iocq_phase ?dev else iocq_phase ?dev)\<rparr>)) =
      (unat (iocq_head (?dev\<lparr>command_statuses := (statuses i ?st)[unat c := NVME_COMMAND_COMPLETED], iosq_head := sq_head,
        iocq_head := (if ?h + 1 = 64 then 0 else ?h + 1), iocq_phase := (if ?h + 1 = 64 then \<not> iocq_phase ?dev else iocq_phase ?dev)\<rparr>)) \<le> p)"
      using new [OF p] e h by auto
  qed
qed

lemma handled_ok:
  assumes "queues_ok i st" and "unat c < NVME_MAX_COMMANDS" and "iosq_tail (nvme_devices st ! i) = queue_next (iosq_head (nvme_devices st ! i))"
  defines "st' \<equiv> handled i c (iosq_tail (nvme_devices st ! i)) (post_completion i c st)"
  shows "nvme_interrupt_device quiet_hw i (post_completion i c st) = Inr st'" and "queues_ok i st'" and "same_devices st st'"
    and "iosq_tail (nvme_devices st' ! i) = iosq_head (nvme_devices st' ! i)"
    and "statuses i st' = (statuses i st)[unat c := NVME_COMMAND_COMPLETED]"
    and "drop_bit 1 (cq_status (iocq (nvme_devices st ! i)) (iocq_head (nvme_devices st ! i)) st') = 0"
proof -
  note ok = queues_okD [OF assms(1)]
  let ?dev = "nvme_devices st ! i" and ?st = "post_completion i c st"
  let ?h = "iocq_head ?dev"
  have i: "i < length (nvme_devices ?st)" using ok(1) by (simp add: post_completion_fields)
  note f = handled_fields [OF i, unfolded post_completion_fields, where c = c and sq_head = "iosq_tail ?dev", folded st'_def]
  note p = posted_completion [OF assms(1) ok(8), of c]
  have table: "command_table_ok i ?st" and dev: "device_ok i ?st"
    using ok(10,12) by (simp_all add: command_table_ok_def statuses_def device_ok_def post_completion_fields)
  have h: "unat (?h + 1) = unat ?h + 1" using ok(9) by (subst unat_add_no_wrap) simp_all
  then have e: "?h + 1 = 64 \<longleftrightarrow> unat ?h = 63" by (simp add: word_unat_eq_iff)
  have sync: "((cq_status (iocq ?dev) (of_nat p) st AND 1 = 1) = iocq_phase ?dev) = (unat ?h \<le> p)" if "p < 64" for p
    using ok(6) that by (simp add: cq_synced_def NVME_QUEUE_SIZE_def Let_def)
  have other: "cq_status (iocq ?dev) t ?st = cq_status (iocq ?dev) t st" if "unat t < 64" "t \<noteq> ?h" for t
    using posted_status_other [OF assms(1) that] by (simp add: post_completion_def Let_def)
  have last: "if ?h + 1 = 64 then (cq_status (iocq ?dev) 0 ?st AND 1 = 1) = (\<not> iocq_phase ?dev)
      else (cq_status (iocq ?dev) (?h + 1) ?st AND 1 = 1) = iocq_phase ?dev"
  proof (cases "?h + 1 = 64")
    case True
    then have "?h \<noteq> 0" "0 < unat ?h" using e by auto
    then show ?thesis using True sync [of 0] other [of 0] by auto
  next
    case False
    then have lt: "unat (?h + 1) < 64" using e h ok(9) by simp
    have "of_nat (unat ?h + 1) = ?h + 1" by simp
    then show ?thesis using False sync [of "unat ?h + 1"] other [OF lt] lt h by (simp add: add.commute [of 1])
  qed
  show "nvme_interrupt_device quiet_hw i ?st = Inr st'"
    unfolding st'_def using dev p(4) table assms(2) ok(9) p(1-3) last
    by (intro nvme_interrupt_device_handles) (simp_all add: post_completion_fields assms(3))
  have sd: "same_devices ?st st'" unfolding st'_def by (rule same_devices_handled)
  show "same_devices st st'" by (rule same_devices_trans [OF post_completion_fields(3) sd])
  show "iosq_tail (nvme_devices st' ! i) = iosq_head (nvme_devices st' ! i)" by (simp add: f)
  have st: "statuses i ?st = statuses i st" by (simp add: statuses_def post_completion_fields)
  then show stat: "statuses i st' = (statuses i st)[unat c := NVME_COMMAND_COMPLETED]" by (simp add: statuses_def f)
  show "drop_bit 1 (cq_status (iocq ?dev) ?h st') = 0" by (simp add: f p(1))
  have len: "length (nvme_devices st') = length (nvme_devices st)" using same_devicesD(1) [OF sd i] by (simp add: post_completion_fields)
  have "command_table_ok i st'"
    using ok(10) set_update_subset_insert [of "statuses i st" "unat c" NVME_COMMAND_COMPLETED]
    by (auto simp: command_table_ok_def stat len)
  moreover have "cq_synced i st'" unfolding st'_def by (rule handled_synced [OF assms(1)])
  moreover have "acq_quiet i st'" using p(4) by (simp add: acq_quiet_def Let_def f post_completion_fields)
  moreover have "device_ok i st'" by (rule same_devices_ok [OF sd dev])
  moreover have "queue_pages i st' \<subseteq> used_pages st'" using ok(3,4,13) by (simp add: queue_pages_def f)
  moreover have "unat (if ?h + 1 = 64 then 0 else ?h + 1) < 64" using h e ok(9) by auto
  ultimately show "queues_ok i st'" unfolding queues_ok_def using ok(2,7)
    by (simp add: f NVME_QUEUE_SIZE_def Let_def)
qed

lemma execute_entry_eq:
  assumes "command_pending i opcode c lba page st" and "opcode = 1 \<or> opcode = 2"
  defines "entry \<equiv> page_bytes 64 (iosq (nvme_devices st ! i) + 64 * ucast (iosq_head (nvme_devices st ! i))) st"
  shows "execute_entry i entry st =
      (if opcode = 2 then store_page page (map (device_state.more st) [block_offset i lba st..<block_offset i lba st + 4096]) st
       else set_medium (overwrite (device_state.more st) (block_offset i lba st) (page_bytes 4096 page st)) st)"
    and "ucast (drop_bit 16 (entry_word entry 0)) = c"
proof -
  let ?e = "unat (lbads_exponent (nvme_devices st ! i))"
  define ws where "ws = nvme_command opcode c 1 (page - hhdm_offset st) lba 0 (drop_bit ?e 4095)"
  have entry: "entry = sq_entry_bytes ws" using assms(1) by (simp add: entry_def ws_def command_pending_def Let_def)
  have w: "entry_word entry k = ws ! k" if "k < 16" for k
    using that unfolding entry by (intro entry_word_sq) (simp add: ws_def nvme_command_def)
  have words: "entry_word entry 0 = opcode OR push_bit 16 (ucast c)" "entry_word entry 6 = ucast (page - hhdm_offset st)"
    "entry_word entry 7 = ucast (drop_bit 32 (page - hhdm_offset st))" "entry_word entry 10 = lba"
    "entry_word entry 12 = drop_bit ?e 4095"
    by (simp_all add: w) (simp_all add: ws_def nvme_command_def)
  have "?e \<le> 12" using assms(1) queues_okD(11) by (auto simp: command_pending_def word_le_nat_alt)
  then have n: "(unat (drop_bit ?e (4095 :: u32)) + 1) * 2 ^ ?e = 4096" by (rule blocks_of_page)
  show "ucast (drop_bit 16 (entry_word entry 0)) = c" unfolding words by (rule command_word [OF assms(2)])
  show "execute_entry i entry st =
      (if opcode = 2 then store_page page (map (device_state.more st) [block_offset i lba st..<block_offset i lba st + 4096]) st
       else set_medium (overwrite (device_state.more st) (block_offset i lba st) (page_bytes 4096 page st)) st)"
    unfolding execute_entry_def Let_def words n prp_words command_word [OF assms(2)]
    by (simp add: block_offset_def)
qed

lemma controller_serves:
  assumes "command_pending i opcode c lba page st" and "opcode = 1 \<or> opcode = 2" and "doorbell i 2 st = Inr db"
  shows "\<exists>st'. await_command_finish (simple_hw i) i c (hw_mmio_write32 (simple_hw i) db (ucast (iosq_tail (nvme_devices st ! i))) st) =
      Inr st' \<and> command_served i c st st' \<and> transferred (\<lambda>m. m) i opcode lba page st st'"
proof -
  have ok: "queues_ok i st" and page: "page \<in> used_pages st - queue_pages i st" and c: "unat c < NVME_MAX_COMMANDS"
    and flying: "statuses i st = (replicate NVME_MAX_COMMANDS NVME_COMMAND_FREE)[unat c := NVME_COMMAND_IN_FLIGHT]"
    and tail: "iosq_tail (nvme_devices st ! i) = queue_next (iosq_head (nvme_devices st ! i))"
    using assms(1) by (simp_all add: command_pending_def Let_def)
  note x = execute_entry_eq [OF assms(1,2)]
  define st1 where "st1 = (if opcode = 2 then store_page page (map (device_state.more st) [block_offset i lba st..<block_offset i lba st + 4096]) st
       else set_medium (overwrite (device_state.more st) (block_offset i lba st) (page_bytes 4096 page st)) st)"
  have step: "controller_step i st = post_completion i c st1" by (simp add: controller_step_def Let_def x st1_def)
  have dev1: "nvme_devices st1 = nvme_devices st" "pci_devices st1 = pci_devices st" "used_pages st1 = used_pages st" "statuses i st1 = statuses i st"
    by (simp_all add: st1_def statuses_def truncate_kmem [OF store_page_truncate] truncate_kmem [OF set_medium_fields(7)])
      (simp_all add: store_page_def)
  have sd1: "same_devices st st1" by (simp add: st1_def) (simp add: same_devices_def)
  have ok1: "queues_ok i st1"
  proof (cases "opcode = 2")
    case True
    then show ?thesis using queues_ok_store [OF ok, of page 0] page by (simp add: st1_def queue_pages_def)
  next
    case False
    have "queues_ok i (set_medium m st)" for m
      using queues_okD(2) [OF ok] ok
      by (intro queues_cong [OF ok]) (simp_all add: truncate_kmem [OF set_medium_fields(7)] queues_ok_def)
    with False show ?thesis by (simp add: st1_def)
  qed
  define st' where "st' = handled i c (iosq_tail (nvme_devices st1 ! i)) (post_completion i c st1)"
  note h = handled_ok [OF ok1 c, folded st'_def, unfolded dev1, OF tail]
  have "i < length (nvme_devices st)" and len: "unat c < length (statuses i st)"
    using queues_okD(1,10) [OF ok] c by (simp_all add: command_table_ok_def)
  then have waiting: "command_in_flight i c (post_completion i c st1)"
    using flying c by (simp add: command_in_flight_def post_completion_fields dev1 statuses_def)
  have finished: "\<not> command_in_flight i c st'"
    using h(5) len by (simp add: command_in_flight_def statuses_def NVME_COMMAND_COMPLETED_def NVME_COMMAND_IN_FLIGHT_def)
  have "await_command_finish (simple_hw i) i c (post_completion i c st1) = Inr st'"
    using waiting finished h(1)
    by (simp add: await_command_finish_def simple_hw_def quiet_hw_def poll_while.simps [of 2] poll_while.simps [of "Suc 0"] split: nat.splits)
  then have "await_command_finish (simple_hw i) i c (hw_mmio_write32 (simple_hw i) db (ucast (iosq_tail (nvme_devices st ! i))) st) = Inr st'"
    using assms(3) step by (simp add: simple_hw_def)
  moreover have "command_served i c st st'" unfolding command_served_def
    using h(2-6) same_devices_trans [OF sd1 h(3)] flying by simp
  moreover have "transferred (\<lambda>m. m) i opcode lba page st st'"
  proof -
    have i1: "i < length (nvme_devices (post_completion i c st1))"
      using \<open>i < length (nvme_devices st)\<close> by (simp add: post_completion_fields dev1)
    note f = handled_fields [OF i1, where c = c, folded st'_def]
    have more': "device_state.more st' = device_state.more st1" by (simp add: st'_def handled_fields(6) [OF i1] post_completion_fields)
    note q1 = queues_okD [OF ok1]
    have slot: "iocq (nvme_devices st ! i) + 16 * ucast (iocq_head (nvme_devices st ! i)) =
        iocq (nvme_devices st ! i) + of_nat (16 * unat (iocq_head (nvme_devices st ! i)))"
      using queue_slot16 [OF q1(9) [unfolded dev1], of _ 0] by simp
    have "page_bytes 4096 (page + of_nat 0) (post_completion i c st1) = page_bytes 4096 (page + of_nat 0) st1"
      unfolding post_completion_def Let_def dev1 slot
      using q1(2,4,9) queues_okD(2) [OF ok] page by (intro page_bytes_other) (simp_all add: dev1 queue_pages_def length_completion_entry)
    then have same: "page_bytes 4096 page st' = page_bytes 4096 page st1" by (simp add: st'_def handled_fields(3) [OF i1])
    show ?thesis
    proof (cases "opcode = 2")
      case True
      let ?bs = "map (device_state.more st) [block_offset i lba st..<block_offset i lba st + 4096]"
      have "page_bytes 4096 page st1 = ?bs" using page_bytes_store [of ?bs page st] True by (simp add: st1_def)
      moreover have "device_state.more st1 = device_state.more st" using True by (simp add: st1_def) (simp add: store_page_def)
      ultimately show ?thesis using True by (simp add: transferred_def Let_def same more')
    next
      case False
      then show ?thesis by (simp add: transferred_def Let_def more' st1_def)
    qed
  qed
  ultimately show ?thesis by blast
qed

interpretation simple: nvme_controller "simple_hw i" i "\<lambda>m. m" for i
  by unfold_locales (rule controller_serves)

section \<open>Properties\<close>

text \<open>
  C13: reading from the disk delivers the bytes of the medium from the offset on, as many as were asked for, cut at the
  end of the disk, across the pages the transfer touches; the medium and the kernel's data stay as they are, the device is idle again.
\<close>

theorem nvme_read_medium:
  assumes "nvme_controller hw i medium" and "nvme_idle i st" and "KPAGE_FREE \<in> set (kmem_page_array st)"
    and "4096 dvd capacity i st" and "unat offset \<le> capacity i st" and "unat len < 2 ^ 63" and "unat len \<le> length buffer"
  shows "case nvme_read hw (nvme_addr i) buffer offset len st of Inl e \<Rightarrow> False
    | Inr (st', buffer', count) \<Rightarrow> (let n = min (unat len) (capacity i st - unat offset) in unat count = n \<and>
        buffer' = map (medium (device_state.more st)) [unat offset..<unat offset + n] @ drop n buffer \<and>
        medium (device_state.more st') = medium (device_state.more st) \<and> nvme_idle i st' \<and> fs_view st' = fs_view st)"
proof -
  from assms(3) obtain f where "f < length (kmem_page_array st)" "kmem_page_array st ! f = KPAGE_FREE" by (auto simp: in_set_conv_nth)
  from kpage_alloc_ex [OF idle_kmem [OF assms(2)] this] obtain st1 page where "kpage_alloc 1 st = Inr (st1, page)" by blast
  from nvme_controller.nvme_read_ok [OF assms(1,2) this assms(4-7)] show ?thesis
    by (auto simp: Let_def same_devices_def)
qed

text \<open>
  C14: writing to the disk changes the bytes of the medium from the offset on, as many as were given and fit, to those of
  the buffer, and no other byte, although the driver reads and writes whole pages.
\<close>

theorem nvme_write_medium:
  assumes "nvme_controller hw i medium" and "nvme_idle i st" and "KPAGE_FREE \<in> set (kmem_page_array st)"
    and "4096 dvd capacity i st" and "unat offset \<le> capacity i st" and "unat len \<le> length buffer"
  shows "case nvme_write hw (nvme_addr i) buffer offset len st of Inl e \<Rightarrow> False
    | Inr (st', count) \<Rightarrow> (let n = min (unat len) (capacity i st - unat offset) in unat count = n \<and>
        medium (device_state.more st') = overwrite (medium (device_state.more st)) (unat offset) (take n buffer) \<and>
        nvme_idle i st' \<and> fs_view st' = fs_view st)"
proof -
  from assms(3) obtain f where "f < length (kmem_page_array st)" "kmem_page_array st ! f = KPAGE_FREE" by (auto simp: in_set_conv_nth)
  from kpage_alloc_ex [OF idle_kmem [OF assms(2)] this] obtain st1 page where "kpage_alloc 1 st = Inr (st1, page)" by blast
  from nvme_controller.nvme_write_ok [OF assms(1,2) this assms(4-6)] show ?thesis
    by (auto simp: Let_def same_devices_def)
qed

text \<open>A partition of an idle device, with pages left for the file system and for the driver.\<close>

definition partition_ready ::
  "nat \<Rightarrow> nat \<Rightarrow> ('z \<Rightarrow> nat \<Rightarrow> u8) \<Rightarrow> u8 list \<Rightarrow> 'z device_state_scheme \<Rightarrow> bool" where
  "partition_ready k i medium disk st \<longleftrightarrow> nvme_idle i st \<and> 4096 dvd capacity i st \<and>
     2 \<le> length (filter (\<lambda>s. s = KPAGE_FREE) (kmem_page_array st)) \<and>
     k < length (nvmepart_devices st) \<and> nvmepart_of (nvmepart_addr k) st = Inr k \<and> np_nvme_device (nvmepart_devices st ! k) = i \<and>
     first_lba (nvmepart_devices st ! k) \<le> last_lba (nvmepart_devices st ! k) \<and>
     partition_end (nvmepart_devices st ! k) (nvme_devices st ! i) \<le> capacity i st \<and>
     disk = map (medium (device_state.more st))
       [partition_start (nvmepart_devices st ! k) (nvme_devices st ! i)..<partition_end (nvmepart_devices st ! k) (nvme_devices st ! i)]"

lemma one_left:
  assumes "2 \<le> length (filter (\<lambda>s. s = v) xs)" and "f < length xs"
  shows "v \<in> set (xs[f := u])"
proof -
  have "filter (\<lambda>s. s = v) xs = filter (\<lambda>s. s = v) (take f xs @ xs ! f # drop (Suc f) xs)"
    using id_take_nth_drop [OF assms(2)] by simp
  then have "filter (\<lambda>s. s = v) (take f xs) \<noteq> [] \<or> filter (\<lambda>s. s = v) (drop (Suc f) xs) \<noteq> []"
    using assms(1) by (auto split: if_splits)
  then show ?thesis using assms(2) by (auto simp: upd_conv_take_nth_drop filter_empty_conv)
qed

lemma partition_ready_alloc:
  assumes "partition_ready k i medium disk st"
  shows "\<exists>st1 page. kpage_alloc 1 st = Inr (st1, page) \<and> partition_serving k i medium disk page st1"
proof -
  have idle: "nvme_idle i st" and two: "2 \<le> length (filter (\<lambda>s. s = KPAGE_FREE) (kmem_page_array st))"
    using assms by (simp_all add: partition_ready_def)
  then have "filter (\<lambda>s. s = KPAGE_FREE) (kmem_page_array st) \<noteq> []" by auto
  then have "KPAGE_FREE \<in> set (kmem_page_array st)" by (auto simp: filter_empty_conv)
  then obtain f where "f < length (kmem_page_array st)" "kmem_page_array st ! f = KPAGE_FREE" by (auto simp: in_set_conv_nth)
  from kpage_alloc_ex [OF idle_kmem [OF idle] this] obtain st1 page where a: "kpage_alloc 1 st = Inr (st1, page)" by blast
  note t = page_taken [OF idle a]
  from kpage_alloc1_cases [OF idle_kmem [OF idle] a] obtain g where g: "g < length (kmem_page_array st)"
    and st1: "st1 = st\<lparr>kmem_page_array := (kmem_page_array st)[g := KPAGE_USED], kmem_used_pages := kmem_used_pages st + 1\<rparr>" .
  have "KPAGE_FREE \<in> set (kmem_page_array st1)" using one_left [OF two g] by (simp add: st1)
  moreover have "queue_pages i st1 = queue_pages i st" by (simp add: queue_pages_def t)
  ultimately have "nvme_serving i medium (map (medium (device_state.more st)) [0..<capacity i st]) page st1"
    using t assms by (simp add: nvme_serving_def partition_ready_def)
  moreover have "nvmepart_devices st1 = nvmepart_devices st" by (simp add: st1)
  ultimately have "partition_serving k i medium disk page st1"
    using assms t by (simp add: partition_serving_def partition_ready_def nvmepart_of_def)
  with a show ?thesis by blast
qed

text \<open>
  C15: a read of an exFAT file on a partition of an NVMe disk that starts at an offset below 4096, through the file system,
  the partition, the driver's commands and the controller: it delivers the file's bytes from the offset on, which are those of its
  clusters on the partition's part of the medium, over as many clusters as were asked for. (At an offset from 4096 on the
  file system reads the first cluster again, so that the claim does not hold there.)
\<close>

theorem exfat_reads_partition:
  assumes "nvme_controller hw i medium" and "partition_ready k i medium disk st"
    and "file_on devs (nvmepart_device_fops hw) (nvmepart_addr k) filp flen st"
    and "clusters_loaded disk st 0 (ei_clusters (exfat_inodes st (i_private (inodes st (f_inode (filps st filp))))))"
    and "unat flen \<le> 4096 * length (ei_clusters (exfat_inodes st (i_private (inodes st (f_inode (filps st filp))))))"
    and "unat (f_offset (filps st filp)) < 4096" and "unat (f_offset (filps st filp)) \<le> unat flen"
    and "unat len \<le> length buf"
  shows "case exfat_read devs filp buf len st of Inl e \<Rightarrow> False
    | Inr (st', buf', count) \<Rightarrow>
        (let content = take (unat flen) (cluster_bytes disk st (ei_clusters (exfat_inodes st (i_private (inodes st (f_inode (filps st filp)))))));
             r = take (unat len) (drop (unat (f_offset (filps st filp))) content) in
          buf' = r @ drop (length r) buf \<and> unat count = length r \<and>
          f_offset (filps st' filp) = f_offset (filps st filp) + count)"
proof -
  from partition_ready_alloc [OF assms(2)] obtain st1 page where
    a: "kpage_alloc 1 st = Inr (st1, page)" "partition_serving k i medium disk page st1" by blast
  have b: "block_device (nvmepart_device_fops hw) (nvmepart_addr k) disk (partition_serving k i medium disk)"
    by (rule nvme_controller.partition_is_block_device [OF assms(1)])
  have w: "kmem_wf st" using assms(2) idle_kmem by (auto simp: partition_ready_def)
  show ?thesis by (rule exfat_read_file [OF b w a(1) assms(3-8) a(2)])
qed

section \<open>Example\<close>

text \<open>
  A disk of 1000 blocks of 512 bytes, its queues in the three used pages and two pages free, with the byte \<open>a mod 256\<close> at
  position \<open>a\<close>; its partition holds a file of two clusters.
\<close>

definition demo_drive :: "u64 \<Rightarrow> (nat \<Rightarrow> u8) device_state_scheme" where
  "demo_drive offset = device_state.extend ((demo_device Inode_Slab)
     \<lparr>kmem_page_array := [KPAGE_USED, KPAGE_USED, KPAGE_USED, KPAGE_FREE, KPAGE_FREE], kmem_used_pages := 3,
      inodes := (\<lambda>_. \<lparr>i_type = INODE_REGULAR_FILE, i_superblock = 0, i_private = 0, i_data = File_Data 8000\<rparr>),
      filps := (\<lambda>_. \<lparr>f_fd = 0, f_inode = 0, f_offset = offset\<rparr>),
      superblocks := (\<lambda>_. \<lparr>sb_private = 0, sb_ops = Exfat_Ops, sb_device_fops = Nvmepart_Fops, sb_device = nvmepart_addr 0\<rparr>),
      exfat_inodes := (\<lambda>_. \<lparr>ei_start_lba = 0, ei_load_needed = False, ei_clusters = [0, 8]\<rparr>),
      exfat_clusters := (\<lambda>a. \<lparr>ec_byte_offset = (if a = 0 then 0 else 4096), ec_device_offset = (if a = 0 then 8192 else 4096)\<rparr>),
      pci_devices := [\<lparr>pci_bus = 0, pci_slot = 0, pci_function = 0, vendor_id = 0, device_id = 0, class_code = 1, pci_subclass = 8,
        prog_if = 2, mmio_phys_base = 0, mmio_size = 0, mmio_virt_base = 0, interrupt_line = 11\<rparr>],
      nvme_devices := [demo_nvme\<lparr>iosq := 0x20000, iocq := 0x21000, acq := 0x22000,
        command_statuses := replicate NVME_MAX_COMMANDS NVME_COMMAND_FREE\<rparr>],
      nvmepart_devices := [demo_partition 40 99]\<rparr>) of_nat"

lemma demo_drive_fields:
  "nvme_devices (demo_drive x) = [demo_nvme\<lparr>iosq := 0x20000, iocq := 0x21000, acq := 0x22000,
     command_statuses := replicate NVME_MAX_COMMANDS NVME_COMMAND_FREE\<rparr>]"
  "nvmepart_devices (demo_drive x) = [demo_partition 40 99]" "length (pci_devices (demo_drive x)) = 1"
  "kmem_page_array (demo_drive x) = [KPAGE_USED, KPAGE_USED, KPAGE_USED, KPAGE_FREE, KPAGE_FREE]"
  "kmem_used_pages (demo_drive x) = 3" "kmem_start (demo_drive x) = 0x20000" "kmem_total_pages (demo_drive x) = 5"
  "frame_bytes (demo_drive x) = (\<lambda>_. 0)" "device_state.more (demo_drive x) = of_nat"
  "filps (demo_drive x) y = \<lparr>f_fd = 0, f_inode = 0, f_offset = x\<rparr>"
  "inodes (demo_drive x) z = \<lparr>i_type = INODE_REGULAR_FILE, i_superblock = 0, i_private = 0, i_data = File_Data 8000\<rparr>"
  "superblocks (demo_drive x) z = \<lparr>sb_private = 0, sb_ops = Exfat_Ops, sb_device_fops = Nvmepart_Fops, sb_device = nvmepart_addr 0\<rparr>"
  "exfat_inodes (demo_drive x) z = \<lparr>ei_start_lba = 0, ei_load_needed = False, ei_clusters = [0, 8]\<rparr>"
  "exfat_clusters (demo_drive x) z = \<lparr>ec_byte_offset = (if z = 0 then 0 else 4096), ec_device_offset = (if z = 0 then 8192 else 4096)\<rparr>"
  by (simp_all add: demo_drive_def demo_device_def demo_tty_def device_state.defs keyboard_state.defs tty_state.defs
      vfs_state.defs demo_vfs_def paging_state.defs demo_paging_def demo_slab_def kmem_state.defs slab_state.defs demo_kmem_def)

lemma demo_drive_idle: "nvme_idle 0 (demo_drive x)"
proof -
  have status: "cq_status q t (demo_drive x) = 0" for q t
    by (simp add: cq_status_def page_bytes_def demo_drive_fields upt_rec)
  have wf: "kmem_wf (demo_drive x)"
    by (simp add: kmem_wf_def demo_drive_fields used_count_def KPAGE_FREE_def KPAGE_USED_def)
  have "page_addr (demo_drive x) n \<in> used_pages (demo_drive x)" if "n < 3" for n
    using that by (auto simp: used_pages_def demo_drive_fields less_Suc_eq numeral_3_eq_3 intro!: exI [where x = n])
  from this [of 0] this [of 1] this [of 2]
  have used: "0x20000 \<in> used_pages (demo_drive x)" "0x21000 \<in> used_pages (demo_drive x)" "0x22000 \<in> used_pages (demo_drive x)"
    by (simp_all add: page_addr_def demo_drive_fields)
  show ?thesis
    using used wf
    by (simp add: nvme_idle_def queues_ok_def device_ok_def queue_pages_def cq_synced_def acq_quiet_def status Let_def
        demo_drive_fields demo_nvme_def statuses_def command_table_ok_def NVME_MAX_COMMANDS_def NVME_QUEUE_SIZE_def MAX_NVME_DEVICES_def)
qed

lemma demo_drive_capacity: "capacity 0 (demo_drive x) = 512000"
  by (simp add: capacity_def demo_drive_fields demo_nvme_def)

lemma nvme_read_medium_witness:
  "case nvme_read (simple_hw 0) (nvme_addr 0) (replicate 9000 0) 5000 9000 (demo_drive 0) of Inl e \<Rightarrow> False
    | Inr (st', buffer', count) \<Rightarrow> (let n = min (unat (9000 :: u64)) (capacity 0 (demo_drive 0) - unat (5000 :: u64)) in unat count = n \<and>
        buffer' = map (device_state.more (demo_drive 0)) [unat (5000 :: u64)..<unat (5000 :: u64) + n] @ drop n (replicate 9000 0) \<and>
        device_state.more st' = device_state.more (demo_drive 0) \<and> nvme_idle 0 st' \<and> fs_view st' = fs_view (demo_drive 0))"
  by (rule nvme_read_medium [OF simple.nvme_controller_axioms demo_drive_idle])
    (simp_all add: demo_drive_capacity demo_drive_fields)

lemma nvme_write_medium_witness:
  "case nvme_write (simple_hw 0) (nvme_addr 0) (replicate 9000 7) 508000 9000 (demo_drive 0) of Inl e \<Rightarrow> False
    | Inr (st', count) \<Rightarrow> (let n = min (unat (9000 :: u64)) (capacity 0 (demo_drive 0) - unat (508000 :: u64)) in unat count = n \<and>
        device_state.more st' = overwrite (device_state.more (demo_drive 0)) (unat (508000 :: u64)) (take n (replicate 9000 7)) \<and>
        nvme_idle 0 st' \<and> fs_view st' = fs_view (demo_drive 0))"
  by (rule nvme_write_medium [OF simple.nvme_controller_axioms demo_drive_idle])
    (simp_all add: demo_drive_capacity demo_drive_fields)

definition demo_partition_bytes :: "u8 list" where
  "demo_partition_bytes = map of_nat [20480..<51200]"

lemma length_demo_partition: "length demo_partition_bytes = 30720"
  unfolding demo_partition_bytes_def length_map length_upt by simp

lemma demo_drive_partition: "partition_ready 0 0 (\<lambda>m. m) demo_partition_bytes (demo_drive x)"
proof -
  have p: "partition_start (nvmepart_devices (demo_drive x) ! 0) (nvme_devices (demo_drive x) ! 0) = 20480"
    "partition_end (nvmepart_devices (demo_drive x) ! 0) (nvme_devices (demo_drive x) ! 0) = 51200"
    by (simp_all add: demo_drive_fields demo_partition_def partition_start_def partition_end_def demo_nvme_def)
  have "nvmepart_of (nvmepart_addr 0) (demo_drive x) = Inr 0" "np_nvme_device (nvmepart_devices (demo_drive x) ! 0) = 0"
    "first_lba (nvmepart_devices (demo_drive x) ! 0) \<le> last_lba (nvmepart_devices (demo_drive x) ! 0)"
    "0 < length (nvmepart_devices (demo_drive x))"
    by (simp_all add: nvmepart_of_def demo_drive_fields demo_partition_def)
  moreover have "2 \<le> length (filter (\<lambda>s. s = KPAGE_FREE) (kmem_page_array (demo_drive x)))"
    by (simp add: demo_drive_fields KPAGE_FREE_def KPAGE_USED_def)
  moreover have "4096 dvd capacity 0 (demo_drive x)" "51200 \<le> capacity 0 (demo_drive x)" by (simp_all add: demo_drive_capacity)
  moreover have "demo_partition_bytes = map (device_state.more (demo_drive x)) [20480..<51200]"
    unfolding demo_drive_fields by (rule demo_partition_bytes_def)
  ultimately show ?thesis unfolding partition_ready_def p using demo_drive_idle [of x] by blast
qed

lemma exfat_reads_partition_witness:
  "case exfat_read (\<lambda>_. nvmepart_device_fops (simple_hw 0)) 7 (replicate 5000 1) 5000 (demo_drive 100) of Inl e \<Rightarrow> False
    | Inr (st', buf', count) \<Rightarrow>
        (let content = take (unat (8000 :: u64)) (cluster_bytes demo_partition_bytes (demo_drive 100)
               (ei_clusters (exfat_inodes (demo_drive 100) (i_private (inodes (demo_drive 100) (f_inode (filps (demo_drive 100) 7)))))));
             r = take (unat (5000 :: u64)) (drop (unat (f_offset (filps (demo_drive 100) 7))) content) in
          buf' = r @ drop (length r) (replicate 5000 1) \<and> unat count = length r \<and>
          f_offset (filps st' 7) = f_offset (filps (demo_drive 100) 7) + count)"
proof (rule exfat_reads_partition [OF simple.nvme_controller_axioms demo_drive_partition])
  show "file_on (\<lambda>_. nvmepart_device_fops (simple_hw 0)) (nvmepart_device_fops (simple_hw 0)) (nvmepart_addr 0) 7 8000 (demo_drive 100)"
    by (simp add: file_on_def demo_drive_fields file_length_def)
  have "k = 0 \<or> k = 1" if "k < length [0 :: u64, 8]" for k using that by auto
  then have "unat (ec_byte_offset (exfat_clusters (demo_drive 100) ([0, 8] ! k))) = 4096 * (0 + k) \<and>
      unat (ec_device_offset (exfat_clusters (demo_drive 100) ([0, 8] ! k))) + 4096 \<le> 30720"
    if "k < length [0 :: u64, 8]" for k
    using that by (fastforce simp: demo_drive_fields)
  then show "clusters_loaded demo_partition_bytes (demo_drive 100) 0
      (ei_clusters (exfat_inodes (demo_drive 100) (i_private (inodes (demo_drive 100) (f_inode (filps (demo_drive 100) 7))))))"
    by (simp add: clusters_loaded_def demo_drive_fields(13) length_demo_partition)
qed (simp_all add: demo_drive_fields)

end
