(* ===== verification/Dirents.thy ===== *)
theory Dirents
  imports Fds
begin

text \<open>
  The format of directory listings: what \<^verbatim>\<open>getdents\<close> writes are the records of the longest prefix of the
  directory that fits, and a program that steps through them by their lengths finds the names.
\<close>

section \<open>Records\<close>

definition dirent_bytes :: "u8 list \<Rightarrow> u8 list" where
  "dirent_bytes name = le_bytes 2 (length name + 3) @ name @ [0]"

definition dirents :: "u8 list list \<Rightarrow> u8 list" where
  "dirents names = concat (map dirent_bytes names)"

fun fitting :: "nat \<Rightarrow> u8 list list \<Rightarrow> u8 list list" where
  "fitting room [] = []"
| "fitting room (name # names) =
     (if length name + 3 \<le> room then name # fitting (room - (length name + 3)) names else [])"

text \<open>The loop of a program over the bytes it got: a length of two bytes, the name, the next record.\<close>

function parse_dirents :: "u8 list \<Rightarrow> u8 list list" where
  "parse_dirents bytes =
     (let n = le_nat (take 2 bytes)
      in if bytes = [] \<or> n = 0 then [] else takeWhile (\<lambda>c. c \<noteq> 0) (drop 2 bytes) # parse_dirents (drop n bytes))"
  by pat_completeness auto
termination by (relation "measure length") auto

declare parse_dirents.simps [simp del]

definition name_ok :: "u8 list \<Rightarrow> bool" where
  "name_ok name \<longleftrightarrow> 0 \<notin> set name \<and> length name \<le> DENTRY_MAX_NAME_LENGTH"

lemma parse_dirents_dirents:
  "\<forall>name \<in> set names. name_ok name \<Longrightarrow> parse_dirents (dirents names) = names"
proof (induction names)
  case Nil
  then show ?case by (simp add: dirents_def parse_dirents.simps)
next
  case (Cons name names)
  have ok: "0 \<notin> set name" "length name + 3 < 256 ^ 2" using Cons.prems by (simp_all add: name_ok_def)
  let ?bytes = "dirents (name # names)"
  have b: "?bytes = le_bytes 2 (length name + 3) @ name @ 0 # dirents names"
    by (simp add: dirents_def dirent_bytes_def)
  have "take 2 ?bytes = le_bytes 2 (length name + 3)" unfolding b by simp
  then have "le_nat (take 2 ?bytes) = length name + 3" using ok(2) le_nat_bytes [of 2 "length name + 3"] by simp
  moreover have "takeWhile (\<lambda>c. c \<noteq> 0) (drop 2 ?bytes) = name"
    unfolding b using ok(1) by (simp add: takeWhile_append takeWhile_eq_all_conv)
  moreover have "drop (length name + 3) ?bytes = dirents names" unfolding b by simp
  moreover have "?bytes \<noteq> []" unfolding b by simp
  moreover have "parse_dirents (dirents names) = names" using Cons by simp
  ultimately show ?case by (simp add: parse_dirents.simps [of ?bytes])
qed

lemma fitting_subset: "set (fitting room names) \<subseteq> set names"
  by (induction names arbitrary: room) auto

section \<open>The loop\<close>

lemma user_store_append:
  "user_store v (xs @ ys) st = res_bind (user_store v xs st) (user_store (v + of_nat (length xs)) ys)"
  proof (induction xs arbitrary: v st)
  case Nil
  then show ?case by simp
next
  case (Cons x xs)
  then show ?case by (cases "user_addr v st") (simp_all add: add.assoc)
qed

lemma user_store_dentries:
  assumes "user_store v xs st = Inr st'"
  shows "dentries st' = dentries st"
  using assms by (induction xs arbitrary: v st) (auto simp: res_bind_eq_Inr)

lemma getdents_loop_eq:
  assumes "list_all2 (\<lambda>d name. array_string (d_name (dentries st d)) = Inr name \<and> name_ok name) ds names"
    and "unat buf + room + 66 < 2 ^ 64"
  shows "getdents_loop ds buf (buf + of_nat room) st =
    res_bind (user_store buf (dirents (fitting room names)) st)
      (\<lambda>st'. Inr (st', buf + of_nat (length (dirents (fitting room names)))))"
  using assms
proof (induction ds arbitrary: names buf room st)
  case Nil
  then show ?case by (simp add: dirents_def)
next
  case (Cons d ds)
  then obtain name rest where names: "names = name # rest" by (cases names) simp_all
  have d: "array_string (d_name (dentries st d)) = Inr name" and ok: "name_ok name"
    and ds: "list_all2 (\<lambda>d name. array_string (d_name (dentries st d)) = Inr name \<and> name_ok name) ds rest"
    using Cons.prems(1) by (simp_all add: names)
  let ?n = "length name + 3"
  have n: "?n \<le> 66" using ok by (simp add: name_ok_def)
  have u16: "unat (2 + (of_nat (length name) :: u16) + 1) = ?n"
    using n by (simp add: unat_word_ariths unat_of_nat_small)
  have req: "(ucast (2 + (of_nat (length name) :: u16) + 1) :: u64) = of_nat ?n"
    by (rule iffD2 [OF word_unat_eq_iff]) (use u16 n in \<open>simp add: unat_of_nat_small unsigned_ucast_eq take_bit_nat_eq_self del: of_nat_add\<close>)
  have len: "(ucast (of_nat (length name) :: u16) :: u64) = of_nat (length name)"
    by (rule iffD2 [OF word_unat_eq_iff]) (use n in \<open>simp add: unat_of_nat_small unsigned_ucast_eq take_bit_nat_eq_self\<close>)
  have sums: "unat (buf + of_nat ?n) = unat buf + ?n" "unat (buf + of_nat room) = unat buf + room"
    using Cons.prems(2) n by (simp_all add: unat_add_no_wrap unat_of_nat_small del: of_nat_add)
  have fits: "buf + ucast (2 + (of_nat (length name) :: u16) + 1) \<le> buf + of_nat room \<longleftrightarrow> ?n \<le> room"
    unfolding req word_le_nat_alt sums by simp
  have step: "getdents_loop (d # ds) buf (buf + of_nat room) st =
      (if ?n \<le> room then res_bind (user_store buf (dirent_bytes name) st) (\<lambda>st1.
         getdents_loop ds (buf + of_nat ?n) (buf + of_nat room) st1)
       else Inr (st, buf))"
    by (simp only: getdents_loop.simps d res_bind_Inr Let_def fits u16 len dirent_bytes_def) (simp add: algebra_simps)
  show ?case
  proof (cases "?n \<le> room")
    case False
    then show ?thesis unfolding step by (simp add: names dirents_def)
  next
    case True
    let ?more = "fitting (room - ?n) rest"
    have bytes: "dirents (fitting room names) = dirent_bytes name @ dirents ?more"
      using True by (simp add: names dirents_def)
    have l: "length (dirent_bytes name) = ?n" by (simp add: dirent_bytes_def)
    have rest: "getdents_loop ds (buf + of_nat ?n) (buf + of_nat room) st1 =
        res_bind (user_store (buf + of_nat ?n) (dirents ?more) st1)
          (\<lambda>st'. Inr (st', buf + of_nat ?n + of_nat (length (dirents ?more))))"
      if "user_store buf (dirent_bytes name) st = Inr st1" for st1
    proof -
      have "list_all2 (\<lambda>d name. array_string (d_name (dentries st1 d)) = Inr name \<and> name_ok name) ds rest"
        using ds user_store_dentries [OF that] by simp
      moreover have "unat (buf + of_nat ?n) + (room - ?n) + 66 < 2 ^ 64" using Cons.prems(2) True sums(1) by linarith
      moreover have end_of_buf: "buf + of_nat ?n + of_nat (room - ?n) = buf + of_nat room"
        using True by (simp add: add.assoc flip: of_nat_add)
      ultimately show ?thesis using Cons.IH [of st1 rest "buf + of_nat ?n" "room - ?n"]
        by (simp only: end_of_buf)
    qed
    show ?thesis unfolding step bytes user_store_append l
      using True rest by (cases "user_store buf (dirent_bytes name) st") (simp_all add: l add.assoc del: of_nat_add flip: of_nat_add)
  qed
qed


section \<open>The system call\<close>

text \<open>
  C30: \<^verbatim>\<open>getdents\<close> on an open directory stores exactly the records of the longest prefix of the directory that
  fits into the buffer and returns their length, and a program that steps through what it got by the lengths finds
  exactly those names, in order.
\<close>

proposition getdents_lists:
  fixes st :: kernel_state
  assumes "current_filp fd st \<noteq> 0" and "filp_inode (current_filp fd st) st = Inr inode"
    and "i_type inode = INODE_DIRECTORY" and "dir_entries inode = Inr ds"
    and "list_all2 (\<lambda>d name. array_string (d_name (dentries st d)) = Inr name \<and> name_ok name) ds names"
    and "unat buf + unat len + 66 < 2 ^ 64"
  shows "sys_getdents fd buf len st =
      res_bind (user_store buf (dirents (fitting (unat len) names)) st)
        (\<lambda>st'. Inr (st', of_nat (length (dirents (fitting (unat len) names))))) \<and>
    parse_dirents (dirents (fitting (unat len) names)) = fitting (unat len) names"
proof
  have "getdents_loop ds buf (buf + len) st =
      res_bind (user_store buf (dirents (fitting (unat len) names)) st)
        (\<lambda>st'. Inr (st', buf + of_nat (length (dirents (fitting (unat len) names)))))"
    using getdents_loop_eq [OF assms(5,6)] by simp
  then show "sys_getdents fd buf len st =
      res_bind (user_store buf (dirents (fitting (unat len) names)) st)
        (\<lambda>st'. Inr (st', of_nat (length (dirents (fitting (unat len) names)))))"
    using assms(1-4)
    by (cases "user_store buf (dirents (fitting (unat len) names)) st") (simp_all add: sys_getdents_def Let_def)
  have "name_ok name" if "name \<in> set names" for name
    using assms(5) that by (auto simp: list_all2_conv_all_nth in_set_conv_nth)
  then show "parse_dirents (dirents (fitting (unat len) names)) = fitting (unat len) names"
    using parse_dirents_dirents fitting_subset [of "unat len" names] by blast
qed

definition demo_directory :: kernel_state where
  "demo_directory =
     upd_dentry 2 (\<lambda>d. d\<lparr>d_name := [98, 105, 110] @ replicate 61 0\<rparr>)
       (upd_dentry 1 (\<lambda>d. d\<lparr>d_name := [100, 101, 118] @ replicate 61 0\<rparr>)
         (upd_inode 9 (\<lambda>i. i\<lparr>i_type := INODE_DIRECTORY, i_data := Dir_Data [1, 2]\<rparr>) (demo_fds 4)))"

lemma demo_directory_filp: "current_filp 4 demo_directory = 0x22058"
proof -
  have "current_filp 4 demo_directory = current_filp 4 (demo_fds 4)"
    by (simp add: current_filp_def demo_directory_def upd_dentry_def upd_inode_def filp_find_def current_def)
  also have "\<dots> = 0x22058"
    using demo_fds_facts [of 4] by (simp add: current_filp_def filp_find_def fd_of_def task_files_def)
  finally show ?thesis .
qed

lemma getdents_lists_witness:
  "sys_getdents 4 0x1000 7 demo_directory =
      res_bind (user_store 0x1000 (dirents (fitting (unat (7 :: u64)) [[100, 101, 118], [98, 105, 110]])) demo_directory)
        (\<lambda>st'. Inr (st', of_nat (length (dirents (fitting (unat (7 :: u64)) [[100, 101, 118], [98, 105, 110]]))))) \<and>
    parse_dirents (dirents (fitting (unat (7 :: u64)) [[100, 101, 118], [98, 105, 110]])) =
      fitting (unat (7 :: u64)) [[100, 101, 118], [98, 105, 110]]"
proof (rule getdents_lists [where inode = "inodes demo_directory 9" and ds = "[1, 2]"])
  show "filp_inode (current_filp 4 demo_directory) demo_directory = Inr (inodes demo_directory 9)"
    using demo_fds_facts(5) [of 4]
    by (simp add: filp_inode_def demo_directory_filp open_of_def) (simp add: demo_directory_def upd_dentry_def upd_inode_def)
  show "i_type (inodes demo_directory 9) = INODE_DIRECTORY" "dir_entries (inodes demo_directory 9) = Inr [1, 2]"
    by (simp_all add: demo_directory_def upd_dentry_def upd_inode_def dir_entries_def)
  show "list_all2 (\<lambda>d name. array_string (d_name (dentries demo_directory d)) = Inr name \<and> name_ok name) [1, 2]
      [[100, 101, 118], [98, 105, 110]]"
    by (simp add: demo_directory_def upd_dentry_def upd_inode_def array_string_def name_ok_def)
qed (simp_all add: demo_directory_filp)

end
