(* ===== verification/UserLib.thy ===== *)
theory UserLib
  imports CStd Bytes
begin

text \<open>
  \<^verbatim>\<open>userspace/src/persistos.c\<close>, \<^verbatim>\<open>persistos.h\<close> and \<^verbatim>\<open>persistos.s\<close>: how programs run. The operating system of a
  program is a parameter, a function from a system call and the state of the world to an answer; a program is a
  function from the state of the world to how it ends and the state after it. Strings that a program only
  passes on are the lists of their bytes without the terminator.
\<close>

section \<open>System calls\<close>

datatype sys_call =
    Sc_Write u64 "u8 list"
  | Sc_Read u64 u64
  | Sc_Exit u8
  | Sc_Getpid
  | Sc_Sched_Yield
  | Sc_Fork
  | Sc_Exec "u8 list" "u8 list list"
  | Sc_Brk u64
  | Sc_Waitpid u64
  | Sc_Open "u8 list" u64
  | Sc_Close u64
  | Sc_Getdents u64 u64
  | Sc_Mkdir "u8 list"
  | Sc_Lseek u64 u64 u32
  | Sc_Ftruncate u64 u64
  | Sc_Dup2 u64 u64
  | Sc_Gettasks u64
  | Sc_Kill u64 u64
  | Sc_Sleep u64
  | Sc_Mount "u8 list" "u8 list" "u8 list"

text \<open>The number that the stub of a call loads into \<^verbatim>\<open>rdi\<close>.\<close>

fun syscall_number :: "sys_call \<Rightarrow> u64" where
  "syscall_number (Sc_Write fd bytes) = 1"
| "syscall_number (Sc_Read fd n) = 2"
| "syscall_number (Sc_Exit code) = 3"
| "syscall_number Sc_Getpid = 4"
| "syscall_number Sc_Sched_Yield = 5"
| "syscall_number Sc_Fork = 6"
| "syscall_number (Sc_Exec path argv) = 7"
| "syscall_number (Sc_Brk new_brk) = 8"
| "syscall_number (Sc_Waitpid pid) = 9"
| "syscall_number (Sc_Open path options) = 10"
| "syscall_number (Sc_Close fd) = 11"
| "syscall_number (Sc_Getdents fd n) = 12"
| "syscall_number (Sc_Mkdir path) = 13"
| "syscall_number (Sc_Lseek fd offset whence) = 14"
| "syscall_number (Sc_Ftruncate fd n) = 15"
| "syscall_number (Sc_Dup2 old_fd new_fd) = 16"
| "syscall_number (Sc_Gettasks n) = 17"
| "syscall_number (Sc_Kill pid sig) = 18"
| "syscall_number (Sc_Sleep millis) = 19"
| "syscall_number (Sc_Mount dev dir fs) = 20"

text \<open>
  An answer is the value in \<^verbatim>\<open>rax\<close> and the bytes that the kernel stored at the start of the buffer that the call
  names; \<open>No_Return\<close> is a call after which the program does not go on: \<^verbatim>\<open>exit\<close>, or an \<^verbatim>\<open>exec\<close> that succeeds.
\<close>

datatype answer = Answer u64 "u8 list" | No_Return

type_synonym 'w os = "sys_call \<Rightarrow> 'w \<Rightarrow> answer \<times> 'w"

section \<open>Programs\<close>

text \<open>
  How a piece of a program ends: with a value, by a call that does not return, by an access outside an object
  or another fault, or not within the given number of rounds of its loop.
\<close>

datatype 'a ending = Value 'a | Ended | Faulted | Running

type_synonym ('a, 'w) prog = "'w \<Rightarrow> 'a ending \<times> 'w"

definition give :: "'a \<Rightarrow> ('a, 'w) prog" where
  "give x w = (Value x, w)"

definition fault :: "('a, 'w) prog" where
  "fault w = (Faulted, w)"

definition andthen :: "('a, 'w) prog \<Rightarrow> ('a \<Rightarrow> ('b, 'w) prog) \<Rightarrow> ('b, 'w) prog" where
  "andthen p q w = (case p w of
      (Value x, w1) \<Rightarrow> q x w1
    | (Ended, w1) \<Rightarrow> (Ended, w1)
    | (Faulted, w1) \<Rightarrow> (Faulted, w1)
    | (Running, w1) \<Rightarrow> (Running, w1))"

definition ask :: "'w os \<Rightarrow> sys_call \<Rightarrow> (u64 \<times> u8 list, 'w) prog" where
  "ask os c w = (case os c w of
      (Answer r bytes, w1) \<Rightarrow> (Value (r, bytes), w1)
    | (No_Return, w1) \<Rightarrow> (Ended, w1))"

text \<open>A call of which only the result is used, and one whose result is not used.\<close>

definition ask_value :: "'w os \<Rightarrow> sys_call \<Rightarrow> (u64, 'w) prog" where
  "ask_value os c = andthen (ask os c) (\<lambda>(r, bytes). give r)"

definition ask_only :: "'w os \<Rightarrow> sys_call \<Rightarrow> (unit, 'w) prog" where
  "ask_only os c = andthen (ask os c) (\<lambda>r. give ())"

text \<open>\<^verbatim>\<open>exit\<close> does not return to the program, whatever the kernel does with the number.\<close>

definition exit :: "'w os \<Rightarrow> u8 \<Rightarrow> ('a, 'w) prog" where
  "exit os code w = (Ended, snd (os (Sc_Exit code) w))"

fun for_each :: "'a list \<Rightarrow> ('a \<Rightarrow> (unit, 'w) prog) \<Rightarrow> (unit, 'w) prog" where
  "for_each [] body = give ()"
| "for_each (x # xs) body = andthen (body x) (\<lambda>u. for_each xs body)"

fun thread :: "('a \<Rightarrow> 's \<Rightarrow> ('s, 'w) prog) \<Rightarrow> 'a list \<Rightarrow> 's \<Rightarrow> ('s, 'w) prog" where
  "thread body [] s = give s"
| "thread body (x # xs) s = andthen (body x s) (thread body xs)"

definition checked :: "'a res \<Rightarrow> ('a, 'w) prog" where
  "checked r = (case r of Inl e \<Rightarrow> fault | Inr x \<Rightarrow> give x)"

lemma andthen_give [simp]: "andthen (give x) q = q x"
  by (rule ext) (simp add: andthen_def give_def)

lemma andthen_exit [simp]: "andthen (exit os code) q = exit os code"
  by (rule ext) (simp add: andthen_def exit_def)

lemma andthen_fault [simp]: "andthen fault q = fault"
  by (rule ext) (simp add: andthen_def fault_def)

lemma andthen_assoc: "andthen (andthen p q) r = andthen p (\<lambda>x. andthen (q x) r)"
  by (rule ext) (auto simp: andthen_def split: prod.split ending.split)

lemma andthen_give_right [simp]: "andthen p give = p"
  by (rule ext) (auto simp: andthen_def give_def split: prod.split ending.split)

lemma andthen_Value:
  "andthen p q w = (Value y, w2) \<longleftrightarrow> (\<exists>x w1. p w = (Value x, w1) \<and> q x w1 = (Value y, w2))"
  by (auto simp: andthen_def split: prod.splits ending.splits)

lemma andthen_step: "p w = (Value x, w1) \<Longrightarrow> andthen p q w = q x w1"
  by (simp add: andthen_def)

lemma ask_value_step: "os c w = (Answer r bytes, w1) \<Longrightarrow> ask_value os c w = (Value r, w1)"
  by (simp add: ask_value_def ask_def andthen_def give_def)

lemma ask_only_step: "os c w = (Answer r bytes, w1) \<Longrightarrow> ask_only os c w = (Value (), w1)"
  by (simp add: ask_only_def ask_def andthen_def give_def)

lemma for_each_append: "for_each (xs @ ys) body = andthen (for_each xs body) (\<lambda>u. for_each ys body)"
  by (induction xs) (simp_all add: andthen_assoc)

section \<open>The C library\<close>

definition O_CREAT_user :: u64 where "O_CREAT_user = 0x1"
definition O_TRUNCATE_user :: u64 where "O_TRUNCATE_user = 0x2"

definition stdout :: u64 where "stdout = 1"
definition stderr :: u64 where "stderr = 2"

definition fputs :: "'w os \<Rightarrow> u8 list \<Rightarrow> u64 \<Rightarrow> (unit, 'w) prog" where
  "fputs os s fd = ask_only os (Sc_Write fd s)"

definition puts :: "'w os \<Rightarrow> u8 list \<Rightarrow> (unit, 'w) prog" where
  "puts os s = ask_only os (Sc_Write 1 s)"

definition is_error :: "u64 \<Rightarrow> bool" where
  "is_error x \<longleftrightarrow> sint x \<ge> -4095 \<and> sint x \<le> -1"

text \<open>The allocator: addresses of the heap's parts, of which \<^verbatim>\<open>malloc\<close> moves the top and never takes back.\<close>

record heap =
  heap_bottom :: u64
  heap_top :: u64
  program_break :: u64

definition libc_init :: "'w os \<Rightarrow> (heap, 'w) prog" where
  "libc_init os = andthen (ask_value os (Sc_Brk 0)) (\<lambda>b.
     give \<lparr>heap_bottom = b, heap_top = b, program_break = b\<rparr>)"

definition malloc :: "'w os \<Rightarrow> u64 \<Rightarrow> heap \<Rightarrow> (u64 \<times> heap, 'w) prog" where
  "malloc os n h =
     (let old_heap_top = heap_top h; h1 = h\<lparr>heap_top := heap_top h + n\<rparr>
      in if heap_top h1 > program_break h1
         then andthen (ask_value os (Sc_Brk (heap_top h1))) (\<lambda>b. give (old_heap_top, h1\<lparr>program_break := b\<rparr>))
         else give (old_heap_top, h1))"

definition free :: "u64 \<Rightarrow> heap \<Rightarrow> (heap, 'w) prog" where
  "free addr h = give h"

text \<open>The start-up code: the heap, then \<^verbatim>\<open>main\<close> with the arguments, then \<^verbatim>\<open>exit\<close> with what \<^verbatim>\<open>main\<close> returned.\<close>

definition run_main :: "'w os \<Rightarrow> (u8 list list \<Rightarrow> (u64, 'w) prog) \<Rightarrow> u8 list list \<Rightarrow> (unit, 'w) prog" where
  "run_main os main argv = andthen (libc_init os) (\<lambda>h. andthen (main argv) (\<lambda>r. exit os (ucast r)))"

text \<open>
  Buffers: what a read leaves in the buffer it filled, the bytes of memory at an address, and the string at a
  position of a buffer, which is outside it when its terminator is.
\<close>

definition fill :: "u8 list \<Rightarrow> u8 list \<Rightarrow> u8 list" where
  "fill buffer bytes = take (length buffer) bytes @ drop (length bytes) buffer"

definition mem_bytes :: "mem \<Rightarrow> u64 \<Rightarrow> nat \<Rightarrow> u8 list" where
  "mem_bytes m a n = map (\<lambda>i. m (a + of_nat i)) [0..<n]"

definition c_string :: "u8 list \<Rightarrow> u8 list" where
  "c_string buffer = takeWhile (\<lambda>c. c \<noteq> 0) buffer"

definition string_at :: "u8 list \<Rightarrow> nat \<Rightarrow> (u8 list, 'w) prog" where
  "string_at buffer i = (if 0 \<in> set (drop i buffer) then give (c_string (drop i buffer)) else fault)"

definition puts_mem :: "'w os \<Rightarrow> u64 \<Rightarrow> mem \<Rightarrow> (unit, 'w) prog" where
  "puts_mem os a m = (case strlen a m of None \<Rightarrow> fault | Some n \<Rightarrow> puts os (mem_bytes m a (unat n)))"

section \<open>Decimal numbers\<close>

text \<open>
  \<^verbatim>\<open>parse_n_dec\<close> of \<^verbatim>\<open>cstd.c\<close>, on the bytes from \<^verbatim>\<open>str\<close> on; a string ends with its terminator, so the loop
  leaves it only when the limit does. The result is the count of characters, as a byte, and the number.
\<close>

fun parse_n_dec_loop :: "u8 list \<Rightarrow> nat \<Rightarrow> u64 \<Rightarrow> nat \<Rightarrow> nat \<times> u64" where
  "parse_n_dec_loop [] n tmp c = (c, tmp)"
| "parse_n_dec_loop (b # bs) n tmp c =
     (if c < n \<and> b \<ge> 48 \<and> b \<le> 57
      then parse_n_dec_loop bs n (tmp * 10 + (ucast b - 48)) (Suc c) else (c, tmp))"

definition parse_n_dec :: "u8 list \<Rightarrow> u32 \<Rightarrow> u8 \<times> u64" where
  "parse_n_dec str n = (case parse_n_dec_loop (str @ [0]) (unat n) 0 0 of (c, tmp) \<Rightarrow> (of_nat c, tmp))"

end
