(* ===== verification/ShellParser.thy ===== *)
theory ShellParser
  imports UserLib
begin

text \<open>
  The parser of \<^verbatim>\<open>userspace/src/shell.c\<close>: recursive descent over a line in memory, with one function for each rule
  of the grammar. A parse result covers the addresses from \<open>pair_start\<close> up to \<open>pair_end\<close>; the chain that starts
  at \<^verbatim>\<open>first_child\<close> and runs over \<^verbatim>\<open>next_sibling\<close> is the list of children, no child being \<^verbatim>\<open>NULL\<close>. The blocks of
  the tree come from \<^verbatim>\<open>malloc\<close>, which always returns, and no other data refers to them.
\<close>

section \<open>Parse trees\<close>

definition PAIR_OMS :: u64 where "PAIR_OMS = 0xB1"
definition PAIR_UNQUOTED_STRING :: u64 where "PAIR_UNQUOTED_STRING = 0xB2"
definition PAIR_SHELL_STMT :: u64 where "PAIR_SHELL_STMT = 0xB3"
definition PAIR_QUOTED_STRING :: u64 where "PAIR_QUOTED_STRING = 0xB4"
definition PAIR_QUOTED_STRING_CONTENT :: u64 where "PAIR_QUOTED_STRING_CONTENT = 0xB5"
definition PAIR_WORD_FRAGMENT :: u64 where "PAIR_WORD_FRAGMENT = 0xB6"
definition PAIR_WORD :: u64 where "PAIR_WORD = 0xB7"
definition PAIR_SIMPLE_COMMAND_ELEMENT :: u64 where "PAIR_SIMPLE_COMMAND_ELEMENT = 0xB8"
definition PAIR_REDIRECT :: u64 where "PAIR_REDIRECT = 0xB9"
definition PAIR_REDIRECT_OPERATOR :: u64 where "PAIR_REDIRECT_OPERATOR = 0xBA"

lemmas pair_types = PAIR_OMS_def PAIR_UNQUOTED_STRING_def PAIR_SHELL_STMT_def PAIR_QUOTED_STRING_def
  PAIR_QUOTED_STRING_CONTENT_def PAIR_WORD_FRAGMENT_def PAIR_WORD_def PAIR_SIMPLE_COMMAND_ELEMENT_def
  PAIR_REDIRECT_def PAIR_REDIRECT_OPERATOR_def

datatype pair = Pair_Node (pair_type: u64) (pair_start: u64) (pair_end: u64) (children: "pair list")

text \<open>The bytes that a pair covers.\<close>

definition pair_bytes :: "mem \<Rightarrow> pair \<Rightarrow> u8 list" where
  "pair_bytes m p = mem_bytes m (pair_start p) (unat (pair_end p - pair_start p))"

section \<open>Characters\<close>

definition is_ordinary_character :: "u8 \<Rightarrow> bool" where
  "is_ordinary_character c \<longleftrightarrow> c \<noteq> 0 \<and> c \<noteq> 10 \<and> c \<noteq> 39 \<and> c \<noteq> 32 \<and> c \<noteq> 60 \<and> c \<noteq> 62"

text \<open>\<^verbatim>\<open>while (*cur == ' ' && cur < start + length) cur++;\<close>\<close>

function skip_spaces :: "u64 \<Rightarrow> u64 \<Rightarrow> mem \<Rightarrow> u64" where
  "skip_spaces cur max_end m = (if m cur = 32 \<and> cur < max_end then skip_spaces (cur + 1) max_end m else cur)"
  by pat_completeness auto
termination
  by (relation "measure (\<lambda>(cur, max_end, m). unat (max_end - cur))") (auto simp: word_succ_measure)

text \<open>\<^verbatim>\<open>do { cur++; } while (is_ordinary_character(*cur) && cur < start + length);\<close> from behind the increment.\<close>

function ordinary_run :: "u64 \<Rightarrow> u64 \<Rightarrow> mem \<Rightarrow> u64" where
  "ordinary_run cur max_end m =
     (if is_ordinary_character (m cur) \<and> cur < max_end then ordinary_run (cur + 1) max_end m else cur)"
  by pat_completeness auto
termination
  by (relation "measure (\<lambda>(cur, max_end, m). unat (max_end - cur))") (auto simp: word_succ_measure)

text \<open>The loop of \<^verbatim>\<open>parse_single_quoted_string\<close>, with \<open>None\<close> for its \<^verbatim>\<open>return NULL\<close>; again from behind the increment.\<close>

function quoted_run :: "u64 \<Rightarrow> u64 \<Rightarrow> mem \<Rightarrow> u64 option" where
  "quoted_run cur max_end m =
     (if cur \<ge> max_end then None else if m cur = 39 then Some cur else quoted_run (cur + 1) max_end m)"
  by pat_completeness auto
termination
  by (relation "measure (\<lambda>(cur, max_end, m). unat (max_end - cur))") (auto simp: word_succ_measure not_le)

declare skip_spaces.simps [simp del] ordinary_run.simps [simp del] quoted_run.simps [simp del]

section \<open>The rules\<close>

definition parse_zms :: "u64 \<Rightarrow> u64 \<Rightarrow> mem \<Rightarrow> pair" where
  "parse_zms start len m = Pair_Node PAIR_OMS start (skip_spaces start (start + len) m) []"

definition parse_oms :: "u64 \<Rightarrow> u64 \<Rightarrow> mem \<Rightarrow> pair option" where
  "parse_oms start len m =
     (let cur = skip_spaces start (start + len) m
      in if cur = start then None else Some (Pair_Node PAIR_OMS start cur []))"

definition parse_redirect_operator :: "u64 \<Rightarrow> u64 \<Rightarrow> mem \<Rightarrow> pair option" where
  "parse_redirect_operator start len m =
     (if len = 0 then None
      else if m start \<noteq> 60 \<and> m start \<noteq> 62 then None
      else Some (Pair_Node PAIR_REDIRECT_OPERATOR start (start + 1) []))"

definition parse_unquoted_string :: "u64 \<Rightarrow> u64 \<Rightarrow> mem \<Rightarrow> pair option" where
  "parse_unquoted_string start len m =
     (if len = 0 \<or> \<not> is_ordinary_character (m start) then None
      else Some (Pair_Node PAIR_UNQUOTED_STRING start (ordinary_run (start + 1) (start + len) m) []))"

definition parse_single_quoted_string :: "u64 \<Rightarrow> u64 \<Rightarrow> mem \<Rightarrow> pair option" where
  "parse_single_quoted_string start len m =
     (if len = 0 \<or> m start \<noteq> 39 then None
      else case quoted_run (start + 1) (start + len) m of
          None \<Rightarrow> None
        | Some cur \<Rightarrow> Some (Pair_Node PAIR_QUOTED_STRING start (cur + 1)
            [Pair_Node PAIR_QUOTED_STRING_CONTENT (start + 1) cur []]))"

definition parse_word_fragment :: "u64 \<Rightarrow> u64 \<Rightarrow> mem \<Rightarrow> pair option" where
  "parse_word_fragment start len m =
     (case (case parse_single_quoted_string start len m of
          None \<Rightarrow> parse_unquoted_string start len m | Some p \<Rightarrow> Some p) of
        None \<Rightarrow> None
      | Some child \<Rightarrow> Some (Pair_Node PAIR_WORD_FRAGMENT (pair_start child) (pair_end child) [child]))"


text \<open>
  The progress of the loops: the distance to the end of the line, as a difference of addresses, never grows,
  and a rule that succeeds makes it smaller.
\<close>

lemma skip_spaces_progress: "unat (max_end - skip_spaces cur max_end m) \<le> unat (max_end - cur)"
proof (induction cur max_end m rule: skip_spaces.induct)
  case (1 cur max_end m)
  then show ?case
    using word_succ_measure [of cur max_end] by (subst skip_spaces.simps) auto
qed

lemma ordinary_run_progress: "unat (max_end - ordinary_run cur max_end m) \<le> unat (max_end - cur)"
proof (induction cur max_end m rule: ordinary_run.induct)
  case (1 cur max_end m)
  then show ?case
    using word_succ_measure [of cur max_end] by (subst ordinary_run.simps) auto
qed

lemma quoted_run_progress:
  assumes "quoted_run cur max_end m = Some r"
  shows "unat (max_end - r) \<le> unat (max_end - cur) \<and> r < max_end"
  using assms
proof (induction cur max_end m rule: quoted_run.induct)
  case (1 cur max_end m)
  show ?case
  proof (cases "cur < max_end \<and> m cur \<noteq> 39")
    case True
    then have "quoted_run cur max_end m = quoted_run (cur + 1) max_end m"
      by (subst quoted_run.simps) (simp flip: not_less)
    then have "unat (max_end - r) \<le> unat (max_end - (cur + 1)) \<and> r < max_end"
      using True "1.IH" "1.prems" by (simp flip: not_less)
    then show ?thesis using True word_succ_measure [of cur max_end] by simp
  next
    case False
    then show ?thesis
      using "1.prems" quoted_run.simps [of cur max_end m] by (auto split: if_splits simp: not_le)
  qed
qed

lemma step_distance:
  fixes len :: u64
  assumes "len \<noteq> 0"
  shows "unat (start + len - (start + 1)) < unat (start + len - start)"
  using assms measure_unat [of len] by simp

lemma parse_word_fragment_progress:
  assumes "parse_word_fragment start len m = Some f"
  shows "unat (start + len - pair_end f) < unat (start + len - start)"
proof -
  have l: "len \<noteq> 0"
    using assms by (auto simp: parse_word_fragment_def parse_single_quoted_string_def parse_unquoted_string_def)
  show ?thesis
  proof (cases "parse_single_quoted_string start len m")
    case None
    then have "pair_end f = ordinary_run (start + 1) (start + len) m"
      using assms by (auto simp: parse_word_fragment_def parse_unquoted_string_def split: if_splits)
    then show ?thesis
      using ordinary_run_progress [of "start + len" "start + 1" m] step_distance [OF l, of start] by simp
  next
    case (Some q)
    then obtain cur where cur: "quoted_run (start + 1) (start + len) m = Some cur" and "pair_end f = cur + 1"
      using assms by (auto simp: parse_word_fragment_def parse_single_quoted_string_def split: if_splits option.splits)
    then show ?thesis
      using quoted_run_progress [OF cur] word_succ_measure [of cur "start + len"] step_distance [OF l, of start] by simp
  qed
qed

function parse_word_fragments :: "u64 \<Rightarrow> u64 \<Rightarrow> mem \<Rightarrow> pair list" where
  "parse_word_fragments cur max_end m =
     (case parse_word_fragment cur (max_end - cur) m of
        None \<Rightarrow> []
      | Some f \<Rightarrow> f # parse_word_fragments (pair_end f) max_end m)"
  by pat_completeness auto
termination
  by (relation "measure (\<lambda>(cur, max_end, m). unat (max_end - cur))") (auto dest: parse_word_fragment_progress)

declare parse_word_fragments.simps [simp del]

text \<open>The end of a word is that of its last fragment.\<close>

definition parse_word :: "u64 \<Rightarrow> u64 \<Rightarrow> mem \<Rightarrow> pair option" where
  "parse_word start len m =
     (let max_end = start + len
      in case parse_word_fragments start max_end m of
          [] \<Rightarrow> None
        | word_fragment # rest \<Rightarrow> Some (Pair_Node PAIR_WORD (pair_start word_fragment)
            (pair_end (last (word_fragment # rest))) (word_fragment # rest)))"

definition parse_redirect :: "u64 \<Rightarrow> u64 \<Rightarrow> mem \<Rightarrow> pair option" where
  "parse_redirect start len m =
     (let max_end = start + len
      in case parse_redirect_operator start (max_end - start) m of
          None \<Rightarrow> None
        | Some redirect_operator \<Rightarrow>
            (let cur = pair_end (parse_zms (pair_end redirect_operator) (max_end - pair_end redirect_operator) m)
             in case parse_word cur (max_end - cur) m of
                 None \<Rightarrow> None
               | Some word \<Rightarrow> Some (Pair_Node PAIR_REDIRECT start (pair_end word) [redirect_operator, word])))"

definition parse_simple_command_element :: "u64 \<Rightarrow> u64 \<Rightarrow> mem \<Rightarrow> pair option" where
  "parse_simple_command_element start len m =
     (case parse_redirect start len m of
        Some p \<Rightarrow> Some (Pair_Node PAIR_SIMPLE_COMMAND_ELEMENT (pair_start p) (pair_end p) [p])
      | None \<Rightarrow> (case parse_word start len m of
          Some p \<Rightarrow> Some (Pair_Node PAIR_SIMPLE_COMMAND_ELEMENT (pair_start p) (pair_end p) [p])
        | None \<Rightarrow> None))"

lemma parse_word_fragments_progress:
  assumes "parse_word_fragments cur max_end m = f # fs"
  shows "unat (max_end - pair_end (last (f # fs))) < unat (max_end - cur)"
  using assms
proof (induction cur max_end m arbitrary: f fs rule: parse_word_fragments.induct)
  case (1 cur max_end m)
  from "1.prems" have f: "parse_word_fragment cur (max_end - cur) m = Some f"
    and fs: "fs = parse_word_fragments (pair_end f) max_end m"
    by (subst (asm) parse_word_fragments.simps, simp split: option.splits)+
  have less: "unat (max_end - pair_end f) < unat (max_end - cur)"
    using parse_word_fragment_progress [OF f] by simp
  show ?case
  proof (cases fs)
    case Nil
    then show ?thesis using less by simp
  next
    case (Cons g gs)
    then show ?thesis using "1.IH" [OF f, of g gs] fs less by simp
  qed
qed

lemma parse_word_progress:
  assumes "parse_word start len m = Some p"
  shows "unat (start + len - pair_end p) < unat (start + len - start)"
  using assms parse_word_fragments_progress [of start "start + len" m]
  by (auto simp: parse_word_def split: list.splits)

lemma parse_redirect_progress:
  assumes "parse_redirect start len m = Some p"
  shows "unat (start + len - pair_end p) < unat (start + len - start)"
proof -
  let ?top = "start + len"
  from assms obtain word where l: "len \<noteq> 0" and word: "pair_end p = pair_end word"
    and w: "parse_word (skip_spaces (start + 1) ?top m) (?top - skip_spaces (start + 1) ?top m) m = Some word"
    by (auto simp: parse_redirect_def parse_redirect_operator_def parse_zms_def Let_def split: option.splits if_splits)
  show ?thesis
    using parse_word_progress [OF w] skip_spaces_progress [of ?top "start + 1" m] step_distance [OF l, of start]
    by (simp add: word)
qed

lemma parse_simple_command_element_progress:
  assumes "parse_simple_command_element start len m = Some p"
  shows "unat (start + len - pair_end p) < unat (start + len - start)"
  using assms parse_redirect_progress [of start len m] parse_word_progress [of start len m]
  by (auto simp: parse_simple_command_element_def split: option.splits)

text \<open>The loop of \<^verbatim>\<open>parse_shell_stmt\<close>: the elements, each followed by spaces that are not kept.\<close>

function parse_elements :: "u64 \<Rightarrow> u64 \<Rightarrow> mem \<Rightarrow> pair list" where
  "parse_elements cur max_end m =
     (case parse_simple_command_element cur (max_end - cur) m of
        None \<Rightarrow> []
      | Some sce \<Rightarrow>
          sce # parse_elements (pair_end (parse_zms (pair_end sce) (max_end - pair_end sce) m)) max_end m)"
  by pat_completeness auto
termination
proof (relation "measure (\<lambda>(cur, max_end, m). unat (max_end - cur))")
  fix cur max_end m sce
  assume sce: "parse_simple_command_element cur (max_end - cur) m = Some sce"
  show "((pair_end (parse_zms (pair_end sce) (max_end - pair_end sce) m), max_end, m), cur, max_end, m)
      \<in> measure (\<lambda>(cur, max_end, m). unat (max_end - cur))"
    using parse_simple_command_element_progress [OF sce] skip_spaces_progress [of max_end "pair_end sce" m]
    by (simp add: parse_zms_def)
qed simp

declare parse_elements.simps [simp del]

definition parse_shell_stmt :: "u64 \<Rightarrow> u64 \<Rightarrow> mem \<Rightarrow> pair" where
  "parse_shell_stmt start len m =
     (let elements = parse_elements start (start + len) m
      in Pair_Node PAIR_SHELL_STMT start (if elements = [] then start else pair_end (last elements)) elements)"

end
