(* ===== verification/Shell.thy ===== *)
theory Shell
  imports ShellParser
begin

text \<open>
  The rest of \<^verbatim>\<open>userspace/src/shell.c\<close>: the execution of a line, the line editor and the script loop. The value of
  a local variable that the code reads without having set it is the parameter \<open>garbage\<close>. A block that \<^verbatim>\<open>malloc\<close>
  returns is cleared memory: the kernel clears each heap page that it maps, and the allocator hands out each
  byte once.
\<close>

definition KEYBOARD_COMMAND_BUFFER_LENGTH :: nat where "KEYBOARD_COMMAND_BUFFER_LENGTH = 400"
definition SCRIPT_BUFFER_LENGTH :: nat where "SCRIPT_BUFFER_LENGTH = 400"
definition command_prompt :: "u8 list" where "command_prompt = u8p ''# ''"

section \<open>Words\<close>

definition first_child :: "pair \<Rightarrow> (pair, 'w) prog" where
  "first_child p = (case children p of [] \<Rightarrow> fault | c # cs \<Rightarrow> give c)"

text \<open>One branch of \<^verbatim>\<open>expand_word\<close>: the content of a fragment behind the first \<open>n\<close> bytes of the buffer.\<close>

definition append_content ::
  "'w os \<Rightarrow> mem \<Rightarrow> pair \<Rightarrow> u8 list \<times> nat \<Rightarrow> (u8 list \<times> nat, 'w) prog" where
  "append_content os m p = (\<lambda>(out_buffer, n).
     let child_pair_length = unat (pair_end p - pair_start p)
     in if n + child_pair_length \<ge> SCRIPT_BUFFER_LENGTH
        then andthen (fputs os (u8p ''shell: word is too long'' @ [10]) stderr) (\<lambda>u. exit os 2)
        else andthen (checked (blit out_buffer n (pair_bytes m p) 0 child_pair_length)) (\<lambda>out1.
             give (out1, n + child_pair_length)))"

fun expand_fragments ::
  "'w os \<Rightarrow> mem \<Rightarrow> pair list \<Rightarrow> u8 list \<times> nat \<Rightarrow> (u8 list \<times> nat, 'w) prog" where
  "expand_fragments os m [] out = give out"
| "expand_fragments os m (word_fragment # fragments) out =
     andthen (first_child word_fragment) (\<lambda>child.
     andthen
       (if pair_type child = PAIR_UNQUOTED_STRING then append_content os m child out
        else if pair_type child = PAIR_QUOTED_STRING
        then andthen (first_child child) (\<lambda>content. append_content os m content out)
        else andthen (fputs os (u8p ''shell: parser assertion: unexpected pair type'' @ [10]) stderr) (\<lambda>u. exit os 2))
     (\<lambda>(out1, n1). andthen (checked (array_set out1 (n1 + 1) 0)) (\<lambda>out2.
        expand_fragments os m fragments (out2, n1))))"

definition expand_word :: "'w os \<Rightarrow> mem \<Rightarrow> pair \<Rightarrow> u8 list \<Rightarrow> (u8 list, 'w) prog" where
  "expand_word os m word out_buffer =
     andthen (expand_fragments os m (children word) (out_buffer, 0)) (\<lambda>(out1, n). give out1)"

section \<open>Lines\<close>

record redirect_info =
  ri_fd :: u64
  target_path :: "u8 list"

text \<open>
  The pass over the elements that expands them; the arrays hold the elements stored so far. \<^verbatim>\<open>strklcmp\<close> of a
  literal of one character with one character of the line compares these.
\<close>

fun expand_elements ::
  "'w os \<Rightarrow> mem \<Rightarrow> pair list \<Rightarrow> u8 list list \<Rightarrow> redirect_info list \<Rightarrow>
    (u8 list list \<times> redirect_info list, 'w) prog" where
  "expand_elements os m [] exec_argv redirect_infos = give (exec_argv, redirect_infos)"
| "expand_elements os m (sce # elements) exec_argv redirect_infos =
     andthen (first_child sce) (\<lambda>element.
       if pair_type element = PAIR_WORD
       then andthen (expand_word os m element (replicate SCRIPT_BUFFER_LENGTH 0)) (\<lambda>exec_buffer.
              expand_elements os m elements (exec_argv @ [exec_buffer]) redirect_infos)
       else if pair_type element = PAIR_REDIRECT
       then (case children element of
              redirect_operator # redirect_target # others \<Rightarrow>
                if m (pair_start redirect_operator) = 60 \<or> m (pair_start redirect_operator) = 62
                then andthen (expand_word os m redirect_target (replicate SCRIPT_BUFFER_LENGTH 0)) (\<lambda>path.
                       expand_elements os m elements exec_argv (redirect_infos @
                         [\<lparr>ri_fd = (if m (pair_start redirect_operator) = 60 then 0 else 1), target_path = path\<rparr>]))
                else andthen (fputs os (u8p ''shell: parser assertion: unexpected redirect operator'' @ [10]) stderr)
                       (\<lambda>u. exit os 2)
            | _ \<Rightarrow> fault)
       else andthen (fputs os (u8p ''shell: parser assertion: unexpected pair type'' @ [10]) stderr) (\<lambda>u. exit os 2))"

definition do_redirect :: "'w os \<Rightarrow> redirect_info \<Rightarrow> (unit, 'w) prog" where
  "do_redirect os ri =
     andthen (ask_value os (Sc_Open (c_string (target_path ri)) (O_CREAT_user OR O_TRUNCATE_user))) (\<lambda>old_fd.
     if is_error old_fd
     then andthen (fputs os (u8p ''shell: failed to open file for redirect'' @ [10]) stderr) (\<lambda>u. exit os 1)
     else andthen (ask_value os (Sc_Dup2 old_fd (ri_fd ri))) (\<lambda>dup2_result.
     if is_error dup2_result
     then andthen (fputs os (u8p ''shell: failed to duplicate fd'') stderr) (\<lambda>u. exit os 1)
     else ask_only os (Sc_Close old_fd)))"

text \<open>The child: the redirections, then the program by its name, then below \<^verbatim>\<open>bin/\<close>.\<close>

definition run_child :: "'w os \<Rightarrow> redirect_info list \<Rightarrow> u8 list list \<Rightarrow> ('a, 'w) prog" where
  "run_child os redirect_infos argv =
     andthen (for_each redirect_infos (do_redirect os)) (\<lambda>u.
     andthen (ask_value os (Sc_Exec (hd argv) argv)) (\<lambda>r.
     if \<not> length (hd argv) + 5 \<le> KEYBOARD_COMMAND_BUFFER_LENGTH then fault
     else andthen (ask_value os (Sc_Exec (u8p ''bin/'' @ hd argv) argv)) (\<lambda>r.
          andthen (fputs os (u8p ''shell: command not found: '') stderr) (\<lambda>u.
          andthen (fputs os (hd argv) stderr) (\<lambda>u.
          andthen (fputs os [10] stderr) (\<lambda>u. exit os 1))))))"

text \<open>The code of the child, when \<^verbatim>\<open>waitpid\<close> has stored it.\<close>

definition child_exit_code :: "u64 \<Rightarrow> u8 list \<Rightarrow> u64" where
  "child_exit_code garbage bytes = (if length bytes = 8 then of_nat (le_nat bytes) else garbage)"

definition run_command :: "'w os \<Rightarrow> u64 \<Rightarrow> redirect_info list \<Rightarrow> u8 list list \<Rightarrow> (u64, 'w) prog" where
  "run_command os garbage redirect_infos argv =
     andthen (ask_value os Sc_Fork) (\<lambda>child_pid.
     if child_pid = 0 then run_child os redirect_infos argv
     else andthen (ask os (Sc_Waitpid child_pid)) (\<lambda>(r, bytes).
          andthen (if is_error r then fputs os (u8p ''shell: error waiting for subprocess'' @ [10]) stderr else give ())
            (\<lambda>u. give (child_exit_code garbage bytes))))"

definition exit_command :: "'w os \<Rightarrow> u64 \<Rightarrow> u8 list list \<Rightarrow> (u64, 'w) prog" where
  "exit_command os garbage argv =
     (case argv of
        name # arg # others \<Rightarrow> exit os (ucast (snd (parse_n_dec arg (of_nat (length arg)))))
      | _ \<Rightarrow> exit os (ucast garbage))"

text \<open>The first pass over the elements, which counts them.\<close>

fun count_elements :: "'w os \<Rightarrow> pair list \<Rightarrow> u64 \<times> u64 \<Rightarrow> (u64 \<times> u64, 'w) prog" where
  "count_elements os [] counts = give counts"
| "count_elements os (p # elements) (num_words, num_redirects) =
     (if pair_type p \<noteq> PAIR_SIMPLE_COMMAND_ELEMENT
      then andthen (fputs os (u8p ''shell: parser assertion: expected PAIR_SIMPLE_COMMAND_ELEMENT'' @ [10]) stderr)
             (\<lambda>u. exit os 2)
      else andthen (first_child p) (\<lambda>c. count_elements os elements
        (if pair_type c = PAIR_WORD then (num_words + 1, num_redirects)
         else if pair_type c = PAIR_REDIRECT then (num_words, num_redirects + 1)
         else (num_words, num_redirects))))"

definition exec_shell_line :: "'w os \<Rightarrow> u64 \<Rightarrow> u64 \<Rightarrow> u64 \<Rightarrow> mem \<Rightarrow> (u64, 'w) prog" where
  "exec_shell_line os garbage line len m =
     (let stmt_result = parse_shell_stmt line len m; elements = children stmt_result
      in if pair_end stmt_result \<noteq> line + len
         then andthen (fputs os (u8p ''shell: syntax error, unexpected '' @ [39]) stderr) (\<lambda>u.
              andthen (ask_only os (Sc_Write 2 [m (line + len)])) (\<lambda>u.
              andthen (fputs os [39, 10] stderr) (\<lambda>u. give 1)))
         else andthen (count_elements os elements (0, 0)) (\<lambda>(num_words, num_redirects).
              if num_words = 0 then give 0
              else andthen (expand_elements os m elements [] []) (\<lambda>(exec_argv, redirect_infos).
                   let argv = map c_string exec_argv
                   in if hd argv = u8p ''exit'' then exit_command os garbage argv
                      else run_command os garbage redirect_infos argv)))"

section \<open>The line editor\<close>

text \<open>
  The locals of \<^verbatim>\<open>main\<close> that live across rounds of its loop. The third pair of a length and a buffer is only used
  during the exchange of the other two.
\<close>

record editor =
  cursor_end_offset :: u16
  keyboard_command_length :: u16
  keyboard_command_buffer :: "u8 list"
  prev_keyboard_command_length :: u16
  prev_keyboard_command_buffer :: "u8 list"
  single_char :: u8

definition rewrite_command_line :: "'w os \<Rightarrow> u8 list \<Rightarrow> u16 \<Rightarrow> u16 \<Rightarrow> (unit, 'w) prog" where
  "rewrite_command_line os buffer len cursor =
     andthen (puts os [13, 27, 91, 75]) (\<lambda>u.
     andthen (puts os command_prompt) (\<lambda>u.
     if \<not> unat len \<le> length buffer then fault
     else andthen (ask_only os (Sc_Write 1 (take (unat len) buffer))) (\<lambda>u.
          for_each [0..<unat cursor] (\<lambda>i. puts os [27, 91, 68]))))"

definition rewrite_line_of :: "'w os \<Rightarrow> editor \<Rightarrow> (editor, 'w) prog" where
  "rewrite_line_of os ed =
     andthen (rewrite_command_line os (keyboard_command_buffer ed) (keyboard_command_length ed) (cursor_end_offset ed))
       (\<lambda>u. give ed)"

text \<open>\<^verbatim>\<open>buffer[i] = buffer[j]\<close> with the indices of type \<^verbatim>\<open>int\<close> that the code computes.\<close>

definition move_char :: "int \<Rightarrow> int \<Rightarrow> u8 list \<Rightarrow> u8 list res" where
  "move_char i j buffer =
     (if i < 0 \<or> j < 0 then Inl Invalid_Access
      else res_bind (array_get buffer (nat j)) (\<lambda>c. array_set buffer (nat i) c))"

definition store_char :: "int \<Rightarrow> u8 \<Rightarrow> u8 list \<Rightarrow> u8 list res" where
  "store_char i c buffer = (if i < 0 then Inl Invalid_Access else array_set buffer (nat i) c)"

definition swap_lines :: "editor \<Rightarrow> editor" where
  "swap_lines ed = ed\<lparr>cursor_end_offset := 0,
     keyboard_command_length := prev_keyboard_command_length ed,
     keyboard_command_buffer := prev_keyboard_command_buffer ed,
     prev_keyboard_command_length := keyboard_command_length ed,
     prev_keyboard_command_buffer := keyboard_command_buffer ed\<rparr>"

definition arrow_key :: "'w os \<Rightarrow> u8 list \<Rightarrow> editor \<Rightarrow> (editor, 'w) prog" where
  "arrow_key os arrow_code ed =
     (if arrow_code = [91, 65] then rewrite_line_of os (swap_lines ed)
      else if arrow_code = [91, 66] then give ed
      else if arrow_code = [91, 67]
      then (if cursor_end_offset ed > 0
            then rewrite_line_of os (ed\<lparr>cursor_end_offset := cursor_end_offset ed - 1\<rparr>) else give ed)
      else if arrow_code = [91, 68]
      then (if cursor_end_offset ed < keyboard_command_length ed
            then rewrite_line_of os (ed\<lparr>cursor_end_offset := cursor_end_offset ed + 1\<rparr>) else give ed)
      else give ed)"

definition backspace_key :: "'w os \<Rightarrow> editor \<Rightarrow> (editor, 'w) prog" where
  "backspace_key os ed =
     andthen
       (if keyboard_command_length ed > cursor_end_offset ed
        then let n = keyboard_command_length ed - 1
             in andthen (checked (res_fold (\<lambda>i. move_char (int i) (int i + 1))
                    [unat (n - cursor_end_offset ed)..<unat n] (keyboard_command_buffer ed))) (\<lambda>buffer.
                  give (ed\<lparr>keyboard_command_length := n, keyboard_command_buffer := buffer\<rparr>))
        else give ed)
       (rewrite_line_of os)"

text \<open>The memory in which a line is parsed: its buffer, which is all that the parser looks at.\<close>

definition line_memory :: "u8 list \<Rightarrow> mem" where
  "line_memory buffer = (\<lambda>a. if unat (a - 0x1000) < length buffer then buffer ! unat (a - 0x1000) else 0)"

definition enter_key :: "'w os \<Rightarrow> u64 \<Rightarrow> editor \<Rightarrow> (editor, 'w) prog" where
  "enter_key os garbage ed =
     andthen (ask_only os (Sc_Write 1 [single_char ed])) (\<lambda>u.
     let ed1 = ed\<lparr>prev_keyboard_command_buffer := keyboard_command_buffer ed,
                  prev_keyboard_command_length := keyboard_command_length ed\<rparr>
     in andthen (exec_shell_line os garbage 0x1000 (ucast (keyboard_command_length ed1))
              (line_memory (keyboard_command_buffer ed1))) (\<lambda>code.
        let ed2 = ed1\<lparr>keyboard_command_length := 0,
                      keyboard_command_buffer := replicate KEYBOARD_COMMAND_BUFFER_LENGTH 0\<rparr>
        in andthen (puts os command_prompt) (\<lambda>u. give ed2)))"

definition insert_key :: "'w os \<Rightarrow> editor \<Rightarrow> (editor, 'w) prog" where
  "insert_key os ed =
     (let n = keyboard_command_length ed + 1
      in andthen (checked (res_fold (\<lambda>i. move_char (int (unat n) - int i - 1) (int (unat n) - int i - 2))
             [0..<unat (cursor_end_offset ed)] (keyboard_command_buffer ed))) (\<lambda>buffer1.
         andthen (checked (store_char (int (unat n) - int (unat (cursor_end_offset ed)) - 1) (single_char ed) buffer1))
           (\<lambda>buffer2.
         rewrite_line_of os (ed\<lparr>keyboard_command_length := n, keyboard_command_buffer := buffer2\<rparr>))))"

definition append_key :: "'w os \<Rightarrow> editor \<Rightarrow> (editor, 'w) prog" where
  "append_key os ed =
     andthen (checked (array_set (keyboard_command_buffer ed) (unat (keyboard_command_length ed)) (single_char ed)))
       (\<lambda>buffer.
     andthen (ask_only os (Sc_Write 1 [single_char ed])) (\<lambda>u.
     give (ed\<lparr>keyboard_command_buffer := buffer, keyboard_command_length := keyboard_command_length ed + 1\<rparr>)))"

text \<open>
  One round of the loop. A read that stores less than it was asked for leaves the rest of its buffer as it was:
  the character of the round before, or the unset bytes \<open>junk\<close> of \<^verbatim>\<open>arrow_code\<close>.
\<close>

definition handle_char :: "'w os \<Rightarrow> u64 \<Rightarrow> u8 list \<Rightarrow> editor \<Rightarrow> (editor, 'w) prog" where
  "handle_char os garbage junk ed =
     (let c = single_char ed
      in if c = 0x1B
         then andthen (ask os (Sc_Read 0 2)) (\<lambda>(r, bytes).
              arrow_key os (take 2 bytes @ drop (length bytes) (take 2 junk)) ed)
         else if c = 0xFF then backspace_key os ed
         else if c = 10 then enter_key os garbage ed
         else if cursor_end_offset ed > 0 then insert_key os ed
         else append_key os ed)"

definition editor_round :: "'w os \<Rightarrow> u64 \<Rightarrow> u8 list \<Rightarrow> editor \<Rightarrow> (editor, 'w) prog" where
  "editor_round os garbage junk ed =
     andthen (ask os (Sc_Read 0 1)) (\<lambda>(r, bytes).
       handle_char os garbage junk (ed\<lparr>single_char := (case bytes of [] \<Rightarrow> single_char ed | b # bs \<Rightarrow> b)\<rparr>))"

fun editor_loop :: "nat \<Rightarrow> 'w os \<Rightarrow> u64 \<Rightarrow> u8 list \<Rightarrow> editor \<Rightarrow> ('a, 'w) prog" where
  "editor_loop 0 os garbage junk ed = (\<lambda>w. (Running, w))"
| "editor_loop (Suc rounds) os garbage junk ed =
     andthen (editor_round os garbage junk ed) (editor_loop rounds os garbage junk)"

definition editor_start :: "u8 \<Rightarrow> editor" where
  "editor_start c = \<lparr>cursor_end_offset = 0, keyboard_command_length = 0,
     keyboard_command_buffer = replicate KEYBOARD_COMMAND_BUFFER_LENGTH 0, prev_keyboard_command_length = 0,
     prev_keyboard_command_buffer = replicate KEYBOARD_COMMAND_BUFFER_LENGTH 0, single_char = c\<rparr>"

section \<open>Scripts\<close>

text \<open>The line in the part of the buffer that was read; \<open>None\<close> for a line length of -1.\<close>

definition script_line_length :: "u8 list \<Rightarrow> u64 \<Rightarrow> nat option" where
  "script_line_length buffer bytes_read =
     find (\<lambda>i. buffer ! i = 10) [0..<min SCRIPT_BUFFER_LENGTH (nat (sint bytes_read))]"

text \<open>
  One round of the script loop on the file \<open>fd\<close>: \<open>None\<close> at its end, or the new offset.
\<close>

definition script_round :: "'w os \<Rightarrow> u64 \<Rightarrow> u64 \<Rightarrow> u64 \<Rightarrow> (u64 option, 'w) prog" where
  "script_round os garbage fd file_offset =
     andthen (ask os (Sc_Read fd (of_nat SCRIPT_BUFFER_LENGTH))) (\<lambda>(bytes_read, bytes).
     let script_buffer = take SCRIPT_BUFFER_LENGTH bytes @ replicate (SCRIPT_BUFFER_LENGTH - length bytes) 0
     in if is_error bytes_read then exit os 1
        else if bytes_read = 0 then give None
        else case script_line_length script_buffer bytes_read of
            None \<Rightarrow> andthen (fputs os (u8p ''shell: incomplete line'' @ [10]) stderr) (\<lambda>u. exit os 1)
          | Some line_length \<Rightarrow>
              andthen (exec_shell_line os garbage 0x1000 (of_nat line_length) (line_memory script_buffer)) (\<lambda>code.
              if code \<noteq> 0 then exit os (ucast code)
              else let rewind_bytes = bytes_read - (of_nat line_length + 1);
                       new_offset = file_offset + bytes_read - rewind_bytes
                   in andthen (ask_only os (Sc_Lseek fd new_offset 0)) (\<lambda>u. give (Some new_offset))))"

fun script_loop :: "nat \<Rightarrow> 'w os \<Rightarrow> u64 \<Rightarrow> u64 \<Rightarrow> u64 \<Rightarrow> (unit, 'w) prog" where
  "script_loop 0 os garbage fd file_offset = (\<lambda>w. (Running, w))"
| "script_loop (Suc rounds) os garbage fd file_offset =
     andthen (script_round os garbage fd file_offset) (\<lambda>next_offset. case next_offset of
         None \<Rightarrow> give () | Some offset \<Rightarrow> script_loop rounds os garbage fd offset)"

definition shell_main :: "nat \<Rightarrow> 'w os \<Rightarrow> u64 \<Rightarrow> u8 list \<Rightarrow> u8 list list \<Rightarrow> (u64, 'w) prog" where
  "shell_main rounds os garbage junk argv =
     (if length argv < 2
      then andthen (puts os command_prompt) (\<lambda>u. editor_loop rounds os garbage junk (editor_start (hd (junk @ [0]))))
      else andthen (ask_value os (Sc_Open (argv ! 1) 0)) (\<lambda>fd.
           if is_error fd
           then andthen (fputs os (u8p ''shell: could not open script'' @ [10]) stderr) (\<lambda>u. exit os 1)
           else andthen (script_loop rounds os garbage fd 0) (\<lambda>u. give 0)))"

end
