(* ===== verification/ShellGrammar.thy ===== *)
theory ShellGrammar
  imports ShellParser
begin

text \<open>
  What the shell's parser recognises. The grammar is an inductive relation between statements and their texts; the
  functions \<open>read_...\<close> on lists of bytes decide it, and the parser on memory computes what they compute.
\<close>

section \<open>Statements and their texts\<close>

datatype fragment = Plain "u8 list" | Quoted "u8 list"

datatype element = Word "fragment list" | Redirect u8 "fragment list"

fun fragment_text :: "fragment \<Rightarrow> u8 list" where
  "fragment_text (Plain s) = s"
| "fragment_text (Quoted s) = [39] @ s @ [39]"

fun fragment_ok :: "fragment \<Rightarrow> bool" where
  "fragment_ok (Plain s) \<longleftrightarrow> s \<noteq> [] \<and> (\<forall>c \<in> set s. is_ordinary_character c)"
| "fragment_ok (Quoted s) \<longleftrightarrow> 39 \<notin> set s"

definition word_text :: "fragment list \<Rightarrow> u8 list" where
  "word_text w = concat (map fragment_text w)"

text \<open>In a word no two unquoted parts follow each other: they would be one.\<close>

fun is_plain :: "fragment \<Rightarrow> bool" where
  "is_plain (Plain s) = True"
| "is_plain (Quoted s) = False"

fun fragments_ok :: "fragment list \<Rightarrow> bool" where
  "fragments_ok [] = True"
| "fragments_ok (f # fs) \<longleftrightarrow>
     fragment_ok f \<and> \<not> (is_plain f \<and> fs \<noteq> [] \<and> is_plain (hd fs)) \<and> fragments_ok fs"

lemma fragment_text_nonempty: "fragment_ok f \<Longrightarrow> fragment_text f \<noteq> []"
  by (cases f) simp_all

definition word_ok :: "fragment list \<Rightarrow> bool" where
  "word_ok w \<longleftrightarrow> w \<noteq> [] \<and> fragments_ok w"

inductive element_text :: "element \<Rightarrow> u8 list \<Rightarrow> bool" where
  word: "word_ok w \<Longrightarrow> element_text (Word w) (word_text w)"
| redirect: "word_ok w \<Longrightarrow> c = 60 \<or> c = 62 \<Longrightarrow> element_text (Redirect c w) (c # replicate k 32 @ word_text w)"

fun is_redirect :: "element \<Rightarrow> bool" where
  "is_redirect (Word w) = False"
| "is_redirect (Redirect c w) = True"

text \<open>A word needs a space in front of it, a redirection does not.\<close>

inductive sentence :: "element list \<Rightarrow> u8 list \<Rightarrow> bool" where
  sentence_empty: "sentence [] []"
| sentence_one: "element_text e t \<Longrightarrow> sentence [e] t"
| sentence_more: "element_text e t \<Longrightarrow> sentence (e' # es) s \<Longrightarrow> 0 < k \<or> is_redirect e' \<Longrightarrow>
    sentence (e # e' # es) (t @ replicate k 32 @ s)"

section \<open>Reading a list of bytes\<close>

fun read_fragment :: "u8 list \<Rightarrow> (fragment \<times> u8 list) option" where
  "read_fragment [] = None"
| "read_fragment (c # cs) =
     (if c = 39
      then if 39 \<in> set cs then Some (Quoted (takeWhile (\<lambda>c. c \<noteq> 39) cs), tl (dropWhile (\<lambda>c. c \<noteq> 39) cs)) else None
      else if is_ordinary_character c
      then Some (Plain (c # takeWhile is_ordinary_character cs), dropWhile is_ordinary_character cs) else None)"

lemma not_ordinary: "\<not> is_ordinary_character 32" "\<not> is_ordinary_character 39" "\<not> is_ordinary_character 60"
    "\<not> is_ordinary_character 62" "\<not> is_ordinary_character 0" "\<not> is_ordinary_character 10"
  by (simp_all add: is_ordinary_character_def)

lemma read_fragment_sound:
  assumes "read_fragment xs = Some (f, ys)"
  shows "xs = fragment_text f @ ys" and "fragment_ok f" and "fragment_text f \<noteq> []"
    and "is_plain f \<Longrightarrow> ys = [] \<or> \<not> is_ordinary_character (hd ys)"
    and "is_plain f \<longleftrightarrow> xs \<noteq> [] \<and> is_ordinary_character (hd xs)"
proof -
  obtain c cs where xs: "xs = c # cs" using assms by (cases xs) simp_all
  have split: "cs = takeWhile (\<lambda>c. c \<noteq> 39) cs @ 39 # tl (dropWhile (\<lambda>c. c \<noteq> 39) cs)" if "39 \<in> set cs"
  proof -
    have "dropWhile (\<lambda>c. c \<noteq> 39) cs \<noteq> []" using that by (auto simp: dropWhile_eq_Nil_conv)
    then show ?thesis using hd_dropWhile [of "\<lambda>c. c \<noteq> 39" cs] takeWhile_dropWhile_id [of "\<lambda>c. c \<noteq> 39" cs]
      by (metis list.collapse)
  qed
  show "xs = fragment_text f @ ys" "fragment_text f \<noteq> []"
    using assms split by (auto simp: xs split: if_splits)
  show "fragment_ok f" using assms by (auto simp: xs split: if_splits dest: set_takeWhileD)
  show "ys = [] \<or> \<not> is_ordinary_character (hd ys)" if "is_plain f"
    using assms that hd_dropWhile [of is_ordinary_character cs] by (auto simp: xs split: if_splits)
  show "is_plain f \<longleftrightarrow> xs \<noteq> [] \<and> is_ordinary_character (hd xs)"
    using assms by (auto simp: xs not_ordinary split: if_splits)
qed

lemma read_fragment_shorter: "read_fragment xs = Some (f, ys) \<Longrightarrow> length ys < length xs"
  using read_fragment_sound(1,3) [of xs f ys] by simp

function read_fragments :: "u8 list \<Rightarrow> fragment list \<times> u8 list" where
  "read_fragments xs =
     (case read_fragment xs of
        None \<Rightarrow> ([], xs)
      | Some (f, ys) \<Rightarrow> (case read_fragments ys of (fs, zs) \<Rightarrow> (f # fs, zs)))"
  by pat_completeness auto
termination by (relation "measure length") (auto dest: read_fragment_shorter)

declare read_fragments.simps [simp del]

definition read_word :: "u8 list \<Rightarrow> (fragment list \<times> u8 list) option" where
  "read_word xs = (case read_fragments xs of (fs, zs) \<Rightarrow> if fs = [] then None else Some (fs, zs))"

definition read_element :: "u8 list \<Rightarrow> (element \<times> u8 list) option" where
  "read_element xs =
     (if xs \<noteq> [] \<and> (hd xs = 60 \<or> hd xs = 62)
      then map_option (\<lambda>(w, zs). (Redirect (hd xs) w, zs)) (read_word (dropWhile (\<lambda>c. c = 32) (tl xs)))
      else map_option (\<lambda>(w, zs). (Word w, zs)) (read_word xs))"

lemma read_fragments_sound:
  assumes "read_fragments xs = (fs, zs)"
  shows "xs = word_text fs @ zs \<and> fragments_ok fs \<and> read_fragment zs = None \<and>
    (fs \<noteq> [] \<and> is_plain (hd fs) \<longrightarrow> xs \<noteq> [] \<and> is_ordinary_character (hd xs))"
  using assms
proof (induction xs arbitrary: fs zs rule: read_fragments.induct)
  case (1 xs)
  show ?case
  proof (cases "read_fragment xs")
    case None
    then show ?thesis using "1.prems" by (simp add: read_fragments.simps [of xs] word_text_def)
  next
    case (Some r)
    then obtain f ys where r: "read_fragment xs = Some (f, ys)" by (cases r) simp
    obtain gs where gs: "read_fragments ys = (gs, zs)" and fs: "fs = f # gs"
      using "1.prems" by (simp add: read_fragments.simps [of xs] r split: prod.splits)
    show ?thesis
      using "1.IH" [OF r refl gs] read_fragment_sound [OF r] by (auto simp: fs word_text_def)
  qed
qed

lemma word_text_nonempty: "word_ok w \<Longrightarrow> word_text w \<noteq> []"
  by (cases w) (auto simp: word_ok_def word_text_def fragment_text_nonempty)

lemma read_word_sound:
  assumes "read_word xs = Some (w, zs)"
  shows "word_ok w" and "xs = word_text w @ zs" and "read_fragment zs = None"
  using assms read_fragments_sound [of xs w zs]
  by (auto simp: read_word_def word_ok_def split: prod.splits if_splits)

lemma spaces_split_ex: "\<exists>k. xs = replicate k (32 :: u8) @ dropWhile (\<lambda>c. c = 32) xs"
proof (induction xs)
  case (Cons x xs)
  then obtain k where k: "xs = replicate k 32 @ dropWhile (\<lambda>c. c = 32) xs" by blast
  show ?case
  proof (cases "x = 32")
    case True
    then have "x # xs = replicate (Suc k) 32 @ dropWhile (\<lambda>c. c = 32) (x # xs)" using k by simp
    then show ?thesis by blast
  next
    case False
    then have "x # xs = replicate 0 32 @ dropWhile (\<lambda>c. c = 32) (x # xs)" by simp
    then show ?thesis by blast
  qed
qed simp

lemma spaces_split:
  obtains k where "xs = replicate k (32 :: u8) @ dropWhile (\<lambda>c. c = 32) xs"
  using spaces_split_ex by blast

lemma read_element_sound:
  assumes "read_element xs = Some (e, zs)"
  obtains t where "element_text e t" and "xs = t @ zs" and "t \<noteq> []" and "read_fragment zs = None"
    and "is_redirect e \<longleftrightarrow> hd xs = 60 \<or> hd xs = 62"
proof (cases "xs \<noteq> [] \<and> (hd xs = 60 \<or> hd xs = 62)")
  case True
  then obtain w where e: "e = Redirect (hd xs) w" and w: "read_word (dropWhile (\<lambda>c. c = 32) (tl xs)) = Some (w, zs)"
    using assms by (auto simp: read_element_def)
  obtain k where k: "tl xs = replicate k 32 @ dropWhile (\<lambda>c. c = 32) (tl xs)" by (rule spaces_split)
  show ?thesis
  proof (rule that)
    show "element_text e (hd xs # replicate k 32 @ word_text w)"
      using True read_word_sound(1) [OF w] by (auto simp: e intro: element_text.redirect)
    show "xs = (hd xs # replicate k 32 @ word_text w) @ zs"
      using True k read_word_sound(2) [OF w] by (metis append.assoc append_Cons list.collapse)
  qed (use True read_word_sound [OF w] e in auto)
next
  case False
  then obtain w where e: "e = Word w" and w: "read_word xs = Some (w, zs)"
    using assms by (auto simp: read_element_def)
  show ?thesis
  proof (rule that)
    show "element_text e (word_text w)" using read_word_sound(1) [OF w] by (simp add: e element_text.word)
    show "word_text w \<noteq> []" using read_word_sound(1) [OF w] by (rule word_text_nonempty)
    then have "xs \<noteq> []" using read_word_sound(2) [OF w] by simp
    then show "is_redirect e \<longleftrightarrow> hd xs = 60 \<or> hd xs = 62" using False by (simp add: e)
  qed (use read_word_sound [OF w] in simp_all)
qed

lemma length_dropWhile_less: "length (dropWhile P xs) \<le> length xs"
  by (simp add: length_dropWhile_le)

function read_stmt :: "u8 list \<Rightarrow> element list \<times> u8 list" where
  "read_stmt xs =
     (case read_element xs of
        None \<Rightarrow> ([], xs)
      | Some (e, ys) \<Rightarrow>
          (case read_stmt (dropWhile (\<lambda>c. c = 32) ys) of
             (es, zs) \<Rightarrow> if es = [] then ([e], ys) else (e # es, zs)))"
  by pat_completeness auto
termination
proof (relation "measure length")
  fix xs p e ys
  assume "read_element xs = Some p" "(e, ys) = p"
  then have "length ys < length xs" by (metis read_element_sound append_Nil length_append less_add_same_cancel2 length_greater_0_conv)
  then show "(dropWhile (\<lambda>c. c = 32) ys, xs) \<in> measure length"
    using length_dropWhile_le [of "\<lambda>c. c = 32" ys] by simp
qed simp

declare read_stmt.simps [simp del]


section \<open>The functions decide the grammar\<close>

lemma read_fragment_complete:
  assumes "fragment_ok f" and "is_plain f \<Longrightarrow> rest = [] \<or> \<not> is_ordinary_character (hd rest)"
  shows "read_fragment (fragment_text f @ rest) = Some (f, rest)"
proof (cases f)
  case (Plain s)
  then obtain c cs where s: "s = c # cs" using assms(1) by (cases s) simp_all
  have "takeWhile is_ordinary_character (cs @ rest) = cs \<and> dropWhile is_ordinary_character (cs @ rest) = rest"
    using assms by (cases rest) (auto simp: Plain s takeWhile_append dropWhile_append)
  then show ?thesis using assms(1) by (auto simp: Plain s not_ordinary)
next
  case (Quoted s)
  then show ?thesis using assms(1) by (simp add: takeWhile_append dropWhile_append)
qed

lemma stops_not_ordinary: "read_fragment rest = None \<Longrightarrow> rest = [] \<or> \<not> is_ordinary_character (hd rest)"
  by (cases rest) (auto simp: not_ordinary split: if_splits)

lemma fragment_head: "fragment_ok f \<Longrightarrow> hd (fragment_text f) = 39 \<or> is_ordinary_character (hd (fragment_text f))"
  by (cases f) auto

lemma word_text_Cons [simp]: "word_text (f # fs) = fragment_text f @ word_text fs"
  by (simp add: word_text_def)

lemma word_head:
  assumes "word_ok w"
  shows "hd (word_text w) = 39 \<or> is_ordinary_character (hd (word_text w))"
  using assms fragment_head fragment_text_nonempty by (cases w) (auto simp: word_ok_def)

lemma read_fragments_complete:
  assumes "fragments_ok fs" and "read_fragment rest = None"
  shows "read_fragments (word_text fs @ rest) = (fs, rest)"
  using assms
proof (induction fs)
  case Nil
  then show ?case by (simp add: word_text_def read_fragments.simps)
next
  case (Cons f fs)
  let ?ys = "word_text fs @ rest"
  have "?ys = [] \<or> \<not> is_ordinary_character (hd ?ys)" if plain: "is_plain f"
  proof (cases fs)
    case Nil
    then show ?thesis using stops_not_ordinary [OF Cons.prems(2)] by (simp add: word_text_def)
  next
    case (Cons g gs)
    then have "\<not> is_plain g" using Cons.prems(1) plain by simp
    then show ?thesis by (cases g) (simp_all add: Cons not_ordinary)
  qed
  then have "read_fragment (word_text (f # fs) @ rest) = Some (f, ?ys)"
    using read_fragment_complete [of f ?ys] Cons.prems(1) by simp
  then show ?case
    using Cons by (subst read_fragments.simps) simp
qed

lemma read_word_complete:
  assumes "word_ok w" and "read_fragment rest = None"
  shows "read_word (word_text w @ rest) = Some (w, rest)"
  using assms read_fragments_complete [of w rest] by (simp add: word_ok_def read_word_def)

lemma dropWhile_replicate:
  assumes "s \<noteq> []" and "hd s \<noteq> c"
  shows "dropWhile (\<lambda>x. x = c) (replicate k c @ s) = s"
  using assms by (induction k) (cases s; simp)+

lemma read_element_complete:
  assumes "element_text e t" and "read_fragment rest = None"
  shows "read_element (t @ rest) = Some (e, rest)"
  using assms(1)
proof cases
  case (word w)
  have "word_text w @ rest \<noteq> [] \<and> hd (word_text w @ rest) \<noteq> 60 \<and> hd (word_text w @ rest) \<noteq> 62"
    using word_head [OF word(3)] word_text_nonempty [OF word(3)] by (auto simp: not_ordinary)
  then show ?thesis
    using read_word_complete [OF word(3) assms(2)] by (simp add: word(1,2) read_element_def)
next
  case (redirect w c k)
  have "dropWhile (\<lambda>c. c = 32) (replicate k 32 @ word_text w @ rest) = word_text w @ rest"
    using word_head [OF redirect(3)] word_text_nonempty [OF redirect(3)]
    by (intro dropWhile_replicate) (auto simp: not_ordinary)
  then show ?thesis
    using redirect(4) read_word_complete [OF redirect(3) assms(2)] by (auto simp: redirect(1,2) read_element_def)
qed

lemma element_head:
  assumes "element_text e t"
  shows "t \<noteq> [] \<and> hd t \<noteq> 32 \<and> (is_redirect e \<longrightarrow> hd t = 60 \<or> hd t = 62)"
  using assms
proof cases
  case (word w)
  have "hd (word_text w) \<noteq> 32" using word_head [OF word(3)] by (auto simp: not_ordinary)
  then show ?thesis using word_text_nonempty [OF word(3)] by (simp add: word(1,2))
next
  case (redirect w c k)
  then show ?thesis by auto
qed

lemma sentence_head:
  assumes "sentence (e # es) s"
  shows "s \<noteq> [] \<and> hd s \<noteq> 32 \<and> (is_redirect e \<longrightarrow> hd s = 60 \<or> hd s = 62)"
  using assms by cases (use element_head in auto)

lemma read_stmt_Nil: "read_stmt [] = ([], [])"
  by (simp add: read_stmt.simps read_element_def read_word_def read_fragments.simps)

lemma read_stmt_step:
  "read_element xs = Some (e, ys) \<Longrightarrow> read_stmt xs =
    (case read_stmt (dropWhile (\<lambda>c. c = 32) ys) of (es, zs) \<Rightarrow> if es = [] then ([e], ys) else (e # es, zs))"
  by (simp add: read_stmt.simps [of xs])

lemma sentence_complete:
  assumes "sentence es xs"
  shows "read_stmt xs = (es, [])"
  using assms
proof induction
  case sentence_empty
  show ?case by (rule read_stmt_Nil)
next
  case (sentence_one e t)
  then show ?case using read_element_complete [of e t "[]"] by (simp add: read_stmt_step read_stmt_Nil)
next
  case (sentence_more e t e' es s k)
  note head = sentence_head [OF sentence_more.hyps(2)]
  have "read_fragment (replicate k 32 @ s) = None"
    using sentence_more.hyps(3) head by (cases k; cases s) (auto simp: not_ordinary)
  then have "read_element (t @ replicate k 32 @ s) = Some (e, replicate k 32 @ s)"
    by (rule read_element_complete [OF sentence_more.hyps(1)])
  moreover have "dropWhile (\<lambda>c. c = 32) (replicate k 32 @ s) = s"
    using head by (intro dropWhile_replicate) auto
  ultimately show ?case using sentence_more.IH by (simp add: read_stmt_step)
qed

lemma read_stmt_first:
  assumes "read_stmt xs = (e # es, zs)"
  obtains ys where "read_element xs = Some (e, ys)"
  using assms read_stmt.simps [of xs] by (auto split: option.splits prod.splits if_splits)

lemma read_word_starts:
  assumes "read_element xs = Some (e, ys)" and "\<not> is_redirect e"
  shows "read_fragment xs \<noteq> None"
  using assms read_fragments.simps [of xs]
  by (auto simp: read_element_def read_word_def split: if_splits option.splits prod.splits)

lemma sentence_sound:
  assumes "read_stmt xs = (es, zs)"
  shows "\<exists>s. xs = s @ zs \<and> sentence es s"
  using assms
proof (induction xs arbitrary: es zs rule: read_stmt.induct)
  case (1 xs)
  show ?case
  proof (cases "read_element xs")
    case None
    then show ?thesis using "1.prems" by (simp add: read_stmt.simps [of xs] sentence_empty)
  next
    case (Some r)
    then obtain e ys where r: "read_element xs = Some (e, ys)" by (cases r) simp
    obtain t where t: "element_text e t" "xs = t @ ys" and stop: "read_fragment ys = None"
      by (rule read_element_sound [OF r])
    let ?next = "dropWhile (\<lambda>c. c = 32) ys"
    obtain es' zs' where next_stmt: "read_stmt ?next = (es', zs')" by fastforce
    show ?thesis
    proof (cases es')
      case Nil
      then have "es = [e]" "zs = ys" using "1.prems" next_stmt by (simp_all add: read_stmt_step [OF r])
      then show ?thesis using t by (blast intro: sentence_one)
    next
      case (Cons e' es2)
      then have es: "es = e # e' # es2" "zs = zs'" using "1.prems" next_stmt by (simp_all add: read_stmt_step [OF r])
      obtain s where s: "?next = s @ zs'" "sentence (e' # es2) s"
        using "1.IH" [OF r refl next_stmt] Cons by blast
      obtain k where k: "ys = replicate k 32 @ ?next" by (rule spaces_split)
      obtain us where "read_element ?next = Some (e', us)"
        using next_stmt unfolding Cons by (rule read_stmt_first)
      then have "0 < k \<or> is_redirect e'" using read_word_starts [of ?next e' us] stop k by (cases k) auto
      then have "sentence es (t @ replicate k 32 @ s)" unfolding es by (rule sentence_more [OF t(1) s(2)])
      moreover have "xs = (t @ replicate k 32 @ s) @ zs" using t(2) k s(1) es(2) by simp
      ultimately show ?thesis by blast
    qed
  qed
qed

lemma read_stmt_iff: "read_stmt xs = (es, []) \<longleftrightarrow> sentence es xs"
  using sentence_complete sentence_sound [of xs es "[]"] by auto


section \<open>Lines in memory\<close>

text \<open>\<open>text_at m cur e xs\<close>: the bytes from address \<open>cur\<close> up to \<open>e\<close> are \<open>xs\<close>, without wrap-around.\<close>

definition text_at :: "mem \<Rightarrow> u64 \<Rightarrow> u64 \<Rightarrow> u8 list \<Rightarrow> bool" where
  "text_at m cur e xs \<longleftrightarrow>
     unat cur + length xs = unat e \<and> mem_bytes m cur (length xs) = xs"

lemma length_mem_bytes [simp]: "length (mem_bytes m a n) = n"
  by (simp add: mem_bytes_def)

lemma mem_bytes_Suc: "mem_bytes m a (Suc n) = m a # mem_bytes m (a + 1) n"
  by (simp add: mem_bytes_def upt_conv_Cons map_Suc_upt [symmetric] add.assoc del: upt_Suc)

lemma mem_bytes_append: "mem_bytes m a (n + k) = mem_bytes m a n @ mem_bytes m (a + of_nat n) k"
  by (induction n arbitrary: a) (simp_all add: mem_bytes_Suc add.assoc, simp add: mem_bytes_def)

lemma text_at_Nil: "text_at m cur e [] \<longleftrightarrow> cur = e"
  by (simp add: text_at_def mem_bytes_def word_unat_eq_iff)

lemma text_at_Cons:
  "text_at m cur e (c # cs) \<longleftrightarrow> m cur = c \<and> cur < e \<and> text_at m (cur + 1) e cs"
proof (cases "cur < e")
  case True
  then have "unat (cur + 1) = unat cur + 1" by (rule unat_succ)
  then show ?thesis using True by (auto simp: text_at_def mem_bytes_Suc)
next
  case False
  then have "unat e \<le> unat cur" by (simp add: word_le_nat_alt not_less)
  then show ?thesis using False by (simp add: text_at_def)
qed

lemma text_at_skip_spaces:
  "text_at m cur e xs \<Longrightarrow> text_at m (skip_spaces cur e m) e (dropWhile (\<lambda>c. c = 32) xs)"
proof (induction xs arbitrary: cur)
  case Nil
  then show ?case by (simp add: text_at_Nil skip_spaces.simps)
next
  case (Cons c cs)
  then show ?case
    using skip_spaces.simps [of cur e m] by (auto simp: text_at_Cons)
qed

lemma text_at_ordinary_run:
  "text_at m cur e xs \<Longrightarrow> text_at m (ordinary_run cur e m) e (dropWhile is_ordinary_character xs)"
proof (induction xs arbitrary: cur)
  case Nil
  then show ?case by (simp add: text_at_Nil ordinary_run.simps)
next
  case (Cons c cs)
  then show ?case
    using ordinary_run.simps [of cur e m] by (auto simp: text_at_Cons)
qed

lemma text_at_quoted_run:
  assumes "text_at m cur e xs"
  shows "case quoted_run cur e m of
      None \<Rightarrow> 39 \<notin> set xs | Some q \<Rightarrow> 39 \<in> set xs \<and> text_at m q e (dropWhile (\<lambda>c. c \<noteq> 39) xs)"
  using assms
proof (induction xs arbitrary: cur)
  case Nil
  then show ?case by (simp add: text_at_Nil quoted_run.simps)
next
  case (Cons c cs)
  then have "\<not> e \<le> cur" by (simp add: text_at_Cons not_le)
  with Cons have "quoted_run cur e m = (if c = 39 then Some cur else quoted_run (cur + 1) e m)"
    using quoted_run.simps [of cur e m] by (simp add: text_at_Cons)
  moreover have "text_at m (cur + 1) e cs" using Cons.prems by (simp add: text_at_Cons)
  ultimately show ?case
    using Cons.IH [of "cur + 1"] Cons.prems by (cases "c = 39") (auto split: option.splits)
qed

lemma text_at_range:
  assumes "text_at m a e (us @ vs)" and "text_at m b e vs"
  shows "mem_bytes m a (unat (b - a)) = us"
proof -
  have "unat a + length us = unat b" using assms by (simp add: text_at_def)
  then have "unat (b - a) = length us" using unat_sub_no_wrap [of a b] by (simp add: word_le_nat_alt)
  then show ?thesis using assms(1) by (simp add: text_at_def mem_bytes_append)
qed

lemma text_at_nonempty: "text_at m cur e xs \<Longrightarrow> e - cur = 0 \<longleftrightarrow> xs = []"
  by (cases xs) (auto simp: text_at_Nil text_at_Cons)

section \<open>Trees\<close>

text \<open>What a parse tree stands for; \<open>None\<close> for a tree that does not have the form of its type.\<close>

definition tree_fragment :: "mem \<Rightarrow> pair \<Rightarrow> fragment option" where
  "tree_fragment m p =
     (case children p of
        [c] \<Rightarrow> if pair_type p \<noteq> PAIR_WORD_FRAGMENT then None
              else if pair_type c = PAIR_UNQUOTED_STRING then Some (Plain (pair_bytes m c))
              else (case children c of
                  [d] \<Rightarrow> if pair_type c = PAIR_QUOTED_STRING then Some (Quoted (pair_bytes m d)) else None
                | _ \<Rightarrow> None)
      | _ \<Rightarrow> None)"

definition tree_word :: "mem \<Rightarrow> pair \<Rightarrow> fragment list option" where
  "tree_word m p = (if pair_type p = PAIR_WORD then those (map (tree_fragment m) (children p)) else None)"

definition tree_element :: "mem \<Rightarrow> pair \<Rightarrow> element option" where
  "tree_element m p =
     (case children p of
        [c] \<Rightarrow> if pair_type p \<noteq> PAIR_SIMPLE_COMMAND_ELEMENT then None
              else if pair_type c = PAIR_WORD then map_option Word (tree_word m c)
              else (case children c of
                  [redirect_operator, w] \<Rightarrow>
                    if pair_type c = PAIR_REDIRECT
                    then map_option (Redirect (m (pair_start redirect_operator))) (tree_word m w) else None
                | _ \<Rightarrow> None)
      | _ \<Rightarrow> None)"

definition tree_stmt :: "mem \<Rightarrow> pair \<Rightarrow> element list option" where
  "tree_stmt m p = (if pair_type p = PAIR_SHELL_STMT then those (map (tree_element m) (children p)) else None)"

lemma parse_word_fragment_reads:
  assumes "text_at m cur e xs"
  shows "case parse_word_fragment cur (e - cur) m of
      None \<Rightarrow> read_fragment xs = None
    | Some p \<Rightarrow> \<exists>f rest. read_fragment xs = Some (f, rest) \<and> tree_fragment m p = Some f \<and>
        text_at m (pair_end p) e rest \<and> pair_start p = cur"
proof (cases xs)
  case Nil
  then show ?thesis
    using text_at_nonempty [OF assms]
    by (simp add: parse_word_fragment_def parse_single_quoted_string_def parse_unquoted_string_def)
next
  case (Cons c cs)
  have c: "m cur = c" and tail: "text_at m (cur + 1) e cs" and len: "e - cur \<noteq> 0"
    using assms text_at_nonempty [OF assms] by (simp_all add: Cons text_at_Cons)
  show ?thesis
  proof (cases "c = 39")
    case True
    note run = text_at_quoted_run [OF tail]
    show ?thesis
    proof (cases "quoted_run (cur + 1) e m")
      case None
      then show ?thesis
        using run len True by (simp add: Cons c parse_word_fragment_def parse_single_quoted_string_def
          parse_unquoted_string_def not_ordinary)
    next
      case (Some q)
      have q: "39 \<in> set cs" "text_at m q e (dropWhile (\<lambda>c. c \<noteq> 39) cs)" using run by (simp_all add: Some)
      then obtain ds where ds: "dropWhile (\<lambda>c. c \<noteq> 39) cs = 39 # ds"
        using hd_dropWhile [of "\<lambda>c. c \<noteq> 39" cs] by (cases "dropWhile (\<lambda>c. c \<noteq> 39) cs") auto
      have "mem_bytes m (cur + 1) (unat (q - (cur + 1))) = takeWhile (\<lambda>c. c \<noteq> 39) cs"
        using text_at_range [of m "cur + 1" e "takeWhile (\<lambda>c. c \<noteq> 39) cs" "dropWhile (\<lambda>c. c \<noteq> 39) cs" q] tail q(2)
        by simp
      then show ?thesis
        using len q ds by (simp add: Cons c True Some parse_word_fragment_def parse_single_quoted_string_def
          tree_fragment_def pair_types pair_bytes_def text_at_Cons)
    qed
  next
    case False
    show ?thesis
    proof (cases "is_ordinary_character c")
      case True
      note run = text_at_ordinary_run [OF tail]
      have "mem_bytes m cur (unat (ordinary_run (cur + 1) e m - cur)) = c # takeWhile is_ordinary_character cs"
        using text_at_range [of m cur e "c # takeWhile is_ordinary_character cs" "dropWhile is_ordinary_character cs"
            "ordinary_run (cur + 1) e m"] assms run by (simp add: Cons)
      then show ?thesis
        using len run False True by (simp add: Cons c parse_word_fragment_def parse_single_quoted_string_def
          parse_unquoted_string_def tree_fragment_def pair_types pair_bytes_def)
    next
      case False
      then show ?thesis
        using \<open>c \<noteq> 39\<close> by (simp add: Cons c parse_word_fragment_def parse_single_quoted_string_def parse_unquoted_string_def)
    qed
  qed
qed

lemma parse_word_fragments_reads:
  assumes "text_at m cur e xs"
  shows "\<exists>fs rest. read_fragments xs = (fs, rest) \<and>
    those (map (tree_fragment m) (parse_word_fragments cur e m)) = Some fs \<and>
    text_at m (case parse_word_fragments cur e m of [] \<Rightarrow> cur | p # ps \<Rightarrow> pair_end (last (p # ps))) e rest"
  using assms
proof (induction xs arbitrary: cur rule: read_fragments.induct)
  case (1 xs)
  note step = parse_word_fragment_reads [OF "1.prems"]
  show ?case
  proof (cases "parse_word_fragment cur (e - cur) m")
    case None
    then show ?thesis
      using step "1.prems" by (simp add: parse_word_fragments.simps [of cur] read_fragments.simps [of xs])
  next
    case (Some p)
    then obtain f ys where f: "read_fragment xs = Some (f, ys)" "tree_fragment m p = Some f" "text_at m (pair_end p) e ys"
      using step by auto
    let ?ps = "parse_word_fragments (pair_end p) e m"
    obtain fs rest where ih: "read_fragments ys = (fs, rest)" "those (map (tree_fragment m) ?ps) = Some fs"
      "text_at m (case ?ps of [] \<Rightarrow> pair_end p | q # qs \<Rightarrow> pair_end (last (q # qs))) e rest"
      using "1.IH" [OF f(1) refl f(3)] by auto
    have ps: "parse_word_fragments cur e m = p # ?ps" by (simp add: parse_word_fragments.simps [of cur] Some)
    have "text_at m (pair_end (last (p # ?ps))) e rest" using ih(3) by (cases ?ps) simp_all
    then show ?thesis using f(1,2) ih(1,2) by (simp add: ps read_fragments.simps [of xs])
  qed
qed

lemma those_Nil_iff: "those xs = Some [] \<longleftrightarrow> xs = []"
  by (cases xs) (auto split: option.splits)

lemma parse_word_reads:
  assumes "text_at m cur e xs"
  shows "case parse_word cur (e - cur) m of
      None \<Rightarrow> read_word xs = None
    | Some p \<Rightarrow> \<exists>w rest. read_word xs = Some (w, rest) \<and> tree_word m p = Some w \<and> text_at m (pair_end p) e rest \<and>
        pair_type p = PAIR_WORD"
proof -
  obtain fs rest where r: "read_fragments xs = (fs, rest)"
    "those (map (tree_fragment m) (parse_word_fragments cur e m)) = Some fs"
    "text_at m (case parse_word_fragments cur e m of [] \<Rightarrow> cur | p # ps \<Rightarrow> pair_end (last (p # ps))) e rest"
    using parse_word_fragments_reads [OF assms] by blast
  show ?thesis
  proof (cases "parse_word_fragments cur e m")
    case Nil
    then show ?thesis using r by (simp add: parse_word_def read_word_def)
  next
    case (Cons p ps)
    then have "fs \<noteq> []" using r(2) by (metis list.distinct(1) list.simps(9) those_Nil_iff)
    then show ?thesis using r Cons by (simp add: parse_word_def read_word_def tree_word_def)
  qed
qed

lemma parse_redirect_reads:
  assumes "text_at m cur e xs"
  shows "case parse_redirect cur (e - cur) m of
      None \<Rightarrow> xs \<noteq> [] \<and> (hd xs = 60 \<or> hd xs = 62) \<longrightarrow> read_element xs = None
    | Some p \<Rightarrow> \<exists>el rest. xs \<noteq> [] \<and> (hd xs = 60 \<or> hd xs = 62) \<and> read_element xs = Some (el, rest) \<and>
        tree_element m (Pair_Node PAIR_SIMPLE_COMMAND_ELEMENT (pair_start p) (pair_end p) [p]) = Some el \<and>
        text_at m (pair_end p) e rest"
proof (cases "xs \<noteq> [] \<and> (hd xs = 60 \<or> hd xs = 62)")
  case False
  then have "parse_redirect cur (e - cur) m = None"
    using assms text_at_nonempty [OF assms]
    by (cases xs) (auto simp: parse_redirect_def parse_redirect_operator_def text_at_Cons)
  then show ?thesis using False by auto
next
  case True
  then obtain c cs where xs: "xs = c # cs" "c = 60 \<or> c = 62" by (cases xs) auto
  have c: "m cur = c" and tail: "text_at m (cur + 1) e cs" and len: "e - cur \<noteq> 0"
    using assms text_at_nonempty [OF assms] by (simp_all add: xs(1) text_at_Cons)
  let ?cur = "skip_spaces (cur + 1) e m"
  note w = parse_word_reads [OF text_at_skip_spaces [OF tail]]
  have p: "parse_redirect cur (e - cur) m = (case parse_word ?cur (e - ?cur) m of None \<Rightarrow> None
      | Some w \<Rightarrow> Some (Pair_Node PAIR_REDIRECT cur (pair_end w) [Pair_Node PAIR_REDIRECT_OPERATOR cur (cur + 1) [], w]))"
    using len xs(2) by (auto simp: parse_redirect_def parse_redirect_operator_def parse_zms_def c Let_def)
  have rd: "read_element xs = map_option (\<lambda>(w, zs). (Redirect c w, zs)) (read_word (dropWhile (\<lambda>c. c = 32) cs))"
    using xs by (simp add: read_element_def)
  show ?thesis
  proof (cases "parse_word ?cur (e - ?cur) m")
    case None
    then show ?thesis using w by (simp add: p rd)
  next
    case (Some q)
    then show ?thesis using w xs by (auto simp: p read_element_def tree_element_def pair_types c)
  qed
qed

lemma parse_element_reads:
  assumes "text_at m cur e xs"
  shows "case parse_simple_command_element cur (e - cur) m of
      None \<Rightarrow> read_element xs = None
    | Some p \<Rightarrow> \<exists>el rest. read_element xs = Some (el, rest) \<and> tree_element m p = Some el \<and> text_at m (pair_end p) e rest"
proof (cases "parse_redirect cur (e - cur) m")
  case (Some p)
  then show ?thesis
    using parse_redirect_reads [OF assms] by (auto simp: parse_simple_command_element_def)
next
  case None
  note redirect = parse_redirect_reads [OF assms, unfolded None option.case]
  note word = parse_word_reads [OF assms]
  show ?thesis
  proof (cases "xs \<noteq> [] \<and> (hd xs = 60 \<or> hd xs = 62)")
    case True
    then obtain c cs where "xs = c # cs" "c = 60 \<or> c = 62" by (cases xs) auto
    then have "read_fragment xs = None" by (auto simp: not_ordinary)
    then have "read_word xs = None" by (simp add: read_word_def read_fragments.simps [of xs])
    then show ?thesis
      using True redirect word None by (auto simp: parse_simple_command_element_def split: option.splits)
  next
    case False
    then have rd: "read_element xs = map_option (\<lambda>(w, zs). (Word w, zs)) (read_word xs)" by (auto simp: read_element_def)
    show ?thesis
      using word None by (auto simp: parse_simple_command_element_def rd tree_element_def split: option.splits)
  qed
qed

lemma parse_elements_reads:
  assumes "text_at m cur e xs"
  shows "\<exists>es rest. read_stmt xs = (es, rest) \<and> those (map (tree_element m) (parse_elements cur e m)) = Some es \<and>
    text_at m (case parse_elements cur e m of [] \<Rightarrow> cur | p # ps \<Rightarrow> pair_end (last (p # ps))) e rest"
  using assms
proof (induction xs arbitrary: cur rule: read_stmt.induct)
  case (1 xs)
  note step = parse_element_reads [OF "1.prems"]
  show ?case
  proof (cases "parse_simple_command_element cur (e - cur) m")
    case None
    then show ?thesis using step "1.prems" by (simp add: parse_elements.simps [of cur] read_stmt.simps [of xs])
  next
    case (Some p)
    then obtain el ys where el: "read_element xs = Some (el, ys)" "tree_element m p = Some el" "text_at m (pair_end p) e ys"
      using step by auto
    let ?ps = "parse_elements (skip_spaces (pair_end p) e m) e m"
    have ps: "parse_elements cur e m = p # ?ps" by (simp add: parse_elements.simps [of cur] Some parse_zms_def)
    obtain es rest where ih: "read_stmt (dropWhile (\<lambda>c. c = 32) ys) = (es, rest)"
      "those (map (tree_element m) ?ps) = Some es"
      "text_at m (case ?ps of [] \<Rightarrow> skip_spaces (pair_end p) e m | q # qs \<Rightarrow> pair_end (last (q # qs))) e rest"
      using "1.IH" [OF el(1) refl text_at_skip_spaces [OF el(3)]] by blast
    show ?thesis
    proof (cases ?ps)
      case Nil
      then show ?thesis using ih el by (simp add: ps read_stmt_step [OF el(1)])
    next
      case (Cons q qs)
      then have "es \<noteq> []" using ih(2) by (metis list.distinct(1) list.simps(9) those_Nil_iff)
      then show ?thesis using ih el Cons by (simp add: ps read_stmt_step [OF el(1)])
    qed
  qed
qed

lemma parse_shell_stmt_reads:
  assumes "text_at m line (line + len) xs"
  shows "\<exists>es rest. read_stmt xs = (es, rest) \<and> tree_stmt m (parse_shell_stmt line len m) = Some es \<and>
    text_at m (pair_end (parse_shell_stmt line len m)) (line + len) rest"
proof -
  obtain es rest where "read_stmt xs = (es, rest)"
    "those (map (tree_element m) (parse_elements line (line + len) m)) = Some es"
    "text_at m (case parse_elements line (line + len) m of [] \<Rightarrow> line | p # ps \<Rightarrow> pair_end (last (p # ps))) (line + len) rest"
    using parse_elements_reads [OF assms] by blast
  then show ?thesis
    by (cases "parse_elements line (line + len) m") (auto simp: parse_shell_stmt_def tree_stmt_def Let_def)
qed

text \<open>
  C16: The parser recognises exactly the grammar: it reads a line to its end if and only if the line is a sentence,
  and its tree then stands for the one statement of which the line is the text; words, quoted parts with all
  that is between their quotes, redirections and the spaces between them come out as they were written.
\<close>

proposition parse_shell_stmt_grammar:
  assumes "text_at m line (line + len) xs"
  shows "pair_end (parse_shell_stmt line len m) = line + len \<and> tree_stmt m (parse_shell_stmt line len m) = Some es
    \<longleftrightarrow> sentence es xs"
proof -
  obtain es' rest where r: "read_stmt xs = (es', rest)" "tree_stmt m (parse_shell_stmt line len m) = Some es'"
    "text_at m (pair_end (parse_shell_stmt line len m)) (line + len) rest"
    using parse_shell_stmt_reads [OF assms] by blast
  have "pair_end (parse_shell_stmt line len m) = line + len \<longleftrightarrow> rest = []"
    using r(3) by (cases rest) (auto simp: text_at_Nil text_at_Cons)
  then show ?thesis using r(1,2) read_stmt_iff [of xs es] by auto
qed

text \<open>A line with a quoted word and two redirections: \<^verbatim>\<open>a'b >'<c> d\<close>.\<close>

definition demo_line :: "u8 list" where
  "demo_line = [97, 39, 98, 32, 62, 39, 60, 99, 62, 32, 100]"

lemma demo_sentence:
  "sentence [Word [Plain [97], Quoted [98, 32, 62]], Redirect 60 [Plain [99]], Redirect 62 [Plain [100]]] demo_line"
proof -
  have w: "word_ok [Plain [97], Quoted [98, 32, 62]]" "word_ok [Plain [99]]" "word_ok [Plain [100]]"
    by (simp_all add: word_ok_def is_ordinary_character_def)
  have r: "element_text (Redirect 60 [Plain [99]]) (60 # replicate 0 32 @ word_text [Plain [99]])"
    "element_text (Redirect 62 [Plain [100]]) (62 # replicate 1 32 @ word_text [Plain [100]])"
    by (rule element_text.redirect; simp add: w)+
  have "sentence [Word [Plain [97], Quoted [98, 32, 62]], Redirect 60 [Plain [99]], Redirect 62 [Plain [100]]]
      (word_text [Plain [97], Quoted [98, 32, 62]] @ replicate 0 32 @
        ((60 # replicate 0 32 @ word_text [Plain [99]]) @ replicate 0 32 @
          (62 # replicate 1 32 @ word_text [Plain [100]])))"
    by (intro sentence_more sentence_one r element_text.word w) simp_all
  then show ?thesis by (simp add: word_text_def demo_line_def)
qed

lemma parse_shell_stmt_grammar_witness:
  "pair_end (parse_shell_stmt 0 11 (\<lambda>a. demo_line ! unat a)) = 0 + 11 \<and>
    tree_stmt (\<lambda>a. demo_line ! unat a) (parse_shell_stmt 0 11 (\<lambda>a. demo_line ! unat a)) =
      Some [Word [Plain [97], Quoted [98, 32, 62]], Redirect 60 [Plain [99]], Redirect 62 [Plain [100]]]"
proof (rule iffD2 [OF parse_shell_stmt_grammar demo_sentence])
  show "text_at (\<lambda>a. demo_line ! unat a) 0 (0 + 11) demo_line"
    by (simp add: text_at_def mem_bytes_def demo_line_def upt_rec)
qed

end
