(* ===== verification/ShellCommands.thy ===== *)
theory ShellCommands
  imports Shell ShellGrammar
begin

text \<open>
  What the shell makes of a line: the arguments and redirections of a statement, from the memory of the line to
  the system calls.
\<close>

section \<open>The values of words\<close>

fun fragment_value :: "fragment \<Rightarrow> u8 list" where
  "fragment_value (Plain s) = s"
| "fragment_value (Quoted s) = s"

definition word_value :: "fragment list \<Rightarrow> u8 list" where
  "word_value w = concat (map fragment_value w)"

lemma word_value_simps [simp]: "word_value [] = []" "word_value (f # w) = fragment_value f @ word_value w"
  by (simp_all add: word_value_def)

text \<open>A buffer that holds a string, cleared behind it.\<close>

definition string_buffer :: "u8 list \<Rightarrow> u8 list" where
  "string_buffer v = v @ replicate (SCRIPT_BUFFER_LENGTH - length v) 0"

lemma c_string_buffer:
  assumes "0 \<notin> set v" and "length v < SCRIPT_BUFFER_LENGTH"
  shows "c_string (string_buffer v) = v"
proof -
  obtain k where "SCRIPT_BUFFER_LENGTH - length v = Suc k" using assms(2) by (cases "SCRIPT_BUFFER_LENGTH - length v") simp_all
  then show ?thesis
    unfolding c_string_def string_buffer_def using assms(1) by (subst takeWhile_append2) auto
qed

lemma replicate_update: "(replicate n x)[i := x] = replicate n x"
  by (metis list_update_id list_update_beyond not_le length_replicate nth_replicate)

lemma append_content_ok:
  assumes "n = length v" and "length v + length (pair_bytes m p) < SCRIPT_BUFFER_LENGTH"
  shows "append_content os m p (string_buffer v, n) =
    give (string_buffer (v @ pair_bytes m p), n + length (pair_bytes m p))"
proof -
  have l: "unat (pair_end p - pair_start p) = length (pair_bytes m p)" by (simp add: pair_bytes_def)
  have "blit (string_buffer v) n (pair_bytes m p) 0 (length (pair_bytes m p)) = Inr (string_buffer (v @ pair_bytes m p))"
    using assms by (subst blit_ok) (simp_all add: string_buffer_def)
  then show ?thesis using assms(2) by (simp add: append_content_def l checked_def assms(1))
qed

lemma first_child_single: "children p = [c] \<Longrightarrow> first_child p = give c"
  by (simp add: first_child_def)

text \<open>A fragment of which the string grows to 398 bytes at most; at 399 bytes the terminator is written behind the buffer.\<close>

lemma expand_fragment:
  assumes "tree_fragment m p = Some f" and "length v + length (fragment_value f) \<le> 399"
  shows "expand_fragments os m (p # ps) (string_buffer v, length v) =
    (if length v + length (fragment_value f) = 399 then fault
     else expand_fragments os m ps (string_buffer (v @ fragment_value f), length v + length (fragment_value f)))"
proof -
  obtain child where child: "children p = [child]" using assms(1) by (auto simp: tree_fragment_def split: list.splits)
  have content: "(if pair_type child = PAIR_UNQUOTED_STRING then append_content os m child (string_buffer v, length v)
      else if pair_type child = PAIR_QUOTED_STRING
      then andthen (first_child child) (\<lambda>c. append_content os m c (string_buffer v, length v))
      else andthen (fputs os (u8p ''shell: parser assertion: unexpected pair type'' @ [10]) stderr) (\<lambda>u. exit os 2)) =
    give (string_buffer (v @ fragment_value f), length v + length (fragment_value f))"
    using assms append_content_ok [OF refl, of v m _ os]
    by (auto simp: tree_fragment_def child first_child_single SCRIPT_BUFFER_LENGTH_def split: if_splits list.splits)
  have store: "array_set (string_buffer (v @ fragment_value f)) (length v + length (fragment_value f) + 1) 0 =
      (if length v + length (fragment_value f) = 399 then Inl Invalid_Access
       else Inr (string_buffer (v @ fragment_value f)))"
    using assms(2) by (auto simp: array_set_def string_buffer_def SCRIPT_BUFFER_LENGTH_def list_update_append
      replicate_update)
  show ?thesis
    unfolding expand_fragments.simps first_child_single [OF child] andthen_give content prod.case store
    by (simp add: checked_def)
qed

lemma those_Some_Cons: "those (x # xs) = Some (y # ys) \<longleftrightarrow> x = Some y \<and> those xs = Some ys"
  by (auto split: option.splits)

lemma those_map_Some_Cons:
  "those (map f (p # ps)) = Some zs \<longleftrightarrow> (\<exists>z zs'. zs = z # zs' \<and> f p = Some z \<and> those (map f ps) = Some zs')"
  by (auto split: option.splits)

lemma expand_fragments_value:
  assumes "those (map (tree_fragment m) ps) = Some w" and "length v + length (word_value w) \<le> 399" and "length v \<le> 398"
  shows "expand_fragments os m ps (string_buffer v, length v) =
    (if length v + length (word_value w) = 399 then fault
     else give (string_buffer (v @ word_value w), length v + length (word_value w)))"
  using assms
proof (induction ps arbitrary: v w)
  case Nil
  then show ?case by simp
next
  case (Cons p ps)
  then obtain f fs where w: "w = f # fs" and f: "tree_fragment m p = Some f" and fs: "those (map (tree_fragment m) ps) = Some fs"
    unfolding those_map_Some_Cons by blast
  have room: "length v + length (fragment_value f) \<le> 399" using Cons.prems(2) by (simp add: w)
  show ?case
  proof (cases "length v + length (fragment_value f) = 399")
    case True
    then show ?thesis using expand_fragment [OF f room, of os ps] Cons.prems(2) by (simp add: w)
  next
    case False
    then show ?thesis
      using expand_fragment [OF f room, of os ps] Cons.IH [OF fs, of "v @ fragment_value f"] Cons.prems(2) room
      by (simp add: w add.assoc)
  qed
qed

lemma string_buffer_Nil: "string_buffer [] = replicate SCRIPT_BUFFER_LENGTH 0"
  by (simp add: string_buffer_def)

lemma expand_word_value:
  assumes "tree_word m p = Some w" and "length (word_value w) \<le> 399"
  shows "expand_word os m p (replicate SCRIPT_BUFFER_LENGTH 0) =
    (if length (word_value w) = 399 then fault else give (string_buffer (word_value w)))"
  using assms expand_fragments_value [of m "children p" w "[]" os]
  by (auto simp: expand_word_def tree_word_def string_buffer_Nil split: if_splits)

section \<open>Statements\<close>

fun words_of :: "element list \<Rightarrow> u8 list list" where
  "words_of [] = []"
| "words_of (Word w # es) = word_value w # words_of es"
| "words_of (Redirect c w # es) = words_of es"

fun redirects_of :: "element list \<Rightarrow> redirect_info list" where
  "redirects_of [] = []"
| "redirects_of (Word w # es) = redirects_of es"
| "redirects_of (Redirect c w # es) =
     \<lparr>ri_fd = (if c = 60 then 0 else 1), target_path = string_buffer (word_value w)\<rparr> # redirects_of es"

text \<open>Every word fits into its buffer and has no terminator inside; the operators are the two of the grammar.\<close>

fun element_fits :: "element \<Rightarrow> bool" where
  "element_fits (Word w) \<longleftrightarrow> length (word_value w) \<le> 398 \<and> 0 \<notin> set (word_value w)"
| "element_fits (Redirect c w) \<longleftrightarrow> (c = 60 \<or> c = 62) \<and> length (word_value w) \<le> 398 \<and> 0 \<notin> set (word_value w)"

lemma expand_elements_value:
  assumes "those (map (tree_element m) ps) = Some es" and "list_all element_fits es"
  shows "expand_elements os m ps argv rs = give (argv @ map string_buffer (words_of es), rs @ redirects_of es)"
  using assms
proof (induction ps arbitrary: es argv rs)
  case Nil
  then show ?case by simp
next
  case (Cons p ps)
  then obtain e es' where es: "es = e # es'" and e: "tree_element m p = Some e"
    and ps: "those (map (tree_element m) ps) = Some es'"
    unfolding those_map_Some_Cons by blast
  have fits: "element_fits e" "list_all element_fits es'" using Cons.prems(2) by (simp_all add: es)
  obtain c where c: "children p = [c]" using e by (auto simp: tree_element_def split: list.splits)
  show ?case
  proof (cases e)
    case (Word w)
    then have "pair_type c = PAIR_WORD \<and> tree_word m c = Some w"
      using e by (auto simp: tree_element_def c split: if_splits list.splits)
    then show ?thesis
      using fits Cons.IH [OF ps fits(2)] expand_word_value [of m c w os]
      by (simp add: es Word first_child_def c)
  next
    case (Redirect a w)
    then obtain op target where "pair_type c = PAIR_REDIRECT" "children c = [op, target]" "a = m (pair_start op)"
      "tree_word m target = Some w" "PAIR_REDIRECT \<noteq> PAIR_WORD"
      using e by (auto simp: tree_element_def c pair_types split: if_splits list.splits)
    then show ?thesis
      using fits Cons.IH [OF ps fits(2)] expand_word_value [of m target w os]
      by (simp add: es Redirect first_child_def c)
  qed
qed

lemma count_elements_value:
  assumes "those (map (tree_element m) ps) = Some es"
  shows "count_elements os ps (a, b) =
    give (a + of_nat (length (words_of es)), b + of_nat (length (redirects_of es)))"
  using assms
proof (induction ps arbitrary: es a b)
  case Nil
  then show ?case by simp
next
  case (Cons p ps)
  then obtain e es' where es: "es = e # es'" and e: "tree_element m p = Some e"
    and ps: "those (map (tree_element m) ps) = Some es'"
    unfolding those_map_Some_Cons by blast
  obtain c where c: "children p = [c]" "pair_type p = PAIR_SIMPLE_COMMAND_ELEMENT"
    using e by (auto simp: tree_element_def split: list.splits if_splits)
  show ?case
    using e Cons.IH [OF ps]
    by (cases e) (auto simp: es tree_element_def c first_child_def pair_types add.assoc split: if_splits list.splits)
qed

lemma words_of_length: "length (words_of es) \<le> length es"
  by (induction es rule: words_of.induct) simp_all

lemma sentence_length: "sentence es xs \<Longrightarrow> length es \<le> length xs"
proof (induction rule: sentence.induct)
  case (sentence_more e t e' es s k)
  then show ?case using element_head [OF sentence_more.hyps(1)] by (cases t) simp_all
qed (auto dest: element_head simp: Suc_le_eq)

lemma words_of_fit:
  assumes "list_all element_fits es" and "w \<in> set (words_of es)"
  shows "length w \<le> 398 \<and> 0 \<notin> set w"
  using assms by (induction es rule: words_of.induct) auto

lemma c_strings_of_words:
  assumes "list_all element_fits es"
  shows "map c_string (map string_buffer (words_of es)) = words_of es"
proof -
  have "c_string (string_buffer w) = w" if "w \<in> set (words_of es)" for w
    using words_of_fit [OF assms that] by (simp add: c_string_buffer SCRIPT_BUFFER_LENGTH_def)
  then show ?thesis by (simp add: map_idI)
qed

section \<open>Lines\<close>

text \<open>
  What a line asks for: the statement that it is the text of, if any; nothing when the statement has no word, the
  end of the shell for the word \<^verbatim>\<open>exit\<close>, and otherwise the program that the first word names, with the words as its
  arguments and the redirections in their order.
\<close>

definition statement_of :: "u8 list \<Rightarrow> element list option" where
  "statement_of xs = (case read_stmt xs of (es, rest) \<Rightarrow> if rest = [] then Some es else None)"

lemma statement_of_iff: "statement_of xs = Some es \<longleftrightarrow> sentence es xs"
  using read_stmt_iff [of xs es] by (auto simp: statement_of_def split: prod.splits)

definition syntax_error :: "'w os \<Rightarrow> u8 \<Rightarrow> (u64, 'w) prog" where
  "syntax_error os c =
     andthen (fputs os (u8p ''shell: syntax error, unexpected '' @ [39]) stderr) (\<lambda>u.
     andthen (ask_only os (Sc_Write 2 [c])) (\<lambda>u. andthen (fputs os [39, 10] stderr) (\<lambda>u. give 1)))"

definition perform :: "'w os \<Rightarrow> u64 \<Rightarrow> element list \<Rightarrow> (u64, 'w) prog" where
  "perform os garbage es =
     (case words_of es of
        [] \<Rightarrow> give 0
      | name # arguments \<Rightarrow>
          if name = u8p ''exit'' then exit_command os garbage (name # arguments)
          else run_command os garbage (redirects_of es) (name # arguments))"

lemma text_at_end: "text_at m cur e xs \<Longrightarrow> cur = e \<longleftrightarrow> xs = []"
  by (cases xs) (auto simp: text_at_Nil text_at_Cons)

lemma exec_shell_line_eq:
  assumes "text_at m line (line + len) xs" and "list_all element_fits (fst (read_stmt xs))"
  shows "exec_shell_line os garbage line len m =
    (case statement_of xs of None \<Rightarrow> syntax_error os (m (line + len)) | Some es \<Rightarrow> perform os garbage es)"
proof -
  let ?stmt = "parse_shell_stmt line len m"
  obtain es rest where r: "read_stmt xs = (es, rest)" "tree_stmt m ?stmt = Some es" "text_at m (pair_end ?stmt) (line + len) rest"
    using parse_shell_stmt_reads [OF assms(1)] by blast
  have whole: "pair_end ?stmt = line + len \<longleftrightarrow> rest = []" using text_at_end [OF r(3)] .
  show ?thesis
  proof (cases "rest = []")
    case False
    then show ?thesis using whole by (simp add: exec_shell_line_def syntax_error_def statement_of_def r(1) Let_def)
  next
    case True
    have fits: "list_all element_fits es" using assms(2) by (simp add: r(1))
    have tree: "those (map (tree_element m) (children ?stmt)) = Some es"
      using r(2) by (simp add: tree_stmt_def split: if_splits)
    have "length (words_of es) < 2 ^ 64"
      using words_of_length [of es] sentence_length [of es xs] read_stmt_iff [of xs es] r(1) True assms(1)
        unat_lt_64 [of "line + len"] by (simp add: text_at_def)
    then have "(of_nat (length (words_of es)) :: u64) = 0 \<longleftrightarrow> words_of es = []"
      by (subst word_unat_eq_iff) (simp add: unat_of_nat_small)
    then show ?thesis
      using whole True c_strings_of_words [OF fits]
      by (auto simp: exec_shell_line_def statement_of_def r(1) perform_def count_elements_value [OF tree]
        expand_elements_value [OF tree fits] Let_def split: list.split)
  qed
qed

text \<open>
  C17: The shell carries out what a line asks for. A line that is not a sentence of the grammar is answered by the
  message and the status 1 and nothing is started. Of a sentence, quotes are removed and the parts of a word
  joined, the words become the arguments and the redirections are passed on in their order.
\<close>

proposition exec_shell_line_performs:
  assumes "text_at m line (line + len) xs" and "list_all element_fits (fst (read_stmt xs))"
  shows "exec_shell_line os garbage line len m =
    (case statement_of xs of None \<Rightarrow> syntax_error os (m (line + len)) | Some es \<Rightarrow> perform os garbage es)"
  by (rule exec_shell_line_eq [OF assms])

lemma exec_shell_line_performs_witness:
  "exec_shell_line (\<lambda>c w. (Answer 0 [], w @ [c])) 0 0 11 (\<lambda>a. demo_line ! unat a) =
    (case statement_of demo_line of None \<Rightarrow> syntax_error (\<lambda>c w. (Answer 0 [], w @ [c])) (demo_line ! unat (0 + 11 :: u64))
      | Some es \<Rightarrow> perform (\<lambda>c w. (Answer 0 [], w @ [c])) 0 es)"
proof (rule exec_shell_line_performs)
  show "text_at (\<lambda>a. demo_line ! unat a) 0 (0 + 11) demo_line"
    by (simp add: text_at_def mem_bytes_def demo_line_def upt_rec)
  show "list_all element_fits (fst (read_stmt demo_line))"
    by (simp add: sentence_complete [OF demo_sentence])
qed

end
