(* ===== verification/Editor.thy ===== *)
theory Editor
  imports ShellCommands
begin

text \<open>
  The shell's line editor against an editor on two strings, the text in front of the cursor and the text behind it.
\<close>

section \<open>Shifting the buffer\<close>

lemma move_char_eq:
  "i < length buffer \<Longrightarrow> j < length buffer \<Longrightarrow> move_char (int i) (int j) buffer = Inr (buffer[i := buffer ! j])"
  by (simp add: move_char_def array_get_def array_set_def)

lemma shift_right:
  assumes "k < n" and "n \<le> length buffer"
  shows "\<exists>buffer'. res_fold (\<lambda>i. move_char (int n - int i - 1) (int n - int i - 2)) [0..<k] buffer = Inr buffer' \<and>
    length buffer' = length buffer \<and>
    (\<forall>x < length buffer. buffer' ! x = (if n - k \<le> x \<and> x < n then buffer ! (x - 1) else buffer ! x))"
  using assms(1)
proof (induction k)
  case 0
  then show ?case by auto
next
  case (Suc k)
  then obtain buffer1 where b: "res_fold (\<lambda>i. move_char (int n - int i - 1) (int n - int i - 2)) [0..<k] buffer = Inr buffer1"
    "length buffer1 = length buffer"
    "\<forall>x < length buffer. buffer1 ! x = (if n - k \<le> x \<and> x < n then buffer ! (x - 1) else buffer ! x)"
    by auto
  have idx: "int n - int k - 1 = int (n - k - 1)" "int n - int k - 2 = int (n - k - 2)" using Suc.prems by simp_all
  have "move_char (int n - int k - 1) (int n - int k - 2) buffer1 = Inr (buffer1[n - k - 1 := buffer1 ! (n - k - 2)])"
    unfolding idx using Suc.prems assms(2) b(2) by (intro move_char_eq) simp_all
  moreover have "(buffer1[n - k - 1 := buffer1 ! (n - k - 2)]) ! x =
      (if n - Suc k \<le> x \<and> x < n then buffer ! (x - 1) else buffer ! x)" if "x < length buffer" for x
  proof (cases "x = n - k - 1")
    case True
    then show ?thesis using Suc.prems assms(2) b(2,3) that by simp
  next
    case False
    then show ?thesis using Suc.prems b(2,3) that by (auto simp: nth_list_update)
  qed
  ultimately show ?case using b(1,2) by (simp add: res_fold_append)
qed

lemma shift_left:
  assumes "q < length buffer" and "p \<le> q"
  shows "\<exists>buffer'. res_fold (\<lambda>i. move_char (int i) (int i + 1)) [p..<q] buffer = Inr buffer' \<and>
    length buffer' = length buffer \<and>
    (\<forall>x < length buffer. buffer' ! x = (if p \<le> x \<and> x < q then buffer ! (x + 1) else buffer ! x))"
  using assms(2,1)
proof (induction q rule: dec_induct)
  case base
  then show ?case by auto
next
  case (step q)
  then obtain buffer1 where b: "res_fold (\<lambda>i. move_char (int i) (int i + 1)) [p..<q] buffer = Inr buffer1"
    "length buffer1 = length buffer"
    "\<forall>x < length buffer. buffer1 ! x = (if p \<le> x \<and> x < q then buffer ! (x + 1) else buffer ! x)"
    by auto
  have "move_char (int q) (int q + 1) buffer1 = Inr (buffer1[q := buffer1 ! (q + 1)])"
    using move_char_eq [of q buffer1 "q + 1"] step.prems b(2) by (simp add: add.commute)
  moreover have "(buffer1[q := buffer1 ! (q + 1)]) ! x = (if p \<le> x \<and> x < Suc q then buffer ! (x + 1) else buffer ! x)"
    if "x < length buffer" for x
    using step.prems step.hyps b(2,3) that by (auto simp: nth_list_update)
  ultimately show ?case using b(1,2) step.hyps by (simp add: res_fold_append)
qed

section \<open>The abstract editor\<close>

text \<open>The text in front of the cursor, the text behind it, and the line before.\<close>

type_synonym edited = "u8 list \<times> u8 list \<times> u8 list"

datatype key = Key_Char u8 | Key_Erase | Key_Up | Key_Down | Key_Right | Key_Left

fun key_bytes :: "key \<Rightarrow> u8 list" where
  "key_bytes (Key_Char c) = [c]"
| "key_bytes Key_Erase = [0xFF]"
| "key_bytes Key_Up = [27, 91, 65]"
| "key_bytes Key_Down = [27, 91, 66]"
| "key_bytes Key_Right = [27, 91, 67]"
| "key_bytes Key_Left = [27, 91, 68]"

fun edit :: "key \<Rightarrow> edited \<Rightarrow> edited" where
  "edit (Key_Char c) (b, a, p) = (b @ [c], a, p)"
| "edit Key_Erase (b, a, p) = (butlast b, a, p)"
| "edit Key_Up (b, a, p) = (p, [], b @ a)"
| "edit Key_Down (b, a, p) = (b, a, p)"
| "edit Key_Right (b, a, p) = (case a of [] \<Rightarrow> (b, a, p) | c # a' \<Rightarrow> (b @ [c], a', p))"
| "edit Key_Left (b, a, p) = (if b = [] then (b, a, p) else (butlast b, last b # a, p))"

text \<open>A key that may be typed: a character that is none of the special ones, with room left for it.\<close>

fun key_ok :: "key \<Rightarrow> edited \<Rightarrow> bool" where
  "key_ok (Key_Char c) (b, a, p) \<longleftrightarrow> c \<noteq> 27 \<and> c \<noteq> 0xFF \<and> c \<noteq> 10 \<and> length b + length a < KEYBOARD_COMMAND_BUFFER_LENGTH"
| "key_ok k t = True"

fun keys_ok :: "key list \<Rightarrow> edited \<Rightarrow> bool" where
  "keys_ok [] t = True"
| "keys_ok (k # ks) t \<longleftrightarrow> key_ok k t \<and> keys_ok ks (edit k t)"

definition holds_line :: "u8 list \<Rightarrow> u16 \<Rightarrow> u8 list \<Rightarrow> bool" where
  "holds_line buffer n s \<longleftrightarrow>
     length buffer = KEYBOARD_COMMAND_BUFFER_LENGTH \<and> unat n = length s \<and> take (length s) buffer = s"

fun represents :: "editor \<Rightarrow> edited \<Rightarrow> bool" where
  "represents ed (b, a, p) \<longleftrightarrow>
     holds_line (keyboard_command_buffer ed) (keyboard_command_length ed) (b @ a) \<and>
     holds_line (prev_keyboard_command_buffer ed) (prev_keyboard_command_length ed) p \<and>
     unat (cursor_end_offset ed) = length a"

lemma holds_line_nth: "holds_line buffer n s \<longleftrightarrow>
    length buffer = 400 \<and> unat n = length s \<and> length s \<le> 400 \<and> (\<forall>x < length s. buffer ! x = s ! x)"
  by (auto simp: holds_line_def KEYBOARD_COMMAND_BUFFER_LENGTH_def list_eq_iff_nth_eq min_def)

text \<open>The world of the editor: bytes that come from the terminal, and writes to it that return.\<close>

definition typed_terminal :: "'w os \<Rightarrow> ('w \<Rightarrow> u8 list) \<Rightarrow> bool" where
  "typed_terminal os inp \<longleftrightarrow>
     (\<forall>w n. unat n \<le> length (inp w) \<longrightarrow>
        (\<exists>w1. os (Sc_Read 0 n) w = (Answer n (take (unat n) (inp w)), w1) \<and> inp w1 = drop (unat n) (inp w))) \<and>
     (\<forall>w bytes. \<exists>r bs w1. os (Sc_Write 1 bytes) w = (Answer r bs, w1) \<and> inp w1 = inp w)"

lemma write_returns:
  assumes "typed_terminal os inp"
  obtains w1 where "ask_only os (Sc_Write 1 bytes) w = (Value (), w1)" and "inp w1 = inp w"
proof -
  obtain r bs w1 where "os (Sc_Write 1 bytes) w = (Answer r bs, w1)" "inp w1 = inp w"
    using assms unfolding typed_terminal_def by blast
  then show thesis by (blast intro: that ask_only_step)
qed

lemma puts_returns:
  assumes "typed_terminal os inp"
  obtains w1 where "puts os s w = (Value (), w1)" and "inp w1 = inp w"
  unfolding puts_def using write_returns [OF assms] .

lemma puts_each_returns:
  assumes "typed_terminal os inp"
  shows "\<exists>w1. for_each xs (\<lambda>i. puts os s) w = (Value (), w1) \<and> inp w1 = inp w"
proof (induction xs arbitrary: w)
  case Nil
  then show ?case by (simp add: give_def)
next
  case (Cons x xs)
  obtain w1 where "puts os s w = (Value (), w1)" "inp w1 = inp w" by (rule puts_returns [OF assms])
  then show ?case using Cons [of w1] by (auto simp: andthen_step)
qed

lemma rewrite_returns:
  assumes "typed_terminal os inp" and "unat (keyboard_command_length ed) \<le> length (keyboard_command_buffer ed)"
  shows "\<exists>w1. rewrite_line_of os ed w = (Value ed, w1) \<and> inp w1 = inp w"
proof -
  obtain w1 where w1: "puts os [13, 27, 91, 75] w = (Value (), w1)" "inp w1 = inp w" by (rule puts_returns [OF assms(1)])
  obtain w2 where w2: "puts os command_prompt w1 = (Value (), w2)" "inp w2 = inp w1" by (rule puts_returns [OF assms(1)])
  obtain w3 where w3: "ask_only os (Sc_Write 1 (take (unat (keyboard_command_length ed)) (keyboard_command_buffer ed))) w2
      = (Value (), w3)" "inp w3 = inp w2" by (rule write_returns [OF assms(1)])
  obtain w4 where w4: "for_each [0..<unat (cursor_end_offset ed)] (\<lambda>i. puts os [27, 91, 68]) w3 = (Value (), w4)"
    "inp w4 = inp w3" using puts_each_returns [OF assms(1)] by blast
  show ?thesis
    using w1 w2 w3 w4 assms(2) by (simp add: rewrite_line_of_def rewrite_command_line_def andthen_step give_def)
qed

section \<open>Each key\<close>

lemma append_key_represents:
  assumes "typed_terminal os inp" and "represents ed (b, [], p)" and "length b < KEYBOARD_COMMAND_BUFFER_LENGTH"
  shows "\<exists>ed1 w1. append_key os ed w = (Value ed1, w1) \<and> inp w1 = inp w \<and> represents ed1 (b @ [single_char ed], [], p)"
proof -
  let ?n = "keyboard_command_length ed" and ?buffer = "keyboard_command_buffer ed"
  have n: "unat ?n = length b" "length b < 400" "length ?buffer = 400" "unat (?n + 1) = length b + 1"
    "\<forall>x < length b. ?buffer ! x = b ! x"
    using assms(2,3) unat_succ [of ?n "-1"]
    by (auto simp: holds_line_nth KEYBOARD_COMMAND_BUFFER_LENGTH_def unat_word_ariths)
  obtain w1 where w1: "ask_only os (Sc_Write 1 [single_char ed]) w = (Value (), w1)" "inp w1 = inp w"
    by (rule write_returns [OF assms(1)])
  have "holds_line (?buffer[length b := single_char ed]) (?n + 1) (b @ [single_char ed])"
    using n by (auto simp: holds_line_nth nth_append nth_list_update)
  then show ?thesis
    using w1 n assms(2) by (simp add: append_key_def array_set_def checked_def andthen_step) (simp add: give_def)
qed

lemma insert_key_represents:
  assumes "typed_terminal os inp" and "represents ed (b, a, p)" and "a \<noteq> []"
    and "length b + length a < KEYBOARD_COMMAND_BUFFER_LENGTH"
  shows "\<exists>ed1 w1. insert_key os ed w = (Value ed1, w1) \<and> inp w1 = inp w \<and> represents ed1 (b @ [single_char ed], a, p)"
proof -
  let ?n = "keyboard_command_length ed" and ?buffer = "keyboard_command_buffer ed"
  have n: "unat ?n = length b + length a" "length b + length a < 400" "length ?buffer = 400"
    "unat (?n + 1) = length b + length a + 1" "\<forall>x < length (b @ a). ?buffer ! x = (b @ a) ! x"
    "unat (cursor_end_offset ed) = length a"
    using assms(2,4) by (auto simp: holds_line_nth KEYBOARD_COMMAND_BUFFER_LENGTH_def unat_word_ariths)
  obtain buffer1 where shift: "res_fold (\<lambda>i. move_char (int (unat (?n + 1)) - int i - 1) (int (unat (?n + 1)) - int i - 2))
      [0..<unat (cursor_end_offset ed)] ?buffer = Inr buffer1" "length buffer1 = 400"
    "\<forall>x < 400. buffer1 ! x = (if length b + 1 \<le> x \<and> x < length b + length a + 1 then ?buffer ! (x - 1) else ?buffer ! x)"
    using shift_right [of "length a" "length b + length a + 1" ?buffer] n by auto
  have idx: "int (unat (?n + 1)) - int (unat (cursor_end_offset ed)) - 1 = int (length b)" using n by simp
  have store: "store_char (int (length b)) (single_char ed) buffer1 = Inr (buffer1[length b := single_char ed])"
    using n shift(2) by (simp add: store_char_def array_set_def)
  let ?ed1 = "ed\<lparr>keyboard_command_length := ?n + 1, keyboard_command_buffer := buffer1[length b := single_char ed]\<rparr>"
  have "(buffer1[length b := single_char ed]) ! x = (b @ [single_char ed] @ a) ! x" if "x < length b + length a + 1" for x
    using that n shift(2,3) by (auto simp: nth_list_update nth_append Suc_diff_Suc nth_Cons')
  then have line: "holds_line (buffer1[length b := single_char ed]) (?n + 1) (b @ [single_char ed] @ a)"
    using n shift(2) by (simp add: holds_line_nth)
  obtain w1 where "rewrite_line_of os ?ed1 w = (Value ?ed1, w1)" "inp w1 = inp w"
    using rewrite_returns [OF assms(1), of ?ed1 w] n shift(2) by auto
  moreover have "insert_key os ed = rewrite_line_of os ?ed1"
    unfolding insert_key_def Let_def shift(1) idx checked_def sum.case andthen_give store ..
  moreover have "represents ?ed1 (b @ [single_char ed], a, p)" using line n(6) assms(2) by simp
  ultimately show ?thesis by auto
qed

lemma backspace_key_represents:
  assumes "typed_terminal os inp" and "represents ed (b, a, p)"
  shows "\<exists>ed1 w1. backspace_key os ed w = (Value ed1, w1) \<and> inp w1 = inp w \<and> represents ed1 (butlast b, a, p)"
proof -
  let ?n = "keyboard_command_length ed" and ?buffer = "keyboard_command_buffer ed"
  have n: "unat ?n = length b + length a" "length b + length a \<le> 400" "length ?buffer = 400"
    "\<forall>x < length (b @ a). ?buffer ! x = (b @ a) ! x" "unat (cursor_end_offset ed) = length a"
    using assms(2) by (auto simp: holds_line_nth)
  have nonempty: "?n > cursor_end_offset ed \<longleftrightarrow> b \<noteq> []" using n(1,5) by (simp add: word_less_nat_alt)
  show ?thesis
  proof (cases "b = []")
    case True
    then obtain w1 where "rewrite_line_of os ed w = (Value ed, w1)" "inp w1 = inp w"
      using rewrite_returns [OF assms(1), of ed w] n by auto
    then show ?thesis using assms(2) nonempty True by (simp add: backspace_key_def)
  next
    case False
    then obtain b' c where b: "b = b' @ [c]" by (cases b rule: rev_cases) auto
    have n1: "unat (?n - 1) = length b' + length a" "unat (?n - 1 - cursor_end_offset ed) = length b'"
    proof -
      show m: "unat (?n - 1) = length b' + length a" using n(1) b by (subst unat_pred) (auto simp: word_less_nat_alt)
      then show "unat (?n - 1 - cursor_end_offset ed) = length b'"
        using n(5) by (subst unat_sub_no_wrap) (simp_all add: word_le_nat_alt)
    qed
    obtain buffer1 where shift: "res_fold (\<lambda>i. move_char (int i) (int i + 1)) [length b'..<length b' + length a] ?buffer = Inr buffer1"
      "length buffer1 = 400"
      "\<forall>x < 400. buffer1 ! x = (if length b' \<le> x \<and> x < length b' + length a then ?buffer ! (x + 1) else ?buffer ! x)"
      using shift_left [of "length b' + length a" ?buffer "length b'"] n b by auto
    let ?ed1 = "ed\<lparr>keyboard_command_length := ?n - 1, keyboard_command_buffer := buffer1\<rparr>"
    have "buffer1 ! x = (b' @ a) ! x" if "x < length b' + length a" for x
      using that n shift(3) b by (auto simp: nth_append)
    then have line: "holds_line buffer1 (?n - 1) (b' @ a)" using n1 n shift(2) b by (simp add: holds_line_nth)
    obtain w1 where "rewrite_line_of os ?ed1 w = (Value ?ed1, w1)" "inp w1 = inp w"
      using rewrite_returns [OF assms(1), of ?ed1 w] n1 n shift(2) b by auto
    moreover have "backspace_key os ed = rewrite_line_of os ?ed1"
      using nonempty False unfolding backspace_key_def Let_def n1 shift(1) by (simp add: n1 shift(1) checked_def)
    moreover have "represents ?ed1 (butlast b, a, p)" using line n(5) assms(2) b by simp
    ultimately show ?thesis by auto
  qed
qed

fun is_arrow :: "key \<Rightarrow> bool" where
  "is_arrow (Key_Char c) = False"
| "is_arrow Key_Erase = False"
| "is_arrow k = True"

lemma arrow_key_represents:
  assumes "typed_terminal os inp" and "represents ed t" and "is_arrow k"
  shows "\<exists>ed1 w1. arrow_key os (tl (key_bytes k)) ed w = (Value ed1, w1) \<and> inp w1 = inp w \<and> represents ed1 (edit k t)"
proof -
  obtain b a p where t: "t = (b, a, p)" by (cases t)
  have n: "holds_line (keyboard_command_buffer ed) (keyboard_command_length ed) (b @ a)"
    "holds_line (prev_keyboard_command_buffer ed) (prev_keyboard_command_length ed) p"
    "unat (cursor_end_offset ed) = length a"
    using assms(2) by (simp_all add: t)
  have lens: "unat (keyboard_command_length ed) = length b + length a" "length b + length a \<le> 400"
    using n(1) by (auto simp: holds_line_nth)
  have rewrite: "\<exists>ed1 w1. rewrite_line_of os ed' w = (Value ed1, w1) \<and> inp w1 = inp w \<and> represents ed1 t'"
    if "represents ed' t'" for ed' t'
  proof -
    have "unat (keyboard_command_length ed') \<le> length (keyboard_command_buffer ed')"
      using that by (cases t') (auto simp: holds_line_nth)
    then show ?thesis using rewrite_returns [OF assms(1), of ed' w] that by blast
  qed
  have stay: "\<exists>ed1 w1. give ed w = (Value ed1, w1) \<and> inp w1 = inp w \<and> represents ed1 t"
    using assms(2) by (simp add: give_def)
  show ?thesis
  proof (cases k)
    case Key_Up
    then show ?thesis using rewrite [of "swap_lines ed" "(p, [], b @ a)"] n by (simp add: arrow_key_def t swap_lines_def)
  next
    case Key_Down
    then show ?thesis using stay by (simp add: arrow_key_def t)
  next
    case Key_Right
    show ?thesis
    proof (cases a)
      case Nil
      then have "\<not> cursor_end_offset ed > 0" using n(3) by (simp add: word_less_nat_alt)
      then show ?thesis using stay by (simp add: Key_Right Nil arrow_key_def t)
    next
      case (Cons c a')
      then have "cursor_end_offset ed > 0" "unat (cursor_end_offset ed - 1) = length a'"
        using n(3) by (simp_all add: word_less_nat_alt unat_pred)
      then show ?thesis
        using rewrite [of "ed\<lparr>cursor_end_offset := cursor_end_offset ed - 1\<rparr>" "(b @ [c], a', p)"] n
        by (simp add: Key_Right Cons arrow_key_def t)
    qed
  next
    case Key_Left
    show ?thesis
    proof (cases "b = []")
      case True
      then have "\<not> cursor_end_offset ed < keyboard_command_length ed" using n(3) lens(1) by (simp add: word_less_nat_alt)
      then show ?thesis using stay by (simp add: Key_Left True arrow_key_def t)
    next
      case False
      then obtain b' c where b: "b = b' @ [c]" by (cases b rule: rev_cases) auto
      then have "cursor_end_offset ed < keyboard_command_length ed" using n(3) lens(1) by (simp add: word_less_nat_alt)
      moreover from this have "unat (cursor_end_offset ed + 1) = length a + 1" using n(3) by (simp add: unat_succ)
      ultimately show ?thesis
        using rewrite [of "ed\<lparr>cursor_end_offset := cursor_end_offset ed + 1\<rparr>" "(b', c # a, p)"] n
        by (simp add: Key_Left arrow_key_def t b)
    qed
  qed (use assms(3) in simp_all)
qed

lemma represents_single_char [simp]: "represents (ed\<lparr>single_char := c\<rparr>) t \<longleftrightarrow> represents ed t"
  by (cases t) simp

lemma read_char:
  assumes "typed_terminal os inp" and "inp w = c # cs"
  obtains w1 where "ask os (Sc_Read 0 1) w = (Value (1, [c]), w1)" and "inp w1 = cs"
proof -
  have "unat (1 :: u64) \<le> length (inp w)" by (simp add: assms(2))
  then obtain w1 where "os (Sc_Read 0 1) w = (Answer 1 (take (unat (1 :: u64)) (inp w)), w1)"
    "inp w1 = drop (unat (1 :: u64)) (inp w)"
    using assms(1) unfolding typed_terminal_def by blast
  then show thesis using that [of w1] by (simp add: ask_def assms(2))
qed

lemma read_arrow:
  assumes "typed_terminal os inp" and "inp w = c # d # cs"
  obtains w1 where "ask os (Sc_Read 0 2) w = (Value (2, [c, d]), w1)" and "inp w1 = cs"
proof -
  have "unat (2 :: u64) \<le> length (inp w)" by (simp add: assms(2))
  then obtain w1 where "os (Sc_Read 0 2) w = (Answer 2 (take (unat (2 :: u64)) (inp w)), w1)"
    "inp w1 = drop (unat (2 :: u64)) (inp w)"
    using assms(1) unfolding typed_terminal_def by blast
  then show thesis using that [of w1] by (simp add: ask_def assms(2))
qed

text \<open>One round of the loop for one key.\<close>

lemma editor_round_represents:
  assumes "typed_terminal os inp" and "represents ed t" and "key_ok k t" and "inp w = key_bytes k @ rest"
  shows "\<exists>ed1 w1. editor_round os garbage junk ed w = (Value ed1, w1) \<and> inp w1 = rest \<and> represents ed1 (edit k t)"
proof -
  obtain c cs where c: "key_bytes k = c # cs" by (cases k) simp_all
  obtain w1 where w1: "ask os (Sc_Read 0 1) w = (Value (1, [c]), w1)" "inp w1 = cs @ rest"
    using read_char [OF assms(1), of w c "cs @ rest"] assms(4) c by auto
  let ?ed = "ed\<lparr>single_char := c\<rparr>"
  have round: "editor_round os garbage junk ed w = handle_char os garbage junk ?ed w1"
    by (simp add: editor_round_def andthen_def w1(1))
  obtain b a p where t: "t = (b, a, p)" by (cases t)
  have rep: "represents ?ed (b, a, p)" using assms(2) t by (simp del: represents.simps)
  consider d where "k = Key_Char d" | "k = Key_Erase" | "is_arrow k" by (cases k) simp_all
  then show ?thesis
  proof cases
    case 1
    then have k: "c = d" "cs = []" "d \<noteq> 27" "d \<noteq> 0xFF" "d \<noteq> 10" "length b + length a < KEYBOARD_COMMAND_BUFFER_LENGTH"
      using c assms(3) by (simp_all add: t)
    show ?thesis
    proof (cases a)
      case Nil
      then have "\<not> cursor_end_offset ed > 0" using rep by (simp add: word_less_nat_alt)
      then have "handle_char os garbage junk ?ed = append_key os ?ed" using k by (simp add: handle_char_def)
      then show ?thesis
        using append_key_represents [OF assms(1) rep [unfolded Nil], of w1] k w1(2) Nil
        by (simp add: round 1 t del: represents.simps)
    next
      case (Cons x xs)
      then have "cursor_end_offset ed > 0" using rep by (simp add: word_less_nat_alt)
      then have "handle_char os garbage junk ?ed = insert_key os ?ed" using k by (simp add: handle_char_def)
      then show ?thesis
        using insert_key_represents [OF assms(1) rep _ k(6), of w1] k w1(2) Cons
        by (simp add: round 1 t del: represents.simps)
    qed
  next
    case 2
    then have "handle_char os garbage junk ?ed = backspace_key os ?ed" "cs = []" using c by (auto simp: handle_char_def)
    then show ?thesis
      using backspace_key_represents [OF assms(1) rep, of w1] w1(2) by (simp add: round 2 t del: represents.simps)
  next
    case 3
    then obtain d d' where arrow: "c = 27" "cs = [d, d']" "tl (key_bytes k) = [d, d']" using c by (cases k) auto
    obtain w2 where w2: "ask os (Sc_Read 0 2) w1 = (Value (2, [d, d']), w2)" "inp w2 = rest"
      using read_arrow [OF assms(1), of w1 d d' rest] w1(2) arrow by auto
    have "handle_char os garbage junk ?ed w1 = arrow_key os (tl (key_bytes k)) ?ed w2"
      by (simp add: handle_char_def arrow andthen_def w2(1))
    then show ?thesis
      using arrow_key_represents [OF assms(1) rep 3, of w2] w2(2) by (simp add: round t del: represents.simps)
  qed
qed

lemma editor_rounds_represent:
  assumes "typed_terminal os inp" and "represents ed t" and "keys_ok keys t" and "inp w = concat (map key_bytes keys) @ rest"
  shows "\<exists>ed1 w1. thread (\<lambda>k. editor_round os garbage junk) keys ed w = (Value ed1, w1) \<and> inp w1 = rest \<and>
    represents ed1 (fold edit keys t)"
  using assms(2-)
proof (induction keys arbitrary: ed t w)
  case Nil
  then show ?case by (simp add: give_def)
next
  case (Cons k keys)
  obtain ed1 w1 where "editor_round os garbage junk ed w = (Value ed1, w1)" "inp w1 = concat (map key_bytes keys) @ rest"
    "represents ed1 (edit k t)"
    using editor_round_represents [OF assms(1) Cons.prems(1), of k w "concat (map key_bytes keys) @ rest" garbage junk]
      Cons.prems(2,3) by auto
  then show ?case
    using Cons.IH [of ed1 "edit k t" w1] Cons.prems(2) by (auto simp: andthen_def)
qed

section \<open>The end of a line\<close>

lemma line_memory_text:
  assumes "holds_line buffer n s"
  shows "text_at (line_memory buffer) 0x1000 (0x1000 + ucast n) s"
proof -
  have n: "length buffer = 400" "unat n = length s" "length s \<le> 400" "\<forall>x < length s. buffer ! x = s ! x"
    using assms by (simp_all add: holds_line_nth)
  have "unat (ucast n :: u64) = length s" using n(2,3) by (subst unat_ucast_small) simp_all
  then have "unat (0x1000 + ucast n :: u64) = unat (0x1000 :: u64) + length s"
    using n(3) by (subst unat_add_no_wrap) simp_all
  moreover have "mem_bytes (line_memory buffer) 0x1000 (length s) = s"
    using n by (intro nth_equalityI) (simp_all add: mem_bytes_def line_memory_def unat_of_nat_small)
  ultimately show ?thesis by (simp add: text_at_def)
qed

text \<open>What Enter does with a line: the newline, the statement, the prompt.\<close>

definition line_program :: "'w os \<Rightarrow> u64 \<Rightarrow> u8 \<Rightarrow> u8 list \<Rightarrow> (u64, 'w) prog" where
  "line_program os garbage behind s =
     andthen (ask_only os (Sc_Write 1 [10])) (\<lambda>u.
     andthen (case statement_of s of None \<Rightarrow> syntax_error os behind | Some es \<Rightarrow> perform os garbage es) (\<lambda>code.
     andthen (puts os command_prompt) (\<lambda>u. give code)))"

definition next_line :: "editor \<Rightarrow> editor" where
  "next_line ed = ed\<lparr>prev_keyboard_command_buffer := keyboard_command_buffer ed,
     prev_keyboard_command_length := keyboard_command_length ed, keyboard_command_length := 0,
     keyboard_command_buffer := replicate KEYBOARD_COMMAND_BUFFER_LENGTH 0\<rparr>"

lemma enter_key_eq:
  assumes "holds_line (keyboard_command_buffer ed) (keyboard_command_length ed) s" and "single_char ed = 10"
    and "list_all element_fits (fst (read_stmt s))"
  shows "enter_key os garbage ed =
    andthen (line_program os garbage
      (line_memory (keyboard_command_buffer ed) (0x1000 + ucast (keyboard_command_length ed))) s) (\<lambda>code. give (next_line ed))"
  using exec_shell_line_eq [OF line_memory_text [OF assms(1)] assms(3), of os garbage]
  by (simp add: enter_key_def line_program_def next_line_def assms(2) andthen_assoc Let_def)

lemma next_line_represents:
  assumes "represents ed (b, [], p)"
  shows "represents (next_line ed) ([], [], b)"
  using assms by (simp add: next_line_def) (simp add: holds_line_def)

lemma editor_start_represents: "represents (editor_start c) ([], [], [])"
  by (simp add: editor_start_def holds_line_def)

text \<open>
  C18: The shell executes the line that the user has typed. The line starts empty, with any line before it that can be
  recalled. However its keys mix ordinary characters, erasing, the four cursor keys and the recall, as long as the text
  never exceeds the 400 characters of the buffer and no other escape sequence is typed, the editor's buffer holds the text
  that an editor on two strings has, and each key takes exactly its own bytes of the input. Enter then carries out the
  statement of the whole text, wherever the cursor is, provided its words fit the shell's arrays (\<open>element_fits\<close>). When the
  cursor is at the end of the line, the next line starts empty and this one can be recalled, so that the claim holds for
  the next line, too. Nothing is claimed of the line after one in which Enter was typed inside
  (\<open>enter_inside_line_faults\<close>). The shell itself starts with an empty line (\<open>editor_start_represents\<close>).
\<close>

proposition line_editor_executes:
  assumes "typed_terminal os inp" and "represents ed ([], [], p0)" and "inp w = concat (map key_bytes keys) @ [10] @ rest"
    and "keys_ok keys ([], [], p0)" and "fold edit keys ([], [], p0) = (b, a, p)"
    and "list_all element_fits (fst (read_stmt (b @ a)))"
  shows "\<exists>ed1 w1 w2 behind.
    thread (\<lambda>k. editor_round os garbage junk) keys ed w = (Value ed1, w1) \<and> represents ed1 (b, a, p) \<and>
    editor_round os garbage junk ed1 w1 =
      andthen (line_program os garbage behind (b @ a)) (\<lambda>code. give (next_line (ed1\<lparr>single_char := 10\<rparr>))) w2 \<and>
    inp w2 = rest \<and>
    (if a = [] then represents (next_line (ed1\<lparr>single_char := 10\<rparr>)) ([], [], b) else True)"
proof -
  obtain ed1 w1 where run: "thread (\<lambda>k. editor_round os garbage junk) keys ed w = (Value ed1, w1)"
    "inp w1 = [10] @ rest" "represents ed1 (b, a, p)"
    using editor_rounds_represent [OF assms(1,2,4,3), of garbage junk] assms(5) by auto
  obtain w2 where w2: "ask os (Sc_Read 0 1) w1 = (Value (1, [10]), w2)" "inp w2 = rest"
    using read_char [OF assms(1), of w1 10 rest] run(2) by auto
  let ?ed = "ed1\<lparr>single_char := 10\<rparr>"
  let ?behind = "line_memory (keyboard_command_buffer ?ed) (0x1000 + ucast (keyboard_command_length ?ed))"
  have "editor_round os garbage junk ed1 w1 = enter_key os garbage ?ed w2"
    by (simp add: editor_round_def andthen_def w2(1) handle_char_def)
  moreover have "holds_line (keyboard_command_buffer ?ed) (keyboard_command_length ?ed) (b @ a)" using run(3) by simp
  ultimately have "editor_round os garbage junk ed1 w1 = andthen (line_program os garbage ?behind (b @ a)) (\<lambda>code. give (next_line ?ed)) w2"
    using enter_key_eq [of ?ed "b @ a" os garbage] assms(6) by simp
  moreover have "represents (next_line ?ed) ([], [], b)" if "a = []"
    using next_line_represents [of ?ed b p] run(3) that by (simp del: represents.simps add: represents_single_char)
  ultimately show ?thesis
    using run(1,3) w2(2)
    by (intro exI [where x = ed1] exI [where x = w1] exI [where x = w2] exI [where x = ?behind])
      (simp del: represents.simps)
qed

text \<open>
  When Enter is pressed with the cursor inside the line, its distance from the end of the line is kept for the
  next, empty line: the next ordinary character makes the shell move a byte from in front of its buffer.
\<close>

lemma enter_inside_line_faults:
  assumes "represents ed (b, a, p)" and "a \<noteq> []" and "c \<notin> {27, 0xFF, 10}"
    and "enter_key os garbage ed w = (Value ed2, w2)"
  shows "handle_char os garbage junk (ed2\<lparr>single_char := c\<rparr>) = fault"
proof -
  have ed2: "cursor_end_offset ed2 = cursor_end_offset ed" "keyboard_command_length ed2 = 0"
    using assms(4) by (auto simp: enter_key_def Let_def andthen_Value give_def)
  have "unat (cursor_end_offset ed2) = length a" using assms(1) ed2(1) by simp
  then obtain k where k: "unat (cursor_end_offset ed2) = Suc k" "cursor_end_offset ed2 > 0"
    using assms(2) by (cases a) (auto simp: word_less_nat_alt)
  have "res_fold (\<lambda>i. move_char (int (unat (0 + 1 :: u16)) - int i - 1) (int (unat (0 + 1 :: u16)) - int i - 2))
      [0..<Suc k] buffer = Inl Invalid_Access" for buffer
    by (simp add: upt_conv_Cons move_char_def del: upt_Suc)
  then show ?thesis
    using assms(3) k ed2(2) by (simp add: handle_char_def insert_key_def Let_def checked_def del: upt_Suc)
qed

section \<open>Example\<close>

text \<open>
  A terminal whose input is given and whose output is not looked at, and the keys of the line \<^verbatim>\<open>ls -a\<close>, typed
  with a mistake that is corrected.
\<close>

definition demo_terminal :: "u8 list os" where
  "demo_terminal call inp = (case call of
      Sc_Read fd n \<Rightarrow> (Answer n (take (unat n) inp), drop (unat n) inp)
    | _ \<Rightarrow> (Answer 0 [], inp))"

definition demo_keys :: "key list" where
  "demo_keys = [Key_Char 108, Key_Char 32, Key_Left, Key_Char 120, Key_Erase, Key_Char 115, Key_Right, Key_Char 45, Key_Char 97]"

lemma demo_typed: "typed_terminal demo_terminal (\<lambda>inp. inp)"
  by (simp add: typed_terminal_def demo_terminal_def)

lemma demo_keys_text: "fold edit demo_keys ([], [], []) = ([108, 115, 32, 45, 97], [], [])"
  by (simp add: demo_keys_def)

lemma line_editor_executes_witness:
  "\<exists>ed1 w1 w2 behind.
    thread (\<lambda>k. editor_round demo_terminal 0 []) demo_keys (editor_start 0) (concat (map key_bytes demo_keys) @ [10] @ [1]) =
      (Value ed1, w1) \<and> represents ed1 ([108, 115, 32, 45, 97], [], []) \<and>
    editor_round demo_terminal 0 [] ed1 w1 =
      andthen (line_program demo_terminal 0 behind ([108, 115, 32, 45, 97] @ [])) (\<lambda>code. give (next_line (ed1\<lparr>single_char := 10\<rparr>))) w2 \<and>
    w2 = [1] \<and>
    (if [] = ([] :: u8 list) then represents (next_line (ed1\<lparr>single_char := 10\<rparr>)) ([], [], [108, 115, 32, 45, 97]) else True)"
proof (rule line_editor_executes [OF demo_typed editor_start_represents refl _ demo_keys_text])
  show "keys_ok demo_keys ([], [], [])"
    by (simp add: demo_keys_def KEYBOARD_COMMAND_BUFFER_LENGTH_def)
  have w: "word_ok [Plain [108, 115]]" "word_ok [Plain [45, 97]]"
    by (simp_all add: word_ok_def is_ordinary_character_def)
  have "sentence [Word [Plain [108, 115]], Word [Plain [45, 97]]]
      (word_text [Plain [108, 115]] @ replicate 1 32 @ word_text [Plain [45, 97]])"
    by (intro sentence_more sentence_one element_text.word w) simp_all
  then have "sentence [Word [Plain [108, 115]], Word [Plain [45, 97]]] ([108, 115, 32, 45, 97] @ [])"
    by (simp add: word_text_def)
  then show "list_all element_fits (fst (read_stmt ([108, 115, 32, 45, 97] @ [])))"
    by (simp add: sentence_complete)
qed

definition demo_editor :: editor where
  "demo_editor = (editor_start 10)\<lparr>cursor_end_offset := 1, keyboard_command_length := 1,
     keyboard_command_buffer := 32 # replicate 399 0\<rparr>"

lemma enter_inside_line_faults_witness:
  "handle_char demo_terminal 0 [] ((case enter_key demo_terminal 0 demo_editor [] of
      (Value ed, w) \<Rightarrow> ed | _ \<Rightarrow> demo_editor)\<lparr>single_char := 97\<rparr>) = fault"
proof (rule enter_inside_line_faults [where b = "[]" and a = "[32]" and p = "[]"])
  show "represents demo_editor ([], [32], [])"
    by (simp add: demo_editor_def editor_start_def holds_line_def KEYBOARD_COMMAND_BUFFER_LENGTH_def)
  have "holds_line (keyboard_command_buffer demo_editor) (keyboard_command_length demo_editor) [32]"
    by (simp add: demo_editor_def editor_start_def holds_line_def KEYBOARD_COMMAND_BUFFER_LENGTH_def)
  moreover have "read_stmt [32] = ([], [32])"
    by (simp add: read_stmt.simps read_element_def read_word_def read_fragments.simps is_ordinary_character_def)
  ultimately have "enter_key demo_terminal 0 demo_editor = andthen (line_program demo_terminal 0
      (line_memory (keyboard_command_buffer demo_editor) (0x1000 + ucast (keyboard_command_length demo_editor))) [32])
      (\<lambda>code. give (next_line demo_editor))"
    by (intro enter_key_eq) (simp_all add: demo_editor_def editor_start_def)
  then show "enter_key demo_terminal 0 demo_editor [] =
    (Value (case enter_key demo_terminal 0 demo_editor [] of (Value ed, w) \<Rightarrow> ed | _ \<Rightarrow> demo_editor), [])"
    using \<open>read_stmt [32] = ([], [32])\<close>
    by (simp add: line_program_def statement_of_def syntax_error_def fputs_def puts_def ask_only_def ask_def andthen_def
      demo_terminal_def give_def)
qed simp_all

end
