(* ===== verification/Redirects.thy ===== *)
theory Redirects
  imports ShellCommands Fds
begin

text \<open>
  The redirections of a command on the table of open files: the shell relies on three laws of the system calls,
  which the kernel's file table keeps. The record of the calls that the shell makes shows that it ends only after
  a call that failed, with the message for it.
\<close>

text \<open>The flags with which the shell opens the target of a redirection, whatever its direction.\<close>

abbreviation redirect_options :: u64 where "redirect_options \<equiv> O_CREAT_user OR O_TRUNCATE_user"

section \<open>The calls of a program\<close>

text \<open>An operating system with a record of the calls that a program made and their answers.\<close>

definition logged :: "'w os \<Rightarrow> ('w \<times> (sys_call \<times> answer) list) os" where
  "logged os c = (\<lambda>(w, log). let (a, w1) = os c w in (a, (w1, log @ [(c, a)])))"

lemma logged_eq: "logged os c (w, log) = (fst (os c w), (snd (os c w), log @ [(c, fst (os c w))]))"
  by (simp add: logged_def split: prod.split)

lemma logged_answer: "logged os c w = (a, w1) \<Longrightarrow> os c (fst w) = (a, fst w1)"
  by (cases w) (auto simp: logged_eq)

text \<open>A call that the shell takes for failed: an error, except from \<^verbatim>\<open>close\<close>, whose answer is not looked at.\<close>

definition refused :: "sys_call \<times> answer \<Rightarrow> bool" where
  "refused e = (case e of (Sc_Close fd, a) \<Rightarrow> False | (c, Answer r bs) \<Rightarrow> is_error r | (c, No_Return) \<Rightarrow> False)"

definition served :: "sys_call \<times> answer \<Rightarrow> bool" where
  "served e \<longleftrightarrow> \<not> refused e \<and> snd e \<noteq> No_Return"

text \<open>
  A program gives up at a call that does not return, or at a refused call, after which it prints the message for
  that call on the standard error output and exits with 1; all calls before were served.
\<close>

fun refusal_message :: "sys_call \<Rightarrow> u8 list" where
  "refusal_message (Sc_Open path opts) = u8p ''shell: failed to open file for redirect'' @ [10]"
| "refusal_message c = u8p ''shell: failed to duplicate fd''"

fun tells :: "u8 list \<Rightarrow> (sys_call \<times> answer) list \<Rightarrow> bool" where
  "tells msg [] = False"
| "tells msg (e # log) = (fst e = Sc_Write stderr msg \<and> (if snd e = No_Return then log = [] else map fst log = [Sc_Exit 1]))"

fun gives_up :: "(sys_call \<times> answer) list \<Rightarrow> bool" where
  "gives_up [] = False"
| "gives_up (e # log) =
     (if snd e = No_Return then log = []
      else if refused e then tells (refusal_message (fst e)) log else gives_up log)"

lemma gives_up_append: "list_all served pre \<Longrightarrow> gives_up (pre @ log) = gives_up log"
  by (induction pre) (simp_all add: served_def)

text \<open>How a piece of the shell went by the calls it added to the record.\<close>

definition went :: "'a ending \<Rightarrow> (sys_call \<times> answer) list \<Rightarrow> bool" where
  "went x log = (case x of Value v \<Rightarrow> list_all served log | Ended \<Rightarrow> gives_up log | _ \<Rightarrow> False)"

lemma do_redirect_went:
  "\<exists>x w1 log1. do_redirect (logged os) ri (w, log) = (x, (w1, log @ log1)) \<and> went x log1"
proof -
  let ?open = "Sc_Open (c_string (target_path ri)) redirect_options"
  obtain a w1 where open_: "os ?open w = (a, w1)" by fastforce
  show ?thesis
  proof (cases a)
    case No_Return
    then show ?thesis
      by (simp add: do_redirect_def ask_value_def ask_def andthen_def logged_eq open_ went_def)
  next
    case (Answer fd bs)
    show ?thesis
    proof (cases "is_error fd")
      case True
      obtain b w2 where write_: "os (Sc_Write stderr (refusal_message ?open)) w1 = (b, w2)" by fastforce
      show ?thesis
        using Answer True write_
        by (cases b) (simp_all add: do_redirect_def ask_value_def ask_only_def ask_def andthen_def give_def exit_def
            fputs_def logged_eq open_ went_def refused_def)
    next
      case False
      obtain b w2 where dup: "os (Sc_Dup2 fd (ri_fd ri)) w1 = (b, w2)" by fastforce
      show ?thesis
      proof (cases b)
        case No_Return
        then show ?thesis
          using Answer False
          by (simp add: do_redirect_def ask_value_def ask_def andthen_def give_def logged_eq open_ dup went_def refused_def)
      next
        case dr: (Answer r ds)
        show ?thesis
        proof (cases "is_error r")
          case True
          obtain e w3 where write_: "os (Sc_Write stderr (refusal_message (Sc_Dup2 fd (ri_fd ri)))) w2 = (e, w3)" by fastforce
          show ?thesis
            using Answer False dr True write_
            by (cases e) (simp_all add: do_redirect_def ask_value_def ask_only_def ask_def andthen_def give_def exit_def
                fputs_def logged_eq open_ dup went_def refused_def)
        next
          case nr: False
          obtain e w3 where close: "os (Sc_Close fd) w2 = (e, w3)" by fastforce
          show ?thesis
            using Answer False dr nr close
            by (cases e) (simp_all add: do_redirect_def ask_value_def ask_only_def ask_def andthen_def give_def
                logged_eq open_ dup went_def refused_def served_def)
        qed
      qed
    qed
  qed
qed

lemma redirects_went:
  "\<exists>x w1 log1. for_each rs (do_redirect (logged os)) (w, log) = (x, (w1, log @ log1)) \<and> went x log1"
proof (induction rs arbitrary: w log)
  case Nil
  then show ?case by (simp add: give_def went_def)
next
  case (Cons ri rs)
  obtain x w1 log1 where first: "do_redirect (logged os) ri (w, log) = (x, (w1, log @ log1))" "went x log1"
    using do_redirect_went [of os ri w log] by auto
  show ?case
  proof (cases x)
    case (Value v)
    obtain y w2 log2 where rest: "for_each rs (do_redirect (logged os)) (w1, log @ log1) = (y, (w2, log @ log1 @ log2))" "went y log2"
      using Cons.IH [of w1 "log @ log1"] by auto
    have "list_all served log1" using first(2) Value by (simp add: went_def)
    then have "went y (log1 @ log2)" using rest(2) by (cases y) (simp_all add: went_def gives_up_append)
    then show ?thesis using first(1) rest(1) Value by (simp add: andthen_def)
  qed (use first in \<open>simp_all add: andthen_def went_def\<close>)
qed

section \<open>Tables of open files\<close>

text \<open>
  \<open>ready n w\<close>: the table is well formed and \<open>n\<close> more files can be opened before the descriptors run out. \<open>file\<close> is
  what opening a path yields.
\<close>

locale fd_service =
  fixes os :: "'w os" and table :: "'w \<Rightarrow> u32 \<rightharpoonup> 'f" and ready :: "nat \<Rightarrow> 'w \<Rightarrow> bool" and file_at :: "u8 list \<Rightarrow> u64 \<Rightarrow> 'f"
  assumes open_law: "ready (Suc n) w \<Longrightarrow> os (Sc_Open path opts) w = (Answer r bs, w1) \<Longrightarrow> \<not> is_error r \<Longrightarrow>
      ready n w1 \<and> table w (ucast r) = None \<and> table w1 = (table w)(ucast r \<mapsto> file_at path opts)"
    and dup2_law: "ready n w \<Longrightarrow> table w (ucast b) \<noteq> None \<Longrightarrow> os (Sc_Dup2 a b) w = (Answer r bs, w1) \<Longrightarrow> \<not> is_error r \<Longrightarrow>
      ready n w1 \<and> (\<exists>x. table w (ucast a) = Some x \<and> table w1 = (table w)(ucast b \<mapsto> x))"
    and close_law: "ready n w \<Longrightarrow> os (Sc_Close a) w = (Answer r bs, w1) \<Longrightarrow>
      ready n w1 \<and> table w1 = (table w)(ucast a := None)"
begin

lemma do_redirect_table:
  assumes "do_redirect os ri w = (Value u, w1)" and "ready (Suc n) w" and "table w (ucast (ri_fd ri)) \<noteq> None"
  shows "ready n w1 \<and> table w1 = (table w)(ucast (ri_fd ri) \<mapsto> file_at (c_string (target_path ri)) redirect_options)"
proof -
  obtain old_fd w2 where op: "ask_value os (Sc_Open (c_string (target_path ri)) redirect_options) w = (Value old_fd, w2)"
    and rest: "(if is_error old_fd
       then andthen (fputs os (u8p ''shell: failed to open file for redirect'' @ [10]) stderr) (\<lambda>u. exit os 1)
       else andthen (ask_value os (Sc_Dup2 old_fd (ri_fd ri))) (\<lambda>dup2_result.
       if is_error dup2_result
       then andthen (fputs os (u8p ''shell: failed to duplicate fd'') stderr) (\<lambda>u. exit os 1)
       else ask_only os (Sc_Close old_fd))) w2 = (Value u, w1)"
    using assms(1) unfolding do_redirect_def andthen_Value by blast
  have no_error: "\<not> is_error old_fd" using rest by (auto simp: andthen_Value exit_def)
  then obtain r w3 where dup: "ask_value os (Sc_Dup2 old_fd (ri_fd ri)) w2 = (Value r, w3)"
    and close: "\<not> is_error r" "ask_only os (Sc_Close old_fd) w3 = (Value u, w1)"
    using rest by (auto simp: andthen_Value exit_def split: if_splits)
  obtain bs where "os (Sc_Open (c_string (target_path ri)) redirect_options) w = (Answer old_fd bs, w2)"
    using op by (auto simp: ask_value_def ask_def andthen_Value give_def split: prod.splits answer.splits)
  from open_law [OF assms(2) this no_error]
  have opened: "ready n w2" "table w (ucast old_fd) = None" "table w2 = (table w)(ucast old_fd \<mapsto> file_at (c_string (target_path ri)) redirect_options)"
    by simp_all
  have neq: "(ucast old_fd :: u32) \<noteq> ucast (ri_fd ri)" using opened(2) assms(3) by auto
  obtain bs' where "os (Sc_Dup2 old_fd (ri_fd ri)) w2 = (Answer r bs', w3)"
    using dup by (auto simp: ask_value_def ask_def andthen_Value give_def split: prod.splits answer.splits)
  from dup2_law [OF opened(1) _ this close(1)] opened(3) assms(3)
  have dupped: "ready n w3" "table w3 = (table w2)(ucast (ri_fd ri) \<mapsto> file_at (c_string (target_path ri)) redirect_options)" by auto
  obtain r' bs'' where "os (Sc_Close old_fd) w3 = (Answer r' bs'', w1)"
    using close(2) by (auto simp: ask_only_def ask_def andthen_Value give_def split: prod.splits answer.splits)
  from close_law [OF dupped(1) this] dupped(2) opened(2,3) neq show ?thesis
    by (auto simp: fun_eq_iff)
qed

lemma redirects_table:
  assumes "for_each rs (do_redirect os) w = (Value u, w1)" and "ready (length rs) w"
    and "\<forall>ri \<in> set rs. table w (ucast (ri_fd ri)) \<noteq> None"
  shows "table w1 = foldl (\<lambda>t ri. t(ucast (ri_fd ri) \<mapsto> file_at (c_string (target_path ri)) redirect_options)) (table w) rs"
  using assms
proof (induction rs arbitrary: w)
  case Nil
  then show ?case by (simp add: give_def)
next
  case (Cons ri rs)
  obtain w2 u2 where first: "do_redirect os ri w = (Value u2, w2)" and rest: "for_each rs (do_redirect os) w2 = (Value u, w1)"
    using Cons.prems(1) by (auto simp: andthen_Value)
  from do_redirect_table [OF first, of "length rs"] Cons.prems(2,3)
  have w2: "ready (length rs) w2" "table w2 = (table w)(ucast (ri_fd ri) \<mapsto> file_at (c_string (target_path ri)) redirect_options)" by auto
  then show ?case using Cons.IH [OF rest w2(1)] Cons.prems(3) by auto
qed

end

section \<open>The kernel's table\<close>

text \<open>
  The calls on the file table as the kernel carries them out: \<open>open_filp\<close>, \<open>sys_dup2\<close> and \<open>sys_close\<close>. What concerns the file
  systems and the terminal is a parameter: \<open>lookup\<close> is what \<^verbatim>\<open>open\<close> finds or creates at a path, an inode or one of its four
  error codes, and \<open>rest\<close> answers all other calls. A call in which the kernel panics does not return.
\<close>

definition kernel_answer :: "(kernel_state \<times> u64) res \<Rightarrow> kernel_state \<Rightarrow> answer \<times> kernel_state" where
  "kernel_answer r st = (case r of Inl e \<Rightarrow> (No_Return, st) | Inr (st1, v) \<Rightarrow> (Answer v [], st1))"

type_synonym lookup = "u8 list \<Rightarrow> u64 \<Rightarrow> 2 word + u64"

fun kernel_files :: "lookup \<Rightarrow> kernel_state os \<Rightarrow> kernel_state os" where
  "kernel_files lookup rest (Sc_Open path opts) st =
     (case lookup path opts of
        Inl k \<Rightarrow> (Answer (- 1 - ucast k) [], st)
      | Inr inode \<Rightarrow>
          kernel_answer (res_bind (open_filp inode st) (\<lambda>(st1, filp). Inr (st1, ucast (f_fd (filps st1 filp))))) st)"
| "kernel_files lookup rest (Sc_Dup2 a b) st = kernel_answer (sys_dup2 a b st) st"
| "kernel_files lookup rest (Sc_Close a) st = kernel_answer (sys_close a st) st"
| "kernel_files lookup rest call st = rest call st"

text \<open>The four codes are errors to the program.\<close>

lemma open_code_is_error: "is_error (- 1 - ucast (k :: 2 word))"
proof -
  have "unat k < 4" using unsigned_less [of k, where ?'a = nat] by simp
  then have "unat k = 0 \<or> unat k = 1 \<or> unat k = 2 \<or> unat k = 3" by arith
  then consider "k = 0" | "k = 1" | "k = 2" | "k = 3" by (auto simp: word_unat_eq_iff)
  then show ?thesis by cases (simp_all add: is_error_def)
qed

definition descriptors_left :: "nat \<Rightarrow> kernel_state \<Rightarrow> bool" where
  "descriptors_left n st \<longleftrightarrow> fd_table_ok st \<and> n < 2 ^ 32 \<and> (\<forall>fd \<in> dom (fds st). unat fd + n < 2 ^ 32)"

lemma last_fd_open:
  assumes "task_files st \<noteq> []"
  shows "fd_of st (last (task_files st)) \<in> dom (fds st)"
proof -
  have "find (\<lambda>f. fd_of st f = fd_of st (last (task_files st))) (task_files st) \<noteq> None"
    using last_in_set [OF assms] by (auto simp: find_None_iff)
  then show ?thesis by (auto simp: fds_def)
qed

lemma next_fd_bound:
  assumes "descriptors_left (Suc n) st"
  shows "task_files st = [] \<or> next_fd st \<noteq> 0" and "unat (next_fd st) + n < 2 ^ 32"
proof -
  have "unat (next_fd st) = (if task_files st = [] then 0 else unat (fd_of st (last (task_files st))) + 1) \<and>
      (task_files st = [] \<or> next_fd st \<noteq> 0) \<and> unat (next_fd st) + n < 2 ^ 32"
  proof (cases "task_files st = []")
    case True
    then show ?thesis using assms by (simp add: next_fd_def descriptors_left_def)
  next
    case False
    let ?last = "fd_of st (last (task_files st))"
    have "unat ?last + Suc n < 2 ^ 32" using last_fd_open [OF False] assms by (simp add: descriptors_left_def)
    moreover from this have "unat (?last + 1) = unat ?last + 1" by (subst unat_add_no_wrap) simp_all
    ultimately show ?thesis using False by (auto simp: next_fd_def unat_eq_zero [symmetric])
  qed
  then show "task_files st = [] \<or> next_fd st \<noteq> 0" and "unat (next_fd st) + n < 2 ^ 32" by simp_all
qed

lemma ucast_fd [simp]: "ucast (ucast (fd :: u32) :: u64) = fd"
proof -
  have less: "unat fd < 2 ^ 32" using unsigned_less [of fd] by simp
  then have "unat (ucast fd :: u64) = unat fd" by (subst unat_ucast_small) simp_all
  then have "unat (ucast (ucast fd :: u64) :: u32) = unat fd" using less by (subst unat_ucast_small) simp_all
  then show ?thesis by (simp add: word_unat_eq_iff)
qed

lemma kernel_open:
  assumes "descriptors_left (Suc n) st" and "kernel_files lookup rest (Sc_Open path opts) st = (Answer r bs, st1)"
    and "\<not> is_error r"
  shows "descriptors_left n st1 \<and> fds st (ucast r) = None \<and> fds st1 = (fds st)(ucast r \<mapsto> (projr (lookup path opts), 0))"
proof -
  obtain inode where inode: "lookup path opts = Inr inode"
    using assms(2,3) open_code_is_error by (cases "lookup path opts") auto
  obtain filp where op: "open_filp inode st = Inr (st1, filp)" and r: "r = ucast (f_fd (filps st1 filp))"
    using assms(2) inode by (auto simp: kernel_answer_def res_bind_def split: sum.splits prod.splits)
  have ok: "fd_table_ok st" using assms(1) by (simp add: descriptors_left_def)
  have "fd_table_ok st1 \<and> f_fd (filps st1 filp) = next_fd st \<and> fds st (next_fd st) = None \<and>
      fds st1 = (fds st)(next_fd st \<mapsto> (inode, 0))"
    using open_filp_fds [OF ok next_fd_bound(1) [OF assms(1)], of inode] by (simp add: op)
  then have facts: "fd_table_ok st1" "f_fd (filps st1 filp) = next_fd st" "fds st (next_fd st) = None"
    "fds st1 = (fds st)(next_fd st \<mapsto> (inode, 0))" by simp_all
  have "unat fd + n < 2 ^ 32" if "fd \<in> dom (fds st1)" for fd
  proof (cases "fd = next_fd st")
    case False
    then have "fd \<in> dom (fds st)" using that by (simp add: facts(4))
    then have "unat fd + Suc n < 2 ^ 32" using assms(1) unfolding descriptors_left_def by blast
    then show ?thesis by simp
  qed (use next_fd_bound(2) [OF assms(1)] in simp)
  then have "descriptors_left n st1" using facts(1) assms(1) by (simp add: descriptors_left_def)
  then show ?thesis by (simp add: r facts inode)
qed

lemma kernel_dup2:
  assumes "descriptors_left n st" and "fds st (ucast b) \<noteq> None"
    and "kernel_files lookup rest (Sc_Dup2 a b) st = (Answer r bs, st1)" and "\<not> is_error r"
  shows "descriptors_left n st1 \<and> (\<exists>x. fds st (ucast a) = Some x \<and> fds st1 = (fds st)(ucast b \<mapsto> x))"
proof -
  have d: "sys_dup2 a b st = Inr (st1, r)"
    using assms(3) by (auto simp: kernel_answer_def split: sum.splits prod.splits)
  have ok: "fd_table_ok st" using assms(1) by (simp add: descriptors_left_def)
  have "r \<noteq> -1" using assms(4) by (auto simp: is_error_def)
  then obtain x where "fds st (ucast a) = Some x" "fd_table_ok st1" "fds st1 = (fds st)(ucast b \<mapsto> x)"
    using sys_dup2_fds [OF ok, where old_fd = a and new_fd = b] by (auto simp: d split: option.splits)
  then show ?thesis using assms(1,2) by (auto simp: descriptors_left_def)
qed

lemma kernel_close:
  assumes "descriptors_left n st" and "kernel_files lookup rest (Sc_Close a) st = (Answer r bs, st1)"
  shows "descriptors_left n st1 \<and> fds st1 = (fds st)(ucast a := None)"
proof -
  have c: "sys_close a st = Inr (st1, r)"
    using assms(2) by (auto simp: kernel_answer_def split: sum.splits prod.splits)
  have ok: "fd_table_ok st" using assms(1) by (simp add: descriptors_left_def)
  then show ?thesis using sys_close_fds [OF ok, of a] assms(1) by (auto simp: c descriptors_left_def)
qed

interpretation kernel_fds: fd_service "logged (kernel_files lookup rest)" "\<lambda>w. fds (fst w)" "\<lambda>n w. descriptors_left n (fst w)"
  "\<lambda>path opts. (projr (lookup path opts), 0)" for lookup rest
proof unfold_locales
  fix n path opts r bs and w w1 :: "kernel_state \<times> (sys_call \<times> answer) list"
  assume "descriptors_left (Suc n) (fst w)" and "logged (kernel_files lookup rest) (Sc_Open path opts) w = (Answer r bs, w1)"
    and "\<not> is_error r"
  then show "descriptors_left n (fst w1) \<and> fds (fst w) (ucast r) = None \<and>
      fds (fst w1) = (fds (fst w))(ucast r \<mapsto> (projr (lookup path opts), 0))"
    by (intro kernel_open [where rest = rest and bs = bs]) (simp_all only: logged_answer not_False_eq_True)
next
  fix n b a r bs and w w1 :: "kernel_state \<times> (sys_call \<times> answer) list"
  assume "descriptors_left n (fst w)" and "fds (fst w) (ucast b) \<noteq> None"
    and "logged (kernel_files lookup rest) (Sc_Dup2 a b) w = (Answer r bs, w1)" and "\<not> is_error r"
  then show "descriptors_left n (fst w1) \<and> (\<exists>x. fds (fst w) (ucast a) = Some x \<and> fds (fst w1) = (fds (fst w))(ucast b \<mapsto> x))"
    by (intro kernel_dup2 [where lookup = lookup and rest = rest and bs = bs and r = r]) (simp_all only: logged_answer not_False_eq_True)
next
  fix n a r bs and w w1 :: "kernel_state \<times> (sys_call \<times> answer) list"
  assume "descriptors_left n (fst w)" and "logged (kernel_files lookup rest) (Sc_Close a) w = (Answer r bs, w1)"
  then show "descriptors_left n (fst w1) \<and> fds (fst w1) = (fds (fst w))(ucast a := None)"
    by (intro kernel_close [where lookup = lookup and rest = rest and bs = bs and r = r]) (simp_all only: logged_answer)
qed

section \<open>The shell on the kernel's table\<close>

text \<open>
  C19: The redirections of a command change the table of open files at the redirected descriptors only. Input and output
  are open, as in every command that the shell starts, and enough descriptors are left. When the redirections are done,
  no call of them was refused, each redirected descriptor stands for the file of the last redirection that names it, at
  its start, the descriptors that were opened on the way are closed again, and all other files stay open as they were.
  Otherwise the last call did not return, or \<^verbatim>\<open>open\<close> or \<^verbatim>\<open>dup2\<close> was refused, and the command then has printed the
  message for this call on the standard error output and exited with 1, without any further call: it never starts
  with a part of its redirections, and never ends when all calls are served.
\<close>

proposition redirects_replace:
  assumes "descriptors_left (length rs) st" and "fds st 0 \<noteq> None" and "fds st 1 \<noteq> None"
    and "\<forall>ri \<in> set rs. ri_fd ri = 0 \<or> ri_fd ri = 1"
  shows "case for_each rs (do_redirect (logged (kernel_files lookup rest))) (st, []) of
      (Value u, (st1, log)) \<Rightarrow> list_all served log \<and>
        fds st1 = foldl (\<lambda>t ri. t(ucast (ri_fd ri) \<mapsto>
          (projr (lookup (c_string (target_path ri)) redirect_options), 0))) (fds st) rs
    | (Ended, (st1, log)) \<Rightarrow> gives_up log
    | _ \<Rightarrow> False"
proof -
  obtain x st1 log where run: "for_each rs (do_redirect (logged (kernel_files lookup rest))) (st, []) = (x, (st1, log))"
    and went: "went x log"
    using redirects_went [of rs "kernel_files lookup rest" st "[]"] by auto
  have ready: "descriptors_left (length rs) (fst (st, []))" using assms(1) by simp
  have open_: "\<forall>ri \<in> set rs. fds (fst (st, [])) (ucast (ri_fd ri)) \<noteq> None" using assms(2-4) by auto
  show ?thesis
  proof (cases x)
    case (Value u)
    from kernel_fds.redirects_table [OF run [unfolded Value] ready open_] went Value show ?thesis
      by (simp add: run went_def)
  qed (use run went in \<open>simp_all add: went_def\<close>)
qed

lemma redirects_replace_witness:
  "case for_each [\<lparr>ri_fd = 1, target_path = [97, 0]\<rparr>]
      (do_redirect (logged (kernel_files (\<lambda>path opts. Inr 11) (\<lambda>c st. (Answer 0 [], st))))) (demo_fds 1, []) of
      (Value u, (st1, log)) \<Rightarrow> list_all served log \<and>
        fds st1 = foldl (\<lambda>t ri. t(ucast (ri_fd ri) \<mapsto>
          (projr ((\<lambda>path opts. Inr 11 :: 2 word + u64) (c_string (target_path ri)) redirect_options), 0)))
          (fds (demo_fds 1)) [\<lparr>ri_fd = 1, target_path = [97, 0]\<rparr>]
    | (Ended, (st1, log)) \<Rightarrow> gives_up log
    | _ \<Rightarrow> False"
proof (rule redirects_replace)
  have "dom (fds (demo_fds 1)) \<subseteq> {0, 1}"
    by (auto simp: fds_def demo_fds_facts find_Some_iff nth_Cons' split: if_splits)
  then show "descriptors_left (length [\<lparr>ri_fd = 1, target_path = [97, 0 :: u8]\<rparr>]) (demo_fds 1)"
    using demo_fds_ok [of 1] by (auto simp: descriptors_left_def)
qed (simp_all add: fds_def demo_fds_facts)

end
