(* ===== verification/Programs.thy ===== *)
theory Programs
  imports UserLib
begin

text \<open>
  The small programs of \<^verbatim>\<open>userspace/src\<close>. The list \<open>argv\<close> has the \<^verbatim>\<open>argc\<close> arguments, the name of the program first;
  a loop that the world may keep running is followed for a number of rounds.
\<close>

section \<open>Programs that make one call\<close>

definition clear_main :: "'w os \<Rightarrow> u8 list list \<Rightarrow> (u64, 'w) prog" where
  "clear_main os argv = andthen (puts os [27, 91, 72, 27, 91, 74]) (\<lambda>u. exit os 0)"

definition complain :: "'w os \<Rightarrow> string \<Rightarrow> (u64, 'w) prog" where
  "complain os s = andthen (fputs os (u8p s @ [10]) stderr) (\<lambda>u. exit os 1)"

definition mkdir_main :: "'w os \<Rightarrow> u8 list list \<Rightarrow> (u64, 'w) prog" where
  "mkdir_main os argv =
     (if length argv < 2 then complain os ''Expected a filepath argument''
      else andthen (ask_value os (Sc_Mkdir (argv ! 1))) (\<lambda>x.
           if is_error x then complain os ''Error'' else exit os 0))"

definition mount_main :: "'w os \<Rightarrow> u8 list list \<Rightarrow> (u64, 'w) prog" where
  "mount_main os argv =
     (if length argv < 4 then complain os ''mount: expected three arguments''
      else andthen (ask_only os (Sc_Mount (argv ! 1) (argv ! 2) (argv ! 3))) (\<lambda>u. exit os 0))"

definition touch_main :: "'w os \<Rightarrow> u8 list list \<Rightarrow> (u64, 'w) prog" where
  "touch_main os argv =
     (if length argv < 2 then complain os ''Expected a filepath argument''
      else andthen (ask_value os (Sc_Open (argv ! 1) 1)) (\<lambda>x.
           if sint x < 0 then complain os ''Error opening file'' else exit os 0))"

text \<open>\<^verbatim>\<open>parse_n_dec(arg, 100, &result)\<close> and the comparison of its result with the length of the argument.\<close>

definition decimal_argument :: "u8 list \<Rightarrow> u64 option" where
  "decimal_argument arg = (case parse_n_dec arg 100 of (parse_result, v) \<Rightarrow>
     if unat parse_result \<noteq> length arg then None else Some v)"

definition sleep_main :: "'w os \<Rightarrow> u8 list list \<Rightarrow> (u64, 'w) prog" where
  "sleep_main os argv =
     (if length argv < 2 then complain os ''sleep: expected some arguments''
      else case decimal_argument (argv ! 1) of
          None \<Rightarrow> complain os ''sleep: parse error''
        | Some millis \<Rightarrow> andthen (ask_value os (Sc_Sleep millis)) (\<lambda>r.
            if is_error r then complain os ''sleep: error'' else exit os 0))"

definition kill_main :: "'w os \<Rightarrow> u8 list list \<Rightarrow> (u64, 'w) prog" where
  "kill_main os argv =
     (if length argv < 2 then complain os ''kill: expected some arguments''
      else case decimal_argument (argv ! 1) of
          None \<Rightarrow> complain os ''kill: parse error''
        | Some pid \<Rightarrow> andthen (ask_value os (Sc_Kill pid 0)) (\<lambda>r.
            if is_error r then complain os ''kill: error'' else exit os 0))"

definition truncate_file :: "'w os \<Rightarrow> u8 list list \<Rightarrow> nat \<Rightarrow> u64 \<Rightarrow> (u64, 'w) prog" where
  "truncate_file os argv processed_argc truncate_size =
     (if length argv \<le> processed_argc then complain os ''truncate: expected filepath argument''
      else andthen (ask_value os (Sc_Open (argv ! processed_argc) 1)) (\<lambda>fd.
           if is_error fd then complain os ''Error opening file''
           else andthen (ask_value os (Sc_Ftruncate fd truncate_size)) (\<lambda>r.
                if is_error r then complain os ''Error truncating file'' else exit os 0)))"

definition truncate_main :: "'w os \<Rightarrow> u8 list list \<Rightarrow> (u64, 'w) prog" where
  "truncate_main os argv =
     (if length argv \<le> 1 then complain os ''truncate: expected some arguments''
      else if argv ! 1 = u8p ''-s''
      then (if length argv \<le> 2 then complain os ''truncate: expected size argument''
            else case decimal_argument (argv ! 2) of
                None \<Rightarrow> andthen (fputs os (u8p ''truncate: parse error'') stderr) (\<lambda>u. exit os 1)
              | Some n \<Rightarrow> truncate_file os argv 3 n)
      else truncate_file os argv 1 0)"

definition fault_main :: "'w os \<Rightarrow> u8 list list \<Rightarrow> (u64, 'w) prog" where
  "fault_main os argv =
     (if length argv < 2 then complain os ''Expected a fault type argument''
      else if argv ! 1 = u8p ''div-zero'' \<or> argv ! 1 = u8p ''priv-instr'' \<or> argv ! 1 = u8p ''bad-mem-read'' \<or>
              argv ! 1 = u8p ''bad-mem-write''
      then fault
      else complain os ''Unknown fault type. Not faulting'')"

section \<open>Programs that write text\<close>

definition echo_arg :: "'w os \<Rightarrow> u8 list list \<Rightarrow> nat \<Rightarrow> bool \<Rightarrow> (bool, 'w) prog" where
  "echo_arg os argv i trailing_newline =
     (if i = 1 \<and> argv ! i = u8p ''-n'' then give False
      else andthen (puts os (argv ! i)) (\<lambda>u.
           andthen (if i < length argv - 1 then puts os (u8p '' '') else give ()) (\<lambda>u. give trailing_newline)))"

definition echo_main :: "'w os \<Rightarrow> u8 list list \<Rightarrow> (u64, 'w) prog" where
  "echo_main os argv =
     andthen (thread (echo_arg os argv) [1..<length argv] True) (\<lambda>trailing_newline.
     andthen (if trailing_newline then puts os [10] else give ()) (\<lambda>u. exit os 0))"

fun cat_loop :: "nat \<Rightarrow> 'w os \<Rightarrow> u64 \<Rightarrow> u8 list \<Rightarrow> (u8 list, 'w) prog" where
  "cat_loop 0 os fd buf = (\<lambda>w. (Running, w))"
| "cat_loop (Suc rounds) os fd buf =
     andthen (ask os (Sc_Read fd 4096)) (\<lambda>(bytes_read, bytes).
     let buf1 = fill buf bytes
     in if is_error bytes_read
        then andthen (fputs os (u8p ''cat: error reading file'' @ [10]) stderr) (\<lambda>u. exit os 1)
        else if bytes_read = 0 then give buf1
        else if \<not> unat bytes_read \<le> length buf1 then fault
        else andthen (ask_only os (Sc_Write 1 (take (unat bytes_read) buf1))) (\<lambda>u. cat_loop rounds os fd buf1))"

definition cat_file :: "nat \<Rightarrow> 'w os \<Rightarrow> u8 list \<Rightarrow> u8 list \<Rightarrow> (u8 list, 'w) prog" where
  "cat_file rounds os arg buf =
     andthen (ask_value os (Sc_Open arg 0)) (\<lambda>fd.
     if is_error fd
     then andthen (fputs os (u8p ''cat: error opening '') stderr) (\<lambda>u.
          andthen (fputs os arg stderr) (\<lambda>u. andthen (fputs os [10] stderr) (\<lambda>u. exit os 1)))
     else andthen (cat_loop rounds os fd buf) (\<lambda>buf1. andthen (ask_only os (Sc_Close fd)) (\<lambda>u. give buf1)))"

definition cat_main :: "nat \<Rightarrow> 'w os \<Rightarrow> u8 list \<Rightarrow> u8 list list \<Rightarrow> (u64, 'w) prog" where
  "cat_main rounds os junk argv =
     (if length argv < 2 then complain os ''cat: expected a filepath argument''
      else andthen (thread (cat_file rounds os) (tl argv) junk) (\<lambda>buf. exit os 0))"

fun ls_loop :: "nat \<Rightarrow> 'w os \<Rightarrow> u8 list \<Rightarrow> nat \<Rightarrow> nat \<Rightarrow> (unit, 'w) prog" where
  "ls_loop 0 os buf n x = (\<lambda>w. (Running, w))"
| "ls_loop (Suc rounds) os buf n x =
     (if \<not> x < n then give ()
      else andthen (checked (read_le 2 buf x)) (\<lambda>len.
           andthen (string_at buf (x + 2)) (\<lambda>name.
           andthen (puts os name) (\<lambda>u. andthen (puts os [10]) (\<lambda>u. ls_loop rounds os buf n (x + len))))))"

definition ls_main :: "nat \<Rightarrow> 'w os \<Rightarrow> u8 list \<Rightarrow> u8 list list \<Rightarrow> (u64, 'w) prog" where
  "ls_main rounds os junk argv =
     andthen (ask_value os (Sc_Open (if length argv < 2 then u8p ''/'' else argv ! 1) 0)) (\<lambda>fd.
     if is_error fd then complain os ''Error opening''
     else andthen (ask os (Sc_Getdents fd 4096)) (\<lambda>(bytes_read, bytes).
          if is_error bytes_read then complain os ''Error in getdents''
          else andthen (ls_loop rounds os (fill junk bytes) (unat bytes_read) 0) (\<lambda>u. exit os 0)))"

text \<open>The record of a task: its number, the length of its name and its name.\<close>

fun ps_loop :: "nat \<Rightarrow> 'w os \<Rightarrow> u8 list \<Rightarrow> mem \<Rightarrow> nat \<Rightarrow> nat \<Rightarrow> (unit, 'w) prog" where
  "ps_loop 0 os buf pid_buf n x = (\<lambda>w. (Running, w))"
| "ps_loop (Suc rounds) os buf pid_buf n x =
     (if \<not> x < n then give ()
      else andthen (checked (read_le 4 buf x)) (\<lambda>pid.
           andthen (checked (read_le 2 buf (x + 4))) (\<lambda>len.
           andthen (checked (sprintf_dec (of_nat pid) 0 32 5 pid_buf)) (\<lambda>pid_buf1.
           andthen (puts_mem os 0 pid_buf1) (\<lambda>u.
           andthen (puts os (u8p '' '')) (\<lambda>u.
           andthen (string_at buf (x + 6)) (\<lambda>name.
           andthen (puts os name) (\<lambda>u.
           andthen (puts os [10]) (\<lambda>u. ps_loop rounds os buf pid_buf1 n (x + 6 + (len + 1)))))))))))"

definition ps_main :: "nat \<Rightarrow> 'w os \<Rightarrow> u8 list \<Rightarrow> mem \<Rightarrow> u64 \<Rightarrow> u8 list list \<Rightarrow> (u64, 'w) prog" where
  "ps_main rounds os junk pid_buf garbage argv =
     andthen (ask os (Sc_Gettasks 4096)) (\<lambda>(bytes_read, bytes).
     if is_error bytes_read then complain os ''Error in gettasks''
     else andthen (ps_loop rounds os (fill junk bytes) pid_buf (unat bytes_read) 0) (\<lambda>u. give garbage))"

section \<open>Programs that work on files\<close>

definition diff_main :: "'w os \<Rightarrow> u8 list \<Rightarrow> u8 list \<Rightarrow> u8 list list \<Rightarrow> (u64, 'w) prog" where
  "diff_main os a_junk b_junk argv =
     (if length argv \<noteq> 3 then complain os ''diff: expected two arguments''
      else andthen (ask_value os (Sc_Open (argv ! 1) 0)) (\<lambda>a_fd.
        if is_error a_fd
        then andthen (fputs os (u8p ''diff: error opening '') stderr) (\<lambda>u.
             andthen (fputs os (argv ! 1) stderr) (\<lambda>u. andthen (fputs os [10] stderr) (\<lambda>u. exit os 1)))
        else andthen (ask_value os (Sc_Open (argv ! 2) 0)) (\<lambda>b_fd.
        if is_error b_fd
        then andthen (fputs os (u8p ''diff: error opening '') stderr) (\<lambda>u.
             andthen (fputs os (argv ! 2) stderr) (\<lambda>u. andthen (fputs os [10] stderr) (\<lambda>u. exit os 1)))
        else andthen (ask os (Sc_Read a_fd 4096)) (\<lambda>(a_bytes_read, a_bytes).
        if is_error a_bytes_read then complain os ''diff: error reading file a''
        else andthen (ask os (Sc_Read b_fd 4096)) (\<lambda>(b_bytes_read, b_bytes).
        if is_error b_bytes_read then complain os ''diff: error reading file b''
        else if a_bytes_read \<noteq> b_bytes_read
        then andthen (puts os (u8p ''Files differ, they have different lengths'' @ [10])) (\<lambda>u. exit os 2)
        else if take (unat a_bytes_read) (fill a_junk a_bytes) \<noteq> take (unat a_bytes_read) (fill b_junk b_bytes)
        then andthen (puts os (u8p ''Files differ'' @ [10])) (\<lambda>u. exit os 2)
        else exit os 0)))))"

text \<open>The variable \<^verbatim>\<open>binary_buf\<close>, whose bytes the read stores.\<close>

definition increment_main :: "'w os \<Rightarrow> mem \<Rightarrow> u8 list list \<Rightarrow> (u64, 'w) prog" where
  "increment_main os text_buf argv =
     (if length argv < 2 then complain os ''Expected a filepath argument''
      else andthen (ask_value os (Sc_Open (argv ! 1) O_CREAT_user)) (\<lambda>fd.
        if is_error fd then complain os ''Error opening''
        else andthen (ask os (Sc_Read fd 8)) (\<lambda>(bytes_read, bytes).
        if bytes_read \<noteq> 8 then complain os ''Error reading''
        else let binary_buf = of_nat (le_nat (fill (le_bytes 8 7) bytes)) + 1 :: u64
        in andthen (ask_value os (Sc_Lseek fd 0 0)) (\<lambda>r.
        if is_error r then complain os ''Error seeking''
        else andthen (ask_value os (Sc_Write fd (le_bytes 8 (unat binary_buf)))) (\<lambda>written.
        andthen (if written \<noteq> 8 then fputs os (u8p ''Error writing'' @ [10]) stderr else give ()) (\<lambda>u.
        andthen (puts_mem os 0 (sprintf_uint64 binary_buf 0 text_buf)) (\<lambda>u.
        andthen (puts os [10]) (\<lambda>u. exit os 0))))))))"

text \<open>One line of \<^verbatim>\<open>hd\<close>: the text of the bytes that were read, in four groups.\<close>

definition hd_group :: "u64 \<Rightarrow> u8 list \<Rightarrow> nat \<Rightarrow> mem \<Rightarrow> mem" where
  "hd_group bytes_read binary_buffer i m =
     (let a = of_nat (9 * i) :: u64;
          m1 = (if sint bytes_read \<ge> int (4 * i + 1)
                then sprintf_uint8 (binary_buffer ! (4 * i)) (a + 1) (m(a := 32)) else m);
          m2 = (if sint bytes_read \<ge> int (4 * i + 2) then sprintf_uint8 (binary_buffer ! (4 * i + 1)) (a + 3) m1 else m1);
          m3 = (if sint bytes_read \<ge> int (4 * i + 3) then sprintf_uint8 (binary_buffer ! (4 * i + 2)) (a + 5) m2 else m2)
      in if sint bytes_read \<ge> int (4 * i + 4) then sprintf_uint8 (binary_buffer ! (4 * i + 3)) (a + 7) m3 else m3)"

definition hd_line :: "u64 \<Rightarrow> u8 list \<Rightarrow> mem \<Rightarrow> mem" where
  "hd_line bytes_read binary_buffer m = fold (hd_group bytes_read binary_buffer) [0..<4] (memset 0 0 38 m)"

fun hd_loop :: "nat \<Rightarrow> 'w os \<Rightarrow> u64 \<Rightarrow> u64 \<Rightarrow> u32 \<Rightarrow> u8 list \<Rightarrow> mem \<Rightarrow> (u32 \<times> mem, 'w) prog" where
  "hd_loop 0 os fd length_limit file_offset binary_buffer text_buffer = (\<lambda>w. (Running, w))"
| "hd_loop (Suc rounds) os fd length_limit file_offset binary_buffer text_buffer =
     andthen (ask os (Sc_Read fd 16)) (\<lambda>(bytes_read, bytes).
     let binary_buffer1 = fill binary_buffer bytes
     in if is_error bytes_read
        then andthen (fputs os (u8p ''Error reading'' @ [10]) stderr) (\<lambda>u. exit os 1)
        else if bytes_read = 0 then give (file_offset, text_buffer)
        else let text1 = sprintf_uint32 file_offset 0 (memset 0 0 38 text_buffer)
        in andthen (puts_mem os 0 text1) (\<lambda>u.
           andthen (puts os (u8p '':'')) (\<lambda>u.
           let text2 = hd_line bytes_read binary_buffer1 text1
           in andthen (puts_mem os 0 text2) (\<lambda>u.
              andthen (puts os [10]) (\<lambda>u.
              let file_offset1 = file_offset + ucast bytes_read
              in if length_limit \<noteq> 0 \<and> ucast file_offset1 > length_limit then give (file_offset1, text2)
                 else hd_loop rounds os fd length_limit file_offset1 binary_buffer1 text2)))))"

definition hd_dump :: "nat \<Rightarrow> 'w os \<Rightarrow> u8 list \<Rightarrow> mem \<Rightarrow> u8 list \<Rightarrow> u64 \<Rightarrow> (u64, 'w) prog" where
  "hd_dump rounds os binary_junk text_junk path length_limit =
     andthen (ask_value os (Sc_Open path 0)) (\<lambda>fd.
     if is_error fd then complain os ''Error opening''
     else andthen (hd_loop rounds os fd length_limit 0 binary_junk text_junk) (\<lambda>(file_offset, text_buffer).
          andthen (if file_offset > 0
             then andthen (puts_mem os 0 (sprintf_uint32 file_offset 0 (memset 0 0 38 text_buffer))) (\<lambda>u.
                  puts os (u8p '':'' @ [10]))
             else give ()) (\<lambda>u. exit os 0)))"

definition hd_main :: "nat \<Rightarrow> 'w os \<Rightarrow> u8 list \<Rightarrow> mem \<Rightarrow> u8 list list \<Rightarrow> (u64, 'w) prog" where
  "hd_main rounds os binary_junk text_junk argv =
     (if length argv < 2 then complain os ''hd: Expected a filepath argument''
      else if length argv > 2
      then (if argv ! 2 = u8p ''-n''
            then (if length argv < 4 then complain os ''hd: Expected a length limit''
                  else case decimal_argument (argv ! 3) of
                      None \<Rightarrow> complain os ''hd: parse error''
                    | Some length_limit \<Rightarrow> hd_dump rounds os binary_junk text_junk (argv ! 1) length_limit)
            else complain os ''hd: Unexpected argument'')
      else hd_dump rounds os binary_junk text_junk (argv ! 1) 0)"

section \<open>Programs that do not end\<close>

fun yield_forever :: "nat \<Rightarrow> 'w os \<Rightarrow> ('a, 'w) prog" where
  "yield_forever 0 os = (\<lambda>w. (Running, w))"
| "yield_forever (Suc rounds) os = andthen (ask_only os Sc_Sched_Yield) (\<lambda>u. yield_forever rounds os)"

definition loop_main :: "nat \<Rightarrow> 'w os \<Rightarrow> u8 list list \<Rightarrow> (u64, 'w) prog" where
  "loop_main rounds os argv = yield_forever rounds os"

text \<open>A child in which \<^verbatim>\<open>exec\<close> fails leaves \<^verbatim>\<open>exec_shell\<close> as its parent does.\<close>

definition exec_shell :: "'w os \<Rightarrow> (unit, 'w) prog" where
  "exec_shell os =
     andthen (ask_value os Sc_Fork) (\<lambda>pid.
     let shell_pid = ucast pid :: u32
     in if shell_pid = 0
        then andthen (ask_value os (Sc_Exec (u8p ''bin/shell'') [u8p ''bin/shell''])) (\<lambda>r.
             if is_error r then fputs os (u8p ''init: error starting shell'' @ [10]) stderr else give ())
        else give ())"

definition init_terminal :: "'w os \<Rightarrow> string \<Rightarrow> (unit, 'w) prog" where
  "init_terminal os dev =
     andthen (ask_value os (Sc_Open (u8p dev) 0)) (\<lambda>fd.
     andthen (ask_only os (Sc_Dup2 fd 0)) (\<lambda>u.
     andthen (ask_only os (Sc_Dup2 fd 1)) (\<lambda>u.
     andthen (ask_only os (Sc_Dup2 fd 2)) (\<lambda>u. ask_only os (Sc_Close fd)))))"

definition init_main :: "nat \<Rightarrow> 'w os \<Rightarrow> u8 list list \<Rightarrow> (u64, 'w) prog" where
  "init_main rounds os argv =
     andthen (ask_only os (Sc_Open (u8p ''dev/tty1'') 0)) (\<lambda>u.
     andthen (ask_only os (Sc_Open (u8p ''dev/tty1'') 0)) (\<lambda>u.
     andthen (ask_only os (Sc_Open (u8p ''dev/tty1'') 0)) (\<lambda>u.
     andthen (puts os (u8p ''Persistos64 on tty1'' @ [10])) (\<lambda>u.
     andthen (exec_shell os) (\<lambda>u.
     andthen (init_terminal os ''dev/tty2'') (\<lambda>u.
     andthen (puts os (u8p ''Persistos64 on tty2'' @ [10])) (\<lambda>u.
     andthen (exec_shell os) (\<lambda>u.
     andthen (init_terminal os ''dev/tty3'') (\<lambda>u.
     andthen (puts os (u8p ''Persistos64 on tty3'' @ [10])) (\<lambda>u.
     andthen (exec_shell os) (\<lambda>u. yield_forever rounds os)))))))))))"

end
