(* ===== verification/Tools.thy ===== *)
theory Tools
  imports Programs VfsFiles Dirents
begin

text \<open>
  What the small programs do: copying a file to the output, listing a directory, reading numbers.
\<close>

section \<open>Files that are read to their end\<close>

text \<open>
  What a program relies on that reads an open file: a read takes the next bytes of what is left, as many as there are
  up to the length asked for; a write to the output appends. \<open>left\<close> is what is left of the file, \<open>out\<close> what has
  been written.
\<close>

locale file_reader =
  fixes os :: "'w os" and fd :: u64 and left :: "'w \<Rightarrow> u8 list" and out :: "'w \<Rightarrow> u8 list" and inv :: "'w \<Rightarrow> bool"
  assumes read_law: "inv w \<Longrightarrow> unat n \<le> 4096 \<Longrightarrow> \<exists>w1.
      os (Sc_Read fd n) w = (Answer (of_nat (min (unat n) (length (left w)))) (take (unat n) (left w)), w1) \<and>
      inv w1 \<and> left w1 = drop (unat n) (left w) \<and> out w1 = out w"
    and write_law: "inv w \<Longrightarrow> \<exists>r bs w1. os (Sc_Write 1 bytes) w = (Answer r bs, w1) \<and>
      inv w1 \<and> left w1 = left w \<and> out w1 = out w @ bytes"
begin

lemma small_count:
  assumes "k \<le> 4096"
  shows "unat (of_nat k :: u64) = k" and "\<not> is_error (of_nat k)"
proof -
  have "sint (of_nat k :: u64) = int k" using assms by (simp add: signed_of_nat signed_take_bit_int_eq_self)
  then show "unat (of_nat k :: u64) = k" "\<not> is_error (of_nat k)"
    using assms by (simp_all add: is_error_def unat_of_nat_small)
qed

lemma round_count: "0 < n \<Longrightarrow> (n - 4096 + 4095) div 4096 + 1 \<le> (n + 4095) div (4096 :: nat)"
proof (cases "n < 4096")
  case True
  assume "0 < n"
  with True show ?thesis by (simp add: le_div_geq)
next
  case False
  then have "n + 4095 = (n - 4096 + 4095) + 4096" by simp
  then have "(n + 4095) div 4096 = (n - 4096 + 4095) div 4096 + 1" by simp
  then show ?thesis by simp
qed

lemma cat_loop_copies:
  assumes "inv w" and "length buf = 4096" and "(length (left w) + 4095) div 4096 < rounds"
  shows "\<exists>buf1 w1. cat_loop rounds os fd buf w = (Value buf1, w1) \<and> length buf1 = 4096 \<and>
    inv w1 \<and> left w1 = [] \<and> out w1 = out w @ left w"
  using assms
proof (induction "length (left w)" arbitrary: w buf rounds rule: less_induct)
  case less
  obtain rounds' where rounds: "rounds = Suc rounds'" using less.prems(3) by (cases rounds) simp_all
  let ?n = "min 4096 (length (left w))"
  obtain w1 where w1: "os (Sc_Read fd 4096) w = (Answer (of_nat ?n) (take 4096 (left w)), w1)"
    "inv w1" "left w1 = drop 4096 (left w)" "out w1 = out w"
    using read_law [OF less.prems(1), of 4096] by auto
  note n = small_count [of ?n]
  let ?buf = "fill buf (take 4096 (left w))"
  have buf: "length ?buf = 4096" "take ?n ?buf = take 4096 (left w)"
    using less.prems(2) by (simp_all add: fill_def min_def)
  have zero: "(of_nat ?n :: u64) = 0 \<longleftrightarrow> left w = []"
    using n(1) by (auto simp: word_unat_eq_iff min_def)
  have loop: "cat_loop rounds os fd buf w =
      (if left w = [] then (Value ?buf, w1)
       else andthen (ask_only os (Sc_Write 1 (take 4096 (left w)))) (\<lambda>u. cat_loop rounds' os fd ?buf) w1)"
    using n zero buf by (simp add: rounds andthen_def ask_def w1(1) Let_def give_def split: if_splits)
  show ?case
  proof (cases "left w = []")
    case True
    then show ?thesis using loop w1 buf(1) by simp
  next
    case False
    obtain r bs w2 where w2: "os (Sc_Write 1 (take 4096 (left w))) w1 = (Answer r bs, w2)"
      "inv w2" "left w2 = left w1" "out w2 = out w1 @ take 4096 (left w)"
      using write_law [OF w1(2)] by blast
    have shorter: "length (left w2) < length (left w)" using False w1(3) w2(3) by (cases "left w") simp_all
    have "(length (left w2) + 4095) div 4096 < rounds'"
      using less.prems(3) w1(3) w2(3) False round_count [of "length (left w)"] by (simp add: rounds)
    from less.hyps [OF shorter w2(2) buf(1) this] show ?thesis
      using loop False w1 w2 by (auto simp: andthen_def ask_only_step [of os _ w1 r bs w2])
  qed
qed

end

section \<open>The kernel's files\<close>

text \<open>
  A program on the kernel: reads are those of the file system on the open file, with the buffer of the program as a
  list; what is written to the output is collected.
\<close>

definition kernel_reader :: "kernel_state drivers \<Rightarrow> (kernel_state \<times> u8 list) os" where
  "kernel_reader devs call = (\<lambda>(st, out).
     (case call of
        Sc_Read fd n \<Rightarrow>
          let filp = current_filp fd st
          in if filp = 0 then (Answer (-1) [], (st, out))
             else (case vfs_read devs filp (replicate (unat n) 0) n st of
                 Inl e \<Rightarrow> (No_Return, (st, out))
               | Inr (st1, buffer, r) \<Rightarrow> (Answer r (take (unat r) buffer), (st1, out)))
      | Sc_Write fd bytes \<Rightarrow> (Answer (of_nat (length bytes)) [], (st, out @ bytes))
      | _ \<Rightarrow> (Answer 0 [], (st, out))))"

text \<open>What is left of the ramfs file that is open as \<open>fd\<close>.\<close>

definition ramfs_left :: "u64 \<Rightarrow> kernel_state \<Rightarrow> u8 list" where
  "ramfs_left fd st = (let filp = current_filp fd st
     in drop (unat (f_offset (filps st filp))) (ramfs_content st (ramfs_ino st filp)))"

definition ramfs_open :: "u64 \<Rightarrow> kernel_state \<Rightarrow> bool" where
  "ramfs_open fd st \<longleftrightarrow> (let filp = current_filp fd st
     in filp \<noteq> 0 \<and> regular_on Ramfs_Ops filp st \<and> ramfs_file_wf st (ramfs_ino st filp) \<and>
        unat (f_offset (filps st filp)) \<le> unat (ri_size (ramfs_inodes st (ramfs_ino st filp))) \<and>
        unat (ri_size (ramfs_inodes st (ramfs_ino st filp))) + 4096 < 2 ^ 64)"

lemma regular_on_same:
  assumes "inodes st' = inodes st" and "superblocks st' = superblocks st" and "f_inode (filps st' filp) = f_inode (filps st filp)"
  shows "regular_on ops filp st' = regular_on ops filp st"
  using inode_ops_same [OF assms(1,2)] assms(1,3) by (simp add: regular_on_def)

lemma current_filp_same:
  assumes "current st' = current st" and "\<And>f. f_fd (filps st' f) = f_fd (filps st f)"
  shows "current_filp fd st' = current_filp fd st"
  by (simp add: current_filp_def filp_find_def assms)

lemma kernel_read_step:
  assumes "ramfs_open fd st" and "unat n \<le> 4096"
  shows "\<exists>st1. kernel_reader devs (Sc_Read fd n) (st, out) =
      (Answer (of_nat (min (unat n) (length (ramfs_left fd st)))) (take (unat n) (ramfs_left fd st)), (st1, out)) \<and>
    ramfs_open fd st1 \<and> ramfs_left fd st1 = drop (unat n) (ramfs_left fd st)"
proof -
  define filp where "filp = current_filp fd st"
  define ino where "ino = ramfs_ino st filp"
  define off where "off = unat (f_offset (filps st filp))"
  have o: "filp \<noteq> 0" "regular_on Ramfs_Ops filp st" "ramfs_file_wf st (ramfs_ino st filp)"
    "unat (f_offset (filps st filp)) \<le> unat (ri_size (ramfs_inodes st (ramfs_ino st filp)))"
    "unat (ri_size (ramfs_inodes st ino)) + 4096 < 2 ^ 64"
    using assms(1) by (simp_all add: ramfs_open_def Let_def filp_def ino_def)
  let ?left = "ramfs_left fd st"
  have left: "?left = drop off (ramfs_content st ino)" by (simp add: ramfs_left_def Let_def filp_def ino_def off_def)
  have len: "length (ramfs_content st ino) = unat (ri_size (ramfs_inodes st ino))"
    using ramfs_content_length [OF o(3)] by (simp add: ino_def)
  have nowrap: "unat (f_offset (filps st filp)) + unat n < 2 ^ 64" using o(4,5) assms(2) by (simp add: ino_def)
  define k where "k = min (unat n) (length ?left)"
  define st1 where "st1 = upd_file filp (\<lambda>f. f\<lparr>f_offset := f_offset f + of_nat k\<rparr>) st"
  have k: "k = min (unat n) (length (ramfs_content st ino) - off)" by (simp add: left k_def)
  have uk: "unat (of_nat k :: u64) = k" using assms(2) by (intro unat_of_nat_small) (simp add: k_def)
  have "vfs_read devs filp (replicate (unat n) 0) n st = ramfs_read filp (replicate (unat n) 0) n st"
    using regular_onD(4) [OF o(2)] by (simp add: vfs_read_regular [OF o(2)] fs_read_def)
  also have "\<dots> = Inr (st1, take k ?left @ drop k (replicate (unat n) 0), of_nat k)"
    unfolding k left using ramfs_read_ok [OF o(3,4) nowrap, of "replicate (unat n) 0"] by (simp add: ino_def off_def k st1_def)
  finally have run: "kernel_reader devs (Sc_Read fd n) (st, out) = (Answer (of_nat k) (take (unat n) ?left), (st1, out))"
    using o(1) uk by (simp add: kernel_reader_def filp_def [symmetric] k_def min_def)
  have frame: "inodes st1 = inodes st" "superblocks st1 = superblocks st" "ramfs_inodes st1 = ramfs_inodes st"
    "f_fd (filps st1 f) = f_fd (filps st f)" "f_inode (filps st1 f) = f_inode (filps st f)" "current st1 = current st" for f
    by (simp_all add: st1_def upd_file_def current_def)
  have "current_filp fd st1 = current_filp fd st" by (rule current_filp_same) (simp_all only: frame)
  then have same: "current_filp fd st1 = filp" by (simp only: filp_def)
  have content: "ramfs_content st1 ino = ramfs_content st ino" by (simp add: st1_def)
  have "k \<le> unat n" by (simp add: k_def)
  then have off1: "unat (f_offset (filps st1 filp)) = off + k"
    using uk nowrap by (simp add: st1_def upd_file_def off_def unat_add_no_wrap)
  have ino1: "ramfs_ino st1 filp = ino" unfolding frame ino_def ..
  have "ramfs_left fd st1 = drop (off + k) (ramfs_content st ino)"
    unfolding ramfs_left_def Let_def same ino1 off1 content ..
  then have l1: "ramfs_left fd st1 = drop (unat n) ?left"
    by (simp add: left k min_def add.commute)
  have "regular_on Ramfs_Ops filp st1" using regular_on_same [OF frame(1,2,5)] o(2) by simp
  moreover have "off + k \<le> unat (ri_size (ramfs_inodes st ino))" using o(4) len by (simp add: k ino_def off_def)
  ultimately have "ramfs_open fd st1"
    unfolding ramfs_open_def Let_def same ino1 off1 frame(3) using o by (simp add: ino_def st1_def)
  with run l1 show ?thesis unfolding k_def by blast
qed

interpretation kernel_file: file_reader "kernel_reader devs" fd "\<lambda>(st, out). ramfs_left fd st" snd "\<lambda>(st, out). ramfs_open fd st"
  for devs fd
proof unfold_locales
  fix w :: "kernel_state \<times> u8 list" and n :: u64
  assume "case w of (st, out) \<Rightarrow> ramfs_open fd st" and "unat n \<le> 4096"
  then show "\<exists>w1. kernel_reader devs (Sc_Read fd n) w =
      (Answer (of_nat (min (unat n) (length (case w of (st, out) \<Rightarrow> ramfs_left fd st))))
        (take (unat n) (case w of (st, out) \<Rightarrow> ramfs_left fd st)), w1) \<and>
      (case w1 of (st, out) \<Rightarrow> ramfs_open fd st) \<and>
      (case w1 of (st, out) \<Rightarrow> ramfs_left fd st) = drop (unat n) (case w of (st, out) \<Rightarrow> ramfs_left fd st) \<and> snd w1 = snd w"
    using kernel_read_step [of fd "fst w" n devs "snd w"] by (cases w) auto
next
  fix w :: "kernel_state \<times> u8 list" and bytes
  assume "case w of (st, out) \<Rightarrow> ramfs_open fd st"
  then show "\<exists>r bs w1. kernel_reader devs (Sc_Write 1 bytes) w = (Answer r bs, w1) \<and>
      (case w1 of (st, out) \<Rightarrow> ramfs_open fd st) \<and>
      (case w1 of (st, out) \<Rightarrow> ramfs_left fd st) = (case w of (st, out) \<Rightarrow> ramfs_left fd st) \<and> snd w1 = snd w @ bytes"
    by (cases w) (simp add: kernel_reader_def)
qed

text \<open>
  C31: The loop of \<^verbatim>\<open>cat\<close> ends and has written exactly what was left of the file, whatever its length, when the
  file is one of ramfs that is open on the kernel; it takes one round for each 4096 bytes that are left, and one
  more for the end.
\<close>

proposition cat_loop_writes_file:
  assumes "ramfs_open fd st" and "length buf = 4096" and "(length (ramfs_left fd st) + 4095) div 4096 < rounds"
  shows "\<exists>buf1 st1. cat_loop rounds (kernel_reader devs) fd buf (st, out) = (Value buf1, (st1, out @ ramfs_left fd st)) \<and>
    ramfs_left fd st1 = []"
  using kernel_file.cat_loop_copies [of fd "(st, out)" buf rounds devs] assms by auto

text \<open>The open files of the example of file tables, on an inode of ramfs that is empty.\<close>

definition demo_file_kernel :: kernel_state where
  "demo_file_kernel = (demo_fds 4)
     \<lparr>inodes := (\<lambda>_. \<lparr>i_type = INODE_REGULAR_FILE, i_superblock = 8, i_private = 8, i_data = Dir_Data []\<rparr>),
      superblocks := (\<lambda>_. \<lparr>sb_private = 0, sb_ops = Ramfs_Ops, sb_device_fops = Null_Fops, sb_device = 0\<rparr>),
      ramfs_inodes := (\<lambda>_. \<lparr>ri_clusters = [], ri_size = 0\<rparr>)\<rparr>"

lemma demo_file_current: "current_filp 4 demo_file_kernel = 0x22058"
proof -
  have "current_filp 4 demo_file_kernel = current_filp 4 (demo_fds 4)"
    by (rule current_filp_same) (simp_all add: demo_file_kernel_def current_def)
  then show ?thesis
    using demo_fds_facts [of 4] by (simp add: current_filp_def filp_find_def fd_of_def task_files_def)
qed

lemma demo_file_open: "ramfs_open 4 demo_file_kernel" "ramfs_left 4 demo_file_kernel = []"
proof -
  have off: "f_offset (filps demo_file_kernel 0x22058) = 0"
    using demo_fds_facts(5) [of 4] by (simp add: demo_file_kernel_def open_of_def)
  moreover have inode: "f_inode (filps demo_file_kernel 0x22058) = 9"
    using demo_fds_facts(5) [of 4] by (simp add: demo_file_kernel_def open_of_def)
  moreover have "slab_wf demo_file_kernel"
  proof -
    have "slab_state.truncate demo_file_kernel = slab_state.truncate (demo_fds 4)"
      by (simp add: demo_file_kernel_def slab_state.truncate_def)
    then show ?thesis using demo_fds_ok [of 4] by (subst slab_wf_truncate) (simp add: fd_table_ok_def slab_wf_truncate [symmetric])
  qed
  moreover have fields: "i_type (inodes demo_file_kernel a) = INODE_REGULAR_FILE" "i_superblock (inodes demo_file_kernel a) = 8"
    "i_private (inodes demo_file_kernel a) = 8"
    "sb_ops (superblocks demo_file_kernel a) = Ramfs_Ops" "ramfs_inodes demo_file_kernel a = \<lparr>ri_clusters = [], ri_size = 0\<rparr>" for a
    by (simp_all add: demo_file_kernel_def)
  ultimately show "ramfs_open 4 demo_file_kernel"
    by (simp add: ramfs_open_def demo_file_current regular_on_def inode_ops_def ramfs_file_wf_def clusters_ok_def)
  show "ramfs_left 4 demo_file_kernel = []"
    by (simp add: ramfs_left_def demo_file_current fields ramfs_content_def)
qed

lemma cat_loop_writes_file_witness:
  "\<exists>buf1 st1. cat_loop 1 (kernel_reader (\<lambda>_. zero_device_fops)) 4 (replicate 4096 0) (demo_file_kernel, [7]) =
      (Value buf1, (st1, [7] @ ramfs_left 4 demo_file_kernel)) \<and> ramfs_left 4 st1 = []"
  by (rule cat_loop_writes_file) (simp_all add: demo_file_open)

section \<open>Directories\<close>

lemma string_at_name:
  assumes "0 \<notin> set name" and "drop i buf = name @ 0 # rest"
  shows "string_at buf i = give name"
proof -
  have "takeWhile (\<lambda>c. c \<noteq> 0) (name @ 0 # rest) = name" using assms(1) by (subst takeWhile_append2) auto
  then show ?thesis using assms(2) by (simp add: string_at_def c_string_def)
qed

definition print_lines :: "'w os \<Rightarrow> u8 list list \<Rightarrow> (unit, 'w) prog" where
  "print_lines os names = for_each names (\<lambda>name. andthen (puts os name) (\<lambda>u. puts os [10]))"

lemma ls_loop_names:
  fixes os :: "'w os"
  assumes "\<forall>name \<in> set names. name_ok name" and "length names < rounds"
  shows "ls_loop rounds os (pre @ dirents names @ junk) (length pre + length (dirents names)) (length pre) =
    print_lines os names"
  using assms
proof (induction names arbitrary: pre rounds)
  case Nil
  then obtain rounds' where "rounds = Suc rounds'" by (cases rounds) simp_all
  then show ?case by (simp add: dirents_def print_lines_def)
next
  case (Cons name names)
  obtain rounds' where rounds: "rounds = Suc rounds'" "length names < rounds'" using Cons.prems(2) by (cases rounds) simp_all
  have ok: "0 \<notin> set name" "length name + 3 < 256 ^ 2" using Cons.prems(1) by (simp_all add: name_ok_def)
  let ?buf = "pre @ dirents (name # names) @ junk" and ?x = "length pre"
  have d: "dirents (name # names) = dirent_bytes name @ dirents names" by (simp add: dirents_def)
  have l: "length (dirent_bytes name) = length name + 3" by (simp add: dirent_bytes_def)
  have "read_le 2 ?buf ?x = Inr (length name + 3)"
    using ok(2) by (subst read_le_ok) (simp_all add: d dirent_bytes_def le_nat_bytes)
  moreover have "string_at ?buf (?x + 2) = (give name :: (u8 list, 'w) prog)"
    by (rule string_at_name [OF ok(1), where rest = "dirents names @ junk"]) (simp add: d dirent_bytes_def)
  ultimately have "ls_loop rounds os ?buf (?x + length (dirents (name # names))) ?x =
      andthen (puts os name) (\<lambda>u. andthen (puts os [10]) (\<lambda>u.
        ls_loop rounds' os ?buf (?x + length (dirents (name # names))) (?x + (length name + 3))))"
    by (simp add: rounds(1) checked_def d l)
  also have "ls_loop rounds' os ?buf (?x + length (dirents (name # names))) (?x + (length name + 3)) = print_lines os names"
    using Cons.IH [of rounds' "pre @ dirent_bytes name"] Cons.prems(1) rounds(2) by (simp add: d l add.assoc)
  finally show ?case by (simp add: print_lines_def andthen_assoc)
qed

lemma fitting_length: "length (dirents (fitting room names)) \<le> room"
proof (induction names arbitrary: room)
  case (Cons name names)
  show ?case using Cons.IH [of "room - (length name + 3)"] by (auto simp: dirents_def dirent_bytes_def)
qed (simp add: dirents_def)

lemma small_length:
  assumes "k \<le> 4096"
  shows "unat (of_nat k :: u64) = k" and "\<not> is_error (of_nat k)"
proof -
  have "sint (of_nat k :: u64) = int k" using assms by (simp add: signed_of_nat signed_take_bit_int_eq_self)
  then show "unat (of_nat k :: u64) = k" "\<not> is_error (of_nat k)"
    using assms by (simp_all add: is_error_def unat_of_nat_small)
qed

text \<open>
  C32: \<^verbatim>\<open>ls\<close> prints the names of the directory that its argument names, each on a line of its own and in the order of
  the directory, as many as fit into its buffer, and exits with 0. It relies on the kernel only for the records of
  \<^verbatim>\<open>getdents\<close>, and its walk over them ends.
\<close>

proposition ls_prints_directory:
  assumes "os (Sc_Open (argv ! 1) 0) w = (Answer fd bs, w1)" and "\<not> is_error fd" and "2 \<le> length argv"
    and "os (Sc_Getdents fd 4096) w1 =
      (Answer (of_nat (length (dirents (fitting 4096 names)))) (dirents (fitting 4096 names)), w2)"
    and "\<forall>name \<in> set names. name_ok name" and "length (fitting 4096 names) < rounds" and "length junk = 4096"
  shows "ls_main rounds os junk argv w = andthen (print_lines os (fitting 4096 names)) (\<lambda>u. exit os 0) w2"
proof -
  let ?records = "dirents (fitting 4096 names)"
  have len: "length ?records \<le> 4096" by (rule fitting_length)
  have names: "\<forall>name \<in> set (fitting 4096 names). name_ok name" using assms(5) fitting_subset by blast
  have "fill junk ?records = [] @ ?records @ drop (length ?records) junk"
    using len assms(7) by (simp add: fill_def)
  then have "ls_loop rounds os (fill junk ?records) (length ?records) 0 = print_lines os (fitting 4096 names)"
    using ls_loop_names [OF names assms(6), of os "[]" "drop (length ?records) junk"] by simp
  moreover have "ls_main rounds os junk argv w =
      andthen (ls_loop rounds os (fill junk ?records) (length ?records) 0) (\<lambda>u. exit os 0) w2"
    using assms(1-4) small_length [OF len]
    by (simp add: ls_main_def andthen_def ask_value_def ask_def give_def)
  ultimately show ?thesis by simp
qed

definition demo_listing :: "nat os" where
  "demo_listing call n = (case call of
      Sc_Open path opts \<Rightarrow> (Answer 3 [], n)
    | Sc_Getdents fd len \<Rightarrow> (Answer (of_nat (length (dirents [[97], [98, 99]]))) (dirents [[97], [98, 99]]), n)
    | Sc_Write fd bytes \<Rightarrow> (Answer (of_nat (length bytes)) [], n + length bytes)
    | _ \<Rightarrow> (Answer 0 [], n))"

lemma ls_prints_directory_witness:
  "ls_main 3 demo_listing (replicate 4096 0) [[108, 115], [47]] 0 =
    andthen (print_lines demo_listing (fitting 4096 [[97], [98, 99]])) (\<lambda>u. exit demo_listing 0) 0"
proof (rule ls_prints_directory)
  have "fitting 4096 [[97], [98, 99 :: u8]] = [[97], [98, 99]]" by simp
  then show "demo_listing (Sc_Getdents 3 4096) 0 =
      (Answer (of_nat (length (dirents (fitting 4096 [[97], [98, 99]])))) (dirents (fitting 4096 [[97], [98, 99]])), 0)"
    by (simp add: demo_listing_def)
qed (simp_all add: demo_listing_def is_error_def name_ok_def)

section \<open>Numbers\<close>

definition is_dec_digit :: "u8 \<Rightarrow> bool" where
  "is_dec_digit c \<longleftrightarrow> 48 \<le> c \<and> c \<le> 57"

lemma digit_value: "is_dec_digit c \<Longrightarrow> unat (ucast c - 48 :: u64) = unat c - 48"
  by (subst unat_sub_no_wrap) (simp_all add: is_dec_digit_def word_le_nat_alt unat_ucast_small)

lemma parse_n_dec_loop_eq:
  "parse_n_dec_loop bs n tmp c =
    (let ds = takeWhile is_dec_digit (take (n - c) bs)
     in (c + length ds, foldl (\<lambda>v d. v * 10 + (ucast d - 48)) tmp ds))"
proof (induction bs arbitrary: tmp c)
  case Nil
  then show ?case by simp
next
  case (Cons b bs)
  show ?case
  proof (cases "c < n")
    case True
    then have "n - c = Suc (n - Suc c)" by simp
    then show ?thesis using Cons [of _ "Suc c"] True by (simp add: is_dec_digit_def Let_def)
  next
    case False
    then show ?thesis by (simp add: Let_def)
  qed
qed

lemma digits_fold:
  assumes "list_all is_dec_digit ds"
  shows "foldl (\<lambda>v d. v * 10 + (ucast d - 48)) (of_nat v) ds = (of_nat (foldl (\<lambda>v c. 10 * v + (unat c - 48)) v ds) :: u64)"
  using assms
proof (induction ds arbitrary: v)
  case (Cons d ds)
  have "(ucast d - 48 :: u64) = of_nat (unat d - 48)"
    using digit_value [of d] Cons.prems by (metis list.pred_inject(2) of_nat_unat ucast_id)
  then have digit: "of_nat v * 10 + (ucast d - 48) = (of_nat (10 * v + (unat d - 48)) :: u64)" by simp
  show ?case unfolding foldl_Cons digit using Cons.prems by (intro Cons.IH) simp
qed simp

text \<open>
  The programs that take a number read it exactly: an argument is accepted if and only if all its characters are
  decimal digits and it has at most 100 of them, and its value is then the number modulo 2 to the 64. The empty
  argument is accepted as 0.
\<close>

lemma decimal_argument_value:
  "decimal_argument arg =
    (if list_all is_dec_digit arg \<and> length arg \<le> 100 then Some (of_nat (dec_value arg)) else None)"
proof -
  define ds where "ds = takeWhile is_dec_digit (take 100 (arg @ [0]))"
  have run: "parse_n_dec arg 100 = (of_nat (length ds), foldl (\<lambda>v d. v * 10 + (ucast d - 48)) 0 ds)"
    by (simp add: parse_n_dec_def parse_n_dec_loop_eq ds_def Let_def)
  have "length ds \<le> length (take 100 (arg @ [0]))" unfolding ds_def by (rule length_takeWhile_le)
  then have "length ds \<le> 100" by simp
  then have small: "unat (of_nat (length ds) :: u8) = length ds" by (intro unat_of_nat_small) simp
  have digits: "list_all is_dec_digit ds" by (auto simp: ds_def list_all_iff dest: set_takeWhileD)
  have front: "take (length ds) (take 100 (arg @ [0])) = ds"
    unfolding ds_def by (metis append_eq_conv_conj takeWhile_dropWhile_id)
  have same: "ds = arg" if len: "length ds = length arg"
  proof -
    have "length arg \<le> 100" using len \<open>length ds \<le> 100\<close> by (simp only:)
    then have "take (length arg) (take 100 (arg @ [0])) = arg" by simp
    then show ?thesis using front unfolding len by (simp only:)
  qed
  have "length ds = length arg \<longleftrightarrow> list_all is_dec_digit arg \<and> length arg \<le> 100"
  proof
    assume "length ds = length arg"
    then have "ds = arg" by (rule same)
    then show "list_all is_dec_digit arg \<and> length arg \<le> 100" using digits \<open>length ds \<le> 100\<close> by simp
  next
    assume ok: "list_all is_dec_digit arg \<and> length arg \<le> 100"
    have "takeWhile is_dec_digit (arg @ take (100 - length arg) [0]) = arg"
      using ok by (subst takeWhile_append2) (auto simp: list_all_iff take_Cons' is_dec_digit_def)
    then show "length ds = length arg" using ok by (simp add: ds_def)
  qed
  then show ?thesis
    using digits_fold [OF digits, of 0] same by (auto simp: decimal_argument_def run small dec_value_def)
qed

end
