(* ===== verification/Spec2Isabelle.thy ===== *)
theory Spec2Isabelle
  imports KList CStd VfsFiles Font Tty Keyboard SysFs ExFat Boot Sched ProcessMemory Fds Waiting Controller Dirents Tar Probe Interrupts Editor Redirects Tools
begin

text \<open>
  A model of persistos64: a 64-bit kernel, and the programs that run on it. The kernel (\<^verbatim>\<open>kernel/src\<close>) boots
  from a boot loader's responses, manages pages, slabs and page tables, has a virtual file system over
  ramfs, exFAT and sysfs, drivers for terminals, keyboard, PCI, timer and NVMe, a scheduler and twenty
  system calls. The programs (\<^verbatim>\<open>userspace/src\<close>) are a library, a shell and small tools. This theory imports
  all the others; it holds no definitions.

  \<^bold>\<open>How the parts interact.\<close> One state is threaded through the kernel. It is a record that every layer
  extends: \<open>kmem_state\<close> (pages), \<open>slab_state\<close> (slabs), \<open>paging_state\<close> (page tables and page contents),
  \<open>vfs_state\<close> (inodes, dentries, open files), the states of terminals and keyboard, \<open>fs_state\<close> and
  \<open>device_state\<close> (exFAT, sysfs, device tables), \<open>kernel_state\<close> (tasks). An operation of a layer takes a
  state of any extension of its record, so the upper layers call it as the C code does. A function that can
  fail returns \<open>res\<close>: the outcomes \<^verbatim>\<open>panic\<close>, an access outside an array or object, an endless wait and a
  halted processor are values of \<open>error\<close>. Error codes that the C code returns are ordinary results. C
  integers are words of their width, so that wrapping around is part of the model; indices bounded by an
  array are natural numbers.

  \<^bold>\<open>Memory.\<close> Kernel objects of one type form a heap from addresses to records; the addresses come from the
  slab allocator that the C code takes them from, whose invariant \<open>slab_wf\<close> says that live objects do not
  overlap, which is what makes separate heaps a faithful view of one memory. Lists that are embedded in
  objects are the sequences of their members; theory \<open>KList\<close> proves this view sound for the pointer
  operations of \<^verbatim>\<open>list.c\<close> (\<^verbatim>\<open>list_operations_visit\<close>). Pages that are used as bytes, page tables and queues
  of a device are memory by address. Strings are byte arrays with their terminator; copying into a fixed
  array checks its bounds (\<open>array_strcpy\<close>).

  \<^bold>\<open>Kernel: foundations.\<close>
  \<^item> \<open>Prelude\<close>: integer types, \<open>res\<close>, array access, lemmas on words and lists.
  \<^item> \<open>KList\<close> (\<^verbatim>\<open>lib/list.c\<close>): insertion and deletion act on the sequence of members, and iteration visits it.
  \<^item> \<open>CStd\<close> (\<^verbatim>\<open>lib/cstd.c\<close>): copying with overlap, comparison, printing and reading of numbers. The same file
    is copied into \<^verbatim>\<open>userspace/src\<close>.
  \<^item> \<open>Kmem\<close> (\<^verbatim>\<open>mm/kmem.c\<close>): allocation is first fit, freeing undoes it, counters agree with the page array.
  \<^item> \<open>Slab\<close> (\<^verbatim>\<open>mm/slab.c\<close>): a new object is disjoint from all live ones and stays allocated until it is
    freed.
  \<^item> \<open>Paging\<close> (\<^verbatim>\<open>mm/map.c\<close>): a new mapping translates as asked, every other address as before. The
    specification is the table walk of the processor, which asks for the access bits of every directory
    entry.

  \<^bold>\<open>Kernel: file systems.\<close>
  \<^item> \<open>VfsTypes\<close>, \<open>Bytes\<close>, \<open>Devices\<close>: data of \<^verbatim>\<open>fs/vfs.h\<close>, \<^verbatim>\<open>fs/ramfs.h\<close>, \<^verbatim>\<open>fs/exfat.h\<close>, little-endian access,
    the device tables and \<^verbatim>\<open>drivers/zero.c\<close>.
  \<^item> \<open>RamFs\<close> (\<^verbatim>\<open>fs/ramfs.c\<close>): the clusters of a file represent its content; read, write and change of the
    size act on the content as on a byte string.
  \<^item> \<open>ExFat\<close> (\<^verbatim>\<open>fs/exfat.c\<close>): mounting, directories, cluster chains, reading and writing. Reading inside the
    first page of a file returns the bytes of the device.
  \<^item> \<open>SysFs\<close> (\<^verbatim>\<open>fs/sysfs.c\<close>): a read returns a prefix of the text of the file, the next one nothing.
  \<^item> \<open>Vfs\<close>, \<open>Resolve\<close>, \<open>VfsFiles\<close> (\<^verbatim>\<open>fs/vfs.c\<close>): path resolution refines a walk down the tree; creation makes
    its path resolve to a fresh file and changes no other path; what is written is read back.
  \<^item> \<open>Tar\<close> (\<^verbatim>\<open>fs/tar.c\<close>): the loader of the boot archive does to the image of a list of files what creating
    and writing these files one by one does.

  \<^bold>\<open>Kernel: devices.\<close>
  \<^item> \<open>Font\<close>, \<open>Tty\<close> (\<^verbatim>\<open>drivers/font.c\<close>, \<^verbatim>\<open>drivers/tty.c\<close>): output of any bytes stays inside the screen; the
    input buffer is a bounded queue.
  \<^item> \<open>Keyboard\<close> (\<^verbatim>\<open>drivers/keyboard.c\<close>): typed keys become the characters of the key maps.
  \<^item> \<open>Nvme\<close>, \<open>NvmePart\<close>, \<open>Probe\<close> (\<^verbatim>\<open>drivers/nvme.c\<close>, \<^verbatim>\<open>drivers/nvmepart.c\<close>, \<^verbatim>\<open>drivers/pci.c\<close>,
    \<^verbatim>\<open>drivers/pit.c\<close>): queues, commands, transfers, interrupts, partitions, detection. \<open>Commands\<close>: an
    identifier belongs to one command at a time, transfers stay inside a partition. \<open>Transfers\<close>,
    \<open>Controller\<close>: reading and writing the disk are reading and overwriting bytes of a medium, for every
    controller that serves commands; exFAT on a partition of such a disk, read from within the first page of
    a file, delivers the bytes of its clusters.

  \<^bold>\<open>Kernel: tasks.\<close>
  \<^item> \<open>Tasks\<close>, \<open>Sched\<close> (\<^verbatim>\<open>kernel/scheduler.c\<close>, \<^verbatim>\<open>scheduler.s\<close>): round robin; every running task gets its turn.
  \<^item> \<open>Userspace\<close> (\<^verbatim>\<open>mm/userspace.c\<close>, \<^verbatim>\<open>fs/elf.h\<close>): memory of a process, loading of programs, copying for
    \<^verbatim>\<open>fork\<close>.
  \<^item> \<open>Spaces\<close>, \<open>UserMemory\<close>, \<open>ProcessMemory\<close>: the memory of a process as a partial map \<open>user_image\<close> from
    addresses to bytes, which its page tables and pages represent. A new process gets zeroes in exactly its
    ranges, \<^verbatim>\<open>fork\<close> gives the child an equal map of pages of its own, \<^verbatim>\<open>brk\<close> extends the map by zeroes, and
    ending a process gives its pages and tables back to the allocator; no other process sees a change.
  \<^item> \<open>Syscall\<close> (\<^verbatim>\<open>kernel/syscall.c\<close>): every call and the dispatcher. \<open>Opening\<close>: \<^verbatim>\<open>open\<close> is the making of one
    descriptor between steps that leave the table of open files alone. \<open>Fds\<close>: this table refines a finite
    map under the making of a descriptor, close and dup2, and stays well formed in every run of a task until
    its descriptors wrap around. \<open>Dirents\<close>: \<^verbatim>\<open>getdents\<close> writes the longest prefix of the directory that
    fits. \<open>Waiting\<close>: how long \<^verbatim>\<open>sleep\<close> waits.
  \<^item> \<open>Interrupts\<close> (\<^verbatim>\<open>arch/idt.c\<close>, \<^verbatim>\<open>arch/pic.s\<close>), \<open>Boot\<close> (\<^verbatim>\<open>kernel/main.c\<close>, \<^verbatim>\<open>arch/gdt.s\<close>): descriptor
    tables, handlers, and \<^verbatim>\<open>kmain\<close> up to the first switch to a task.

  \<^bold>\<open>Programs.\<close>
  \<^item> \<open>UserLib\<close> (\<^verbatim>\<open>persistos.c\<close>, \<^verbatim>\<open>persistos.h\<close>, \<^verbatim>\<open>persistos.s\<close>): a program is a function over a parameter
    that answers system calls; it may give a value, exit, fault or run on.
  \<^item> \<open>ShellParser\<close>, \<open>ShellGrammar\<close> (\<^verbatim>\<open>shell.c\<close>): the parser accepts the longest statement of an inductively
    defined grammar.
  \<^item> \<open>Shell\<close>, \<open>ShellCommands\<close>, \<open>Editor\<close>: execution of a line performs the calls that its statement asks for;
    the line editor executes the line that a two-string editor holds, unless Enter was typed inside the line
    before. \<open>Redirects\<close>: redirections on the kernel's table of open files, done or ended with the message
    for the call that failed.
  \<^item> \<open>Programs\<close>, \<open>Tools\<close> (the other programs): \<^verbatim>\<open>cat\<close> writes the file out, \<^verbatim>\<open>ls\<close> the names of the directory,
    arguments are read as decimal numbers.

  \<^bold>\<open>Interfaces.\<close> A locale stands between the layers: \<open>allocator\<close> (pages and slabs), \<open>linked_sequence\<close> (the
  pointer lists), \<open>bounded_queue\<close> (the input of a terminal), \<open>block_device\<close> (what exFAT needs of a device:
  \<^verbatim>\<open>/dev/zero\<close>, the NVMe disk and its partitions provide it), \<open>nvme_controller\<close> (what the driver needs of
  the controller and of the interrupts while it waits: \<open>simple_hw\<close>, a controller that carries out the
  commands of the submission queue and calls the driver's interrupt handler, provides it). The loops that
  add a page to an address space for every address of a range share the locale \<open>page_filler\<close>, interpreted by
  the loops that zero pages, copy them for \<^verbatim>\<open>fork\<close> and extend the heap for \<^verbatim>\<open>brk\<close>. What the shell needs of
  the calls on descriptors is the locale \<open>fd_service\<close>, interpreted by the kernel's calls (\<open>kernel_fds\<close>,
  where finding or creating the file of a path is a parameter); what \<^verbatim>\<open>cat\<close> needs of a file is
  \<open>file_reader\<close>, interpreted by a ramfs file (\<open>kernel_file\<close>). Properties about the programs that rest on the
  kernel are stated over these interpretations.

  \<^bold>\<open>Hardware and other parameters.\<close> The record \<open>hardware\<close> holds what ports and device registers answer and
  what happens while a task waits. What theorems about the disk assume of the controller is the law of
  \<open>nvme_controller\<close>: a submitted read or write command is carried out on the medium and completed before the
  wait for it ends. Contents of uninitialised memory, the interrupts to come and the answers of the
  operating system to a program are arguments; theorems hold for all of them, or state what they need.
  Drivers of block devices are reached through their file operations, as in the C code.

  \<^bold>\<open>Loops, bounds and fuel.\<close> Loops over arrays and lists are structural recursion; others have a termination
  proof. String loops that only a zero byte stops are partial functions whose value is undefined when there
  is none. Polling loops are followed for \<open>hw_polls\<close> rounds, beyond which a wait counts as endless; no
  property assumes a value of it. \<open>yield_loop\<close> counts the tasks it looks at, and the length of the task list
  is enough to find one that runs or to come back to the current one (\<^verbatim>\<open>task_yield_next\<close>).
  \<open>extract_tar_files\<close> counts entries, one more than the archive has is enough. \<open>cat_loop\<close> needs one round
  for each 4096 bytes, rounded up, and one for the end of the file; the editor one for each key; the script
  loop one for each line. Without enough rounds these programs are still \<open>Running\<close>.

  \<^bold>\<open>What the proofs showed about the code.\<close> A read of exFAT at or behind offset 4096 takes the bytes of the
  first cluster, and a write to it moves the offset twice. \<^verbatim>\<open>open\<close> reuses a descriptor when the highest one
  is the largest number, and \<^verbatim>\<open>dup2\<close> of a descriptor to itself inserts a freed file. \<^verbatim>\<open>sleep\<close> of 0 waits for
  ages. A transfer that starts behind a partition runs into the next. The check of characters in the
  terminal's painting admits one glyph too many, the keyboard's check of releases one scancode too many, the
  driver's check of identifiers one command too many. A failed command of the disk is printed but counted as
  a transfer, and the last page of a disk whose size is not a multiple of 4096 cannot be transferred. A
  blocking read of length 0 overruns its buffer. \<^verbatim>\<open>mkdir\<close> on exFAT reports success. Enter with the cursor
  inside the line makes the shell write in front of its buffer at the next key. Input redirection empties
  the file. \<^verbatim>\<open>diff\<close> compares one page. A page of a process that is mapped twice leaves a frame that is never
  freed.

  \<^bold>\<open>Not modelled.\<close> \<^verbatim>\<open>lib/cc-runtime.c\<close> is the compiler's runtime library and \<^verbatim>\<open>lib/limine.h\<close> the boot
  loader's protocol, both third-party; the responses that the kernel reads are arguments of \<open>kmain\<close>. The
  single instructions of \<^verbatim>\<open>arch/asm.c\<close> (ports, control registers, halting) are the parameter \<open>hardware\<close>, the
  page table in use and an outcome; the processor's cache of translations is not modelled, a translation is
  a walk of the tables. The entry points of \<^verbatim>\<open>arch/idt.s\<close> save and restore registers, which a task keeps as
  values. The loading of segment registers, spin locks that are never taken and build files have no state in
  the model. The shell's parse trees are values: the blocks that \<^verbatim>\<open>malloc\<close> gives are never freed or shared,
  and the calls of \<^verbatim>\<open>brk\<close> behind it are not in the sequence of calls. A user program reads and writes
  through the page tables in \<open>Userspace\<close> and \<open>Syscall\<close>, and passes lists of bytes to the calls in \<open>UserLib\<close>.
\<close>

end
